(* ===== verification/Liano_Prelude.thy ===== *)
theory Liano_Prelude
  imports Main "HOL-Library.Word" "HOL-Library.Monad_Syntax" "HOL-Library.Multiset"
begin

text \<open>
  Shared vocabulary of the development: the machine types of the X64 build, the status codes, the
  reading of a failed ASSERT, and the generic lemmas on lists, options and words that the component
  theories use.

  A call of the firmware that may not return has an \<open>option\<close> result: \<open>None\<close> is the processor never
  coming back to the caller, because an ASSERT failed (in a DEBUG build of OVMF a failed ASSERT ends
  in \<open>CpuDeadLoop\<close>) or because a loop is still running when the fuel that bounds the model is spent.
  A theorem that a call gives \<open>Some\<close> therefore says that no ASSERT fires and that every loop ends.
\<close>

section \<open>Machine types\<close>

type_synonym UINT8 = "8 word"
type_synonym UINT16 = "16 word"
type_synonym UINT32 = "32 word"
type_synonym UINT64 = "64 word"
type_synonym UINTN = "64 word"

text \<open>
  The signed types have the same carrier; a signed operand is read with \<^const>\<open>sint\<close> and widened
  with \<^const>\<open>signed\<close>.
\<close>

type_synonym INT8 = "8 word"
type_synonym CHAR8 = "8 word"
type_synonym INT16 = "16 word"
type_synonym INT32 = "32 word"
type_synonym INT64 = "64 word"
type_synonym INTN = "64 word"

text \<open>A GUID as CompareGuid reads it: its two halves.\<close>

type_synonym EFI_GUID = "UINT64 \<times> UINT64"

section \<open>Status codes\<close>

datatype EFI_STATUS =
    EFI_SUCCESS
  | EFI_LOAD_ERROR
  | EFI_INVALID_PARAMETER
  | EFI_UNSUPPORTED
  | EFI_BAD_BUFFER_SIZE
  | EFI_BUFFER_TOO_SMALL
  | EFI_NOT_READY
  | EFI_DEVICE_ERROR
  | EFI_WRITE_PROTECTED
  | EFI_OUT_OF_RESOURCES
  | EFI_VOLUME_CORRUPTED
  | EFI_NOT_FOUND
  | EFI_ACCESS_DENIED
  | EFI_NO_MAPPING
  | EFI_TIMEOUT
  | EFI_NOT_STARTED
  | EFI_ALREADY_STARTED
  | EFI_ABORTED
  | EFI_SECURITY_VIOLATION
  | EFI_NOT_AVAILABLE_YET

type_synonym RETURN_STATUS = EFI_STATUS

abbreviation RETURN_SUCCESS :: RETURN_STATUS where "RETURN_SUCCESS \<equiv> EFI_SUCCESS"
abbreviation RETURN_INVALID_PARAMETER :: RETURN_STATUS where "RETURN_INVALID_PARAMETER \<equiv> EFI_INVALID_PARAMETER"
abbreviation RETURN_BUFFER_TOO_SMALL :: RETURN_STATUS where "RETURN_BUFFER_TOO_SMALL \<equiv> EFI_BUFFER_TOO_SMALL"

definition EFI_ERROR :: "EFI_STATUS \<Rightarrow> bool" where
  "EFI_ERROR s \<longleftrightarrow> s \<noteq> EFI_SUCCESS"

lemma EFI_ERROR_simps [simp]: "\<not> EFI_ERROR EFI_SUCCESS" "s \<noteq> EFI_SUCCESS \<Longrightarrow> EFI_ERROR s"
  by (auto simp: EFI_ERROR_def)

section \<open>ASSERT\<close>

definition ASSERT :: "bool \<Rightarrow> unit option" where
  "ASSERT b = (if b then Some () else None)"

lemma ASSERT_simps [simp]: "ASSERT True = Some ()" "ASSERT False = None"
  by (simp_all add: ASSERT_def)

lemma ASSERT_bind_Some:
  "(Option.bind (ASSERT b) f = Some x) \<longleftrightarrow> b \<and> f () = Some x"
  by (simp add: ASSERT_def)

lemma ASSERT_bind_True: "b \<Longrightarrow> Option.bind (ASSERT b) f = f ()"
  by simp

section \<open>Reading words\<close>

lemma uint_of_int_range:
  "0 \<le> v \<Longrightarrow> v < 2 ^ LENGTH('a) \<Longrightarrow> uint (word_of_int v :: 'a::len word) = v"
  by (simp add: uint_word_of_int_eq take_bit_int_eq_self)

lemma sint_of_int_range:
  assumes "- (2 ^ (LENGTH('a) - 1)) \<le> v" and "v < 2 ^ (LENGTH('a) - 1)"
  shows "sint (word_of_int v :: 'a::len word) = v"
  using assms by (simp add: sint_sbintrunc' signed_take_bit_int_eq_self)

lemma sint_nonneg_uint:
  fixes w :: "'a::len word"
  assumes "0 \<le> sint w"
  shows "uint w = sint w"
proof -
  have "sint w < 2 ^ (LENGTH('a) - 1)" by (rule sint_lt)
  also have "(2::int) ^ (LENGTH('a) - 1) \<le> 2 ^ LENGTH('a)" by (rule power_increasing) simp_all
  finally have "sint w < 2 ^ LENGTH('a)" .
  with assms show ?thesis by (simp add: uint_sint take_bit_int_eq_self)
qed

lemma unat_less_power: "unat (w :: 'a::len word) < 2 ^ LENGTH('a)"
  by (fact unsigned_less)

section \<open>Walks over lists\<close>

text \<open>Taking out the first element with a property.\<close>

fun remove_first :: "('a \<Rightarrow> bool) \<Rightarrow> 'a list \<Rightarrow> 'a list" where
  "remove_first P [] = []"
| "remove_first P (x # xs) = (if P x then xs else x # remove_first P xs)"

lemma filter_remove_first: "filter (\<lambda>x. \<not> P x) (remove_first P xs) = filter (\<lambda>x. \<not> P x) xs"
  by (induction xs) auto

lemma length_filter_remove_first: "list_ex P xs \<Longrightarrow> length (filter P xs) = Suc (length (filter P (remove_first P xs)))"
  by (induction xs) auto

text \<open>
  The search of a linked list with the CR macro: every element up to the first one with the property \<open>P\<close>
  is ASSERTed to be \<open>ok\<close>; the result is that element, if any.
\<close>

fun walk :: "('a \<Rightarrow> bool) \<Rightarrow> ('a \<Rightarrow> bool) \<Rightarrow> 'a list \<Rightarrow> 'a option option" where
  "walk ok P [] = Some None"
| "walk ok P (x # xs) = do { ASSERT (ok x); if P x then Some (Some x) else walk ok P xs }"

lemma walk_find: "(\<And>x. x \<in> set xs \<Longrightarrow> ok x) \<Longrightarrow> walk ok P xs = Some (find P xs)"
  by (induction xs) auto

lemma find_None_iff': "find P xs = None \<longleftrightarrow> (\<forall>x\<in>set xs. \<not> P x)"
  by (auto simp: find_None_iff)

lemma find_SomeD: "find P xs = Some x \<Longrightarrow> x \<in> set xs \<and> P x"
  by (induction xs) (auto split: if_splits)

lemma find_append: "find P (xs @ ys) = (case find P xs of None \<Rightarrow> find P ys | Some x \<Rightarrow> Some x)"
  by (induction xs) simp_all

lemma find_unique:
  assumes "p \<in> set xs" "P p" "\<And>q. q \<in> set xs \<Longrightarrow> P q \<Longrightarrow> q = p"
  shows "find P xs = Some p"
proof (cases "find P xs")
  case None
  then show ?thesis using assms(1,2) by (simp add: find_None_iff')
next
  case (Some q)
  then show ?thesis using assms(3)[of q] find_SomeD[OF Some] by simp
qed

lemma less_succ_word:
  fixes w :: "'a::len word"
  assumes "w \<noteq> - 1"
  shows "w < w + 1"
proof -
  have "w + 1 \<noteq> 0" using assms by (simp add: eq_neg_iff_add_eq_0)
  then show ?thesis by (simp add: word_less_nat_alt unatSuc add.commute)
qed

end
