(* ===== verification/LinkedList.thy ===== *)
theory LinkedList
  imports Liano_Prelude
begin

text \<open>
  The doubly-linked list library, MdePkg/Library/BaseLib/LinkedList.c, on an explicit heap of
  LIST_ENTRY nodes: every function of the file, its ASSERTs included, with the two PCDs that steer
  the ASSERTs as arguments. \<open>dll h head xs\<close> says that the heap \<open>h\<close> holds the circular list whose
  head node is \<open>head\<close> and whose other nodes are \<open>xs\<close> in order; each operation is proved to
  implement the list function it is meant to be, and to leave every other list of the heap alone.
\<close>

section \<open>Heap\<close>

type_synonym PTR = UINTN

abbreviation NULL :: PTR where "NULL \<equiv> 0"

record LIST_ENTRY =
  ForwardLink :: PTR
  BackLink :: PTR

type_synonym heap = "PTR \<Rightarrow> LIST_ENTRY"

text \<open>The PCDs the file reads: \<open>PcdMaximumLinkedListLength\<close> and \<open>PcdVerifyNodeInList\<close>.\<close>

record list_pcds =
  PcdMaximumLinkedListLength :: nat
  PcdVerifyNodeInList :: bool

definition set_ForwardLink :: "PTR \<Rightarrow> PTR \<Rightarrow> heap \<Rightarrow> heap" where
  "set_ForwardLink p q h = h(p := (h p)\<lparr>ForwardLink := q\<rparr>)"

definition set_BackLink :: "PTR \<Rightarrow> PTR \<Rightarrow> heap \<Rightarrow> heap" where
  "set_BackLink p q h = h(p := (h p)\<lparr>BackLink := q\<rparr>)"

section \<open>Validity checks\<close>

text \<open>
  The counting loop of \<open>InternalBaseLibIsListValid\<close>: the value of Count when the do-while loop
  ends. The second argument is the bound \<open>PcdMaximumLinkedListLength\<close>, positive in every call.
\<close>

function IsListValid_count :: "heap \<Rightarrow> nat \<Rightarrow> PTR \<Rightarrow> PTR \<Rightarrow> nat \<Rightarrow> nat" where
  "IsListValid_count h MaxLen List Ptr Count =
     (let Ptr' = ForwardLink (h Ptr); Count' = Suc Count in
      if Ptr' \<noteq> List \<and> Count' < MaxLen then IsListValid_count h MaxLen List Ptr' Count' else Count')"
  by pat_completeness auto
termination
  by (relation "measure (\<lambda>(h, MaxLen, List, Ptr, Count). MaxLen - Count)") auto

definition InternalBaseLibIsListValid :: "list_pcds \<Rightarrow> heap \<Rightarrow> PTR \<Rightarrow> bool option" where
  "InternalBaseLibIsListValid pcd h List =
     do {
       ASSERT (List \<noteq> NULL);
       ASSERT (ForwardLink (h List) \<noteq> NULL);
       ASSERT (BackLink (h List) \<noteq> NULL);
       Some (if PcdMaximumLinkedListLength pcd > 0
             then IsListValid_count h (PcdMaximumLinkedListLength pcd) List List 0
                    < PcdMaximumLinkedListLength pcd
             else True)
     }"

partial_function (option) IsNodeInList_loop ::
  "heap \<Rightarrow> nat \<Rightarrow> PTR \<Rightarrow> PTR \<Rightarrow> PTR \<Rightarrow> nat \<Rightarrow> bool option" where
  "IsNodeInList_loop h MaxLen FirstEntry SecondEntry Ptr Count =
     (let Ptr = ForwardLink (h Ptr);
          Count = (if MaxLen > 0 then Suc Count else Count) in
      if MaxLen > 0 \<and> Count = MaxLen then Some (Ptr = SecondEntry)
      else if Ptr = SecondEntry then Some True
      else if Ptr \<noteq> FirstEntry
        then IsNodeInList_loop h MaxLen FirstEntry SecondEntry Ptr Count
      else Some False)"

definition IsNodeInList :: "list_pcds \<Rightarrow> heap \<Rightarrow> PTR \<Rightarrow> PTR \<Rightarrow> bool option" where
  "IsNodeInList pcd h FirstEntry SecondEntry =
     do {
       valid \<leftarrow> InternalBaseLibIsListValid pcd h FirstEntry;
       ASSERT valid;
       ASSERT (SecondEntry \<noteq> NULL);
       IsNodeInList_loop h (PcdMaximumLinkedListLength pcd) FirstEntry SecondEntry FirstEntry 0
     }"

definition ASSERT_VERIFY_NODE_IN_VALID_LIST ::
  "list_pcds \<Rightarrow> heap \<Rightarrow> PTR \<Rightarrow> PTR \<Rightarrow> bool \<Rightarrow> unit option" where
  "ASSERT_VERIFY_NODE_IN_VALID_LIST pcd h FirstEntry SecondEntry InList =
     (if PcdVerifyNodeInList pcd
      then do { r \<leftarrow> IsNodeInList pcd h FirstEntry SecondEntry; ASSERT (InList = r) }
      else do { r \<leftarrow> InternalBaseLibIsListValid pcd h FirstEntry; ASSERT r })"

section \<open>Operations\<close>

definition InitializeListHead :: "heap \<Rightarrow> PTR \<Rightarrow> (PTR \<times> heap) option" where
  "InitializeListHead h ListHead =
     do {
       ASSERT (ListHead \<noteq> NULL);
       let h = set_ForwardLink ListHead ListHead h;
       let h = set_BackLink ListHead ListHead h;
       Some (ListHead, h)
     }"

definition InsertHeadList :: "list_pcds \<Rightarrow> heap \<Rightarrow> PTR \<Rightarrow> PTR \<Rightarrow> (PTR \<times> heap) option" where
  "InsertHeadList pcd h ListHead Entry =
     do {
       ASSERT_VERIFY_NODE_IN_VALID_LIST pcd h ListHead Entry False;
       let h = set_ForwardLink Entry (ForwardLink (h ListHead)) h;
       let h = set_BackLink Entry ListHead h;
       let h = set_BackLink (ForwardLink (h Entry)) Entry h;
       let h = set_ForwardLink ListHead Entry h;
       Some (ListHead, h)
     }"

definition InsertTailList :: "list_pcds \<Rightarrow> heap \<Rightarrow> PTR \<Rightarrow> PTR \<Rightarrow> (PTR \<times> heap) option" where
  "InsertTailList pcd h ListHead Entry =
     do {
       ASSERT_VERIFY_NODE_IN_VALID_LIST pcd h ListHead Entry False;
       let h = set_ForwardLink Entry ListHead h;
       let h = set_BackLink Entry (BackLink (h ListHead)) h;
       let h = set_ForwardLink (BackLink (h Entry)) Entry h;
       let h = set_BackLink ListHead Entry h;
       Some (ListHead, h)
     }"

definition GetFirstNode :: "list_pcds \<Rightarrow> heap \<Rightarrow> PTR \<Rightarrow> PTR option" where
  "GetFirstNode pcd h List =
     do { valid \<leftarrow> InternalBaseLibIsListValid pcd h List; ASSERT valid; Some (ForwardLink (h List)) }"

definition GetNextNode :: "list_pcds \<Rightarrow> heap \<Rightarrow> PTR \<Rightarrow> PTR \<Rightarrow> PTR option" where
  "GetNextNode pcd h List Node =
     do { ASSERT_VERIFY_NODE_IN_VALID_LIST pcd h List Node True; Some (ForwardLink (h Node)) }"

definition GetPreviousNode :: "list_pcds \<Rightarrow> heap \<Rightarrow> PTR \<Rightarrow> PTR \<Rightarrow> PTR option" where
  "GetPreviousNode pcd h List Node =
     do { ASSERT_VERIFY_NODE_IN_VALID_LIST pcd h List Node True; Some (BackLink (h Node)) }"

definition IsListEmpty :: "list_pcds \<Rightarrow> heap \<Rightarrow> PTR \<Rightarrow> bool option" where
  "IsListEmpty pcd h ListHead =
     do {
       valid \<leftarrow> InternalBaseLibIsListValid pcd h ListHead;
       ASSERT valid;
       Some (ForwardLink (h ListHead) = ListHead)
     }"

definition IsNull :: "list_pcds \<Rightarrow> heap \<Rightarrow> PTR \<Rightarrow> PTR \<Rightarrow> bool option" where
  "IsNull pcd h List Node =
     do { ASSERT_VERIFY_NODE_IN_VALID_LIST pcd h List Node True; Some (Node = List) }"

definition IsNodeAtEnd :: "list_pcds \<Rightarrow> heap \<Rightarrow> PTR \<Rightarrow> PTR \<Rightarrow> bool option" where
  "IsNodeAtEnd pcd h List Node =
     do {
       ASSERT_VERIFY_NODE_IN_VALID_LIST pcd h List Node True;
       isnull \<leftarrow> IsNull pcd h List Node;
       Some (\<not> isnull \<and> BackLink (h List) = Node)
     }"

definition RemoveEntryList :: "list_pcds \<Rightarrow> heap \<Rightarrow> PTR \<Rightarrow> (PTR \<times> heap) option" where
  "RemoveEntryList pcd h Entry =
     do {
       empty \<leftarrow> IsListEmpty pcd h Entry;
       ASSERT (\<not> empty);
       let h = set_BackLink (ForwardLink (h Entry)) (BackLink (h Entry)) h;
       let h = set_ForwardLink (BackLink (h Entry)) (ForwardLink (h Entry)) h;
       Some (ForwardLink (h Entry), h)
     }"

definition SwapListEntries :: "list_pcds \<Rightarrow> heap \<Rightarrow> PTR \<Rightarrow> PTR \<Rightarrow> (PTR \<times> heap) option" where
  "SwapListEntries pcd h FirstEntry SecondEntry =
     (if FirstEntry = SecondEntry then Some (SecondEntry, h)
      else do {
        ASSERT_VERIFY_NODE_IN_VALID_LIST pcd h FirstEntry SecondEntry True;
        (Ptr, h) \<leftarrow> RemoveEntryList pcd h FirstEntry;
        if BackLink (h Ptr) = SecondEntry
        then InsertTailList pcd h SecondEntry FirstEntry
        else do {
          (r, h) \<leftarrow> InsertHeadList pcd h SecondEntry FirstEntry;
          if Ptr = r then Some (Ptr, h)
          else do {
            (_, h) \<leftarrow> RemoveEntryList pcd h SecondEntry;
            (_, h) \<leftarrow> InsertTailList pcd h Ptr SecondEntry;
            Some (SecondEntry, h)
          }
        }
      })"

section \<open>Abstraction: circular lists of the heap\<close>

text \<open>
  \<open>dseg h a xs b\<close>: from the node \<open>a\<close> the forward links pass through \<open>xs\<close> and arrive at \<open>b\<close>, and
  the back links undo every step.
\<close>

fun dseg :: "heap \<Rightarrow> PTR \<Rightarrow> PTR list \<Rightarrow> PTR \<Rightarrow> bool" where
  "dseg h a [] b \<longleftrightarrow> ForwardLink (h a) = b \<and> BackLink (h b) = a"
| "dseg h a (x # xs) b \<longleftrightarrow> ForwardLink (h a) = x \<and> BackLink (h x) = a \<and> dseg h x xs b"

definition dll :: "heap \<Rightarrow> PTR \<Rightarrow> PTR list \<Rightarrow> bool" where
  "dll h head xs \<longleftrightarrow> dseg h head xs head \<and> distinct (head # xs) \<and> NULL \<notin> set (head # xs)"

text \<open>The list, head node included, is shorter than the PCD's limit (no limit when it is 0).\<close>

definition within_limit :: "list_pcds \<Rightarrow> PTR list \<Rightarrow> bool" where
  "within_limit pcd xs \<longleftrightarrow>
     PcdMaximumLinkedListLength pcd = 0 \<or> Suc (length xs) < PcdMaximumLinkedListLength pcd"

named_theorems link_simps \<open>reading the heap after a link has been written\<close>

lemma ForwardLink_set_ForwardLink [link_simps]:
  "ForwardLink (set_ForwardLink p q h r) = (if r = p then q else ForwardLink (h r))"
  by (simp add: set_ForwardLink_def)

lemma BackLink_set_ForwardLink [link_simps]:
  "BackLink (set_ForwardLink p q h r) = BackLink (h r)"
  by (simp add: set_ForwardLink_def)

lemma ForwardLink_set_BackLink [link_simps]:
  "ForwardLink (set_BackLink p q h r) = ForwardLink (h r)"
  by (simp add: set_BackLink_def)

lemma BackLink_set_BackLink [link_simps]:
  "BackLink (set_BackLink p q h r) = (if r = p then q else BackLink (h r))"
  by (simp add: set_BackLink_def)

lemma set_ForwardLink_other [link_simps]: "r \<noteq> p \<Longrightarrow> set_ForwardLink p q h r = h r"
  by (simp add: set_ForwardLink_def)

lemma set_BackLink_other [link_simps]: "r \<noteq> p \<Longrightarrow> set_BackLink p q h r = h r"
  by (simp add: set_BackLink_def)

lemma dseg_append [simp]:
  "dseg h a (xs @ y # ys) b \<longleftrightarrow> dseg h a xs y \<and> dseg h y ys b"
  by (induction xs arbitrary: a) auto

lemma dseg_cong:
  assumes "\<And>p. p \<in> set (a # xs) \<Longrightarrow> ForwardLink (h' p) = ForwardLink (h p)"
    and "\<And>p. p \<in> set (b # xs) \<Longrightarrow> BackLink (h' p) = BackLink (h p)"
  shows "dseg h' a xs b = dseg h a xs b"
  using assms by (induction xs arbitrary: a) auto

lemma dseg_fwd: "dseg h a xs b \<Longrightarrow> ForwardLink (h a) = (case xs of [] \<Rightarrow> b | x # _ \<Rightarrow> x)"
  by (cases xs) auto

lemma dseg_bwd: "dseg h a xs b \<Longrightarrow> BackLink (h b) = (if xs = [] then a else last xs)"
  by (induction xs arbitrary: a) auto

lemma dll_rotate: "dll h head (xs @ y # ys) \<longleftrightarrow> dll h y (ys @ head # xs)"
  by (auto simp: dll_def)

lemma dll_frame:
  assumes "dll h head ys" and "\<And>p. p \<in> set (head # ys) \<Longrightarrow> h' p = h p"
  shows "dll h' head ys"
proof -
  have "dseg h' head ys head = dseg h head ys head"
    by (rule dseg_cong) (use assms(2) in auto)
  with assms(1) show ?thesis by (simp add: dll_def)
qed

lemma dll_fwd: "dll h head xs \<Longrightarrow> ForwardLink (h head) = (case xs of [] \<Rightarrow> head | x # _ \<Rightarrow> x)"
  by (simp add: dll_def dseg_fwd)

lemma dll_bwd: "dll h head xs \<Longrightarrow> BackLink (h head) = (if xs = [] then head else last xs)"
  by (simp add: dll_def dseg_bwd)

lemma dll_fwd_in: "dll h head xs \<Longrightarrow> ForwardLink (h head) \<in> set (head # xs)"
  by (auto dest!: dll_fwd split: list.splits)

lemma dll_bwd_in: "dll h head xs \<Longrightarrow> BackLink (h head) \<in> set (head # xs)"
  by (auto dest!: dll_bwd split: if_splits)

lemma dll_nonnull:
  assumes "dll h head xs"
  shows "head \<noteq> NULL" and "ForwardLink (h head) \<noteq> NULL" and "BackLink (h head) \<noteq> NULL"
proof -
  from assms have "NULL \<notin> set (head # xs)" by (simp add: dll_def)
  with dll_fwd_in[OF assms] dll_bwd_in[OF assms]
  show "head \<noteq> NULL" and "ForwardLink (h head) \<noteq> NULL" and "BackLink (h head) \<noteq> NULL" by auto
qed

section \<open>The checks on a well-formed list\<close>

declare IsListValid_count.simps [simp del]

lemma IsListValid_count_dseg:
  assumes "dseg h Ptr ys List" and "List \<notin> set ys" and "Count < MaxLen"
  shows "IsListValid_count h MaxLen List Ptr Count = min (Count + Suc (length ys)) MaxLen"
  using assms
proof (induction ys arbitrary: Ptr Count)
  case Nil
  then show ?case by (subst IsListValid_count.simps) (simp add: Let_def)
next
  case (Cons y ys)
  show ?case
  proof (cases "Suc Count < MaxLen")
    case True
    with Cons.prems have "IsListValid_count h MaxLen List y (Suc Count) = min (Suc Count + Suc (length ys)) MaxLen"
      by (intro Cons.IH) auto
    with Cons.prems True show ?thesis by (subst IsListValid_count.simps) (auto simp: Let_def)
  next
    case False
    with Cons.prems show ?thesis by (subst IsListValid_count.simps) (auto simp: Let_def)
  qed
qed

lemma InternalBaseLibIsListValid_dll:
  assumes "dll h head xs"
  shows "InternalBaseLibIsListValid pcd h head = Some (within_limit pcd xs)"
proof (cases "PcdMaximumLinkedListLength pcd = 0")
  case True
  with dll_nonnull[OF assms] show ?thesis
    by (simp add: InternalBaseLibIsListValid_def within_limit_def)
next
  case False
  with assms have "IsListValid_count h (PcdMaximumLinkedListLength pcd) head head 0
      = min (Suc (length xs)) (PcdMaximumLinkedListLength pcd)"
    using IsListValid_count_dseg[of h head xs head 0] by (simp add: dll_def)
  with False dll_nonnull[OF assms] show ?thesis
    by (auto simp: InternalBaseLibIsListValid_def within_limit_def)
qed

lemma IsNodeInList_loop_dseg:
  assumes "dseg h Ptr ys First" and "MaxLen = 0 \<or> Count + Suc (length ys) < MaxLen"
    and "First \<notin> set ys"
  shows "IsNodeInList_loop h MaxLen First Second Ptr Count = Some (Second \<in> set (First # ys))"
  using assms
proof (induction ys arbitrary: Ptr Count)
  case Nil
  then show ?case by (subst IsNodeInList_loop.simps) (auto simp: Let_def)
next
  case (Cons y ys)
  then have "IsNodeInList_loop h MaxLen First Second y (if MaxLen > 0 then Suc Count else Count)
      = Some (Second \<in> set (First # ys))"
    by (intro Cons.IH) auto
  with Cons.prems show ?case by (subst IsNodeInList_loop.simps) (auto simp: Let_def)
qed

lemma IsNodeInList_dll:
  assumes "dll h head xs" and "within_limit pcd xs" and "e \<noteq> NULL"
  shows "IsNodeInList pcd h head e = Some (e \<in> set (head # xs))"
  using assms InternalBaseLibIsListValid_dll[OF assms(1), of pcd]
    IsNodeInList_loop_dseg[of h head xs head "PcdMaximumLinkedListLength pcd" 0 e]
  by (simp add: IsNodeInList_def dll_def within_limit_def)

lemma ASSERT_VERIFY_dll:
  assumes "dll h head xs" and "within_limit pcd xs" and "e \<noteq> NULL"
    and "InList = (e \<in> set (head # xs))"
  shows "ASSERT_VERIFY_NODE_IN_VALID_LIST pcd h head e InList = Some ()"
  using assms IsNodeInList_dll[OF assms(1-3)] InternalBaseLibIsListValid_dll[OF assms(1)]
  by (simp add: ASSERT_VERIFY_NODE_IN_VALID_LIST_def)

lemma IsListEmpty_dll:
  assumes "dll h head xs" and "within_limit pcd xs"
  shows "IsListEmpty pcd h head = Some (xs = [])"
  using assms dll_fwd[OF assms(1)] InternalBaseLibIsListValid_dll[OF assms(1), of pcd]
  by (auto simp: IsListEmpty_def dll_def split: list.splits)

section \<open>The operations on a well-formed list\<close>

lemma InitializeListHead_dll:
  assumes "head \<noteq> NULL"
  shows "\<exists>h'. InitializeListHead h head = Some (head, h') \<and> dll h' head [] \<and> (\<forall>p. p \<noteq> head \<longrightarrow> h' p = h p)"
  using assms by (auto simp: InitializeListHead_def dll_def link_simps Let_def)

lemma InsertTailList_dll:
  assumes l: "dll h head xs" and lim: "within_limit pcd xs"
    and e: "e \<noteq> NULL" "e \<notin> set (head # xs)"
  obtains h' where "InsertTailList pcd h head e = Some (head, h')" and "dll h' head (xs @ [e])"
    and "\<And>p. p \<notin> set (e # head # xs) \<Longrightarrow> h' p = h p"
proof
  let ?h1 = "set_ForwardLink e head h"
  let ?h2 = "set_BackLink e (BackLink (?h1 head)) ?h1"
  let ?h3 = "set_ForwardLink (BackLink (?h2 e)) e ?h2"
  let ?h4 = "set_BackLink head e ?h3"
  show "InsertTailList pcd h head e = Some (head, ?h4)"
    using ASSERT_VERIFY_dll[OF l lim e(1)] e(2) by (simp add: InsertTailList_def Let_def)
  show "dll ?h4 head (xs @ [e])"
  proof (cases xs rule: rev_cases)
    case Nil
    with l e show ?thesis by (auto simp: dll_def link_simps)
  next
    case (snoc ys z)
    with l e have "dseg ?h4 head ys z = dseg h head ys z"
      by (intro dseg_cong) (auto simp: dll_def link_simps)
    with snoc l e show ?thesis by (auto simp: dll_def link_simps)
  qed
  show "\<And>p. p \<notin> set (e # head # xs) \<Longrightarrow> ?h4 p = h p"
    using dll_bwd_in[OF l] e by (auto simp: set_ForwardLink_def set_BackLink_def)
qed

lemma InsertHeadList_dll:
  assumes l: "dll h head xs" and lim: "within_limit pcd xs"
    and e: "e \<noteq> NULL" "e \<notin> set (head # xs)"
  obtains h' where "InsertHeadList pcd h head e = Some (head, h')" and "dll h' head (e # xs)"
    and "\<And>p. p \<notin> set (e # head # xs) \<Longrightarrow> h' p = h p"
proof
  let ?h1 = "set_ForwardLink e (ForwardLink (h head)) h"
  let ?h2 = "set_BackLink e head ?h1"
  let ?h3 = "set_BackLink (ForwardLink (?h2 e)) e ?h2"
  let ?h4 = "set_ForwardLink head e ?h3"
  show "InsertHeadList pcd h head e = Some (head, ?h4)"
    using ASSERT_VERIFY_dll[OF l lim e(1)] e(2) by (simp add: InsertHeadList_def Let_def)
  show "dll ?h4 head (e # xs)"
  proof (cases xs)
    case Nil
    with l e show ?thesis by (auto simp: dll_def link_simps)
  next
    case (Cons z ys)
    with l e have "dseg ?h4 z ys head = dseg h z ys head"
      by (intro dseg_cong) (auto simp: dll_def link_simps)
    with Cons l e show ?thesis by (auto simp: dll_def link_simps)
  qed
  show "\<And>p. p \<notin> set (e # head # xs) \<Longrightarrow> ?h4 p = h p"
    using dll_fwd_in[OF l] e by (auto simp: set_ForwardLink_def set_BackLink_def)
qed

text \<open>A node of a list can stand for its head: inserting at it inserts next to it.\<close>

lemma InsertTailList_before:
  assumes l: "dll h head (xs @ n # ys)" and lim: "within_limit pcd (xs @ n # ys)"
    and e: "e \<noteq> NULL" "e \<notin> set (head # xs @ n # ys)"
  obtains h' where "InsertTailList pcd h n e = Some (n, h')" and "dll h' head (xs @ e # n # ys)"
    and "\<And>p. p \<notin> set (e # head # xs @ n # ys) \<Longrightarrow> h' p = h p"
proof -
  from l have "dll h n (ys @ head # xs)" by (simp add: dll_rotate)
  moreover from lim have "within_limit pcd (ys @ head # xs)" by (simp add: within_limit_def add.commute)
  ultimately obtain h' where h': "InsertTailList pcd h n e = Some (n, h')"
      "dll h' n ((ys @ head # xs) @ [e])" "\<And>p. p \<notin> set (e # n # ys @ head # xs) \<Longrightarrow> h' p = h p"
    by (rule InsertTailList_dll[of _ _ _ _ e]) (use e in auto)
  from h'(2) have "dll h' head (xs @ e # n # ys)"
    using dll_rotate[of h' n ys head "xs @ [e]"] by simp
  with h'(1,3) that[of h'] show thesis by auto
qed

lemma InsertHeadList_after:
  assumes l: "dll h head (xs @ n # ys)" and lim: "within_limit pcd (xs @ n # ys)"
    and e: "e \<noteq> NULL" "e \<notin> set (head # xs @ n # ys)"
  obtains h' where "InsertHeadList pcd h n e = Some (n, h')" and "dll h' head (xs @ n # e # ys)"
    and "\<And>p. p \<notin> set (e # head # xs @ n # ys) \<Longrightarrow> h' p = h p"
proof -
  from l have "dll h n (ys @ head # xs)" by (simp add: dll_rotate)
  moreover from lim have "within_limit pcd (ys @ head # xs)" by (simp add: within_limit_def add.commute)
  ultimately obtain h' where h': "InsertHeadList pcd h n e = Some (n, h')"
      "dll h' n (e # ys @ head # xs)" "\<And>p. p \<notin> set (e # n # ys @ head # xs) \<Longrightarrow> h' p = h p"
    by (rule InsertHeadList_dll[of _ _ _ _ e]) (use e in auto)
  from h'(2) have "dll h' head (xs @ n # e # ys)"
    using dll_rotate[of h' n "e # ys" head xs] by simp
  with h'(1,3) that[of h'] show thesis by auto
qed

text \<open>Unlinking \<open>e\<close> joins the segments on its two sides.\<close>

lemma remove_dseg:
  assumes l: "dll h head (xs @ e # ys)"
  defines "h1 \<equiv> set_BackLink (ForwardLink (h e)) (BackLink (h e)) h"
  defines "h2 \<equiv> set_ForwardLink (BackLink (h1 e)) (ForwardLink (h1 e)) h1"
  shows "dseg h2 head (xs @ ys) head"
proof -
  have e: "ForwardLink (h e) = (case ys of [] \<Rightarrow> head | y # _ \<Rightarrow> y)"
    "BackLink (h e) = (if xs = [] then head else last xs)"
    using l dseg_fwd[of h e ys head] dseg_bwd[of h head xs e] by (auto simp: dll_def)
  have keep: "h1 e = h e"
    using l e by (auto simp: dll_def h1_def set_BackLink_def split: list.splits if_splits)
  show ?thesis
  proof (cases xs rule: rev_cases)
    case Nil
    show ?thesis
    proof (cases ys)
      case Nil
      with \<open>xs = []\<close> e keep show ?thesis by (simp add: h2_def h1_def link_simps)
    next
      case (Cons y zs)
      with \<open>xs = []\<close> l e have "dseg h2 y zs head = dseg h y zs head"
        by (intro dseg_cong) (auto simp: dll_def h2_def h1_def link_simps)
      with \<open>xs = []\<close> Cons l e keep show ?thesis by (auto simp: dll_def h2_def h1_def link_simps)
    qed
  next
    case (snoc us u)
    have us: "dseg h2 head us u = dseg h head us u"
      using snoc l e by (intro dseg_cong)
        (auto simp: dll_def h2_def h1_def link_simps split: list.splits)
    show ?thesis
    proof (cases ys)
      case Nil
      with snoc l e us keep show ?thesis by (auto simp: dll_def h2_def h1_def link_simps)
    next
      case (Cons y zs)
      with snoc l e have "dseg h2 y zs head = dseg h y zs head"
        by (intro dseg_cong) (auto simp: dll_def h2_def h1_def link_simps)
      with snoc Cons l e us keep show ?thesis by (auto simp: dll_def h2_def h1_def link_simps)
    qed
  qed
qed

lemma RemoveEntryList_dll:
  assumes l: "dll h head (xs @ e # ys)" and lim: "within_limit pcd (xs @ e # ys)"
  obtains h' where "RemoveEntryList pcd h e = Some (case ys of [] \<Rightarrow> head | y # _ \<Rightarrow> y, h')"
    and "dll h' head (xs @ ys)" and "\<And>p. p \<notin> set (head # xs @ ys) \<Longrightarrow> h' p = h p"
proof
  let ?h1 = "set_BackLink (ForwardLink (h e)) (BackLink (h e)) h"
  let ?h2 = "set_ForwardLink (BackLink (?h1 e)) (ForwardLink (?h1 e)) ?h1"
  from l have le: "dll h e (ys @ head # xs)" by (simp add: dll_rotate)
  from lim have lime: "within_limit pcd (ys @ head # xs)" by (simp add: within_limit_def add.commute)
  from l have en: "e \<notin> set (head # xs @ ys)" by (auto simp: dll_def)
  have next_e: "ForwardLink (h e) = (case ys of [] \<Rightarrow> head | y # _ \<Rightarrow> y)"
    using dll_fwd[OF le] by (simp split: list.splits)
  have fe: "ForwardLink (h e) \<in> set (head # ys)" by (simp add: next_e split: list.splits)
  have be: "BackLink (h e) \<in> set (head # xs)" using dll_bwd[OF le] by auto
  from fe be en have keep: "?h1 e = h e" by (auto simp: set_BackLink_def)
  from fe be en have keep2: "?h2 e = h e" by (auto simp: set_BackLink_def set_ForwardLink_def)
  show "RemoveEntryList pcd h e = Some (case ys of [] \<Rightarrow> head | y # _ \<Rightarrow> y, ?h2)"
    using IsListEmpty_dll[OF le lime] keep2 next_e by (simp add: RemoveEntryList_def Let_def)
  show "\<And>p. p \<notin> set (head # xs @ ys) \<Longrightarrow> ?h2 p = h p"
    using fe be keep by (auto simp: set_ForwardLink_def set_BackLink_def)
  from l have "dseg ?h2 head (xs @ ys) head" by (rule remove_dseg)
  with l show "dll ?h2 head (xs @ ys)" by (auto simp: dll_def)
qed

subsection \<open>Swapping\<close>

lemma swap_forward:
  assumes l: "dll h head (us @ x # vs @ y # ws)" and lim: "within_limit pcd (us @ x # vs @ y # ws)"
  shows "\<exists>h'. SwapListEntries pcd h x y = Some (y, h') \<and> dll h' head (us @ y # vs @ x # ws)"
proof -
  have lims: "within_limit pcd (us @ vs @ y # ws)" "within_limit pcd (us @ vs @ y # x # ws)"
    "within_limit pcd (us @ vs @ x # ws)"
    using lim by (auto simp: within_limit_def)
  have ne: "x \<noteq> y" "x \<noteq> NULL" "y \<noteq> NULL" "x \<notin> set (head # us @ vs @ y # ws)"
      "y \<notin> set (head # us @ vs @ x # ws)"
    using l by (auto simp: dll_def)
  have verify: "ASSERT_VERIFY_NODE_IN_VALID_LIST pcd h x y True = Some ()"
    using l lim ne dll_rotate[of h head us x "vs @ y # ws"]
    by (intro ASSERT_VERIFY_dll[of h x "(vs @ y # ws) @ head # us"])
      (auto simp: within_limit_def add_ac)
  let ?ptr = "case vs @ y # ws of [] \<Rightarrow> head | p # _ \<Rightarrow> p"
  obtain h1 where h1: "RemoveEntryList pcd h x = Some (?ptr, h1)" "dll h1 head (us @ vs @ y # ws)"
    using RemoveEntryList_dll[OF l lim] by metis
  have ptr: "BackLink (h1 ?ptr) = (if us = [] then head else last us)"
  proof -
    have "\<exists>p rest. vs @ y # ws = p # rest" by (cases vs) auto
    then obtain p rest where pr: "vs @ y # ws = p # rest" by blast
    with h1(2) have "dll h1 p (rest @ head # us)" by (simp add: dll_rotate)
    from dll_bwd[OF this] pr show ?thesis by simp
  qed
  have npy: "BackLink (h1 ?ptr) \<noteq> y" using ptr ne(5) last_in_set[of us] by auto
  obtain h2 where h2: "InsertHeadList pcd h1 y x = Some (y, h2)" "dll h2 head ((us @ vs) @ y # x # ws)"
    using InsertHeadList_after[of h1 head "us @ vs" y ws pcd x] h1(2) lims(1) ne by auto
  show ?thesis
  proof (cases vs)
    case Nil
    with h1 h2 npy ne verify show ?thesis by (simp add: SwapListEntries_def)
  next
    case (Cons v vs')
    have vy: "v \<noteq> y" using l Cons by (auto simp: dll_def)
    obtain h3 where h3: "RemoveEntryList pcd h2 y = Some (x, h3)" "dll h3 head ((us @ vs) @ x # ws)"
      using RemoveEntryList_dll[of h2 head "us @ vs" y "x # ws" pcd] h2(2) lims(2) by auto
    obtain h4 where "InsertTailList pcd h3 v y = Some (v, h4)" "dll h4 head (us @ y # v # vs' @ x # ws)"
      using InsertTailList_before[of h3 head us v "vs' @ x # ws" pcd y] h3(2) Cons lims(3) ne by auto
    with h1 h2 h3 npy ne vy verify Cons show ?thesis by (simp add: SwapListEntries_def)
  qed
qed

lemma swap_backward:
  assumes l: "dll h head (us @ x # vs @ y # ws)" and lim: "within_limit pcd (us @ x # vs @ y # ws)"
  shows "\<exists>h'. SwapListEntries pcd h y x = Some (x, h') \<and> dll h' head (us @ y # vs @ x # ws)"
proof -
  have lims: "within_limit pcd (us @ x # vs @ ws)" "within_limit pcd (us @ x # y # vs @ ws)"
    "within_limit pcd (us @ y # vs @ ws)"
    using lim by (auto simp: within_limit_def)
  have ne: "x \<noteq> y" "x \<noteq> NULL" "y \<noteq> NULL" "y \<notin> set (head # us @ x # vs @ ws)"
      "x \<notin> set (head # us @ y # vs @ ws)"
    using l by (auto simp: dll_def)
  have verify: "ASSERT_VERIFY_NODE_IN_VALID_LIST pcd h y x True = Some ()"
    using l lim ne dll_rotate[of h head "us @ x # vs" y ws]
    by (intro ASSERT_VERIFY_dll[of h y "ws @ head # us @ x # vs"])
      (auto simp: within_limit_def add_ac)
  let ?ptr = "case ws of [] \<Rightarrow> head | p # _ \<Rightarrow> p"
  obtain h1 where h1: "RemoveEntryList pcd h y = Some (?ptr, h1)" "dll h1 head (us @ x # vs @ ws)"
    using RemoveEntryList_dll[of h head "us @ x # vs" y ws pcd] l lim by auto
  have ptr: "BackLink (h1 ?ptr) = (if vs = [] then x else last vs)"
  proof (cases ws)
    case Nil
    with dll_bwd[OF h1(2)] show ?thesis by simp
  next
    case (Cons w ws')
    with h1(2) have "dll h1 w (ws' @ head # us @ x # vs)"
      using dll_rotate[of h1 head "us @ x # vs" w ws'] by simp
    from dll_bwd[OF this] Cons show ?thesis by simp
  qed
  show ?thesis
  proof (cases "vs = []")
    case True
    obtain h2 where "InsertTailList pcd h1 x y = Some (x, h2)" "dll h2 head (us @ y # x # ws)"
      using InsertTailList_before[of h1 head us x ws pcd y] h1(2) lims(1) ne True by auto
    with True h1 ptr ne verify show ?thesis by (simp add: SwapListEntries_def)
  next
    case False
    have npx: "BackLink (h1 ?ptr) \<noteq> x" using ptr False ne(5) last_in_set[OF False] by auto
    have px: "?ptr \<noteq> x" using ne(5) by (auto split: list.splits)
    obtain h2 where h2: "InsertHeadList pcd h1 x y = Some (x, h2)" "dll h2 head (us @ x # y # vs @ ws)"
      using InsertHeadList_after[of h1 head us x "vs @ ws" pcd y] h1(2) lims(1) ne by auto
    obtain h3 where h3: "RemoveEntryList pcd h2 x = Some (y, h3)" "dll h3 head (us @ y # vs @ ws)"
      using RemoveEntryList_dll[of h2 head us x "y # vs @ ws" pcd] h2(2) lims(2) by auto
    obtain h4 where h4: "InsertTailList pcd h3 ?ptr x = Some (?ptr, h4)" "dll h4 head (us @ y # vs @ x # ws)"
    proof (cases ws)
      case Nil
      then show thesis
        using InsertTailList_dll[of h3 head "us @ y # vs" pcd x] h3(2) lims(3) ne that by auto
    next
      case (Cons w ws')
      then show thesis
        using InsertTailList_before[of h3 head "us @ y # vs" w ws' pcd x] h3(2) lims(3) ne that by auto
    qed
    from h1 h2 h3 h4 npx px ne verify show ?thesis by (simp add: SwapListEntries_def)
  qed
qed

section \<open>The interface the clients use\<close>

text \<open>
  What a client of the library relies on: \<open>rep s head xs\<close> says that the state \<open>s\<close> holds the list
  \<open>xs\<close> at \<open>head\<close>. The loops of the DXE core and of the drivers take a list apart with
  \<^verbatim>\<open>while (!IsListEmpty (Head)) { Link = Head->ForwardLink; RemoveEntryList (Link); ... }\<close>;
  \<open>take_all\<close> is that loop, \<open>append_all\<close> a sequence of \<open>InsertTailList\<close> calls.
\<close>

fun append_all :: "('s \<Rightarrow> 'n \<Rightarrow> 'n \<Rightarrow> 's option) \<Rightarrow> 's \<Rightarrow> 'n \<Rightarrow> 'n list \<Rightarrow> 's option" where
  "append_all ins s head [] = Some s"
| "append_all ins s head (n # ns) = do { s \<leftarrow> ins s head n; append_all ins s head ns }"

fun take_all :: "('s \<Rightarrow> 'n \<Rightarrow> bool option) \<Rightarrow> ('s \<Rightarrow> 'n \<Rightarrow> 'n) \<Rightarrow> ('s \<Rightarrow> 'n \<Rightarrow> 's option) \<Rightarrow>
    nat \<Rightarrow> 's \<Rightarrow> 'n \<Rightarrow> ('n list \<times> 's) option" where
  "take_all emp fst_node rem 0 s head = None"
| "take_all emp fst_node rem (Suc fuel) s head =
     do {
       b \<leftarrow> emp s head;
       if b then Some ([], s)
       else do {
         let n = fst_node s head;
         s \<leftarrow> rem s n;
         (ns, s) \<leftarrow> take_all emp fst_node rem fuel s head;
         Some (n # ns, s)
       }
     }"

locale list_library =
  fixes rep :: "'s \<Rightarrow> 'n \<Rightarrow> 'n list \<Rightarrow> bool"
    and room :: "'n list \<Rightarrow> bool"
    and insert_tail :: "'s \<Rightarrow> 'n \<Rightarrow> 'n \<Rightarrow> 's option"
    and is_empty :: "'s \<Rightarrow> 'n \<Rightarrow> bool option"
    and first_node :: "'s \<Rightarrow> 'n \<Rightarrow> 'n"
    and remove :: "'s \<Rightarrow> 'n \<Rightarrow> 's option"
    and usable :: "'n \<Rightarrow> bool"
  assumes room_mono: "room ys \<Longrightarrow> length xs \<le> length ys \<Longrightarrow> room xs"
    and insert_tail_rep: "rep s head xs \<Longrightarrow> room xs \<Longrightarrow> usable n \<Longrightarrow> n \<notin> set (head # xs) \<Longrightarrow>
          \<exists>s'. insert_tail s head n = Some s' \<and> rep s' head (xs @ [n])"
    and is_empty_rep: "rep s head xs \<Longrightarrow> room xs \<Longrightarrow> is_empty s head = Some (xs = [])"
    and first_node_rep: "rep s head (x # xs) \<Longrightarrow> first_node s head = x"
    and remove_rep: "rep s head (x # xs) \<Longrightarrow> room (x # xs) \<Longrightarrow>
          \<exists>s'. remove s x = Some s' \<and> rep s' head xs"
begin

lemma append_all_rep:
  assumes "rep s head xs" and "room (xs @ ns)" and "\<And>n. n \<in> set ns \<Longrightarrow> usable n"
    and "distinct ns" and "set ns \<inter> set (head # xs) = {}"
  shows "\<exists>s'. append_all insert_tail s head ns = Some s' \<and> rep s' head (xs @ ns)"
  using assms
proof (induction ns arbitrary: s xs)
  case Nil
  then show ?case by simp
next
  case (Cons n ns)
  have "room xs" using Cons.prems(2) by (rule room_mono) simp
  with Cons.prems obtain s' where s': "insert_tail s head n = Some s'" "rep s' head (xs @ [n])"
    using insert_tail_rep[of s head xs n] by auto
  have "\<exists>s''. append_all insert_tail s' head ns = Some s'' \<and> rep s'' head ((xs @ [n]) @ ns)"
    using Cons.prems s'(2) by (intro Cons.IH) auto
  with s'(1) show ?case by simp
qed

lemma take_all_rep:
  assumes "rep s head xs" and "room xs" and "length xs < fuel"
  shows "\<exists>s'. take_all is_empty first_node remove fuel s head = Some (xs, s') \<and> rep s' head []"
  using assms
proof (induction xs arbitrary: s fuel)
  case Nil
  then show ?case using is_empty_rep[of s head "[]"] by (cases fuel) auto
next
  case (Cons x xs)
  from Cons.prems(3) obtain k where k: "fuel = Suc k" "length xs < k" by (cases fuel) auto
  from Cons.prems obtain s' where s': "remove s x = Some s'" "rep s' head xs"
    using remove_rep by blast
  have "room xs" using Cons.prems(2) by (rule room_mono) simp
  with Cons.IH[OF s'(2) _ k(2)] obtain s'' where
    "take_all is_empty first_node remove k s' head = Some (xs, s'')" "rep s'' head []" by blast
  with k(1) s'(1) first_node_rep[OF Cons.prems(1)] is_empty_rep[OF Cons.prems(1,2)]
  show ?case by simp
qed

text \<open>First in, first out.\<close>

lemma fifo:
  assumes "rep s head []" and "room ns" and "\<And>n. n \<in> set ns \<Longrightarrow> usable n"
    and "distinct ns" and "head \<notin> set ns" and "length ns < fuel"
  shows "\<exists>s1 s2. append_all insert_tail s head ns = Some s1 \<and>
     take_all is_empty first_node remove fuel s1 head = Some (ns, s2) \<and> rep s2 head []"
proof -
  from assms obtain s1 where s1: "append_all insert_tail s head ns = Some s1" "rep s1 head ns"
    using append_all_rep[of s head "[]" ns] by auto
  from take_all_rep[OF s1(2) assms(2) assms(6)] s1(1) show ?thesis by blast
qed

end

text \<open>The heap model provides the interface.\<close>

definition heap_insert_tail :: "list_pcds \<Rightarrow> heap \<Rightarrow> PTR \<Rightarrow> PTR \<Rightarrow> heap option" where
  "heap_insert_tail pcd h head n = map_option snd (InsertTailList pcd h head n)"

definition heap_remove :: "list_pcds \<Rightarrow> heap \<Rightarrow> PTR \<Rightarrow> heap option" where
  "heap_remove pcd h n = map_option snd (RemoveEntryList pcd h n)"

definition heap_first :: "heap \<Rightarrow> PTR \<Rightarrow> PTR" where
  "heap_first h head = ForwardLink (h head)"

interpretation heap_list: list_library dll "within_limit pcd" "heap_insert_tail pcd"
  "IsListEmpty pcd" heap_first "heap_remove pcd" "\<lambda>n. n \<noteq> NULL" for pcd
proof unfold_locales
  fix s head xs n
  assume "dll s head xs" "within_limit pcd xs" "n \<noteq> NULL" "n \<notin> set (head # xs)"
  then obtain h' where "InsertTailList pcd s head n = Some (head, h')" "dll h' head (xs @ [n])"
    by (rule InsertTailList_dll)
  then show "\<exists>s'. heap_insert_tail pcd s head n = Some s' \<and> dll s' head (xs @ [n])"
    by (simp add: heap_insert_tail_def)
next
  fix s head x xs
  assume "dll s head (x # xs)" "within_limit pcd (x # xs)"
  then obtain h' where "RemoveEntryList pcd s x = Some (case xs of [] \<Rightarrow> head | y # _ \<Rightarrow> y, h')"
      "dll h' head xs"
    using RemoveEntryList_dll[of s head "[]" x xs pcd] by auto
  then show "\<exists>s'. heap_remove pcd s x = Some s' \<and> dll s' head xs"
    by (simp add: heap_remove_def)
qed (auto simp: within_limit_def IsListEmpty_dll heap_first_def dest: dll_fwd)

section \<open>Properties\<close>

text \<open>
  Inserting at the head or the tail of a well-formed list is consing or appending the node: both
  calls return without an ASSERT, the heap holds the longer list, and every other list of the heap
  that shares no node with it is untouched.
\<close>

theorem insert_list_refines:
  assumes "dll h head xs" and "within_limit pcd xs" and "e \<noteq> NULL" and "e \<notin> set (head # xs)"
    and "dll h other ys" and "set (other # ys) \<inter> set (e # head # xs) = {}"
  shows "(\<exists>h'. InsertHeadList pcd h head e = Some (head, h') \<and> dll h' head (e # xs) \<and> dll h' other ys)
       \<and> (\<exists>h'. InsertTailList pcd h head e = Some (head, h') \<and> dll h' head (xs @ [e]) \<and> dll h' other ys)"
proof
  show "\<exists>h'. InsertHeadList pcd h head e = Some (head, h') \<and> dll h' head (e # xs) \<and> dll h' other ys"
    using InsertHeadList_dll[OF assms(1-4)] dll_frame[OF assms(5)] assms(6)
    by (metis disjoint_iff)
  show "\<exists>h'. InsertTailList pcd h head e = Some (head, h') \<and> dll h' head (xs @ [e]) \<and> dll h' other ys"
    using InsertTailList_dll[OF assms(1-4)] dll_frame[OF assms(5)] assms(6)
    by (metis disjoint_iff)
qed

definition heap_of :: "(PTR \<times> PTR \<times> PTR) list \<Rightarrow> heap" where
  "heap_of cells p = (case map_of cells p of
      None \<Rightarrow> \<lparr>ForwardLink = NULL, BackLink = NULL\<rparr> | Some (f, b) \<Rightarrow> \<lparr>ForwardLink = f, BackLink = b\<rparr>)"

abbreviation default_pcds :: list_pcds where
  "default_pcds \<equiv> \<lparr>PcdMaximumLinkedListLength = 1000000, PcdVerifyNodeInList = True\<rparr>"

abbreviation sample_heap :: heap where
  "sample_heap \<equiv> heap_of [(1, 2, 3), (2, 3, 1), (3, 1, 2), (7, 7, 7)]"

lemmas sample_simps = heap_of_def dll_def within_limit_def

theorem insert_list_refines_witness:
  "(\<exists>h'. InsertHeadList default_pcds sample_heap 1 5 = Some (1, h') \<and> dll h' 1 [5, 2, 3] \<and> dll h' 7 [])
   \<and> (\<exists>h'. InsertTailList default_pcds sample_heap 1 5 = Some (1, h') \<and> dll h' 1 [2, 3, 5] \<and> dll h' 7 [])"
  using insert_list_refines[of sample_heap 1 "[2, 3]" default_pcds 5 7 "[]"] by (simp add: sample_simps)

text \<open>
  Removing a node takes exactly that node out of its list, returns the node that follows it (the
  head node when it was the last), and leaves the disjoint lists of the heap alone.
\<close>

theorem remove_entry_refines:
  assumes "dll h head (xs @ e # ys)" and "within_limit pcd (xs @ e # ys)"
    and "dll h other zs" and "set (other # zs) \<inter> set (head # xs @ e # ys) = {}"
  shows "\<exists>h'. RemoveEntryList pcd h e = Some (case ys of [] \<Rightarrow> head | y # _ \<Rightarrow> y, h')
       \<and> dll h' head (xs @ ys) \<and> dll h' other zs"
proof -
  obtain h' where h': "RemoveEntryList pcd h e = Some (case ys of [] \<Rightarrow> head | y # _ \<Rightarrow> y, h')"
      "dll h' head (xs @ ys)" "\<And>p. p \<notin> set (head # xs @ ys) \<Longrightarrow> h' p = h p"
    using RemoveEntryList_dll[OF assms(1,2)] by metis
  have "dll h' other zs" using assms(4) by (intro dll_frame[OF assms(3)] h'(3)) auto
  with h' show ?thesis by blast
qed

theorem remove_entry_refines_witness:
  "\<exists>h'. RemoveEntryList default_pcds sample_heap 2 = Some (3, h') \<and> dll h' 1 [3] \<and> dll h' 7 []"
  using remove_entry_refines[of sample_heap 1 "[]" 2 "[3]" default_pcds 7 "[]"] by (simp add: sample_simps)

text \<open>
  \<open>SwapListEntries\<close> exchanges the places of its two nodes and nothing else, whichever of them
  comes first and also when they are neighbours; it returns the second node.
\<close>

theorem swap_list_entries_refines:
  assumes "dll h head (us @ x # vs @ y # ws)" and "within_limit pcd (us @ x # vs @ y # ws)"
  shows "(\<exists>h'. SwapListEntries pcd h x y = Some (y, h') \<and> dll h' head (us @ y # vs @ x # ws))
       \<and> (\<exists>h'. SwapListEntries pcd h y x = Some (x, h') \<and> dll h' head (us @ y # vs @ x # ws))"
  using swap_forward[OF assms] swap_backward[OF assms] by blast

theorem swap_list_entries_refines_witness:
  "(\<exists>h'. SwapListEntries default_pcds sample_heap 2 3 = Some (3, h') \<and> dll h' 1 [3, 2])
   \<and> (\<exists>h'. SwapListEntries default_pcds sample_heap 3 2 = Some (2, h') \<and> dll h' 1 [3, 2])"
  using swap_list_entries_refines[of sample_heap 1 "[]" 2 "[]" 3 "[]" default_pcds] by (simp add: sample_simps)

text \<open>
  The queries are exact on a well-formed list: the membership search ends and decides membership
  of the circular list, emptiness and end tests agree with the list, and stepping forward then
  backward from any node of the list comes back to it.
\<close>

theorem list_queries_exact:
  assumes "dll h head xs" and "within_limit pcd xs" and "n \<noteq> NULL"
  shows "IsNodeInList pcd h head n = Some (n \<in> set (head # xs))
       \<and> IsListEmpty pcd h head = Some (xs = [])
       \<and> (n \<in> set (head # xs) \<longrightarrow>
            IsNull pcd h head n = Some (n = head)
          \<and> IsNodeAtEnd pcd h head n = Some (xs \<noteq> [] \<and> n = last xs)
          \<and> Option.bind (GetNextNode pcd h head n) (GetPreviousNode pcd h head) = Some n)"
proof (intro conjI impI)
  show "IsNodeInList pcd h head n = Some (n \<in> set (head # xs))" by (rule IsNodeInList_dll[OF assms])
  show "IsListEmpty pcd h head = Some (xs = [])" by (rule IsListEmpty_dll[OF assms(1,2)])
  assume n: "n \<in> set (head # xs)"
  note verify = ASSERT_VERIFY_dll[OF assms(1,2)]
  from verify[OF assms(3)] n show isnull: "IsNull pcd h head n = Some (n = head)"
    by (simp add: IsNull_def)
  have "(n \<noteq> head \<and> BackLink (h head) = n) = (xs \<noteq> [] \<and> n = last xs)"
    using dll_bwd[OF assms(1)] assms(1) last_in_set[of xs] by (auto simp: dll_def)
  with verify[OF assms(3)] n isnull show "IsNodeAtEnd pcd h head n = Some (xs \<noteq> [] \<and> n = last xs)"
    by (simp add: IsNodeAtEnd_def)
  from n obtain zs where zs: "dll h n zs" "set (n # zs) = set (head # xs)"
    using assms(1) dll_rotate by (fastforce dest: split_list)
  have f: "ForwardLink (h n) \<in> set (head # xs)" using dll_fwd_in[OF zs(1)] unfolding zs(2) .
  moreover have "ForwardLink (h n) \<noteq> NULL" by (rule dll_nonnull(2)[OF zs(1)])
  moreover have "BackLink (h (ForwardLink (h n))) = n"
    using zs(1) by (cases zs) (auto simp: dll_def)
  ultimately show "Option.bind (GetNextNode pcd h head n) (GetPreviousNode pcd h head) = Some n"
    using verify[OF assms(3)] verify[of "ForwardLink (h n)"] n
    by (simp add: GetNextNode_def GetPreviousNode_def)
qed

theorem list_queries_exact_witness:
  "IsNodeInList default_pcds sample_heap 1 3 = Some True \<and> IsListEmpty default_pcds sample_heap 1 = Some False
   \<and> IsNodeAtEnd default_pcds sample_heap 1 3 = Some True
   \<and> Option.bind (GetNextNode default_pcds sample_heap 1 3) (GetPreviousNode default_pcds sample_heap 1) = Some 3"
  using list_queries_exact[of sample_heap 1 "[2, 3]" default_pcds 3] by (simp add: sample_simps)

text \<open>
  (C31) The idiom of the core's dispatch loops is first in, first out: nodes appended with
  \<open>InsertTailList\<close> to an empty list and then taken off one by one, while \<open>IsListEmpty\<close> is false, with
  \<open>RemoveEntryList\<close> of the first node come back in the order of insertion; the loop ends with the
  list empty and no ASSERT fires.
\<close>

theorem list_is_fifo:
  assumes "dll h head []" and "within_limit pcd ns" and "NULL \<notin> set ns"
    and "distinct ns" and "head \<notin> set ns"
  shows "\<exists>h1 h2. append_all (heap_insert_tail pcd) h head ns = Some h1
       \<and> take_all (IsListEmpty pcd) heap_first (heap_remove pcd) (Suc (length ns)) h1 head = Some (ns, h2)
       \<and> dll h2 head []"
  using assms by (intro heap_list.fifo) auto

theorem list_is_fifo_witness:
  "\<exists>h1 h2. append_all (heap_insert_tail default_pcds) sample_heap 7 [4, 5, 6] = Some h1
     \<and> take_all (IsListEmpty default_pcds) heap_first (heap_remove default_pcds)
          (Suc (length [4 :: PTR, 5, 6])) h1 7 = Some ([4, 5, 6], h2)
     \<and> dll h2 7 []"
  using list_is_fifo[of sample_heap 7 default_pcds "[4, 5, 6]"]
  by (simp add: sample_simps del: append_all.simps take_all.simps)

end
