(* ===== verification/BaseMath.thy ===== *)
theory BaseMath
  imports Liano_Prelude
begin

text \<open>
  The integer helpers of MdePkg/Library/BaseLib that the other components call: shifts and rotations,
  byte swapping, multiplication and division, and the bit scans (\<open>HighBitSet64\<close> chooses the next
  priority level in the event dispatcher). The C wrappers and their \<open>InternalMath\<close> workers of Math64.c
  are separate definitions, as in the source; an ASSERT of a wrapper is an \<open>option\<close> result.

  A C shift by the full width of its operand is undefined; in the model it gives 0. The only place
  where the source shifts by the full width is a rotation by 0.
\<close>

unbundle bit_operations_syntax

section \<open>Shifts and rotations\<close>

definition InternalMathLShiftU64 :: "UINT64 \<Rightarrow> UINTN \<Rightarrow> UINT64" where
  "InternalMathLShiftU64 Operand Count = push_bit (unat Count) Operand"

definition InternalMathRShiftU64 :: "UINT64 \<Rightarrow> UINTN \<Rightarrow> UINT64" where
  "InternalMathRShiftU64 Operand Count = drop_bit (unat Count) Operand"

text \<open>
  The right shift of a negative INT64 is left to the compiler in C, and InternalMathARShiftU64 tests which one it
  has: the compiler's shift is the parameter \<open>Shr\<close>.
\<close>

definition InternalMathARShiftU64 :: "(nat \<Rightarrow> INT64 \<Rightarrow> INT64) \<Rightarrow> UINT64 \<Rightarrow> UINTN \<Rightarrow> UINT64" where
  "InternalMathARShiftU64 Shr Operand Count =
     (let TestValue = Shr 63 (push_bit 63 1) in
      if TestValue = - 1 then Shr (unat Count) Operand
      else drop_bit (unat Count) Operand OR (if sint Operand < 0 then NOT (drop_bit (unat Count) (- 1)) else 0))"

definition InternalMathLRotU64 :: "UINT64 \<Rightarrow> UINTN \<Rightarrow> UINT64" where
  "InternalMathLRotU64 Operand Count =
     push_bit (unat Count) Operand OR drop_bit (unat (64 - Count)) Operand"

definition InternalMathRRotU64 :: "UINT64 \<Rightarrow> UINTN \<Rightarrow> UINT64" where
  "InternalMathRRotU64 Operand Count =
     drop_bit (unat Count) Operand OR push_bit (unat (64 - Count)) Operand"

definition LShiftU64 :: "UINT64 \<Rightarrow> UINTN \<Rightarrow> UINT64 option" where
  "LShiftU64 Operand Count = do { ASSERT (Count < 64); Some (InternalMathLShiftU64 Operand Count) }"

definition RShiftU64 :: "UINT64 \<Rightarrow> UINTN \<Rightarrow> UINT64 option" where
  "RShiftU64 Operand Count = do { ASSERT (Count < 64); Some (InternalMathRShiftU64 Operand Count) }"

definition ARShiftU64 :: "(nat \<Rightarrow> INT64 \<Rightarrow> INT64) \<Rightarrow> UINT64 \<Rightarrow> UINTN \<Rightarrow> UINT64 option" where
  "ARShiftU64 Shr Operand Count = do { ASSERT (Count < 64); Some (InternalMathARShiftU64 Shr Operand Count) }"

definition LRotU32 :: "UINT32 \<Rightarrow> UINTN \<Rightarrow> UINT32 option" where
  "LRotU32 Operand Count =
     do {
       ASSERT (Count < 32);
       Some (push_bit (unat Count) Operand OR drop_bit (unat (32 - Count)) Operand)
     }"

definition RRotU32 :: "UINT32 \<Rightarrow> UINTN \<Rightarrow> UINT32 option" where
  "RRotU32 Operand Count =
     do {
       ASSERT (Count < 32);
       Some (drop_bit (unat Count) Operand OR push_bit (unat (32 - Count)) Operand)
     }"

definition LRotU64 :: "UINT64 \<Rightarrow> UINTN \<Rightarrow> UINT64 option" where
  "LRotU64 Operand Count = do { ASSERT (Count < 64); Some (InternalMathLRotU64 Operand Count) }"

definition RRotU64 :: "UINT64 \<Rightarrow> UINTN \<Rightarrow> UINT64 option" where
  "RRotU64 Operand Count = do { ASSERT (Count < 64); Some (InternalMathRRotU64 Operand Count) }"

section \<open>Byte order\<close>

definition SwapBytes16 :: "UINT16 \<Rightarrow> UINT16" where
  "SwapBytes16 Value = push_bit 8 Value OR drop_bit 8 Value"

definition SwapBytes32 :: "UINT32 \<Rightarrow> UINT32" where
  "SwapBytes32 Value =
     (let LowerBytes = ucast (SwapBytes16 (ucast Value)) :: UINT32;
          HigherBytes = ucast (SwapBytes16 (ucast (drop_bit 16 Value))) :: UINT32
      in push_bit 16 LowerBytes OR HigherBytes)"

definition InternalMathSwapBytes64 :: "UINT64 \<Rightarrow> UINT64" where
  "InternalMathSwapBytes64 Operand =
     (let LowerBytes = ucast (SwapBytes32 (ucast Operand)) :: UINT64;
          HigherBytes = ucast (SwapBytes32 (ucast (drop_bit 32 Operand))) :: UINT64
      in push_bit 32 LowerBytes OR HigherBytes)"

definition SwapBytes64 :: "UINT64 \<Rightarrow> UINT64" where
  "SwapBytes64 Value = InternalMathSwapBytes64 Value"

section \<open>Multiplication and division\<close>

definition InternalMathMultU64x32 :: "UINT64 \<Rightarrow> UINT32 \<Rightarrow> UINT64" where
  "InternalMathMultU64x32 Multiplicand Multiplier = Multiplicand * ucast Multiplier"

definition InternalMathMultU64x64 :: "UINT64 \<Rightarrow> UINT64 \<Rightarrow> UINT64" where
  "InternalMathMultU64x64 Multiplicand Multiplier = Multiplicand * Multiplier"

definition InternalMathDivU64x32 :: "UINT64 \<Rightarrow> UINT32 \<Rightarrow> UINT64" where
  "InternalMathDivU64x32 Dividend Divisor = Dividend div ucast Divisor"

definition InternalMathModU64x32 :: "UINT64 \<Rightarrow> UINT32 \<Rightarrow> UINT32" where
  "InternalMathModU64x32 Dividend Divisor = ucast (Dividend mod ucast Divisor)"

text \<open>
  An optional out-parameter is an \<open>option\<close>: \<open>None\<close> the NULL pointer, \<open>Some\<close> the buffer's content; the
  result pairs the returned value with the buffer after the call.
\<close>

definition InternalMathDivRemU64x32 :: "UINT64 \<Rightarrow> UINT32 \<Rightarrow> UINT32 option \<Rightarrow> UINT64 \<times> UINT32 option" where
  "InternalMathDivRemU64x32 Dividend Divisor Remainder =
     (Dividend div ucast Divisor,
      map_option (\<lambda>_. ucast (Dividend mod ucast Divisor)) Remainder)"

definition InternalMathDivRemU64x64 :: "UINT64 \<Rightarrow> UINT64 \<Rightarrow> UINT64 option \<Rightarrow> UINT64 \<times> UINT64 option" where
  "InternalMathDivRemU64x64 Dividend Divisor Remainder =
     (Dividend div Divisor, map_option (\<lambda>_. Dividend mod Divisor) Remainder)"

text \<open>Division of signed operands truncates towards zero, and the remainder has the dividend's sign.\<close>

definition trunc_div :: "int \<Rightarrow> int \<Rightarrow> int" where
  "trunc_div a b = sgn a * sgn b * (\<bar>a\<bar> div \<bar>b\<bar>)"

definition trunc_rem :: "int \<Rightarrow> int \<Rightarrow> int" where
  "trunc_rem a b = a - trunc_div a b * b"

definition InternalMathDivRemS64x64 :: "INT64 \<Rightarrow> INT64 \<Rightarrow> INT64 option \<Rightarrow> INT64 \<times> INT64 option" where
  "InternalMathDivRemS64x64 Dividend Divisor Remainder =
     (word_of_int (trunc_div (sint Dividend) (sint Divisor)),
      map_option (\<lambda>_. word_of_int (trunc_rem (sint Dividend) (sint Divisor))) Remainder)"

definition MultU64x32 :: "UINT64 \<Rightarrow> UINT32 \<Rightarrow> UINT64" where
  "MultU64x32 Multiplicand Multiplier = InternalMathMultU64x32 Multiplicand Multiplier"

definition MultU64x64 :: "UINT64 \<Rightarrow> UINT64 \<Rightarrow> UINT64" where
  "MultU64x64 Multiplicand Multiplier = InternalMathMultU64x64 Multiplicand Multiplier"

definition MultS64x64 :: "INT64 \<Rightarrow> INT64 \<Rightarrow> INT64" where
  "MultS64x64 Multiplicand Multiplier = MultU64x64 Multiplicand Multiplier"

definition DivU64x32 :: "UINT64 \<Rightarrow> UINT32 \<Rightarrow> UINT64 option" where
  "DivU64x32 Dividend Divisor =
     do { ASSERT (Divisor \<noteq> 0); Some (InternalMathDivU64x32 Dividend Divisor) }"

definition ModU64x32 :: "UINT64 \<Rightarrow> UINT32 \<Rightarrow> UINT32 option" where
  "ModU64x32 Dividend Divisor =
     do { ASSERT (Divisor \<noteq> 0); Some (InternalMathModU64x32 Dividend Divisor) }"

definition DivU64x32Remainder :: "UINT64 \<Rightarrow> UINT32 \<Rightarrow> UINT32 option \<Rightarrow> (UINT64 \<times> UINT32 option) option" where
  "DivU64x32Remainder Dividend Divisor Remainder =
     do { ASSERT (Divisor \<noteq> 0); Some (InternalMathDivRemU64x32 Dividend Divisor Remainder) }"

definition DivU64x64Remainder :: "UINT64 \<Rightarrow> UINT64 \<Rightarrow> UINT64 option \<Rightarrow> (UINT64 \<times> UINT64 option) option" where
  "DivU64x64Remainder Dividend Divisor Remainder =
     do { ASSERT (Divisor \<noteq> 0); Some (InternalMathDivRemU64x64 Dividend Divisor Remainder) }"

definition DivS64x64Remainder :: "INT64 \<Rightarrow> INT64 \<Rightarrow> INT64 option \<Rightarrow> (INT64 \<times> INT64 option) option" where
  "DivS64x64Remainder Dividend Divisor Remainder =
     do { ASSERT (Divisor \<noteq> 0); Some (InternalMathDivRemS64x64 Dividend Divisor Remainder) }"

section \<open>Bit scans\<close>

lemma double_grows:
  fixes w :: UINT32
  assumes "0 < sint w"
  shows "unat w < unat (push_bit 1 w)"
proof -
  have "uint w = sint w" using assms by (simp add: sint_nonneg_uint)
  moreover have "sint w < 2 ^ 31" using sint_lt[of w] by simp
  ultimately have "unat w < 2 ^ 31" by (simp add: unat_eq_nat_uint)
  moreover have "0 < unat w" using assms by (auto simp: unat_gt_0)
  moreover have "push_bit 1 w = w + w" by (simp add: push_bit_eq_mult)
  ultimately show ?thesis by (simp add: unat_word_ariths)
qed

function HighBitSet32_loop :: "UINT32 \<Rightarrow> int \<Rightarrow> int" where
  "HighBitSet32_loop Operand BitIndex =
     (if 0 < sint Operand then HighBitSet32_loop (push_bit 1 Operand) (BitIndex - 1) else BitIndex)"
  by pat_completeness auto
termination
proof (relation "measure (\<lambda>(Operand, BitIndex). 2 ^ 32 - unat Operand)", goal_cases)
  case (2 Operand BitIndex)
  have "unat (push_bit 1 Operand) < 2 ^ 32" using unat_less_power[of "push_bit 1 Operand"] by simp
  with double_grows[OF 2] show ?case by simp
qed simp

definition HighBitSet32 :: "UINT32 \<Rightarrow> int" where
  "HighBitSet32 Operand = (if Operand = 0 then - 1 else HighBitSet32_loop Operand 31)"

definition HighBitSet64 :: "UINT64 \<Rightarrow> int" where
  "HighBitSet64 Operand =
     (if Operand = ucast (ucast Operand :: UINT32) then HighBitSet32 (ucast Operand)
      else HighBitSet32 (ucast (InternalMathRShiftU64 Operand 32)) + 32)"

partial_function (option) LowBitSet_loop :: "UINT64 \<Rightarrow> int \<Rightarrow> int option" where
  "LowBitSet_loop Operand BitIndex =
     (if Operand AND 1 = 0 then LowBitSet_loop (drop_bit 1 Operand) (BitIndex + 1) else Some BitIndex)"

definition LowBitSet64 :: "UINT64 \<Rightarrow> int option" where
  "LowBitSet64 Operand = (if Operand = 0 then Some (- 1) else LowBitSet_loop Operand 0)"

partial_function (option) LowBitSet32_loop :: "UINT32 \<Rightarrow> int \<Rightarrow> int option" where
  "LowBitSet32_loop Operand BitIndex =
     (if Operand AND 1 = 0 then LowBitSet32_loop (drop_bit 1 Operand) (BitIndex + 1) else Some BitIndex)"

definition LowBitSet32 :: "UINT32 \<Rightarrow> int option" where
  "LowBitSet32 Operand = (if Operand = 0 then Some (- 1) else LowBitSet32_loop Operand 0)"

definition GetPowerOfTwo32 :: "UINT32 \<Rightarrow> UINT32" where
  "GetPowerOfTwo32 Operand =
     (if 0 = Operand then 0 else push_bit (nat (HighBitSet32 Operand)) 1)"

definition GetPowerOfTwo64 :: "UINT64 \<Rightarrow> UINT64 option" where
  "GetPowerOfTwo64 Operand =
     (if Operand = 0 then Some 0 else LShiftU64 1 (word_of_int (HighBitSet64 Operand)))"

section \<open>Correctness of the bit scans\<close>

declare HighBitSet32_loop.simps [simp del]

text \<open>The position of the highest, and of the lowest, bit that is set.\<close>

definition highest_bit :: "'a::len word \<Rightarrow> nat \<Rightarrow> bool" where
  "highest_bit w k \<longleftrightarrow> bit w k \<and> (\<forall>j > k. \<not> bit w j)"

definition lowest_bit :: "'a::len word \<Rightarrow> nat \<Rightarrow> bool" where
  "lowest_bit w k \<longleftrightarrow> bit w k \<and> (\<forall>j < k. \<not> bit w j)"

lemma highest_bit_length: "highest_bit (w :: 'a::len word) k \<Longrightarrow> k < LENGTH('a)"
  by (auto simp: highest_bit_def dest: bit_imp_le_length)

lemma lowest_bit_length: "lowest_bit (w :: 'a::len word) k \<Longrightarrow> k < LENGTH('a)"
  by (auto simp: lowest_bit_def dest: bit_imp_le_length)

lemma highest_bit_ex:
  fixes w :: "'a::len word"
  assumes "w \<noteq> 0"
  obtains k where "highest_bit w k"
proof -
  let ?S = "{k. bit w k}"
  have "?S \<subseteq> {..<LENGTH('a)}" by (auto dest: bit_imp_le_length)
  then have fin: "finite ?S" by (rule finite_subset) simp
  have "?S \<noteq> {}" using assms by (auto simp: bit_eq_iff)
  with fin have "highest_bit w (Max ?S)"
    using Max_in[OF fin] by (auto simp: highest_bit_def dest: Max_ge[OF fin])
  then show thesis by (rule that)
qed

lemma lowest_bit_ex:
  fixes w :: "'a::len word"
  assumes "w \<noteq> 0"
  obtains k where "lowest_bit w k"
proof -
  from assms have "\<exists>k. bit w k" by (auto simp: bit_eq_iff)
  then have "bit w (LEAST k. bit w k)" by (rule LeastI_ex)
  then have "lowest_bit w (LEAST k. bit w k)" by (auto simp: lowest_bit_def dest: not_less_Least)
  then show thesis by (rule that)
qed

lemma sint_positive_iff: "0 < sint (w :: UINT32) \<longleftrightarrow> w \<noteq> 0 \<and> \<not> bit w 31"
proof -
  have "bit w 31 \<longleftrightarrow> sint w < 0" using bit_last_iff[of w] by simp
  moreover have "sint w = 0 \<longleftrightarrow> w = 0" using signed_eq_0_iff by blast
  ultimately show ?thesis by auto
qed

lemma bit_shift_left: "bit (push_bit 1 (w :: UINT32)) j \<longleftrightarrow> 1 \<le> j \<and> j < 32 \<and> bit w (j - 1)"
  unfolding bit_push_bit_iff by auto

lemma HighBitSet32_loop_eq:
  "highest_bit Operand k \<Longrightarrow> HighBitSet32_loop Operand i = i - int (31 - k)"
proof (induction Operand i arbitrary: k rule: HighBitSet32_loop.induct)
  case (1 Operand i)
  have k: "bit Operand k" "\<And>j. j > k \<Longrightarrow> \<not> bit Operand j" "k < 32"
    using "1.prems" highest_bit_length[OF "1.prems"] by (auto simp: highest_bit_def)
  show ?case
  proof (cases "0 < sint Operand")
    case True
    with k have "k \<noteq> 31" by (auto simp: sint_positive_iff)
    with k have "highest_bit (push_bit 1 Operand) (Suc k)"
      unfolding highest_bit_def bit_shift_left by auto
    from "1.IH"[OF True this] True \<open>k \<noteq> 31\<close> k(3) show ?thesis
      by (subst HighBitSet32_loop.simps) (simp add: of_nat_diff)
  next
    case False
    with k have "bit Operand 31" by (auto simp: sint_positive_iff)
    with k(2)[of 31] have "\<not> k < 31" by blast
    with k(3) have "k = 31" by simp
    with False show ?thesis by (subst HighBitSet32_loop.simps) simp
  qed
qed

lemma HighBitSet32_eq: "highest_bit Operand k \<Longrightarrow> HighBitSet32 Operand = int k"
  using highest_bit_length[of Operand k]
  by (auto simp: HighBitSet32_def HighBitSet32_loop_eq highest_bit_def)

lemma HighBitSet64_eq:
  assumes "highest_bit Operand k"
  shows "HighBitSet64 Operand = int k"
proof (cases "k < 32")
  case True
  with assms have "bit Operand n \<Longrightarrow> n < 32" for n
    by (meson highest_bit_def not_less order_less_le_trans)
  then have "Operand = ucast (ucast Operand :: UINT32)"
    by (intro bit_eqI) (auto simp: bit_ucast_iff)
  moreover have "highest_bit (ucast Operand :: UINT32) k"
    using assms True by (auto simp: highest_bit_def bit_ucast_iff)
  ultimately show ?thesis by (simp add: HighBitSet64_def HighBitSet32_eq)
next
  case False
  have "bit Operand k \<noteq> bit (ucast (ucast Operand :: UINT32) :: UINT64) k"
    using assms False by (auto simp: highest_bit_def bit_ucast_iff)
  then have "Operand \<noteq> ucast (ucast Operand :: UINT32)" by auto
  moreover have "highest_bit (ucast (InternalMathRShiftU64 Operand 32) :: UINT32) (k - 32)"
    using assms False highest_bit_length[OF assms]
    by (auto simp: highest_bit_def bit_ucast_iff InternalMathRShiftU64_def bit_drop_bit_eq)
  ultimately show ?thesis using False by (simp add: HighBitSet64_def HighBitSet32_eq)
qed

lemma LowBitSet_loop_eq:
  "lowest_bit Operand k \<Longrightarrow> LowBitSet_loop Operand i = Some (i + int k)"
proof (induction k arbitrary: Operand i)
  case 0
  then show ?case
    by (subst LowBitSet_loop.simps) (auto simp: lowest_bit_def and_one_eq bit_0 odd_iff_mod_2_eq_one)
next
  case (Suc k)
  then have "even Operand" by (auto simp: lowest_bit_def bit_0)
  moreover from Suc.prems have "lowest_bit (drop_bit 1 Operand) k"
    by (auto simp: lowest_bit_def bit_drop_bit_eq)
  ultimately show ?case
    using Suc.IH[of "drop_bit 1 Operand" "i + 1"]
    by (subst LowBitSet_loop.simps) (simp add: and_one_eq even_iff_mod_2_eq_zero)
qed

lemma LowBitSet32_loop_eq:
  "lowest_bit Operand k \<Longrightarrow> LowBitSet32_loop Operand i = Some (i + int k)"
proof (induction k arbitrary: Operand i)
  case 0
  then show ?case
    by (subst LowBitSet32_loop.simps) (auto simp: lowest_bit_def and_one_eq bit_0 odd_iff_mod_2_eq_one)
next
  case (Suc k)
  then have "even Operand" by (auto simp: lowest_bit_def bit_0)
  moreover from Suc.prems have "lowest_bit (drop_bit 1 Operand) k"
    by (auto simp: lowest_bit_def bit_drop_bit_eq)
  ultimately show ?case
    using Suc.IH[of "drop_bit 1 Operand" "i + 1"]
    by (subst LowBitSet32_loop.simps) (simp add: and_one_eq even_iff_mod_2_eq_zero)
qed

text \<open>
  The bit scans find the bit they are named after: on a non-zero operand \<open>HighBitSet64\<close> returns
  the position of the highest set bit, the loop of \<open>LowBitSet64\<close> ends at the lowest set bit, and
  \<open>GetPowerOfTwo64\<close> returns the highest power of two not above the operand without tripping the
  ASSERT of its shift; the 32-bit scans agree, and the high scans return -1 on zero.
\<close>

theorem bit_scans_exact:
  fixes Operand :: UINT64 and Operand32 :: UINT32
  assumes "Operand \<noteq> 0" and "Operand32 \<noteq> 0"
  shows "(\<exists>k. HighBitSet64 Operand = int k \<and> highest_bit Operand k
            \<and> GetPowerOfTwo64 Operand = Some (2 ^ k) \<and> k < 64)
       \<and> (\<exists>k. LowBitSet64 Operand = Some (int k) \<and> lowest_bit Operand k)
       \<and> (\<exists>k. HighBitSet32 Operand32 = int k \<and> highest_bit Operand32 k
            \<and> GetPowerOfTwo32 Operand32 = 2 ^ k)
       \<and> (\<exists>k. LowBitSet32 Operand32 = Some (int k) \<and> lowest_bit Operand32 k)
       \<and> HighBitSet64 0 = - 1 \<and> LowBitSet64 0 = Some (- 1)"
proof (intro conjI)
  obtain k where k: "highest_bit Operand k" using highest_bit_ex[OF assms(1)] .
  then have "k < 64" using highest_bit_length by fastforce
  then have "(word_of_int (int k) :: UINTN) < 64" "unat (word_of_int (int k) :: UINTN) = k"
    by (simp_all add: word_less_nat_alt unat_of_nat take_bit_nat_eq_self)
  with k \<open>k < 64\<close> assms(1)
  show "\<exists>k. HighBitSet64 Operand = int k \<and> highest_bit Operand k
            \<and> GetPowerOfTwo64 Operand = Some (2 ^ k) \<and> k < 64"
    by (intro exI[of _ k])
      (simp add: HighBitSet64_eq GetPowerOfTwo64_def LShiftU64_def InternalMathLShiftU64_def push_bit_eq_mult)
  obtain l where "lowest_bit Operand l" using lowest_bit_ex[OF assms(1)] .
  with assms(1) show "\<exists>k. LowBitSet64 Operand = Some (int k) \<and> lowest_bit Operand k"
    by (auto simp: LowBitSet64_def LowBitSet_loop_eq)
  obtain m where "highest_bit Operand32 m" using highest_bit_ex[OF assms(2)] .
  with assms(2) show "\<exists>k. HighBitSet32 Operand32 = int k \<and> highest_bit Operand32 k
            \<and> GetPowerOfTwo32 Operand32 = 2 ^ k"
    by (intro exI[of _ m]) (simp add: HighBitSet32_eq GetPowerOfTwo32_def push_bit_eq_mult)
  obtain n where "lowest_bit Operand32 n" using lowest_bit_ex[OF assms(2)] .
  with assms(2) show "\<exists>k. LowBitSet32 Operand32 = Some (int k) \<and> lowest_bit Operand32 k"
    by (auto simp: LowBitSet32_def LowBitSet32_loop_eq)
qed (simp_all add: HighBitSet64_def HighBitSet32_def LowBitSet64_def)

theorem bit_scans_exact_witness:
  "\<exists>k. HighBitSet64 0x40000010 = int k \<and> highest_bit (0x40000010 :: UINT64) k
     \<and> GetPowerOfTwo64 0x40000010 = Some (2 ^ k) \<and> k < 64"
  using bit_scans_exact[of "0x40000010" 1] by simp

section \<open>Rotation, byte order and division\<close>

lemma rotate_bits:
  fixes w :: "'a::len word"
  assumes "n < LENGTH('a)" and "0 < c" and "c < LENGTH('a)"
  shows "bit (push_bit c w OR drop_bit (LENGTH('a) - c) w) n
       = bit w ((n + (LENGTH('a) - c)) mod LENGTH('a))"
proof (cases "n < c")
  case True
  with assms have "(n + (LENGTH('a) - c)) mod LENGTH('a) = n + (LENGTH('a) - c)" by simp
  with True assms show ?thesis by (simp add: bit_or_iff bit_push_bit_iff bit_drop_bit_eq add.commute)
next
  case False
  with assms have "(n + (LENGTH('a) - c)) mod LENGTH('a) = n - c" by (simp add: mod_if)
  moreover have "\<not> bit w (LENGTH('a) - c + n)" using False assms by (auto dest: bit_imp_le_length)
  ultimately show ?thesis using False assms
    by (simp add: bit_or_iff bit_push_bit_iff bit_drop_bit_eq)
qed

lemma bit_SwapBytes16: "bit (SwapBytes16 w) n \<longleftrightarrow> n < 16 \<and> bit w ((n + 8) mod 16)"
proof (cases "n < 16")
  case True
  then show ?thesis using rotate_bits[of n 8 w] by (simp add: SwapBytes16_def)
qed (auto simp: SwapBytes16_def dest: bit_imp_le_length)

lemma bit_SwapBytes32: "bit (SwapBytes32 w) n \<longleftrightarrow> n < 32 \<and> bit w (8 * (3 - n div 8) + n mod 8)"
proof (cases "n < 32")
  case True
  then have "n < 8 \<or> (8 \<le> n \<and> n < 16) \<or> (16 \<le> n \<and> n < 24) \<or> (24 \<le> n \<and> n < 32)" by auto
  then show ?thesis
    by (elim disjE)
      (auto simp: SwapBytes32_def Let_def bit_or_iff bit_push_bit_iff bit_ucast_iff bit_SwapBytes16
        bit_drop_bit_eq div_if mod_if dest: bit_imp_le_length)
qed (auto dest: bit_imp_le_length)

lemma bit_SwapBytes64: "bit (SwapBytes64 w) n \<longleftrightarrow> n < 64 \<and> bit w (8 * (7 - n div 8) + n mod 8)"
proof -
  consider "n < 32" | "32 \<le> n" "n < 64" | "64 \<le> n" by linarith
  then show ?thesis
  proof cases
    case 1
    then have "n div 8 < 4" by simp
    then have "8 * (7 - n div 8) + n mod 8 = 32 + (8 * (3 - n div 8) + n mod 8)"
      "8 * (3 - n div 8) + n mod 8 < 32"
      by auto
    with 1 show ?thesis
      by (auto simp: SwapBytes64_def InternalMathSwapBytes64_def Let_def bit_or_iff bit_push_bit_iff
          bit_ucast_iff bit_SwapBytes32 bit_drop_bit_eq add.assoc)
  next
    case 2
    from 2 obtain m where m: "n = m + 32" "m < 32" 
      using that[of "n - 32"] by simp
    have "(m + 32) div 8 = m div 8 + 4" "(m + 32) mod 8 = m mod 8"
      using div_add1_eq[of m 32 8] mod_mult_self1[of m 4 8] by simp_all
    with m have "8 * (7 - n div 8) + n mod 8 = 8 * (3 - (n - 32) div 8) + (n - 32) mod 8"
      "8 * (7 - n div 8) + n mod 8 < 32" "n - 32 < 32" "n - 32 < 64"
      by auto
    with 2 show ?thesis
      by (auto simp: SwapBytes64_def InternalMathSwapBytes64_def Let_def bit_or_iff bit_push_bit_iff
          bit_ucast_iff bit_SwapBytes32 bit_drop_bit_eq dest: bit_imp_le_length)
  qed (auto dest: bit_imp_le_length)
qed

text \<open>
  \<open>SwapBytes64\<close> reverses the order of the eight bytes (byte \<open>i\<close> of the result is byte
  \<open>7 - i\<close> of the operand), so swapping twice is the identity; the same for 32 and 16 bits.
\<close>

theorem swap_bytes_reverses:
  "(\<forall>n < 64. bit (SwapBytes64 w) n = bit w (8 * (7 - n div 8) + n mod 8))
   \<and> SwapBytes64 (SwapBytes64 w) = w \<and> SwapBytes32 (SwapBytes32 v) = v \<and> SwapBytes16 (SwapBytes16 u) = u"
proof (intro conjI)
  have twice: "8 * (k - (8 * (k - n div 8) + n mod 8) div 8) + (8 * (k - n div 8) + n mod 8) mod 8 = n"
    if "n div 8 \<le> k" for n k :: nat
    using that by simp
  show "SwapBytes64 (SwapBytes64 w) = w"
  proof (rule bit_eqI)
    fix n assume "possible_bit TYPE(64 word) n"
    then have "n < 64" by simp
    then have "n div 8 \<le> 7" "8 * (7 - n div 8) + n mod 8 < 64" by auto
    with twice[of n 7] \<open>n < 64\<close> show "bit (SwapBytes64 (SwapBytes64 w)) n = bit w n"
      by (simp add: bit_SwapBytes64)
  qed
  show "SwapBytes32 (SwapBytes32 v) = v"
  proof (rule bit_eqI)
    fix n assume "possible_bit TYPE(32 word) n"
    then have "n < 32" by simp
    then have "n div 8 \<le> 3" "8 * (3 - n div 8) + n mod 8 < 32" by auto
    with twice[of n 3] \<open>n < 32\<close> show "bit (SwapBytes32 (SwapBytes32 v)) n = bit v n"
      by (simp add: bit_SwapBytes32)
  qed
  have "((n + 8) mod 16 + 8) mod 16 = n" if "n < 16" for n :: nat using that by presburger
  then show "SwapBytes16 (SwapBytes16 u) = u"
    by (intro bit_eqI) (simp add: bit_SwapBytes16)
qed (simp add: bit_SwapBytes64)

theorem swap_bytes_reverses_witness: "bit (SwapBytes64 0x80) 63"
proof -
  have "bit (SwapBytes64 0x80) 63 = bit (0x80 :: UINT64) (8 * (7 - 63 div 8) + 63 mod 8)"
    using swap_bytes_reverses[of "0x80" 0 0] by (elim conjE allE[of _ 63]) simp
  then show ?thesis by simp
qed

text \<open>
  For a count between 1 and 63 the rotations move bit \<open>n\<close> to position \<open>n + Count\<close> modulo 64 and
  undo each other; no ASSERT fires.
\<close>

theorem rotations_inverse:
  assumes "0 < Count" and "Count < 64"
  shows "\<exists>r. LRotU64 w Count = Some r \<and> RRotU64 r Count = Some w
       \<and> (\<forall>n < 64. bit r n = bit w ((n + (64 - unat Count)) mod 64))"
proof -
  let ?c = "unat Count"
  let ?r = "push_bit ?c w OR drop_bit (64 - ?c) w"
  have c: "0 < ?c" "?c < 64" "unat (64 - Count) = 64 - ?c"
    using assms by (auto simp: unat_gt_0 word_less_nat_alt unat_sub_if' word_le_nat_alt)
  have r: "bit ?r n = bit w ((n + (64 - ?c)) mod 64)" if "n < 64" for n
    using rotate_bits[of n ?c w] that c by simp
  have "drop_bit ?c ?r OR push_bit (64 - ?c) ?r = w"
  proof (rule bit_eqI)
    fix n assume "possible_bit TYPE(64 word) n"
    then have n: "n < 64" by simp
    have "(((n + ?c) mod 64) + (64 - ?c)) mod 64 = (n + ?c + (64 - ?c)) mod 64" by (rule mod_add_left_eq)
    also have "\<dots> = n" using c n by simp
    finally have "(((n + ?c) mod 64) + (64 - ?c)) mod 64 = n" .
    with rotate_bits[of n "64 - ?c" ?r] r[of "(n + ?c) mod 64"] c n
    show "bit (drop_bit ?c ?r OR push_bit (64 - ?c) ?r) n = bit w n"
      by (simp add: or.commute)
  qed
  with c(3) assms r show ?thesis
    by (auto simp: LRotU64_def RRotU64_def InternalMathLRotU64_def InternalMathRRotU64_def)
qed

theorem rotations_inverse_witness:
  "\<exists>r. LRotU64 0x8000000000000001 4 = Some r \<and> RRotU64 r 4 = Some 0x8000000000000001"
  using rotations_inverse[of 4 "0x8000000000000001"] by (auto simp: word_less_nat_alt)

lemma trunc_rem_bound: "b \<noteq> 0 \<Longrightarrow> \<bar>trunc_rem a b\<bar> < \<bar>b\<bar>"
proof -
  assume b: "b \<noteq> 0"
  have ab: "trunc_rem a b = sgn a * (\<bar>a\<bar> mod \<bar>b\<bar>)"
    using b by (cases "a = 0"; cases "0 < a"; cases "0 < b")
      (auto simp: trunc_rem_def trunc_div_def minus_div_mult_eq_mod[symmetric] algebra_simps)
  have "0 \<le> \<bar>a\<bar> mod \<bar>b\<bar>" "\<bar>a\<bar> mod \<bar>b\<bar> < \<bar>b\<bar>" using b by simp_all
  then show ?thesis by (auto simp: ab abs_mult abs_sgn_eq)
qed

lemma trunc_div_bound:
  assumes "b \<noteq> 0" "- (2 ^ 63) \<le> a" "a < 2 ^ 63" "\<not> (a = - (2 ^ 63) \<and> b = - 1)"
  shows "- (2 ^ 63) \<le> trunc_div a b \<and> trunc_div a b < 2 ^ 63"
proof -
  have le: "\<bar>a\<bar> div \<bar>b\<bar> \<le> \<bar>a\<bar>" using assms(1) zdiv_mono2[of "\<bar>a\<bar>" 1 "\<bar>b\<bar>"] by simp
  have nn: "0 \<le> \<bar>a\<bar> div \<bar>b\<bar>" using assms(1) by (simp add: pos_imp_zdiv_nonneg_iff)
  show ?thesis
  proof (cases "\<bar>b\<bar> = 1")
    case True
    then have "b = 1 \<or> b = - 1" by arith
    then show ?thesis using assms by (auto simp: trunc_div_def sgn_if)
  next
    case False
    then have "2 \<le> \<bar>b\<bar>" using assms(1) by arith
    then have "\<bar>a\<bar> div \<bar>b\<bar> \<le> \<bar>a\<bar> div 2" by (intro zdiv_mono2) auto
    then show ?thesis using assms nn by (auto simp: trunc_div_def sgn_if)
  qed
qed

text \<open>
  Division with remainder is exact: for a non-zero divisor the unsigned quotient and remainder
  satisfy \<open>Dividend = Quotient * Divisor + Remainder\<close> with \<open>Remainder < Divisor\<close>, the 32-bit divisor
  variants agree with it, and the signed division truncates towards zero whenever the quotient is
  representable (it is not for the most negative dividend and the divisor -1). A divisor of 0 is caught by the
  ASSERT.
\<close>

theorem division_exact:
  assumes "b \<noteq> 0" and "d \<noteq> 0" and "q \<noteq> 0" and "\<not> (sint c = - (2 ^ 63) \<and> sint d = - 1)"
  shows "(\<exists>quo rem. DivU64x64Remainder a b (Some r0) = Some (quo, Some rem)
            \<and> uint a = uint quo * uint b + uint rem \<and> uint rem < uint b)
       \<and> (\<exists>quo rem. DivS64x64Remainder c d (Some s0) = Some (quo, Some rem)
            \<and> sint quo = trunc_div (sint c) (sint d) \<and> sint c = sint quo * sint d + sint rem
            \<and> \<bar>sint rem\<bar> < \<bar>sint d\<bar>)
       \<and> (\<exists>quo rem. DivU64x32Remainder a q (Some t0) = Some (quo, Some rem) \<and> DivU64x32 a q = Some quo
            \<and> ModU64x32 a q = Some rem \<and> uint a = uint quo * uint q + uint rem \<and> uint rem < uint q)
       \<and> DivU64x64Remainder a 0 r = None"
proof (intro conjI)
  have b: "0 < uint b" using assms(1) by (metis less_le uint_0_iff uint_ge_0)
  with assms(1) show "\<exists>quo rem. DivU64x64Remainder a b (Some r0) = Some (quo, Some rem)
            \<and> uint a = uint quo * uint b + uint rem \<and> uint rem < uint b"
    by (simp add: DivU64x64Remainder_def InternalMathDivRemU64x64_def uint_div_distrib uint_mod_distrib)
  have d: "sint d \<noteq> 0" using assms(2) signed_eq_0_iff by blast
  have cr: "- (2 ^ 63) \<le> sint c" "sint c < 2 ^ 63" using sint_ge[of c] sint_lt[of c] by simp_all
  have dr: "\<bar>sint d\<bar> \<le> 2 ^ 63" using sint_ge[of d] sint_lt[of d] by simp
  have q: "sint (word_of_int (trunc_div (sint c) (sint d)) :: 64 word) = trunc_div (sint c) (sint d)"
    using trunc_div_bound[OF d cr assms(4)] by (intro sint_of_int_range) simp_all
  have r: "sint (word_of_int (trunc_rem (sint c) (sint d)) :: 64 word) = trunc_rem (sint c) (sint d)"
    using trunc_rem_bound[OF d, of "sint c"] dr by (intro sint_of_int_range) auto
  show "\<exists>quo rem. DivS64x64Remainder c d (Some s0) = Some (quo, Some rem)
            \<and> sint quo = trunc_div (sint c) (sint d) \<and> sint c = sint quo * sint d + sint rem
            \<and> \<bar>sint rem\<bar> < \<bar>sint d\<bar>"
    using assms(2) q r trunc_rem_bound[OF d, of "sint c"]
    by (simp add: DivS64x64Remainder_def InternalMathDivRemS64x64_def, simp add: trunc_rem_def)
  have q0: "0 < uint q" using assms(3) by (metis less_le uint_0_iff uint_ge_0)
  have uq: "uint (ucast q :: 64 word) = uint q"
    using uint_lt2p[of q] by (simp add: unsigned_ucast_eq take_bit_int_eq_self)
  have "uint a mod uint q < 2 ^ 32" 
    using order_less_trans[OF pos_mod_bound[OF q0, of "uint a"] uint_lt2p[of q]] by simp
  then have "uint (ucast (a mod ucast q) :: 32 word) = uint a mod uint q"
    using uq by (simp add: unsigned_ucast_eq uint_mod_distrib take_bit_int_eq_self q0)
  with q0 uq assms(3) show "\<exists>quo rem. DivU64x32Remainder a q (Some t0) = Some (quo, Some rem) \<and> DivU64x32 a q = Some quo
            \<and> ModU64x32 a q = Some rem \<and> uint a = uint quo * uint q + uint rem \<and> uint rem < uint q"
    by (simp add: DivU64x32Remainder_def InternalMathDivRemU64x32_def DivU64x32_def InternalMathDivU64x32_def
        ModU64x32_def InternalMathModU64x32_def uint_div_distrib)
qed (simp add: DivU64x64Remainder_def)

theorem division_exact_witness:
  "\<exists>quo rem. DivS64x64Remainder (- 7) 2 (Some 0) = Some (quo, Some rem)
     \<and> sint quo = trunc_div (sint (- 7 :: INT64)) (sint (2 :: INT64))
     \<and> sint (- 7 :: INT64) = sint quo * sint (2 :: INT64) + sint rem"
  using division_exact[of 1 2 1 "- 7" 0 0 0 0 None] by auto

section \<open>Shifts\<close>

lemma sint_neg_bit: "sint (a :: 64 word) < 0 \<longleftrightarrow> bit a 63"
  using bit_last_iff[of a] by simp

lemma signed_shift_eq:
  fixes a :: "64 word"
  shows "drop_bit n a OR (if bit a 63 then NOT (drop_bit n (- 1)) else 0) = signed_drop_bit n a"
  by (rule bit_word_eqI) (auto simp: bit_simps dest: bit_imp_le_length)

lemma sint_divide_shift:
  fixes a :: "64 word"
  shows "sint (signed_drop_bit n a) = sint a div 2 ^ n"
  by (simp add: sint_signed_drop_bit_eq drop_bit_eq_div)

text \<open>
  The 64-bit shifts, for every count below 64: a left shift multiplies by 2^Count modulo 2^64, a right shift divides by
  2^Count, and the arithmetic right shift divides the signed value by 2^Count rounding down, whether the compiler's own
  right shift of signed values is arithmetic or logical. A count of 64 or more fails the ASSERT.
\<close>

theorem shifts_exact:
  fixes a :: UINT64
  assumes shr: "Shr = signed_drop_bit \<or> Shr = drop_bit"
  shows "LShiftU64 a c = (if c < 64 then Some (a * 2 ^ unat c) else None)
    \<and> RShiftU64 a c = (if c < 64 then Some (a div 2 ^ unat c) else None)
    \<and> ARShiftU64 Shr a c = (if c < 64 then Some (word_of_int (sint a div 2 ^ unat c)) else None)"
proof -
  have "Shr 63 (push_bit 63 1 :: 64 word) = - 1 \<Longrightarrow> Shr = signed_drop_bit"
    using shr by auto
  then have "InternalMathARShiftU64 Shr a c = signed_drop_bit (unat c) a"
    using signed_shift_eq[of "unat c" a] unfolding InternalMathARShiftU64_def Let_def sint_neg_bit by auto
  then have "ARShiftU64 Shr a c = (if c < 64 then Some (word_of_int (sint a div 2 ^ unat c)) else None)"
    by (simp add: ARShiftU64_def ASSERT_def flip: sint_divide_shift)
  then show ?thesis
    by (simp add: LShiftU64_def InternalMathLShiftU64_def RShiftU64_def InternalMathRShiftU64_def ASSERT_def
        push_bit_eq_mult drop_bit_eq_div)
qed

theorem shifts_exact_witness: "ARShiftU64 drop_bit (- 8) 1 = Some (- 4)"
  using shifts_exact[of drop_bit "- 8" 1] by simp

end
