(* ===== verification/SafeInt.thy ===== *)
theory SafeInt
  imports BaseMath
begin

text \<open>
  MdePkg/Library/BaseSafeIntLib: the conversions, additions, subtractions and multiplications that
  report an overflow instead of wrapping around (SafeIntLib.c, and SafeIntLib64.c for the types whose
  width depends on the processor). Every function of the two files is a definition below. A Result
  pointer is an \<open>option\<close>: \<open>None\<close> is NULL, \<open>Some\<close> a buffer with its content, and the result of a call is the
  returned status with the buffer after it.

  Comparisons are between values (\<^const>\<open>uint\<close> of an unsigned, \<^const>\<open>sint\<close> of a signed operand):
  the integer promotions and conversions C applies to the compared operands keep their values in
  every comparison of the two files. Arithmetic is on words of the width C uses. CHAR8 is the plain
  \<open>char\<close> of the X64 build, which is signed.
\<close>

unbundle bit_operations_syntax

section \<open>Limits and error values\<close>

abbreviation MAX_INT8 :: INT8 where "MAX_INT8 \<equiv> 0x7F"
abbreviation MAX_UINT8 :: UINT8 where "MAX_UINT8 \<equiv> 0xFF"
abbreviation MAX_INT16 :: INT16 where "MAX_INT16 \<equiv> 0x7FFF"
abbreviation MAX_UINT16 :: UINT16 where "MAX_UINT16 \<equiv> 0xFFFF"
abbreviation MAX_INT32 :: INT32 where "MAX_INT32 \<equiv> 0x7FFFFFFF"
abbreviation MAX_UINT32 :: UINT32 where "MAX_UINT32 \<equiv> 0xFFFFFFFF"
abbreviation MAX_INT64 :: INT64 where "MAX_INT64 \<equiv> 0x7FFFFFFFFFFFFFFF"
abbreviation MAX_UINT64 :: UINT64 where "MAX_UINT64 \<equiv> 0xFFFFFFFFFFFFFFFF"
abbreviation MAX_INTN :: INTN where "MAX_INTN \<equiv> 0x7FFFFFFFFFFFFFFF"
abbreviation MAX_UINTN :: UINTN where "MAX_UINTN \<equiv> 0xFFFFFFFFFFFFFFFF"
abbreviation MIN_INT8 :: INT8 where "MIN_INT8 \<equiv> - 127 - 1"
abbreviation MIN_INT16 :: INT16 where "MIN_INT16 \<equiv> - 32767 - 1"
abbreviation MIN_INT32 :: INT32 where "MIN_INT32 \<equiv> - 2147483647 - 1"
abbreviation MIN_INT64 :: INT64 where "MIN_INT64 \<equiv> - 9223372036854775807 - 1"

abbreviation INT8_ERROR :: INT8 where "INT8_ERROR \<equiv> - 1"
abbreviation UINT8_ERROR :: UINT8 where "UINT8_ERROR \<equiv> MAX_UINT8"
abbreviation CHAR8_ERROR :: CHAR8 where "CHAR8_ERROR \<equiv> MAX_INT8"
abbreviation INT16_ERROR :: INT16 where "INT16_ERROR \<equiv> - 1"
abbreviation UINT16_ERROR :: UINT16 where "UINT16_ERROR \<equiv> MAX_UINT16"
abbreviation INT32_ERROR :: INT32 where "INT32_ERROR \<equiv> - 1"
abbreviation UINT32_ERROR :: UINT32 where "UINT32_ERROR \<equiv> MAX_UINT32"
abbreviation INT64_ERROR :: INT64 where "INT64_ERROR \<equiv> - 1"
abbreviation UINT64_ERROR :: UINT64 where "UINT64_ERROR \<equiv> MAX_UINT64"
abbreviation INTN_ERROR :: INTN where "INTN_ERROR \<equiv> - 1"
abbreviation UINTN_ERROR :: UINTN where "UINTN_ERROR \<equiv> MAX_UINTN"

text \<open>
  The shape every checking function has: a NULL Result is refused; otherwise the value is stored with
  RETURN_SUCCESS when the check holds, and the type's error value with RETURN_BUFFER_TOO_SMALL when not.
\<close>

definition store_checked :: "'a option \<Rightarrow> bool \<Rightarrow> 'a \<Rightarrow> 'a \<Rightarrow> RETURN_STATUS \<times> 'a option" where
  "store_checked Result ok value error =
     (case Result of
        None \<Rightarrow> (RETURN_INVALID_PARAMETER, None)
      | Some _ \<Rightarrow> if ok then (RETURN_SUCCESS, Some value) else (RETURN_BUFFER_TOO_SMALL, Some error))"

section \<open>Conversions\<close>

definition SafeInt8ToUint8 :: "INT8 \<Rightarrow> UINT8 option \<Rightarrow> RETURN_STATUS \<times> UINT8 option" where
  "SafeInt8ToUint8 Operand Result =
     store_checked Result (0 \<le> sint Operand) (scast Operand) UINT8_ERROR"

definition SafeInt8ToChar8 :: "INT8 \<Rightarrow> CHAR8 option \<Rightarrow> RETURN_STATUS \<times> CHAR8 option" where
  "SafeInt8ToChar8 Operand Result =
     store_checked Result (0 \<le> sint Operand) (scast Operand) CHAR8_ERROR"

definition SafeInt8ToUint16 :: "INT8 \<Rightarrow> UINT16 option \<Rightarrow> RETURN_STATUS \<times> UINT16 option" where
  "SafeInt8ToUint16 Operand Result =
     store_checked Result (0 \<le> sint Operand) (scast Operand) UINT16_ERROR"

definition SafeInt8ToUint32 :: "INT8 \<Rightarrow> UINT32 option \<Rightarrow> RETURN_STATUS \<times> UINT32 option" where
  "SafeInt8ToUint32 Operand Result =
     store_checked Result (0 \<le> sint Operand) (scast Operand) UINT32_ERROR"

definition SafeInt8ToUintn :: "INT8 \<Rightarrow> UINTN option \<Rightarrow> RETURN_STATUS \<times> UINTN option" where
  "SafeInt8ToUintn Operand Result =
     store_checked Result (0 \<le> sint Operand) (scast Operand) UINTN_ERROR"

definition SafeInt8ToUint64 :: "INT8 \<Rightarrow> UINT64 option \<Rightarrow> RETURN_STATUS \<times> UINT64 option" where
  "SafeInt8ToUint64 Operand Result =
     store_checked Result (0 \<le> sint Operand) (scast Operand) UINT64_ERROR"

definition SafeUint8ToInt8 :: "UINT8 \<Rightarrow> INT8 option \<Rightarrow> RETURN_STATUS \<times> INT8 option" where
  "SafeUint8ToInt8 Operand Result =
     store_checked Result (uint Operand \<le> sint MAX_INT8) (ucast Operand) INT8_ERROR"

definition SafeUint8ToChar8 :: "UINT8 \<Rightarrow> CHAR8 option \<Rightarrow> RETURN_STATUS \<times> CHAR8 option" where
  "SafeUint8ToChar8 Operand Result =
     store_checked Result (uint Operand \<le> sint MAX_INT8) (ucast Operand) CHAR8_ERROR"

definition SafeInt16ToInt8 :: "INT16 \<Rightarrow> INT8 option \<Rightarrow> RETURN_STATUS \<times> INT8 option" where
  "SafeInt16ToInt8 Operand Result =
     store_checked Result (sint MIN_INT8 \<le> sint Operand \<and> sint Operand \<le> sint MAX_INT8) (scast Operand) INT8_ERROR"

definition SafeInt16ToChar8 :: "INT16 \<Rightarrow> CHAR8 option \<Rightarrow> RETURN_STATUS \<times> CHAR8 option" where
  "SafeInt16ToChar8 Operand Result =
     store_checked Result (0 \<le> sint Operand \<and> sint Operand \<le> sint MAX_INT8) (scast Operand) CHAR8_ERROR"

definition SafeInt16ToUint8 :: "INT16 \<Rightarrow> UINT8 option \<Rightarrow> RETURN_STATUS \<times> UINT8 option" where
  "SafeInt16ToUint8 Operand Result =
     store_checked Result (0 \<le> sint Operand \<and> sint Operand \<le> uint MAX_UINT8) (scast Operand) UINT8_ERROR"

definition SafeInt16ToUint16 :: "INT16 \<Rightarrow> UINT16 option \<Rightarrow> RETURN_STATUS \<times> UINT16 option" where
  "SafeInt16ToUint16 Operand Result =
     store_checked Result (0 \<le> sint Operand) (scast Operand) UINT16_ERROR"

definition SafeInt16ToUint32 :: "INT16 \<Rightarrow> UINT32 option \<Rightarrow> RETURN_STATUS \<times> UINT32 option" where
  "SafeInt16ToUint32 Operand Result =
     store_checked Result (0 \<le> sint Operand) (scast Operand) UINT32_ERROR"

definition SafeInt16ToUintn :: "INT16 \<Rightarrow> UINTN option \<Rightarrow> RETURN_STATUS \<times> UINTN option" where
  "SafeInt16ToUintn Operand Result =
     store_checked Result (0 \<le> sint Operand) (scast Operand) UINTN_ERROR"

definition SafeInt16ToUint64 :: "INT16 \<Rightarrow> UINT64 option \<Rightarrow> RETURN_STATUS \<times> UINT64 option" where
  "SafeInt16ToUint64 Operand Result =
     store_checked Result (0 \<le> sint Operand) (scast Operand) UINT64_ERROR"

definition SafeUint16ToInt8 :: "UINT16 \<Rightarrow> INT8 option \<Rightarrow> RETURN_STATUS \<times> INT8 option" where
  "SafeUint16ToInt8 Operand Result =
     store_checked Result (uint Operand \<le> sint MAX_INT8) (ucast Operand) INT8_ERROR"

definition SafeUint16ToChar8 :: "UINT16 \<Rightarrow> CHAR8 option \<Rightarrow> RETURN_STATUS \<times> CHAR8 option" where
  "SafeUint16ToChar8 Operand Result =
     store_checked Result (uint Operand \<le> sint MAX_INT8) (ucast Operand) CHAR8_ERROR"

definition SafeUint16ToUint8 :: "UINT16 \<Rightarrow> UINT8 option \<Rightarrow> RETURN_STATUS \<times> UINT8 option" where
  "SafeUint16ToUint8 Operand Result =
     store_checked Result (uint Operand \<le> uint MAX_UINT8) (ucast Operand) UINT8_ERROR"

definition SafeUint16ToInt16 :: "UINT16 \<Rightarrow> INT16 option \<Rightarrow> RETURN_STATUS \<times> INT16 option" where
  "SafeUint16ToInt16 Operand Result =
     store_checked Result (uint Operand \<le> sint MAX_INT16) (ucast Operand) INT16_ERROR"

definition SafeInt32ToInt8 :: "INT32 \<Rightarrow> INT8 option \<Rightarrow> RETURN_STATUS \<times> INT8 option" where
  "SafeInt32ToInt8 Operand Result =
     store_checked Result (sint MIN_INT8 \<le> sint Operand \<and> sint Operand \<le> sint MAX_INT8) (scast Operand) INT8_ERROR"

definition SafeInt32ToChar8 :: "INT32 \<Rightarrow> CHAR8 option \<Rightarrow> RETURN_STATUS \<times> CHAR8 option" where
  "SafeInt32ToChar8 Operand Result =
     store_checked Result (0 \<le> sint Operand \<and> sint Operand \<le> sint MAX_INT8) (scast Operand) CHAR8_ERROR"

definition SafeInt32ToUint8 :: "INT32 \<Rightarrow> UINT8 option \<Rightarrow> RETURN_STATUS \<times> UINT8 option" where
  "SafeInt32ToUint8 Operand Result =
     store_checked Result (0 \<le> sint Operand \<and> sint Operand \<le> uint MAX_UINT8) (scast Operand) UINT8_ERROR"

definition SafeInt32ToInt16 :: "INT32 \<Rightarrow> INT16 option \<Rightarrow> RETURN_STATUS \<times> INT16 option" where
  "SafeInt32ToInt16 Operand Result =
     store_checked Result (sint MIN_INT16 \<le> sint Operand \<and> sint Operand \<le> sint MAX_INT16) (scast Operand) INT16_ERROR"

definition SafeInt32ToUint16 :: "INT32 \<Rightarrow> UINT16 option \<Rightarrow> RETURN_STATUS \<times> UINT16 option" where
  "SafeInt32ToUint16 Operand Result =
     store_checked Result (0 \<le> sint Operand \<and> sint Operand \<le> uint MAX_UINT16) (scast Operand) UINT16_ERROR"

definition SafeInt32ToUint32 :: "INT32 \<Rightarrow> UINT32 option \<Rightarrow> RETURN_STATUS \<times> UINT32 option" where
  "SafeInt32ToUint32 Operand Result =
     store_checked Result (0 \<le> sint Operand) (scast Operand) UINT32_ERROR"

definition SafeInt32ToUint64 :: "INT32 \<Rightarrow> UINT64 option \<Rightarrow> RETURN_STATUS \<times> UINT64 option" where
  "SafeInt32ToUint64 Operand Result =
     store_checked Result (0 \<le> sint Operand) (scast Operand) UINT64_ERROR"

definition SafeUint32ToInt8 :: "UINT32 \<Rightarrow> INT8 option \<Rightarrow> RETURN_STATUS \<times> INT8 option" where
  "SafeUint32ToInt8 Operand Result =
     store_checked Result (uint Operand \<le> sint MAX_INT8) (ucast Operand) INT8_ERROR"

definition SafeUint32ToChar8 :: "UINT32 \<Rightarrow> CHAR8 option \<Rightarrow> RETURN_STATUS \<times> CHAR8 option" where
  "SafeUint32ToChar8 Operand Result =
     store_checked Result (uint Operand \<le> sint MAX_INT8) (ucast Operand) CHAR8_ERROR"

definition SafeUint32ToUint8 :: "UINT32 \<Rightarrow> UINT8 option \<Rightarrow> RETURN_STATUS \<times> UINT8 option" where
  "SafeUint32ToUint8 Operand Result =
     store_checked Result (uint Operand \<le> uint MAX_UINT8) (ucast Operand) UINT8_ERROR"

definition SafeUint32ToInt16 :: "UINT32 \<Rightarrow> INT16 option \<Rightarrow> RETURN_STATUS \<times> INT16 option" where
  "SafeUint32ToInt16 Operand Result =
     store_checked Result (uint Operand \<le> sint MAX_INT16) (ucast Operand) INT16_ERROR"

definition SafeUint32ToUint16 :: "UINT32 \<Rightarrow> UINT16 option \<Rightarrow> RETURN_STATUS \<times> UINT16 option" where
  "SafeUint32ToUint16 Operand Result =
     store_checked Result (uint Operand \<le> uint MAX_UINT16) (ucast Operand) UINT16_ERROR"

definition SafeUint32ToInt32 :: "UINT32 \<Rightarrow> INT32 option \<Rightarrow> RETURN_STATUS \<times> INT32 option" where
  "SafeUint32ToInt32 Operand Result =
     store_checked Result (uint Operand \<le> sint MAX_INT32) (ucast Operand) INT32_ERROR"

definition SafeIntnToInt8 :: "INTN \<Rightarrow> INT8 option \<Rightarrow> RETURN_STATUS \<times> INT8 option" where
  "SafeIntnToInt8 Operand Result =
     store_checked Result (sint MIN_INT8 \<le> sint Operand \<and> sint Operand \<le> sint MAX_INT8) (scast Operand) INT8_ERROR"

definition SafeIntnToChar8 :: "INTN \<Rightarrow> CHAR8 option \<Rightarrow> RETURN_STATUS \<times> CHAR8 option" where
  "SafeIntnToChar8 Operand Result =
     store_checked Result (0 \<le> sint Operand \<and> sint Operand \<le> sint MAX_INT8) (scast Operand) CHAR8_ERROR"

definition SafeIntnToUint8 :: "INTN \<Rightarrow> UINT8 option \<Rightarrow> RETURN_STATUS \<times> UINT8 option" where
  "SafeIntnToUint8 Operand Result =
     store_checked Result (0 \<le> sint Operand \<and> sint Operand \<le> uint MAX_UINT8) (scast Operand) UINT8_ERROR"

definition SafeIntnToInt16 :: "INTN \<Rightarrow> INT16 option \<Rightarrow> RETURN_STATUS \<times> INT16 option" where
  "SafeIntnToInt16 Operand Result =
     store_checked Result (sint MIN_INT16 \<le> sint Operand \<and> sint Operand \<le> sint MAX_INT16) (scast Operand) INT16_ERROR"

definition SafeIntnToUint16 :: "INTN \<Rightarrow> UINT16 option \<Rightarrow> RETURN_STATUS \<times> UINT16 option" where
  "SafeIntnToUint16 Operand Result =
     store_checked Result (0 \<le> sint Operand \<and> sint Operand \<le> uint MAX_UINT16) (scast Operand) UINT16_ERROR"

definition SafeIntnToUintn :: "INTN \<Rightarrow> UINTN option \<Rightarrow> RETURN_STATUS \<times> UINTN option" where
  "SafeIntnToUintn Operand Result =
     store_checked Result (0 \<le> sint Operand) (scast Operand) UINTN_ERROR"

definition SafeIntnToUint64 :: "INTN \<Rightarrow> UINT64 option \<Rightarrow> RETURN_STATUS \<times> UINT64 option" where
  "SafeIntnToUint64 Operand Result =
     store_checked Result (0 \<le> sint Operand) (scast Operand) UINT64_ERROR"

definition SafeUintnToInt8 :: "UINTN \<Rightarrow> INT8 option \<Rightarrow> RETURN_STATUS \<times> INT8 option" where
  "SafeUintnToInt8 Operand Result =
     store_checked Result (uint Operand \<le> sint MAX_INT8) (ucast Operand) INT8_ERROR"

definition SafeUintnToChar8 :: "UINTN \<Rightarrow> CHAR8 option \<Rightarrow> RETURN_STATUS \<times> CHAR8 option" where
  "SafeUintnToChar8 Operand Result =
     store_checked Result (uint Operand \<le> sint MAX_INT8) (ucast Operand) CHAR8_ERROR"

definition SafeUintnToUint8 :: "UINTN \<Rightarrow> UINT8 option \<Rightarrow> RETURN_STATUS \<times> UINT8 option" where
  "SafeUintnToUint8 Operand Result =
     store_checked Result (uint Operand \<le> uint MAX_UINT8) (ucast Operand) UINT8_ERROR"

definition SafeUintnToInt16 :: "UINTN \<Rightarrow> INT16 option \<Rightarrow> RETURN_STATUS \<times> INT16 option" where
  "SafeUintnToInt16 Operand Result =
     store_checked Result (uint Operand \<le> sint MAX_INT16) (ucast Operand) INT16_ERROR"

definition SafeUintnToUint16 :: "UINTN \<Rightarrow> UINT16 option \<Rightarrow> RETURN_STATUS \<times> UINT16 option" where
  "SafeUintnToUint16 Operand Result =
     store_checked Result (uint Operand \<le> uint MAX_UINT16) (ucast Operand) UINT16_ERROR"

definition SafeUintnToInt32 :: "UINTN \<Rightarrow> INT32 option \<Rightarrow> RETURN_STATUS \<times> INT32 option" where
  "SafeUintnToInt32 Operand Result =
     store_checked Result (uint Operand \<le> sint MAX_INT32) (ucast Operand) INT32_ERROR"

definition SafeUintnToIntn :: "UINTN \<Rightarrow> INTN option \<Rightarrow> RETURN_STATUS \<times> INTN option" where
  "SafeUintnToIntn Operand Result =
     store_checked Result (uint Operand \<le> sint MAX_INTN) (ucast Operand) INTN_ERROR"

definition SafeInt64ToInt8 :: "INT64 \<Rightarrow> INT8 option \<Rightarrow> RETURN_STATUS \<times> INT8 option" where
  "SafeInt64ToInt8 Operand Result =
     store_checked Result (sint MIN_INT8 \<le> sint Operand \<and> sint Operand \<le> sint MAX_INT8) (scast Operand) INT8_ERROR"

definition SafeInt64ToChar8 :: "INT64 \<Rightarrow> CHAR8 option \<Rightarrow> RETURN_STATUS \<times> CHAR8 option" where
  "SafeInt64ToChar8 Operand Result =
     store_checked Result (0 \<le> sint Operand \<and> sint Operand \<le> sint MAX_INT8) (scast Operand) CHAR8_ERROR"

definition SafeInt64ToUint8 :: "INT64 \<Rightarrow> UINT8 option \<Rightarrow> RETURN_STATUS \<times> UINT8 option" where
  "SafeInt64ToUint8 Operand Result =
     store_checked Result (0 \<le> sint Operand \<and> sint Operand \<le> uint MAX_UINT8) (scast Operand) UINT8_ERROR"

definition SafeInt64ToInt16 :: "INT64 \<Rightarrow> INT16 option \<Rightarrow> RETURN_STATUS \<times> INT16 option" where
  "SafeInt64ToInt16 Operand Result =
     store_checked Result (sint MIN_INT16 \<le> sint Operand \<and> sint Operand \<le> sint MAX_INT16) (scast Operand) INT16_ERROR"

definition SafeInt64ToUint16 :: "INT64 \<Rightarrow> UINT16 option \<Rightarrow> RETURN_STATUS \<times> UINT16 option" where
  "SafeInt64ToUint16 Operand Result =
     store_checked Result (0 \<le> sint Operand \<and> sint Operand \<le> uint MAX_UINT16) (scast Operand) UINT16_ERROR"

definition SafeInt64ToInt32 :: "INT64 \<Rightarrow> INT32 option \<Rightarrow> RETURN_STATUS \<times> INT32 option" where
  "SafeInt64ToInt32 Operand Result =
     store_checked Result (sint MIN_INT32 \<le> sint Operand \<and> sint Operand \<le> sint MAX_INT32) (scast Operand) INT32_ERROR"

definition SafeInt64ToUint32 :: "INT64 \<Rightarrow> UINT32 option \<Rightarrow> RETURN_STATUS \<times> UINT32 option" where
  "SafeInt64ToUint32 Operand Result =
     store_checked Result (0 \<le> sint Operand \<and> sint Operand \<le> uint MAX_UINT32) (scast Operand) UINT32_ERROR"

definition SafeInt64ToUint64 :: "INT64 \<Rightarrow> UINT64 option \<Rightarrow> RETURN_STATUS \<times> UINT64 option" where
  "SafeInt64ToUint64 Operand Result =
     store_checked Result (0 \<le> sint Operand) (scast Operand) UINT64_ERROR"

definition SafeUint64ToInt8 :: "UINT64 \<Rightarrow> INT8 option \<Rightarrow> RETURN_STATUS \<times> INT8 option" where
  "SafeUint64ToInt8 Operand Result =
     store_checked Result (uint Operand \<le> sint MAX_INT8) (ucast Operand) INT8_ERROR"

definition SafeUint64ToChar8 :: "UINT64 \<Rightarrow> CHAR8 option \<Rightarrow> RETURN_STATUS \<times> CHAR8 option" where
  "SafeUint64ToChar8 Operand Result =
     store_checked Result (uint Operand \<le> sint MAX_INT8) (ucast Operand) CHAR8_ERROR"

definition SafeUint64ToUint8 :: "UINT64 \<Rightarrow> UINT8 option \<Rightarrow> RETURN_STATUS \<times> UINT8 option" where
  "SafeUint64ToUint8 Operand Result =
     store_checked Result (uint Operand \<le> uint MAX_UINT8) (ucast Operand) UINT8_ERROR"

definition SafeUint64ToInt16 :: "UINT64 \<Rightarrow> INT16 option \<Rightarrow> RETURN_STATUS \<times> INT16 option" where
  "SafeUint64ToInt16 Operand Result =
     store_checked Result (uint Operand \<le> sint MAX_INT16) (ucast Operand) INT16_ERROR"

definition SafeUint64ToUint16 :: "UINT64 \<Rightarrow> UINT16 option \<Rightarrow> RETURN_STATUS \<times> UINT16 option" where
  "SafeUint64ToUint16 Operand Result =
     store_checked Result (uint Operand \<le> uint MAX_UINT16) (ucast Operand) UINT16_ERROR"

definition SafeUint64ToInt32 :: "UINT64 \<Rightarrow> INT32 option \<Rightarrow> RETURN_STATUS \<times> INT32 option" where
  "SafeUint64ToInt32 Operand Result =
     store_checked Result (uint Operand \<le> sint MAX_INT32) (ucast Operand) INT32_ERROR"

definition SafeUint64ToUint32 :: "UINT64 \<Rightarrow> UINT32 option \<Rightarrow> RETURN_STATUS \<times> UINT32 option" where
  "SafeUint64ToUint32 Operand Result =
     store_checked Result (uint Operand \<le> uint MAX_UINT32) (ucast Operand) UINT32_ERROR"

definition SafeUint64ToIntn :: "UINT64 \<Rightarrow> INTN option \<Rightarrow> RETURN_STATUS \<times> INTN option" where
  "SafeUint64ToIntn Operand Result =
     store_checked Result (uint Operand \<le> sint MAX_INTN) (ucast Operand) INTN_ERROR"

definition SafeUint64ToInt64 :: "UINT64 \<Rightarrow> INT64 option \<Rightarrow> RETURN_STATUS \<times> INT64 option" where
  "SafeUint64ToInt64 Operand Result =
     store_checked Result (uint Operand \<le> sint MAX_INT64) (ucast Operand) INT64_ERROR"

section \<open>Conversions of the processor-width types (SafeIntLib64.c)\<close>

definition SafeInt32ToUintn :: "INT32 \<Rightarrow> UINTN option \<Rightarrow> RETURN_STATUS \<times> UINTN option" where
  "SafeInt32ToUintn Operand Result = SafeInt32ToUint64 Operand Result"

definition SafeUint32ToIntn :: "UINT32 \<Rightarrow> INTN option \<Rightarrow> RETURN_STATUS \<times> INTN option" where
  "SafeUint32ToIntn Operand Result =
     (case Result of None \<Rightarrow> (RETURN_INVALID_PARAMETER, None) | Some _ \<Rightarrow> (RETURN_SUCCESS, Some (ucast Operand)))"

definition SafeIntnToInt32 :: "INTN \<Rightarrow> INT32 option \<Rightarrow> RETURN_STATUS \<times> INT32 option" where
  "SafeIntnToInt32 Operand Result = SafeInt64ToInt32 Operand Result"

definition SafeIntnToUint32 :: "INTN \<Rightarrow> UINT32 option \<Rightarrow> RETURN_STATUS \<times> UINT32 option" where
  "SafeIntnToUint32 Operand Result = SafeInt64ToUint32 Operand Result"

definition SafeUintnToUint32 :: "UINTN \<Rightarrow> UINT32 option \<Rightarrow> RETURN_STATUS \<times> UINT32 option" where
  "SafeUintnToUint32 Operand Result = SafeUint64ToUint32 Operand Result"

definition SafeUintnToInt64 :: "UINTN \<Rightarrow> INT64 option \<Rightarrow> RETURN_STATUS \<times> INT64 option" where
  "SafeUintnToInt64 Operand Result = SafeUint64ToInt64 Operand Result"

definition SafeInt64ToIntn :: "INT64 \<Rightarrow> INTN option \<Rightarrow> RETURN_STATUS \<times> INTN option" where
  "SafeInt64ToIntn Operand Result =
     (case Result of None \<Rightarrow> (RETURN_INVALID_PARAMETER, None) | Some _ \<Rightarrow> (RETURN_SUCCESS, Some Operand))"

definition SafeInt64ToUintn :: "INT64 \<Rightarrow> UINTN option \<Rightarrow> RETURN_STATUS \<times> UINTN option" where
  "SafeInt64ToUintn Operand Result = SafeInt64ToUint64 Operand Result"

definition SafeUint64ToUintn :: "UINT64 \<Rightarrow> UINTN option \<Rightarrow> RETURN_STATUS \<times> UINTN option" where
  "SafeUint64ToUintn Operand Result =
     (case Result of None \<Rightarrow> (RETURN_INVALID_PARAMETER, None) | Some _ \<Rightarrow> (RETURN_SUCCESS, Some Operand))"

section \<open>Unsigned arithmetic\<close>

definition SafeUint8Add :: "UINT8 \<Rightarrow> UINT8 \<Rightarrow> UINT8 option \<Rightarrow> RETURN_STATUS \<times> UINT8 option" where
  "SafeUint8Add Augend Addend Result =
     store_checked Result (Augend + Addend \<ge> Augend) (Augend + Addend) UINT8_ERROR"

definition SafeUint16Add :: "UINT16 \<Rightarrow> UINT16 \<Rightarrow> UINT16 option \<Rightarrow> RETURN_STATUS \<times> UINT16 option" where
  "SafeUint16Add Augend Addend Result =
     store_checked Result (Augend + Addend \<ge> Augend) (Augend + Addend) UINT16_ERROR"

definition SafeUint32Add :: "UINT32 \<Rightarrow> UINT32 \<Rightarrow> UINT32 option \<Rightarrow> RETURN_STATUS \<times> UINT32 option" where
  "SafeUint32Add Augend Addend Result =
     store_checked Result (Augend + Addend \<ge> Augend) (Augend + Addend) UINT32_ERROR"

definition SafeUint64Add :: "UINT64 \<Rightarrow> UINT64 \<Rightarrow> UINT64 option \<Rightarrow> RETURN_STATUS \<times> UINT64 option" where
  "SafeUint64Add Augend Addend Result =
     store_checked Result (Augend + Addend \<ge> Augend) (Augend + Addend) UINT64_ERROR"

definition SafeUint8Sub :: "UINT8 \<Rightarrow> UINT8 \<Rightarrow> UINT8 option \<Rightarrow> RETURN_STATUS \<times> UINT8 option" where
  "SafeUint8Sub Minuend Subtrahend Result =
     store_checked Result (Minuend \<ge> Subtrahend) (Minuend - Subtrahend) UINT8_ERROR"

definition SafeUint16Sub :: "UINT16 \<Rightarrow> UINT16 \<Rightarrow> UINT16 option \<Rightarrow> RETURN_STATUS \<times> UINT16 option" where
  "SafeUint16Sub Minuend Subtrahend Result =
     store_checked Result (Minuend \<ge> Subtrahend) (Minuend - Subtrahend) UINT16_ERROR"

definition SafeUint32Sub :: "UINT32 \<Rightarrow> UINT32 \<Rightarrow> UINT32 option \<Rightarrow> RETURN_STATUS \<times> UINT32 option" where
  "SafeUint32Sub Minuend Subtrahend Result =
     store_checked Result (Minuend \<ge> Subtrahend) (Minuend - Subtrahend) UINT32_ERROR"

definition SafeUint64Sub :: "UINT64 \<Rightarrow> UINT64 \<Rightarrow> UINT64 option \<Rightarrow> RETURN_STATUS \<times> UINT64 option" where
  "SafeUint64Sub Minuend Subtrahend Result =
     store_checked Result (Minuend \<ge> Subtrahend) (Minuend - Subtrahend) UINT64_ERROR"

definition SafeUint8Mult :: "UINT8 \<Rightarrow> UINT8 \<Rightarrow> UINT8 option \<Rightarrow> RETURN_STATUS \<times> UINT8 option" where
  "SafeUint8Mult Multiplicand Multiplier Result =
     (let IntermediateResult = (ucast Multiplicand :: UINT32) * (ucast Multiplier :: UINT32)
      in SafeUint32ToUint8 IntermediateResult Result)"

definition SafeUint16Mult :: "UINT16 \<Rightarrow> UINT16 \<Rightarrow> UINT16 option \<Rightarrow> RETURN_STATUS \<times> UINT16 option" where
  "SafeUint16Mult Multiplicand Multiplier Result =
     (let IntermediateResult = (ucast Multiplicand :: UINT32) * (ucast Multiplier :: UINT32)
      in SafeUint32ToUint16 IntermediateResult Result)"

definition SafeUint32Mult :: "UINT32 \<Rightarrow> UINT32 \<Rightarrow> UINT32 option \<Rightarrow> RETURN_STATUS \<times> UINT32 option" where
  "SafeUint32Mult Multiplicand Multiplier Result =
     (let IntermediateResult = (ucast Multiplicand :: UINT64) * (ucast Multiplier :: UINT64)
      in SafeUint64ToUint32 IntermediateResult Result)"

text \<open>
  The schoolbook product of the 32-bit halves. The counts of \<open>RShiftU64\<close> and \<open>LShiftU64\<close> are the
  constant 32, so their ASSERTs hold and the workers are named directly. \<open>stored\<close> is what the
  nest of conditions leaves in the Result buffer.
\<close>

definition SafeUint64Mult :: "UINT64 \<Rightarrow> UINT64 \<Rightarrow> UINT64 option \<Rightarrow> RETURN_STATUS \<times> UINT64 option" where
  "SafeUint64Mult Multiplicand Multiplier Result =
     (case Result of
        None \<Rightarrow> (RETURN_INVALID_PARAMETER, None)
      | Some _ \<Rightarrow>
        let DwordA = ucast (InternalMathRShiftU64 Multiplicand 32) :: UINT32;
            DwordC = ucast (InternalMathRShiftU64 Multiplier 32) :: UINT32;
            DwordB = ucast Multiplicand :: UINT32;
            DwordD = ucast Multiplier :: UINT32;
            (Status, stored) =
              (if DwordA = 0 \<and> DwordC = 0
               then (RETURN_SUCCESS, Some ((ucast DwordB :: UINT64) * ucast DwordD))
               else if DwordA = 0 \<or> DwordC = 0
               then
                 (let ProductAD = MultU64x64 (ucast DwordA) (ucast DwordD)
                  in if ProductAD AND 0xffffffff00000000 = 0
                  then
                    (let ProductBC = MultU64x64 (ucast DwordB) (ucast DwordC)
                     in if ProductBC AND 0xffffffff00000000 = 0
                     then
                       (case SafeUint64Add (InternalMathLShiftU64 ProductBC 32)
                               (InternalMathLShiftU64 ProductAD 32) (Some 0) of
                          (_, None) \<Rightarrow> (RETURN_BUFFER_TOO_SMALL, Result)
                        | (S1, Some UnsignedResult) \<Rightarrow>
                          if \<not> EFI_ERROR S1
                          then
                            (let ProductBD = MultU64x64 (ucast DwordB) (ucast DwordD)
                             in case SafeUint64Add UnsignedResult ProductBD (Some UnsignedResult) of
                                  (S2, U2) \<Rightarrow>
                                    if \<not> EFI_ERROR S2 then (RETURN_SUCCESS, U2)
                                    else (RETURN_BUFFER_TOO_SMALL, Result))
                          else (RETURN_BUFFER_TOO_SMALL, Result))
                     else (RETURN_BUFFER_TOO_SMALL, Result))
                  else (RETURN_BUFFER_TOO_SMALL, Result))
               else (RETURN_BUFFER_TOO_SMALL, Result))
        in if EFI_ERROR Status then (Status, Some UINT64_ERROR) else (Status, stored))"

section \<open>Signed arithmetic\<close>

definition SafeInt8Add :: "INT8 \<Rightarrow> INT8 \<Rightarrow> INT8 option \<Rightarrow> RETURN_STATUS \<times> INT8 option" where
  "SafeInt8Add Augend Addend Result =
     SafeInt32ToInt8 ((scast Augend :: INT32) + (scast Addend :: INT32)) Result"

definition SafeInt16Add :: "INT16 \<Rightarrow> INT16 \<Rightarrow> INT16 option \<Rightarrow> RETURN_STATUS \<times> INT16 option" where
  "SafeInt16Add Augend Addend Result =
     SafeInt32ToInt16 ((scast Augend :: INT32) + (scast Addend :: INT32)) Result"

definition SafeInt32Add :: "INT32 \<Rightarrow> INT32 \<Rightarrow> INT32 option \<Rightarrow> RETURN_STATUS \<times> INT32 option" where
  "SafeInt32Add Augend Addend Result =
     SafeInt64ToInt32 ((scast Augend :: INT64) + (scast Addend :: INT64)) Result"

definition SafeChar8Add :: "CHAR8 \<Rightarrow> CHAR8 \<Rightarrow> CHAR8 option \<Rightarrow> RETURN_STATUS \<times> CHAR8 option" where
  "SafeChar8Add Augend Addend Result =
     (case Result of
        None \<Rightarrow> (RETURN_INVALID_PARAMETER, None)
      | Some _ \<Rightarrow>
        let Augend32 = scast Augend :: INT32; Addend32 = scast Addend :: INT32
        in if sint Augend32 < 0 \<or> sint Augend32 > sint MAX_INT8 then (RETURN_BUFFER_TOO_SMALL, Some CHAR8_ERROR)
           else if sint Addend32 < 0 \<or> sint Addend32 > sint MAX_INT8 then (RETURN_BUFFER_TOO_SMALL, Some CHAR8_ERROR)
           else SafeInt32ToChar8 (Augend32 + Addend32) Result)"

definition SafeInt8Sub :: "INT8 \<Rightarrow> INT8 \<Rightarrow> INT8 option \<Rightarrow> RETURN_STATUS \<times> INT8 option" where
  "SafeInt8Sub Minuend Subtrahend Result =
     SafeInt32ToInt8 ((scast Minuend :: INT32) - (scast Subtrahend :: INT32)) Result"

definition SafeInt16Sub :: "INT16 \<Rightarrow> INT16 \<Rightarrow> INT16 option \<Rightarrow> RETURN_STATUS \<times> INT16 option" where
  "SafeInt16Sub Minuend Subtrahend Result =
     SafeInt32ToInt16 ((scast Minuend :: INT32) - (scast Subtrahend :: INT32)) Result"

definition SafeInt32Sub :: "INT32 \<Rightarrow> INT32 \<Rightarrow> INT32 option \<Rightarrow> RETURN_STATUS \<times> INT32 option" where
  "SafeInt32Sub Minuend Subtrahend Result =
     SafeInt64ToInt32 ((scast Minuend :: INT64) - (scast Subtrahend :: INT64)) Result"

definition SafeChar8Sub :: "CHAR8 \<Rightarrow> CHAR8 \<Rightarrow> CHAR8 option \<Rightarrow> RETURN_STATUS \<times> CHAR8 option" where
  "SafeChar8Sub Minuend Subtrahend Result =
     (case Result of
        None \<Rightarrow> (RETURN_INVALID_PARAMETER, None)
      | Some _ \<Rightarrow>
        let Minuend32 = scast Minuend :: INT32; Subtrahend32 = scast Subtrahend :: INT32
        in if sint Minuend32 < 0 \<or> sint Minuend32 > sint MAX_INT8 then (RETURN_BUFFER_TOO_SMALL, Some CHAR8_ERROR)
           else if sint Subtrahend32 < 0 \<or> sint Subtrahend32 > sint MAX_INT8 then (RETURN_BUFFER_TOO_SMALL, Some CHAR8_ERROR)
           else SafeInt32ToChar8 (Minuend32 - Subtrahend32) Result)"

definition SafeInt64Add :: "INT64 \<Rightarrow> INT64 \<Rightarrow> INT64 option \<Rightarrow> RETURN_STATUS \<times> INT64 option" where
  "SafeInt64Add Augend Addend Result =
     store_checked Result
       (\<not> ((sint Addend > 0 \<and> sint Augend > sint (MAX_INT64 - Addend))
          \<or> (sint Addend < 0 \<and> sint Augend < sint (MIN_INT64 - Addend))))
       (Augend + Addend) INT64_ERROR"

definition SafeInt64Sub :: "INT64 \<Rightarrow> INT64 \<Rightarrow> INT64 option \<Rightarrow> RETURN_STATUS \<times> INT64 option" where
  "SafeInt64Sub Minuend Subtrahend Result =
     store_checked Result
       (\<not> ((sint Subtrahend > 0 \<and> sint Minuend < sint (MIN_INT64 + Subtrahend))
          \<or> (sint Subtrahend < 0 \<and> sint Minuend > sint (MAX_INT64 + Subtrahend))))
       (Minuend - Subtrahend) INT64_ERROR"

definition SafeInt8Mult :: "INT8 \<Rightarrow> INT8 \<Rightarrow> INT8 option \<Rightarrow> RETURN_STATUS \<times> INT8 option" where
  "SafeInt8Mult Multiplicand Multiplier Result =
     SafeInt32ToInt8 ((scast Multiplier :: INT32) * (scast Multiplicand :: INT32)) Result"

definition SafeChar8Mult :: "CHAR8 \<Rightarrow> CHAR8 \<Rightarrow> CHAR8 option \<Rightarrow> RETURN_STATUS \<times> CHAR8 option" where
  "SafeChar8Mult Multiplicand Multiplier Result =
     (case Result of
        None \<Rightarrow> (RETURN_INVALID_PARAMETER, None)
      | Some _ \<Rightarrow>
        let Multiplicand32 = scast Multiplicand :: INT32; Multiplier32 = scast Multiplier :: INT32
        in if sint Multiplicand32 < 0 \<or> sint Multiplicand32 > sint MAX_INT8
           then (RETURN_BUFFER_TOO_SMALL, Some CHAR8_ERROR)
           else if sint Multiplier32 < 0 \<or> sint Multiplier32 > sint MAX_INT8
           then (RETURN_BUFFER_TOO_SMALL, Some CHAR8_ERROR)
           else SafeInt32ToChar8 (Multiplicand32 * Multiplier32) Result)"

definition SafeInt16Mult :: "INT16 \<Rightarrow> INT16 \<Rightarrow> INT16 option \<Rightarrow> RETURN_STATUS \<times> INT16 option" where
  "SafeInt16Mult Multiplicand Multiplier Result =
     SafeInt32ToInt16 ((scast Multiplicand :: INT32) * (scast Multiplier :: INT32)) Result"

definition SafeInt32Mult :: "INT32 \<Rightarrow> INT32 \<Rightarrow> INT32 option \<Rightarrow> RETURN_STATUS \<times> INT32 option" where
  "SafeInt32Mult Multiplicand Multiplier Result =
     SafeInt64ToInt32 (MultS64x64 (scast Multiplicand) (scast Multiplier)) Result"

text \<open>The magnitude of MIN_INT64 as a UINT64.\<close>

definition MIN_INT64_MAGNITUDE :: UINT64 where
  "MIN_INT64_MAGNITUDE = - (MIN_INT64 + 1) + 1"

text \<open>
  Sign and magnitude. The local UnsignedResult is not initialised in the source; \<open>Some 0\<close> stands for
  its buffer, which \<open>SafeUint64Mult\<close> always overwrites.
\<close>

definition SafeInt64Mult :: "INT64 \<Rightarrow> INT64 \<Rightarrow> INT64 option \<Rightarrow> RETURN_STATUS \<times> INT64 option" where
  "SafeInt64Mult Multiplicand Multiplier Result =
     (case Result of
        None \<Rightarrow> (RETURN_INVALID_PARAMETER, None)
      | Some _ \<Rightarrow>
        let UnsignedMultiplicand =
              (if sint Multiplicand < 0 then - (Multiplicand + 1) + 1 else Multiplicand);
            UnsignedMultiplier =
              (if sint Multiplier < 0 then - (Multiplier + 1) + 1 else Multiplier)
        in case SafeUint64Mult UnsignedMultiplicand UnsignedMultiplier (Some 0) of
             (Status, None) \<Rightarrow> (Status, Some INT64_ERROR)
           | (Status, Some UnsignedResult) \<Rightarrow>
             if \<not> EFI_ERROR Status
             then if (sint Multiplicand < 0) \<noteq> (sint Multiplier < 0)
               then if UnsignedResult > MIN_INT64_MAGNITUDE
                    then (RETURN_BUFFER_TOO_SMALL, Some INT64_ERROR)
                    else if UnsignedResult = MIN_INT64_MAGNITUDE
                    then (Status, Some MIN_INT64)
                    else (Status, Some (- UnsignedResult))
               else if UnsignedResult > MAX_INT64
                    then (RETURN_BUFFER_TOO_SMALL, Some INT64_ERROR)
                    else (Status, Some UnsignedResult)
             else (Status, Some INT64_ERROR))"

section \<open>Arithmetic of the processor-width types (SafeIntLib64.c)\<close>

definition SafeUintnAdd :: "UINTN \<Rightarrow> UINTN \<Rightarrow> UINTN option \<Rightarrow> RETURN_STATUS \<times> UINTN option" where
  "SafeUintnAdd Augend Addend Result = SafeUint64Add Augend Addend Result"

definition SafeUintnSub :: "UINTN \<Rightarrow> UINTN \<Rightarrow> UINTN option \<Rightarrow> RETURN_STATUS \<times> UINTN option" where
  "SafeUintnSub Minuend Subtrahend Result = SafeUint64Sub Minuend Subtrahend Result"

definition SafeUintnMult :: "UINTN \<Rightarrow> UINTN \<Rightarrow> UINTN option \<Rightarrow> RETURN_STATUS \<times> UINTN option" where
  "SafeUintnMult Multiplicand Multiplier Result = SafeUint64Mult Multiplicand Multiplier Result"

definition SafeIntnAdd :: "INTN \<Rightarrow> INTN \<Rightarrow> INTN option \<Rightarrow> RETURN_STATUS \<times> INTN option" where
  "SafeIntnAdd Augend Addend Result = SafeInt64Add Augend Addend Result"

definition SafeIntnSub :: "INTN \<Rightarrow> INTN \<Rightarrow> INTN option \<Rightarrow> RETURN_STATUS \<times> INTN option" where
  "SafeIntnSub Minuend Subtrahend Result = SafeInt64Sub Minuend Subtrahend Result"

definition SafeIntnMult :: "INTN \<Rightarrow> INTN \<Rightarrow> INTN option \<Rightarrow> RETURN_STATUS \<times> INTN option" where
  "SafeIntnMult Multiplicand Multiplier Result = SafeInt64Mult Multiplicand Multiplier Result"

section \<open>What a checked operation promises\<close>

text \<open>
  A call with mathematical result \<open>v\<close> is exact: NULL is refused, a representable \<open>v\<close> is stored with
  RETURN_SUCCESS, and any other leaves the error value with RETURN_BUFFER_TOO_SMALL. One reading for an
  unsigned, one for a signed result type and one for CHAR8, whose range is 0 to 127.
\<close>

definition exact_unsigned :: "int \<Rightarrow> 'a::len word option \<Rightarrow> RETURN_STATUS \<times> 'a word option \<Rightarrow> bool" where
  "exact_unsigned v Result out \<longleftrightarrow>
     (case Result of
        None \<Rightarrow> out = (RETURN_INVALID_PARAMETER, None)
      | Some _ \<Rightarrow> if 0 \<le> v \<and> v < 2 ^ LENGTH('a)
          then \<exists>r. out = (RETURN_SUCCESS, Some r) \<and> uint r = v
          else out = (RETURN_BUFFER_TOO_SMALL, Some (- 1)))"

definition exact_signed :: "int \<Rightarrow> 'a::len word option \<Rightarrow> RETURN_STATUS \<times> 'a word option \<Rightarrow> bool" where
  "exact_signed v Result out \<longleftrightarrow>
     (case Result of
        None \<Rightarrow> out = (RETURN_INVALID_PARAMETER, None)
      | Some _ \<Rightarrow> if - (2 ^ (LENGTH('a) - 1)) \<le> v \<and> v < 2 ^ (LENGTH('a) - 1)
          then \<exists>r. out = (RETURN_SUCCESS, Some r) \<and> sint r = v
          else out = (RETURN_BUFFER_TOO_SMALL, Some (- 1)))"

definition exact_char8 :: "int \<Rightarrow> CHAR8 option \<Rightarrow> RETURN_STATUS \<times> CHAR8 option \<Rightarrow> bool" where
  "exact_char8 v Result out \<longleftrightarrow>
     (case Result of
        None \<Rightarrow> out = (RETURN_INVALID_PARAMETER, None)
      | Some _ \<Rightarrow> if 0 \<le> v \<and> v \<le> 127
          then \<exists>r. out = (RETURN_SUCCESS, Some r) \<and> sint r = v
          else out = (RETURN_BUFFER_TOO_SMALL, Some CHAR8_ERROR))"

lemma exact_unsigned_store:
  fixes val :: "'a::len word"
  assumes "ok \<longleftrightarrow> 0 \<le> v \<and> v < 2 ^ LENGTH('a)" and "val = word_of_int v" and "error = - 1"
  shows "exact_unsigned v Result (store_checked Result ok val error)"
  using assms by (auto simp: exact_unsigned_def store_checked_def uint_of_int_range split: option.splits)

lemma exact_signed_store:
  fixes val :: "'a::len word"
  assumes "ok \<longleftrightarrow> - (2 ^ (LENGTH('a) - 1)) \<le> v \<and> v < 2 ^ (LENGTH('a) - 1)"
    and "val = word_of_int v" and "error = - 1"
  shows "exact_signed v Result (store_checked Result ok val error)"
  using assms by (auto simp: exact_signed_def store_checked_def sint_of_int_range split: option.splits)

lemma exact_char8_store:
  assumes "ok \<longleftrightarrow> 0 \<le> v \<and> v \<le> 127" and "val = word_of_int v" and "error = CHAR8_ERROR"
  shows "exact_char8 v Result (store_checked Result ok val error)"
  using assms by (auto simp: exact_char8_def store_checked_def sint_of_int_range split: option.splits)

lemmas exact_store = exact_unsigned_store exact_signed_store exact_char8_store

section \<open>Conversions are exact\<close>

text \<open>
  The checks the conversion functions write, for any source width \<open>'a\<close> and target width \<open>'b\<close>: one
  lemma per kind of source, target and check.
\<close>

lemma less_power_mono: "x < 2 ^ m \<Longrightarrow> m \<le> n \<Longrightarrow> x < (2 :: int) ^ n"
  by (erule order_less_le_trans) (simp add: power_increasing)

lemma signed_to_wide_unsigned:
  fixes x :: "'a::len word" and R :: "'b::len word option"
  assumes "LENGTH('a) \<le> LENGTH('b)" and "error = - 1"
  shows "exact_unsigned (sint x) R (store_checked R (0 \<le> sint x) (scast x) error)"
proof (rule exact_unsigned_store)
  have "sint x < 2 ^ LENGTH('b)" using assms(1) by (intro less_power_mono[OF sint_lt]) simp
  then show "0 \<le> sint x \<longleftrightarrow> 0 \<le> sint x \<and> sint x < 2 ^ LENGTH('b)" by simp
qed (use assms in simp_all)

lemma signed_to_narrow_unsigned:
  fixes x :: "'a::len word" and R :: "'b::len word option"
  assumes "M = 2 ^ LENGTH('b) - 1" and "error = - 1"
  shows "exact_unsigned (sint x) R (store_checked R (0 \<le> sint x \<and> sint x \<le> M) (scast x) error)"
  using assms by (intro exact_unsigned_store) auto

lemma unsigned_to_narrow_unsigned:
  fixes x :: "'a::len word" and R :: "'b::len word option"
  assumes "M = 2 ^ LENGTH('b) - 1" and "error = - 1"
  shows "exact_unsigned (uint x) R (store_checked R (uint x \<le> M) (ucast x) error)"
  using assms by (intro exact_unsigned_store) auto

lemma unsigned_to_signed:
  fixes x :: "'a::len word" and R :: "'b::len word option"
  assumes "M = 2 ^ (LENGTH('b) - 1) - 1" and "error = - 1"
  shows "exact_signed (uint x) R (store_checked R (uint x \<le> M) (ucast x) error)"
proof (rule exact_signed_store)
  have "- (2 ^ (LENGTH('b) - 1)) \<le> uint x"
    by (rule order_trans[OF _ uint_ge_0]) simp
  with assms(1) show "uint x \<le> M \<longleftrightarrow> - (2 ^ (LENGTH('b) - 1)) \<le> uint x \<and> uint x < 2 ^ (LENGTH('b) - 1)"
    by auto
qed (use assms in simp_all)

lemma signed_to_narrow_signed:
  fixes x :: "'a::len word" and R :: "'b::len word option"
  assumes "m = - (2 ^ (LENGTH('b) - 1))" and "M = 2 ^ (LENGTH('b) - 1) - 1" and "error = - 1"
  shows "exact_signed (sint x) R (store_checked R (m \<le> sint x \<and> sint x \<le> M) (scast x) error)"
  using assms by (intro exact_signed_store) auto

lemma int8_to_char8:
  fixes x :: INT8
  assumes "error = CHAR8_ERROR"
  shows "exact_char8 (sint x) R (store_checked R (0 \<le> sint x) (scast x) error)"
  using assms sint_lt[of x] by (intro exact_char8_store) auto

lemma signed_to_char8:
  assumes "M = 127" and "error = CHAR8_ERROR"
  shows "exact_char8 (sint x) R (store_checked R (0 \<le> sint x \<and> sint x \<le> M) (scast x) error)"
  using assms by (intro exact_char8_store) auto

lemma unsigned_to_char8:
  assumes "M = 127" and "error = CHAR8_ERROR"
  shows "exact_char8 (uint x) R (store_checked R (uint x \<le> M) (ucast x) error)"
  using assms by (intro exact_char8_store) auto

lemmas conversion_patterns =
  signed_to_wide_unsigned signed_to_narrow_unsigned unsigned_to_narrow_unsigned
  unsigned_to_signed signed_to_narrow_signed int8_to_char8 signed_to_char8 unsigned_to_char8

text \<open>The conversions of SafeIntLib64.c that cannot fail store the operand unchecked.\<close>

lemma always_fits:
  fixes R :: "64 word option"
  shows "exact_unsigned (uint x) R (case R of None \<Rightarrow> (RETURN_INVALID_PARAMETER, None) | Some _ \<Rightarrow> (RETURN_SUCCESS, Some x))"
    and "exact_signed (sint x) R (case R of None \<Rightarrow> (RETURN_INVALID_PARAMETER, None) | Some _ \<Rightarrow> (RETURN_SUCCESS, Some x))"
    and "exact_signed (uint (y :: 32 word)) R
           (case R of None \<Rightarrow> (RETURN_INVALID_PARAMETER, None) | Some _ \<Rightarrow> (RETURN_SUCCESS, Some (ucast y)))"
proof -
  show "exact_unsigned (uint x) R (case R of None \<Rightarrow> (RETURN_INVALID_PARAMETER, None) | Some _ \<Rightarrow> (RETURN_SUCCESS, Some x))"
    using uint_lt2p[of x] by (auto simp: exact_unsigned_def split: option.splits)
  show "exact_signed (sint x) R (case R of None \<Rightarrow> (RETURN_INVALID_PARAMETER, None) | Some _ \<Rightarrow> (RETURN_SUCCESS, Some x))"
    using sint_ge[of x] sint_lt[of x] by (auto simp: exact_signed_def split: option.splits)
  have ge: "- (2 ^ 63) \<le> uint y" by (rule order_trans[OF _ uint_ge_0]) simp
  have lt: "uint y < 2 ^ 63" by (rule less_power_mono[OF uint_lt2p]) simp
  have "sint (word_of_int (uint y) :: 64 word) = uint y"
    using ge lt by (intro sint_of_int_range) simp_all
  with ge lt show "exact_signed (uint y) R
      (case R of None \<Rightarrow> (RETURN_INVALID_PARAMETER, None) | Some _ \<Rightarrow> (RETURN_SUCCESS, Some (ucast y)))"
    by (simp add: exact_signed_def split: option.splits)
qed

text \<open>
  Every conversion of SafeIntLib.c and SafeIntLib64.c to an unsigned type is exact: a NULL Result is
  refused with RETURN_INVALID_PARAMETER, an operand whose mathematical value the target type holds is
  stored with that value and RETURN_SUCCESS, and every other operand stores the error value of the
  target type with RETURN_BUFFER_TOO_SMALL.
\<close>

theorem conversions_to_unsigned_exact:
  "exact_unsigned (sint i8) R_u8 (SafeInt8ToUint8 i8 R_u8)
   \<and> exact_unsigned (sint i8) R_u16 (SafeInt8ToUint16 i8 R_u16)
   \<and> exact_unsigned (sint i8) R_u32 (SafeInt8ToUint32 i8 R_u32)
   \<and> exact_unsigned (sint i8) R_uN (SafeInt8ToUintn i8 R_uN)
   \<and> exact_unsigned (sint i8) R_u64 (SafeInt8ToUint64 i8 R_u64)
   \<and> exact_unsigned (sint i16) R_u8 (SafeInt16ToUint8 i16 R_u8)
   \<and> exact_unsigned (sint i16) R_u16 (SafeInt16ToUint16 i16 R_u16)
   \<and> exact_unsigned (sint i16) R_u32 (SafeInt16ToUint32 i16 R_u32)
   \<and> exact_unsigned (sint i16) R_uN (SafeInt16ToUintn i16 R_uN)
   \<and> exact_unsigned (sint i16) R_u64 (SafeInt16ToUint64 i16 R_u64)
   \<and> exact_unsigned (uint u16) R_u8 (SafeUint16ToUint8 u16 R_u8)
   \<and> exact_unsigned (sint i32) R_u8 (SafeInt32ToUint8 i32 R_u8)
   \<and> exact_unsigned (sint i32) R_u16 (SafeInt32ToUint16 i32 R_u16)
   \<and> exact_unsigned (sint i32) R_u32 (SafeInt32ToUint32 i32 R_u32)
   \<and> exact_unsigned (sint i32) R_u64 (SafeInt32ToUint64 i32 R_u64)
   \<and> exact_unsigned (uint u32) R_u8 (SafeUint32ToUint8 u32 R_u8)
   \<and> exact_unsigned (uint u32) R_u16 (SafeUint32ToUint16 u32 R_u16)
   \<and> exact_unsigned (sint iN) R_u8 (SafeIntnToUint8 iN R_u8)
   \<and> exact_unsigned (sint iN) R_u16 (SafeIntnToUint16 iN R_u16)
   \<and> exact_unsigned (sint iN) R_uN (SafeIntnToUintn iN R_uN)
   \<and> exact_unsigned (sint iN) R_u64 (SafeIntnToUint64 iN R_u64)
   \<and> exact_unsigned (uint uN) R_u8 (SafeUintnToUint8 uN R_u8)
   \<and> exact_unsigned (uint uN) R_u16 (SafeUintnToUint16 uN R_u16)
   \<and> exact_unsigned (sint i64) R_u8 (SafeInt64ToUint8 i64 R_u8)
   \<and> exact_unsigned (sint i64) R_u16 (SafeInt64ToUint16 i64 R_u16)
   \<and> exact_unsigned (sint i64) R_u32 (SafeInt64ToUint32 i64 R_u32)
   \<and> exact_unsigned (sint i64) R_u64 (SafeInt64ToUint64 i64 R_u64)
   \<and> exact_unsigned (uint u64) R_u8 (SafeUint64ToUint8 u64 R_u8)
   \<and> exact_unsigned (uint u64) R_u16 (SafeUint64ToUint16 u64 R_u16)
   \<and> exact_unsigned (uint u64) R_u32 (SafeUint64ToUint32 u64 R_u32)
   \<and> exact_unsigned (sint i32) R_uN (SafeInt32ToUintn i32 R_uN)
   \<and> exact_unsigned (sint iN) R_u32 (SafeIntnToUint32 iN R_u32)
   \<and> exact_unsigned (uint uN) R_u32 (SafeUintnToUint32 uN R_u32)
   \<and> exact_unsigned (sint i64) R_uN (SafeInt64ToUintn i64 R_uN)
   \<and> exact_unsigned (uint u64) R_uN (SafeUint64ToUintn u64 R_uN)"
  unfolding SafeInt8ToUint8_def SafeInt8ToUint16_def SafeInt8ToUint32_def SafeInt8ToUintn_def SafeInt8ToUint64_def SafeInt16ToUint8_def SafeInt16ToUint16_def SafeInt16ToUint32_def SafeInt16ToUintn_def SafeInt16ToUint64_def SafeUint16ToUint8_def SafeInt32ToUint8_def SafeInt32ToUint16_def SafeInt32ToUint32_def SafeInt32ToUint64_def SafeUint32ToUint8_def SafeUint32ToUint16_def SafeIntnToUint8_def SafeIntnToUint16_def SafeIntnToUintn_def SafeIntnToUint64_def SafeUintnToUint8_def SafeUintnToUint16_def SafeInt64ToUint8_def SafeInt64ToUint16_def SafeInt64ToUint32_def SafeInt64ToUint64_def SafeUint64ToUint8_def SafeUint64ToUint16_def SafeUint64ToUint32_def SafeInt32ToUintn_def SafeIntnToUint32_def SafeUintnToUint32_def SafeInt64ToUintn_def SafeUint64ToUintn_def
 SafeInt32ToUint64_def SafeInt64ToInt32_def SafeInt64ToUint32_def SafeUint64ToUint32_def SafeUint64ToInt64_def SafeInt64ToUint64_def
  by (intro conjI conversion_patterns always_fits) simp_all

text \<open>
  Every conversion to a signed type is exact in the same sense, for the two's complement range of
  the target type.
\<close>

theorem conversions_to_signed_exact:
  "exact_signed (uint u8) R_i8 (SafeUint8ToInt8 u8 R_i8)
   \<and> exact_signed (sint i16) R_i8 (SafeInt16ToInt8 i16 R_i8)
   \<and> exact_signed (uint u16) R_i8 (SafeUint16ToInt8 u16 R_i8)
   \<and> exact_signed (uint u16) R_i16 (SafeUint16ToInt16 u16 R_i16)
   \<and> exact_signed (sint i32) R_i8 (SafeInt32ToInt8 i32 R_i8)
   \<and> exact_signed (sint i32) R_i16 (SafeInt32ToInt16 i32 R_i16)
   \<and> exact_signed (uint u32) R_i8 (SafeUint32ToInt8 u32 R_i8)
   \<and> exact_signed (uint u32) R_i16 (SafeUint32ToInt16 u32 R_i16)
   \<and> exact_signed (uint u32) R_i32 (SafeUint32ToInt32 u32 R_i32)
   \<and> exact_signed (sint iN) R_i8 (SafeIntnToInt8 iN R_i8)
   \<and> exact_signed (sint iN) R_i16 (SafeIntnToInt16 iN R_i16)
   \<and> exact_signed (uint uN) R_i8 (SafeUintnToInt8 uN R_i8)
   \<and> exact_signed (uint uN) R_i16 (SafeUintnToInt16 uN R_i16)
   \<and> exact_signed (uint uN) R_i32 (SafeUintnToInt32 uN R_i32)
   \<and> exact_signed (uint uN) R_iN (SafeUintnToIntn uN R_iN)
   \<and> exact_signed (sint i64) R_i8 (SafeInt64ToInt8 i64 R_i8)
   \<and> exact_signed (sint i64) R_i16 (SafeInt64ToInt16 i64 R_i16)
   \<and> exact_signed (sint i64) R_i32 (SafeInt64ToInt32 i64 R_i32)
   \<and> exact_signed (uint u64) R_i8 (SafeUint64ToInt8 u64 R_i8)
   \<and> exact_signed (uint u64) R_i16 (SafeUint64ToInt16 u64 R_i16)
   \<and> exact_signed (uint u64) R_i32 (SafeUint64ToInt32 u64 R_i32)
   \<and> exact_signed (uint u64) R_iN (SafeUint64ToIntn u64 R_iN)
   \<and> exact_signed (uint u64) R_i64 (SafeUint64ToInt64 u64 R_i64)
   \<and> exact_signed (uint u32) R_iN (SafeUint32ToIntn u32 R_iN)
   \<and> exact_signed (sint iN) R_i32 (SafeIntnToInt32 iN R_i32)
   \<and> exact_signed (uint uN) R_i64 (SafeUintnToInt64 uN R_i64)
   \<and> exact_signed (sint i64) R_iN (SafeInt64ToIntn i64 R_iN)"
  unfolding SafeUint8ToInt8_def SafeInt16ToInt8_def SafeUint16ToInt8_def SafeUint16ToInt16_def SafeInt32ToInt8_def SafeInt32ToInt16_def SafeUint32ToInt8_def SafeUint32ToInt16_def SafeUint32ToInt32_def SafeIntnToInt8_def SafeIntnToInt16_def SafeUintnToInt8_def SafeUintnToInt16_def SafeUintnToInt32_def SafeUintnToIntn_def SafeInt64ToInt8_def SafeInt64ToInt16_def SafeInt64ToInt32_def SafeUint64ToInt8_def SafeUint64ToInt16_def SafeUint64ToInt32_def SafeUint64ToIntn_def SafeUint64ToInt64_def SafeUint32ToIntn_def SafeIntnToInt32_def SafeUintnToInt64_def SafeInt64ToIntn_def
 SafeInt32ToUint64_def SafeInt64ToInt32_def SafeInt64ToUint32_def SafeUint64ToUint32_def SafeUint64ToInt64_def SafeInt64ToUint64_def
  by (intro conjI conversion_patterns always_fits) simp_all

text \<open>
  Every conversion to CHAR8 is exact for the range 0..127 of ASCII characters, with MAX_INT8 as the
  error value.
\<close>

theorem conversions_to_char8_exact:
  "exact_char8 (sint i8) R_c8 (SafeInt8ToChar8 i8 R_c8)
   \<and> exact_char8 (uint u8) R_c8 (SafeUint8ToChar8 u8 R_c8)
   \<and> exact_char8 (sint i16) R_c8 (SafeInt16ToChar8 i16 R_c8)
   \<and> exact_char8 (uint u16) R_c8 (SafeUint16ToChar8 u16 R_c8)
   \<and> exact_char8 (sint i32) R_c8 (SafeInt32ToChar8 i32 R_c8)
   \<and> exact_char8 (uint u32) R_c8 (SafeUint32ToChar8 u32 R_c8)
   \<and> exact_char8 (sint iN) R_c8 (SafeIntnToChar8 iN R_c8)
   \<and> exact_char8 (uint uN) R_c8 (SafeUintnToChar8 uN R_c8)
   \<and> exact_char8 (sint i64) R_c8 (SafeInt64ToChar8 i64 R_c8)
   \<and> exact_char8 (uint u64) R_c8 (SafeUint64ToChar8 u64 R_c8)"
  unfolding SafeInt8ToChar8_def SafeUint8ToChar8_def SafeInt16ToChar8_def SafeUint16ToChar8_def SafeInt32ToChar8_def SafeUint32ToChar8_def SafeIntnToChar8_def SafeUintnToChar8_def SafeInt64ToChar8_def SafeUint64ToChar8_def
 SafeInt32ToUint64_def SafeInt64ToInt32_def SafeInt64ToUint32_def SafeUint64ToUint32_def SafeUint64ToInt64_def SafeInt64ToUint64_def
  by (intro conjI conversion_patterns always_fits) simp_all

section \<open>Arithmetic is exact\<close>

lemma unsigned_add:
  fixes x y :: "'a::len word"
  assumes "error = - 1"
  shows "exact_unsigned (uint x + uint y) R (store_checked R (x \<le> x + y) (x + y) error)"
  using assms by (intro exact_unsigned_store) (simp_all add: no_olen_add)

lemma unsigned_sub:
  fixes x y :: "'a::len word"
  assumes "error = - 1"
  shows "exact_unsigned (uint x - uint y) R (store_checked R (y \<le> x) (x - y) error)"
proof (rule exact_unsigned_store)
  have "uint x - uint y < 2 ^ LENGTH('a)" using uint_lt2p[of x] uint_ge_0[of y] by linarith
  then show "y \<le> x \<longleftrightarrow> 0 \<le> uint x - uint y \<and> uint x - uint y < 2 ^ LENGTH('a)"
    by (simp add: word_le_def)
qed (use assms in simp_all)

lemma power_half: "0 < n \<Longrightarrow> (2 :: int) ^ (n - 1) + 2 ^ (n - 1) = 2 ^ n"
  by (cases n) simp_all

lemma sint_widened:
  fixes x y :: "'a::len word"
  assumes "LENGTH('a) < LENGTH('b::len)"
  shows "sint (scast x + scast y :: 'b word) = sint x + sint y"
    and "sint (scast x - scast y :: 'b word) = sint x - sint y"
proof -
  have le: "(2 :: int) ^ LENGTH('a) \<le> 2 ^ (LENGTH('b) - 1)"
    using assms by (intro power_increasing) simp_all
  have half: "(2 :: int) ^ (LENGTH('a) - 1) + 2 ^ (LENGTH('a) - 1) = 2 ^ LENGTH('a)"
    by (rule power_half) simp
  note bounds = sint_lt[of x] sint_lt[of y] sint_ge[of x] sint_ge[of y]
  have "sint (word_of_int (sint x + sint y) :: 'b word) = sint x + sint y"
    by (rule sint_of_int_range) (use le half bounds in linarith)+
  then show "sint (scast x + scast y :: 'b word) = sint x + sint y" by simp
  have "sint (word_of_int (sint x - sint y) :: 'b word) = sint x - sint y"
    by (rule sint_of_int_range) (use le half bounds in linarith)+
  then show "sint (scast x - scast y :: 'b word) = sint x - sint y" by simp
qed

lemma sint_widened_mult:
  fixes x y :: "'a::len word"
  assumes "2 * LENGTH('a) \<le> LENGTH('b::len)"
  shows "sint (scast x * scast y :: 'b word) = sint x * sint y"
proof -
  have "\<bar>sint x * sint y\<bar> \<le> 2 ^ (LENGTH('a) - 1) * 2 ^ (LENGTH('a) - 1)"
    unfolding abs_mult using sint_lt[of x] sint_lt[of y] sint_ge[of x] sint_ge[of y]
    by (intro mult_mono) auto
  also have "\<dots> = 2 ^ (2 * (LENGTH('a) - 1))" by (simp add: mult_2 power_add)
  also have "\<dots> < (2 :: int) ^ (LENGTH('b) - 1)"
  proof (rule power_strict_increasing)
    have "0 < LENGTH('a)" by simp
    with assms show "2 * (LENGTH('a) - 1) < LENGTH('b) - 1" by linarith
  qed simp
  finally have "\<bar>sint x * sint y\<bar> < 2 ^ (LENGTH('b) - 1)" .
  then have "sint (word_of_int (sint x * sint y) :: 'b word) = sint x * sint y"
    by (intro sint_of_int_range) linarith+
  then show ?thesis by simp
qed

lemma uint_widened_mult:
  fixes x y :: "'a::len word"
  assumes "2 * LENGTH('a) \<le> LENGTH('b::len)"
  shows "uint (ucast x * ucast y :: 'b word) = uint x * uint y"
proof -
  have "uint x * uint y < 2 ^ LENGTH('a) * 2 ^ LENGTH('a)"
    by (intro mult_strict_mono) simp_all
  also have "\<dots> = 2 ^ (2 * LENGTH('a))" by (simp add: mult_2 power_add)
  also have "\<dots> \<le> (2 :: int) ^ LENGTH('b)" using assms by (intro power_increasing) simp_all
  finally have "uint (word_of_int (uint x * uint y) :: 'b word) = uint x * uint y"
    by (intro uint_of_int_range) simp_all
  then show ?thesis by simp
qed

lemma sint_min_minus:
  fixes y :: INT64
  shows "sint y \<le> 0 \<Longrightarrow> sint (MIN_INT64 - y) = - (2 ^ 63) - sint y"
    and "0 \<le> sint y \<Longrightarrow> sint (MIN_INT64 + y) = - (2 ^ 63) + sint y"
    and "0 \<le> sint y \<Longrightarrow> sint (MAX_INT64 - y) = 2 ^ 63 - 1 - sint y"
    and "sint y \<le> 0 \<Longrightarrow> sint (MAX_INT64 + y) = 2 ^ 63 - 1 + sint y"
proof -
  note bounds = sint_lt[of y] sint_ge[of y]
  have wy: "word_of_int (sint y) = y" by simp
  show "sint y \<le> 0 \<Longrightarrow> sint (MIN_INT64 - y) = - (2 ^ 63) - sint y"
    using bounds sint_of_int_range[of "- (2 ^ 63) - sint y", where 'a = 64] by simp
  show "0 \<le> sint y \<Longrightarrow> sint (MIN_INT64 + y) = - (2 ^ 63) + sint y"
    using bounds sint_of_int_range[of "- (2 ^ 63) + sint y", where 'a = 64] by simp
  show "0 \<le> sint y \<Longrightarrow> sint (MAX_INT64 - y) = 2 ^ 63 - 1 - sint y"
    using bounds sint_of_int_range[of "2 ^ 63 - 1 - sint y", where 'a = 64] by simp
  show "sint y \<le> 0 \<Longrightarrow> sint (MAX_INT64 + y) = 2 ^ 63 - 1 + sint y"
    using bounds sint_of_int_range[of "2 ^ 63 - 1 + sint y", where 'a = 64] by simp
qed

lemma SafeInt64Add_exact: "exact_signed (sint x + sint y) R (SafeInt64Add x y R)"
  unfolding SafeInt64Add_def
proof (rule exact_signed_store)
  show "\<not> (0 < sint y \<and> sint (MAX_INT64 - y) < sint x \<or> sint y < 0 \<and> sint x < sint (MIN_INT64 - y))
     \<longleftrightarrow> - (2 ^ (LENGTH(64) - 1)) \<le> sint x + sint y \<and> sint x + sint y < 2 ^ (LENGTH(64) - 1)"
    using sint_lt[of x] sint_ge[of x] sint_min_minus(1,3)[of y] by auto
qed simp_all

lemma SafeInt64Sub_exact: "exact_signed (sint x - sint y) R (SafeInt64Sub x y R)"
  unfolding SafeInt64Sub_def
proof (rule exact_signed_store)
  show "\<not> (0 < sint y \<and> sint x < sint (MIN_INT64 + y) \<or> sint y < 0 \<and> sint (MAX_INT64 + y) < sint x)
     \<longleftrightarrow> - (2 ^ (LENGTH(64) - 1)) \<le> sint x - sint y \<and> sint x - sint y < 2 ^ (LENGTH(64) - 1)"
    using sint_lt[of x] sint_ge[of x] sint_min_minus(2,4)[of y] by auto
qed simp_all

lemma high_dword_clear: "(w :: UINT64) AND 0xffffffff00000000 = 0 \<longleftrightarrow> uint w < 2 ^ 32"
proof -
  have "(0xffffffff00000000 :: UINT64) = NOT (mask 32)" by (simp add: mask_eq_exp_minus_1 not_eq_complement)
  moreover have "(w AND NOT (mask 32) = 0) \<longleftrightarrow> take_bit 32 w = w"
    by (auto simp: bit_eq_iff bit_simps)
  moreover have "take_bit 32 w = w \<longleftrightarrow> take_bit 32 (uint w) = uint w"
    by (simp add: word_uint_eq_iff unsigned_take_bit_eq)
  ultimately show ?thesis by (simp add: take_bit_int_eq_self_iff)
qed

lemma dwords: "uint (x :: UINT64) = uint (ucast (InternalMathRShiftU64 x 32) :: UINT32) * 2 ^ 32 + uint (ucast x :: UINT32)"
proof -
  have all: "take_bit 64 (uint x) = uint x"
    by (rule take_bit_int_eq_self) (use uint_lt2p[of x] in simp_all)
  then have "uint (ucast (InternalMathRShiftU64 x 32) :: UINT32) = take_bit 32 (drop_bit 32 (uint x))"
    by (simp add: InternalMathRShiftU64_def unsigned_drop_bit_eq unsigned_ucast_eq)
  also have "\<dots> = uint x div 2 ^ 32" unfolding take_bit_drop_bit by (simp add: drop_bit_eq_div all)
  finally have "uint (ucast (InternalMathRShiftU64 x 32) :: UINT32) = uint x div 2 ^ 32" .
  moreover have "uint (ucast x :: UINT32) = uint x mod 2 ^ 32"
    by (simp add: unsigned_ucast_eq take_bit_eq_mod)
  ultimately show ?thesis by simp
qed

lemma uint_product_dwords: "uint (MultU64x64 (ucast (x :: UINT32)) (ucast (y :: UINT32))) = uint x * uint y"
  unfolding MultU64x64_def InternalMathMultU64x64_def by (rule uint_widened_mult) simp

lemma uint_shift_dword:
  assumes "uint p < 2 ^ 32"
  shows "uint (InternalMathLShiftU64 p 32) = uint p * 2 ^ 32"
proof -
  have "uint (word_of_int (uint p * 2 ^ 32) :: UINT64) = uint p * 2 ^ 32"
    using assms by (intro uint_of_int_range) simp_all
  then show ?thesis by (simp add: InternalMathLShiftU64_def push_bit_eq_mult)
qed

lemma dword_products:
  fixes A B C D :: int
  assumes "0 \<le> A" "0 \<le> B" "0 \<le> C" "0 \<le> D"
  shows "0 < A \<Longrightarrow> 0 < C \<Longrightarrow> 2 ^ 64 \<le> (A * 2 ^ 32 + B) * (C * 2 ^ 32 + D)"
    and "2 ^ 32 \<le> A * D \<Longrightarrow> 2 ^ 64 \<le> (A * 2 ^ 32 + B) * (C * 2 ^ 32 + D)"
    and "2 ^ 32 \<le> B * C \<Longrightarrow> 2 ^ 64 \<le> (A * 2 ^ 32 + B) * (C * 2 ^ 32 + D)"
proof -
  have eq: "(A * 2 ^ 32 + B) * (C * 2 ^ 32 + D) = A * C * 2 ^ 64 + (A * D) * 2 ^ 32 + (B * C) * 2 ^ 32 + B * D"
    by (simp add: algebra_simps)
  have nn: "0 \<le> A * C" "0 \<le> A * D" "0 \<le> B * C" "0 \<le> B * D" using assms by simp_all
  have "0 < A \<Longrightarrow> 0 < C \<Longrightarrow> 1 \<le> A * C" using mult_pos_pos[of A C] by linarith
  then show "0 < A \<Longrightarrow> 0 < C \<Longrightarrow> 2 ^ 64 \<le> (A * 2 ^ 32 + B) * (C * 2 ^ 32 + D)"
    unfolding eq using nn mult_right_mono[of 1 "A * C" "2 ^ 64"] by auto
  show "2 ^ 32 \<le> A * D \<Longrightarrow> 2 ^ 64 \<le> (A * 2 ^ 32 + B) * (C * 2 ^ 32 + D)"
    unfolding eq using nn by simp
  show "2 ^ 32 \<le> B * C \<Longrightarrow> 2 ^ 64 \<le> (A * 2 ^ 32 + B) * (C * 2 ^ 32 + D)"
    unfolding eq using nn by simp
qed

lemma exact_unsigned_too_small:
  "2 ^ LENGTH('a) \<le> v \<Longrightarrow> exact_unsigned v (Some r) (RETURN_BUFFER_TOO_SMALL, Some (- 1 :: 'a::len word))"
  by (simp add: exact_unsigned_def)

lemma SafeUint64Mult_exact: "exact_unsigned (uint x * uint y) R (SafeUint64Mult x y R)"
proof (cases R)
  case None
  then show ?thesis by (simp add: SafeUint64Mult_def exact_unsigned_def)
next
  case (Some r)
  define A B C D where "A = (ucast (InternalMathRShiftU64 x 32) :: UINT32)" and "B = (ucast x :: UINT32)"
    and "C = (ucast (InternalMathRShiftU64 y 32) :: UINT32)" and "D = (ucast y :: UINT32)"
  have xy: "uint x = uint A * 2 ^ 32 + uint B" "uint y = uint C * 2 ^ 32 + uint D"
    by (simp_all add: dwords[of x] dwords[of y] A_def B_def C_def D_def)
  note big = dword_products[of "uint A" "uint B" "uint C" "uint D", folded xy]
  note products = high_dword_clear uint_product_dwords
  consider "A = 0" "C = 0" | "A \<noteq> 0" "C \<noteq> 0" | "A = 0 \<longleftrightarrow> C \<noteq> 0" "2 ^ 32 \<le> uint A * uint D \<or> 2 ^ 32 \<le> uint B * uint C"
    | "A = 0 \<longleftrightarrow> C \<noteq> 0" "uint A * uint D < 2 ^ 32" "uint B * uint C < 2 ^ 32" by fastforce
  then show ?thesis
  proof cases
    case 1
    have "uint x * uint y < 2 ^ 32 * 2 ^ 32"
      using 1 uint_lt2p[of B] uint_lt2p[of D] unfolding xy by (intro mult_strict_mono) simp_all
    moreover have "uint ((ucast B :: UINT64) * ucast D) = uint x * uint y"
      using 1 uint_widened_mult[of B D, where 'b = 64] by (simp add: xy)
    ultimately show ?thesis using Some 1
      by (simp add: SafeUint64Mult_def exact_unsigned_def flip: A_def B_def C_def D_def)
  next
    case 2
    then have "0 < uint A" "0 < uint C" by (metis uint_0_iff uint_ge_0 order_le_less)+
    then show ?thesis using Some 2 big(1) exact_unsigned_too_small
      by (simp add: SafeUint64Mult_def exact_unsigned_def flip: A_def B_def C_def D_def)
  next
    case 3
    then have "2 ^ 64 \<le> uint x * uint y" using big by auto
    then show ?thesis using Some 3
      by (auto simp: SafeUint64Mult_def exact_unsigned_def products Let_def simp flip: A_def B_def C_def D_def)
  next
    case 4
    define P where "P = uint A * uint D + uint B * uint C"
    have P: "P < 2 ^ 32" "uint A * uint C = 0" using 4 by (auto simp: P_def)
    then have v: "uint x * uint y = P * 2 ^ 32 + uint B * uint D"
      by (simp add: xy P_def algebra_simps)
    define bc ad bd where "bc = MultU64x64 (ucast B) (ucast C)" and "ad = MultU64x64 (ucast A) (ucast D)"
      and "bd = MultU64x64 (ucast B) (ucast D)"
    have us: "uint bc < 2 ^ 32" "uint ad < 2 ^ 32" "uint bd = uint B * uint D"
      using 4 by (simp_all add: bc_def ad_def bd_def uint_product_dwords)
    define hi where "hi = InternalMathLShiftU64 bc 32 + InternalMathLShiftU64 ad 32"
    have "uint (InternalMathLShiftU64 bc 32) + uint (InternalMathLShiftU64 ad 32) = P * 2 ^ 32"
      unfolding uint_shift_dword[OF us(1)] uint_shift_dword[OF us(2)]
      by (simp add: bc_def ad_def uint_product_dwords P_def)
    then have first: "SafeUint64Add (InternalMathLShiftU64 bc 32) (InternalMathLShiftU64 ad 32) (Some 0) = (RETURN_SUCCESS, Some hi)"
      and hi: "uint hi = P * 2 ^ 32"
      using P(1) uint_add_lem[of "InternalMathLShiftU64 bc 32" "InternalMathLShiftU64 ad 32"]
      by (simp_all add: SafeUint64Add_def store_checked_def no_olen_add hi_def)
    have second: "exact_unsigned (uint x * uint y) (Some hi) (SafeUint64Add hi bd (Some hi))"
      unfolding v us(3)[symmetric] hi[symmetric] SafeUint64Add_def by (rule unsigned_add) simp
    have "SafeUint64Mult x y R =
        (case SafeUint64Add hi bd (Some hi) of (S2, U2) \<Rightarrow>
           if \<not> EFI_ERROR S2 then (RETURN_SUCCESS, U2) else (RETURN_BUFFER_TOO_SMALL, Some UINT64_ERROR))"
      using Some 4(1) us(1,2) first
      by (auto simp: SafeUint64Mult_def high_dword_clear Let_def split: prod.splits
          simp flip: A_def B_def C_def D_def bc_def ad_def bd_def)
    then show ?thesis using second by (auto simp: exact_unsigned_def Some split: if_splits)
  qed
qed


lemma uint_magnitude:
  fixes x :: INT64
  shows "uint (if sint x < 0 then - (x + 1) + 1 else x) = \<bar>sint x\<bar>"
proof (cases "sint x < 0")
  case True
  have "uint (word_of_int (- sint x) :: UINT64) = - sint x"
    using True sint_ge[of x] by (intro uint_of_int_range) simp_all
  with True show ?thesis by simp
next
  case False
  then show ?thesis by (simp add: sint_nonneg_uint)
qed

lemma SafeInt64Mult_exact: "exact_signed (sint x * sint y) R (SafeInt64Mult x y R)"
proof (cases R)
  case None
  then show ?thesis by (simp add: SafeInt64Mult_def exact_signed_def)
next
  case (Some r)
  define X Y where "X = (if sint x < 0 then - (x + 1) + 1 else x)"
    and "Y = (if sint y < 0 then - (y + 1) + 1 else y)"
  have XY: "uint X * uint Y = \<bar>sint x * sint y\<bar>"
    unfolding X_def Y_def uint_magnitude abs_mult ..
  define neg where "neg \<longleftrightarrow> (sint x < 0) \<noteq> (sint y < 0)"
  have sign: "neg \<Longrightarrow> sint x * sint y \<le> 0" "\<not> neg \<Longrightarrow> 0 \<le> sint x * sint y"
    by (auto simp: neg_def mult_le_0_iff zero_le_mult_iff)
  have mag: "uint MIN_INT64_MAGNITUDE = 2 ^ 63" by (simp add: MIN_INT64_MAGNITUDE_def)
  have ex: "exact_unsigned \<bar>sint x * sint y\<bar> (Some 0) (SafeUint64Mult X Y (Some 0))"
    using SafeUint64Mult_exact[of X Y "Some 0"] by (simp only: XY)
  have eq: "SafeInt64Mult x y R = (case SafeUint64Mult X Y (Some 0) of
             (Status, None) \<Rightarrow> (Status, Some INT64_ERROR)
           | (Status, Some U) \<Rightarrow>
             if \<not> EFI_ERROR Status
             then if neg
               then if U > MIN_INT64_MAGNITUDE then (RETURN_BUFFER_TOO_SMALL, Some INT64_ERROR)
                    else if U = MIN_INT64_MAGNITUDE then (Status, Some MIN_INT64)
                    else (Status, Some (- U))
               else if U > MAX_INT64 then (RETURN_BUFFER_TOO_SMALL, Some INT64_ERROR)
                    else (Status, Some U)
             else (Status, Some INT64_ERROR))"
    unfolding SafeInt64Mult_def Some neg_def X_def Y_def by (simp add: Let_def)
  show ?thesis
  proof (cases "\<bar>sint x * sint y\<bar> < 2 ^ 64")
    case False
    then have "SafeUint64Mult X Y (Some 0) = (RETURN_BUFFER_TOO_SMALL, Some (- 1))"
      using ex by (simp add: exact_unsigned_def)
    with False show ?thesis unfolding eq by (auto simp: exact_signed_def Some)
  next
    case True
    then obtain U where U: "SafeUint64Mult X Y (Some 0) = (RETURN_SUCCESS, Some U)" "uint U = \<bar>sint x * sint y\<bar>"
      using ex by (auto simp: exact_unsigned_def)
    show ?thesis
    proof (cases neg)
      case True
      then have v: "sint x * sint y = - uint U" using sign U(2) by simp
      have le: "- uint U \<le> 0" by simp
      have "uint U < 2 ^ 63 \<Longrightarrow> sint (word_of_int (- uint U) :: INT64) = - uint U"
        by (rule sint_of_int_range) (simp_all add: order_le_less_trans[OF le])
      then show ?thesis using True U(1) mag unfolding eq v
        by (auto simp: exact_signed_def Some word_less_def word_uint_eq_iff[of U] order_le_less_trans[OF le])
    next
      case False
      then have v: "sint x * sint y = uint U" using sign U(2) by simp
      have ge: "- (2 ^ 63) \<le> uint U" by (rule order_trans[OF _ uint_ge_0]) simp
      have "uint U < 2 ^ 63 \<Longrightarrow> sint (word_of_int (uint U) :: INT64) = uint U"
        by (rule sint_of_int_range) (use ge in simp_all)
      then show ?thesis using False U(1) ge unfolding eq v
        by (auto simp: exact_signed_def Some word_less_def)
    qed
  qed
qed


text \<open>
  (C39) Addition, subtraction and multiplication of every unsigned type of the library are exact: the
  mathematical sum, difference or product is stored with RETURN_SUCCESS when the type holds it, the error
  value with RETURN_BUFFER_TOO_SMALL when it does not, and a NULL Result is refused. For UINT64 this
  includes the product by 32-bit halves.
\<close>

theorem unsigned_arithmetic_exact:
  "exact_unsigned (uint b + uint b') Rb (SafeUint8Add b b' Rb)
   \<and> exact_unsigned (uint w + uint w') Rw (SafeUint16Add w w' Rw)
   \<and> exact_unsigned (uint d + uint d') Rd (SafeUint32Add d d' Rd)
   \<and> exact_unsigned (uint q + uint q') Rq (SafeUint64Add q q' Rq)
   \<and> exact_unsigned (uint q + uint q') Rq (SafeUintnAdd q q' Rq)
   \<and> exact_unsigned (uint b - uint b') Rb (SafeUint8Sub b b' Rb)
   \<and> exact_unsigned (uint w - uint w') Rw (SafeUint16Sub w w' Rw)
   \<and> exact_unsigned (uint d - uint d') Rd (SafeUint32Sub d d' Rd)
   \<and> exact_unsigned (uint q - uint q') Rq (SafeUint64Sub q q' Rq)
   \<and> exact_unsigned (uint q - uint q') Rq (SafeUintnSub q q' Rq)
   \<and> exact_unsigned (uint b * uint b') Rb (SafeUint8Mult b b' Rb)
   \<and> exact_unsigned (uint w * uint w') Rw (SafeUint16Mult w w' Rw)
   \<and> exact_unsigned (uint d * uint d') Rd (SafeUint32Mult d d' Rd)
   \<and> exact_unsigned (uint q * uint q') Rq (SafeUint64Mult q q' Rq)
   \<and> exact_unsigned (uint q * uint q') Rq (SafeUintnMult q q' Rq)"
proof (intro conjI)
  show "exact_unsigned (uint b * uint b') Rb (SafeUint8Mult b b' Rb)"
    using unsigned_to_narrow_unsigned[of 255 UINT8_ERROR "ucast b * ucast b' :: UINT32" Rb]
    by (simp add: SafeUint8Mult_def SafeUint32ToUint8_def uint_widened_mult)
  show "exact_unsigned (uint w * uint w') Rw (SafeUint16Mult w w' Rw)"
    using unsigned_to_narrow_unsigned[of 65535 UINT16_ERROR "ucast w * ucast w' :: UINT32" Rw]
    by (simp add: SafeUint16Mult_def SafeUint32ToUint16_def uint_widened_mult)
  show "exact_unsigned (uint d * uint d') Rd (SafeUint32Mult d d' Rd)"
    using unsigned_to_narrow_unsigned[of 4294967295 UINT32_ERROR "ucast d * ucast d' :: UINT64" Rd]
    by (simp add: SafeUint32Mult_def SafeUint64ToUint32_def uint_widened_mult)
qed (simp_all add: SafeUint8Add_def SafeUint16Add_def SafeUint32Add_def SafeUint64Add_def SafeUintnAdd_def
    SafeUint8Sub_def SafeUint16Sub_def SafeUint32Sub_def SafeUint64Sub_def SafeUintnSub_def
    SafeUintnMult_def unsigned_add unsigned_sub SafeUint64Mult_exact)

lemma widened_to_int8:
  fixes v :: INT32
  shows "sint v = k \<Longrightarrow> exact_signed k R (SafeInt32ToInt8 v R)"
    and "sint v = k \<Longrightarrow> exact_signed k R' (SafeInt32ToInt16 v R')"
  unfolding SafeInt32ToInt8_def SafeInt32ToInt16_def
  by (hypsubst, rule signed_to_narrow_signed; simp)+

lemma widened_to_int32: "sint v = k \<Longrightarrow> exact_signed k R (SafeInt64ToInt32 v R)"
  unfolding SafeInt64ToInt32_def by (hypsubst, rule signed_to_narrow_signed; simp)

lemmas widened = widened_to_int8 widened_to_int32

text \<open>
  (C40) Addition, subtraction and multiplication of every signed type are exact for its two's complement
  range, the 64-bit multiplication by sign and magnitude included, whose result MIN_INT64 is
  representable only in one of the two signs.
\<close>

theorem signed_arithmetic_exact:
  "exact_signed (sint b + sint b') Rb (SafeInt8Add b b' Rb)
   \<and> exact_signed (sint w + sint w') Rw (SafeInt16Add w w' Rw)
   \<and> exact_signed (sint d + sint d') Rd (SafeInt32Add d d' Rd)
   \<and> exact_signed (sint q + sint q') Rq (SafeInt64Add q q' Rq)
   \<and> exact_signed (sint q + sint q') Rq (SafeIntnAdd q q' Rq)
   \<and> exact_signed (sint b - sint b') Rb (SafeInt8Sub b b' Rb)
   \<and> exact_signed (sint w - sint w') Rw (SafeInt16Sub w w' Rw)
   \<and> exact_signed (sint d - sint d') Rd (SafeInt32Sub d d' Rd)
   \<and> exact_signed (sint q - sint q') Rq (SafeInt64Sub q q' Rq)
   \<and> exact_signed (sint q - sint q') Rq (SafeIntnSub q q' Rq)
   \<and> exact_signed (sint b * sint b') Rb (SafeInt8Mult b b' Rb)
   \<and> exact_signed (sint w * sint w') Rw (SafeInt16Mult w w' Rw)
   \<and> exact_signed (sint d * sint d') Rd (SafeInt32Mult d d' Rd)
   \<and> exact_signed (sint q * sint q') Rq (SafeInt64Mult q q' Rq)
   \<and> exact_signed (sint q * sint q') Rq (SafeIntnMult q q' Rq)"
  unfolding SafeInt8Add_def SafeInt16Add_def SafeInt32Add_def SafeIntnAdd_def
    SafeInt8Sub_def SafeInt16Sub_def SafeInt32Sub_def SafeIntnSub_def
    SafeInt8Mult_def SafeInt16Mult_def SafeInt32Mult_def SafeIntnMult_def MultS64x64_def MultU64x64_def
    InternalMathMultU64x64_def mult.commute[of "scast b'" "scast b"]
  by (intro conjI widened sint_widened sint_widened_mult SafeInt64Add_exact SafeInt64Sub_exact
      SafeInt64Mult_exact) simp_all

lemma store_checked_Some [simp]:
  "store_checked (Some r) ok val error = (if ok then (RETURN_SUCCESS, Some val) else (RETURN_BUFFER_TOO_SMALL, Some error))"
  by (simp add: store_checked_def)

lemma narrow_char:
  fixes v :: INT32
  assumes "sint v = k" and "c = word_of_int k"
  shows "SafeInt32ToChar8 v (Some r) =
    (if 0 \<le> k \<and> k \<le> 127 then (RETURN_SUCCESS, Some c) else (RETURN_BUFFER_TOO_SMALL, Some CHAR8_ERROR))"
  using assms by (auto simp: SafeInt32ToChar8_def)

text \<open>
  Arithmetic of CHAR8 succeeds exactly when both operands and the mathematical result are
  characters of the range 0..127, and then stores that result; every other combination stores the error
  value with RETURN_BUFFER_TOO_SMALL.
\<close>

theorem char8_arithmetic_exact:
  "SafeChar8Add x y (Some r) = store_checked (Some r)
      (0 \<le> sint x \<and> 0 \<le> sint y \<and> sint x + sint y \<le> 127) (x + y) CHAR8_ERROR
   \<and> SafeChar8Sub x y (Some r) = store_checked (Some r)
      (0 \<le> sint x \<and> 0 \<le> sint y \<and> sint y \<le> sint x) (x - y) CHAR8_ERROR
   \<and> SafeChar8Mult x y (Some r) = store_checked (Some r)
      (0 \<le> sint x \<and> 0 \<le> sint y \<and> sint x * sint y \<le> 127) (x * y) CHAR8_ERROR
   \<and> SafeChar8Add x y None = (RETURN_INVALID_PARAMETER, None)
   \<and> SafeChar8Sub x y None = (RETURN_INVALID_PARAMETER, None)
   \<and> SafeChar8Mult x y None = (RETURN_INVALID_PARAMETER, None)"
proof -
  have c: "sint (scast x :: INT32) = sint x" "sint (scast y :: INT32) = sint y"
    using sint_widened(1)[of x 0, where 'b = 32] sint_widened(1)[of y 0, where 'b = 32] by simp_all
  have b: "sint x \<le> 127" "sint y \<le> 127" using sint_lt[of x] sint_lt[of y] by simp_all
  have s: "sint (scast x + scast y :: INT32) = sint x + sint y"
          "sint (scast x - scast y :: INT32) = sint x - sint y"
          "sint (scast x * scast y :: INT32) = sint x * sint y"
    by (simp_all add: sint_widened sint_widened_mult)
  show ?thesis using b narrow_char[OF s(1), of "x + y" r] narrow_char[OF s(2), of "x - y" r]
     narrow_char[OF s(3), of "x * y" r]
    by (auto simp: SafeChar8Add_def SafeChar8Sub_def SafeChar8Mult_def c Let_def)
qed

end
