(* ===== verification/Dxe_Tpl.thy ===== *)
theory Dxe_Tpl
  imports BaseMath
begin

text \<open>
  The DXE core's task priority levels (MdeModulePkg/Core/Dxe/Event/Tpl.c), its locks
  (Core/Dxe/Library/Library.c) and the dispatch of queued event notifications
  (CoreDispatchEventNotifies of Core/Dxe/Event/Event.c), which CoreRestoreTpl and CoreReleaseLock call
  back into. The state record of the event services stands here as well.

  A pointer to an event is an address; \<open>event\<close> reads the IEVENT at it. The circular lists of the C code
  (gEventQueue, gEventSignalQueue, the runtime list, mEfiTimerList) are lists of event addresses in
  link order: what the list operations do to such a sequence is proved on the heap in theory LinkedList. Whether
  a link's ForwardLink is NULL, which the code tests, is a field of the event. Notification functions are a
  parameter \<open>notify\<close> of the operations that run them; they may do anything to the state, or not return.
\<close>

unbundle bit_operations_syntax

section \<open>State of the event services\<close>

type_synonym PTR = "64 word"
type_synonym EFI_EVENT = PTR
type_synonym EFI_TPL = UINTN

abbreviation TPL_APPLICATION :: EFI_TPL where "TPL_APPLICATION \<equiv> 4"
abbreviation TPL_CALLBACK :: EFI_TPL where "TPL_CALLBACK \<equiv> 8"
abbreviation TPL_NOTIFY :: EFI_TPL where "TPL_NOTIFY \<equiv> 16"
abbreviation TPL_HIGH_LEVEL :: EFI_TPL where "TPL_HIGH_LEVEL \<equiv> 31"

definition VALID_TPL :: "EFI_TPL \<Rightarrow> bool" where
  "VALID_TPL a \<longleftrightarrow> a \<le> TPL_HIGH_LEVEL"

abbreviation EVT_TIMER :: UINT32 where "EVT_TIMER \<equiv> 0x80000000"
abbreviation EVT_RUNTIME :: UINT32 where "EVT_RUNTIME \<equiv> 0x40000000"
abbreviation EVT_NOTIFY_WAIT :: UINT32 where "EVT_NOTIFY_WAIT \<equiv> 0x00000100"
abbreviation EVT_NOTIFY_SIGNAL :: UINT32 where "EVT_NOTIFY_SIGNAL \<equiv> 0x00000200"
abbreviation EVT_SIGNAL_EXIT_BOOT_SERVICES :: UINT32 where "EVT_SIGNAL_EXIT_BOOT_SERVICES \<equiv> 0x00000201"
abbreviation EVT_SIGNAL_VIRTUAL_ADDRESS_CHANGE :: UINT32 where "EVT_SIGNAL_VIRTUAL_ADDRESS_CHANGE \<equiv> 0x60000202"

text \<open>SIGNATURE_32 ('e','v','n','t').\<close>

abbreviation EVENT_SIGNATURE :: UINTN where "EVENT_SIGNATURE \<equiv> 0x746e7665"
abbreviation EVT_EXFLAG_EVENT_GROUP :: UINT8 where "EVT_EXFLAG_EVENT_GROUP \<equiv> 0x01"
abbreviation EVT_EXFLAG_EVENT_PROTOCOL_NOTIFICATION :: UINT8 where
  "EVT_EXFLAG_EVENT_PROTOCOL_NOTIFICATION \<equiv> 0x02"

text \<open>
  The notification functions of the core itself are told apart from those of drivers, which are known by
  their address only.
\<close>

datatype EFI_EVENT_NOTIFY = CoreCheckTimers_function | EfiEventEmptyFunction | Driver_function PTR

record EFI_RUNTIME_EVENT_ENTRY =
  RtType :: UINT32
  RtNotifyTpl :: EFI_TPL
  RtNotifyFunction :: "EFI_EVENT_NOTIFY option"
  RtNotifyContext :: PTR
  RtEvent :: EFI_EVENT
  RtLink :: bool

record TIMER_EVENT_INFO =
  TimerLink :: bool
  TriggerTime :: UINT64
  Period :: UINT64

record IEVENT =
  Signature :: UINTN
  Type :: UINT32
  SignalCount :: UINT32
  SignalLink :: bool
  NotifyTpl :: EFI_TPL
  NotifyFunction :: "EFI_EVENT_NOTIFY option"
  NotifyContext :: PTR
  EventGroup :: EFI_GUID
  NotifyLink :: bool
  ExFlag :: UINT8
  RuntimeData :: EFI_RUNTIME_EVENT_ENTRY
  Timer :: TIMER_EVENT_INFO

datatype EFI_LOCK_STATE = EfiLockUninitialized | EfiLockReleased | EfiLockAcquired

record EFI_LOCK =
  Tpl :: EFI_TPL
  OwnerTpl :: EFI_TPL
  Lock :: EFI_LOCK_STATE

text \<open>The global locks; a pointer to a lock is its name.\<close>

datatype lock_name = gEventQueueLock | mEfiTimerLock | mEfiSystemTimeLock | gProtocolDatabaseLock | mGcdMemorySpaceLock | mGcdIoSpaceLock | gMemoryLock

text \<open>
  The handle and protocol database (MdeModulePkg/Core/Dxe/Hand/Handle.h). A protocol entry, a protocol notification, a
  handle and a protocol interface are known by their addresses; the lists of a structure are lists of the addresses linked there, or of
  the structures themselves where nothing else points to them. The \<open>Position\<close> of a notification is a link of its protocol's list of interfaces: \<open>None\<close> is the head of
  that list, \<open>Some p\<close> the ByProtocol link of the interface \<open>p\<close>.
\<close>

type_synonym EFI_HANDLE = PTR

record PROTOCOL_NOTIFY =
  Registration :: PTR
  Event :: EFI_EVENT
  Position :: "PTR option"

record PROTOCOL_ENTRY =
  EntryAddress :: PTR
  ProtocolID :: EFI_GUID
  EntryProtocols :: "PTR list"
  Notifies :: "PROTOCOL_NOTIFY list"

record OPEN_PROTOCOL_DATA =
  AgentHandle :: EFI_HANDLE
  ControllerHandle :: EFI_HANDLE
  Attributes :: UINT32
  OpenCount :: UINT32

record PROTOCOL_INTERFACE =
  InterfaceSignature :: UINTN
  OnHandle :: EFI_HANDLE
  Protocol :: PTR
  Interface :: PTR
  OpenList :: "OPEN_PROTOCOL_DATA list"
  OpenListCount :: UINTN

record IHANDLE =
  HandleSignature :: UINTN
  Protocols :: "PTR list"
  LocateRequest :: UINTN
  Key :: UINT64

record HAND =
  gHandleList :: "EFI_HANDLE list"
  ihandle :: "EFI_HANDLE \<Rightarrow> IHANDLE"
  interface :: "PTR \<Rightarrow> PROTOCOL_INTERFACE"
  gHandleDatabaseKey :: UINT64
  mEfiLocateHandleRequest :: UINTN
  gDxeCoreImageHandle :: EFI_HANDLE

text \<open>
  The global variables. \<open>gCpu\<close> says whether the CPU architectural protocol is there and \<open>interrupts\<close> is the
  interrupt state its EnableInterrupt and DisableInterrupt set; \<open>gSmmBase2\<close> is NULL or answers InSmm with a
  status and a flag. \<open>hand\<close> are the globals of the handle database and the handles and interfaces in memory. \<open>world\<close> is
  whatever else a notification function reads and writes.
\<close>

record 'w DXE =
  gEfiCurrentTpl :: EFI_TPL
  locks :: "lock_name \<Rightarrow> EFI_LOCK"
  gEventQueue :: "nat \<Rightarrow> EFI_EVENT list"
  gEventPending :: UINTN
  gEventSignalQueue :: "EFI_EVENT list"
  gIdleLoopEvent :: EFI_EVENT
  RuntimeEventHead :: "EFI_EVENT list"
  event :: "EFI_EVENT \<Rightarrow> IEVENT"
  mEfiTimerList :: "EFI_EVENT list"
  mEfiCheckTimerEvent :: EFI_EVENT
  mEfiSystemTime :: UINT64
  mProtocolDatabase :: "PROTOCOL_ENTRY list"
  hand :: HAND
  gCpu :: bool
  gSmmBase2 :: "(EFI_STATUS \<times> bool) option"
  interrupts :: bool
  world :: 'w

text \<open>The contents of a zeroed pool buffer.\<close>

definition zero_event :: IEVENT where
  "zero_event = \<lparr>Signature = 0, Type = 0, SignalCount = 0, SignalLink = False, NotifyTpl = 0,
     NotifyFunction = None, NotifyContext = 0, EventGroup = (0, 0), NotifyLink = False, ExFlag = 0,
     RuntimeData = \<lparr>RtType = 0, RtNotifyTpl = 0, RtNotifyFunction = None, RtNotifyContext = 0, RtEvent = 0, RtLink = False\<rparr>,
     Timer = \<lparr>TimerLink = False, TriggerTime = 0, Period = 0\<rparr>\<rparr>"

text \<open>
  The initial values of the globals, with no event in memory. EFI_INITIALIZE_LOCK_VARIABLE makes a lock
  free at its level.
\<close>

definition EFI_INITIALIZE_LOCK_VARIABLE :: "EFI_TPL \<Rightarrow> EFI_LOCK" where
  "EFI_INITIALIZE_LOCK_VARIABLE Priority = \<lparr>Tpl = Priority, OwnerTpl = 0, Lock = EfiLockReleased\<rparr>"

definition initial_hand :: HAND where
  "initial_hand =
     \<lparr>gHandleList = [], ihandle = (\<lambda>_. \<lparr>HandleSignature = 0, Protocols = [], LocateRequest = 0, Key = 0\<rparr>),
      interface = (\<lambda>_. \<lparr>InterfaceSignature = 0, OnHandle = 0, Protocol = 0, Interface = 0, OpenList = [], OpenListCount = 0\<rparr>),
      gHandleDatabaseKey = 0, mEfiLocateHandleRequest = 0, gDxeCoreImageHandle = 0\<rparr>"

definition initial_core :: "bool \<Rightarrow> 'w \<Rightarrow> 'w DXE" where
  "initial_core Cpu w =
     \<lparr>gEfiCurrentTpl = TPL_APPLICATION,
      locks = (\<lambda>l. EFI_INITIALIZE_LOCK_VARIABLE
                 (case l of gEventQueueLock \<Rightarrow> TPL_HIGH_LEVEL | mEfiTimerLock \<Rightarrow> TPL_HIGH_LEVEL - 1
                  | mEfiSystemTimeLock \<Rightarrow> TPL_HIGH_LEVEL | gProtocolDatabaseLock \<Rightarrow> TPL_NOTIFY
                  | mGcdMemorySpaceLock \<Rightarrow> TPL_NOTIFY | mGcdIoSpaceLock \<Rightarrow> TPL_NOTIFY | gMemoryLock \<Rightarrow> TPL_NOTIFY)),
      gEventQueue = (\<lambda>_. []), gEventPending = 0, gEventSignalQueue = [], gIdleLoopEvent = 0,
      RuntimeEventHead = [], event = (\<lambda>_. zero_event), mEfiTimerList = [], mEfiCheckTimerEvent = 0,
      mEfiSystemTime = 0, mProtocolDatabase = [], hand = initial_hand, gCpu = Cpu, gSmmBase2 = None, interrupts = False, world = w\<rparr>"

type_synonym 'w notify = "EFI_EVENT_NOTIFY \<Rightarrow> EFI_EVENT \<Rightarrow> PTR \<Rightarrow> 'w DXE \<Rightarrow> 'w DXE option"

text \<open>A write to fields of the event at an address, and the CR macro, which ASSERTs the signature.\<close>

definition put_event :: "EFI_EVENT \<Rightarrow> (IEVENT \<Rightarrow> IEVENT) \<Rightarrow> 'w DXE \<Rightarrow> 'w DXE" where
  "put_event e f s = s\<lparr>event := (event s)(e := f (event s e))\<rparr>"

definition CR_event :: "EFI_EVENT \<Rightarrow> 'w DXE \<Rightarrow> unit option" where
  "CR_event e s = ASSERT (Signature (event s e) = EVENT_SIGNATURE)"

text \<open>C's \<open>(UINTN)(1 << n)\<close>: the shift is of a 32-bit int, which is then sign-extended.\<close>

definition tpl_bit :: "EFI_TPL \<Rightarrow> UINTN" where
  "tpl_bit n = scast (push_bit (unat n) (1 :: 32 word))"

section \<open>Raising the priority, locks\<close>

definition CoreSetInterruptState :: "bool \<Rightarrow> 'w DXE \<Rightarrow> 'w DXE" where
  "CoreSetInterruptState Enable s =
     (if \<not> gCpu s then s
      else if \<not> Enable then s\<lparr>interrupts := False\<rparr>
      else (case gSmmBase2 s of
              None \<Rightarrow> s\<lparr>interrupts := True\<rparr>
            | Some (Status, InSmm) \<Rightarrow>
              if \<not> EFI_ERROR Status \<and> \<not> InSmm then s\<lparr>interrupts := True\<rparr> else s))"

definition CoreRaiseTpl :: "EFI_TPL \<Rightarrow> 'w DXE \<Rightarrow> (EFI_TPL \<times> 'w DXE) option" where
  "CoreRaiseTpl NewTpl s =
     (let OldTpl = gEfiCurrentTpl s
      in do {
        ASSERT (\<not> OldTpl > NewTpl);
        ASSERT (VALID_TPL NewTpl);
        let s = (if NewTpl \<ge> TPL_HIGH_LEVEL \<and> OldTpl < TPL_HIGH_LEVEL
                 then CoreSetInterruptState False s else s);
        Some (OldTpl, s\<lparr>gEfiCurrentTpl := NewTpl\<rparr>)
      })"

definition CoreAcquireLock :: "lock_name \<Rightarrow> 'w DXE \<Rightarrow> 'w DXE option" where
  "CoreAcquireLock l s =
     do {
       ASSERT (Lock (locks s l) = EfiLockReleased);
       (Owner, s) \<leftarrow> CoreRaiseTpl (Tpl (locks s l)) s;
       Some (s\<lparr>locks := (locks s)(l := (locks s l)\<lparr>OwnerTpl := Owner, Lock := EfiLockAcquired\<rparr>)\<rparr>)
     }"

definition CoreAcquireLockOrFail :: "lock_name \<Rightarrow> 'w DXE \<Rightarrow> (EFI_STATUS \<times> 'w DXE) option" where
  "CoreAcquireLockOrFail l s =
     do {
       ASSERT (Lock (locks s l) \<noteq> EfiLockUninitialized);
       if Lock (locks s l) = EfiLockAcquired then Some (EFI_ACCESS_DENIED, s)
       else do {
         (Owner, s) \<leftarrow> CoreRaiseTpl (Tpl (locks s l)) s;
         Some (EFI_SUCCESS, s\<lparr>locks := (locks s)(l := (locks s l)\<lparr>OwnerTpl := Owner, Lock := EfiLockAcquired\<rparr>)\<rparr>)
       }
     }"

definition CoreAcquireEventLock :: "'w DXE \<Rightarrow> 'w DXE option" where
  "CoreAcquireEventLock s = CoreAcquireLock gEventQueueLock s"

definition ASSERT_LOCKED :: "lock_name \<Rightarrow> 'w DXE \<Rightarrow> unit option" where
  "ASSERT_LOCKED l s = ASSERT (Lock (locks s l) = EfiLockAcquired)"

section \<open>Restoring the priority and dispatching notifications\<close>

text \<open>
  CoreRestoreTpl dispatches notifications, the dispatcher releases the event lock, and releasing a lock
  restores the priority. The functions between are given the CoreRestoreTpl they call as an argument
  \<open>Restore\<close>; CoreRestoreTpl itself ties the knot. Fuel bounds the two loops and the depth of the calls:
  \<open>None\<close> is a failed ASSERT or a call that has not returned within its fuel. gEventQueue has TPL_HIGH_LEVEL + 1
  entries; an index beyond it has no meaning and gives \<open>None\<close>.
\<close>

type_synonym 'w restore = "EFI_TPL \<Rightarrow> 'w DXE \<Rightarrow> 'w DXE option"

definition ReleaseLock_by :: "'w restore \<Rightarrow> lock_name \<Rightarrow> 'w DXE \<Rightarrow> 'w DXE option" where
  "ReleaseLock_by Restore l s =
     do {
       ASSERT (Lock (locks s l) = EfiLockAcquired);
       let OldOwner = OwnerTpl (locks s l);
       let s = s\<lparr>locks := (locks s)(l := (locks s l)\<lparr>Lock := EfiLockReleased\<rparr>)\<rparr>;
       Restore OldOwner s
     }"

primrec DispatchEventNotifies_loop :: "nat \<Rightarrow> 'w restore \<Rightarrow> 'w notify \<Rightarrow> EFI_TPL \<Rightarrow> 'w DXE \<Rightarrow> 'w DXE option" where
  "DispatchEventNotifies_loop 0 Restore notify Priority s = None"
| "DispatchEventNotifies_loop (Suc n) Restore notify Priority s =
     (case gEventQueue s (unat Priority) of
        [] \<Rightarrow> Some s
      | e # rest \<Rightarrow> do {
          CR_event e s;
          let s = s\<lparr>gEventQueue := (gEventQueue s)(unat Priority := rest)\<rparr>;
          let s = put_event e (NotifyLink_update (\<lambda>_. False)) s;
          let s = (if Type (event s e) AND EVT_NOTIFY_SIGNAL \<noteq> 0
                   then put_event e (SignalCount_update (\<lambda>_. 0)) s else s);
          s \<leftarrow> ReleaseLock_by Restore gEventQueueLock s;
          f \<leftarrow> NotifyFunction (event s e);
          s \<leftarrow> notify f e (NotifyContext (event s e)) s;
          s \<leftarrow> CoreAcquireEventLock s;
          DispatchEventNotifies_loop n Restore notify Priority s
        })"

definition CoreDispatchEventNotifies :: "nat \<Rightarrow> 'w restore \<Rightarrow> 'w notify \<Rightarrow> EFI_TPL \<Rightarrow> 'w DXE \<Rightarrow> 'w DXE option" where
  "CoreDispatchEventNotifies n Restore notify Priority s =
     do {
       s \<leftarrow> CoreAcquireEventLock s;
       ASSERT (OwnerTpl (locks s gEventQueueLock) = Priority);
       ASSERT (Priority \<le> TPL_HIGH_LEVEL);
       s \<leftarrow> DispatchEventNotifies_loop n Restore notify Priority s;
       let s = s\<lparr>gEventPending := gEventPending s AND NOT (tpl_bit Priority)\<rparr>;
       ReleaseLock_by Restore gEventQueueLock s
     }"

primrec RestoreTpl_loop :: "nat \<Rightarrow> nat \<Rightarrow> 'w restore \<Rightarrow> 'w notify \<Rightarrow> EFI_TPL \<Rightarrow> 'w DXE \<Rightarrow> 'w DXE option" where
  "RestoreTpl_loop 0 d Restore notify NewTpl s = None"
| "RestoreTpl_loop (Suc n) d Restore notify NewTpl s =
     (if gEventPending s = 0 then Some s
      else let PendingTpl = word_of_int (HighBitSet64 (gEventPending s))
      in if PendingTpl \<le> NewTpl then Some s
      else do {
        let s = s\<lparr>gEfiCurrentTpl := PendingTpl\<rparr>;
        let s = (if gEfiCurrentTpl s < TPL_HIGH_LEVEL then CoreSetInterruptState True s else s);
        s \<leftarrow> CoreDispatchEventNotifies d Restore notify (gEfiCurrentTpl s) s;
        RestoreTpl_loop n d Restore notify NewTpl s
      })"

primrec CoreRestoreTpl :: "nat \<Rightarrow> 'w notify \<Rightarrow> EFI_TPL \<Rightarrow> 'w DXE \<Rightarrow> 'w DXE option" where
  "CoreRestoreTpl 0 notify NewTpl s = None"
| "CoreRestoreTpl (Suc n) notify NewTpl s =
     (let OldTpl = gEfiCurrentTpl s
      in do {
        ASSERT (\<not> NewTpl > OldTpl);
        ASSERT (VALID_TPL NewTpl);
        let s = (if OldTpl \<ge> TPL_HIGH_LEVEL \<and> NewTpl < TPL_HIGH_LEVEL
                 then s\<lparr>gEfiCurrentTpl := TPL_HIGH_LEVEL\<rparr> else s);
        s \<leftarrow> RestoreTpl_loop n n (CoreRestoreTpl n notify) notify NewTpl s;
        let s = s\<lparr>gEfiCurrentTpl := NewTpl\<rparr>;
        Some (if gEfiCurrentTpl s < TPL_HIGH_LEVEL then CoreSetInterruptState True s else s)
      })"

definition CoreReleaseLock :: "nat \<Rightarrow> 'w notify \<Rightarrow> lock_name \<Rightarrow> 'w DXE \<Rightarrow> 'w DXE option" where
  "CoreReleaseLock n notify l s = ReleaseLock_by (CoreRestoreTpl n notify) l s"

definition CoreReleaseEventLock :: "nat \<Rightarrow> 'w notify \<Rightarrow> 'w DXE \<Rightarrow> 'w DXE option" where
  "CoreReleaseEventLock n notify s = CoreReleaseLock n notify gEventQueueLock s"

section \<open>The invariant of the event services\<close>

text \<open>
  What every service keeps: the pending mask covers the queues that hold something and names only
  levels strictly between TPL_APPLICATION and TPL_HIGH_LEVEL; a queued event is a live event of that level with a
  notification function; a live event whose NotifyLink or SignalLink is set is in the queue the link belongs to; an event that has a
  notification type has a function and a level that may be dispatched.
\<close>

definition event_ok :: "IEVENT \<Rightarrow> bool" where
  "event_ok ev \<longleftrightarrow>
     (Type ev AND (EVT_NOTIFY_WAIT OR EVT_NOTIFY_SIGNAL) \<noteq> 0 \<longrightarrow>
        NotifyFunction ev \<noteq> None \<and> TPL_APPLICATION < NotifyTpl ev \<and> NotifyTpl ev < TPL_HIGH_LEVEL)"

abbreviation live :: "'w DXE \<Rightarrow> EFI_EVENT \<Rightarrow> bool" where
  "live s e \<equiv> Signature (event s e) = EVENT_SIGNATURE"

definition pending_inv :: "'w DXE \<Rightarrow> bool" where
  "pending_inv s \<longleftrightarrow>
     (\<forall>k. bit (gEventPending s) k \<longrightarrow> 4 < k \<and> k < 31) \<and>
     (\<forall>p. gEventQueue s p \<noteq> [] \<longrightarrow> bit (gEventPending s) p)"

definition queue_inv :: "'w DXE \<Rightarrow> bool" where
  "queue_inv s \<longleftrightarrow>
     (\<forall>p. distinct (gEventQueue s p)) \<and>
     (\<forall>p e. e \<in> set (gEventQueue s p) \<longrightarrow>
        live s e \<and> unat (NotifyTpl (event s e)) = p \<and> NotifyFunction (event s e) \<noteq> None \<and> NotifyLink (event s e)) \<and>
     (\<forall>e. live s e \<longrightarrow> NotifyLink (event s e) \<longrightarrow> e \<in> set (gEventQueue s (unat (NotifyTpl (event s e)))))"

definition signal_inv :: "'w DXE \<Rightarrow> bool" where
  "signal_inv s \<longleftrightarrow>
     distinct (gEventSignalQueue s) \<and>
     (\<forall>e. e \<in> set (gEventSignalQueue s) \<longleftrightarrow> live s e \<and> SignalLink (event s e)) \<and>
     (\<forall>e. live s e \<longrightarrow> event_ok (event s e) \<and>
        (SignalLink (event s e) \<longleftrightarrow> Type (event s e) AND EVT_NOTIFY_SIGNAL \<noteq> 0))"

definition lock_levels :: "'w DXE \<Rightarrow> bool" where
  "lock_levels s \<longleftrightarrow>
     Tpl (locks s gEventQueueLock) = TPL_HIGH_LEVEL \<and> Tpl (locks s mEfiTimerLock) = TPL_HIGH_LEVEL - 1 \<and>
     Tpl (locks s mEfiSystemTimeLock) = TPL_HIGH_LEVEL \<and> Tpl (locks s gProtocolDatabaseLock) = TPL_NOTIFY \<and>
     Tpl (locks s mGcdMemorySpaceLock) = TPL_NOTIFY \<and> Tpl (locks s mGcdIoSpaceLock) = TPL_NOTIFY \<and> Tpl (locks s gMemoryLock) = TPL_NOTIFY"

definition event_inv :: "'w DXE \<Rightarrow> bool" where
  "event_inv s \<longleftrightarrow>
     pending_inv s \<and> queue_inv s \<and> signal_inv s \<and> lock_levels s \<and> gEfiCurrentTpl s \<le> TPL_HIGH_LEVEL"

text \<open>A call leaves the locks as they were, up to the owner recorded in a lock that is free.\<close>

definition locks_kept :: "'w DXE \<Rightarrow> 'w DXE \<Rightarrow> bool" where
  "locks_kept s t \<longleftrightarrow>
     (\<forall>l. Tpl (locks t l) = Tpl (locks s l) \<and> Lock (locks t l) = Lock (locks s l) \<and>
          (Lock (locks s l) = EfiLockAcquired \<longrightarrow> OwnerTpl (locks t l) = OwnerTpl (locks s l)))"

abbreviation event_lock_free :: "'w DXE \<Rightarrow> bool" where
  "event_lock_free s \<equiv> Lock (locks s gEventQueueLock) = EfiLockReleased"

text \<open>
  What the UEFI specification asks of a notification function, and the core relies on: it returns at the priority it was
  called at, with the locks it was called with, and changes the event structures through the services only.
\<close>

definition well_behaved :: "'w notify \<Rightarrow> bool" where
  "well_behaved notify \<longleftrightarrow>
     (\<forall>f e c s s'. event_inv s \<longrightarrow> event_lock_free s \<longrightarrow> notify f e c s = Some s' \<longrightarrow>
        event_inv s' \<and> gEfiCurrentTpl s' = gEfiCurrentTpl s \<and> locks_kept s s')"

definition nothing_pending_above :: "EFI_TPL \<Rightarrow> 'w DXE \<Rightarrow> bool" where
  "nothing_pending_above t s \<longleftrightarrow> (\<forall>k. bit (gEventPending s) k \<longrightarrow> k \<le> unat t)"

definition restores :: "'w restore \<Rightarrow> bool" where
  "restores Restore \<longleftrightarrow>
     (\<forall>t s s'. event_inv s \<longrightarrow> event_lock_free s \<longrightarrow> Restore t s = Some s' \<longrightarrow>
        event_inv s' \<and> gEfiCurrentTpl s' = t \<and> locks_kept s s' \<and> nothing_pending_above t s')"

section \<open>Facts on the pending mask\<close>

lemma bit_tpl_bit: "p < 31 \<Longrightarrow> bit (tpl_bit p) k \<longleftrightarrow> k = unat p"
  by (auto simp: tpl_bit_def bit_signed_iff bit_exp_iff word_less_nat_alt)

lemma pending_highest:
  assumes "gEventPending s \<noteq> 0"
  obtains k where "highest_bit (gEventPending s) k" "HighBitSet64 (gEventPending s) = int k"
    "k < 64" "unat (word_of_int (int k) :: EFI_TPL) = k"
proof -
  obtain k where k: "highest_bit (gEventPending s) k" using highest_bit_ex[OF assms] .
  have "k < 64" using highest_bit_length[OF k] by simp
  then have "k < 2 ^ 64" by simp
  then have "unat (of_nat k :: EFI_TPL) = k" by (simp add: unsigned_of_nat take_bit_nat_eq_self)
  with k \<open>k < 64\<close> HighBitSet64_eq[OF k] that show thesis by simp
qed

lemma nothing_pending_above_iff:
  "gEventPending s = 0 \<or> word_of_int (HighBitSet64 (gEventPending s)) \<le> t \<longleftrightarrow> nothing_pending_above t s"
proof (cases "gEventPending s = 0")
  case False
  obtain k where k: "highest_bit (gEventPending s) k" "HighBitSet64 (gEventPending s) = int k"
    "unat (word_of_int (int k) :: EFI_TPL) = k" using pending_highest[OF False] .
  then have "word_of_int (HighBitSet64 (gEventPending s)) \<le> t \<longleftrightarrow> k \<le> unat t"
    by (simp add: word_le_nat_alt)
  then show ?thesis using False k(1) by (force simp: nothing_pending_above_def highest_bit_def not_less)
qed (simp add: nothing_pending_above_def)

section \<open>What the primitives change\<close>

lemma interrupt_state_fields [simp]:
  "gEfiCurrentTpl (CoreSetInterruptState b s) = gEfiCurrentTpl s"
  "locks (CoreSetInterruptState b s) = locks s"
  "gEventQueue (CoreSetInterruptState b s) = gEventQueue s"
  "gEventPending (CoreSetInterruptState b s) = gEventPending s"
  "gEventSignalQueue (CoreSetInterruptState b s) = gEventSignalQueue s"
  "event (CoreSetInterruptState b s) = event s"
  "mEfiTimerList (CoreSetInterruptState b s) = mEfiTimerList s"
  "mEfiCheckTimerEvent (CoreSetInterruptState b s) = mEfiCheckTimerEvent s"
  "mEfiSystemTime (CoreSetInterruptState b s) = mEfiSystemTime s"
  "gIdleLoopEvent (CoreSetInterruptState b s) = gIdleLoopEvent s"
  "RuntimeEventHead (CoreSetInterruptState b s) = RuntimeEventHead s"
  "mProtocolDatabase (CoreSetInterruptState b s) = mProtocolDatabase s" "hand (CoreSetInterruptState b s) = hand s"
  "world (CoreSetInterruptState b s) = world s"
  by (auto simp: CoreSetInterruptState_def split: option.splits)

lemma put_event_fields [simp]:
  "gEfiCurrentTpl (put_event e f s) = gEfiCurrentTpl s"
  "locks (put_event e f s) = locks s"
  "gEventQueue (put_event e f s) = gEventQueue s"
  "gEventPending (put_event e f s) = gEventPending s"
  "gEventSignalQueue (put_event e f s) = gEventSignalQueue s"
  "event (put_event e f s) = (event s)(e := f (event s e))"
  "mEfiTimerList (put_event e f s) = mEfiTimerList s"
  "mEfiCheckTimerEvent (put_event e f s) = mEfiCheckTimerEvent s"
  "mEfiSystemTime (put_event e f s) = mEfiSystemTime s"
  "gIdleLoopEvent (put_event e f s) = gIdleLoopEvent s"
  "RuntimeEventHead (put_event e f s) = RuntimeEventHead s"
  "mProtocolDatabase (put_event e f s) = mProtocolDatabase s" "hand (put_event e f s) = hand s"
  "world (put_event e f s) = world s"
  by (simp_all add: put_event_def)

text \<open>The state in which a lock has just been acquired.\<close>

definition acquired :: "lock_name \<Rightarrow> 'w DXE \<Rightarrow> 'w DXE" where
  "acquired l s =
     (if TPL_HIGH_LEVEL \<le> Tpl (locks s l) \<and> gEfiCurrentTpl s < TPL_HIGH_LEVEL then CoreSetInterruptState False s else s)
     \<lparr>gEfiCurrentTpl := Tpl (locks s l),
      locks := (locks s)(l := (locks s l)\<lparr>OwnerTpl := gEfiCurrentTpl s, Lock := EfiLockAcquired\<rparr>)\<rparr>"

lemma acquired_fields [simp]:
  "gEfiCurrentTpl (acquired l s) = Tpl (locks s l)"
  "locks (acquired l s) = (locks s)(l := (locks s l)\<lparr>OwnerTpl := gEfiCurrentTpl s, Lock := EfiLockAcquired\<rparr>)"
  "gEventQueue (acquired l s) = gEventQueue s"
  "gEventPending (acquired l s) = gEventPending s"
  "gEventSignalQueue (acquired l s) = gEventSignalQueue s"
  "event (acquired l s) = event s"
  "mEfiTimerList (acquired l s) = mEfiTimerList s"
  "mEfiCheckTimerEvent (acquired l s) = mEfiCheckTimerEvent s"
  "mEfiSystemTime (acquired l s) = mEfiSystemTime s"
  "gIdleLoopEvent (acquired l s) = gIdleLoopEvent s"
  "RuntimeEventHead (acquired l s) = RuntimeEventHead s"
  "mProtocolDatabase (acquired l s) = mProtocolDatabase s" "hand (acquired l s) = hand s"
  "world (acquired l s) = world s"
  by (simp_all add: acquired_def)

lemma CoreAcquireLock_eq:
  "CoreAcquireLock l s =
     (if Lock (locks s l) = EfiLockReleased \<and> gEfiCurrentTpl s \<le> Tpl (locks s l) \<and> Tpl (locks s l) \<le> TPL_HIGH_LEVEL
      then Some (acquired l s) else None)"
  by (auto simp: CoreAcquireLock_def CoreRaiseTpl_def acquired_def VALID_TPL_def ASSERT_def Let_def not_less)

lemma event_inv_cong:
  assumes "event_inv s" and "gEventPending t = gEventPending s" "gEventQueue t = gEventQueue s"
    "gEventSignalQueue t = gEventSignalQueue s" "event t = event s"
    and "\<And>l. Tpl (locks t l) = Tpl (locks s l)" and "gEfiCurrentTpl t \<le> TPL_HIGH_LEVEL"
  shows "event_inv t"
  using assms
  by (simp add: event_inv_def pending_inv_def queue_inv_def signal_inv_def lock_levels_def)

lemma locks_kept_refl [simp]: "locks_kept s s"
  by (simp add: locks_kept_def)

lemma locks_kept_trans: "locks_kept s t \<Longrightarrow> locks_kept t u \<Longrightarrow> locks_kept s u"
  by (simp add: locks_kept_def)

lemma lock_level_valid: "lock_levels s \<Longrightarrow> Tpl (locks s l) \<le> TPL_HIGH_LEVEL"
  by (cases l) (simp_all add: lock_levels_def)

lemma event_inv_level: "event_inv s \<Longrightarrow> Tpl (locks s l) \<le> TPL_HIGH_LEVEL"
  by (rule lock_level_valid) (simp add: event_inv_def)

lemma event_inv_acquired: "event_inv s \<Longrightarrow> event_inv (acquired l s)"
  by (rule event_inv_cong[of s]) (auto simp: event_inv_level)

text \<open>Taking an event off its queue keeps the invariant, and so does clearing its signal state.\<close>

lemma queue_inv_facts:
  assumes "queue_inv s"
  shows "distinct (gEventQueue s p)"
    and "e \<in> set (gEventQueue s p) \<Longrightarrow> live s e"
    and "e \<in> set (gEventQueue s p) \<Longrightarrow> unat (NotifyTpl (event s e)) = p"
    and "e \<in> set (gEventQueue s p) \<Longrightarrow> NotifyFunction (event s e) \<noteq> None"
    and "e \<in> set (gEventQueue s p) \<Longrightarrow> NotifyLink (event s e)"
    and "live s e \<Longrightarrow> NotifyLink (event s e) \<Longrightarrow> e \<in> set (gEventQueue s (unat (NotifyTpl (event s e))))"
  using assms unfolding queue_inv_def by blast+

lemma queue_invI:
  assumes "\<And>p. distinct (gEventQueue s p)"
    and "\<And>p e. e \<in> set (gEventQueue s p) \<Longrightarrow>
       live s e \<and> unat (NotifyTpl (event s e)) = p \<and> NotifyFunction (event s e) \<noteq> None \<and> NotifyLink (event s e)"
    and "\<And>e. live s e \<Longrightarrow> NotifyLink (event s e) \<Longrightarrow> e \<in> set (gEventQueue s (unat (NotifyTpl (event s e))))"
  shows "queue_inv s"
  using assms unfolding queue_inv_def by blast

lemma event_inv_pop:
  assumes inv: "event_inv s" and q: "gEventQueue s p = e # rest"
  shows "event_inv (put_event e (NotifyLink_update (\<lambda>_. False)) (s\<lparr>gEventQueue := (gEventQueue s)(p := rest)\<rparr>))"
    (is "event_inv ?t")
proof -
  have qi: "queue_inv s" using inv by (simp add: event_inv_def)
  have e: "e \<notin> set rest" "distinct rest" "\<And>p'. e \<in> set (gEventQueue s p') \<Longrightarrow> p' = p"
    using queue_inv_facts(1)[OF qi, of p] queue_inv_facts(3)[OF qi, of e p] queue_inv_facts(3)[OF qi, of e] q
    by auto
  have "pending_inv ?t" using inv q by (auto simp: event_inv_def pending_inv_def)
  moreover have "queue_inv ?t"
  proof -
    have 1: "\<And>p' x. x \<in> set (((gEventQueue s)(p := rest)) p') \<Longrightarrow> x \<noteq> e \<and> x \<in> set (gEventQueue s p')"
      using e q by (auto split: if_splits)
    have 2: "x \<in> set (((gEventQueue s)(p := rest)) (unat (NotifyTpl (event s x))))"
      if "live s x" "x \<noteq> e" "NotifyLink (event s x)" for x
      using queue_inv_facts(6)[OF qi that(1,3)] that(2) q by auto
    show ?thesis
    proof (rule queue_invI)
      show "distinct (gEventQueue ?t p')" for p'
        using queue_inv_facts(1)[OF qi, of p'] e(2) by simp
      show "live ?t x \<and> unat (NotifyTpl (event ?t x)) = p' \<and> NotifyFunction (event ?t x) \<noteq> None \<and> NotifyLink (event ?t x)"
        if "x \<in> set (gEventQueue ?t p')" for p' x
        using 1[of x p'] that queue_inv_facts(2-5)[OF qi, of x p'] by simp
      show "x \<in> set (gEventQueue ?t (unat (NotifyTpl (event ?t x))))"
        if "live ?t x" "NotifyLink (event ?t x)" for x
        using 2[of x] that by (cases "x = e") simp_all
    qed
  qed
  moreover have "signal_inv ?t" using inv by (auto simp: event_inv_def signal_inv_def event_ok_def)
  moreover have "lock_levels ?t" "gEfiCurrentTpl ?t \<le> TPL_HIGH_LEVEL"
    using inv by (auto simp: event_inv_def lock_levels_def)
  ultimately show ?thesis by (simp only: event_inv_def)
qed

lemma event_inv_SignalCount:
  assumes "event_inv s"
  shows "event_inv (put_event e (SignalCount_update f) s)"
proof -
  have "queue_inv (put_event e (SignalCount_update f) s) = queue_inv s"
    unfolding queue_inv_def by auto
  moreover have "signal_inv (put_event e (SignalCount_update f) s) = signal_inv s"
    unfolding signal_inv_def event_ok_def by auto
  ultimately show ?thesis using assms by (simp add: event_inv_def pending_inv_def lock_levels_def)
qed


section \<open>The dispatcher keeps the invariant\<close>

text \<open>The state in which the head of a queue has been taken off for its notification.\<close>

definition popped :: "EFI_TPL \<Rightarrow> EFI_EVENT \<Rightarrow> EFI_EVENT list \<Rightarrow> 'w DXE \<Rightarrow> 'w DXE" where
  "popped p e rest s =
     put_event e (\<lambda>ev. ev\<lparr>NotifyLink := False,
                          SignalCount := (if Type ev AND EVT_NOTIFY_SIGNAL \<noteq> 0 then 0 else SignalCount ev)\<rparr>)
       (s\<lparr>gEventQueue := (gEventQueue s)(unat p := rest)\<rparr>)"

lemma dispatch_loop_Cons:
  assumes "gEventQueue s (unat p) = e # rest"
  shows "DispatchEventNotifies_loop (Suc n) R notify p s =
    do {
      CR_event e s;
      s \<leftarrow> ReleaseLock_by R gEventQueueLock (popped p e rest s);
      f \<leftarrow> NotifyFunction (event s e);
      s \<leftarrow> notify f e (NotifyContext (event s e)) s;
      s \<leftarrow> CoreAcquireEventLock s;
      DispatchEventNotifies_loop n R notify p s
    }"
  using assms by (simp add: popped_def put_event_def Let_def)

lemma popped_fields [simp]:
  "gEfiCurrentTpl (popped p e rest s) = gEfiCurrentTpl s"
  "locks (popped p e rest s) = locks s"
  "gEventQueue (popped p e rest s) = (gEventQueue s)(unat p := rest)"
  "gEventPending (popped p e rest s) = gEventPending s"
  "gEventSignalQueue (popped p e rest s) = gEventSignalQueue s"
  "world (popped p e rest s) = world s"
  by (simp_all add: popped_def)

lemma event_inv_popped:
  assumes "event_inv s" and "gEventQueue s (unat p) = e # rest"
  shows "event_inv (popped p e rest s)"
proof -
  have "popped p e rest s =
      put_event e (SignalCount_update (\<lambda>_. if Type (event s e) AND EVT_NOTIFY_SIGNAL \<noteq> 0 then 0 else SignalCount (event s e)))
        (put_event e (NotifyLink_update (\<lambda>_. False)) (s\<lparr>gEventQueue := (gEventQueue s)(unat p := rest)\<rparr>))"
    by (simp add: popped_def put_event_def)
  then show ?thesis by (simp only: event_inv_SignalCount event_inv_pop[OF assms])
qed

lemma releases:
  assumes "restores R" "event_inv s" "ReleaseLock_by R gEventQueueLock s = Some t"
  shows "event_inv t" "gEfiCurrentTpl t = OwnerTpl (locks s gEventQueueLock)" "event_lock_free t"
    "nothing_pending_above (OwnerTpl (locks s gEventQueueLock)) t"
    "Lock (locks s gEventQueueLock) = EfiLockAcquired"
    "locks_kept (s\<lparr>locks := (locks s)(gEventQueueLock := (locks s gEventQueueLock)\<lparr>Lock := EfiLockReleased\<rparr>)\<rparr>) t"
proof -
  let ?r = "s\<lparr>locks := (locks s)(gEventQueueLock := (locks s gEventQueueLock)\<lparr>Lock := EfiLockReleased\<rparr>)\<rparr>"
  have R: "Lock (locks s gEventQueueLock) = EfiLockAcquired" "R (OwnerTpl (locks s gEventQueueLock)) ?r = Some t"
    using assms(3) by (simp_all add: ReleaseLock_by_def ASSERT_bind_Some Let_def)
  have "event_inv ?r" by (rule event_inv_cong[OF assms(2)]) (use assms(2) in \<open>auto simp: event_inv_def\<close>)
  moreover have "event_lock_free ?r" by simp
  ultimately have *: "event_inv t \<and> gEfiCurrentTpl t = OwnerTpl (locks s gEventQueueLock) \<and> locks_kept ?r t
      \<and> nothing_pending_above (OwnerTpl (locks s gEventQueueLock)) t"
    using assms(1) R(2) unfolding restores_def by blast
  then show "event_inv t" "gEfiCurrentTpl t = OwnerTpl (locks s gEventQueueLock)" "locks_kept ?r t"
    "nothing_pending_above (OwnerTpl (locks s gEventQueueLock)) t" by blast+
  show "event_lock_free t" using * by (simp add: locks_kept_def)
  show "Lock (locks s gEventQueueLock) = EfiLockAcquired" by (rule R(1))
qed

lemma locks_kept_reacquired:
  assumes "locks_kept (s\<lparr>locks := (locks s)(l := (locks s l)\<lparr>Lock := EfiLockReleased\<rparr>)\<rparr>) t"
    and "Lock (locks s l) = EfiLockAcquired" and "gEfiCurrentTpl t = OwnerTpl (locks s l)"
  shows "locks_kept s (acquired l t)"
  using assms by (auto simp: locks_kept_def)

lemma dispatch_loop_keeps:
  assumes R: "restores R" and N: "well_behaved notify"
  shows "event_inv s \<Longrightarrow> Lock (locks s gEventQueueLock) = EfiLockAcquired \<Longrightarrow>
    DispatchEventNotifies_loop n R notify (OwnerTpl (locks s gEventQueueLock)) s = Some t \<Longrightarrow>
    event_inv t \<and> locks_kept s t \<and> gEventQueue t (unat (OwnerTpl (locks s gEventQueueLock))) = []"
proof (induction n arbitrary: s)
  case (Suc n)
  let ?P = "OwnerTpl (locks s gEventQueueLock)"
  show ?case
  proof (cases "gEventQueue s (unat ?P)")
    case Nil
    then show ?thesis using Suc.prems by simp
  next
    case (Cons e rest)
    define s2 where "s2 = popped ?P e rest s"
    have inv2: "event_inv s2" and l2: "locks s2 = locks s"
      using event_inv_popped[OF Suc.prems(1) Cons] by (simp_all add: s2_def)
    obtain s3 f s4 s5 where run: "ReleaseLock_by R gEventQueueLock s2 = Some s3" "NotifyFunction (event s3 e) = Some f"
      "notify f e (NotifyContext (event s3 e)) s3 = Some s4" "CoreAcquireEventLock s4 = Some s5"
      "DispatchEventNotifies_loop n R notify ?P s5 = Some t"
      using Suc.prems(3) unfolding dispatch_loop_Cons[OF Cons] s2_def[symmetric]
      by (auto simp: bind_eq_Some_conv)
    note r = releases[OF R inv2 run(1)]
    have n4: "event_inv s4" "gEfiCurrentTpl s4 = gEfiCurrentTpl s3" "locks_kept s3 s4"
      using N r(1,3) run(3) unfolding well_behaved_def by blast+
    have s5: "s5 = acquired gEventQueueLock s4"
      using run(4) by (simp add: CoreAcquireEventLock_def CoreAcquireLock_eq split: if_splits)
    have kept: "locks_kept s s5"
      unfolding s5 using locks_kept_reacquired[OF locks_kept_trans[OF r(6) n4(3)] r(5)] n4(2) r(2) l2
      by (simp add: locks_kept_def)
    then have P: "OwnerTpl (locks s5 gEventQueueLock) = ?P" "Lock (locks s5 gEventQueueLock) = EfiLockAcquired"
      using Suc.prems(2) by (simp_all add: locks_kept_def)
    have "event_inv s5" unfolding s5 by (rule event_inv_acquired[OF n4(1)])
    from Suc.IH[OF this P(2)] run(5) P(1) kept show ?thesis using locks_kept_trans by auto
  qed
qed simp

lemma event_inv_unpend:
  assumes "event_inv s" "gEventQueue s (unat p) = []" "p < 31"
  shows "event_inv (s\<lparr>gEventPending := gEventPending s AND NOT (tpl_bit p)\<rparr>)"
  using assms
  by (auto simp: event_inv_def pending_inv_def queue_inv_def signal_inv_def lock_levels_def bit_simps bit_tpl_bit
      dest: bit_imp_le_length)


lemma locks_kept_updates:
  "locks u = locks t \<Longrightarrow> locks_kept s t \<Longrightarrow> locks_kept s u"
  by (simp add: locks_kept_def)

lemma dispatch_keeps:
  assumes R: "restores R" and N: "well_behaved notify" and inv: "event_inv s" and p: "p < 31"
    and run: "CoreDispatchEventNotifies n R notify p s = Some t"
  shows "event_inv t" "locks_kept s t"
proof -
  obtain s1 s2 where
    s1: "CoreAcquireEventLock s = Some s1" "OwnerTpl (locks s1 gEventQueueLock) = p"
    and s2: "DispatchEventNotifies_loop n R notify p s1 = Some s2"
    and t: "ReleaseLock_by R gEventQueueLock (s2\<lparr>gEventPending := gEventPending s2 AND NOT (tpl_bit p)\<rparr>) = Some t"
    using run by (auto simp: CoreDispatchEventNotifies_def bind_eq_Some_conv ASSERT_def Let_def split: if_splits)
  have s1': "s1 = acquired gEventQueueLock s" "event_lock_free s"
    using s1 by (auto simp: CoreAcquireEventLock_def CoreAcquireLock_eq split: if_splits)
  have "event_inv s1" "Lock (locks s1 gEventQueueLock) = EfiLockAcquired"
    using event_inv_acquired[OF inv] by (simp_all add: s1')
  from dispatch_loop_keeps[OF R N this] s2 s1(2)
  have d: "event_inv s2" "locks_kept s1 s2" "gEventQueue s2 (unat p) = []" by auto
  note r = releases[OF R event_inv_unpend[OF d(1,3) p] t]
  show "event_inv t" by (rule r(1))
  show "locks_kept s t" using r(6) d(2) s1' by (auto simp: locks_kept_def)
qed

text \<open>One turn of the loop of CoreRestoreTpl, at the highest pending level.\<close>

lemma restore_loop_step:
  assumes "highest_bit (gEventPending s) (unat p)" and "p < 31" and "t < p"
  shows "RestoreTpl_loop (Suc n) d R notify t s =
    do {
      s \<leftarrow> CoreDispatchEventNotifies d R notify p (CoreSetInterruptState True (s\<lparr>gEfiCurrentTpl := p\<rparr>));
      RestoreTpl_loop n d R notify t s
    }"
proof -
  have "gEventPending s \<noteq> 0" using assms(1) by (auto simp: highest_bit_def)
  moreover have "\<not> p \<le> t" using assms(3) by simp
  ultimately show ?thesis using assms(2) HighBitSet64_eq[OF assms(1)] by (simp add: Let_def)
qed

lemma restore_loop_cases:
  assumes "event_inv s"
  obtains "nothing_pending_above t s" "\<And>n d R notify. RestoreTpl_loop (Suc n) d R notify t s = Some s"
  | p where "highest_bit (gEventPending s) (unat p)" "p < 31" "t < p"
proof (cases "nothing_pending_above t s")
  case True
  then show thesis using that(1) nothing_pending_above_iff[of s t] by (auto simp: Let_def)
next
  case False
  then have nz: "gEventPending s \<noteq> 0" and lt: "\<not> word_of_int (HighBitSet64 (gEventPending s)) \<le> t"
    using nothing_pending_above_iff[of s t] by auto
  obtain k where k: "highest_bit (gEventPending s) k" "HighBitSet64 (gEventPending s) = int k"
    "unat (word_of_int (int k) :: EFI_TPL) = k" using pending_highest[OF nz] .
  have "k < 31" using k(1) assms by (auto simp: event_inv_def pending_inv_def highest_bit_def)
  with k lt show thesis by (intro that(2)[of "word_of_int (int k)"]) (simp_all add: word_less_nat_alt word_le_nat_alt)
qed

lemma loop_keeps:
  assumes R: "restores R" and N: "well_behaved notify"
  shows "event_inv s \<Longrightarrow> RestoreTpl_loop n d R notify t s = Some s' \<Longrightarrow>
    event_inv s' \<and> locks_kept s s' \<and> nothing_pending_above t s'"
proof (induction n arbitrary: s)
  case (Suc n)
  show ?case
  proof (cases rule: restore_loop_cases[OF Suc.prems(1), of t])
    case 1
    then show ?thesis using Suc.prems by simp
  next
    case (2 p)
    define s1 where "s1 = CoreSetInterruptState True (s\<lparr>gEfiCurrentTpl := p\<rparr>)"
    have s1: "event_inv s1" "locks s1 = locks s"
      using event_inv_cong[OF Suc.prems(1), of s1] 2(2) by (auto simp: s1_def)
    obtain s2 where s2: "CoreDispatchEventNotifies d R notify p s1 = Some s2" "RestoreTpl_loop n d R notify t s2 = Some s'"
      using Suc.prems(2) unfolding restore_loop_step[OF 2] s1_def[symmetric] bind_eq_Some_conv by blast
    note keeps = dispatch_keeps[OF R N s1(1) 2(2) s2(1)]
    show ?thesis using Suc.IH[OF keeps(1) s2(2)] keeps(2) s1(2)
      by (auto simp: locks_kept_def)
  qed
qed simp

text \<open>Arriving at a priority, the last step of CoreRestoreTpl.\<close>

definition at_level :: "EFI_TPL \<Rightarrow> 'w DXE \<Rightarrow> 'w DXE" where
  "at_level t s = (if t < TPL_HIGH_LEVEL then CoreSetInterruptState True (s\<lparr>gEfiCurrentTpl := t\<rparr>) else s\<lparr>gEfiCurrentTpl := t\<rparr>)"

lemma at_level_fields [simp]:
  "gEfiCurrentTpl (at_level t s) = t"
  "locks (at_level t s) = locks s"
  "gEventQueue (at_level t s) = gEventQueue s"
  "gEventPending (at_level t s) = gEventPending s"
  "gEventSignalQueue (at_level t s) = gEventSignalQueue s"
  "event (at_level t s) = event s"
  "mEfiTimerList (at_level t s) = mEfiTimerList s"
  "mEfiCheckTimerEvent (at_level t s) = mEfiCheckTimerEvent s"
  "mEfiSystemTime (at_level t s) = mEfiSystemTime s"
  "gIdleLoopEvent (at_level t s) = gIdleLoopEvent s"
  "RuntimeEventHead (at_level t s) = RuntimeEventHead s"
  "mProtocolDatabase (at_level t s) = mProtocolDatabase s" "hand (at_level t s) = hand s"
  "world (at_level t s) = world s"
  by (simp_all add: at_level_def)

lemma CoreRestoreTpl_eq:
  assumes "gEfiCurrentTpl s \<le> TPL_HIGH_LEVEL"
  shows "CoreRestoreTpl (Suc n) notify t s =
    (if t \<le> gEfiCurrentTpl s then map_option (at_level t) (RestoreTpl_loop n n (CoreRestoreTpl n notify) notify t s)
     else None)"
proof (cases "t \<le> gEfiCurrentTpl s")
  case False
  moreover have "gEfiCurrentTpl s < t" using False by simp
  ultimately show ?thesis by (simp add: ASSERT_def Let_def)
next
  case True
  have same: "(if TPL_HIGH_LEVEL \<le> gEfiCurrentTpl s \<and> t < TPL_HIGH_LEVEL then s\<lparr>gEfiCurrentTpl := TPL_HIGH_LEVEL\<rparr> else s) = s"
    using assms by (cases "gEfiCurrentTpl s = TPL_HIGH_LEVEL") (auto dest: antisym)
  have "VALID_TPL t" using True assms by (simp add: VALID_TPL_def)
  then show ?thesis using True unfolding CoreRestoreTpl.simps Let_def same
    by (simp add: not_less at_level_def map_option_case bind_split split: option.split)
qed

declare CoreRestoreTpl.simps [simp del]

theorem CoreRestoreTpl_restores:
  assumes N: "well_behaved notify"
  shows "restores (CoreRestoreTpl n notify)"
proof (induction n)
  case 0
  show ?case by (simp add: restores_def CoreRestoreTpl.simps)
next
  case (Suc n)
  show ?case unfolding restores_def
  proof (intro allI impI)
    fix t s s'
    assume inv: "event_inv s" and run: "CoreRestoreTpl (Suc n) notify t s = Some s'"
    have cur: "gEfiCurrentTpl s \<le> TPL_HIGH_LEVEL" using inv by (simp add: event_inv_def)
    obtain s2 where s2: "RestoreTpl_loop n n (CoreRestoreTpl n notify) notify t s = Some s2"
      and s': "s' = at_level t s2" and t: "t \<le> TPL_HIGH_LEVEL"
      using run cur unfolding CoreRestoreTpl_eq[OF cur] by (auto split: if_splits)
    have k: "event_inv s2" "locks_kept s s2" "nothing_pending_above t s2"
      using loop_keeps[OF Suc.IH N inv s2] by auto
    have "event_inv s'" using t by (intro event_inv_cong[OF k(1)]) (auto simp: s')
    with k(2,3) show "event_inv s' \<and> gEfiCurrentTpl s' = t \<and> locks_kept s s' \<and> nothing_pending_above t s'"
      by (simp add: s' nothing_pending_above_def locks_kept_def)
  qed
qed

section \<open>The order of notifications\<close>

text \<open>The fields that dispatching does not touch by itself.\<close>

definition other_fields where
  "other_fields s = (gEventSignalQueue s, gIdleLoopEvent s, RuntimeEventHead s, mEfiTimerList s,
     mEfiCheckTimerEvent s, mEfiSystemTime s, mProtocolDatabase s, hand s, gCpu s, gSmmBase2 s)"

lemma other_fields_simps [simp]:
  "other_fields (acquired l s) = other_fields s"
  "other_fields (at_level t s) = other_fields s"
  "other_fields (CoreSetInterruptState b s) = other_fields s"
  "other_fields (put_event e f s) = other_fields s"
  "other_fields (popped p e rest s) = other_fields s"
  "other_fields (s\<lparr>gEfiCurrentTpl := t\<rparr>) = other_fields s"
  "other_fields (s\<lparr>locks := ls\<rparr>) = other_fields s"
  "other_fields (s\<lparr>gEventPending := p\<rparr>) = other_fields s"
  "other_fields (s\<lparr>gEventQueue := q\<rparr>) = other_fields s"
  "other_fields (s\<lparr>world := w\<rparr>) = other_fields s"
  by (auto simp: other_fields_def acquired_def at_level_def CoreSetInterruptState_def put_event_def popped_def
      split: option.splits)

text \<open>The state in which a lock has just been released with nothing to dispatch.\<close>

definition released :: "lock_name \<Rightarrow> 'w DXE \<Rightarrow> 'w DXE" where
  "released l s = at_level (OwnerTpl (locks s l)) (s\<lparr>locks := (locks s)(l := (locks s l)\<lparr>Lock := EfiLockReleased\<rparr>)\<rparr>)"

lemma restore_settled:
  assumes "gEfiCurrentTpl s \<le> TPL_HIGH_LEVEL" "t \<le> gEfiCurrentTpl s" "nothing_pending_above t s"
  shows "CoreRestoreTpl (Suc (Suc n)) notify t s = Some (at_level t s)"
  using assms nothing_pending_above_iff[of s t] unfolding CoreRestoreTpl_eq[OF assms(1)]
  by (auto simp: Let_def)

lemma release_settled:
  assumes "Lock (locks s l) = EfiLockAcquired" "gEfiCurrentTpl s \<le> TPL_HIGH_LEVEL"
    "OwnerTpl (locks s l) \<le> gEfiCurrentTpl s" "nothing_pending_above (OwnerTpl (locks s l)) s"
  shows "ReleaseLock_by (CoreRestoreTpl (Suc (Suc n)) notify) l s = Some (released l s)"
proof -
  have "nothing_pending_above (OwnerTpl (locks s l)) (s\<lparr>locks := ls\<rparr>)" for ls
    using assms(4) by (simp add: nothing_pending_above_def)
  then show ?thesis using assms(1-3)
    by (simp add: ReleaseLock_by_def released_def restore_settled)
qed

text \<open>What a notification leaves of an event: off its queue, and no longer signalled if of the signal type.\<close>

definition notified :: "IEVENT \<Rightarrow> IEVENT" where
  "notified ev = ev\<lparr>NotifyLink := False,
     SignalCount := (if Type ev AND EVT_NOTIFY_SIGNAL \<noteq> 0 then 0 else SignalCount ev)\<rparr>"

definition notified_all :: "EFI_EVENT list \<Rightarrow> (EFI_EVENT \<Rightarrow> IEVENT) \<Rightarrow> EFI_EVENT \<Rightarrow> IEVENT" where
  "notified_all es ev = (\<lambda>e. if e \<in> set es then notified (ev e) else ev e)"

text \<open>
  The functions of the events \<open>es\<close> only do \<open>run\<close> on the world: they return, and leave the event services alone.
\<close>

definition quiet_on :: "EFI_EVENT list \<Rightarrow> (EFI_EVENT \<Rightarrow> 'w \<Rightarrow> 'w) \<Rightarrow> 'w notify \<Rightarrow> (EFI_EVENT \<Rightarrow> IEVENT) \<Rightarrow> bool" where
  "quiet_on es run notify ev \<longleftrightarrow>
     (\<forall>e\<in>set es. \<forall>s. notify (the (NotifyFunction (ev e))) e (NotifyContext (ev e)) s = Some (s\<lparr>world := run e (world s)\<rparr>))"

lemma notified_simps [simp]:
  "Signature (notified ev) = Signature ev" "NotifyFunction (notified ev) = NotifyFunction ev"
  "NotifyContext (notified ev) = NotifyContext ev" "Type (notified ev) = Type ev"
  "NotifyTpl (notified ev) = NotifyTpl ev" "Timer (notified ev) = Timer ev" "ExFlag (notified ev) = ExFlag ev"
  "EventGroup (notified ev) = EventGroup ev" "RuntimeData (notified ev) = RuntimeData ev" "SignalLink (notified ev) = SignalLink ev"
  by (simp_all add: notified_def)

lemma event_popped [simp]: "event (popped p e rest s) = (event s)(e := notified (event s e))"
  by (simp add: popped_def notified_def)

lemma released_fields [simp]:
  "gEfiCurrentTpl (released l s) = OwnerTpl (locks s l)"
  "locks (released l s) = (locks s)(l := (locks s l)\<lparr>Lock := EfiLockReleased\<rparr>)"
  "gEventQueue (released l s) = gEventQueue s" "gEventPending (released l s) = gEventPending s"
  "event (released l s) = event s" "world (released l s) = world s" "other_fields (released l s) = other_fields s"
  "gEventSignalQueue (released l s) = gEventSignalQueue s" "mEfiTimerList (released l s) = mEfiTimerList s"
  "mEfiCheckTimerEvent (released l s) = mEfiCheckTimerEvent s" "mEfiSystemTime (released l s) = mEfiSystemTime s"
  "gIdleLoopEvent (released l s) = gIdleLoopEvent s" "RuntimeEventHead (released l s) = RuntimeEventHead s"
  "mProtocolDatabase (released l s) = mProtocolDatabase s" "hand (released l s) = hand s"
  by (simp_all add: released_def)

lemma dispatch_loop_quiet:
  fixes s :: "'w DXE"
  assumes "event_inv s" "Lock (locks s gEventQueueLock) = EfiLockAcquired" "OwnerTpl (locks s gEventQueueLock) = p"
    "gEfiCurrentTpl s = TPL_HIGH_LEVEL" "nothing_pending_above p s" "p < TPL_HIGH_LEVEL"
    "gEventQueue s (unat p) = es" "quiet_on es run notify (event s)" "length es < n"
  shows "\<exists>t. DispatchEventNotifies_loop n (CoreRestoreTpl (Suc (Suc m)) notify) notify p s = Some t
    \<and> event t = notified_all es (event s) \<and> world t = fold run es (world s)
    \<and> gEventQueue t = (gEventQueue s)(unat p := []) \<and> gEventPending t = gEventPending s
    \<and> gEfiCurrentTpl t = TPL_HIGH_LEVEL \<and> locks_kept s t \<and> other_fields t = other_fields s \<and> event_inv t"
  using assms
proof (induction es arbitrary: s n)
  case Nil
  then obtain k where "n = Suc k" by (cases n) auto
  with Nil show ?case by (auto simp: notified_all_def)
next
  case (Cons e es)
  obtain k where n: "n = Suc k" "length es < k" using Cons.prems(9) by (cases n) auto
  have qi: "queue_inv s" using Cons.prems(1) by (simp add: event_inv_def)
  have e: "live s e" "NotifyFunction (event s e) \<noteq> None" "e \<notin> set es"
    using queue_inv_facts(1,2,4)[OF qi] Cons.prems(7) by (metis list.set_intros(1) distinct.simps(2))+
  define s1 where "s1 = released gEventQueueLock (popped p e es s)"
  define s2 where "s2 = s1\<lparr>world := run e (world s1)\<rparr>"
  define s3 where "s3 = acquired gEventQueueLock s2"
  have inv1: "event_inv s1"
    by (rule event_inv_cong[OF event_inv_popped[OF Cons.prems(1,7)]]) (use Cons.prems in \<open>auto simp: s1_def\<close>)
  have inv2: "event_inv s2" by (rule event_inv_cong[OF inv1]) (use inv1 in \<open>auto simp: s2_def event_inv_def\<close>)
  have inv3: "event_inv s3" unfolding s3_def by (rule event_inv_acquired[OF inv2])
  have lv: "Tpl (locks s gEventQueueLock) = TPL_HIGH_LEVEL" using Cons.prems(1) by (simp add: event_inv_def lock_levels_def)
  have step: "DispatchEventNotifies_loop n (CoreRestoreTpl (Suc (Suc m)) notify) notify p s =
      DispatchEventNotifies_loop k (CoreRestoreTpl (Suc (Suc m)) notify) notify p s3"
  proof -
    have "ReleaseLock_by (CoreRestoreTpl (Suc (Suc m)) notify) gEventQueueLock (popped p e es s) = Some s1"
      unfolding s1_def using Cons.prems by (intro release_settled) (auto simp: nothing_pending_above_def)
    moreover have "notify (the (NotifyFunction (event s e))) e (NotifyContext (event s e)) s1 = Some s2"
      using Cons.prems(8) by (simp add: quiet_on_def s2_def)
    moreover have "CoreAcquireEventLock s2 = Some s3"
      using Cons.prems lv by (simp add: CoreAcquireEventLock_def CoreAcquireLock_eq s3_def s2_def s1_def)
    ultimately show ?thesis
      unfolding n(1) dispatch_loop_Cons[OF Cons.prems(7)]
      using e by (auto simp: CR_event_def s1_def)
  qed
  have ev3: "event s3 = (event s)(e := notified (event s e))" "world s3 = run e (world s)"
    "gEventQueue s3 = (gEventQueue s)(unat p := es)" "gEventPending s3 = gEventPending s"
    "other_fields s3 = other_fields s"
    by (simp_all add: s3_def s2_def s1_def)
  have "quiet_on es run notify (event s3)" using Cons.prems(8) by (auto simp: quiet_on_def ev3)
  moreover have "Lock (locks s3 gEventQueueLock) = EfiLockAcquired" "OwnerTpl (locks s3 gEventQueueLock) = p"
    "gEfiCurrentTpl s3 = TPL_HIGH_LEVEL" "nothing_pending_above p s3" "gEventQueue s3 (unat p) = es"
    "locks_kept s s3"
    using Cons.prems lv by (auto simp: s3_def s2_def s1_def nothing_pending_above_def locks_kept_def)
  ultimately obtain t where t: "DispatchEventNotifies_loop k (CoreRestoreTpl (Suc (Suc m)) notify) notify p s3 = Some t"
    "event t = notified_all es (event s3)" "world t = fold run es (world s3)"
    "gEventQueue t = (gEventQueue s3)(unat p := [])" "gEventPending t = gEventPending s3"
    "gEfiCurrentTpl t = TPL_HIGH_LEVEL" "locks_kept s3 t" "other_fields t = other_fields s3" "event_inv t"
    using Cons.IH[OF inv3 _ _ _ _ Cons.prems(6) _ _ n(2)] by blast
  have "event t = notified_all (e # es) (event s)" using e(3) by (auto simp: t(2) ev3 notified_all_def)
  then show ?case using step t \<open>locks_kept s s3\<close> locks_kept_trans[of s s3 t] by (auto simp: ev3)
qed

lemma dispatch_quiet:
  fixes s :: "'w DXE"
  assumes inv: "event_inv s" and free: "event_lock_free s" and cur: "gEfiCurrentTpl s = p"
    and top: "nothing_pending_above p s" and p: "p < TPL_HIGH_LEVEL"
    and quiet: "quiet_on (gEventQueue s (unat p)) run notify (event s)" and fuel: "length (gEventQueue s (unat p)) < n"
  shows "\<exists>t. CoreDispatchEventNotifies n (CoreRestoreTpl (Suc (Suc m)) notify) notify p s = Some t
    \<and> event t = notified_all (gEventQueue s (unat p)) (event s) \<and> world t = fold run (gEventQueue s (unat p)) (world s)
    \<and> gEventQueue t = (gEventQueue s)(unat p := []) \<and> gEventPending t = gEventPending s AND NOT (tpl_bit p)
    \<and> gEfiCurrentTpl t = p \<and> locks_kept s t \<and> other_fields t = other_fields s \<and> event_inv t"
proof -
  let ?s1 = "acquired gEventQueueLock s"
  have lv: "Tpl (locks s gEventQueueLock) = TPL_HIGH_LEVEL" using inv by (simp add: event_inv_def lock_levels_def)
  have acq: "CoreAcquireEventLock s = Some ?s1"
    using lv free cur p by (simp add: CoreAcquireEventLock_def CoreAcquireLock_eq)
  have "\<exists>t. DispatchEventNotifies_loop n (CoreRestoreTpl (Suc (Suc m)) notify) notify p ?s1 = Some t
    \<and> event t = notified_all (gEventQueue s (unat p)) (event ?s1) \<and> world t = fold run (gEventQueue s (unat p)) (world ?s1)
    \<and> gEventQueue t = (gEventQueue ?s1)(unat p := []) \<and> gEventPending t = gEventPending ?s1
    \<and> gEfiCurrentTpl t = TPL_HIGH_LEVEL \<and> locks_kept ?s1 t \<and> other_fields t = other_fields ?s1 \<and> event_inv t"
    using event_inv_acquired[OF inv] cur lv top p quiet fuel
    by (intro dispatch_loop_quiet) (auto simp: nothing_pending_above_def)
  then obtain u where u: "DispatchEventNotifies_loop n (CoreRestoreTpl (Suc (Suc m)) notify) notify p ?s1 = Some u"
    "event u = notified_all (gEventQueue s (unat p)) (event s)" "world u = fold run (gEventQueue s (unat p)) (world s)"
    "gEventQueue u = (gEventQueue s)(unat p := [])" "gEventPending u = gEventPending s"
    "gEfiCurrentTpl u = TPL_HIGH_LEVEL" "locks_kept ?s1 u" "other_fields u = other_fields s" "event_inv u"
    by auto
  define v where "v = u\<lparr>gEventPending := gEventPending u AND NOT (tpl_bit p)\<rparr>"
  have lk: "Lock (locks v gEventQueueLock) = EfiLockAcquired" "OwnerTpl (locks v gEventQueueLock) = p"
    using u(7) cur by (simp_all add: v_def locks_kept_def)
  have inv_v: "event_inv v" unfolding v_def using u(4,9) p by (intro event_inv_unpend) simp_all
  have "ReleaseLock_by (CoreRestoreTpl (Suc (Suc m)) notify) gEventQueueLock v = Some (released gEventQueueLock v)"
    using lk u(5,6) p top by (intro release_settled) (auto simp: v_def nothing_pending_above_def bit_simps)
  then have run: "CoreDispatchEventNotifies n (CoreRestoreTpl (Suc (Suc m)) notify) notify p s = Some (released gEventQueueLock v)"
    using acq u(1) cur less_imp_le[OF p] by (simp add: CoreDispatchEventNotifies_def v_def)
  have "event_inv (released gEventQueueLock v)"
    by (rule event_inv_cong[OF inv_v]) (use lk p in auto)
  moreover have "locks_kept s (released gEventQueueLock v)"
    using u(7) free by (auto simp: locks_kept_def v_def)
  ultimately show ?thesis using run u lk by (auto simp: v_def)
qed

text \<open>The queued events above a priority, highest level first, each level in the order of its queue.\<close>

definition queued_between :: "nat \<Rightarrow> nat \<Rightarrow> 'w DXE \<Rightarrow> EFI_EVENT list" where
  "queued_between lo hi s = concat (map (gEventQueue s) (rev [Suc lo..<hi]))"

definition queued_above :: "EFI_TPL \<Rightarrow> 'w DXE \<Rightarrow> EFI_EVENT list" where
  "queued_above t s = queued_between (unat t) 31 s"

lemma queued_between_Suc:
  "lo < hi \<Longrightarrow> queued_between lo (Suc hi) s = gEventQueue s hi @ queued_between lo hi s"
  by (simp add: queued_between_def)

lemma queued_between_empty: "hi \<le> Suc lo \<Longrightarrow> queued_between lo hi s = []"
  by (simp add: queued_between_def)

lemma notified_all_append:
  "set xs \<inter> set ys = {} \<Longrightarrow> notified_all ys (notified_all xs ev) = notified_all (xs @ ys) ev"
  by (auto simp: notified_all_def fun_eq_iff)

lemma set_queued_between: "e \<in> set (queued_between lo hi s) \<longleftrightarrow> (\<exists>p. lo < p \<and> p < hi \<and> e \<in> set (gEventQueue s p))"
  by (auto simp: queued_between_def Suc_le_eq)

lemma restore_loop_quiet:
  fixes s :: "'w DXE"
  assumes "event_inv s" "event_lock_free s" "\<forall>k. bit (gEventPending s) k \<longrightarrow> k < hi" "hi \<le> 31"
    "quiet_on (queued_between (unat t) hi s) run notify (event s)" "hi < n" "length (queued_between (unat t) hi s) < d"
  shows "\<exists>s'. RestoreTpl_loop n d (CoreRestoreTpl (Suc (Suc m)) notify) notify t s = Some s'
    \<and> event s' = notified_all (queued_between (unat t) hi s) (event s)
    \<and> world s' = fold run (queued_between (unat t) hi s) (world s)
    \<and> (\<forall>p. gEventQueue s' p = (if unat t < p then [] else gEventQueue s p))
    \<and> (\<forall>k. bit (gEventPending s') k \<longleftrightarrow> bit (gEventPending s) k \<and> k \<le> unat t)
    \<and> locks_kept s s' \<and> other_fields s' = other_fields s \<and> event_inv s'"
  using assms
proof (induction hi arbitrary: s n)
  case 0
  then have "gEventPending s = 0" by (auto simp: bit_eq_iff)
  moreover have "gEventQueue s p = []" for p
    using 0 by (auto simp: event_inv_def pending_inv_def)
  moreover obtain n' where "n = Suc n'" using 0(6) by (cases n) auto
  ultimately show ?case using 0 by (auto simp: queued_between_empty notified_all_def)
next
  case (Suc hi)
  have pinv: "\<And>p. gEventQueue s p \<noteq> [] \<Longrightarrow> bit (gEventPending s) p"
    using Suc.prems(1) by (auto simp: event_inv_def pending_inv_def)
  consider "hi \<le> unat t" | "unat t < hi" "\<not> bit (gEventPending s) hi" | "unat t < hi" "bit (gEventPending s) hi"
    by linarith
  then show ?case
  proof cases
    case 1
    then have "nothing_pending_above t s" using Suc.prems(3) by (force simp: nothing_pending_above_def less_Suc_eq_le)
    moreover have "gEventQueue s p = []" if "unat t < p" for p
      using pinv[of p] Suc.prems(3) 1 that by (metis not_less_eq order.strict_trans1)
    moreover obtain n' where "n = Suc n'" using Suc.prems(6) by (cases n) auto
    ultimately show ?thesis using Suc.prems 1 nothing_pending_above_iff[of s t]
      by (auto simp: queued_between_empty notified_all_def Let_def nothing_pending_above_def)
  next
    case 2
    then have "gEventQueue s hi = []" using pinv by blast
    then have q: "queued_between (unat t) (Suc hi) s = queued_between (unat t) hi s"
      using 2 by (simp add: queued_between_Suc)
    have "\<forall>k. bit (gEventPending s) k \<longrightarrow> k < hi" using Suc.prems(3) 2 by (metis less_Suc_eq)
    then show ?thesis using Suc.IH[of s n] Suc.prems q by auto
  next
    case 3
    define p :: EFI_TPL where "p = of_nat hi"
    have up: "unat p = hi" using Suc.prems(4) by (simp add: p_def unsigned_of_nat take_bit_nat_eq_self)
    have p31: "p < TPL_HIGH_LEVEL" and tp: "t < p" using Suc.prems(4) 3 by (simp_all add: word_less_nat_alt up)
    have top: "highest_bit (gEventPending s) (unat p)" using 3 Suc.prems(3) by (auto simp: highest_bit_def up)
    obtain n' where n': "n = Suc n'" "hi < n'" using Suc.prems(6) by (cases n) auto
    have q: "queued_between (unat t) (Suc hi) s = gEventQueue s hi @ queued_between (unat t) hi s"
      using 3 by (simp add: queued_between_Suc)
    define s1 where "s1 = CoreSetInterruptState True (s\<lparr>gEfiCurrentTpl := p\<rparr>)"
    have inv1: "event_inv s1" using p31 by (intro event_inv_cong[OF Suc.prems(1)]) (auto simp: s1_def)
    have "nothing_pending_above p s1" using top by (auto simp: s1_def nothing_pending_above_def highest_bit_def not_less)
    then obtain s2 where s2: "CoreDispatchEventNotifies d (CoreRestoreTpl (Suc (Suc m)) notify) notify p s1 = Some s2"
      "event s2 = notified_all (gEventQueue s hi) (event s)" "world s2 = fold run (gEventQueue s hi) (world s)"
      "gEventQueue s2 = (gEventQueue s)(hi := [])" "gEventPending s2 = gEventPending s AND NOT (tpl_bit p)"
      "locks_kept s s2" "other_fields s2 = other_fields s" "event_inv s2"
      using dispatch_quiet[OF inv1 _ _ _ p31, of run notify d m] Suc.prems(2,5,7) q
      by (auto simp: s1_def up quiet_on_def locks_kept_def)
    have step: "RestoreTpl_loop n d (CoreRestoreTpl (Suc (Suc m)) notify) notify t s =
        RestoreTpl_loop n' d (CoreRestoreTpl (Suc (Suc m)) notify) notify t s2"
      unfolding n'(1) restore_loop_step[OF top p31 tp] s1_def[symmetric] s2(1) by simp
    have bits: "bit (gEventPending s2) k \<longleftrightarrow> bit (gEventPending s) k \<and> k \<noteq> hi" for k
      using bit_imp_le_length[of "gEventPending s" k] by (auto simp: s2(5) bit_simps bit_tpl_bit[OF p31] up)
    have lower: "queued_between (unat t) hi s2 = queued_between (unat t) hi s"
      by (auto simp: queued_between_def s2(4) intro!: arg_cong[where f = concat])
    have disj: "set (gEventQueue s hi) \<inter> set (queued_between (unat t) hi s) = {}"
    proof -
      have "\<And>e p'. e \<in> set (gEventQueue s p') \<Longrightarrow> unat (NotifyTpl (event s e)) = p'"
        using queue_inv_facts(3)[of s] Suc.prems(1) by (simp add: event_inv_def)
      then show ?thesis by (auto simp: set_queued_between) (metis less_irrefl)
    qed
    have "event_lock_free s2" using s2(6) Suc.prems(2) by (simp add: locks_kept_def)
    moreover have "\<forall>k. bit (gEventPending s2) k \<longrightarrow> k < hi" using Suc.prems(3) bits by (metis less_Suc_eq)
    moreover have "quiet_on (queued_between (unat t) hi s2) run notify (event s2)"
      using Suc.prems(5) by (auto simp: quiet_on_def q lower s2(2) notified_all_def)
    ultimately have "\<exists>s'. RestoreTpl_loop n' d (CoreRestoreTpl (Suc (Suc m)) notify) notify t s2 = Some s'
      \<and> event s' = notified_all (queued_between (unat t) hi s) (event s2)
      \<and> world s' = fold run (queued_between (unat t) hi s) (world s2)
      \<and> (\<forall>p. gEventQueue s' p = (if unat t < p then [] else gEventQueue s2 p))
      \<and> (\<forall>k. bit (gEventPending s') k \<longleftrightarrow> bit (gEventPending s2) k \<and> k \<le> unat t)
      \<and> locks_kept s2 s' \<and> other_fields s' = other_fields s2 \<and> event_inv s'"
      using Suc.IH[OF s2(8), of n'] Suc.prems(4,7) n'(2) lower q by auto
    then show ?thesis unfolding step q
      using 3 s2(2-4,6,7) bits disj locks_kept_trans[of s s2] by (auto simp: notified_all_append)
  qed
qed


lemma restore_quiet:
  assumes "event_inv s" "event_lock_free s" "t \<le> gEfiCurrentTpl s"
    "quiet_on (queued_above t s) run notify (event s)" "33 + length (queued_above t s) < n"
  shows "\<exists>s'. CoreRestoreTpl n notify t s = Some s'
    \<and> world s' = fold run (queued_above t s) (world s) \<and> gEfiCurrentTpl s' = t
    \<and> event s' = notified_all (queued_above t s) (event s)
    \<and> (\<forall>p. gEventQueue s' p = (if unat t < p then [] else gEventQueue s p))
    \<and> (\<forall>k. bit (gEventPending s') k \<longleftrightarrow> bit (gEventPending s) k \<and> k \<le> unat t)
    \<and> locks_kept s s' \<and> other_fields s' = other_fields s \<and> event_inv s'"
proof -
  have cur: "gEfiCurrentTpl s \<le> TPL_HIGH_LEVEL" using assms(1) by (simp add: event_inv_def)
  define m where "m = n - 3"
  have m: "n = Suc (Suc (Suc m))" using assms(5) by (simp add: m_def)
  let ?n = "Suc (Suc m)"
  have "\<forall>k. bit (gEventPending s) k \<longrightarrow> k < 31" using assms(1) by (auto simp: event_inv_def pending_inv_def)
  then obtain s2 where s2: "RestoreTpl_loop ?n ?n (CoreRestoreTpl ?n notify) notify t s = Some s2"
    "event s2 = notified_all (queued_above t s) (event s)"
    "world s2 = fold run (queued_above t s) (world s)"
    "\<forall>p. gEventQueue s2 p = (if unat t < p then [] else gEventQueue s p)"
    "\<forall>k. bit (gEventPending s2) k \<longleftrightarrow> bit (gEventPending s) k \<and> k \<le> unat t"
    "locks_kept s s2" "other_fields s2 = other_fields s" "event_inv s2"
    using restore_loop_quiet[of s 31 t run notify ?n ?n m] assms m by (auto simp: queued_above_def)
  have "t \<le> TPL_HIGH_LEVEL" using assms(3) cur by simp
  then have "event_inv (at_level t s2)" by (intro event_inv_cong[OF s2(8)]) auto
  moreover have "CoreRestoreTpl n notify t s = Some (at_level t s2)"
    unfolding m CoreRestoreTpl_eq[OF cur] s2(1) using assms(3) by simp
  ultimately show ?thesis using s2 by (auto simp: locks_kept_def)
qed

section \<open>Properties\<close>

lemma cpu_fields [simp]:
  "gCpu (CoreSetInterruptState b s) = gCpu s" "gSmmBase2 (CoreSetInterruptState b s) = gSmmBase2 s"
  by (auto simp: CoreSetInterruptState_def split: option.splits)

lemma at_level_interrupts:
  "gCpu s \<Longrightarrow> gSmmBase2 s = None \<Longrightarrow> t < TPL_HIGH_LEVEL \<Longrightarrow> interrupts (at_level t s)"
  by (simp add: at_level_def CoreSetInterruptState_def)

lemma at_level_cpu [simp]: "gCpu (at_level t s) = gCpu s" "gSmmBase2 (at_level t s) = gSmmBase2 s"
  by (simp_all add: at_level_def)

lemma event_inv_initial: "event_inv (initial_core c w)"
  by (simp add: event_inv_def pending_inv_def queue_inv_def signal_inv_def lock_levels_def initial_core_def
      zero_event_def EFI_INITIALIZE_LOCK_VARIABLE_def)

text \<open>
  (C21) Whatever the notification functions do, as long as each returns at the priority and with the locks
  it was called with: a CoreRestoreTpl that returns is at the requested priority, no event of a higher priority is left
  queued or marked pending, the locks are as before, processor interrupts are on again when the priority is
  below TPL_HIGH_LEVEL (outside SMM), and the event structures satisfy their invariant.
\<close>

theorem restore_tpl_leaves_nothing_above:
  assumes "well_behaved notify" and "event_inv s" and "event_lock_free s"
    and "CoreRestoreTpl n notify t s = Some s'"
  shows "gEfiCurrentTpl s' = t \<and> (\<forall>p. unat t < p \<longrightarrow> gEventQueue s' p = [] \<and> \<not> bit (gEventPending s') p)
    \<and> locks_kept s s' \<and> event_inv s' \<and> (gCpu s' \<and> gSmmBase2 s' = None \<and> t < TPL_HIGH_LEVEL \<longrightarrow> interrupts s')"
proof -
  have r: "event_inv s'" "gEfiCurrentTpl s' = t" "locks_kept s s'" "nothing_pending_above t s'"
    using CoreRestoreTpl_restores[OF assms(1), of n] assms(2-4) unfolding restores_def by blast+
  have "\<not> bit (gEventPending s') p" if "unat t < p" for p
    using r(4) that by (auto simp: nothing_pending_above_def)
  moreover from this r(1) have "gEventQueue s' p = []" if "unat t < p" for p
    using that by (auto simp: event_inv_def pending_inv_def)
  moreover have "interrupts s'" if "gCpu s'" "gSmmBase2 s' = None" "t < TPL_HIGH_LEVEL"
  proof -
    have "gEfiCurrentTpl s \<le> TPL_HIGH_LEVEL" using assms(2) by (simp add: event_inv_def)
    then obtain u where "s' = at_level t u"
      using assms(4) by (cases n) (auto simp: CoreRestoreTpl_eq CoreRestoreTpl.simps(1) split: if_splits)
    then show ?thesis using that by (simp add: at_level_interrupts)
  qed
  ultimately show ?thesis using r by blast
qed

text \<open>A core with two events queued at two priorities, and functions that log the event they are called for.\<close>

definition log_notify :: "EFI_EVENT list notify" where
  "log_notify f e c s = Some (s\<lparr>world := world s @ [e]\<rparr>)"

definition queued_event :: "EFI_TPL \<Rightarrow> IEVENT" where
  "queued_event p = zero_event\<lparr>Signature := EVENT_SIGNATURE, Type := EVT_NOTIFY_WAIT, NotifyTpl := p,
     NotifyFunction := Some (Driver_function 0), NotifyLink := True\<rparr>"

definition two_queued :: "EFI_EVENT list DXE" where
  "two_queued = (initial_core True [])\<lparr>gEfiCurrentTpl := TPL_HIGH_LEVEL,
     event := (\<lambda>_. zero_event)(0x1000 := queued_event TPL_CALLBACK, 0x2000 := queued_event TPL_NOTIFY),
     gEventQueue := (\<lambda>_. [])(8 := [0x1000], 16 := [0x2000]),
     gEventPending := tpl_bit TPL_CALLBACK OR tpl_bit TPL_NOTIFY\<rparr>"

lemma queued_event_fields [simp]:
  "Signature (queued_event p) = EVENT_SIGNATURE" "Type (queued_event p) = EVT_NOTIFY_WAIT" "NotifyTpl (queued_event p) = p"
  "NotifyFunction (queued_event p) = Some (Driver_function 0)" "NotifyLink (queued_event p)"
  "\<not> SignalLink (queued_event p)"
  by (simp_all add: queued_event_def zero_event_def)

lemma zero_event_fields [simp]: "Signature zero_event = 0" "Type zero_event = 0" "\<not> NotifyLink zero_event" "\<not> SignalLink zero_event"
  by (simp_all add: zero_event_def)

lemma two_queued_fields:
  "event two_queued e = (if e = 0x2000 then queued_event TPL_NOTIFY else if e = 0x1000 then queued_event TPL_CALLBACK else zero_event)"
  "gEventQueue two_queued p = (if p = 16 then [0x2000] else if p = 8 then [0x1000] else [])"
  "gEventPending two_queued = tpl_bit TPL_CALLBACK OR tpl_bit TPL_NOTIFY"
  "gEventSignalQueue two_queued = []" "gEfiCurrentTpl two_queued = TPL_HIGH_LEVEL" "locks two_queued = locks (initial_core True ())"
  "world two_queued = []"
  by (simp_all add: two_queued_def initial_core_def)

lemma two_queued_inv: "event_inv two_queued" "event_lock_free two_queued"
proof -
  have "pending_inv two_queued"
    unfolding pending_inv_def two_queued_fields by (simp add: bit_or_iff bit_tpl_bit)
  moreover have "queue_inv two_queued"
    by (rule queue_invI) (simp_all add: two_queued_fields split: if_splits)
  moreover have "signal_inv two_queued"
    unfolding signal_inv_def two_queued_fields event_ok_def by simp
  moreover have "lock_levels two_queued"
    by (simp add: lock_levels_def two_queued_fields initial_core_def EFI_INITIALIZE_LOCK_VARIABLE_def)
  ultimately show "event_inv two_queued" by (simp add: event_inv_def two_queued_fields)
qed (simp add: two_queued_fields initial_core_def EFI_INITIALIZE_LOCK_VARIABLE_def)

lemma log_notify_well_behaved: "well_behaved log_notify"
  unfolding well_behaved_def
proof (intro allI impI)
  fix f e c s s'
  assume inv: "event_inv s" and "log_notify f e c s = Some s'"
  then have s': "s' = s\<lparr>world := world s @ [e]\<rparr>" by (simp add: log_notify_def)
  have "gEfiCurrentTpl s \<le> TPL_HIGH_LEVEL" using inv by (simp add: event_inv_def)
  then have "event_inv s'" unfolding s' by (intro event_inv_cong[OF inv]) simp_all
  then show "event_inv s' \<and> gEfiCurrentTpl s' = gEfiCurrentTpl s \<and> locks_kept s s'"
    by (simp add: s' locks_kept_def)
qed

lemma log_notify_quiet: "quiet_on es (\<lambda>e l. l @ [e]) log_notify ev"
  by (simp add: quiet_on_def log_notify_def)

lemma two_queued_above: "queued_above TPL_APPLICATION two_queued = [0x2000, 0x1000]"
  by (simp add: queued_above_def queued_between_def two_queued_fields upt_rec)

text \<open>
  (C12) CoreRestoreTpl dispatches every queued event above the new priority exactly once, the highest
  priority first and each priority in the order of its queue, and then returns: for functions that only act on the
  rest of the system (\<open>run\<close>), 34 units of fuel more than there are events to notify give the result. The dispatched
  events are off their queues and no longer signalled if of the signal type; lower queues and everything else
  are untouched.
\<close>

theorem restore_tpl_dispatch_order:
  assumes "event_inv s" and "event_lock_free s" and "t \<le> gEfiCurrentTpl s"
    and "quiet_on (queued_above t s) run notify (event s)" and "33 + length (queued_above t s) < n"
  shows "\<exists>s'. CoreRestoreTpl n notify t s = Some s'
    \<and> world s' = fold run (queued_above t s) (world s) \<and> gEfiCurrentTpl s' = t
    \<and> event s' = notified_all (queued_above t s) (event s)
    \<and> (\<forall>p. gEventQueue s' p = (if unat t < p then [] else gEventQueue s p))
    \<and> (\<forall>k. bit (gEventPending s') k \<longleftrightarrow> bit (gEventPending s) k \<and> k \<le> unat t)
    \<and> locks_kept s s' \<and> other_fields s' = other_fields s"
  using restore_quiet[OF assms] by blast

theorem restore_tpl_dispatch_order_witness:
  "\<exists>s'. CoreRestoreTpl 36 log_notify TPL_APPLICATION two_queued = Some s' \<and> world s' = [0x2000, 0x1000]"
  using restore_tpl_dispatch_order[OF two_queued_inv(1,2), of TPL_APPLICATION "\<lambda>e l. l @ [e]" log_notify 36]
  by (auto simp: log_notify_quiet two_queued_above two_queued_fields)


text \<open>The fuel of the order theorem is enough for the concrete core, so the first theorem applies to its result.\<close>

theorem restore_tpl_leaves_nothing_above_witness:
  "\<exists>s'. CoreRestoreTpl 36 log_notify TPL_APPLICATION two_queued = Some s' \<and> gEfiCurrentTpl s' = TPL_APPLICATION
    \<and> gEventQueue s' 16 = [] \<and> gEventQueue s' 8 = []"
proof -
  obtain s' where run: "CoreRestoreTpl 36 log_notify TPL_APPLICATION two_queued = Some s'"
    using restore_quiet[OF two_queued_inv, of TPL_APPLICATION "\<lambda>e l. l @ [e]" log_notify 36]
    by (auto simp: log_notify_quiet two_queued_above two_queued_fields)
  then show ?thesis
    using restore_tpl_leaves_nothing_above[OF log_notify_well_behaved two_queued_inv run] by simp
qed

text \<open>
  A lock excludes: while it is held, the processor is at the lock's priority, a second
  CoreAcquireLock fails its ASSERT and CoreAcquireLockOrFail answers EFI_ACCESS_DENIED without changing
  anything. Releasing it returns to the priority it was acquired at with the event structures as they
  were, and a second release fails its ASSERT.
\<close>

theorem lock_excludes_and_releases:
  assumes inv: "event_inv s" and free: "Lock (locks s l) = EfiLockReleased" and below: "gEfiCurrentTpl s \<le> Tpl (locks s l)"
    and settled: "nothing_pending_above (gEfiCurrentTpl s) s"
  shows "\<exists>a r. CoreAcquireLock l s = Some a \<and> gEfiCurrentTpl a = Tpl (locks s l)
    \<and> CoreAcquireLock l a = None \<and> CoreAcquireLockOrFail l a = Some (EFI_ACCESS_DENIED, a)
    \<and> CoreReleaseLock (Suc (Suc n)) notify l a = Some r \<and> gEfiCurrentTpl r = gEfiCurrentTpl s \<and> locks_kept s r
    \<and> event r = event s \<and> gEventQueue r = gEventQueue s \<and> gEventPending r = gEventPending s
    \<and> other_fields r = other_fields s \<and> world r = world s \<and> CoreReleaseLock (Suc (Suc n)) notify l r = None"
proof -
  have acq: "CoreAcquireLock l s = Some (acquired l s)"
    using free below event_inv_level[OF inv] by (simp add: CoreAcquireLock_eq)
  have rel: "CoreReleaseLock (Suc (Suc n)) notify l (acquired l s) = Some (released l (acquired l s))"
    unfolding CoreReleaseLock_def using below settled event_inv_level[OF inv]
    by (intro release_settled) (simp_all add: nothing_pending_above_def)
  have "locks_kept s (released l (acquired l s))" using free by (simp add: locks_kept_def)
  with acq rel show ?thesis
    by (simp add: CoreAcquireLock_eq CoreAcquireLockOrFail_def CoreReleaseLock_def ReleaseLock_by_def ASSERT_def)
qed

theorem lock_excludes_and_releases_witness:
  "\<exists>a. CoreAcquireLock mEfiTimerLock (initial_core True ()) = Some a \<and> gEfiCurrentTpl a = 30 \<and> CoreAcquireLock mEfiTimerLock a = None"
  using lock_excludes_and_releases[OF event_inv_initial, of True "()" mEfiTimerLock 0 "\<lambda>f e c s. Some s"]
  by (auto simp: initial_core_def EFI_INITIALIZE_LOCK_VARIABLE_def nothing_pending_above_def)

end
