(* ===== verification/Dxe_Event.thy ===== *)
theory Dxe_Event
  imports Dxe_Tpl
begin

text \<open>
  The event services of MdeModulePkg/Core/Dxe/Event/Event.c that do not touch timers: queueing a notification,
  signalling an event or an event group, creating, checking and waiting for events. Every service takes the fuel of the lock
  releases it performs and the notification functions they may run (see theory Dxe_Tpl). NULL is the
  address 0; an optional GUID pointer is an \<open>option\<close>.
\<close>

unbundle bit_operations_syntax

section \<open>Queueing and signalling\<close>

definition CompareGuid :: "EFI_GUID \<Rightarrow> EFI_GUID \<Rightarrow> bool" where
  "CompareGuid Guid1 Guid2 \<longleftrightarrow> fst Guid1 = fst Guid2 \<and> snd Guid1 = snd Guid2"

text \<open>RemoveEntryList on an event's NotifyLink takes the event out of the queue that holds it.\<close>

definition remove_notify_link :: "EFI_EVENT \<Rightarrow> 'w DXE \<Rightarrow> 'w DXE" where
  "remove_notify_link e s = s\<lparr>gEventQueue := (\<lambda>p. remove1 e (gEventQueue s p))\<rparr>"

definition CoreNotifyEvent :: "EFI_EVENT \<Rightarrow> 'w DXE \<Rightarrow> 'w DXE option" where
  "CoreNotifyEvent e s =
     do {
       ASSERT_LOCKED gEventQueueLock s;
       let s = (if NotifyLink (event s e)
                then put_event e (NotifyLink_update (\<lambda>_. False)) (remove_notify_link e s) else s);
       let p = NotifyTpl (event s e);
       ASSERT (p \<le> TPL_HIGH_LEVEL);
       let s = s\<lparr>gEventQueue := (gEventQueue s)(unat p := gEventQueue s (unat p) @ [e])\<rparr>;
       let s = put_event e (NotifyLink_update (\<lambda>_. True)) s;
       Some (s\<lparr>gEventPending := gEventPending s OR tpl_bit p\<rparr>)
     }"

fun NotifySignalList_loop :: "EFI_GUID \<Rightarrow> EFI_EVENT list \<Rightarrow> 'w DXE \<Rightarrow> 'w DXE option" where
  "NotifySignalList_loop grp [] s = Some s"
| "NotifySignalList_loop grp (e # es) s =
     do {
       CR_event e s;
       s \<leftarrow> (if CompareGuid (EventGroup (event s e)) grp then CoreNotifyEvent e s else Some s);
       NotifySignalList_loop grp es s
     }"

definition CoreNotifySignalList :: "nat \<Rightarrow> 'w notify \<Rightarrow> EFI_GUID \<Rightarrow> 'w DXE \<Rightarrow> 'w DXE option" where
  "CoreNotifySignalList n notify grp s =
     do {
       s \<leftarrow> CoreAcquireEventLock s;
       s \<leftarrow> NotifySignalList_loop grp (gEventSignalQueue s) s;
       CoreReleaseEventLock n notify s
     }"

definition CoreSignalEvent :: "nat \<Rightarrow> 'w notify \<Rightarrow> EFI_EVENT \<Rightarrow> 'w DXE \<Rightarrow> (EFI_STATUS \<times> 'w DXE) option" where
  "CoreSignalEvent n notify e s =
     (if e = 0 then Some (EFI_INVALID_PARAMETER, s)
      else if Signature (event s e) \<noteq> EVENT_SIGNATURE then Some (EFI_INVALID_PARAMETER, s)
      else do {
        s \<leftarrow> CoreAcquireEventLock s;
        s \<leftarrow> (if SignalCount (event s e) = 0
              then
                let s = put_event e (SignalCount_update (\<lambda>c. c + 1)) s
                in if Type (event s e) AND EVT_NOTIFY_SIGNAL \<noteq> 0
                   then if ExFlag (event s e) AND EVT_EXFLAG_EVENT_GROUP \<noteq> 0
                     then do {
                       s \<leftarrow> CoreReleaseEventLock n notify s;
                       s \<leftarrow> CoreNotifySignalList n notify (EventGroup (event s e)) s;
                       CoreAcquireEventLock s
                     }
                     else CoreNotifyEvent e s
                   else Some s
              else Some s);
        s \<leftarrow> CoreReleaseEventLock n notify s;
        Some (EFI_SUCCESS, s)
      })"

section \<open>Creating events\<close>

definition mEventTable :: "UINT32 list" where
  "mEventTable =
     [EVT_TIMER OR EVT_NOTIFY_SIGNAL, EVT_TIMER, EVT_NOTIFY_WAIT, EVT_NOTIFY_SIGNAL,
      EVT_SIGNAL_EXIT_BOOT_SERVICES, EVT_SIGNAL_VIRTUAL_ADDRESS_CHANGE, 0, EVT_TIMER OR EVT_NOTIFY_WAIT]"

text \<open>The GUIDs of MdePkg.dec and MdeModulePkg.dec, as their low and high 64 bits.\<close>

abbreviation gEfiEventExitBootServicesGuid :: EFI_GUID where
  "gEfiEventExitBootServicesGuid \<equiv> (0x4c26b1b827abf055, 0xdfa2ba378f744880)"
abbreviation gEfiEventVirtualAddressChangeGuid :: EFI_GUID where
  "gEfiEventVirtualAddressChangeGuid \<equiv> (0x49c7c83113fa7698, 0x9651c2fc438fea87)"
abbreviation gIdleLoopEventGuid :: EFI_GUID where
  "gIdleLoopEventGuid \<equiv> (0x44515fc33c8d294c, 0x6c5e2932c0c431bb)"

text \<open>
  The parameter checks and conversions that precede the allocation: an error, or the type, group, priority,
  function and context the event gets.
\<close>

definition create_parameters ::
  "UINT32 \<Rightarrow> EFI_TPL \<Rightarrow> EFI_EVENT_NOTIFY option \<Rightarrow> PTR \<Rightarrow> EFI_GUID option \<Rightarrow> bool
   \<Rightarrow> (UINT32 \<times> EFI_GUID option \<times> EFI_TPL \<times> EFI_EVENT_NOTIFY option \<times> PTR) option" where
  "create_parameters ty ntpl nfn ctx grp Event_given =
     (if \<not> Event_given then None
      else if ty \<notin> set mEventTable then None
      else if grp \<noteq> None \<and> (ty = EVT_SIGNAL_EXIT_BOOT_SERVICES \<or> ty = EVT_SIGNAL_VIRTUAL_ADDRESS_CHANGE) then None
      else
        let (ty, grp) =
          (case grp of
             Some g \<Rightarrow>
               (if CompareGuid g gEfiEventExitBootServicesGuid then EVT_SIGNAL_EXIT_BOOT_SERVICES
                else if CompareGuid g gEfiEventVirtualAddressChangeGuid then EVT_SIGNAL_VIRTUAL_ADDRESS_CHANGE
                else ty, Some g)
           | None \<Rightarrow>
               (ty, if ty = EVT_SIGNAL_EXIT_BOOT_SERVICES then Some gEfiEventExitBootServicesGuid
                    else if ty = EVT_SIGNAL_VIRTUAL_ADDRESS_CHANGE then Some gEfiEventVirtualAddressChangeGuid
                    else None))
        in if ty AND (EVT_NOTIFY_WAIT OR EVT_NOTIFY_SIGNAL) \<noteq> 0
           then if nfn = None \<or> ntpl \<le> TPL_APPLICATION \<or> ntpl \<ge> TPL_HIGH_LEVEL then None
                else Some (ty, grp, ntpl, nfn, ctx)
           else Some (ty, grp, 0, None, 0))"

text \<open>
  \<open>Pool\<close> is the address AllocateZeroPool or AllocateRuntimeZeroPool answers in this call, 0 when
  there is no memory. The results are the status, what is stored through the Event pointer, and the state.
\<close>

definition CoreCreateEventInternal ::
  "nat \<Rightarrow> 'w notify \<Rightarrow> EFI_EVENT \<Rightarrow> UINT32 \<Rightarrow> EFI_TPL \<Rightarrow> EFI_EVENT_NOTIFY option \<Rightarrow> PTR \<Rightarrow> EFI_GUID option \<Rightarrow> bool
   \<Rightarrow> 'w DXE \<Rightarrow> (EFI_STATUS \<times> EFI_EVENT option \<times> 'w DXE) option" where
  "CoreCreateEventInternal n notify Pool ty ntpl nfn ctx grp Event_given s =
     (case create_parameters ty ntpl nfn ctx grp Event_given of
        None \<Rightarrow> Some (EFI_INVALID_PARAMETER, None, s)
      | Some (ty, grp, ntpl, nfn, ctx) \<Rightarrow>
        if Pool = 0 then Some (EFI_OUT_OF_RESOURCES, None, s)
        else do {
          let s = put_event Pool (\<lambda>_. zero_event\<lparr>Signature := EVENT_SIGNATURE, Type := ty, NotifyTpl := ntpl,
                    NotifyFunction := nfn, NotifyContext := ctx\<rparr>) s;
          let s = (case grp of
                     None \<Rightarrow> s
                   | Some g \<Rightarrow> put_event Pool
                       (\<lambda>ev. ev\<lparr>EventGroup := g, ExFlag := ExFlag ev OR EVT_EXFLAG_EVENT_GROUP\<rparr>) s);
          let s = (if ty AND EVT_RUNTIME \<noteq> 0
                   then put_event Pool
                      (RuntimeData_update (\<lambda>_. \<lparr>RtType = ty, RtNotifyTpl = ntpl, RtNotifyFunction = nfn,
                         RtNotifyContext = ctx, RtEvent = Pool, RtLink = True\<rparr>))
                      (s\<lparr>RuntimeEventHead := RuntimeEventHead s @ [Pool]\<rparr>)
                   else s);
          s \<leftarrow> CoreAcquireEventLock s;
          let s = (if ty AND EVT_NOTIFY_SIGNAL \<noteq> 0
                   then put_event Pool (SignalLink_update (\<lambda>_. True))
                      (s\<lparr>gEventSignalQueue := Pool # gEventSignalQueue s\<rparr>)
                   else s);
          s \<leftarrow> CoreReleaseEventLock n notify s;
          Some (EFI_SUCCESS, Some Pool, s)
        })"

definition CoreCreateEventEx ::
  "nat \<Rightarrow> 'w notify \<Rightarrow> EFI_EVENT \<Rightarrow> UINT32 \<Rightarrow> EFI_TPL \<Rightarrow> EFI_EVENT_NOTIFY option \<Rightarrow> PTR \<Rightarrow> EFI_GUID option \<Rightarrow> bool
   \<Rightarrow> 'w DXE \<Rightarrow> (EFI_STATUS \<times> EFI_EVENT option \<times> 'w DXE) option" where
  "CoreCreateEventEx n notify Pool ty ntpl nfn ctx grp Event_given s =
     (if ty AND (EVT_NOTIFY_WAIT OR EVT_NOTIFY_SIGNAL) \<noteq> 0 \<and>
         ntpl \<noteq> TPL_APPLICATION \<and> ntpl \<noteq> TPL_CALLBACK \<and> ntpl \<noteq> TPL_NOTIFY
      then Some (EFI_INVALID_PARAMETER, None, s)
      else CoreCreateEventInternal n notify Pool ty ntpl nfn ctx grp Event_given s)"

definition CoreCreateEvent ::
  "nat \<Rightarrow> 'w notify \<Rightarrow> EFI_EVENT \<Rightarrow> UINT32 \<Rightarrow> EFI_TPL \<Rightarrow> EFI_EVENT_NOTIFY option \<Rightarrow> PTR \<Rightarrow> bool
   \<Rightarrow> 'w DXE \<Rightarrow> (EFI_STATUS \<times> EFI_EVENT option \<times> 'w DXE) option" where
  "CoreCreateEvent n notify Pool ty ntpl nfn ctx Event_given s =
     CoreCreateEventEx n notify Pool ty ntpl nfn ctx None Event_given s"

section \<open>Checking and waiting\<close>

definition CoreCheckEvent :: "nat \<Rightarrow> 'w notify \<Rightarrow> EFI_EVENT \<Rightarrow> 'w DXE \<Rightarrow> (EFI_STATUS \<times> 'w DXE) option" where
  "CoreCheckEvent n notify e s =
     (if e = 0 then Some (EFI_INVALID_PARAMETER, s)
      else if Signature (event s e) \<noteq> EVENT_SIGNATURE then Some (EFI_INVALID_PARAMETER, s)
      else if Type (event s e) AND EVT_NOTIFY_SIGNAL \<noteq> 0 then Some (EFI_INVALID_PARAMETER, s)
      else do {
        s \<leftarrow> (if SignalCount (event s e) = 0 \<and> Type (event s e) AND EVT_NOTIFY_WAIT \<noteq> 0
              then do {
                s \<leftarrow> CoreAcquireEventLock s;
                s \<leftarrow> (if SignalCount (event s e) = 0 then CoreNotifyEvent e s else Some s);
                CoreReleaseEventLock n notify s
              }
              else Some s);
        if SignalCount (event s e) \<noteq> 0
        then do {
          s \<leftarrow> CoreAcquireEventLock s;
          let (Status, s) = (if SignalCount (event s e) \<noteq> 0
                             then (EFI_SUCCESS, put_event e (SignalCount_update (\<lambda>_. 0)) s)
                             else (EFI_NOT_READY, s));
          s \<leftarrow> CoreReleaseEventLock n notify s;
          Some (Status, s)
        }
        else Some (EFI_NOT_READY, s)
      })"

text \<open>One pass of WaitForEvent over the events, from the given index.\<close>

fun WaitForEvent_pass ::
  "nat \<Rightarrow> 'w notify \<Rightarrow> EFI_EVENT list \<Rightarrow> nat \<Rightarrow> 'w DXE \<Rightarrow> ((EFI_STATUS \<times> nat) option \<times> 'w DXE) option" where
  "WaitForEvent_pass n notify [] Index s = Some (None, s)"
| "WaitForEvent_pass n notify (e # es) Index s =
     do {
       (Status, s) \<leftarrow> CoreCheckEvent n notify e s;
       if Status \<noteq> EFI_NOT_READY then Some (Some (Status, Index), s)
       else WaitForEvent_pass n notify es (Suc Index) s
     }"

primrec WaitForEvent_loop ::
  "nat \<Rightarrow> nat \<Rightarrow> 'w notify \<Rightarrow> EFI_EVENT list \<Rightarrow> 'w DXE \<Rightarrow> (EFI_STATUS \<times> nat option \<times> 'w DXE) option" where
  "WaitForEvent_loop 0 n notify es s = None"
| "WaitForEvent_loop (Suc k) n notify es s =
     do {
       (found, s) \<leftarrow> WaitForEvent_pass n notify es 0 s;
       case found of
         Some (Status, Index) \<Rightarrow> Some (Status, Some Index, s)
       | None \<Rightarrow> do {
           (_, s) \<leftarrow> CoreSignalEvent n notify (gIdleLoopEvent s) s;
           WaitForEvent_loop k n notify es s
         }
     }"

text \<open>
  \<open>k\<close> bounds the passes. UserEvents is NULL or an array of NumberOfEvents elements; the second result is
  the index that is stored through UserIndex when that is not NULL.
\<close>

definition CoreWaitForEvent ::
  "nat \<Rightarrow> nat \<Rightarrow> 'w notify \<Rightarrow> EFI_EVENT list option \<Rightarrow> 'w DXE \<Rightarrow> (EFI_STATUS \<times> nat option \<times> 'w DXE) option" where
  "CoreWaitForEvent k n notify UserEvents s =
     (if gEfiCurrentTpl s \<noteq> TPL_APPLICATION then Some (EFI_UNSUPPORTED, None, s)
      else case UserEvents of
        None \<Rightarrow> Some (EFI_INVALID_PARAMETER, None, s)
      | Some es \<Rightarrow>
        if es = [] then Some (EFI_INVALID_PARAMETER, None, s)
        else WaitForEvent_loop k n notify es s)"

section \<open>Queueing a notification\<close>

text \<open>An event moved to the tail of the queue of its priority.\<close>

definition queued :: "EFI_EVENT \<Rightarrow> 'w DXE \<Rightarrow> 'w DXE" where
  "queued e s =
     put_event e (NotifyLink_update (\<lambda>_. True))
       (s\<lparr>gEventQueue := (let p = unat (NotifyTpl (event s e)) in (gEventQueue s)(p := remove1 e (gEventQueue s p) @ [e])),
          gEventPending := gEventPending s OR tpl_bit (NotifyTpl (event s e))\<rparr>)"

lemma queued_fields [simp]:
  "gEfiCurrentTpl (queued e s) = gEfiCurrentTpl s"
  "locks (queued e s) = locks s"
  "event (queued e s) = (event s)(e := (event s e)\<lparr>NotifyLink := True\<rparr>)"
  "gEventPending (queued e s) = gEventPending s OR tpl_bit (NotifyTpl (event s e))"
  "gEventQueue (queued e s) = (let p = unat (NotifyTpl (event s e)) in (gEventQueue s)(p := remove1 e (gEventQueue s p) @ [e]))"
  "world (queued e s) = world s" "other_fields (queued e s) = other_fields s"
  "gEventSignalQueue (queued e s) = gEventSignalQueue s"
  by (simp_all add: queued_def)

lemma not_queued_elsewhere:
  assumes "queue_inv s" "e \<in> set (gEventQueue s p)"
  shows "p = unat (NotifyTpl (event s e))"
  using queue_inv_facts(3)[OF assms] by simp

lemma CoreNotifyEvent_eq:
  assumes qi: "queue_inv s" and lk: "Lock (locks s gEventQueueLock) = EfiLockAcquired"
    and e: "live s e" "NotifyTpl (event s e) \<le> TPL_HIGH_LEVEL"
  shows "CoreNotifyEvent e s = Some (queued e s)"
proof (cases "NotifyLink (event s e)")
  case True
  have "remove1 e (gEventQueue s p) = gEventQueue s p" if "p \<noteq> unat (NotifyTpl (event s e))" for p
    using not_queued_elsewhere[OF qi, of e p] that by (intro remove1_idem) blast
  then have "(\<lambda>p. remove1 e (gEventQueue s p)) =
      (gEventQueue s)(unat (NotifyTpl (event s e)) := remove1 e (gEventQueue s (unat (NotifyTpl (event s e)))))"
    by (auto simp: fun_eq_iff)
  with True show ?thesis using lk e(2)
    by (simp add: CoreNotifyEvent_def ASSERT_LOCKED_def remove_notify_link_def queued_def put_event_def Let_def)
next
  case False
  then have "e \<notin> set (gEventQueue s p)" for p using queue_inv_facts(5)[OF qi] by blast
  with False show ?thesis using lk e(2)
    by (simp add: CoreNotifyEvent_def ASSERT_LOCKED_def queued_def put_event_def Let_def remove1_idem)
qed

definition notifiable :: "'w DXE \<Rightarrow> EFI_EVENT \<Rightarrow> bool" where
  "notifiable s e \<longleftrightarrow> live s e \<and> NotifyFunction (event s e) \<noteq> None \<and>
     TPL_APPLICATION < NotifyTpl (event s e) \<and> NotifyTpl (event s e) < TPL_HIGH_LEVEL"

lemma event_inv_queued:
  assumes inv: "event_inv s" and e: "notifiable s e"
  shows "event_inv (queued e s)"
proof -
  let ?p = "unat (NotifyTpl (event s e))"
  have qi: "queue_inv s" and pi: "pending_inv s" using inv by (simp_all add: event_inv_def)
  have lev: "4 < ?p" "?p < 31" "NotifyTpl (event s e) < 31"
    using e by (simp_all add: notifiable_def word_less_nat_alt)
  have "pending_inv (queued e s)"
    using pi lev by (auto simp: pending_inv_def Let_def bit_or_iff bit_tpl_bit)
  moreover have "queue_inv (queued e s)"
  proof (rule queue_invI)
    show "distinct (gEventQueue (queued e s) p)" for p
      using queue_inv_facts(1)[OF qi, of p] by (auto simp: Let_def distinct_remove1)
    show "live (queued e s) x \<and> unat (NotifyTpl (event (queued e s) x)) = p \<and>
        NotifyFunction (event (queued e s) x) \<noteq> None \<and> NotifyLink (event (queued e s) x)"
      if "x \<in> set (gEventQueue (queued e s) p)" for p x
    proof (cases "x = e")
      case True
      then have "p = ?p" using that not_queued_elsewhere[OF qi, of e p] by (auto simp: Let_def split: if_splits)
      with True e show ?thesis by (simp add: notifiable_def)
    next
      case False
      then have "x \<in> set (gEventQueue s p)" using that by (auto simp: Let_def dest: notin_set_remove1 split: if_splits)
      with False show ?thesis using queue_inv_facts(2-5)[OF qi, of x p] by simp
    qed
    show "x \<in> set (gEventQueue (queued e s) (unat (NotifyTpl (event (queued e s) x))))"
      if "live (queued e s) x" "NotifyLink (event (queued e s) x)" for x
      using that queue_inv_facts(6)[OF qi, of x] by (cases "x = e") (auto simp: Let_def in_set_remove1)
  qed
  moreover have "signal_inv (queued e s)"
    using inv unfolding event_inv_def signal_inv_def event_ok_def by auto
  ultimately show ?thesis using inv by (simp add: event_inv_def lock_levels_def)
qed

lemma signal_type_notifiable:
  assumes "event_inv s" "live s e" "Type (event s e) AND (EVT_NOTIFY_WAIT OR EVT_NOTIFY_SIGNAL) \<noteq> 0"
  shows "notifiable s e"
  using assms unfolding event_inv_def signal_inv_def event_ok_def notifiable_def by blast

lemma notify_types:
  fixes ty :: UINT32
  shows "ty AND EVT_NOTIFY_SIGNAL \<noteq> 0 \<Longrightarrow> ty AND (EVT_NOTIFY_WAIT OR EVT_NOTIFY_SIGNAL) \<noteq> 0"
    and "ty AND EVT_NOTIFY_WAIT \<noteq> 0 \<Longrightarrow> ty AND (EVT_NOTIFY_WAIT OR EVT_NOTIFY_SIGNAL) \<noteq> 0"
  by (metis bit.conj_disj_distrib or_eq_0_iff)+

lemma notifiable_queued [simp]: "notifiable (queued x s) e = notifiable s e"
  by (simp add: notifiable_def)

lemma fold_queued_fields [simp]:
  "gEfiCurrentTpl (fold queued es s) = gEfiCurrentTpl s" "locks (fold queued es s) = locks s"
  "world (fold queued es s) = world s" "other_fields (fold queued es s) = other_fields s"
  "gEventSignalQueue (fold queued es s) = gEventSignalQueue s"
  "Signature (event (fold queued es s) e) = Signature (event s e)" "Type (event (fold queued es s) e) = Type (event s e)"
  "SignalCount (event (fold queued es s) e) = SignalCount (event s e)" "ExFlag (event (fold queued es s) e) = ExFlag (event s e)"
  "NotifyTpl (event (fold queued es s) e) = NotifyTpl (event s e)" "Timer (event (fold queued es s) e) = Timer (event s e)"
  "EventGroup (event (fold queued es s) e) = EventGroup (event s e)" "NotifyFunction (event (fold queued es s) e) = NotifyFunction (event s e)"
  "NotifyContext (event (fold queued es s) e) = NotifyContext (event s e)"
  by (induction es arbitrary: s) simp_all

lemma event_inv_fold_queued:
  "event_inv s \<Longrightarrow> \<forall>e\<in>set es. notifiable s e \<Longrightarrow> event_inv (fold queued es s)"
  by (induction es arbitrary: s) (simp_all add: event_inv_queued)

lemma signal_list_loop:
  assumes "event_inv s" "Lock (locks s gEventQueueLock) = EfiLockAcquired" "\<forall>e\<in>set es. notifiable s e"
  shows "NotifySignalList_loop grp es s = Some (fold queued (filter (\<lambda>e. EventGroup (event s e) = grp) es) s)"
  using assms
proof (induction es arbitrary: s)
  case (Cons e es)
  have "CoreNotifyEvent e s = Some (queued e s)"
    using Cons.prems by (intro CoreNotifyEvent_eq) (auto simp: event_inv_def notifiable_def)
  moreover have "CR_event e s = Some ()" using Cons.prems(3) by (simp add: CR_event_def notifiable_def)
  moreover have "filter (\<lambda>x. EventGroup (event (queued e s) x) = grp) es = filter (\<lambda>x. EventGroup (event s x) = grp) es"
    by (rule filter_cong) simp_all
  ultimately show ?case using Cons.IH[of s] Cons.IH[of "queued e s"] Cons.prems event_inv_queued[of s e]
    by (simp add: CompareGuid_def prod_eq_iff)
qed simp

section \<open>Signalling\<close>

text \<open>
  What signalling does before anything is dispatched: the events it queues, and the state after that.
\<close>

definition signal_list :: "EFI_EVENT \<Rightarrow> 'w DXE \<Rightarrow> EFI_EVENT list" where
  "signal_list e s =
     (if SignalCount (event s e) \<noteq> 0 \<or> Type (event s e) AND EVT_NOTIFY_SIGNAL = 0 then []
      else if ExFlag (event s e) AND EVT_EXFLAG_EVENT_GROUP \<noteq> 0
      then filter (\<lambda>x. EventGroup (event s x) = EventGroup (event s e)) (gEventSignalQueue s)
      else [e])"

definition signal_effect :: "EFI_EVENT \<Rightarrow> 'w DXE \<Rightarrow> 'w DXE" where
  "signal_effect e s =
     fold queued (signal_list e s) (if SignalCount (event s e) = 0 then put_event e (SignalCount_update (\<lambda>_. 1)) s else s)"

definition settled :: "'w DXE \<Rightarrow> bool" where
  "settled s \<longleftrightarrow> event_inv s \<and> event_lock_free s \<and> nothing_pending_above (gEfiCurrentTpl s) s"

text \<open>The state after the events above the current priority have been notified.\<close>

definition dispatched :: "(EFI_EVENT \<Rightarrow> 'w \<Rightarrow> 'w) \<Rightarrow> 'w DXE \<Rightarrow> 'w DXE \<Rightarrow> bool" where
  "dispatched run s s' \<longleftrightarrow>
     (let es = queued_above (gEfiCurrentTpl s) s
      in world s' = fold run es (world s) \<and> event s' = notified_all es (event s)
       \<and> (\<forall>p. gEventQueue s' p = (if unat (gEfiCurrentTpl s) < p then [] else gEventQueue s p))
       \<and> (\<forall>k. bit (gEventPending s') k \<longleftrightarrow> bit (gEventPending s) k \<and> k \<le> unat (gEfiCurrentTpl s))
       \<and> other_fields s' = other_fields s \<and> gEfiCurrentTpl s' = gEfiCurrentTpl s)"

lemma queued_above_cong: "gEventQueue s = gEventQueue t \<Longrightarrow> queued_above p s = queued_above p t"
  by (simp add: queued_above_def queued_between_def)

lemma settled_level: "settled s \<Longrightarrow> gEfiCurrentTpl s \<le> TPL_HIGH_LEVEL"
  by (simp add: settled_def event_inv_def)

lemma event_lock_level: "event_inv s \<Longrightarrow> Tpl (locks s gEventQueueLock) = TPL_HIGH_LEVEL"
  by (simp add: event_inv_def lock_levels_def)

lemma acquire_event_lock:
  assumes "event_inv s" "event_lock_free s"
  shows "CoreAcquireEventLock s = Some (acquired gEventQueueLock s)"
  using assms event_lock_level[OF assms(1)]
  by (simp add: CoreAcquireEventLock_def CoreAcquireLock_eq event_inv_def)

text \<open>
  Releasing the event lock after the structures were changed under it: a critical section that turned \<open>s\<close>
  into \<open>u\<close>.
\<close>

lemma critical_section_release:
  assumes inv: "event_inv u" and lk: "Lock (locks u gEventQueueLock) = EfiLockAcquired"
    and own: "OwnerTpl (locks u gEventQueueLock) = t" "t \<le> gEfiCurrentTpl u"
    and quiet: "quiet_on (queued_above t u) run notify (event u)" and fuel: "33 + length (queued_above t u) < n"
  shows "\<exists>s'. CoreReleaseEventLock n notify u = Some s' \<and> dispatched run (u\<lparr>gEfiCurrentTpl := t\<rparr>) s' \<and> settled s'
    \<and> locks_kept (u\<lparr>locks := (locks u)(gEventQueueLock := (locks u gEventQueueLock)\<lparr>Lock := EfiLockReleased\<rparr>)\<rparr>) s'"
proof -
  let ?r = "u\<lparr>locks := (locks u)(gEventQueueLock := (locks u gEventQueueLock)\<lparr>Lock := EfiLockReleased\<rparr>)\<rparr>"
  have inv_r: "event_inv ?r" by (rule event_inv_cong[OF inv]) (use inv in \<open>auto simp: event_inv_def\<close>)
  have q: "queued_above t ?r = queued_above t u" by (rule queued_above_cong) simp
  have "quiet_on (queued_above t ?r) run notify (event ?r)" "33 + length (queued_above t ?r) < n"
    "event_lock_free ?r" "t \<le> gEfiCurrentTpl ?r"
    using quiet fuel own(2) unfolding q by simp_all
  note restored = restore_quiet[OF inv_r this(3,4,1,2), unfolded q]
  then obtain s' where s': "CoreRestoreTpl n notify t ?r = Some s'"
    "world s' = fold run (queued_above t u) (world u)" "gEfiCurrentTpl s' = t"
    "event s' = notified_all (queued_above t u) (event u)"
    "\<forall>p. gEventQueue s' p = (if unat t < p then [] else gEventQueue u p)"
    "\<forall>k. bit (gEventPending s') k \<longleftrightarrow> bit (gEventPending u) k \<and> k \<le> unat t"
    "locks_kept ?r s'" "other_fields s' = other_fields u" "event_inv s'"
    by (elim exE conjE) (rule that, simp_all)
  have q': "queued_above t (u\<lparr>gEfiCurrentTpl := t\<rparr>) = queued_above t u" by (rule queued_above_cong) simp
  have "settled s'" unfolding settled_def nothing_pending_above_def using s'(3,6,7,9) by (simp add: locks_kept_def)
  moreover have "CoreReleaseEventLock n notify u = Some s'"
    using s'(1) lk own by (simp add: CoreReleaseEventLock_def CoreReleaseLock_def ReleaseLock_by_def)
  moreover have "dispatched run (u\<lparr>gEfiCurrentTpl := t\<rparr>) s'"
    using s' by (simp add: dispatched_def q' Let_def)
  ultimately show ?thesis using s'(7) by blast
qed


definition view where
  "view s = (gEfiCurrentTpl s, gEventQueue s, gEventPending s, event s, world s, other_fields s)"

lemma view_eqD:
  assumes "view s' = view s"
  shows "gEfiCurrentTpl s' = gEfiCurrentTpl s" "gEventQueue s' = gEventQueue s" "gEventPending s' = gEventPending s"
    "event s' = event s" "world s' = world s" "other_fields s' = other_fields s"
  using assms by (simp_all add: view_def)

lemma dispatched_cong:
  assumes "view s = view t"
  shows "dispatched run s s' = dispatched run t s'"
  using view_eqD[OF assms] queued_above_cong[of s t] by (simp add: dispatched_def)

lemma settled_cong:
  assumes "settled s" "view t = view s" "locks_kept s t"
  shows "settled t"
proof -
  have v: "gEventPending t = gEventPending s" "gEventQueue t = gEventQueue s" "event t = event s" "gEfiCurrentTpl t = gEfiCurrentTpl s"
    "gEventSignalQueue t = gEventSignalQueue s"
    using view_eqD[OF assms(2)] by (simp_all add: other_fields_def)
  have "event_inv t"
    by (rule event_inv_cong[of s]) (use assms v in \<open>auto simp: settled_def event_inv_def locks_kept_def\<close>)
  then show ?thesis using assms v by (simp add: settled_def nothing_pending_above_def locks_kept_def)
qed

lemma settled_queues: "event_inv s \<Longrightarrow> nothing_pending_above t s \<Longrightarrow> unat t < p \<Longrightarrow> gEventQueue s p = []"
  by (force simp: event_inv_def pending_inv_def nothing_pending_above_def)

lemma settled_nothing_queued: "event_inv s \<Longrightarrow> nothing_pending_above t s \<Longrightarrow> queued_above t s = []"
  by (auto simp: queued_above_def queued_between_def settled_queues)

lemma notified_all_Nil [simp]: "notified_all [] ev = ev"
  by (simp add: notified_all_def)

lemma dispatched_settled:
  assumes "event_inv s" "nothing_pending_above (gEfiCurrentTpl s) s" "dispatched run s s'"
  shows "view s' = view s"
proof -
  have d: "world s' = world s" "event s' = event s" "other_fields s' = other_fields s" "gEfiCurrentTpl s' = gEfiCurrentTpl s"
    "\<forall>p. gEventQueue s' p = (if unat (gEfiCurrentTpl s) < p then [] else gEventQueue s p)"
    "\<forall>k. bit (gEventPending s') k \<longleftrightarrow> bit (gEventPending s) k \<and> k \<le> unat (gEfiCurrentTpl s)"
    using assms(3) by (simp_all add: dispatched_def settled_nothing_queued[OF assms(1,2)])
  have "gEventQueue s' = gEventQueue s" using d(5) settled_queues[OF assms(1,2)] by (auto simp: fun_eq_iff)
  moreover have "gEventPending s' = gEventPending s"
    using d(6) assms(2) by (auto simp: bit_eq_iff nothing_pending_above_def)
  ultimately show ?thesis using d by (simp add: view_def)
qed

text \<open>A critical section of the event lock, from acquiring it in a settled state to releasing it.\<close>

lemma critical_section:
  assumes s: "settled s" and u: "event_inv u" "locks u = locks (acquired gEventQueueLock s)" "gEfiCurrentTpl u = TPL_HIGH_LEVEL"
    and quiet: "quiet_on (queued_above (gEfiCurrentTpl s) u) run notify (event u)"
    and fuel: "33 + length (queued_above (gEfiCurrentTpl s) u) < n"
  shows "\<exists>s'. CoreReleaseEventLock n notify u = Some s' \<and> dispatched run (u\<lparr>gEfiCurrentTpl := gEfiCurrentTpl s\<rparr>) s'
    \<and> settled s' \<and> locks_kept s s'"
proof -
  have "Lock (locks u gEventQueueLock) = EfiLockAcquired" "OwnerTpl (locks u gEventQueueLock) = gEfiCurrentTpl s"
    "gEfiCurrentTpl s \<le> gEfiCurrentTpl u"
    using u settled_level[OF s] by simp_all
  then obtain s' where s': "CoreReleaseEventLock n notify u = Some s'" "dispatched run (u\<lparr>gEfiCurrentTpl := gEfiCurrentTpl s\<rparr>) s'"
    "settled s'" "locks_kept (u\<lparr>locks := (locks u)(gEventQueueLock := (locks u gEventQueueLock)\<lparr>Lock := EfiLockReleased\<rparr>)\<rparr>) s'"
    using critical_section_release[OF u(1) _ _ _ quiet fuel] by blast
  have "locks_kept s s'" using s'(4) s u(2) by (simp add: locks_kept_def settled_def)
  with s' show ?thesis by blast
qed

text \<open>Acquiring and releasing the event lock without a change in between.\<close>

lemma idle_section:
  assumes s: "settled s" and u: "event_inv u" "locks u = locks (acquired gEventQueueLock s)" "gEfiCurrentTpl u = TPL_HIGH_LEVEL"
    and same: "gEventPending u = gEventPending s" and n: "33 < n"
  shows "\<exists>s'. CoreReleaseEventLock n notify u = Some s' \<and> view s' = view (u\<lparr>gEfiCurrentTpl := gEfiCurrentTpl s\<rparr>)
    \<and> settled s' \<and> locks_kept s s'"
proof -
  have np: "nothing_pending_above (gEfiCurrentTpl s) u"
    using s same by (simp add: settled_def nothing_pending_above_def)
  have q: "queued_above (gEfiCurrentTpl s) u = []" by (rule settled_nothing_queued[OF u(1) np])
  obtain s' where s': "CoreReleaseEventLock n notify u = Some s'" "dispatched (\<lambda>_ w. w) (u\<lparr>gEfiCurrentTpl := gEfiCurrentTpl s\<rparr>) s'"
    "settled s'" "locks_kept s s'"
    using critical_section[OF s u, of "\<lambda>_ w. w" notify n] q n by (auto simp: quiet_on_def)
  have "event_inv (u\<lparr>gEfiCurrentTpl := gEfiCurrentTpl s\<rparr>)"
    by (rule event_inv_cong[OF u(1)]) (use settled_level[OF s] in auto)
  then have "view s' = view (u\<lparr>gEfiCurrentTpl := gEfiCurrentTpl s\<rparr>)"
    by (rule dispatched_settled[OF _ _ s'(2)]) (use np in \<open>simp add: nothing_pending_above_def\<close>)
  with s' show ?thesis by blast
qed

lemma fold_queued_cong:
  assumes "event x = event y" "gEventQueue x = gEventQueue y" "gEventPending x = gEventPending y"
  shows "event (fold queued es x) = event (fold queued es y) \<and> gEventQueue (fold queued es x) = gEventQueue (fold queued es y)
    \<and> gEventPending (fold queued es x) = gEventPending (fold queued es y)"
  using assms by (induction es arbitrary: x y) simp_all

definition counted :: "EFI_EVENT \<Rightarrow> 'w DXE \<Rightarrow> 'w DXE" where
  "counted e s = put_event e (SignalCount_update (\<lambda>c. c + 1)) s"

lemma SignalCount_incr: "SignalCount_update (\<lambda>c. c + 1) ev = ev\<lparr>SignalCount := SignalCount ev + 1\<rparr>"
  by (cases ev) simp

lemma counted_fields [simp]:
  "gEfiCurrentTpl (counted e s) = gEfiCurrentTpl s" "locks (counted e s) = locks s"
  "gEventQueue (counted e s) = gEventQueue s" "gEventPending (counted e s) = gEventPending s"
  "gEventSignalQueue (counted e s) = gEventSignalQueue s" "world (counted e s) = world s"
  "other_fields (counted e s) = other_fields s"
  "event (counted e s) = (event s)(e := (event s e)\<lparr>SignalCount := SignalCount (event s e) + 1\<rparr>)"
  by (simp_all add: counted_def SignalCount_incr)

lemma event_inv_counted: "event_inv s \<Longrightarrow> event_inv (counted e s)"
  unfolding counted_def by (rule event_inv_SignalCount)

lemma notifiable_cong:
  assumes "\<And>x. Signature (event s x) = Signature (event t x)" "\<And>x. NotifyFunction (event s x) = NotifyFunction (event t x)"
    "\<And>x. NotifyTpl (event s x) = NotifyTpl (event t x)"
  shows "notifiable s e = notifiable t e"
  using assms by (simp add: notifiable_def)

lemma signal_effect_eq:
  "signal_effect e s = (if SignalCount (event s e) = 0 then fold queued (signal_list e s) (counted e s) else s)"
proof -
  have "counted e s = put_event e (SignalCount_update (\<lambda>_. 1)) s" if "SignalCount (event s e) = 0"
    using that by (simp add: counted_def put_event_def SignalCount_incr)
  then show ?thesis by (auto simp: signal_effect_def signal_list_def)
qed

lemma signal_list_notifiable:
  assumes inv: "event_inv s" and e: "live s e" and x: "x \<in> set (signal_list e s)"
  shows "notifiable s x"
proof -
  have "x = e \<and> Type (event s e) AND EVT_NOTIFY_SIGNAL \<noteq> 0 \<or> x \<in> set (gEventSignalQueue s)"
    using x by (auto simp: signal_list_def split: if_splits)
  then have "live s x \<and> Type (event s x) AND EVT_NOTIFY_SIGNAL \<noteq> 0"
    using inv e by (auto simp: event_inv_def signal_inv_def)
  then show ?thesis using signal_type_notifiable[OF inv] notify_types(1) by blast
qed

lemma event_inv_signal_effect:
  assumes "event_inv s" "live s e"
  shows "event_inv (signal_effect e s)"
proof -
  have "notifiable (counted e s) x = notifiable s x" for x by (rule notifiable_cong) simp_all
  then show ?thesis unfolding signal_effect_eq
    using assms signal_list_notifiable[OF assms] by (simp add: event_inv_fold_queued event_inv_counted)
qed

lemma signal_effect_fields [simp]:
  "gEfiCurrentTpl (signal_effect e s) = gEfiCurrentTpl s" "locks (signal_effect e s) = locks s"
  "world (signal_effect e s) = world s" "other_fields (signal_effect e s) = other_fields s"
  "gEventSignalQueue (signal_effect e s) = gEventSignalQueue s"
  "NotifyFunction (event (signal_effect e s) x) = NotifyFunction (event s x)"
  "NotifyContext (event (signal_effect e s) x) = NotifyContext (event s x)"
  "NotifyTpl (event (signal_effect e s) x) = NotifyTpl (event s x)"
  "Signature (event (signal_effect e s) x) = Signature (event s x)"
  "Type (event (signal_effect e s) x) = Type (event s x)"
  "Timer (event (signal_effect e s) x) = Timer (event s x)"
  by (simp_all add: signal_effect_eq)

lemma quiet_on_cong:
  assumes "\<And>x. NotifyFunction (ev x) = NotifyFunction (ev' x)" "\<And>x. NotifyContext (ev x) = NotifyContext (ev' x)"
  shows "quiet_on es run notify ev = quiet_on es run notify ev'"
  using assms by (simp add: quiet_on_def)

text \<open>Under the event lock, signalling an ungrouped event turns the state into its signal effect.\<close>

lemma signal_effect_view:
  assumes "event t = event s" "gEventQueue t = gEventQueue s" "gEventPending t = gEventPending s" "world t = world s"
    "other_fields t = other_fields s"
  shows "view ((fold queued es (counted e t))\<lparr>gEfiCurrentTpl := c\<rparr>) = view ((fold queued es (counted e s))\<lparr>gEfiCurrentTpl := c\<rparr>)"
proof -
  have "event (counted e t) = event (counted e s)" "gEventQueue (counted e t) = gEventQueue (counted e s)"
    "gEventPending (counted e t) = gEventPending (counted e s)" using assms by simp_all
  from fold_queued_cong[OF this, of es] assms show ?thesis by (simp add: view_def)
qed

lemma signal_ungrouped:
  assumes s: "settled s" and e: "live s e" "e \<noteq> 0"
    and ty: "SignalCount (event s e) \<noteq> 0 \<or> Type (event s e) AND EVT_NOTIFY_SIGNAL = 0 \<or> ExFlag (event s e) AND EVT_EXFLAG_EVENT_GROUP = 0"
    and quiet: "quiet_on (queued_above (gEfiCurrentTpl s) (signal_effect e s)) run notify (event s)"
    and fuel: "33 + length (queued_above (gEfiCurrentTpl s) (signal_effect e s)) < n"
  shows "\<exists>s'. CoreSignalEvent n notify e s = Some (EFI_SUCCESS, s') \<and> dispatched run (signal_effect e s) s' \<and> settled s' \<and> locks_kept s s'"
proof -
  have inv: "event_inv s" "event_lock_free s" using s by (simp_all add: settled_def)
  let ?a = "acquired gEventQueueLock s"
  define u where "u = (if SignalCount (event s e) = 0 then fold queued (signal_list e s) (counted e ?a) else ?a)"
  have a: "event_inv ?a" by (rule event_inv_acquired[OF inv(1)])
  have nb: "notifiable (counted e ?a) x = notifiable s x" for x by (rule notifiable_cong) simp_all
  have uinv: "event_inv u"
    unfolding u_def using a signal_list_notifiable[OF inv(1) e(1)] nb
    by (simp add: event_inv_fold_queued event_inv_counted)
  have ulk: "locks u = locks ?a" "gEfiCurrentTpl u = TPL_HIGH_LEVEL" using event_lock_level[OF inv(1)] by (simp_all add: u_def)
  have uv: "view (u\<lparr>gEfiCurrentTpl := gEfiCurrentTpl s\<rparr>) = view (signal_effect e s)"
  proof (cases "SignalCount (event s e) = 0")
    case True
    then show ?thesis using signal_effect_view[of ?a s "gEfiCurrentTpl s" "signal_list e s" e]
      by (simp add: u_def signal_effect_eq view_def)
  qed (simp add: u_def signal_effect_eq view_def)
  have step: "CoreSignalEvent n notify e s = map_option (Pair EFI_SUCCESS) (CoreReleaseEventLock n notify u)"
  proof -
    have "CoreNotifyEvent e (counted e ?a) = Some (queued e (counted e ?a))" if "Type (event s e) AND EVT_NOTIFY_SIGNAL \<noteq> 0"
    proof (rule CoreNotifyEvent_eq)
      show "queue_inv (counted e ?a)" using event_inv_counted[OF a] by (simp add: event_inv_def)
      have "notifiable s e" using signal_type_notifiable[OF inv(1) e(1) notify_types(1)[OF that]] .
      then show "NotifyTpl (event (counted e ?a) e) \<le> TPL_HIGH_LEVEL" by (auto simp: notifiable_def)
    qed (use e in simp_all)
    then show ?thesis
      using e ty acquire_event_lock[OF inv]
      by (auto simp: CoreSignalEvent_def Let_def u_def signal_list_def map_option_case bind_split
          simp flip: counted_def split: option.split)
  qed
  have q: "queued_above (gEfiCurrentTpl s) u = queued_above (gEfiCurrentTpl s) (signal_effect e s)"
    using view_eqD(2)[OF uv] by (intro queued_above_cong) simp
  have "quiet_on (queued_above (gEfiCurrentTpl s) u) run notify (event u)"
    unfolding q by (subst quiet_on_cong[of _ "event s"]) (simp_all add: u_def quiet)
  from critical_section[OF s uinv ulk this, of n] fuel obtain s' where s': "CoreReleaseEventLock n notify u = Some s'"
    "dispatched run (u\<lparr>gEfiCurrentTpl := gEfiCurrentTpl s\<rparr>) s'" "settled s'" "locks_kept s s'" by (auto simp: q)
  then show ?thesis using step dispatched_cong[OF uv] by auto
qed


lemma signal_list_loop_locked:
  assumes inv: "event_inv s"
  shows "NotifySignalList_loop grp (gEventSignalQueue s) (acquired gEventQueueLock s) =
    Some (fold queued (filter (\<lambda>x. EventGroup (event s x) = grp) (gEventSignalQueue s)) (acquired gEventQueueLock s))"
proof -
  have "notifiable (acquired gEventQueueLock s) x = notifiable s x" for x by (rule notifiable_cong) simp_all
  moreover have "notifiable s x" if "x \<in> set (gEventSignalQueue s)" for x
  proof -
    have "live s x" "Type (event s x) AND EVT_NOTIFY_SIGNAL \<noteq> 0"
      using inv that by (auto simp: event_inv_def signal_inv_def)
    then show ?thesis using signal_type_notifiable[OF inv] notify_types(1) by blast
  qed
  ultimately show ?thesis
    using signal_list_loop[OF event_inv_acquired[OF inv], of gEventQueueLock "gEventSignalQueue s" grp] by simp
qed

lemma signal_grouped:
  assumes s: "settled s" and e: "live s e" "e \<noteq> 0" "SignalCount (event s e) = 0"
    and ty: "Type (event s e) AND EVT_NOTIFY_SIGNAL \<noteq> 0" "ExFlag (event s e) AND EVT_EXFLAG_EVENT_GROUP \<noteq> 0"
    and quiet: "quiet_on (queued_above (gEfiCurrentTpl s) (signal_effect e s)) run notify (event s)"
    and fuel: "33 + length (queued_above (gEfiCurrentTpl s) (signal_effect e s)) < n"
  shows "\<exists>s'. CoreSignalEvent n notify e s = Some (EFI_SUCCESS, s') \<and> dispatched run (signal_effect e s) s' \<and> settled s' \<and> locks_kept s s'"
proof -
  have inv: "event_inv s" "event_lock_free s" using s by (simp_all add: settled_def)
  have n: "33 < n" using fuel by simp
  define u1 where "u1 = counted e (acquired gEventQueueLock s)"
  have u1: "event_inv u1" "locks u1 = locks (acquired gEventQueueLock s)" "gEfiCurrentTpl u1 = TPL_HIGH_LEVEL"
    "gEventPending u1 = gEventPending s"
    using event_inv_counted[OF event_inv_acquired[OF inv(1)]] event_lock_level[OF inv(1)] by (simp_all add: u1_def)
  obtain s1 where s1: "CoreReleaseEventLock n notify u1 = Some s1" "view s1 = view (u1\<lparr>gEfiCurrentTpl := gEfiCurrentTpl s\<rparr>)"
    "settled s1" "locks_kept s s1"
    using idle_section[OF s u1 n] by blast
  have v1: "gEfiCurrentTpl s1 = gEfiCurrentTpl s" "event s1 = event (counted e s)" "gEventQueue s1 = gEventQueue s"
    "gEventPending s1 = gEventPending s" "world s1 = world s" "other_fields s1 = other_fields s"
    using view_eqD[OF s1(2)] by (simp_all add: u1_def)
  have inv1: "event_inv s1" "event_lock_free s1" using s1(3) by (simp_all add: settled_def)
  have q1: "gEventSignalQueue s1 = gEventSignalQueue s" using v1(6) by (simp add: other_fields_def)
  let ?grp = "EventGroup (event s e)"
  have list: "filter (\<lambda>x. EventGroup (event s1 x) = ?grp) (gEventSignalQueue s1) = signal_list e s"
    using e ty by (simp add: signal_list_def q1 v1) (rule filter_cong, auto)
  define u2 where "u2 = fold queued (signal_list e s) (acquired gEventQueueLock s1)"
  have nb: "notifiable (acquired gEventQueueLock s1) x = notifiable s x" for x by (rule notifiable_cong) (simp_all add: v1)
  have u2: "event_inv u2" "locks u2 = locks (acquired gEventQueueLock s1)" "gEfiCurrentTpl u2 = TPL_HIGH_LEVEL"
    unfolding u2_def using event_inv_acquired[OF inv1(1)] signal_list_notifiable[OF inv(1) e(1)] nb event_lock_level[OF inv1(1)]
    by (simp_all add: event_inv_fold_queued)
  have vu2: "view (u2\<lparr>gEfiCurrentTpl := gEfiCurrentTpl s\<rparr>) = view (signal_effect e s)"
    using fold_queued_cong[of "acquired gEventQueueLock s1" "counted e s" "signal_list e s"] v1 e(3)
    by (simp add: u2_def signal_effect_eq view_def)
  have q2: "queued_above (gEfiCurrentTpl s1) u2 = queued_above (gEfiCurrentTpl s) (signal_effect e s)"
    unfolding v1(1) using view_eqD(2)[OF vu2] by (intro queued_above_cong) simp
  have "quiet_on (queued_above (gEfiCurrentTpl s1) u2) run notify (event u2)"
    unfolding q2 by (subst quiet_on_cong[of _ "event s"]) (simp_all add: u2_def v1 quiet)
  from critical_section[OF s1(3) u2 this, of n] fuel q2
  obtain s2 where s2: "CoreReleaseEventLock n notify u2 = Some s2" "dispatched run (signal_effect e s) s2"
    "settled s2" "locks_kept s1 s2"
    using dispatched_cong[OF vu2] v1(1) by auto
  have inv2: "event_inv s2" "event_lock_free s2" using s2(3) by (simp_all add: settled_def)
  obtain s3 where s3: "CoreReleaseEventLock n notify (acquired gEventQueueLock s2) = Some s3"
    "view s3 = view ((acquired gEventQueueLock s2)\<lparr>gEfiCurrentTpl := gEfiCurrentTpl s2\<rparr>)" "settled s3" "locks_kept s2 s3"
    using idle_section[OF s2(3) event_inv_acquired[OF inv2(1)], of gEventQueueLock n notify] n event_lock_level[OF inv2(1)] by auto
  have "view s3 = view s2" using s3(2) by (simp add: view_def)
  then have "dispatched run (signal_effect e s) s3" using s2(2) by (simp add: dispatched_def view_def Let_def)
  moreover have "CoreSignalEvent n notify e s = Some (EFI_SUCCESS, s3)"
  proof -
    have "CoreNotifySignalList n notify ?grp s1 = Some s2"
      using acquire_event_lock[OF inv1] signal_list_loop_locked[OF inv1(1), of ?grp] list s2(1)
      by (simp add: CoreNotifySignalList_def u2_def)
    moreover have "EventGroup (event s1 e) = ?grp" by (simp add: v1)
    ultimately show ?thesis
      using e ty acquire_event_lock[OF inv] acquire_event_lock[OF inv2] s1(1) s3(1)
      by (simp add: CoreSignalEvent_def u1_def counted_def)
  qed
  moreover have "locks_kept s s3" using s1(4) s2(4) s3(4) locks_kept_trans by blast
  ultimately show ?thesis using s3(3) by blast
qed

lemma signal_exact:
  assumes "settled s" "live s e" "e \<noteq> 0"
    and "quiet_on (queued_above (gEfiCurrentTpl s) (signal_effect e s)) run notify (event s)"
    and "33 + length (queued_above (gEfiCurrentTpl s) (signal_effect e s)) < n"
  shows "\<exists>s'. CoreSignalEvent n notify e s = Some (EFI_SUCCESS, s') \<and> dispatched run (signal_effect e s) s' \<and> settled s' \<and> locks_kept s s'"
  using signal_ungrouped[OF assms(1-3) _ assms(4,5)] signal_grouped[OF assms(1-3) _ _ _ assms(4,5)] by blast

section \<open>Properties of the event services\<close>

text \<open>A concrete core with one live event of a given type at 0x1000, at priority TPL_APPLICATION.\<close>

definition sample_event :: "UINT32 \<Rightarrow> UINT32 \<Rightarrow> IEVENT" where
  "sample_event ty cnt = zero_event\<lparr>Signature := EVENT_SIGNATURE, Type := ty, SignalCount := cnt, NotifyTpl := TPL_CALLBACK,
     NotifyFunction := Some (Driver_function 0), SignalLink := (ty AND EVT_NOTIFY_SIGNAL \<noteq> 0)\<rparr>"

definition sample_core :: "UINT32 \<Rightarrow> UINT32 \<Rightarrow> EFI_EVENT list DXE" where
  "sample_core ty cnt = (initial_core True [])\<lparr>event := (\<lambda>_. zero_event)(0x1000 := sample_event ty cnt),
     gEventSignalQueue := (if ty AND EVT_NOTIFY_SIGNAL \<noteq> 0 then [0x1000] else [])\<rparr>"

lemma sample_event_fields [simp]:
  "Signature (sample_event ty c) = EVENT_SIGNATURE" "Type (sample_event ty c) = ty" "SignalCount (sample_event ty c) = c"
  "NotifyTpl (sample_event ty c) = TPL_CALLBACK" "NotifyFunction (sample_event ty c) = Some (Driver_function 0)"
  "SignalLink (sample_event ty c) = (ty AND EVT_NOTIFY_SIGNAL \<noteq> 0)" "\<not> NotifyLink (sample_event ty c)"
  "ExFlag (sample_event ty c) = 0" "Timer (sample_event ty c) = \<lparr>TimerLink = False, TriggerTime = 0, Period = 0\<rparr>"
  by (simp_all add: sample_event_def zero_event_def)

lemma sample_core_fields:
  "gEfiCurrentTpl (sample_core ty c) = TPL_APPLICATION"
  "event (sample_core ty c) e = (if e = 0x1000 then sample_event ty c else zero_event)"
  "gEventQueue (sample_core ty c) p = []" "gEventPending (sample_core ty c) = 0"
  "gEventSignalQueue (sample_core ty c) = (if ty AND EVT_NOTIFY_SIGNAL \<noteq> 0 then [0x1000] else [])"
  "world (sample_core ty c) = []" "Lock (locks (sample_core ty c) l) = EfiLockReleased" "lock_levels (sample_core ty c)"
  by (simp_all add: sample_core_def initial_core_def EFI_INITIALIZE_LOCK_VARIABLE_def lock_levels_def)

lemma sample_settled: "settled (sample_core ty c)"
proof -
  have "pending_inv (sample_core ty c)" unfolding pending_inv_def sample_core_fields by simp
  moreover have "queue_inv (sample_core ty c)"
    by (rule queue_invI) (simp_all add: sample_core_fields split: if_splits)
  moreover have "signal_inv (sample_core ty c)"
    unfolding signal_inv_def sample_core_fields event_ok_def by simp
  ultimately show ?thesis
    by (simp add: settled_def event_inv_def sample_core_fields nothing_pending_above_def)
qed

text \<open>
  (C15) Signalling a live event. In a settled core (invariant, event lock free, nothing pending above the
  current priority) CoreSignalEvent succeeds; an event not yet signalled becomes signalled and, if it is of the signal type, it
  (or, for a member of an event group, every event registered for that group, in registration order) is moved to the tail of its
  queue; whatever of this is above the current priority has been notified in priority order before the call
  returns, and nothing else changes. An event that is already signalled is not queued again. The core is
  settled again and the locks are as before.
\<close>

theorem signal_event_exact:
  assumes "settled s" and "live s e" and "e \<noteq> 0"
    and "quiet_on (queued_above (gEfiCurrentTpl s) (signal_effect e s)) run notify (event s)"
    and "33 + length (queued_above (gEfiCurrentTpl s) (signal_effect e s)) < n"
  shows "\<exists>s'. CoreSignalEvent n notify e s = Some (EFI_SUCCESS, s') \<and> dispatched run (signal_effect e s) s'
    \<and> settled s' \<and> locks_kept s s'"
  using signal_exact[OF assms] .

lemma sample_signal:
  "queued_above TPL_APPLICATION (signal_effect 0x1000 (sample_core EVT_NOTIFY_SIGNAL 0)) = [0x1000]"
  by (simp add: queued_above_def queued_between_def signal_effect_eq signal_list_def sample_core_fields upt_rec Let_def)

theorem signal_event_exact_witness:
  "\<exists>s'. CoreSignalEvent 36 log_notify 0x1000 (sample_core EVT_NOTIFY_SIGNAL 0) = Some (EFI_SUCCESS, s') \<and> world s' = [0x1000]"
proof -
  let ?s = "sample_core EVT_NOTIFY_SIGNAL 0"
  have "\<exists>s'. CoreSignalEvent 36 log_notify 0x1000 ?s = Some (EFI_SUCCESS, s')
      \<and> dispatched (\<lambda>e l. l @ [e]) (signal_effect 0x1000 ?s) s' \<and> settled s' \<and> locks_kept ?s s'"
    by (rule signal_event_exact[OF sample_settled])
      (simp_all add: sample_core_fields(1,2) log_notify_quiet sample_signal)
  then show ?thesis by (auto simp: dispatched_def sample_core_fields sample_signal Let_def)
qed

text \<open>
  Checking an event that is not of the signal type, in a settled core: a signalled event is reported with EFI_SUCCESS and
  is unsignalled afterwards, nothing else changing; an unsignalled event without a wait function is
  EFI_NOT_READY and changes nothing; an unsignalled event with a wait function has that function queued, and notified
  if the priority allows, before EFI_NOT_READY is returned for a function that does not signal the event.
\<close>

theorem check_event_exact:
  assumes s: "settled s" and e: "live s e" "e \<noteq> 0" "Type (event s e) AND EVT_NOTIFY_SIGNAL = 0" and n: "33 < n"
  shows "(SignalCount (event s e) \<noteq> 0 \<longrightarrow>
      (\<exists>s'. CoreCheckEvent n notify e s = Some (EFI_SUCCESS, s')
        \<and> view s' = view (put_event e (SignalCount_update (\<lambda>_. 0)) s) \<and> settled s' \<and> locks_kept s s'))
    \<and> (SignalCount (event s e) = 0 \<and> Type (event s e) AND EVT_NOTIFY_WAIT = 0 \<longrightarrow>
      CoreCheckEvent n notify e s = Some (EFI_NOT_READY, s))
    \<and> (SignalCount (event s e) = 0 \<and> Type (event s e) AND EVT_NOTIFY_WAIT \<noteq> 0
        \<and> quiet_on (queued_above (gEfiCurrentTpl s) (queued e s)) run notify (event s)
        \<and> 33 + length (queued_above (gEfiCurrentTpl s) (queued e s)) < n \<longrightarrow>
      (\<exists>s'. CoreCheckEvent n notify e s = Some (EFI_NOT_READY, s') \<and> dispatched run (queued e s) s' \<and> settled s' \<and> locks_kept s s'))"
proof (intro conjI impI)
  have inv: "event_inv s" "event_lock_free s" using s by (simp_all add: settled_def)
  let ?a = "acquired gEventQueueLock s"
  have ainv: "event_inv ?a" by (rule event_inv_acquired[OF inv(1)])
  have acq: "CoreAcquireEventLock s = Some ?a" by (rule acquire_event_lock[OF inv])
  have lvl: "Tpl (locks s gEventQueueLock) = TPL_HIGH_LEVEL" by (rule event_lock_level[OF inv(1)])
  {
    assume c: "SignalCount (event s e) \<noteq> 0"
    let ?u = "put_event e (SignalCount_update (\<lambda>_. 0)) ?a"
    obtain s' where s': "CoreReleaseEventLock n notify ?u = Some s'" "view s' = view (?u\<lparr>gEfiCurrentTpl := gEfiCurrentTpl s\<rparr>)"
      "settled s'" "locks_kept s s'"
      using idle_section[OF s event_inv_SignalCount[OF ainv], of e "\<lambda>_. 0" n notify] n lvl by auto
    have "CoreCheckEvent n notify e s = Some (EFI_SUCCESS, s')"
      using e c acq s'(1) by (simp add: CoreCheckEvent_def)
    moreover have "view s' = view (put_event e (SignalCount_update (\<lambda>_. 0)) s)" using s'(2) by (simp add: view_def)
    ultimately show "\<exists>s'. CoreCheckEvent n notify e s = Some (EFI_SUCCESS, s')
        \<and> view s' = view (put_event e (SignalCount_update (\<lambda>_. 0)) s) \<and> settled s' \<and> locks_kept s s'"
      using s'(3,4) by blast
  next
    assume "SignalCount (event s e) = 0 \<and> Type (event s e) AND EVT_NOTIFY_WAIT = 0"
    then show "CoreCheckEvent n notify e s = Some (EFI_NOT_READY, s)" using e by (simp add: CoreCheckEvent_def)
  next
    assume c: "SignalCount (event s e) = 0 \<and> Type (event s e) AND EVT_NOTIFY_WAIT \<noteq> 0
        \<and> quiet_on (queued_above (gEfiCurrentTpl s) (queued e s)) run notify (event s)
        \<and> 33 + length (queued_above (gEfiCurrentTpl s) (queued e s)) < n"
    have nb: "notifiable s e" using signal_type_notifiable[OF inv(1) e(1) notify_types(2)] c by blast
    have nba: "notifiable ?a e" using nb notifiable_cong[of ?a s e] by simp
    have uv: "view ((queued e ?a)\<lparr>gEfiCurrentTpl := gEfiCurrentTpl s\<rparr>) = view (queued e s)" by (simp add: view_def)
    have q: "queued_above (gEfiCurrentTpl s) (queued e ?a) = queued_above (gEfiCurrentTpl s) (queued e s)"
      by (rule queued_above_cong) simp
    have "quiet_on (queued_above (gEfiCurrentTpl s) (queued e ?a)) run notify (event (queued e ?a))"
      unfolding q using c by (subst quiet_on_cong[of _ "event s"]) simp_all
    then obtain s' where s': "CoreReleaseEventLock n notify (queued e ?a) = Some s'" "dispatched run (queued e s) s'"
      "settled s'" "locks_kept s s'"
      using critical_section[OF s event_inv_queued[OF ainv nba], of run notify n] lvl q c dispatched_cong[OF uv] by auto
    have ev: "SignalCount (event s' e) = 0"
    proof -
      have "SignalCount (event s' e) = SignalCount (notified_all (queued_above (gEfiCurrentTpl s) (queued e s)) (event (queued e s)) e)"
        using s'(2) by (simp add: dispatched_def Let_def)
      also have "\<dots> = 0" using c by (simp add: notified_all_def notified_def)
      finally show ?thesis .
    qed
    have "CoreNotifyEvent e ?a = Some (queued e ?a)"
      using ainv nba by (intro CoreNotifyEvent_eq) (auto simp: event_inv_def notifiable_def)
    then have "CoreCheckEvent n notify e s = Some (EFI_NOT_READY, s')"
      using e c acq s'(1) ev by (simp add: CoreCheckEvent_def)
    then show "\<exists>s'. CoreCheckEvent n notify e s = Some (EFI_NOT_READY, s') \<and> dispatched run (queued e s) s' \<and> settled s' \<and> locks_kept s s'"
      using s' by blast
  }
qed

theorem check_event_exact_witness:
  "(\<exists>s'. CoreCheckEvent 34 log_notify 0x1000 (sample_core 0 1) = Some (EFI_SUCCESS, s') \<and> SignalCount (event s' 0x1000) = 0)
   \<and> CoreCheckEvent 34 log_notify 0x1000 (sample_core 0 0) = Some (EFI_NOT_READY, sample_core 0 0)"
proof
  show "\<exists>s'. CoreCheckEvent 34 log_notify 0x1000 (sample_core 0 1) = Some (EFI_SUCCESS, s') \<and> SignalCount (event s' 0x1000) = 0"
    using check_event_exact[where s = "sample_core 0 1" and e = "0x1000" and n = 34 and notify = log_notify, OF sample_settled]
    by (auto simp: sample_core_fields dest!: view_eqD(4))
  show "CoreCheckEvent 34 log_notify 0x1000 (sample_core 0 0) = Some (EFI_NOT_READY, sample_core 0 0)"
    using check_event_exact[where s = "sample_core 0 0" and e = "0x1000" and n = 34 and notify = log_notify, OF sample_settled] by (auto simp: sample_core_fields)
qed

text \<open>
  The two ways of asking for an ExitBootServices or SetVirtualAddressMap notification, by the
  EFI 1.10 event type or by the UEFI 2.0 event group, create the same event, on every path of the call.
\<close>

theorem legacy_types_are_groups:
  "CoreCreateEventInternal n notify Pool EVT_SIGNAL_EXIT_BOOT_SERVICES ntpl nfn ctx None given s =
     CoreCreateEventInternal n notify Pool EVT_NOTIFY_SIGNAL ntpl nfn ctx (Some gEfiEventExitBootServicesGuid) given s
   \<and> CoreCreateEventInternal n notify Pool EVT_SIGNAL_VIRTUAL_ADDRESS_CHANGE ntpl nfn ctx None given s =
     CoreCreateEventInternal n notify Pool EVT_NOTIFY_SIGNAL ntpl nfn ctx (Some gEfiEventVirtualAddressChangeGuid) given s"
  by (simp add: CoreCreateEventInternal_def create_parameters_def mEventTable_def CompareGuid_def)

text \<open>What the parameter checks establish for the event that is created.\<close>

lemma create_parameters_ok:
  assumes "create_parameters ty ntpl nfn ctx grp given = Some (ty', grp', ntpl', nfn', ctx')"
  shows "ty' AND (EVT_NOTIFY_WAIT OR EVT_NOTIFY_SIGNAL) \<noteq> 0 \<longrightarrow>
      nfn' \<noteq> None \<and> TPL_APPLICATION < ntpl' \<and> ntpl' < TPL_HIGH_LEVEL"
  using assms unfolding create_parameters_def Let_def
  by (auto simp: not_le split: if_splits option.splits prod.splits)

definition created_event ::
  "EFI_EVENT \<Rightarrow> UINT32 \<Rightarrow> EFI_GUID option \<Rightarrow> EFI_TPL \<Rightarrow> EFI_EVENT_NOTIFY option \<Rightarrow> PTR \<Rightarrow> IEVENT" where
  "created_event e ty grp ntpl nfn ctx =
     zero_event\<lparr>Signature := EVENT_SIGNATURE, Type := ty, SignalLink := (ty AND EVT_NOTIFY_SIGNAL \<noteq> 0), NotifyTpl := ntpl,
       NotifyFunction := nfn, NotifyContext := ctx,
       EventGroup := (case grp of None \<Rightarrow> (0, 0) | Some g \<Rightarrow> g),
       ExFlag := (if grp = None then 0 else EVT_EXFLAG_EVENT_GROUP),
       RuntimeData := (if ty AND EVT_RUNTIME \<noteq> 0
          then \<lparr>RtType = ty, RtNotifyTpl = ntpl, RtNotifyFunction = nfn, RtNotifyContext = ctx, RtEvent = e, RtLink = True\<rparr>
          else RuntimeData zero_event)\<rparr>"

definition with_created ::
  "EFI_EVENT \<Rightarrow> UINT32 \<Rightarrow> EFI_GUID option \<Rightarrow> EFI_TPL \<Rightarrow> EFI_EVENT_NOTIFY option \<Rightarrow> PTR \<Rightarrow> 'w DXE \<Rightarrow> 'w DXE" where
  "with_created e ty grp ntpl nfn ctx s =
     s\<lparr>event := (event s)(e := created_event e ty grp ntpl nfn ctx),
       RuntimeEventHead := (if ty AND EVT_RUNTIME \<noteq> 0 then RuntimeEventHead s @ [e] else RuntimeEventHead s),
       gEventSignalQueue := (if ty AND EVT_NOTIFY_SIGNAL \<noteq> 0 then e # gEventSignalQueue s else gEventSignalQueue s)\<rparr>"

lemma created_event_fields [simp]:
  "Signature (created_event e ty grp ntpl nfn ctx) = EVENT_SIGNATURE" "Type (created_event e ty grp ntpl nfn ctx) = ty"
  "NotifyTpl (created_event e ty grp ntpl nfn ctx) = ntpl" "NotifyFunction (created_event e ty grp ntpl nfn ctx) = nfn"
  "\<not> NotifyLink (created_event e ty grp ntpl nfn ctx)"
  "SignalLink (created_event e ty grp ntpl nfn ctx) = (ty AND EVT_NOTIFY_SIGNAL \<noteq> 0)"
  "SignalCount (created_event e ty grp ntpl nfn ctx) = 0"
  by (simp_all add: created_event_def zero_event_def)

lemma event_inv_created:
  assumes inv: "event_inv s" and fresh: "\<not> live s e"
    and ok: "ty AND (EVT_NOTIFY_WAIT OR EVT_NOTIFY_SIGNAL) \<noteq> 0 \<longrightarrow> nfn \<noteq> None \<and> TPL_APPLICATION < ntpl \<and> ntpl < TPL_HIGH_LEVEL"
  shows "event_inv (with_created e ty grp ntpl nfn ctx s)" (is "event_inv ?t")
proof -
  have qi: "queue_inv s" using inv by (simp add: event_inv_def)
  have e: "e \<notin> set (gEventQueue s p)" for p using queue_inv_facts(2)[OF qi, of e p] fresh by blast
  have "queue_inv ?t"
  proof (rule queue_invI)
    show "distinct (gEventQueue ?t p)" for p using queue_inv_facts(1)[OF qi] by (simp add: with_created_def)
    show "live ?t x \<and> unat (NotifyTpl (event ?t x)) = p \<and> NotifyFunction (event ?t x) \<noteq> None \<and> NotifyLink (event ?t x)"
      if "x \<in> set (gEventQueue ?t p)" for p x
    proof -
      have "x \<in> set (gEventQueue s p)" "x \<noteq> e" using that e[of p] by (auto simp: with_created_def)
      then show ?thesis using queue_inv_facts(2-5)[OF qi, of x p] by (simp add: with_created_def)
    qed
    show "x \<in> set (gEventQueue ?t (unat (NotifyTpl (event ?t x))))" if "live ?t x" "NotifyLink (event ?t x)" for x
      using that queue_inv_facts(6)[OF qi, of x] by (cases "x = e") (simp_all add: with_created_def)
  qed
  moreover have "signal_inv ?t"
  proof -
    have si: "distinct (gEventSignalQueue s)" "\<And>x. x \<in> set (gEventSignalQueue s) \<longleftrightarrow> live s x \<and> SignalLink (event s x)"
      "\<And>x. live s x \<Longrightarrow> event_ok (event s x) \<and> (SignalLink (event s x) \<longleftrightarrow> Type (event s x) AND EVT_NOTIFY_SIGNAL \<noteq> 0)"
      using inv by (simp_all add: event_inv_def signal_inv_def)
    have "event_ok (created_event e ty grp ntpl nfn ctx)" using ok by (simp add: event_ok_def)
    then show ?thesis using si fresh by (simp add: signal_inv_def with_created_def)
  qed
  ultimately show ?thesis using inv by (simp add: event_inv_def with_created_def pending_inv_def lock_levels_def)
qed

lemma acquired_commute:
  "acquired l (s\<lparr>event := ev\<rparr>) = (acquired l s)\<lparr>event := ev\<rparr>"
  "acquired l (s\<lparr>RuntimeEventHead := h\<rparr>) = (acquired l s)\<lparr>RuntimeEventHead := h\<rparr>"
  by (auto simp: acquired_def CoreSetInterruptState_def split: option.splits)

lemma map_option_bind: "map_option f m = m \<bind> (\<lambda>x. Some (f x))"
  by (cases m) simp_all

lemma create_event_step:
  assumes inv: "event_inv s" "event_lock_free s" and par: "create_parameters ty ntpl nfn ctx grp given = Some r"
    and r: "r = (ty', grp', ntpl', nfn', ctx')" and pool: "Pool \<noteq> 0"
  shows "CoreCreateEventInternal n notify Pool ty ntpl nfn ctx grp given s =
    map_option (\<lambda>t. (EFI_SUCCESS, Some Pool, t))
      (CoreReleaseEventLock n notify (with_created Pool ty' grp' ntpl' nfn' ctx' (acquired gEventQueueLock s)))"
proof -
  have acq: "CoreAcquireEventLock (s\<lparr>event := ev\<rparr>) = Some ((acquired gEventQueueLock s)\<lparr>event := ev\<rparr>)"
    "CoreAcquireEventLock (s\<lparr>RuntimeEventHead := h, event := ev\<rparr>) = Some ((acquired gEventQueueLock s)\<lparr>RuntimeEventHead := h, event := ev\<rparr>)" for ev h
    using acquire_event_lock[OF inv] unfolding CoreAcquireEventLock_def CoreAcquireLock_eq
    by (simp_all add: acquired_commute split: if_splits)
  show ?thesis
    unfolding CoreCreateEventInternal_def par r with_created_def created_event_def
    by (insert pool, (cases grp'; cases "ty' AND EVT_RUNTIME = 0"; cases "ty' AND EVT_NOTIFY_SIGNAL = 0";
        (simp add: put_event_def acq zero_event_def map_option_bind);
        (rule arg_cong[where f = "\<lambda>u. CoreReleaseEventLock n notify u \<bind> (\<lambda>t. Some (EFI_SUCCESS, Some Pool, t))"],
         rule DXE.equality; simp)))
qed

lemma create_event_run:
  assumes s: "settled s" and fresh: "\<not> live s Pool" and n: "33 < n" and pool: "Pool \<noteq> 0"
    and par: "create_parameters ty ntpl nfn ctx grp given = Some (ty', grp', ntpl', nfn', ctx')"
  shows "\<exists>s'. CoreCreateEventInternal n notify Pool ty ntpl nfn ctx grp given s = Some (EFI_SUCCESS, Some Pool, s')
          \<and> view s' = view (with_created Pool ty' grp' ntpl' nfn' ctx' s) \<and> settled s' \<and> locks_kept s s'"
proof -
  have inv: "event_inv s" "event_lock_free s" using s by (simp_all add: settled_def)
  let ?w = "with_created Pool ty' grp' ntpl' nfn' ctx'"
  let ?a = "acquired gEventQueueLock s"
  have "event_inv (?w ?a)"
    using create_parameters_ok[OF par] fresh by (intro event_inv_created event_inv_acquired[OF inv(1)]) simp_all
  then obtain s' where s': "CoreReleaseEventLock n notify (?w ?a) = Some s'"
    "view s' = view ((?w ?a)\<lparr>gEfiCurrentTpl := gEfiCurrentTpl s\<rparr>)" "settled s'" "locks_kept s s'"
    using idle_section[OF s, of "?w ?a" n notify] n event_lock_level[OF inv(1)] by (auto simp: with_created_def)
  have "CoreCreateEventInternal n notify Pool ty ntpl nfn ctx grp given s =
      map_option (\<lambda>t. (EFI_SUCCESS, Some Pool, t)) (CoreReleaseEventLock n notify (?w ?a))"
    by (rule create_event_step[OF inv par refl pool])
  moreover have "view ((?w ?a)\<lparr>gEfiCurrentTpl := gEfiCurrentTpl s\<rparr>) = view (?w s)"
    using other_fields_simps(1)[of gEventQueueLock s] by (simp add: view_def with_created_def other_fields_def)
  ultimately show ?thesis using s' by auto
qed



lemma settled_initial: "settled (initial_core c w)"
  using event_inv_initial[of c w]
  by (simp add: settled_def nothing_pending_above_def) (simp add: initial_core_def EFI_INITIALIZE_LOCK_VARIABLE_def)


lemma wait_pass:
  assumes "\<forall>x\<in>set xs. CoreCheckEvent n notify x s = Some (EFI_NOT_READY, s)"
    and "CoreCheckEvent n notify e s = Some (Status, s')" and "Status \<noteq> EFI_NOT_READY"
  shows "WaitForEvent_pass n notify (xs @ e # ys) i s = Some (Some (Status, i + length xs), s')"
  using assms by (induction xs arbitrary: i) simp_all



end
