(* ===== verification/Dxe_Timer.thy ===== *)
theory Dxe_Timer
  imports Dxe_Event
begin

text \<open>
  The timer services of MdeModulePkg/Core/Dxe/Event/Timer.c, the closing of events and the initialisation
  of the event services (Event.c), the unregistering of protocol notifications that closing calls
  (Core/Dxe/Hand/Handle.c), and the table of notification functions, in which the core's own functions are
  dispatched to their definitions.
\<close>

unbundle bit_operations_syntax

section \<open>The timer database\<close>

text \<open>The walk of CoreInsertEventTimer: in front of the first timer that triggers later.\<close>

fun insert_before_later :: "('e \<Rightarrow> UINT64) \<Rightarrow> UINT64 \<Rightarrow> 'e \<Rightarrow> 'e list \<Rightarrow> 'e list" where
  "insert_before_later trigger t e [] = [e]"
| "insert_before_later trigger t e (x # xs) =
     (if trigger x > t then e # x # xs else x # insert_before_later trigger t e xs)"

abbreviation trigger_of :: "'w DXE \<Rightarrow> EFI_EVENT \<Rightarrow> UINT64" where
  "trigger_of s e \<equiv> TriggerTime (Timer (event s e))"

definition CoreInsertEventTimer :: "EFI_EVENT \<Rightarrow> 'w DXE \<Rightarrow> 'w DXE option" where
  "CoreInsertEventTimer e s =
     do {
       ASSERT_LOCKED mEfiTimerLock s;
       ASSERT (list_all (\<lambda>x. Signature (event s x) = EVENT_SIGNATURE)
                 (takeWhile (\<lambda>x. trigger_of s x \<le> trigger_of s e) (mEfiTimerList s)));
       Some (put_event e (Timer_update (TimerLink_update (\<lambda>_. True)))
         (s\<lparr>mEfiTimerList := insert_before_later (trigger_of s) (trigger_of s e) e (mEfiTimerList s)\<rparr>))
     }"

definition CoreCurrentSystemTime :: "nat \<Rightarrow> 'w notify \<Rightarrow> 'w DXE \<Rightarrow> (UINT64 \<times> 'w DXE) option" where
  "CoreCurrentSystemTime n notify s =
     do {
       s \<leftarrow> CoreAcquireLock mEfiSystemTimeLock s;
       let SystemTime = mEfiSystemTime s;
       s \<leftarrow> CoreReleaseLock n notify mEfiSystemTimeLock s;
       Some (SystemTime, s)
     }"

text \<open>RemoveEntryList on Timer.Link, followed by the reset of its ForwardLink.\<close>

definition remove_timer :: "EFI_EVENT \<Rightarrow> 'w DXE \<Rightarrow> 'w DXE" where
  "remove_timer e s =
     put_event e (Timer_update (TimerLink_update (\<lambda>_. False))) (s\<lparr>mEfiTimerList := remove1 e (mEfiTimerList s)\<rparr>)"

primrec CheckTimers_loop :: "nat \<Rightarrow> nat \<Rightarrow> 'w notify \<Rightarrow> UINT64 \<Rightarrow> 'w DXE \<Rightarrow> 'w DXE option" where
  "CheckTimers_loop 0 n notify SystemTime s = None"
| "CheckTimers_loop (Suc k) n notify SystemTime s =
     (case mEfiTimerList s of
        [] \<Rightarrow> Some s
      | e # _ \<Rightarrow> do {
          CR_event e s;
          if trigger_of s e > SystemTime then Some s
          else do {
            let s = remove_timer e s;
            (_, s) \<leftarrow> CoreSignalEvent n notify e s;
            s \<leftarrow> (if Period (Timer (event s e)) \<noteq> 0
                  then do {
                    let s = put_event e (Timer_update (\<lambda>t. t\<lparr>TriggerTime := TriggerTime t + Period t\<rparr>)) s;
                    s \<leftarrow> (if trigger_of s e \<le> SystemTime
                          then do {
                            let s = put_event e (Timer_update (TriggerTime_update (\<lambda>_. SystemTime))) s;
                            (_, s) \<leftarrow> CoreSignalEvent n notify (mEfiCheckTimerEvent s) s;
                            Some s
                          }
                          else Some s);
                    CoreInsertEventTimer e s
                  }
                  else Some s);
            CheckTimers_loop k n notify SystemTime s
          }
        })"

definition CoreCheckTimers :: "nat \<Rightarrow> 'w notify \<Rightarrow> EFI_EVENT \<Rightarrow> PTR \<Rightarrow> 'w DXE \<Rightarrow> 'w DXE option" where
  "CoreCheckTimers n notify CheckEvent Context s =
     do {
       s \<leftarrow> CoreAcquireLock mEfiTimerLock s;
       (SystemTime, s) \<leftarrow> CoreCurrentSystemTime n notify s;
       s \<leftarrow> CheckTimers_loop n n notify SystemTime s;
       CoreReleaseLock n notify mEfiTimerLock s
     }"

definition CoreInitializeTimer :: "nat \<Rightarrow> 'w notify \<Rightarrow> EFI_EVENT \<Rightarrow> 'w DXE \<Rightarrow> 'w DXE option" where
  "CoreInitializeTimer n notify Pool s =
     do {
       (Status, out, s) \<leftarrow> CoreCreateEventInternal n notify Pool EVT_NOTIFY_SIGNAL (TPL_HIGH_LEVEL - 1)
                             (Some CoreCheckTimers_function) 0 None True s;
       let s = (case out of Some e \<Rightarrow> s\<lparr>mEfiCheckTimerEvent := e\<rparr> | None \<Rightarrow> s);
       ASSERT (\<not> EFI_ERROR Status);
       Some s
     }"

definition CoreTimerTick :: "nat \<Rightarrow> 'w notify \<Rightarrow> UINT64 \<Rightarrow> 'w DXE \<Rightarrow> 'w DXE option" where
  "CoreTimerTick n notify Duration s =
     do {
       s \<leftarrow> CoreAcquireLock mEfiSystemTimeLock s;
       let s = s\<lparr>mEfiSystemTime := mEfiSystemTime s + Duration\<rparr>;
       s \<leftarrow> (case mEfiTimerList s of
               [] \<Rightarrow> Some s
             | e # _ \<Rightarrow> do {
                 CR_event e s;
                 if trigger_of s e \<le> mEfiSystemTime s
                 then map_option snd (CoreSignalEvent n notify (mEfiCheckTimerEvent s) s)
                 else Some s
               });
       CoreReleaseLock n notify mEfiSystemTimeLock s
     }"

abbreviation TimerCancel :: UINT32 where "TimerCancel \<equiv> 0"
abbreviation TimerPeriodic :: UINT32 where "TimerPeriodic \<equiv> 1"
abbreviation TimerRelative :: UINT32 where "TimerRelative \<equiv> 2"

text \<open>\<open>TimerPeriod\<close> is what gTimer->GetTimerPeriod stores when a periodic timer is set with 0.\<close>

definition CoreSetTimer ::
  "nat \<Rightarrow> 'w notify \<Rightarrow> UINT64 \<Rightarrow> EFI_EVENT \<Rightarrow> UINT32 \<Rightarrow> UINT64 \<Rightarrow> 'w DXE \<Rightarrow> (EFI_STATUS \<times> 'w DXE) option" where
  "CoreSetTimer n notify TimerPeriod e ty Trigger s =
     (if e = 0 then Some (EFI_INVALID_PARAMETER, s)
      else if Signature (event s e) \<noteq> EVENT_SIGNATURE then Some (EFI_INVALID_PARAMETER, s)
      else if ty > TimerRelative \<or> Type (event s e) AND EVT_TIMER = 0 then Some (EFI_INVALID_PARAMETER, s)
      else do {
        s \<leftarrow> CoreAcquireLock mEfiTimerLock s;
        let s = (if TimerLink (Timer (event s e)) then remove_timer e s else s);
        let s = put_event e (Timer_update (\<lambda>t. t\<lparr>TriggerTime := 0, Period := 0\<rparr>)) s;
        s \<leftarrow> (if ty \<noteq> TimerCancel
              then do {
                let (Trigger, s) =
                  (if ty = TimerPeriodic
                   then let Trigger = (if Trigger = 0 then TimerPeriod else Trigger)
                        in (Trigger, put_event e (Timer_update (Period_update (\<lambda>_. Trigger))) s)
                   else (Trigger, s));
                (SystemTime, s) \<leftarrow> CoreCurrentSystemTime n notify s;
                let s = put_event e (Timer_update (TriggerTime_update (\<lambda>_. SystemTime + Trigger))) s;
                s \<leftarrow> CoreInsertEventTimer e s;
                if Trigger = 0
                then map_option snd (CoreSignalEvent n notify (mEfiCheckTimerEvent s) s)
                else Some s
              }
              else Some s);
        s \<leftarrow> CoreReleaseLock n notify mEfiTimerLock s;
        Some (EFI_SUCCESS, s)
      })"

section \<open>Closing events\<close>

definition CoreAcquireProtocolLock :: "'w DXE \<Rightarrow> 'w DXE option" where
  "CoreAcquireProtocolLock s = CoreAcquireLock gProtocolDatabaseLock s"

definition CoreReleaseProtocolLock :: "nat \<Rightarrow> 'w notify \<Rightarrow> 'w DXE \<Rightarrow> 'w DXE option" where
  "CoreReleaseProtocolLock n notify s = CoreReleaseLock n notify gProtocolDatabaseLock s"

text \<open>Takes the first notification record of an event out of a protocol database.\<close>

fun drop_first_notify :: "EFI_EVENT \<Rightarrow> PROTOCOL_ENTRY list \<Rightarrow> PROTOCOL_ENTRY list option" where
  "drop_first_notify e [] = None"
| "drop_first_notify e (p # ps) =
     (if list_ex (\<lambda>r. Event r = e) (Notifies p)
      then Some (p\<lparr>Notifies := remove_first (\<lambda>r. Event r = e) (Notifies p)\<rparr> # ps)
      else map_option ((#) p) (drop_first_notify e ps))"

definition CoreUnregisterProtocolNotifyEvent ::
  "nat \<Rightarrow> 'w notify \<Rightarrow> EFI_EVENT \<Rightarrow> 'w DXE \<Rightarrow> (EFI_STATUS \<times> 'w DXE) option" where
  "CoreUnregisterProtocolNotifyEvent n notify e s =
     do {
       s \<leftarrow> CoreAcquireProtocolLock s;
       let (Status, s) = (case drop_first_notify e (mProtocolDatabase s) of
                            Some db \<Rightarrow> (EFI_SUCCESS, s\<lparr>mProtocolDatabase := db\<rparr>)
                          | None \<Rightarrow> (EFI_NOT_FOUND, s));
       s \<leftarrow> CoreReleaseProtocolLock n notify s;
       Some (Status, s)
     }"

primrec UnregisterProtocolNotify_loop ::
  "nat \<Rightarrow> nat \<Rightarrow> 'w notify \<Rightarrow> EFI_EVENT \<Rightarrow> 'w DXE \<Rightarrow> 'w DXE option" where
  "UnregisterProtocolNotify_loop 0 n notify e s = None"
| "UnregisterProtocolNotify_loop (Suc k) n notify e s =
     do {
       (Status, s) \<leftarrow> CoreUnregisterProtocolNotifyEvent n notify e s;
       if \<not> EFI_ERROR Status then UnregisterProtocolNotify_loop k n notify e s else Some s
     }"

definition CoreUnregisterProtocolNotify ::
  "nat \<Rightarrow> 'w notify \<Rightarrow> EFI_EVENT \<Rightarrow> 'w DXE \<Rightarrow> (EFI_STATUS \<times> 'w DXE) option" where
  "CoreUnregisterProtocolNotify n notify e s =
     do { s \<leftarrow> UnregisterProtocolNotify_loop n n notify e s; Some (EFI_SUCCESS, s) }"

text \<open>\<open>FreeStatus\<close> is what CoreFreePool returns for the event's memory.\<close>

definition CoreCloseEvent ::
  "nat \<Rightarrow> 'w notify \<Rightarrow> EFI_STATUS \<Rightarrow> EFI_EVENT \<Rightarrow> 'w DXE \<Rightarrow> (EFI_STATUS \<times> 'w DXE) option" where
  "CoreCloseEvent n notify FreeStatus e s =
     (if e = 0 then Some (EFI_INVALID_PARAMETER, s)
      else if Signature (event s e) \<noteq> EVENT_SIGNATURE then Some (EFI_INVALID_PARAMETER, s)
      else do {
        s \<leftarrow> (if Type (event s e) AND EVT_TIMER \<noteq> 0
              then map_option snd (CoreSetTimer n notify 0 e TimerCancel 0 s)
              else Some s);
        s \<leftarrow> CoreAcquireEventLock s;
        let s = (if RtLink (RuntimeData (event s e))
                 then s\<lparr>RuntimeEventHead := remove1 e (RuntimeEventHead s)\<rparr> else s);
        let s = (if NotifyLink (event s e) then remove_notify_link e s else s);
        let s = (if SignalLink (event s e)
                 then s\<lparr>gEventSignalQueue := remove1 e (gEventSignalQueue s)\<rparr> else s);
        s \<leftarrow> CoreReleaseEventLock n notify s;
        s \<leftarrow> (if ExFlag (event s e) AND EVT_EXFLAG_EVENT_PROTOCOL_NOTIFICATION \<noteq> 0
              then map_option snd (CoreUnregisterProtocolNotify n notify e s)
              else Some s);
        let s = put_event e (Signature_update (\<lambda>_. 0)) s;
        ASSERT (\<not> EFI_ERROR FreeStatus);
        Some (FreeStatus, s)
      })"

section \<open>Initialisation and the table of notification functions\<close>

text \<open>\<open>TimerPool\<close> and \<open>IdlePool\<close> are the addresses of the two events it allocates.\<close>

definition CoreInitializeEventServices ::
  "nat \<Rightarrow> 'w notify \<Rightarrow> EFI_EVENT \<Rightarrow> EFI_EVENT \<Rightarrow> 'w DXE \<Rightarrow> (EFI_STATUS \<times> 'w DXE) option" where
  "CoreInitializeEventServices n notify TimerPool IdlePool s =
     do {
       let s = s\<lparr>gEventQueue := (\<lambda>Index. if Index \<le> 31 then [] else gEventQueue s Index)\<rparr>;
       s \<leftarrow> CoreInitializeTimer n notify TimerPool s;
       (_, out, s) \<leftarrow> CoreCreateEventEx n notify IdlePool EVT_NOTIFY_SIGNAL TPL_NOTIFY
                        (Some EfiEventEmptyFunction) 0 (Some gIdleLoopEventGuid) True s;
       Some (EFI_SUCCESS, case out of Some e \<Rightarrow> s\<lparr>gIdleLoopEvent := e\<rparr> | None \<Rightarrow> s)
     }"

text \<open>
  Calling a notification function: CoreCheckTimers and EfiEventEmptyFunction are the core's; a driver's
  function is a parameter, which is given the table to reach the services with.
\<close>

type_synonym 'w drivers = "'w notify \<Rightarrow> nat \<Rightarrow> PTR \<Rightarrow> EFI_EVENT \<Rightarrow> PTR \<Rightarrow> 'w DXE \<Rightarrow> 'w DXE option"

primrec core_notify :: "'w drivers \<Rightarrow> nat \<Rightarrow> 'w notify" where
  "core_notify drivers 0 = (\<lambda>f e c s. None)"
| "core_notify drivers (Suc n) =
     (\<lambda>f e c s. case f of
        CoreCheckTimers_function \<Rightarrow> CoreCheckTimers n (core_notify drivers n) e c s
      | EfiEventEmptyFunction \<Rightarrow> Some s
      | Driver_function a \<Rightarrow> drivers (core_notify drivers n) n a e c s)"

section \<open>Every service keeps the invariant\<close>

text \<open>The contract of a call: the invariant and the priority are kept, and the locks are as before.\<close>

definition kept :: "'w DXE \<Rightarrow> 'w DXE \<Rightarrow> bool" where
  "kept s s' \<longleftrightarrow> event_inv s' \<and> gEfiCurrentTpl s' = gEfiCurrentTpl s \<and> locks_kept s s'"

lemma kept_refl: "event_inv s \<Longrightarrow> kept s s"
  by (simp add: kept_def)

lemma kept_trans: "kept s t \<Longrightarrow> kept t u \<Longrightarrow> kept s u"
  using locks_kept_trans by (auto simp: kept_def)

lemma kept_free: "kept s t \<Longrightarrow> event_lock_free s \<Longrightarrow> event_lock_free t"
  by (simp add: kept_def locks_kept_def)

lemma kept_inv: "kept s t \<Longrightarrow> event_inv t"
  by (simp add: kept_def)

lemma well_behaved_kept:
  "well_behaved notify \<longleftrightarrow> (\<forall>f e c s s'. event_inv s \<longrightarrow> event_lock_free s \<longrightarrow> notify f e c s = Some s' \<longrightarrow> kept s s')"
  by (simp add: well_behaved_def kept_def)

text \<open>A lock is acquired, the state is changed with the priority and the locks kept, and the lock is released.\<close>

lemma section_kept:
  assumes N: "well_behaved notify" and s: "event_inv s" "event_lock_free s"
    and acq: "CoreAcquireLock l s = Some a" and mid: "kept a u" and rel: "CoreReleaseLock n notify l u = Some s'"
  shows "kept s s'"
proof -
  have a: "a = acquired l s" "Lock (locks s l) = EfiLockReleased" using acq by (auto simp: CoreAcquireLock_eq split: if_splits)
  let ?r = "u\<lparr>locks := (locks u)(l := (locks u l)\<lparr>Lock := EfiLockReleased\<rparr>)\<rparr>"
  have own: "OwnerTpl (locks u l) = gEfiCurrentTpl s" using mid by (simp add: kept_def locks_kept_def a)
  have run: "CoreRestoreTpl n notify (gEfiCurrentTpl s) ?r = Some s'"
    using rel own by (simp add: CoreReleaseLock_def ReleaseLock_by_def ASSERT_bind_Some Let_def)
  have inv: "event_inv ?r"
    by (rule event_inv_cong[OF kept_inv[OF mid]]) (use kept_inv[OF mid] in \<open>auto simp: event_inv_def\<close>)
  have kr: "locks_kept s ?r" using mid a by (auto simp: kept_def locks_kept_def)
  then have free: "event_lock_free ?r" using s(2) by (simp only: locks_kept_def)
  have "event_inv s' \<and> gEfiCurrentTpl s' = gEfiCurrentTpl s \<and> locks_kept ?r s'"
    using CoreRestoreTpl_restores[OF N, of n] inv free run unfolding restores_def by blast
  then show ?thesis using locks_kept_trans[OF kr] by (simp add: kept_def)
qed

lemma kept_update:
  assumes "event_inv t" "gEfiCurrentTpl t = gEfiCurrentTpl s" "locks t = locks s"
  shows "kept s t"
  using assms by (simp add: kept_def locks_kept_def)

lemma event_inv_Timer:
  assumes "event_inv s"
  shows "event_inv (put_event e (Timer_update f) s)"
proof -
  have "queue_inv (put_event e (Timer_update f) s) = queue_inv s" unfolding queue_inv_def by auto
  moreover have "signal_inv (put_event e (Timer_update f) s) = signal_inv s" unfolding signal_inv_def event_ok_def by auto
  ultimately show ?thesis using assms by (simp add: event_inv_def pending_inv_def lock_levels_def)
qed

lemma event_inv_fields:
  "event_inv s \<Longrightarrow> event_inv (s\<lparr>mEfiTimerList := l\<rparr>)" "event_inv s \<Longrightarrow> event_inv (s\<lparr>mEfiSystemTime := t\<rparr>)"
  "event_inv s \<Longrightarrow> event_inv (s\<lparr>RuntimeEventHead := r\<rparr>)" "event_inv s \<Longrightarrow> event_inv (s\<lparr>mProtocolDatabase := d\<rparr>)"
  "event_inv s \<Longrightarrow> event_inv (s\<lparr>mEfiCheckTimerEvent := e\<rparr>)" "event_inv s \<Longrightarrow> event_inv (s\<lparr>gIdleLoopEvent := e\<rparr>)"
  by (rule event_inv_cong[of s]; simp add: event_inv_def)+

lemma notify_kept:
  assumes "event_inv s" "Lock (locks s gEventQueueLock) = EfiLockAcquired" "live s e"
    "Type (event s e) AND (EVT_NOTIFY_WAIT OR EVT_NOTIFY_SIGNAL) \<noteq> 0" "CoreNotifyEvent e s = Some t"
  shows "kept s t" "t = queued e s"
proof -
  have nb: "notifiable s e" by (rule signal_type_notifiable[OF assms(1,3,4)])
  have "CoreNotifyEvent e s = Some (queued e s)"
    using assms nb by (intro CoreNotifyEvent_eq) (auto simp: event_inv_def notifiable_def)
  with assms(5) show t: "t = queued e s" by simp
  show "kept s t" unfolding t by (rule kept_update[OF event_inv_queued[OF assms(1) nb]]) simp_all
qed

lemma signal_list_kept:
  assumes N: "well_behaved notify" and s: "event_inv s" "event_lock_free s" and run: "CoreNotifySignalList n notify grp s = Some t"
  shows "kept s t"
proof -
  obtain a u where a: "CoreAcquireLock gEventQueueLock s = Some a" and u: "NotifySignalList_loop grp (gEventSignalQueue a) a = Some u"
    and t: "CoreReleaseLock n notify gEventQueueLock u = Some t"
    using run by (auto simp: CoreNotifySignalList_def CoreAcquireEventLock_def CoreReleaseEventLock_def bind_eq_Some_conv)
  have a': "a = acquired gEventQueueLock s" using a by (simp add: CoreAcquireLock_eq split: if_splits)
  have ueq: "u = fold queued (filter (\<lambda>x. EventGroup (event s x) = grp) (gEventSignalQueue s)) a"
    using signal_list_loop_locked[OF s(1), of grp] u by (simp add: a')
  have "notifiable a x = notifiable s x" for x unfolding a' by (rule notifiable_cong) simp_all
  moreover have "notifiable s x" if "x \<in> set (gEventSignalQueue s)" for x
  proof -
    have "live s x" "Type (event s x) AND EVT_NOTIFY_SIGNAL \<noteq> 0" using s(1) that by (auto simp: event_inv_def signal_inv_def)
    then show ?thesis using signal_type_notifiable[OF s(1)] notify_types(1) by blast
  qed
  ultimately have "event_inv u" unfolding ueq using event_inv_acquired[OF s(1)] by (intro event_inv_fold_queued) (auto simp: a')
  then have "kept a u" by (rule kept_update) (simp_all add: ueq)
  from section_kept[OF N s a this t] show ?thesis .
qed

lemma signal_kept:
  assumes N: "well_behaved notify" and s: "event_inv s" "event_lock_free s" and run: "CoreSignalEvent n notify e s = Some (st, t)"
  shows "kept s t"
proof (cases "e = 0 \<or> \<not> live s e")
  case True
  then show ?thesis using run kept_refl[OF s(1)] by (auto simp: CoreSignalEvent_def split: if_splits)
next
  case False
  let ?a = "acquired gEventQueueLock s"
  have a: "CoreAcquireLock gEventQueueLock s = Some ?a" using acquire_event_lock[OF s] by (simp add: CoreAcquireEventLock_def)
  have ainv: "event_inv ?a" by (rule event_inv_acquired[OF s(1)])
  have cinv: "event_inv (counted e ?a)" by (rule event_inv_counted[OF ainv])
  have ck: "kept ?a (counted e ?a)" by (rule kept_update[OF cinv]) simp_all
  consider (plain) u where "CoreReleaseLock n notify gEventQueueLock u = Some t" "kept ?a u"
    | (group) s1 s2 s3 where "CoreReleaseLock n notify gEventQueueLock (counted e ?a) = Some s1"
       "CoreNotifySignalList n notify (EventGroup (event s1 e)) s1 = Some s2" "CoreAcquireLock gEventQueueLock s2 = Some s3"
       "CoreReleaseLock n notify gEventQueueLock s3 = Some t"
  proof -
    show thesis
    proof (cases "SignalCount (event s e) = 0 \<and> Type (event s e) AND EVT_NOTIFY_SIGNAL \<noteq> 0")
      case False
      define u where "u = (if SignalCount (event s e) = 0 then counted e ?a else ?a)"
      have "CoreReleaseLock n notify gEventQueueLock u = Some t"
        using run False \<open>\<not> (e = 0 \<or> \<not> live s e)\<close> acquire_event_lock[OF s]
        by (auto simp: CoreSignalEvent_def CoreReleaseEventLock_def u_def bind_eq_Some_conv simp flip: counted_def split: if_splits)
      moreover have "kept ?a u" using ck kept_refl[OF ainv] by (simp add: u_def)
      ultimately show thesis by (rule plain)
    next
      case sig: True
      show thesis
      proof (cases "ExFlag (event s e) AND EVT_EXFLAG_EVENT_GROUP = 0")
        case True
        then obtain u where u: "CoreNotifyEvent e (counted e ?a) = Some u" "CoreReleaseLock n notify gEventQueueLock u = Some t"
          using run sig \<open>\<not> (e = 0 \<or> \<not> live s e)\<close> acquire_event_lock[OF s]
          by (auto simp: CoreSignalEvent_def CoreReleaseEventLock_def bind_eq_Some_conv simp flip: counted_def)
        have "kept (counted e ?a) u"
          by (rule notify_kept(1)[OF cinv _ _ _ u(1)]) (use sig False notify_types(1) in auto)
        then show thesis using plain[OF u(2)] kept_trans[OF ck] by blast
      next
        case False
        then show thesis
          using run sig \<open>\<not> (e = 0 \<or> \<not> live s e)\<close> acquire_event_lock[OF s]
          by (auto simp: CoreSignalEvent_def CoreReleaseEventLock_def CoreAcquireEventLock_def bind_eq_Some_conv
              simp flip: counted_def intro: group)
      qed
    qed
  qed
  then show ?thesis
  proof cases
    case plain
    then show ?thesis using section_kept[OF N s a] by blast
  next
    case group
    have k1: "kept s s1" by (rule section_kept[OF N s a ck group(1)])
    have k2: "kept s1 s2" by (rule signal_list_kept[OF N kept_inv[OF k1] kept_free[OF k1 s(2)] group(2)])
    have s2: "event_inv s2" "event_lock_free s2" using kept_inv[OF k2] kept_free[OF k2 kept_free[OF k1 s(2)]] .
    have "event_inv s3" using group(3) event_inv_acquired[OF s2(1)] by (auto simp: CoreAcquireLock_eq split: if_splits)
    then have "kept s2 t" using section_kept[OF N s2 group(3) kept_refl group(4)] by blast
    then show ?thesis using kept_trans[OF kept_trans[OF k1 k2]] by blast
  qed
qed


lemma acquired_kept_free:
  assumes "CoreAcquireLock l s = Some a" "event_inv s" "event_lock_free s" "l \<noteq> gEventQueueLock"
  shows "event_inv a" "event_lock_free a"
  using assms event_inv_acquired[of s l] by (auto simp: CoreAcquireLock_eq split: if_splits)

lemma system_time_kept:
  assumes N: "well_behaved notify" and s: "event_inv s" "event_lock_free s"
    and run: "CoreCurrentSystemTime n notify s = Some (now, t)"
  shows "kept s t"
proof -
  obtain a where a: "CoreAcquireLock mEfiSystemTimeLock s = Some a" "CoreReleaseLock n notify mEfiSystemTimeLock a = Some t"
    using run by (auto simp: CoreCurrentSystemTime_def bind_eq_Some_conv)
  show ?thesis using section_kept[OF N s a(1) kept_refl a(2)] acquired_kept_free(1)[OF a(1) s] by simp
qed

lemma insert_timer_kept: "event_inv s \<Longrightarrow> CoreInsertEventTimer e s = Some t \<Longrightarrow> kept s t"
  by (rule kept_update)
    (auto simp: CoreInsertEventTimer_def ASSERT_LOCKED_def ASSERT_bind_Some event_inv_Timer event_inv_fields)

lemma remove_timer_kept: "event_inv s \<Longrightarrow> kept s (remove_timer e s)"
  by (rule kept_update) (auto simp: remove_timer_def event_inv_Timer event_inv_fields)

lemma Timer_kept: "event_inv s \<Longrightarrow> kept s (put_event e (Timer_update f) s)"
  by (rule kept_update) (auto simp: event_inv_Timer)

lemma check_loop_kept:
  assumes N: "well_behaved notify"
  shows "event_inv s \<Longrightarrow> event_lock_free s \<Longrightarrow> CheckTimers_loop k n notify now s = Some t \<Longrightarrow> kept s t"
proof (induction k arbitrary: s)
  case (Suc k)
  show ?case
  proof (cases "mEfiTimerList s")
    case Nil
    then show ?thesis using Suc.prems kept_refl by simp
  next
    case (Cons e rest)
    show ?thesis
    proof (cases "trigger_of s e > now")
      case True
      then show ?thesis using Suc.prems Cons kept_refl by (auto simp: CR_event_def ASSERT_bind_Some)
    next
      case False
      have k0: "kept s (remove_timer e s)" by (rule remove_timer_kept[OF Suc.prems(1)])
      obtain st s1 u where s1: "CoreSignalEvent n notify e (remove_timer e s) = Some (st, s1)"
        and u: "(if Period (Timer (event s1 e)) \<noteq> 0
                  then do {
                    let s = put_event e (Timer_update (\<lambda>t. t\<lparr>TriggerTime := TriggerTime t + Period t\<rparr>)) s1;
                    s \<leftarrow> (if trigger_of s e \<le> now
                          then do {
                            let s = put_event e (Timer_update (TriggerTime_update (\<lambda>_. now))) s;
                            (_, s) \<leftarrow> CoreSignalEvent n notify (mEfiCheckTimerEvent s) s;
                            Some s
                          }
                          else Some s);
                    CoreInsertEventTimer e s
                  }
                  else Some s1) = Some u"
        and t: "CheckTimers_loop k n notify now u = Some t"
        using Suc.prems(3) Cons False by (auto simp: CR_event_def ASSERT_bind_Some bind_eq_Some_conv)
      have k1: "kept s s1"
        using kept_trans[OF k0] signal_kept[OF N kept_inv[OF k0] kept_free[OF k0 Suc.prems(2)] s1] by blast
      have f1: "event_inv s1" "event_lock_free s1" using kept_inv[OF k1] kept_free[OF k1 Suc.prems(2)] .
      have "kept s1 u"
      proof (cases "Period (Timer (event s1 e)) = 0")
        case True
        then show ?thesis using u kept_refl[OF f1(1)] by simp
      next
        case False
        define s2 where "s2 = put_event e (Timer_update (\<lambda>t. t\<lparr>TriggerTime := TriggerTime t + Period t\<rparr>)) s1"
        have k2: "kept s1 s2" unfolding s2_def by (rule Timer_kept[OF f1(1)])
        have f2: "event_inv s2" "event_lock_free s2" using kept_inv[OF k2] kept_free[OF k2 f1(2)] .
        define s3 where "s3 = put_event e (Timer_update (TriggerTime_update (\<lambda>_. now))) s2"
        have k3: "kept s2 s3" unfolding s3_def by (rule Timer_kept[OF f2(1)])
        have f3: "event_inv s3" "event_lock_free s3" using kept_inv[OF k3] kept_free[OF k3 f2(2)] .
        obtain s4 where "CoreInsertEventTimer e s4 = Some u"
          and "s4 = s2 \<or> (\<exists>st. CoreSignalEvent n notify (mEfiCheckTimerEvent s3) s3 = Some (st, s4))"
          using u False unfolding s2_def[symmetric] Let_def s3_def[symmetric]
          by (auto simp: bind_eq_Some_conv split: if_splits)
        moreover from this(2) have "kept s1 s4"
          using k2 kept_trans[OF k2 k3] signal_kept[OF N f3] kept_trans by blast
        ultimately show ?thesis using insert_timer_kept[OF kept_inv] kept_trans by blast
      qed
      then have ku: "kept s u" by (rule kept_trans[OF k1])
      show ?thesis using kept_trans[OF ku Suc.IH[OF kept_inv[OF ku] kept_free[OF ku Suc.prems(2)] t]] .
    qed
  qed
qed simp

lemma check_timers_kept:
  assumes N: "well_behaved notify" and s: "event_inv s" "event_lock_free s"
    and run: "CoreCheckTimers n notify e c s = Some t"
  shows "kept s t"
proof -
  obtain a now b u where a: "CoreAcquireLock mEfiTimerLock s = Some a" and b: "CoreCurrentSystemTime n notify a = Some (now, b)"
    and u: "CheckTimers_loop n n notify now b = Some u" and t: "CoreReleaseLock n notify mEfiTimerLock u = Some t"
    using run by (auto simp: CoreCheckTimers_def bind_eq_Some_conv)
  have fa: "event_inv a" "event_lock_free a" using acquired_kept_free[OF a s] by simp_all
  have kb: "kept a b" by (rule system_time_kept[OF N fa b])
  have "kept b u" by (rule check_loop_kept[OF N kept_inv[OF kb] kept_free[OF kb fa(2)] u])
  then show ?thesis using section_kept[OF N s a _ t] kept_trans[OF kb] by blast
qed

text \<open>
  Drivers' functions are well behaved over the table of functions they are given when they keep the contract
  whatever well-behaved table that is.
\<close>

definition drivers_well_behaved :: "'w drivers \<Rightarrow> bool" where
  "drivers_well_behaved drivers \<longleftrightarrow>
     (\<forall>table n a e c s s'. well_behaved table \<longrightarrow> event_inv s \<longrightarrow> event_lock_free s \<longrightarrow>
        drivers table n a e c s = Some s' \<longrightarrow> kept s s')"

lemma core_notify_contract:
  assumes "drivers_well_behaved drivers"
  shows "well_behaved (core_notify drivers n)"
proof (induction n)
  case 0
  show ?case by (simp add: well_behaved_def)
next
  case (Suc n)
  show ?case unfolding well_behaved_kept
  proof (intro allI impI)
    fix f e c s s'
    assume s: "event_inv s" "event_lock_free s" and run: "core_notify drivers (Suc n) f e c s = Some s'"
    show "kept s s'"
    proof (cases f)
      case CoreCheckTimers_function
      then show ?thesis using run check_timers_kept[OF Suc.IH s] by simp
    next
      case EfiEventEmptyFunction
      then show ?thesis using run kept_refl[OF s(1)] by simp
    next
      case (Driver_function a)
      then show ?thesis using run assms Suc.IH s unfolding drivers_well_behaved_def by auto
    qed
  qed
qed

lemma SignalCount_kept: "event_inv s \<Longrightarrow> kept s (put_event e (SignalCount_update f) s)"
  by (rule kept_update) (auto simp: event_inv_SignalCount)

lemma check_event_kept:
  assumes N: "well_behaved notify" and s: "event_inv s" "event_lock_free s" and run: "CoreCheckEvent n notify e s = Some (st, t)"
  shows "kept s t"
proof (cases "e = 0 \<or> \<not> live s e \<or> Type (event s e) AND EVT_NOTIFY_SIGNAL \<noteq> 0")
  case True
  then show ?thesis using run kept_refl[OF s(1)] by (auto simp: CoreCheckEvent_def split: if_splits)
next
  case False
  let ?first = "if SignalCount (event s e) = 0 \<and> Type (event s e) AND EVT_NOTIFY_WAIT \<noteq> 0
      then do { s \<leftarrow> CoreAcquireEventLock s; s \<leftarrow> (if SignalCount (event s e) = 0 then CoreNotifyEvent e s else Some s);
                CoreReleaseEventLock n notify s }
      else Some s"
  obtain s1 where s1: "?first = Some s1"
    and rest: "(if SignalCount (event s1 e) \<noteq> 0
        then do {
          s \<leftarrow> CoreAcquireEventLock s1;
          let (Status, s) = (if SignalCount (event s e) \<noteq> 0
                             then (EFI_SUCCESS, put_event e (SignalCount_update (\<lambda>_. 0)) s)
                             else (EFI_NOT_READY, s));
          s \<leftarrow> CoreReleaseEventLock n notify s;
          Some (Status, s)
        }
        else Some (EFI_NOT_READY, s1)) = Some (st, t)"
    using run False unfolding CoreCheckEvent_def by (auto simp: bind_eq_Some_conv)
  have k1: "kept s s1"
  proof (cases "SignalCount (event s e) = 0 \<and> Type (event s e) AND EVT_NOTIFY_WAIT \<noteq> 0")
    case True
    let ?a = "acquired gEventQueueLock s"
    obtain u where u: "CoreNotifyEvent e ?a = Some u" "CoreReleaseLock n notify gEventQueueLock u = Some s1"
      using s1 True acquire_event_lock[OF s] by (auto simp: CoreReleaseEventLock_def bind_eq_Some_conv)
    have "kept ?a u"
      by (rule notify_kept(1)[OF event_inv_acquired[OF s(1)] _ _ _ u(1)]) (use False True notify_types(2) in auto)
    then show ?thesis using section_kept[OF N s _ _ u(2)] acquire_event_lock[OF s] by (simp add: CoreAcquireEventLock_def)
  next
    case False
    then show ?thesis using s1 kept_refl[OF s(1)] by auto
  qed
  have f1: "event_inv s1" "event_lock_free s1" using kept_inv[OF k1] kept_free[OF k1 s(2)] .
  have "kept s1 t"
  proof (cases "SignalCount (event s1 e) = 0")
    case True
    then show ?thesis using rest kept_refl[OF f1(1)] by simp
  next
    case False
    let ?a = "acquired gEventQueueLock s1"
    have "CoreReleaseLock n notify gEventQueueLock (put_event e (SignalCount_update (\<lambda>_. 0)) ?a) = Some t"
      using rest False acquire_event_lock[OF f1] by (auto simp: CoreReleaseEventLock_def bind_eq_Some_conv)
    then show ?thesis using section_kept[OF N f1 _ SignalCount_kept[OF event_inv_acquired[OF f1(1)]]] acquire_event_lock[OF f1]
      by (simp add: CoreAcquireEventLock_def)
  qed
  then show ?thesis by (rule kept_trans[OF k1])
qed

lemma timer_tick_kept:
  assumes N: "well_behaved notify" and s: "event_inv s" "event_lock_free s" and run: "CoreTimerTick n notify d s = Some t"
  shows "kept s t"
proof -
  obtain a where a: "CoreAcquireLock mEfiSystemTimeLock s = Some a" using run by (auto simp: CoreTimerTick_def bind_eq_Some_conv)
  have "\<exists>u. (u = a\<lparr>mEfiSystemTime := mEfiSystemTime a + d\<rparr> \<or>
       (\<exists>st. CoreSignalEvent n notify (mEfiCheckTimerEvent a) (a\<lparr>mEfiSystemTime := mEfiSystemTime a + d\<rparr>) = Some (st, u)))
    \<and> CoreReleaseLock n notify mEfiSystemTimeLock u = Some t"
    using run a by (cases "mEfiTimerList a") (auto simp: CoreTimerTick_def Let_def bind_eq_Some_conv split: if_splits)
  then obtain u where u: "u = a\<lparr>mEfiSystemTime := mEfiSystemTime a + d\<rparr> \<or>
       (\<exists>st. CoreSignalEvent n notify (mEfiCheckTimerEvent a) (a\<lparr>mEfiSystemTime := mEfiSystemTime a + d\<rparr>) = Some (st, u))"
    and t: "CoreReleaseLock n notify mEfiSystemTimeLock u = Some t" by blast
  have fa: "event_inv a" "event_lock_free a" using acquired_kept_free[OF a s] by simp_all
  let ?b = "a\<lparr>mEfiSystemTime := mEfiSystemTime a + d\<rparr>"
  have kb: "kept a ?b" by (rule kept_update) (simp_all add: event_inv_fields fa)
  have "kept a u" using u kb kept_trans[OF kb] signal_kept[OF N kept_inv[OF kb] kept_free[OF kb fa(2)]] by blast
  then show ?thesis using section_kept[OF N s a _ t] by blast
qed

lemma set_timer_kept:
  assumes N: "well_behaved notify" and s: "event_inv s" "event_lock_free s"
    and run: "CoreSetTimer n notify tp e ty trig s = Some (st, t)"
  shows "kept s t"
proof (cases "e = 0 \<or> \<not> live s e \<or> ty > TimerRelative \<or> Type (event s e) AND EVT_TIMER = 0")
  case True
  then show ?thesis using run kept_refl[OF s(1)] by (auto simp: CoreSetTimer_def split: if_splits)
next
  case False
  obtain a where a: "CoreAcquireLock mEfiTimerLock s = Some a"
    using run False by (auto simp: CoreSetTimer_def bind_eq_Some_conv)
  have fa: "event_inv a" "event_lock_free a" using acquired_kept_free[OF a s] by simp_all
  define b where "b = put_event e (Timer_update (\<lambda>t. t\<lparr>TriggerTime := 0, Period := 0\<rparr>))
     (if TimerLink (Timer (event a e)) then remove_timer e a else a)"
  have kb: "kept a b"
  proof -
    have "kept a (if TimerLink (Timer (event a e)) then remove_timer e a else a)"
      using remove_timer_kept[OF fa(1)] kept_refl[OF fa(1)] by simp
    then show ?thesis unfolding b_def using kept_trans Timer_kept kept_inv by blast
  qed
  define trig' where "trig' = (if ty = TimerPeriodic \<and> trig = 0 then tp else trig)"
  define c where "c = (if ty = TimerPeriodic then put_event e (Timer_update (Period_update (\<lambda>_. trig'))) b else b)"
  have kc: "kept a c" unfolding c_def using kb kept_trans[OF kb Timer_kept[OF kept_inv[OF kb]]] by simp
  have fc: "event_inv c" "event_lock_free c" using kept_inv[OF kc] kept_free[OF kc fa(2)] .
  obtain u where t: "CoreReleaseLock n notify mEfiTimerLock u = Some t" and
    u: "u = b \<or> (\<exists>now d f. CoreCurrentSystemTime n notify c = Some (now, d)
          \<and> CoreInsertEventTimer e (put_event e (Timer_update (TriggerTime_update (\<lambda>_. now + trig'))) d) = Some f
          \<and> (u = f \<or> (\<exists>st. CoreSignalEvent n notify (mEfiCheckTimerEvent f) f = Some (st, u))))"
    using run False a
    apply (simp add: CoreSetTimer_def Let_def b_def[symmetric])
    apply (auto simp: c_def trig'_def bind_eq_Some_conv simp flip: b_def split: if_splits)
    done
  have "kept a u" using u
  proof (elim disjE exE conjE)
    fix now d f
    assume d: "CoreCurrentSystemTime n notify c = Some (now, d)"
      and f: "CoreInsertEventTimer e (put_event e (Timer_update (TriggerTime_update (\<lambda>_. now + trig'))) d) = Some f"
    have kd: "kept a d" using kept_trans[OF kc system_time_kept[OF N fc d]] .
    note ke = kept_trans[OF kd Timer_kept[OF kept_inv[OF kd]]]
    have kf: "kept a f" by (rule kept_trans[OF ke insert_timer_kept[OF kept_inv[OF ke] f]])
    show "kept a u" if "u = f" using that kf by simp
    show "kept a u" if "CoreSignalEvent n notify (mEfiCheckTimerEvent f) f = Some (st, u)" for st
      using kept_trans[OF kf signal_kept[OF N kept_inv[OF kf] kept_free[OF kf fa(2)] that]] .
  qed (use kb in simp)
  then show ?thesis using section_kept[OF N s a _ t] by blast
qed



text \<open>Drivers that log the events they are notified of.\<close>

definition log_drivers :: "EFI_EVENT list drivers" where
  "log_drivers table n a e c s = Some (s\<lparr>world := world s @ [e]\<rparr>)"

lemma log_drivers_well_behaved: "drivers_well_behaved log_drivers"
  unfolding drivers_well_behaved_def log_drivers_def
proof (intro allI impI)
  fix s s' :: "EFI_EVENT list DXE" and e
  assume inv: "event_inv s" and "Some (s\<lparr>world := world s @ [e]\<rparr>) = Some s'"
  then have s': "s' = s\<lparr>world := world s @ [e]\<rparr>" by simp
  have "gEfiCurrentTpl s \<le> TPL_HIGH_LEVEL" using inv by (simp add: event_inv_def)
  then show "kept s s'" unfolding s' by (intro kept_update event_inv_cong[OF inv]) simp_all
qed


section \<open>The timer database\<close>

lemma insert_before_later_eq:
  "insert_before_later trigger t e xs = takeWhile (\<lambda>x. trigger x \<le> t) xs @ e # dropWhile (\<lambda>x. trigger x \<le> t) xs"
  by (induction xs) (auto simp: not_le)

lemma set_insert_before_later [simp]: "set (insert_before_later trigger t e xs) = insert e (set xs)"
  by (induction xs) auto

lemma distinct_insert_before_later [simp]: "distinct (insert_before_later trigger t e xs) \<longleftrightarrow> e \<notin> set xs \<and> distinct xs"
  by (induction xs) auto

lemma sorted_insert_before_later:
  assumes "sorted_wrt (\<lambda>x y. trigger x \<le> trigger y) xs"
  shows "sorted_wrt (\<lambda>x y. trigger x \<le> trigger y) (insert_before_later trigger (trigger e) e xs)"
  using assms
proof (induction xs)
  case (Cons x xs)
  show ?case
  proof (cases "trigger x > trigger e")
    case True
    with Cons.prems show ?thesis by (auto intro: order_trans[of "trigger e"])
  next
    case False
    with Cons show ?thesis by (auto simp: not_less)
  qed
qed simp

text \<open>
  The invariant of the timer list: it holds exactly the live events whose timer link is set, without repetition and in
  the order of their trigger times; the event that runs the timer check is live.
\<close>

definition timer_inv :: "'w DXE \<Rightarrow> bool" where
  "timer_inv s \<longleftrightarrow>
     distinct (mEfiTimerList s) \<and> sorted_wrt (\<lambda>x y. trigger_of s x \<le> trigger_of s y) (mEfiTimerList s) \<and>
     (\<forall>e. e \<in> set (mEfiTimerList s) \<longrightarrow> e \<noteq> 0 \<and> live s e) \<and>
     (\<forall>e. live s e \<longrightarrow> (TimerLink (Timer (event s e)) \<longleftrightarrow> e \<in> set (mEfiTimerList s))) \<and>
     live s (mEfiCheckTimerEvent s) \<and> mEfiCheckTimerEvent s \<noteq> 0"

text \<open>The rest of the state the timer services see, kept by signalling at a priority no event is above.\<close>

definition timer_frame :: "'w DXE \<Rightarrow> 'w DXE \<Rightarrow> bool" where
  "timer_frame s t \<longleftrightarrow>
     gEfiCurrentTpl t = gEfiCurrentTpl s \<and> world t = world s \<and> mEfiSystemTime t = mEfiSystemTime s \<and>
     mEfiCheckTimerEvent t = mEfiCheckTimerEvent s \<and> locks_kept s t \<and>
     (\<forall>e. Signature (event t e) = Signature (event s e) \<and> (SignalCount (event s e) \<noteq> 0 \<longrightarrow> SignalCount (event t e) \<noteq> 0))"

lemma timer_frame_refl [simp]: "timer_frame s s"
  by (simp add: timer_frame_def)

lemma timer_frame_trans: "timer_frame s t \<Longrightarrow> timer_frame t u \<Longrightarrow> timer_frame s u"
  using locks_kept_trans by (auto simp: timer_frame_def)

lemma SignalCount_signal_effect:
  "SignalCount (event (signal_effect e s) x) = (if x = e \<and> SignalCount (event s e) = 0 then 1 else SignalCount (event s x))"
  by (simp add: signal_effect_eq)

lemma signal_above_all:
  assumes s: "settled s" and e: "live s e" "e \<noteq> 0" and cur: "TPL_HIGH_LEVEL - 1 \<le> gEfiCurrentTpl s" and n: "33 < n"
  shows "\<exists>s'. CoreSignalEvent n notify e s = Some (EFI_SUCCESS, s') \<and> view s' = view (signal_effect e s) \<and> settled s' \<and> locks_kept s s'"
proof -
  have inv: "event_inv (signal_effect e s)" using s e(1) by (intro event_inv_signal_effect) (auto simp: settled_def)
  have np: "nothing_pending_above (gEfiCurrentTpl s) (signal_effect e s)"
  proof -
    have "30 \<le> unat (gEfiCurrentTpl s)" using cur by (simp add: word_le_nat_alt)
    moreover have "\<And>k. bit (gEventPending (signal_effect e s)) k \<Longrightarrow> k < 31" using inv by (auto simp: event_inv_def pending_inv_def)
    ultimately show ?thesis by (force simp: nothing_pending_above_def)
  qed
  have q: "queued_above (gEfiCurrentTpl s) (signal_effect e s) = []" by (rule settled_nothing_queued[OF inv np])
  obtain s' where s': "CoreSignalEvent n notify e s = Some (EFI_SUCCESS, s')" "dispatched (\<lambda>_ w. w) (signal_effect e s) s'"
    "settled s'" "locks_kept s s'"
    using signal_exact[OF s e, of "\<lambda>_ w. w" notify n] q n by (auto simp: quiet_on_def)
  then show ?thesis using dispatched_settled[OF inv _ s'(2)] np by auto
qed

lemma signal_timer_frame:
  assumes s: "settled s" and e: "live s e" "e \<noteq> 0" and cur: "TPL_HIGH_LEVEL - 1 \<le> gEfiCurrentTpl s" and n: "33 < n"
  shows "\<exists>s'. CoreSignalEvent n notify e s = Some (EFI_SUCCESS, s') \<and> settled s' \<and> timer_frame s s'
    \<and> mEfiTimerList s' = mEfiTimerList s \<and> (\<forall>x. Timer (event s' x) = Timer (event s x)) \<and> SignalCount (event s' e) \<noteq> 0"
proof -
  obtain s' where s': "CoreSignalEvent n notify e s = Some (EFI_SUCCESS, s')" "view s' = view (signal_effect e s)"
    "settled s'" "locks_kept s s'"
    using signal_above_all[OF assms] by blast
  note v = view_eqD[OF s'(2)]
  have "other_fields s' = other_fields s" using v(6) by simp
  then have "mEfiTimerList s' = mEfiTimerList s" "mEfiSystemTime s' = mEfiSystemTime s" "mEfiCheckTimerEvent s' = mEfiCheckTimerEvent s"
    by (simp_all add: other_fields_def)
  with s' v show ?thesis by (auto simp: timer_frame_def SignalCount_signal_effect)
qed

text \<open>What a timer check at time \<open>now\<close> makes of the timer of an expired event.\<close>

definition rearmed :: "UINT64 \<Rightarrow> TIMER_EVENT_INFO \<Rightarrow> TIMER_EVENT_INFO" where
  "rearmed now t =
     (if Period t = 0 then t\<lparr>TimerLink := False\<rparr>
      else t\<lparr>TriggerTime := (if now < TriggerTime t + Period t then TriggerTime t + Period t else now + Period t)\<rparr>)"

definition timers_checked :: "UINT64 \<Rightarrow> 'w DXE \<Rightarrow> 'w DXE \<Rightarrow> bool" where
  "timers_checked now s t \<longleftrightarrow>
     (\<forall>e. Timer (event t e) =
        (if e \<in> set (mEfiTimerList s) \<and> trigger_of s e \<le> now then rearmed now (Timer (event s e)) else Timer (event s e))) \<and>
     set (mEfiTimerList t) = {e \<in> set (mEfiTimerList s). now < trigger_of s e \<or> Period (Timer (event s e)) \<noteq> 0} \<and>
     (\<forall>e\<in>set (mEfiTimerList t). now < trigger_of t e) \<and>
     (\<forall>e\<in>set (mEfiTimerList s). trigger_of s e \<le> now \<longrightarrow> SignalCount (event t e) \<noteq> 0)"

text \<open>How many rounds of the loop a timer still takes.\<close>

definition rounds :: "UINT64 \<Rightarrow> TIMER_EVENT_INFO \<Rightarrow> nat" where
  "rounds now t = (if now < TriggerTime t then 0 else if Period t = 0 \<or> now < TriggerTime t + Period t then 1 else 2)"

definition no_wrap :: "UINT64 \<Rightarrow> TIMER_EVENT_INFO \<Rightarrow> bool" where
  "no_wrap now t \<longleftrightarrow> uint now + uint (Period t) < 2 ^ 64"


lemma settled_Timer: "settled s \<Longrightarrow> settled (put_event e (Timer_update f) s)"
  by (simp add: settled_def event_inv_Timer nothing_pending_above_def)

lemma settled_fields:
  "settled s \<Longrightarrow> settled (s\<lparr>mEfiTimerList := l\<rparr>)" "settled s \<Longrightarrow> settled (s\<lparr>mEfiSystemTime := t\<rparr>)"
  by (simp_all add: settled_def event_inv_fields nothing_pending_above_def)

lemma timer_frame_Timer: "timer_frame s (put_event e (Timer_update f) s)"
  by (simp add: timer_frame_def locks_kept_def)

lemma remove_timer_fields [simp]:
  "mEfiTimerList (remove_timer e s) = remove1 e (mEfiTimerList s)"
  "event (remove_timer e s) = (event s)(e := (event s e)\<lparr>Timer := (Timer (event s e))\<lparr>TimerLink := False\<rparr>\<rparr>)"
  "gEfiCurrentTpl (remove_timer e s) = gEfiCurrentTpl s" "locks (remove_timer e s) = locks s"
  "mEfiCheckTimerEvent (remove_timer e s) = mEfiCheckTimerEvent s" "mEfiSystemTime (remove_timer e s) = mEfiSystemTime s"
  "world (remove_timer e s) = world s"
  by (cases "event s e"; simp add: remove_timer_def)+

text \<open>
  The head \<open>e\<close> of the timer list has been taken off and signalled: \<open>rest\<close> is left, and only the timer fields of
  \<open>e\<close> may differ.
\<close>

definition head_taken :: "EFI_EVENT \<Rightarrow> EFI_EVENT list \<Rightarrow> 'w DXE \<Rightarrow> 'w DXE \<Rightarrow> bool" where
  "head_taken e rest s u \<longleftrightarrow>
     settled u \<and> timer_frame s u \<and> mEfiTimerList u = rest \<and> SignalCount (event u e) \<noteq> 0 \<and>
     \<not> TimerLink (Timer (event u e)) \<and> (\<forall>x. x \<noteq> e \<longrightarrow> Timer (event u x) = Timer (event s x))"

lemma timer_inv_Cons:
  assumes "timer_inv s" "mEfiTimerList s = e # rest"
  shows "e \<noteq> 0" "live s e" "e \<notin> set rest" "distinct rest" "TimerLink (Timer (event s e))"
    "sorted_wrt (\<lambda>x y. trigger_of s x \<le> trigger_of s y) rest" "x \<in> set rest \<Longrightarrow> x \<noteq> 0 \<and> live s x"
    "live s x \<Longrightarrow> TimerLink (Timer (event s x)) \<longleftrightarrow> x = e \<or> x \<in> set rest"
    "live s (mEfiCheckTimerEvent s)" "mEfiCheckTimerEvent s \<noteq> 0"
  using assms by (auto simp: timer_inv_def)

lemma head_taken_facts:
  assumes s: "timer_inv s" "mEfiTimerList s = e # rest" and u: "head_taken e rest s u"
  shows "live u x = live s x" "sorted_wrt (\<lambda>x y. trigger_of u x \<le> trigger_of u y) rest"
    "live u x \<Longrightarrow> TimerLink (Timer (event u x)) \<longleftrightarrow> x \<in> set rest"
    "mEfiCheckTimerEvent u = mEfiCheckTimerEvent s" "gEfiCurrentTpl u = gEfiCurrentTpl s"
proof -
  note ti = timer_inv_Cons[OF s]
  show live: "live u x = live s x" for x using u by (simp add: head_taken_def timer_frame_def)
  have T: "x \<noteq> e \<Longrightarrow> Timer (event u x) = Timer (event s x)" for x using u by (simp add: head_taken_def)
  show "sorted_wrt (\<lambda>x y. trigger_of u x \<le> trigger_of u y) rest"
    using ti(3) T by (intro sorted_wrt_mono_rel[OF _ ti(6)]) (metis (no_types, lifting))
  show "TimerLink (Timer (event u x)) \<longleftrightarrow> x \<in> set rest" if "live u x"
    using u ti(8)[of x] ti(3) T[of x] that live by (cases "x = e") (auto simp: head_taken_def)
  show "mEfiCheckTimerEvent u = mEfiCheckTimerEvent s" "gEfiCurrentTpl u = gEfiCurrentTpl s"
    using u by (simp_all add: head_taken_def timer_frame_def)
qed

lemma timer_inv_head_taken:
  assumes "timer_inv s" "mEfiTimerList s = e # rest" "head_taken e rest s u"
  shows "timer_inv u"
proof -
  note f = head_taken_facts[OF assms] and ti = timer_inv_Cons[OF assms(1,2)]
  have "mEfiTimerList u = rest" using assms(3) by (simp add: head_taken_def)
  then show ?thesis unfolding timer_inv_def using f ti by simp
qed

lemma insert_timer_ok:
  assumes s: "timer_inv s" "mEfiTimerList s = e # rest" "Lock (locks s mEfiTimerLock) = EfiLockAcquired"
    and u: "head_taken e rest s u"
  obtains t where "CoreInsertEventTimer e u = Some t" "timer_inv t" "settled t" "timer_frame s t" "set (mEfiTimerList t) = insert e (set rest)"
    "SignalCount (event t e) \<noteq> 0"
    "Timer (event t e) = (Timer (event u e))\<lparr>TimerLink := True\<rparr>" "\<And>x. x \<noteq> e \<Longrightarrow> Timer (event t x) = Timer (event s x)"
proof -
  note f = head_taken_facts[OF s(1,2) u] and ti = timer_inv_Cons[OF s(1,2)]
  have u': "settled u" "timer_frame s u" "mEfiTimerList u = rest" "SignalCount (event u e) \<noteq> 0"
    "\<And>x. x \<noteq> e \<Longrightarrow> Timer (event u x) = Timer (event s x)"
    using u by (simp_all add: head_taken_def)
  let ?t = "put_event e (Timer_update (TimerLink_update (\<lambda>_. True)))
     (u\<lparr>mEfiTimerList := insert_before_later (trigger_of u) (trigger_of u e) e rest\<rparr>)"
  have "list_all (\<lambda>x. live u x) (takeWhile (\<lambda>x. trigger_of u x \<le> trigger_of u e) rest)"
    using ti(7) f(1) by (auto simp: list_all_iff dest: set_takeWhileD)
  moreover have "Lock (locks u mEfiTimerLock) = EfiLockAcquired" using s(3) u'(2) by (simp add: timer_frame_def locks_kept_def)
  ultimately have "CoreInsertEventTimer e u = Some ?t"
    using u'(3) by (simp add: CoreInsertEventTimer_def ASSERT_LOCKED_def)
  moreover have trig: "trigger_of ?t x = trigger_of u x" for x by simp
  moreover have "timer_inv ?t"
    unfolding timer_inv_def trig using sorted_insert_before_later[OF f(2), of e] ti f by auto
  moreover have "settled ?t" by (intro settled_Timer settled_fields u'(1))
  moreover have "timer_frame s ?t"
    by (rule timer_frame_trans[OF u'(2)]) (simp add: timer_frame_def locks_kept_def)
  ultimately show thesis using u'(4,5) by (intro that[of ?t]) simp_all
qed

text \<open>The head of the list has expired: it is taken off and signalled.\<close>

lemma take_head:
  assumes s: "settled s" "timer_inv s" and cur: "gEfiCurrentTpl s = TPL_HIGH_LEVEL - 1" and n: "33 < n"
    and q: "mEfiTimerList s = e # rest"
  obtains u where "CoreSignalEvent n notify e (remove_timer e s) = Some (EFI_SUCCESS, u)" "head_taken e rest s u"
    "Timer (event u e) = (Timer (event s e))\<lparr>TimerLink := False\<rparr>"
proof -
  note ti = timer_inv_Cons[OF s(2) q]
  have "settled (remove_timer e s)" unfolding remove_timer_def by (intro settled_Timer settled_fields s(1))
  then obtain u where u: "CoreSignalEvent n notify e (remove_timer e s) = Some (EFI_SUCCESS, u)" "settled u"
    "timer_frame (remove_timer e s) u" "mEfiTimerList u = rest" "\<And>x. Timer (event u x) = Timer (event (remove_timer e s) x)"
    "SignalCount (event u e) \<noteq> 0"
    using signal_timer_frame[of "remove_timer e s" e n notify] ti(1,2) cur n q by auto
  have "timer_frame s (remove_timer e s)" by (simp add: timer_frame_def locks_kept_def)
  with u show thesis by (intro that[of u]) (auto simp: head_taken_def timer_frame_trans)
qed

lemma head_taken_Timer:
  assumes "head_taken e rest s u" "\<not> TimerLink (f (Timer (event u e)))"
  shows "head_taken e rest s (put_event e (Timer_update f) u)"
proof -
  have "timer_frame s u" using assms(1) by (simp add: head_taken_def)
  then have "timer_frame s (put_event e (Timer_update f) u)" by (rule timer_frame_trans[OF _ timer_frame_Timer])
  with assms show ?thesis by (simp add: head_taken_def settled_Timer)
qed

text \<open>The new trigger time of a periodic timer, and the extra check when it has been missed.\<close>

lemma rearm_head:
  assumes s: "timer_inv s" "mEfiTimerList s = e # rest" "gEfiCurrentTpl s = TPL_HIGH_LEVEL - 1" and n: "33 < n"
    and u: "head_taken e rest s u" and t: "TriggerTime (Timer (event u e)) = t"
  obtains v where "(if t \<le> now
        then do {
          let s = put_event e (Timer_update (TriggerTime_update (\<lambda>_. now))) u;
          (_, s) \<leftarrow> CoreSignalEvent n notify (mEfiCheckTimerEvent s) s;
          Some s
        }
        else Some u) = Some v" "head_taken e rest s v"
    "Timer (event v e) = (Timer (event u e))\<lparr>TriggerTime := if now < t then t else now\<rparr>"
proof (cases "now < t")
  case True
  then show thesis using u t by (intro that[of u]) auto
next
  case False
  define w where "w = put_event e (Timer_update (TriggerTime_update (\<lambda>_. now))) u"
  have w: "head_taken e rest s w" unfolding w_def using u by (intro head_taken_Timer) (simp_all add: head_taken_def)
  note f = head_taken_facts[OF s(1,2) w] and ti = timer_inv_Cons[OF s(1,2)]
  have "settled w" using w by (simp add: head_taken_def)
  from signal_timer_frame[OF this, of "mEfiCheckTimerEvent w" n notify]
  obtain v where v: "CoreSignalEvent n notify (mEfiCheckTimerEvent w) w = Some (EFI_SUCCESS, v)" "settled v" "timer_frame w v"
    "mEfiTimerList v = mEfiTimerList w" "\<And>x. Timer (event v x) = Timer (event w x)"
    using f ti s(3) n by auto
  have "timer_frame s v" using w by (intro timer_frame_trans[OF _ v(3)]) (simp add: head_taken_def)
  moreover have "SignalCount (event v e) \<noteq> 0" using w v(3) by (simp add: head_taken_def timer_frame_def)
  ultimately have "head_taken e rest s v" using w v(2,4,5) by (simp add: head_taken_def)
  then show thesis using False v(1,5) by (intro that[of v]) (auto simp: w_def Let_def)
qed

text \<open>One round of the check.\<close>

lemma check_round:
  assumes s: "settled s" "timer_inv s" and cur: "gEfiCurrentTpl s = TPL_HIGH_LEVEL - 1"
    and lk: "Lock (locks s mEfiTimerLock) = EfiLockAcquired" and n: "33 < n"
    and q: "mEfiTimerList s = e # rest" and exp: "trigger_of s e \<le> now"
  obtains s' where "CheckTimers_loop (Suc k) n notify now s = CheckTimers_loop k n notify now s'"
    "settled s'" "timer_inv s'" "timer_frame s s'" "SignalCount (event s' e) \<noteq> 0"
    "\<And>x. x \<noteq> e \<Longrightarrow> Timer (event s' x) = Timer (event s x)"
    "Period (Timer (event s e)) = 0 \<Longrightarrow>
       set (mEfiTimerList s') = set rest \<and> Timer (event s' e) = (Timer (event s e))\<lparr>TimerLink := False\<rparr>"
    "Period (Timer (event s e)) \<noteq> 0 \<Longrightarrow> set (mEfiTimerList s') = insert e (set rest) \<and>
       Timer (event s' e) = (let t = TriggerTime (Timer (event s e)) + Period (Timer (event s e))
          in (Timer (event s e))\<lparr>TriggerTime := if now < t then t else now\<rparr>)"
proof -
  note ti = timer_inv_Cons[OF s(2) q]
  obtain u where u: "CoreSignalEvent n notify e (remove_timer e s) = Some (EFI_SUCCESS, u)" "head_taken e rest s u"
    "Timer (event u e) = (Timer (event s e))\<lparr>TimerLink := False\<rparr>"
    using take_head[OF s cur n q] by blast
  show thesis
  proof (cases "Period (Timer (event s e)) = 0")
    case True
    then have "CheckTimers_loop (Suc k) n notify now s = CheckTimers_loop k n notify now u"
      using q ti(2) leD[OF exp] u(1,3) by (simp add: CR_event_def Let_def)
    then show thesis using True u(2,3) timer_inv_head_taken[OF s(2) q u(2)]
      by (intro that[of u]) (simp_all add: head_taken_def)
  next
    case False
    define v where "v = put_event e (Timer_update (\<lambda>t. t\<lparr>TriggerTime := TriggerTime t + Period t\<rparr>)) u"
    have v: "head_taken e rest s v" unfolding v_def using u(2) by (intro head_taken_Timer) (simp_all add: head_taken_def)
    let ?t = "trigger_of s e + Period (Timer (event s e))"
    have tv: "Timer (event v e) = (Timer (event s e))\<lparr>TimerLink := False, TriggerTime := ?t\<rparr>" using u(3) by (simp add: v_def)
    obtain w where w: "(if ?t \<le> now
        then do {
          let s = put_event e (Timer_update (TriggerTime_update (\<lambda>_. now))) v;
          (_, s) \<leftarrow> CoreSignalEvent n notify (mEfiCheckTimerEvent s) s;
          Some s
        }
        else Some v) = Some w" "head_taken e rest s w"
      "Timer (event w e) = (Timer (event v e))\<lparr>TriggerTime := if now < ?t then ?t else now\<rparr>"
      using rearm_head[OF s(2) q cur n v, of ?t now notify] tv by auto
    obtain t where t: "CoreInsertEventTimer e w = Some t" "timer_inv t" "settled t" "timer_frame s t"
      "set (mEfiTimerList t) = insert e (set rest)" "SignalCount (event t e) \<noteq> 0"
      "Timer (event t e) = (Timer (event w e))\<lparr>TimerLink := True\<rparr>" "\<And>x. x \<noteq> e \<Longrightarrow> Timer (event t x) = Timer (event s x)"
      using insert_timer_ok[OF s(2) q lk w(2)] by blast
    have "CheckTimers_loop (Suc k) n notify now s = CheckTimers_loop k n notify now t"
      using q ti(2) leD[OF exp] u(1,3) False w(1) t(1) tv by (simp add: CR_event_def v_def[symmetric] del: Let_def)
    then show thesis using False t w(3) tv ti(5) by (intro that[of t]) (simp_all add: Let_def)
  qed
qed

lemma no_wrap_later:
  assumes "no_wrap now t" "Period t \<noteq> 0"
  shows "now < now + Period t"
proof -
  have "uint (now + Period t) = uint now + uint (Period t)"
    using assms(1) uint_add_lem[of now "Period t"] by (simp add: no_wrap_def)
  moreover have "0 < uint (Period t)" using assms(2) uint_0_iff uint_ge_0 by (metis order_le_less)
  ultimately show ?thesis by (simp add: word_less_def)
qed

definition rounds_left :: "UINT64 \<Rightarrow> 'w DXE \<Rightarrow> nat" where
  "rounds_left now s = (\<Sum>e\<in>set (mEfiTimerList s). rounds now (Timer (event s e)))"

lemma rounds_left_Cons:
  "mEfiTimerList s = e # rest \<Longrightarrow> e \<notin> set rest \<Longrightarrow>
   rounds_left now s = rounds now (Timer (event s e)) + (\<Sum>x\<in>set rest. rounds now (Timer (event s x)))"
  by (simp add: rounds_left_def)

text \<open>A round that re-arms or drops the head brings the loop one round closer to its end.\<close>

lemma round_progress:
  assumes "e \<notin> set rest" "mEfiTimerList s = e # rest" "trigger_of s e \<le> now" "no_wrap now (Timer (event s e))"
    and same: "\<And>x. x \<noteq> e \<Longrightarrow> Timer (event s' x) = Timer (event s x)"
    and once: "Period (Timer (event s e)) = 0 \<Longrightarrow> set (mEfiTimerList s') = set rest"
    and again: "Period (Timer (event s e)) \<noteq> 0 \<Longrightarrow> set (mEfiTimerList s') = insert e (set rest) \<and>
       Timer (event s' e) = (let t = TriggerTime (Timer (event s e)) + Period (Timer (event s e))
          in (Timer (event s e))\<lparr>TriggerTime := if now < t then t else now\<rparr>)"
  shows "Suc (rounds_left now s') = rounds_left now s"
proof -
  have rest: "(\<Sum>x\<in>set rest. rounds now (Timer (event s' x))) = (\<Sum>x\<in>set rest. rounds now (Timer (event s x)))"
  proof (intro sum.cong refl)
    fix x assume "x \<in> set rest"
    then have "x \<noteq> e" using assms(1) by blast
    then show "rounds now (Timer (event s' x)) = rounds now (Timer (event s x))" by (simp add: same)
  qed
  show ?thesis
  proof (cases "Period (Timer (event s e)) = 0")
    case True
    then show ?thesis using once rest assms(3) unfolding rounds_left_Cons[OF assms(2,1)]
      by (simp add: rounds_left_def rounds_def leD)
  next
    case False
    have "rounds now (Timer (event s e)) = Suc (rounds now (Timer (event s' e)))"
      using again[OF False] no_wrap_later[OF assms(4) False] False assms(3) by (auto simp: rounds_def Let_def leD)
    then show ?thesis using again[OF False] rest assms(1) unfolding rounds_left_Cons[OF assms(2,1)]
      by (simp add: rounds_left_def)
  qed
qed

lemma timers_checked_step:
  assumes q: "mEfiTimerList s = e # rest" "e \<notin> set rest" and exp: "trigger_of s e \<le> now" and nw: "no_wrap now (Timer (event s e))"
    and sc: "SignalCount (event s' e) \<noteq> 0" and same: "\<And>x. x \<noteq> e \<Longrightarrow> Timer (event s' x) = Timer (event s x)"
    and once: "Period (Timer (event s e)) = 0 \<Longrightarrow>
       set (mEfiTimerList s') = set rest \<and> Timer (event s' e) = (Timer (event s e))\<lparr>TimerLink := False\<rparr>"
    and again: "Period (Timer (event s e)) \<noteq> 0 \<Longrightarrow> set (mEfiTimerList s') = insert e (set rest) \<and>
       Timer (event s' e) = (let t = TriggerTime (Timer (event s e)) + Period (Timer (event s e))
          in (Timer (event s e))\<lparr>TriggerTime := if now < t then t else now\<rparr>)"
    and fr: "timer_frame s' t" and chk: "timers_checked now s' t"
  shows "timers_checked now s t"
proof -
  have later: "now < now + Period (Timer (event s e))" if "Period (Timer (event s e)) \<noteq> 0" using no_wrap_later[OF nw that] .
  have same_rest: "Timer (event s' x) = Timer (event s x)" if "x \<in> set rest" for x
    using same[of x] that q(2) by (cases "x = e") auto
  have timer_e: "Timer (event t e) = rearmed now (Timer (event s e))"
  proof (cases "Period (Timer (event s e)) = 0")
    case True
    then show ?thesis using chk once q(2) by (simp add: timers_checked_def rearmed_def)
  next
    case False
    then show ?thesis using chk again[OF False] later[OF False] by (auto simp: timers_checked_def rearmed_def Let_def not_less)
  qed
  have timer_x: "Timer (event t x) = (if x \<in> set rest \<and> trigger_of s x \<le> now then rearmed now (Timer (event s x)) else Timer (event s x))"
    if "x \<noteq> e" for x
    using chk same[OF that] once again that by (cases "Period (Timer (event s e)) = 0") (simp_all add: timers_checked_def)
  have set_t: "set (mEfiTimerList t) = {x \<in> set (mEfiTimerList s). now < trigger_of s x \<or> Period (Timer (event s x)) \<noteq> 0}"
  proof (cases "Period (Timer (event s e)) = 0")
    case True
    then have "set (mEfiTimerList t) = {x \<in> set rest. now < trigger_of s' x \<or> Period (Timer (event s' x)) \<noteq> 0}"
      using chk once by (simp add: timers_checked_def)
    also have "\<dots> = {x \<in> set rest. now < trigger_of s x \<or> Period (Timer (event s x)) \<noteq> 0}" using same_rest by (intro Collect_cong conj_cong refl) simp
    also have "\<dots> = {x \<in> set (mEfiTimerList s). now < trigger_of s x \<or> Period (Timer (event s x)) \<noteq> 0}"
      unfolding q(1) using True leD[OF exp] by auto
    finally show ?thesis .
  next
    case False
    then have "set (mEfiTimerList t) = {x \<in> insert e (set rest). now < trigger_of s' x \<or> Period (Timer (event s' x)) \<noteq> 0}"
      using chk again by (simp add: timers_checked_def)
    also have "\<dots> = {x \<in> insert e (set rest). now < trigger_of s x \<or> Period (Timer (event s x)) \<noteq> 0}"
    proof (intro Collect_cong conj_cong refl)
      fix x assume "x \<in> insert e (set rest)"
      then show "(now < trigger_of s' x \<or> Period (Timer (event s' x)) \<noteq> 0) = (now < trigger_of s x \<or> Period (Timer (event s x)) \<noteq> 0)"
        using same_rest[of x] conjunct2[OF again[OF False]] False by (cases "x = e") (simp_all add: Let_def)
    qed
    finally show ?thesis using q by simp
  qed
  have signalled: "SignalCount (event t x) \<noteq> 0" if "x \<in> set (mEfiTimerList s)" "trigger_of s x \<le> now" for x
  proof (cases "x = e")
    case True
    then show ?thesis using sc fr by (simp add: timer_frame_def)
  next
    case False
    then have "x \<in> set (mEfiTimerList s')" using that(1) q once again by (cases "Period (Timer (event s e)) = 0") auto
    then show ?thesis using chk same[OF False] that(2) by (simp add: timers_checked_def)
  qed
  have timers: "Timer (event t x) = (if x \<in> set (mEfiTimerList s) \<and> trigger_of s x \<le> now
      then rearmed now (Timer (event s x)) else Timer (event s x))" for x
    using timer_e timer_x[of x] exp by (cases "x = e") (simp_all add: q(1))
  have "\<forall>x\<in>set (mEfiTimerList t). now < trigger_of t x" using chk unfolding timers_checked_def by blast
  then show ?thesis unfolding timers_checked_def using timers set_t signalled by blast
qed

lemma check_loop_exact:
  assumes "settled s" "timer_inv s" "gEfiCurrentTpl s = TPL_HIGH_LEVEL - 1" "Lock (locks s mEfiTimerLock) = EfiLockAcquired" "33 < n"
    "\<forall>e\<in>set (mEfiTimerList s). no_wrap now (Timer (event s e))" "rounds_left now s < k"
  shows "\<exists>t. CheckTimers_loop k n notify now s = Some t \<and> settled t \<and> timer_inv t \<and> timer_frame s t \<and> timers_checked now s t"
  using assms
proof (induction k arbitrary: s)
  case (Suc k)
  show ?case
  proof (cases "\<exists>e rest. mEfiTimerList s = e # rest \<and> trigger_of s e \<le> now")
    case False
    have "now < trigger_of s x \<and> \<not> trigger_of s x \<le> now" if "x \<in> set (mEfiTimerList s)" for x
      using False Suc.prems(2) that by (cases "mEfiTimerList s") (auto simp: timer_inv_def not_le)
    then have "timers_checked now s s" by (auto simp: timers_checked_def)
    moreover have "CheckTimers_loop (Suc k) n notify now s = Some s"
      using False Suc.prems(2) by (cases "mEfiTimerList s") (auto simp: CR_event_def timer_inv_def not_le)
    ultimately show ?thesis using Suc.prems by auto
  next
    case True
    then obtain e rest where q: "mEfiTimerList s = e # rest" and exp: "trigger_of s e \<le> now" by blast
    have e: "e \<notin> set rest" using timer_inv_Cons[OF Suc.prems(2) q] by simp
    have nw: "no_wrap now (Timer (event s e))" using Suc.prems(6) q by simp
    obtain s' where s': "CheckTimers_loop (Suc k) n notify now s = CheckTimers_loop k n notify now s'"
      "settled s'" "timer_inv s'" "timer_frame s s'" "SignalCount (event s' e) \<noteq> 0"
      "\<And>x. x \<noteq> e \<Longrightarrow> Timer (event s' x) = Timer (event s x)"
      "Period (Timer (event s e)) = 0 \<Longrightarrow>
         set (mEfiTimerList s') = set rest \<and> Timer (event s' e) = (Timer (event s e))\<lparr>TimerLink := False\<rparr>"
      "Period (Timer (event s e)) \<noteq> 0 \<Longrightarrow> set (mEfiTimerList s') = insert e (set rest) \<and>
         Timer (event s' e) = (let t = TriggerTime (Timer (event s e)) + Period (Timer (event s e))
            in (Timer (event s e))\<lparr>TriggerTime := if now < t then t else now\<rparr>)"
      using check_round[OF Suc.prems(1-5) q exp] by blast
    have "rounds_left now s' < k"
      using round_progress[OF e q exp nw s'(6) _ s'(8)] s'(7) Suc.prems(7) by auto
    moreover have "no_wrap now (Timer (event s' x))" if "x \<in> set (mEfiTimerList s')" for x
      using that s'(6-8) Suc.prems(6) q e
      by (cases "Period (Timer (event s e)) = 0"; cases "x = e") (auto simp: no_wrap_def Let_def)
    moreover have "gEfiCurrentTpl s' = TPL_HIGH_LEVEL - 1" "Lock (locks s' mEfiTimerLock) = EfiLockAcquired"
      using s'(4) Suc.prems(3,4) by (simp_all add: timer_frame_def locks_kept_def)
    ultimately obtain t where t: "CheckTimers_loop k n notify now s' = Some t" "settled t" "timer_inv t" "timer_frame s' t" "timers_checked now s' t"
      using Suc.IH[OF s'(2,3) _ _ Suc.prems(5)] by blast
    have "timers_checked now s t" by (rule timers_checked_step[OF q e exp nw s'(5-8) t(4,5)])
    then show ?thesis using s'(1) t timer_frame_trans[OF s'(4) t(4)] by auto
  qed
qed simp


lemma timer_cong:
  assumes "event s = event s'" "mEfiTimerList s = mEfiTimerList s'" "mEfiCheckTimerEvent s = mEfiCheckTimerEvent s'"
  shows "timer_inv s = timer_inv s'" "timers_checked now s t = timers_checked now s' t" "timers_checked now t s = timers_checked now t s'"
    "rounds_left now s = rounds_left now s'"
  using assms by (simp_all add: timer_inv_def timers_checked_def rounds_left_def)

lemma settled_acquired:
  assumes "settled s" "l \<noteq> gEventQueueLock" "gEfiCurrentTpl s \<le> Tpl (locks s l)"
  shows "settled (acquired l s)"
proof -
  have "unat (gEfiCurrentTpl s) \<le> unat (Tpl (locks s l))" using assms(3) by (simp add: word_le_nat_alt)
  then show ?thesis using assms(1,2) event_inv_acquired[of s l]
    by (force simp: settled_def nothing_pending_above_def)
qed

lemma settled_released:
  assumes "settled s" "l \<noteq> gEventQueueLock" "OwnerTpl (locks s l) = gEfiCurrentTpl s"
  shows "settled (released l s)"
proof -
  have "event_inv (released l s)"
    by (rule event_inv_cong[of s]) (use assms in \<open>auto simp: settled_def event_inv_def\<close>)
  then show ?thesis using assms by (simp add: settled_def nothing_pending_above_def)
qed

lemma rounds_left_bound: "rounds_left now s \<le> 2 * length (mEfiTimerList s)"
proof -
  have "rounds_left now s \<le> (\<Sum>e\<in>set (mEfiTimerList s). 2)"
    unfolding rounds_left_def by (rule sum_mono) (simp add: rounds_def)
  also have "\<dots> \<le> 2 * length (mEfiTimerList s)" by (simp add: card_length)
  finally show ?thesis .
qed

lemma system_time_exact:
  assumes s: "settled s" and lk: "Lock (locks s mEfiSystemTimeLock) = EfiLockReleased" and n: "2 \<le> n"
  obtains t where "CoreCurrentSystemTime n notify s = Some (mEfiSystemTime s, t)" "view t = view s" "settled t" "locks_kept s t"
proof -
  have inv: "event_inv s" using s by (simp add: settled_def)
  then have lev: "Tpl (locks s mEfiSystemTimeLock) = TPL_HIGH_LEVEL" by (simp add: event_inv_def lock_levels_def)
  define m where "m = n - 2"
  have m: "n = Suc (Suc m)" using n by (simp add: m_def)
  let ?a = "acquired mEfiSystemTimeLock s"
  have acq: "CoreAcquireLock mEfiSystemTimeLock s = Some ?a" using lk lev settled_level[OF s] by (simp add: CoreAcquireLock_eq)
  have rel: "CoreReleaseLock n notify mEfiSystemTimeLock ?a = Some (released mEfiSystemTimeLock ?a)"
    unfolding CoreReleaseLock_def m using s settled_level[OF s] lev
    by (intro release_settled) (auto simp: settled_def nothing_pending_above_def)
  have v: "view (released mEfiSystemTimeLock ?a) = view s" by (simp add: view_def)
  have "event_inv (released mEfiSystemTimeLock ?a)" by (rule event_inv_cong[OF inv]) (use settled_level[OF s] in auto)
  then have "settled (released mEfiSystemTimeLock ?a)" using s by (simp add: settled_def nothing_pending_above_def)
  moreover have "locks_kept s (released mEfiSystemTimeLock ?a)" using lk by (simp add: locks_kept_def)
  ultimately show thesis using acq rel v by (intro that[of "released mEfiSystemTimeLock ?a"]) (simp_all add: CoreCurrentSystemTime_def)
qed

text \<open>
  (C13) A timer check, called at its priority TPL_HIGH_LEVEL - 1 with the timer locks free, returns and does what it
  promises: every timer whose trigger time has come has signalled its event; a one-shot timer is then off the list, a periodic one
  is armed for its next period after the previous trigger, or for one period from now when that has been missed as well; the
  other timers are untouched; the list is ordered by trigger time again and holds only timers still to come; the world outside has
  not been touched. This needs the current time plus a period to stay below 2^64, and fuel above twice the number of timers.
\<close>

theorem check_timers_exact:
  assumes s: "settled s" "timer_inv s" and cur: "gEfiCurrentTpl s = TPL_HIGH_LEVEL - 1"
    and lk: "Lock (locks s mEfiTimerLock) = EfiLockReleased" "Lock (locks s mEfiSystemTimeLock) = EfiLockReleased"
    and nw: "\<forall>e\<in>set (mEfiTimerList s). no_wrap (mEfiSystemTime s) (Timer (event s e))"
    and n: "33 < n" "2 * length (mEfiTimerList s) < n"
  shows "\<exists>t. CoreCheckTimers n notify e c s = Some t \<and> timers_checked (mEfiSystemTime s) s t
    \<and> timer_inv t \<and> timer_frame s t \<and> settled t"
proof -
  have lev: "Tpl (locks s mEfiTimerLock) = TPL_HIGH_LEVEL - 1" using s(1) by (simp add: settled_def event_inv_def lock_levels_def)
  let ?a = "acquired mEfiTimerLock s"
  have acq: "CoreAcquireLock mEfiTimerLock s = Some ?a" using lk lev cur by (simp add: CoreAcquireLock_eq)
  have a: "settled ?a" using s(1) lev cur by (intro settled_acquired) simp_all
  obtain b where b: "CoreCurrentSystemTime n notify ?a = Some (mEfiSystemTime s, b)" "view b = view ?a" "settled b" "locks_kept ?a b"
    using system_time_exact[OF a, of n notify] lk(2) n(1) by auto
  have vb: "gEfiCurrentTpl b = TPL_HIGH_LEVEL - 1" "event b = event s" "world b = world s" "other_fields b = other_fields s"
    using view_eqD[OF b(2)] lev by simp_all
  then have vb': "mEfiTimerList b = mEfiTimerList s" "mEfiCheckTimerEvent b = mEfiCheckTimerEvent s" "mEfiSystemTime b = mEfiSystemTime s"
    by (simp_all add: other_fields_def)
  note cong = timer_cong[OF vb(2) vb'(1,2)]
  have lkb: "Lock (locks b mEfiTimerLock) = EfiLockAcquired" "OwnerTpl (locks b mEfiTimerLock) = gEfiCurrentTpl s"
    using b(4) by (simp_all add: locks_kept_def)
  obtain u where u: "CheckTimers_loop n n notify (mEfiSystemTime s) b = Some u" "settled u" "timer_inv u" "timer_frame b u"
    "timers_checked (mEfiSystemTime s) b u"
    using check_loop_exact[OF b(3) _ vb(1) lkb(1) n(1), of "mEfiSystemTime s" n notify] s(2) nw vb(2) vb'(1) cong(1,4) n(2)
      rounds_left_bound[of "mEfiSystemTime s" s] by auto
  have lku: "Lock (locks u mEfiTimerLock) = EfiLockAcquired" "OwnerTpl (locks u mEfiTimerLock) = gEfiCurrentTpl s"
    "gEfiCurrentTpl u = gEfiCurrentTpl s"
    using u(4) lkb vb(1) cur by (simp_all add: timer_frame_def locks_kept_def)
  let ?t = "released mEfiTimerLock u"
  define m where "m = n - 2"
  have m: "n = Suc (Suc m)" using n(1) by (simp add: m_def)
  have rel: "CoreReleaseLock n notify mEfiTimerLock u = Some ?t"
    unfolding CoreReleaseLock_def m using lku u(2) settled_level[OF u(2)]
    by (intro release_settled) (auto simp: settled_def)
  have "settled ?t" using lku by (intro settled_released[OF u(2)]) simp_all
  moreover have "timer_inv ?t" "timers_checked (mEfiSystemTime s) s ?t"
    using u(3,5) cong(2) timer_cong(1,3)[of ?t u] by simp_all
  moreover have "timer_frame s ?t"
    using u(4) b(4) vb vb'(2,3) lku(2) lk(1) by (auto simp: timer_frame_def locks_kept_def)
  moreover have "CoreCheckTimers n notify e c s = Some ?t" using acq b(1) u(1) rel by (simp add: CoreCheckTimers_def)
  ultimately show ?thesis by blast
qed

text \<open>A core at the priority of the timer check, with one timer event at 0x1000 and the check event at 0x2000.\<close>

definition timer_sample :: "UINT64 \<Rightarrow> UINT64 \<Rightarrow> UINT64 \<Rightarrow> unit DXE" where
  "timer_sample now trig per = (initial_core True ())\<lparr>gEfiCurrentTpl := TPL_HIGH_LEVEL - 1,
     event := (\<lambda>_. zero_event)
       (0x1000 := zero_event\<lparr>Signature := EVENT_SIGNATURE, Type := EVT_TIMER, Timer := \<lparr>TimerLink = True, TriggerTime = trig, Period = per\<rparr>\<rparr>,
        0x2000 := zero_event\<lparr>Signature := EVENT_SIGNATURE, Type := EVT_NOTIFY_SIGNAL, NotifyTpl := TPL_HIGH_LEVEL - 1,
          NotifyFunction := Some CoreCheckTimers_function, SignalLink := True\<rparr>),
     gEventSignalQueue := [0x2000], mEfiTimerList := [0x1000], mEfiCheckTimerEvent := 0x2000, mEfiSystemTime := now\<rparr>"

lemma timer_sample_fields:
  "gEfiCurrentTpl (timer_sample now trig per) = TPL_HIGH_LEVEL - 1" "gEventQueue (timer_sample now trig per) p = []"
  "gEventPending (timer_sample now trig per) = 0" "gEventSignalQueue (timer_sample now trig per) = [0x2000]"
  "mEfiTimerList (timer_sample now trig per) = [0x1000]" "mEfiCheckTimerEvent (timer_sample now trig per) = 0x2000"
  "mEfiSystemTime (timer_sample now trig per) = now" "Lock (locks (timer_sample now trig per) l) = EfiLockReleased"
  "lock_levels (timer_sample now trig per)"
  "Signature (event (timer_sample now trig per) e) = (if e = 0x1000 \<or> e = 0x2000 then EVENT_SIGNATURE else 0)"
  "Type (event (timer_sample now trig per) e) = (if e = 0x2000 then EVT_NOTIFY_SIGNAL else if e = 0x1000 then EVT_TIMER else 0)"
  "NotifyTpl (event (timer_sample now trig per) e) = (if e = 0x2000 then TPL_HIGH_LEVEL - 1 else 0)"
  "NotifyFunction (event (timer_sample now trig per) e) = (if e = 0x2000 then Some CoreCheckTimers_function else None)"
  "SignalLink (event (timer_sample now trig per) e) = (e = 0x2000)" "\<not> NotifyLink (event (timer_sample now trig per) e)"
  "Timer (event (timer_sample now trig per) e) =
     (if e = 0x1000 then \<lparr>TimerLink = True, TriggerTime = trig, Period = per\<rparr> else \<lparr>TimerLink = False, TriggerTime = 0, Period = 0\<rparr>)"
  by (simp_all add: timer_sample_def initial_core_def zero_event_def EFI_INITIALIZE_LOCK_VARIABLE_def lock_levels_def)

lemma timer_sample_settled: "settled (timer_sample now trig per)" "timer_inv (timer_sample now trig per)"
proof -
  have "pending_inv (timer_sample now trig per)" unfolding pending_inv_def timer_sample_fields by simp
  moreover have "queue_inv (timer_sample now trig per)" by (rule queue_invI) (simp_all add: timer_sample_fields)
  moreover have "signal_inv (timer_sample now trig per)"
    unfolding signal_inv_def event_ok_def timer_sample_fields by simp
  ultimately show "settled (timer_sample now trig per)"
    by (simp add: settled_def event_inv_def timer_sample_fields nothing_pending_above_def)
  show "timer_inv (timer_sample now trig per)" unfolding timer_inv_def timer_sample_fields by simp
qed

lemma singleton_list:
  assumes "distinct xs" "set xs = {x}"
  shows "xs = [x]"
proof -
  have "length xs = 1" using distinct_card[OF assms(1)] assms(2) by simp
  then obtain y where "xs = [y]" by (cases xs) auto
  then show ?thesis using assms(2) by simp
qed

theorem check_timers_exact_witness:
  "\<exists>t. CoreCheckTimers 34 (\<lambda>f e c s. Some s) 0x2000 0 (timer_sample 7 5 10) = Some t
    \<and> mEfiTimerList t = [0x1000] \<and> trigger_of t 0x1000 = 15 \<and> SignalCount (event t 0x1000) \<noteq> 0"
proof -
  let ?s = "timer_sample 7 5 10"
  have "\<exists>t. CoreCheckTimers 34 (\<lambda>f e c s. Some s) 0x2000 0 ?s = Some t \<and> timers_checked (mEfiSystemTime ?s) ?s t
      \<and> timer_inv t \<and> timer_frame ?s t \<and> settled t"
    by (rule check_timers_exact[OF timer_sample_settled]) (simp_all add: timer_sample_fields no_wrap_def)
  then obtain t where run: "CoreCheckTimers 34 (\<lambda>f e c s. Some s) 0x2000 0 ?s = Some t" and chk: "timers_checked 7 ?s t" and ti: "timer_inv t"
    by (auto simp: timer_sample_fields)
  have c: "set (mEfiTimerList t) = {e \<in> {0x1000}. 7 < trigger_of ?s e \<or> Period (Timer (event ?s e)) \<noteq> 0}"
    "Timer (event t 0x1000) = rearmed 7 (Timer (event ?s 0x1000))" "SignalCount (event t 0x1000) \<noteq> 0"
    using chk unfolding timers_checked_def by (simp_all add: timer_sample_fields(5,16))
  have "{e \<in> {0x1000}. 7 < trigger_of ?s e \<or> Period (Timer (event ?s e)) \<noteq> 0} = {0x1000}"
    by (auto simp: timer_sample_fields(16))
  with c(1) ti have "mEfiTimerList t = [0x1000]" by (intro singleton_list) (simp_all add: timer_inv_def)
  moreover have "trigger_of t 0x1000 = 15" unfolding c(2) timer_sample_fields(16) by (simp add: rearmed_def)
  ultimately show ?thesis using run c(3) by blast
qed

section \<open>A period that wraps around hangs the timer check\<close>

lemma wrapping_loop_never_ends:
  assumes "settled s" "timer_inv s" "gEfiCurrentTpl s = TPL_HIGH_LEVEL - 1" "Lock (locks s mEfiTimerLock) = EfiLockAcquired" "33 < n"
    "mEfiTimerList s = [e]" "trigger_of s e \<le> now" "Period (Timer (event s e)) = P" "P \<noteq> 0"
    "trigger_of s e + P \<le> now" "now + P \<le> now"
  shows "CheckTimers_loop k n notify now s = None"
  using assms
proof (induction k arbitrary: s)
  case (Suc k)
  obtain s' where s': "CheckTimers_loop (Suc k) n notify now s = CheckTimers_loop k n notify now s'"
    "settled s'" "timer_inv s'" "timer_frame s s'" "SignalCount (event s' e) \<noteq> 0"
    "\<And>x. x \<noteq> e \<Longrightarrow> Timer (event s' x) = Timer (event s x)"
    "Period (Timer (event s e)) = 0 \<Longrightarrow>
       set (mEfiTimerList s') = set [] \<and> Timer (event s' e) = (Timer (event s e))\<lparr>TimerLink := False\<rparr>"
    "Period (Timer (event s e)) \<noteq> 0 \<Longrightarrow> set (mEfiTimerList s') = insert e (set []) \<and>
       Timer (event s' e) = (let t = TriggerTime (Timer (event s e)) + Period (Timer (event s e))
          in (Timer (event s e))\<lparr>TriggerTime := if now < t then t else now\<rparr>)"
    using check_round[OF Suc.prems(1-7)] by blast
  from s'(8) have e: "set (mEfiTimerList s') = {e}" "Timer (event s' e) = (Timer (event s e))\<lparr>TriggerTime := now\<rparr>"
    using Suc.prems(8,9) leD[OF Suc.prems(10)] by (simp_all add: Let_def)
  have "mEfiTimerList s' = [e]" using s'(3) e(1) by (intro singleton_list) (simp_all add: timer_inv_def)
  moreover have "gEfiCurrentTpl s' = TPL_HIGH_LEVEL - 1" "Lock (locks s' mEfiTimerLock) = EfiLockAcquired"
    using s'(4) Suc.prems(3,4) by (simp_all add: timer_frame_def locks_kept_def)
  ultimately have "CheckTimers_loop k n notify now s' = None"
    using Suc.IH[of s'] s'(2,3) e(2) Suc.prems(5,8-11) by simp
  then show ?case using s'(1) by simp
qed simp




section \<open>Ticks and setting timers\<close>

lemma release_lock_settled:
  assumes u: "settled u" and l: "l \<noteq> gEventQueueLock" "Lock (locks u l) = EfiLockAcquired"
    and own: "OwnerTpl (locks u l) \<le> gEfiCurrentTpl u" "nothing_pending_above (OwnerTpl (locks u l)) u" and n: "2 \<le> n"
  shows "CoreReleaseLock n notify l u = Some (released l u)" "settled (released l u)"
proof -
  define m where "m = n - 2"
  have m: "n = Suc (Suc m)" using n by (simp add: m_def)
  show "CoreReleaseLock n notify l u = Some (released l u)"
    unfolding CoreReleaseLock_def m using assms settled_level[OF u] by (intro release_settled) simp_all
  have "event_inv (released l u)"
    by (rule event_inv_cong[of u]) (use u own(1) settled_level[OF u] in \<open>auto simp: settled_def\<close>)
  then show "settled (released l u)" using u own(2) l(1) by (simp add: settled_def nothing_pending_above_def)
qed

text \<open>
  A timer tick at or above the priority of the timer check, with the clock lock free: the clock advances by the duration, modulo 2^64;
  if any timer of the list has expired by then, the timer check event is signalled (looking at the head of the ordered list
  is enough); if none has, no event and no queue changes. The timers themselves are untouched.
\<close>

theorem timer_tick_exact:
  assumes s: "settled s" "timer_inv s" and cur: "TPL_HIGH_LEVEL - 1 \<le> gEfiCurrentTpl s"
    and lk: "Lock (locks s mEfiSystemTimeLock) = EfiLockReleased" and n: "33 < n"
  shows "\<exists>t. CoreTimerTick n notify d s = Some t \<and> mEfiSystemTime t = mEfiSystemTime s + d
    \<and> mEfiTimerList t = mEfiTimerList s \<and> (\<forall>e. Timer (event t e) = Timer (event s e)) \<and> world t = world s
    \<and> gEfiCurrentTpl t = gEfiCurrentTpl s \<and> locks_kept s t \<and> settled t \<and> timer_inv t
    \<and> (if \<exists>e\<in>set (mEfiTimerList s). trigger_of s e \<le> mEfiSystemTime s + d
       then SignalCount (event t (mEfiCheckTimerEvent s)) \<noteq> 0
       else event t = event s \<and> gEventQueue t = gEventQueue s \<and> gEventPending t = gEventPending s)"
proof -
  have lev: "Tpl (locks s mEfiSystemTimeLock) = TPL_HIGH_LEVEL" using s(1) by (simp add: settled_def event_inv_def lock_levels_def)
  have le: "gEfiCurrentTpl s \<le> TPL_HIGH_LEVEL" by (rule settled_level[OF s(1)])
  let ?a = "acquired mEfiSystemTimeLock s"
  let ?b = "?a\<lparr>mEfiSystemTime := mEfiSystemTime s + d\<rparr>"
  have acq: "CoreAcquireLock mEfiSystemTimeLock s = Some ?a" using lk lev le by (simp add: CoreAcquireLock_eq)
  have b: "settled ?b" using s(1) lev le by (intro settled_fields settled_acquired) simp_all
  have ce: "live s (mEfiCheckTimerEvent s)" "mEfiCheckTimerEvent s \<noteq> 0" using s(2) by (simp_all add: timer_inv_def)
  let ?expired = "\<exists>e\<in>set (mEfiTimerList s). trigger_of s e \<le> mEfiSystemTime s + d"
  obtain u where u: "(case mEfiTimerList ?b of [] \<Rightarrow> Some ?b
      | e # _ \<Rightarrow> do { CR_event e ?b; if trigger_of ?b e \<le> mEfiSystemTime ?b
                   then map_option snd (CoreSignalEvent n notify (mEfiCheckTimerEvent ?b) ?b) else Some ?b }) = Some u"
    "settled u" "timer_frame ?b u" "mEfiTimerList u = mEfiTimerList s" "\<And>x. Timer (event u x) = Timer (event s x)"
    "?expired \<Longrightarrow> SignalCount (event u (mEfiCheckTimerEvent s)) \<noteq> 0" "\<not> ?expired \<Longrightarrow> u = ?b"
  proof (cases ?expired)
    case True
    then obtain e rest where q: "mEfiTimerList s = e # rest" by (cases "mEfiTimerList s") auto
    have "trigger_of s e \<le> mEfiSystemTime s + d"
      using True q s(2) by (auto simp: timer_inv_def intro: order_trans)
    moreover obtain v where "CoreSignalEvent n notify (mEfiCheckTimerEvent s) ?b = Some (EFI_SUCCESS, v)" "settled v" "timer_frame ?b v"
      "mEfiTimerList v = mEfiTimerList ?b" "\<forall>x. Timer (event v x) = Timer (event ?b x)" "SignalCount (event v (mEfiCheckTimerEvent s)) \<noteq> 0"
      using signal_timer_frame[OF b, of "mEfiCheckTimerEvent s" n notify] ce lev n by auto
    moreover have "live s e" using timer_inv_Cons[OF s(2) q] by simp
    ultimately show thesis using True q by (intro that[of v]) (simp_all add: CR_event_def)
  next
    case False
    then show thesis
    proof (cases "mEfiTimerList s")
      case Nil
      then show thesis using False b by (intro that[of ?b]) simp_all
    next
      case (Cons e rest)
      then show thesis using False b timer_inv_Cons[OF s(2) Cons] by (intro that[of ?b]) (auto simp: CR_event_def)
    qed
  qed
  have lku: "Lock (locks u mEfiSystemTimeLock) = EfiLockAcquired" "OwnerTpl (locks u mEfiSystemTimeLock) = gEfiCurrentTpl s"
    "gEfiCurrentTpl u = TPL_HIGH_LEVEL" using u(3) lev by (simp_all add: timer_frame_def locks_kept_def)
  have np: "nothing_pending_above (gEfiCurrentTpl s) u"
  proof -
    have "30 \<le> unat (gEfiCurrentTpl s)" using cur by (simp add: word_le_nat_alt)
    moreover have "\<And>k. bit (gEventPending u) k \<Longrightarrow> k < 31" using u(2) by (auto simp: settled_def event_inv_def pending_inv_def)
    ultimately show ?thesis by (force simp: nothing_pending_above_def)
  qed
  let ?t = "released mEfiSystemTimeLock u"
  have rel: "CoreReleaseLock n notify mEfiSystemTimeLock u = Some ?t" "settled ?t"
    using release_lock_settled(1)[OF u(2), of mEfiSystemTimeLock n notify] release_lock_settled(2)[OF u(2), of mEfiSystemTimeLock n] lku np le n by simp_all
  have run: "CoreTimerTick n notify d s = Some ?t" using acq u(1) rel(1) by (simp add: CoreTimerTick_def)
  have lt: "live u x = live s x" for x using u(3) by (simp add: timer_frame_def)
  have "timer_inv ?t" using s(2) u(3-5) lt unfolding timer_inv_def by (simp add: timer_frame_def)
  moreover have "locks_kept s ?t" using u(3) lk by (auto simp: timer_frame_def locks_kept_def)
  ultimately show ?thesis using run rel(2) u(3-7) lku by (auto simp: timer_frame_def)
qed

theorem timer_tick_exact_witness:
  "\<exists>t. CoreTimerTick 34 (\<lambda>f e c s. Some s) 3 (timer_sample 7 10 0) = Some t \<and> mEfiSystemTime t = 10
    \<and> SignalCount (event t 0x2000) \<noteq> 0"
  using timer_tick_exact[where s = "timer_sample 7 10 0" and n = 34 and d = 3 and notify = "\<lambda>f e c s. Some s", OF timer_sample_settled]
  by (auto simp: timer_sample_fields)

text \<open>Taking a timer off the list and arming one, as list and event updates.\<close>

definition disarmed :: "EFI_EVENT \<Rightarrow> 'w DXE \<Rightarrow> 'w DXE" where
  "disarmed e s = put_event e (Timer_update (\<lambda>_. \<lparr>TimerLink = False, TriggerTime = 0, Period = 0\<rparr>))
     (s\<lparr>mEfiTimerList := remove1 e (mEfiTimerList s)\<rparr>)"

definition armed :: "EFI_EVENT \<Rightarrow> UINT64 \<Rightarrow> UINT64 \<Rightarrow> 'w DXE \<Rightarrow> 'w DXE" where
  "armed e trig per s = put_event e (Timer_update (\<lambda>_. \<lparr>TimerLink = True, TriggerTime = trig, Period = per\<rparr>))
     (s\<lparr>mEfiTimerList := insert_before_later (trigger_of s) trig e (mEfiTimerList s)\<rparr>)"

lemma disarmed_fields [simp]:
  "event (disarmed e s) = (event s)(e := (event s e)\<lparr>Timer := \<lparr>TimerLink = False, TriggerTime = 0, Period = 0\<rparr>\<rparr>)"
  "mEfiTimerList (disarmed e s) = remove1 e (mEfiTimerList s)" "gEfiCurrentTpl (disarmed e s) = gEfiCurrentTpl s"
  "locks (disarmed e s) = locks s" "mEfiCheckTimerEvent (disarmed e s) = mEfiCheckTimerEvent s"
  "mEfiSystemTime (disarmed e s) = mEfiSystemTime s"
  by (simp_all add: disarmed_def)

lemma armed_fields [simp]:
  "event (armed e trig per s) = (event s)(e := (event s e)\<lparr>Timer := \<lparr>TimerLink = True, TriggerTime = trig, Period = per\<rparr>\<rparr>)"
  "mEfiTimerList (armed e trig per s) = insert_before_later (trigger_of s) trig e (mEfiTimerList s)"
  "gEfiCurrentTpl (armed e trig per s) = gEfiCurrentTpl s"
  "locks (armed e trig per s) = locks s" "mEfiCheckTimerEvent (armed e trig per s) = mEfiCheckTimerEvent s"
  by (simp_all add: armed_def)

lemma timer_inv_disarmed:
  assumes "timer_inv s" "live s e"
  shows "timer_inv (disarmed e s)"
proof -
  have d: "distinct (mEfiTimerList s)" using assms(1) by (simp add: timer_inv_def)
  then have rm: "set (remove1 e (mEfiTimerList s)) = set (mEfiTimerList s) - {e}" by (rule set_remove1_eq)
  have "sorted_wrt (\<lambda>x y. trigger_of s x \<le> trigger_of s y) (filter (\<lambda>x. x \<noteq> e) (mEfiTimerList s))"
    using assms(1) by (simp add: timer_inv_def sorted_wrt_filter)
  then have "sorted_wrt (\<lambda>x y. trigger_of s x \<le> trigger_of s y) (remove1 e (mEfiTimerList s))"
    using d by (simp add: distinct_remove1_removeAll removeAll_filter_not_eq neq_commute)
  then have "sorted_wrt (\<lambda>x y. trigger_of (disarmed e s) x \<le> trigger_of (disarmed e s) y) (remove1 e (mEfiTimerList s))"
    by (rule sorted_wrt_mono_rel[rotated]) (auto simp: rm)
  then show ?thesis using assms unfolding timer_inv_def by (simp add: rm)
qed

lemma insert_before_later_cong:
  "(\<And>x. x \<in> set xs \<Longrightarrow> f x = g x) \<Longrightarrow> t = t' \<Longrightarrow> insert_before_later f t e xs = insert_before_later g t' e xs"
  by (induction xs) auto

lemma timer_inv_armed:
  assumes "timer_inv s" "live s e" "e \<noteq> 0" "e \<notin> set (mEfiTimerList s)"
  shows "timer_inv (armed e trig per s)"
proof -
  let ?t = "armed e trig per s"
  have "sorted_wrt (\<lambda>x y. trigger_of ?t x \<le> trigger_of ?t y) (mEfiTimerList s)"
    by (rule sorted_wrt_mono_rel[of _ "\<lambda>x y. trigger_of s x \<le> trigger_of s y"]) (use assms(1,4) in \<open>auto simp: timer_inv_def\<close>)
  then have "sorted_wrt (\<lambda>x y. trigger_of ?t x \<le> trigger_of ?t y) (insert_before_later (trigger_of ?t) (trigger_of ?t e) e (mEfiTimerList s))"
    by (rule sorted_insert_before_later)
  moreover have "insert_before_later (trigger_of ?t) (trigger_of ?t e) e (mEfiTimerList s) = insert_before_later (trigger_of s) trig e (mEfiTimerList s)"
    using assms(4) by (simp only: armed_fields) (rule insert_before_later_cong, auto)
  ultimately show ?thesis using assms unfolding timer_inv_def by simp
qed

lemma settled_disarmed: "settled s \<Longrightarrow> settled (disarmed e s)"
  unfolding disarmed_def by (intro settled_Timer settled_fields)

lemma settled_armed: "settled s \<Longrightarrow> settled (armed e trig per s)"
  unfolding armed_def by (intro settled_Timer settled_fields)

lemma disarm_step:
  assumes "timer_inv s" "live s e"
  shows "put_event e (Timer_update (\<lambda>t. t\<lparr>TriggerTime := 0, Period := 0\<rparr>))
      (if TimerLink (Timer (event s e)) then remove_timer e s else s) = disarmed e s"
proof (cases "TimerLink (Timer (event s e))")
  case True
  then show ?thesis by (cases "event s e"; cases "Timer (event s e)") (simp add: disarmed_def remove_timer_def put_event_def)
next
  case False
  then have "e \<notin> set (mEfiTimerList s)" using assms by (simp add: timer_inv_def)
  then show ?thesis using False
    by (cases "event s e"; cases "Timer (event s e)") (simp add: disarmed_def put_event_def remove1_idem)
qed


lemma view_cong_timer:
  assumes "view s = view t"
  shows "view (disarmed e s) = view (disarmed e t)" "view (armed e trig per s) = view (armed e trig per t)"
    "timer_inv s = timer_inv t"
proof -
  note v = view_eqD[OF assms]
  have o: "mEfiTimerList s = mEfiTimerList t" "mEfiCheckTimerEvent s = mEfiCheckTimerEvent t" using v(6) by (simp_all add: other_fields_def)
  show "timer_inv s = timer_inv t" using o v(4) by (intro timer_cong) simp_all
  show "view (disarmed e s) = view (disarmed e t)" "view (armed e trig per s) = view (armed e trig per t)"
    using v o by (simp_all add: view_def disarmed_def armed_def) (simp_all add: other_fields_def put_event_def)
qed

lemma Timer_update_at: "Timer ev = t \<Longrightarrow> Timer_update f ev = ev\<lparr>Timer := f t\<rparr>"
  by (cases ev) simp

text \<open>Arming a disarmed timer: the part of CoreSetTimer after the old setting has been removed.\<close>

lemma arm_step:
  assumes d: "settled d" "timer_inv d" "live d e" "e \<noteq> 0" "e \<notin> set (mEfiTimerList d)"
    and t0: "Timer (event d e) = \<lparr>TimerLink = False, TriggerTime = 0, Period = per\<rparr>"
    and lk: "Lock (locks d mEfiTimerLock) = EfiLockAcquired" "Lock (locks d mEfiSystemTimeLock) = EfiLockReleased" and n: "33 < n"
  obtains f where "do { (SystemTime, s) \<leftarrow> CoreCurrentSystemTime n notify d;
      let s = put_event e (Timer_update (TriggerTime_update (\<lambda>_. SystemTime + trig))) s;
      CoreInsertEventTimer e s } = Some f"
    "view f = view (armed e (mEfiSystemTime d + trig) per d)" "settled f" "locks_kept d f"
proof -
  obtain c where c: "CoreCurrentSystemTime n notify d = Some (mEfiSystemTime d, c)" "view c = view d" "settled c" "locks_kept d c"
    using system_time_exact[OF d(1) lk(2), of n notify] n by auto
  note v = view_eqD[OF c(2)]
  have o: "mEfiTimerList c = mEfiTimerList d" using v(6) by (simp add: other_fields_def)
  let ?g = "put_event e (Timer_update (TriggerTime_update (\<lambda>_. mEfiSystemTime d + trig))) c"
  let ?f = "put_event e (Timer_update (TimerLink_update (\<lambda>_. True)))
     (?g\<lparr>mEfiTimerList := insert_before_later (trigger_of ?g) (trigger_of ?g e) e (mEfiTimerList ?g)\<rparr>)"
  have "list_all (live ?g) (takeWhile (\<lambda>x. trigger_of ?g x \<le> trigger_of ?g e) (mEfiTimerList ?g))"
    using d(2) v(4) o by (auto simp: list_all_iff timer_inv_def dest!: set_takeWhileD)
  moreover have "Lock (locks ?g mEfiTimerLock) = EfiLockAcquired" using c(4) lk(1) by (simp add: locks_kept_def)
  ultimately have ins: "CoreInsertEventTimer e ?g = Some ?f" by (simp add: CoreInsertEventTimer_def ASSERT_LOCKED_def)
  have list: "insert_before_later (trigger_of ?g) (trigger_of ?g e) e (mEfiTimerList ?g) =
      insert_before_later (trigger_of d) (mEfiSystemTime d + trig) e (mEfiTimerList d)"
    using d(5) v(4) o by (simp only: put_event_fields o) (rule insert_before_later_cong, auto)
  have "?f = armed e (mEfiSystemTime d + trig) per c"
    unfolding list using t0 v(4) o
    by (simp add: armed_def put_event_def Timer_update_at[OF t0, of "TimerLink_update (\<lambda>_. True) \<circ> TriggerTime_update (\<lambda>_. mEfiSystemTime d + trig)"])
  then have "view ?f = view (armed e (mEfiSystemTime d + trig) per d)" using view_cong_timer(2)[OF c(2)] by simp
  moreover have "settled ?f" by (intro settled_Timer settled_fields c(3))
  moreover have "locks_kept d ?f" using c(4) by (simp add: locks_kept_def)
  ultimately show thesis using c(1) ins by (intro that[of ?f]) simp_all
qed


lemma timer_inv_Period: "timer_inv (put_event e (Timer_update (Period_update f)) s) = timer_inv s"
proof -
  let ?p = "put_event e (Timer_update (Period_update f)) s"
  have "trigger_of ?p x = trigger_of s x" "live ?p x = live s x" "TimerLink (Timer (event ?p x)) = TimerLink (Timer (event s x))" for x
    by simp_all
  then show ?thesis unfolding timer_inv_def by (simp only: put_event_fields)
qed

lemma acquired_platform: "gCpu (acquired l s) = gCpu s" "gSmmBase2 (acquired l s) = gSmmBase2 s"
  by (auto simp: acquired_def CoreSetInterruptState_def split: option.splits)

lemma put_event_platform: "gCpu (put_event e f s) = gCpu s" "gSmmBase2 (put_event e f s) = gSmmBase2 s"
  by (simp_all add: put_event_def)

lemma armed_Period: "armed e T p (put_event e (Timer_update (Period_update (\<lambda>_. q))) s) = armed e T p s"
proof -
  let ?p = "put_event e (Timer_update (Period_update (\<lambda>_. q))) s"
  have "trigger_of ?p = trigger_of s" by (rule ext) simp
  then show ?thesis by (simp add: armed_def put_event_def o_def)
qed

lemma disarmed_Period: "put_event e (Timer_update (Period_update (\<lambda>_. 0))) (disarmed e s) = disarmed e s"
  by (simp add: disarmed_def put_event_def o_def)

lemma set_timer_run:
  assumes s: "settled s" "timer_inv s" and cur: "gEfiCurrentTpl s \<le> TPL_HIGH_LEVEL - 1"
    and lk: "Lock (locks s mEfiTimerLock) = EfiLockReleased" "ty \<noteq> TimerCancel \<longrightarrow> Lock (locks s mEfiSystemTimeLock) = EfiLockReleased"
    and e: "live s e" "e \<noteq> 0" "Type (event s e) AND EVT_TIMER \<noteq> 0" and ty: "ty \<le> TimerRelative" and n: "33 < n"
    and delay: "delay = (if ty = TimerPeriodic \<and> Trigger = 0 then TimerPeriod else Trigger)" "ty \<noteq> TimerCancel \<longrightarrow> delay \<noteq> 0"
  shows "\<exists>t. CoreSetTimer n notify TimerPeriod e ty Trigger s = Some (EFI_SUCCESS, t) \<and> settled t \<and> timer_inv t \<and> locks_kept s t
    \<and> view t = view (if ty = TimerCancel then disarmed e s
        else armed e (mEfiSystemTime s + delay) (if ty = TimerPeriodic then delay else 0) (disarmed e s))"
proof -
  have lev: "Tpl (locks s mEfiTimerLock) = TPL_HIGH_LEVEL - 1" using s(1) by (simp add: settled_def event_inv_def lock_levels_def)
  let ?per = "if ty = TimerPeriodic then delay else 0"
  let ?a = "acquired mEfiTimerLock s"
  let ?d = "disarmed e ?a"
  let ?p = "put_event e (Timer_update (Period_update (\<lambda>_. ?per))) ?d"
  have acq: "CoreAcquireLock mEfiTimerLock s = Some ?a" using lk lev cur by (simp add: CoreAcquireLock_eq)
  have a: "settled ?a" using s(1) lev cur by (intro settled_acquired) simp_all
  have ai: "timer_inv ?a" using s(2) timer_cong(1)[of ?a s] by simp
  have d: "settled ?d" "timer_inv ?d" by (intro settled_disarmed a) (use ai e(1) in \<open>simp add: timer_inv_disarmed\<close>)
  obtain f where f: "(if ty \<noteq> TimerCancel then do {
        let (Trigger, s) = (if ty = TimerPeriodic then let Trigger = (if Trigger = 0 then TimerPeriod else Trigger)
             in (Trigger, put_event e (Timer_update (Period_update (\<lambda>_. Trigger))) ?d) else (Trigger, ?d));
        (SystemTime, s) \<leftarrow> CoreCurrentSystemTime n notify s;
        let s = put_event e (Timer_update (TriggerTime_update (\<lambda>_. SystemTime + Trigger))) s;
        s \<leftarrow> CoreInsertEventTimer e s;
        if Trigger = 0 then map_option snd (CoreSignalEvent n notify (mEfiCheckTimerEvent s) s) else Some s
      } else Some ?d) = Some f"
    "view f = view (if ty = TimerCancel then ?d else armed e (mEfiSystemTime s + delay) ?per ?d)" "settled f" "locks_kept ?d f"
  proof (cases "ty = TimerCancel")
    case True
    then show thesis using d by (intro that[of ?d]) simp_all
  next
    case False
    have p: "settled ?p" by (intro settled_Timer d)
    have pi: "timer_inv ?p" using d(2) by (simp only: timer_inv_Period)
    have pe: "live ?p e" "e \<notin> set (mEfiTimerList ?p)" "Timer (event ?p e) = \<lparr>TimerLink = False, TriggerTime = 0, Period = ?per\<rparr>"
      "Lock (locks ?p mEfiTimerLock) = EfiLockAcquired" "Lock (locks ?p mEfiSystemTimeLock) = EfiLockReleased"
      using e lk s(2) False by (auto simp: timer_inv_def)
    obtain f where f: "do { (SystemTime, s) \<leftarrow> CoreCurrentSystemTime n notify ?p;
          let s = put_event e (Timer_update (TriggerTime_update (\<lambda>_. SystemTime + delay))) s; CoreInsertEventTimer e s } = Some f"
      "view f = view (armed e (mEfiSystemTime ?p + delay) ?per ?p)" "settled f" "locks_kept ?p f"
      using arm_step[OF p pi pe(1) e(2) pe(2-5) n, where trig = delay and notify = notify] by blast
    have dz: "delay \<noteq> 0" using False delay(2) by simp
    have v: "view f = view (armed e (mEfiSystemTime s + delay) ?per ?d)" using f(2) by (simp add: armed_Period)
    have k: "locks_kept ?d f" using f(4) by (simp add: locks_kept_def)
    show thesis
    proof (cases "ty = TimerPeriodic")
      case True
      then show thesis using f(1,3) v k dz delay(1) by (intro that[of f]) (simp_all add: Let_def split: bind_splits)
    next
      case ne: False
      then have "delay = Trigger" using delay(1) by simp
      then show thesis using f(1,3) v k dz ne False by (intro that[of f]) (simp_all add: disarmed_Period Let_def split: bind_splits)
    qed
  qed
  have lkf: "Lock (locks f mEfiTimerLock) = EfiLockAcquired" "OwnerTpl (locks f mEfiTimerLock) = gEfiCurrentTpl s"
    using f(4) by (simp_all add: locks_kept_def)
  have vf: "gEfiCurrentTpl f = TPL_HIGH_LEVEL - 1" "gEventPending f = gEventPending s"
    using view_eqD(1,3)[OF f(2)] lev by (simp_all add: armed_def disarmed_def)
  have np: "nothing_pending_above (gEfiCurrentTpl s) f" using s(1) vf(2) by (simp add: settled_def nothing_pending_above_def)
  let ?t = "released mEfiTimerLock f"
  have rel: "CoreReleaseLock n notify mEfiTimerLock f = Some ?t" "settled ?t"
    using release_lock_settled(1)[OF f(3), of mEfiTimerLock n notify] release_lock_settled(2)[OF f(3), of mEfiTimerLock n] lkf np vf cur n by simp_all
  have "CoreSetTimer n notify TimerPeriod e ty Trigger s = Some (EFI_SUCCESS, ?t)"
    unfolding CoreSetTimer_def using e ty acq disarm_step[OF ai, of e] f(1) rel(1) by (simp add: not_less)
  moreover have v: "view ?t = view (if ty = TimerCancel then disarmed e s else armed e (mEfiSystemTime s + delay) ?per (disarmed e s))"
    using f(2) lkf(2) by (cases "ty = TimerCancel") (simp_all add: view_def, simp_all add: armed_def disarmed_def other_fields_def acquired_platform put_event_platform)
  moreover have "timer_inv ?t" unfolding view_cong_timer(3)[OF v]
    using s(2) e by (auto intro!: timer_inv_armed timer_inv_disarmed) (simp_all add: timer_inv_def)
  moreover have "locks_kept s ?t" using f(4) lk lkf by (auto simp: locks_kept_def)
  ultimately show ?thesis using rel(2) by blast
qed



section \<open>Closing an event\<close>

text \<open>
  What closing takes away: the event's place in the queues, its registrations for protocol notifications and its
  signature.
\<close>

definition unlinked :: "EFI_EVENT \<Rightarrow> 'w DXE \<Rightarrow> 'w DXE" where
  "unlinked e s =
     s\<lparr>RuntimeEventHead := (if RtLink (RuntimeData (event s e)) then remove1 e (RuntimeEventHead s) else RuntimeEventHead s),
       gEventQueue := (\<lambda>p. remove1 e (gEventQueue s p)), gEventSignalQueue := remove1 e (gEventSignalQueue s)\<rparr>"

definition closed :: "EFI_EVENT \<Rightarrow> 'w DXE \<Rightarrow> 'w DXE" where
  "closed e s = put_event e (Signature_update (\<lambda>_. 0)) (unlinked e s)"

definition unregistered :: "EFI_EVENT \<Rightarrow> PROTOCOL_ENTRY list \<Rightarrow> PROTOCOL_ENTRY list" where
  "unregistered e = map (Notifies_update (filter (\<lambda>r. Event r \<noteq> e)))"

definition registrations :: "EFI_EVENT \<Rightarrow> PROTOCOL_ENTRY list \<Rightarrow> nat" where
  "registrations e db = sum_list (map (\<lambda>p. length (filter (\<lambda>r. Event r = e) (Notifies p))) db)"

lemma Notifies_update_id: "Notifies p = xs \<Longrightarrow> f xs = xs \<Longrightarrow> Notifies_update f p = p"
  by (cases p) simp

lemma drop_first_notify_None: "drop_first_notify e db = None \<Longrightarrow> unregistered e db = db"
  by (induction db) (auto simp: unregistered_def filter_id_conv list_ex_iff intro!: Notifies_update_id split: if_splits)

lemma drop_first_notify_Some:
  "drop_first_notify e db = Some db' \<Longrightarrow> unregistered e db' = unregistered e db \<and> registrations e db = Suc (registrations e db')"
proof (induction db arbitrary: db')
  case (Cons p ps)
  show ?case
  proof (cases "list_ex (\<lambda>r. Event r = e) (Notifies p)")
    case True
    then have "db' = p\<lparr>Notifies := remove_first (\<lambda>r. Event r = e) (Notifies p)\<rparr> # ps" using Cons.prems by simp
    then show ?thesis using length_filter_remove_first[OF True]
      by (cases p) (simp add: unregistered_def registrations_def filter_remove_first)
  next
    case False
    then obtain qs where "drop_first_notify e ps = Some qs" "db' = p # qs" using Cons.prems by auto
    then show ?thesis using Cons.IH[of qs] by (simp add: unregistered_def registrations_def)
  qed
qed simp

text \<open>A section under a lock when no notification is pending: it ends with the lock released and nothing dispatched.\<close>

lemma calm_section:
  assumes s: "Lock (locks s l) = EfiLockReleased" "gEfiCurrentTpl s \<le> Tpl (locks s l)" "Tpl (locks s l) \<le> TPL_HIGH_LEVEL"
      "nothing_pending_above (gEfiCurrentTpl s) s"
    and u: "locks u = locks (acquired l s)" "gEfiCurrentTpl u = Tpl (locks s l)" "gEventPending u = gEventPending s" and n: "2 \<le> n"
  shows "CoreReleaseLock n notify l u = Some (released l u)" "view (released l u) = view (u\<lparr>gEfiCurrentTpl := gEfiCurrentTpl s\<rparr>)"
    "locks_kept s (released l u)" "nothing_pending_above (gEfiCurrentTpl s) (released l u)"
proof -
  define m where "m = n - 2"
  have m: "n = Suc (Suc m)" using n by (simp add: m_def)
  have "nothing_pending_above (gEfiCurrentTpl s) u" using s(4) u(3) by (simp add: nothing_pending_above_def)
  then show "CoreReleaseLock n notify l u = Some (released l u)"
    unfolding CoreReleaseLock_def m using s u by (intro release_settled) simp_all
  show "view (released l u) = view (u\<lparr>gEfiCurrentTpl := gEfiCurrentTpl s\<rparr>)" using u by (simp add: view_def)
  show "locks_kept s (released l u)" using u s(1) by (simp add: locks_kept_def)
  show "nothing_pending_above (gEfiCurrentTpl s) (released l u)" using s(4) u by (simp add: nothing_pending_above_def)
qed

text \<open>The state of the services apart from the event structures: levels of the locks, and nothing pending.\<close>

definition calm :: "'w DXE \<Rightarrow> bool" where
  "calm s \<longleftrightarrow> lock_levels s \<and> gEfiCurrentTpl s \<le> TPL_HIGH_LEVEL \<and> nothing_pending_above (gEfiCurrentTpl s) s"

lemma unregister_one:
  assumes s: "calm s" "gEfiCurrentTpl s \<le> TPL_NOTIFY" "Lock (locks s gProtocolDatabaseLock) = EfiLockReleased" and n: "2 \<le> n"
  obtains t where "CoreUnregisterProtocolNotifyEvent n notify e s =
      Some (if drop_first_notify e (mProtocolDatabase s) = None then EFI_NOT_FOUND else EFI_SUCCESS, t)"
    "view t = view (s\<lparr>mProtocolDatabase := case drop_first_notify e (mProtocolDatabase s) of Some db \<Rightarrow> db | None \<Rightarrow> mProtocolDatabase s\<rparr>)"
    "calm t" "locks_kept s t"
proof -
  have lev: "Tpl (locks s gProtocolDatabaseLock) = TPL_NOTIFY" using s(1) by (simp add: calm_def lock_levels_def)
  let ?a = "acquired gProtocolDatabaseLock s"
  let ?db = "case drop_first_notify e (mProtocolDatabase s) of Some db \<Rightarrow> db | None \<Rightarrow> mProtocolDatabase s"
  let ?u = "?a\<lparr>mProtocolDatabase := ?db\<rparr>"
  have acq: "CoreAcquireProtocolLock s = Some ?a" using s lev by (simp add: CoreAcquireProtocolLock_def CoreAcquireLock_eq)
  note sec = calm_section(1)[of s gProtocolDatabaseLock ?u n notify] calm_section(3)[of s gProtocolDatabaseLock ?u]
  have pre: "nothing_pending_above (gEfiCurrentTpl s) s" using s(1) by (simp add: calm_def)
  have same: "mProtocolDatabase ?a = mProtocolDatabase s" "?a\<lparr>mProtocolDatabase := mProtocolDatabase s\<rparr> = ?a" by simp_all
  have "calm (released gProtocolDatabaseLock ?u)"
    using s lev pre by (simp add: calm_def lock_levels_def nothing_pending_above_def)
  moreover have "view (released gProtocolDatabaseLock ?u) = view (s\<lparr>mProtocolDatabase := ?db\<rparr>)"
    by (simp add: view_def) (simp add: other_fields_def acquired_platform)
  moreover have "CoreUnregisterProtocolNotifyEvent n notify e s =
      map_option (Pair (if drop_first_notify e (mProtocolDatabase s) = None then EFI_NOT_FOUND else EFI_SUCCESS))
        (CoreReleaseLock n notify gProtocolDatabaseLock ?u)"
    by (cases "drop_first_notify e (mProtocolDatabase s)")
      (simp_all add: CoreUnregisterProtocolNotifyEvent_def CoreReleaseProtocolLock_def acq same map_option_bind)
  ultimately show thesis
    using sec s lev pre n by (intro that[of "released gProtocolDatabaseLock ?u"]) simp_all
qed

lemma view_cong_database: "view s = view t \<Longrightarrow> view (s\<lparr>mProtocolDatabase := d\<rparr>) = view (t\<lparr>mProtocolDatabase := d\<rparr>)"
  by (simp add: view_def other_fields_def)

lemma calm_cong: "view s = view t \<Longrightarrow> locks_kept t s \<Longrightarrow> calm t \<Longrightarrow> calm s"
  by (simp add: view_def calm_def lock_levels_def locks_kept_def nothing_pending_above_def)

lemma unregister_all:
  assumes "calm s" "gEfiCurrentTpl s \<le> TPL_NOTIFY" "Lock (locks s gProtocolDatabaseLock) = EfiLockReleased" "2 \<le> n"
    "registrations e (mProtocolDatabase s) < k"
  shows "\<exists>t. UnregisterProtocolNotify_loop k n notify e s = Some t \<and>
    view t = view (s\<lparr>mProtocolDatabase := unregistered e (mProtocolDatabase s)\<rparr>) \<and> locks_kept s t"
  using assms
proof (induction k arbitrary: s)
  case (Suc k)
  obtain t where t: "CoreUnregisterProtocolNotifyEvent n notify e s =
      Some (if drop_first_notify e (mProtocolDatabase s) = None then EFI_NOT_FOUND else EFI_SUCCESS, t)"
    "view t = view (s\<lparr>mProtocolDatabase := case drop_first_notify e (mProtocolDatabase s) of Some db \<Rightarrow> db | None \<Rightarrow> mProtocolDatabase s\<rparr>)"
    "calm t" "locks_kept s t"
    using unregister_one[OF Suc.prems(1-4)] by blast
  show ?case
  proof (cases "drop_first_notify e (mProtocolDatabase s)")
    case None
    then have "UnregisterProtocolNotify_loop (Suc k) n notify e s = Some t" using t(1) by (simp add: EFI_ERROR_def)
    then show ?thesis using t(2,4) None drop_first_notify_None[OF None] by auto
  next
    case (Some db)
    have db: "mProtocolDatabase t = db" "gEfiCurrentTpl t = gEfiCurrentTpl s"
      using view_eqD(1,6)[OF t(2)] Some by (simp_all add: other_fields_def)
    have "Lock (locks t gProtocolDatabaseLock) = EfiLockReleased" using t(4) Suc.prems(3) by (simp add: locks_kept_def)
    then obtain f where f: "UnregisterProtocolNotify_loop k n notify e t = Some f"
      "view f = view (t\<lparr>mProtocolDatabase := unregistered e (mProtocolDatabase t)\<rparr>)" "locks_kept t f"
      using Suc.IH[of t] t(3) Suc.prems db drop_first_notify_Some[OF Some] by auto
    have "view f = view (s\<lparr>mProtocolDatabase := unregistered e (mProtocolDatabase s)\<rparr>)"
      unfolding f(2) using view_cong_database[OF t(2)] Some db(1) drop_first_notify_Some[OF Some] by simp
    moreover have "UnregisterProtocolNotify_loop (Suc k) n notify e s = Some f" using t(1) f(1) Some by (simp add: EFI_ERROR_def)
    ultimately show ?thesis using locks_kept_trans[OF t(4) f(3)] by blast
  qed
qed simp

text \<open>The invariant holds again once the signature of the event is cleared.\<close>

lemma event_inv_closed:
  assumes "event_inv s"
  shows "event_inv (closed e s)"
proof -
  have d: "distinct (gEventQueue s p)" "distinct (gEventSignalQueue s)" for p
    using assms by (simp_all add: event_inv_def queue_inv_def signal_inv_def)
  have ev: "event (closed e s) x = (if x = e then (event s e)\<lparr>Signature := 0\<rparr> else event s x)" for x
    by (simp add: closed_def unlinked_def put_event_def)
  have q: "gEventQueue (closed e s) = (\<lambda>p. remove1 e (gEventQueue s p))" "gEventSignalQueue (closed e s) = remove1 e (gEventSignalQueue s)"
    "gEventPending (closed e s) = gEventPending s" "locks (closed e s) = locks s" "gEfiCurrentTpl (closed e s) = gEfiCurrentTpl s"
    by (simp_all add: closed_def unlinked_def)
  have "gEventQueue s p \<noteq> []" if "remove1 e (gEventQueue s p) \<noteq> []" for p using that by auto
  then have "pending_inv (closed e s)" using assms by (auto simp: event_inv_def pending_inv_def q)
  moreover have "queue_inv (closed e s)"
    by (rule queue_invI) (use assms d in \<open>auto simp: q ev event_inv_def queue_inv_def set_remove1_eq split: if_splits\<close>)
  moreover have "signal_inv (closed e s)"
    using assms d by (auto simp: q ev event_inv_def signal_inv_def set_remove1_eq split: if_splits)
  ultimately show ?thesis using assms by (simp add: event_inv_def lock_levels_def q)
qed


lemma unlink_section:
  assumes s: "settled s" and e: "live s e" and n: "2 \<le> n"
  obtains t where "do { s \<leftarrow> CoreAcquireEventLock s;
      let s = (if RtLink (RuntimeData (event s e)) then s\<lparr>RuntimeEventHead := remove1 e (RuntimeEventHead s)\<rparr> else s);
      let s = (if NotifyLink (event s e) then remove_notify_link e s else s);
      let s = (if SignalLink (event s e) then s\<lparr>gEventSignalQueue := remove1 e (gEventSignalQueue s)\<rparr> else s);
      CoreReleaseEventLock n notify s } = Some t"
    "view t = view (unlinked e s)" "locks_kept s t" "calm t"
proof -
  have inv: "event_inv s" "event_lock_free s" using s by (simp_all add: settled_def)
  have lev: "Tpl (locks s gEventQueueLock) = TPL_HIGH_LEVEL" by (rule event_lock_level[OF inv(1)])
  let ?a = "acquired gEventQueueLock s"
  let ?u = "unlinked e ?a"
  have nl: "\<not> NotifyLink (event s e) \<Longrightarrow> remove1 e (gEventQueue s p) = gEventQueue s p" for p
    using inv(1) by (intro remove1_idem) (auto simp: event_inv_def queue_inv_def)
  have sl: "\<not> SignalLink (event s e) \<Longrightarrow> remove1 e (gEventSignalQueue s) = gEventSignalQueue s"
    using inv(1) by (intro remove1_idem) (auto simp: event_inv_def signal_inv_def)
  have u: "(let s = (if RtLink (RuntimeData (event ?a e)) then ?a\<lparr>RuntimeEventHead := remove1 e (RuntimeEventHead ?a)\<rparr> else ?a);
      s = (if NotifyLink (event s e) then remove_notify_link e s else s)
      in (if SignalLink (event s e) then s\<lparr>gEventSignalQueue := remove1 e (gEventSignalQueue s)\<rparr> else s)) = ?u"
    by (rule DXE.equality) (use nl sl in \<open>simp_all add: unlinked_def remove_notify_link_def Let_def\<close>)
  have pre: "nothing_pending_above (gEfiCurrentTpl s) s" "gEfiCurrentTpl s \<le> TPL_HIGH_LEVEL" using s settled_level by (simp_all add: settled_def)
  have uf: "locks ?u = locks ?a" "gEfiCurrentTpl ?u = Tpl (locks s gEventQueueLock)" "gEventPending ?u = gEventPending s"
    by (simp_all add: unlinked_def)
  note sec = calm_section[OF inv(2) _ _ pre(1) uf n]
  have v: "view (released gEventQueueLock ?u) = view (unlinked e s)"
    using uf by (simp add: view_def unlinked_def) (simp add: other_fields_def acquired_platform)
  have k: "locks_kept s (released gEventQueueLock ?u)" using sec(3) lev pre by simp
  have "calm s" using s by (simp add: calm_def settled_def event_inv_def)
  then have "calm (unlinked e s)" by (simp add: unlinked_def calm_def lock_levels_def nothing_pending_above_def)
  moreover have "locks_kept (unlinked e s) (released gEventQueueLock ?u)" using k by (simp add: unlinked_def locks_kept_def)
  ultimately have "calm (released gEventQueueLock ?u)" using calm_cong[OF v] by simp
  moreover have "CoreReleaseEventLock n notify ?u = Some (released gEventQueueLock ?u)"
    using sec(1)[of notify] lev pre by (simp add: CoreReleaseEventLock_def)
  ultimately show thesis using v k
    by (intro that[of "released gEventQueueLock ?u"])
      (simp_all only: acquire_event_lock[OF inv] Option.bind.simps(2) u[unfolded Let_def] Let_def)
qed


lemma view_cong_close:
  assumes "view s = view t"
  shows "view (unlinked e s) = view (unlinked e t)"
    "view (put_event e (Signature_update (\<lambda>_. 0)) s) = view (put_event e (Signature_update (\<lambda>_. 0)) t)"
  using view_eqD[OF assms] by (simp_all add: view_def unlinked_def) (simp_all add: other_fields_def put_event_def)

lemma closed_database:
  "closed e (s\<lparr>mProtocolDatabase := d\<rparr>) = put_event e (Signature_update (\<lambda>_. 0)) ((unlinked e s)\<lparr>mProtocolDatabase := d\<rparr>)"
proof -
  have "unlinked e (s\<lparr>mProtocolDatabase := d\<rparr>) = (unlinked e s)\<lparr>mProtocolDatabase := d\<rparr>"
    by (rule DXE.equality) (simp_all add: unlinked_def)
  then show ?thesis by (simp add: closed_def)
qed

lemma timer_inv_closed:
  assumes "timer_inv s" "e \<notin> set (mEfiTimerList s)" "e \<noteq> mEfiCheckTimerEvent s"
  shows "timer_inv (closed e s)"
proof -
  let ?t = "closed e s"
  have t: "Timer (event ?t x) = Timer (event s x)" "live ?t x = (x \<noteq> e \<and> live s x)" "mEfiTimerList ?t = mEfiTimerList s"
    "mEfiCheckTimerEvent ?t = mEfiCheckTimerEvent s" for x
    by (simp_all add: closed_def unlinked_def)
  show ?thesis using assms unfolding timer_inv_def t by auto
qed

lemma disarmed_for_close:
  assumes s: "settled s" "timer_inv s" and e: "live s e" and tm: "TimerLink (Timer (event s e)) \<longrightarrow> Type (event s e) AND EVT_TIMER \<noteq> 0"
    and d: "d = (if Type (event s e) AND EVT_TIMER \<noteq> 0 then disarmed e s else s)"
  shows "settled d" "timer_inv d" "live d e" "mProtocolDatabase d = mProtocolDatabase s" "e \<notin> set (mEfiTimerList d)"
    "ExFlag (event d e) = ExFlag (event s e)" "gEfiCurrentTpl d = gEfiCurrentTpl s" "mEfiCheckTimerEvent d = mEfiCheckTimerEvent s"
    "Tpl (locks d l) = Tpl (locks s l)"
  using s e tm by (auto simp: d settled_disarmed timer_inv_disarmed) (auto simp: disarmed_def timer_inv_def)

lemma close_event_run:
  assumes s: "settled s" "timer_inv s" and cur: "gEfiCurrentTpl s \<le> TPL_HIGH_LEVEL - 1"
    and lk: "Lock (locks s mEfiTimerLock) = EfiLockReleased" "Lock (locks s gProtocolDatabaseLock) = EfiLockReleased"
    and e: "live s e" "e \<noteq> 0" and tm: "TimerLink (Timer (event s e)) \<longrightarrow> Type (event s e) AND EVT_TIMER \<noteq> 0"
    and ex: "ExFlag (event s e) AND EVT_EXFLAG_EVENT_PROTOCOL_NOTIFICATION \<noteq> 0 \<longrightarrow> gEfiCurrentTpl s \<le> TPL_NOTIFY"
    and free: "\<not> EFI_ERROR FreeStatus" and n: "33 + registrations e (mProtocolDatabase s) < n"
    and d: "d = (if Type (event s e) AND EVT_TIMER \<noteq> 0 then disarmed e s else s)"
    and db: "db = (if ExFlag (event s e) AND EVT_EXFLAG_EVENT_PROTOCOL_NOTIFICATION \<noteq> 0
                   then unregistered e (mProtocolDatabase s) else mProtocolDatabase s)"
  obtains c where "CoreCloseEvent n notify FreeStatus e s = Some (FreeStatus, put_event e (Signature_update (\<lambda>_. 0)) c)"
    "view (put_event e (Signature_update (\<lambda>_. 0)) c) = view (closed e (d\<lparr>mProtocolDatabase := db\<rparr>))" "locks_kept s c"
proof -
  note di = disarmed_for_close[OF s e(1) tm d]
  obtain a where a: "(if Type (event s e) AND EVT_TIMER \<noteq> 0 then map_option snd (CoreSetTimer n notify 0 e TimerCancel 0 s) else Some s) = Some a"
    "view a = view d" "settled a" "locks_kept s a"
    using set_timer_run[OF s cur lk(1) _ e, where ty = TimerCancel and n = n and notify = notify and TimerPeriod = 0
        and Trigger = 0 and delay = 0] n s(1)
    by (cases "Type (event s e) AND EVT_TIMER = 0") (auto simp: d)
  have va: "event a = event d" "gEfiCurrentTpl a = gEfiCurrentTpl d" using view_eqD[OF a(2)] by simp_all
  obtain b where b: "do { s \<leftarrow> CoreAcquireEventLock a;
      let s = (if RtLink (RuntimeData (event s e)) then s\<lparr>RuntimeEventHead := remove1 e (RuntimeEventHead s)\<rparr> else s);
      let s = (if NotifyLink (event s e) then remove_notify_link e s else s);
      let s = (if SignalLink (event s e) then s\<lparr>gEventSignalQueue := remove1 e (gEventSignalQueue s)\<rparr> else s);
      CoreReleaseEventLock n notify s } = Some b"
    "view b = view (unlinked e a)" "locks_kept a b" "calm b"
    using unlink_section[OF a(3), of e n notify] va di(3) n by auto
  have vb: "view b = view (unlinked e d)" using b(2) view_cong_close(1)[OF a(2)] by simp
  have fb: "event b = event d" "mProtocolDatabase b = mProtocolDatabase s" "gEfiCurrentTpl b = gEfiCurrentTpl s"
    using view_eqD[OF vb] di(4,7) by (simp_all add: unlinked_def other_fields_def)
  have kb: "locks_kept s b" by (rule locks_kept_trans[OF a(4) b(3)])
  obtain c where c: "(if ExFlag (event b e) AND EVT_EXFLAG_EVENT_PROTOCOL_NOTIFICATION \<noteq> 0
        then map_option snd (CoreUnregisterProtocolNotify n notify e b) else Some b) = Some c"
    "view c = view ((unlinked e d)\<lparr>mProtocolDatabase := db\<rparr>)" "locks_kept s c"
  proof (cases "ExFlag (event s e) AND EVT_EXFLAG_EVENT_PROTOCOL_NOTIFICATION = 0")
    case True
    have "mProtocolDatabase (unlinked e d) = mProtocolDatabase s" using di(4) by (simp add: unlinked_def)
    then have "(unlinked e d)\<lparr>mProtocolDatabase := mProtocolDatabase s\<rparr> = unlinked e d" by simp
    then show thesis using True vb kb fb(1) di(6) by (intro that[of b]) (simp_all add: db)
  next
    case False
    have "Lock (locks b gProtocolDatabaseLock) = EfiLockReleased" using kb lk(2) by (simp add: locks_kept_def)
    then obtain c where c: "UnregisterProtocolNotify_loop n n notify e b = Some c"
      "view c = view (b\<lparr>mProtocolDatabase := unregistered e (mProtocolDatabase b)\<rparr>)" "locks_kept b c"
      using unregister_all[OF b(4), of n e n notify] False ex fb n by auto
    then have "view c = view ((unlinked e d)\<lparr>mProtocolDatabase := db\<rparr>)"
      using False view_cong_database[OF vb] fb(2) by (simp add: db)
    then show thesis using False fb(1) di(6) c(1) locks_kept_trans[OF kb c(3)]
      by (intro that[of c]) (simp_all add: CoreUnregisterProtocolNotify_def)
  qed
  obtain w where w: "CoreAcquireEventLock a = Some w" using b(1) by (cases "CoreAcquireEventLock a") simp_all
  note b1 = b(1)[unfolded w Option.bind.simps Let_def]
  have "CoreCloseEvent n notify FreeStatus e s = Some (FreeStatus, put_event e (Signature_update (\<lambda>_. 0)) c)"
    unfolding CoreCloseEvent_def a(1) Option.bind.simps w Let_def b1 c(1) using e free by (simp only: ASSERT_def if_True if_False Option.bind.simps simp_thms)
  moreover have "view (put_event e (Signature_update (\<lambda>_. 0)) c) = view (closed e (d\<lparr>mProtocolDatabase := db\<rparr>))"
    using view_cong_close(2)[OF c(2)] by (simp only: closed_database)
  ultimately show thesis by (rule that) (rule c(3))
qed

text \<open>
  (C14) Closing a live event, at TPL_HIGH_LEVEL - 1 or below (at TPL_NOTIFY or below when it is registered for protocol notifications):
  the event's timer is cancelled, it stands in no queue any more, its registrations are gone from the
  protocol database, and its signature is cleared, so that no service accepts it again. No other event and no other
  field changes, no notification runs, the locks are as before, and the invariants hold (that of the timers unless
  the event of the timer check itself is closed).
\<close>

theorem close_event_exact:
  assumes s: "settled s" "timer_inv s" and cur: "gEfiCurrentTpl s \<le> TPL_HIGH_LEVEL - 1"
    and lk: "Lock (locks s mEfiTimerLock) = EfiLockReleased" "Lock (locks s gProtocolDatabaseLock) = EfiLockReleased"
    and e: "live s e" "e \<noteq> 0" and tm: "TimerLink (Timer (event s e)) \<longrightarrow> Type (event s e) AND EVT_TIMER \<noteq> 0"
    and ex: "ExFlag (event s e) AND EVT_EXFLAG_EVENT_PROTOCOL_NOTIFICATION \<noteq> 0 \<longrightarrow> gEfiCurrentTpl s \<le> TPL_NOTIFY"
    and free: "\<not> EFI_ERROR FreeStatus" and n: "33 + registrations e (mProtocolDatabase s) < n"
    and d: "d = (if Type (event s e) AND EVT_TIMER \<noteq> 0 then disarmed e s else s)"
    and db: "db = (if ExFlag (event s e) AND EVT_EXFLAG_EVENT_PROTOCOL_NOTIFICATION \<noteq> 0
                   then unregistered e (mProtocolDatabase s) else mProtocolDatabase s)"
  shows "\<exists>t. CoreCloseEvent n notify FreeStatus e s = Some (FreeStatus, t) \<and> view t = view (closed e (d\<lparr>mProtocolDatabase := db\<rparr>))
    \<and> \<not> live t e \<and> e \<notin> set (gEventSignalQueue t) \<and> e \<notin> set (mEfiTimerList t) \<and> (\<forall>p. e \<notin> set (gEventQueue t p))
    \<and> locks_kept s t \<and> settled t \<and> (e \<noteq> mEfiCheckTimerEvent s \<longrightarrow> timer_inv t)"
proof -
  note di = disarmed_for_close[OF s e(1) tm d]
  obtain c where run: "CoreCloseEvent n notify FreeStatus e s = Some (FreeStatus, put_event e (Signature_update (\<lambda>_. 0)) c)"
    and v: "view (put_event e (Signature_update (\<lambda>_. 0)) c) = view (closed e (d\<lparr>mProtocolDatabase := db\<rparr>))" and c: "locks_kept s c"
    by (rule close_event_run[OF s cur lk e tm ex free n d db, where notify = notify])
  let ?t = "put_event e (Signature_update (\<lambda>_. 0)) c"
  let ?d = "d\<lparr>mProtocolDatabase := db\<rparr>"
  have ed: "event_inv d" using di(1) by (simp add: settled_def)
  have inv: "event_inv ?d" by (rule event_inv_cong[OF ed]) (use settled_level[OF di(1)] in simp_all)
  have ti: "timer_inv ?d" using di(2) timer_cong(1)[of ?d d] by simp
  have closed: "event_inv (closed e ?d)" "mEfiTimerList (closed e ?d) = mEfiTimerList d" "gEventPending (closed e ?d) = gEventPending d"
    "\<not> live (closed e ?d) e" "gEfiCurrentTpl (closed e ?d) = gEfiCurrentTpl s" "locks (closed e ?d) = locks d"
    by (rule event_inv_closed[OF inv]) (use di(7) in \<open>simp_all add: closed_def unlinked_def\<close>)
  note vt = view_eqD[OF v]
  have ot: "gEventSignalQueue ?t = gEventSignalQueue (closed e ?d)" "mEfiTimerList ?t = mEfiTimerList d"
    using vt(6) closed(2) by (simp_all add: other_fields_def)
  have kt: "locks_kept s ?t" using c by (simp add: locks_kept_def)
  have it: "event_inv ?t"
    using event_inv_cong[OF closed(1) vt(3,2) ot(1) vt(4)] vt(1) closed(5,6) kt cur s(1) di(9)
    by (auto simp: locks_kept_def settled_def event_inv_def)
  have st: "settled ?t"
    using it kt s(1) vt(1,3) closed(3,5) di(1,7) by (simp add: settled_def locks_kept_def nothing_pending_above_def)
  have "timer_inv ?t" if "e \<noteq> mEfiCheckTimerEvent s"
    using timer_inv_closed[OF ti, of e] di(5,8) that view_cong_timer(3)[OF v] by simp
  moreover have "e \<notin> set (gEventQueue ?t p)" "e \<notin> set (gEventSignalQueue ?t)" for p
    unfolding ot(1) vt(2) using inv by (auto simp: closed_def unlinked_def event_inv_def queue_inv_def signal_inv_def)
  moreover have "\<not> live ?t e" using vt(4) closed(4) by simp
  moreover have "e \<notin> set (mEfiTimerList ?t)" using ot(2) di(5) by simp
  ultimately show ?thesis using run v kt st by blast
qed

theorem close_event_exact_witness:
  "\<exists>t. CoreCloseEvent 34 (\<lambda>f e c s. Some s) EFI_SUCCESS 0x1000 (timer_sample 7 9 3) = Some (EFI_SUCCESS, t)
    \<and> \<not> live t 0x1000 \<and> 0x1000 \<notin> set (mEfiTimerList t) \<and> timer_inv t"
proof -
  let ?s = "timer_sample 7 9 3"
  have "ExFlag (event ?s 0x1000) = 0" "mProtocolDatabase ?s = []"
    by (simp_all add: timer_sample_def initial_core_def zero_event_def)
  then show ?thesis
    using close_event_exact[where s = ?s and e = "0x1000" and n = 34 and notify = "\<lambda>f e c s. Some s" and FreeStatus = EFI_SUCCESS
        and d = "disarmed 0x1000 ?s" and db = "[]", OF timer_sample_settled]
    by (auto simp: timer_sample_fields registrations_def)
qed

section \<open>Initialisation\<close>

lemma settled_platform_fields:
  assumes "settled s"
  shows "settled (s\<lparr>mEfiCheckTimerEvent := e\<rparr>)" "settled (s\<lparr>gIdleLoopEvent := e\<rparr>)"
proof -
  have inv: "event_inv s" using assms by (simp add: settled_def)
  have "event_inv (s\<lparr>mEfiCheckTimerEvent := e\<rparr>)" "event_inv (s\<lparr>gIdleLoopEvent := e\<rparr>)"
    by (rule event_inv_cong[OF inv]; use settled_level[OF assms] in simp)+
  then show "settled (s\<lparr>mEfiCheckTimerEvent := e\<rparr>)" "settled (s\<lparr>gIdleLoopEvent := e\<rparr>)"
    using assms by (simp_all add: settled_def nothing_pending_above_def)
qed

lemma check_timer_parameters:
  "create_parameters EVT_NOTIFY_SIGNAL (TPL_HIGH_LEVEL - 1) (Some CoreCheckTimers_function) 0 None True
     = Some (EVT_NOTIFY_SIGNAL, None, TPL_HIGH_LEVEL - 1, Some CoreCheckTimers_function, 0)"
  by (simp add: create_parameters_def mEventTable_def)

lemma idle_parameters:
  "create_parameters EVT_NOTIFY_SIGNAL TPL_NOTIFY (Some EfiEventEmptyFunction) 0 (Some gIdleLoopEventGuid) True
     = Some (EVT_NOTIFY_SIGNAL, Some gIdleLoopEventGuid, TPL_NOTIFY, Some EfiEventEmptyFunction, 0)"
  by (simp add: create_parameters_def mEventTable_def CompareGuid_def)

text \<open>
  (C19) From the core's initial data, with two different addresses from the allocator, CoreInitializeEventServices succeeds and
  establishes the invariants every other service starts from: nothing is pending or queued, no timer is armed, the
  timer check event is live, runs CoreCheckTimers one level below TPL_HIGH_LEVEL and is the one the ticks signal, and
  the idle loop event is live in the group of idle loop events.
\<close>

theorem event_services_initialised:
  assumes pools: "TimerPool \<noteq> 0" "IdlePool \<noteq> 0" "TimerPool \<noteq> IdlePool" and n: "33 < n"
  shows "\<exists>t. CoreInitializeEventServices n notify TimerPool IdlePool (initial_core cpu w) = Some (EFI_SUCCESS, t)
    \<and> settled t \<and> timer_inv t \<and> mEfiTimerList t = [] \<and> gEventPending t = 0 \<and> world t = w
    \<and> mEfiCheckTimerEvent t = TimerPool \<and> NotifyFunction (event t TimerPool) = Some CoreCheckTimers_function
    \<and> NotifyTpl (event t TimerPool) = TPL_HIGH_LEVEL - 1
    \<and> gIdleLoopEvent t = IdlePool \<and> live t IdlePool \<and> EventGroup (event t IdlePool) = gIdleLoopEventGuid"
proof -
  let ?s = "initial_core cpu w"
  have s: "settled ?s" "\<not> live ?s e" for e by (rule settled_initial) (simp add: initial_core_def zero_event_def)
  have s0: "?s\<lparr>gEventQueue := \<lambda>Index. if Index \<le> 31 then [] else gEventQueue ?s Index\<rparr> = ?s"
    by (rule DXE.equality) (simp_all add: initial_core_def fun_eq_iff)
  obtain a where a: "CoreCreateEventInternal n notify TimerPool EVT_NOTIFY_SIGNAL (TPL_HIGH_LEVEL - 1) (Some CoreCheckTimers_function) 0 None True ?s
      = Some (EFI_SUCCESS, Some TimerPool, a)"
    "view a = view (with_created TimerPool EVT_NOTIFY_SIGNAL None (TPL_HIGH_LEVEL - 1) (Some CoreCheckTimers_function) 0 ?s)" "settled a"
    using create_event_run[OF s(1) s(2) n pools(1) check_timer_parameters] by blast
  let ?b = "a\<lparr>mEfiCheckTimerEvent := TimerPool\<rparr>"
  have b: "settled ?b" by (rule settled_platform_fields[OF a(3)])
  have va: "event a = (event ?s)(TimerPool := created_event TimerPool EVT_NOTIFY_SIGNAL None (TPL_HIGH_LEVEL - 1) (Some CoreCheckTimers_function) 0)"
    using view_eqD(4)[OF a(2)] by (simp add: with_created_def)
  then have fresh: "\<not> live ?b IdlePool" using pools(3) s(2)[of IdlePool] by simp
  obtain c where c: "CoreCreateEventInternal n notify IdlePool EVT_NOTIFY_SIGNAL TPL_NOTIFY (Some EfiEventEmptyFunction) 0 (Some gIdleLoopEventGuid) True ?b
      = Some (EFI_SUCCESS, Some IdlePool, c)"
    "view c = view (with_created IdlePool EVT_NOTIFY_SIGNAL (Some gIdleLoopEventGuid) TPL_NOTIFY (Some EfiEventEmptyFunction) 0 ?b)" "settled c"
    using create_event_run[OF b fresh n pools(2) idle_parameters] by blast
  note v = view_eqD[OF a(2)] view_eqD[OF c(2)]
  have run: "CoreInitializeEventServices n notify TimerPool IdlePool ?s = Some (EFI_SUCCESS, c\<lparr>gIdleLoopEvent := IdlePool\<rparr>)"
    unfolding CoreInitializeEventServices_def Let_def s0
    using a(1) c(1) by (simp add: CoreInitializeTimer_def CoreCreateEventEx_def)
  have t: "settled (c\<lparr>gIdleLoopEvent := IdlePool\<rparr>)" by (rule settled_platform_fields[OF c(3)])
  have oa: "mEfiTimerList a = []" using v(6) by (simp add: with_created_def other_fields_def initial_core_def)
  have oc: "mEfiTimerList c = []" "mEfiCheckTimerEvent c = TimerPool"
    using v(12) oa by (simp_all add: with_created_def other_fields_def)
  have ec: "event c = (event a)(IdlePool := created_event IdlePool EVT_NOTIFY_SIGNAL (Some gIdleLoopEventGuid) TPL_NOTIFY (Some EfiEventEmptyFunction) 0)"
    using v(10) by (simp add: with_created_def)
  have tl: "\<not> TimerLink (Timer (event c x))" for x
    by (simp add: ec va created_event_def zero_event_def initial_core_def)
  have "timer_inv (c\<lparr>gIdleLoopEvent := IdlePool\<rparr>)"
    using tl oc pools ec va by (simp add: timer_inv_def)
  moreover have "gEventPending c = 0" "world c = w" using v(3,5,9,11) by (simp_all add: with_created_def initial_core_def)
  moreover have "EventGroup (event c IdlePool) = gIdleLoopEventGuid" by (simp add: ec created_event_def)
  ultimately show ?thesis using run t oc pools ec va by simp
qed

theorem event_services_initialised_witness:
  "\<exists>t. CoreInitializeEventServices 34 (\<lambda>f e c s. Some s) 0x1000 0x2000 (initial_core True ()) = Some (EFI_SUCCESS, t)
    \<and> settled t \<and> timer_inv t"
  using event_services_initialised[where TimerPool = "0x1000" and IdlePool = "0x2000" and n = 34 and notify = "\<lambda>f e c s. Some s"
      and cpu = True and w = "()"] by auto

end
