(* ===== verification/Dxe_Handle.thy ===== *)
theory Dxe_Handle
  imports Dxe_Timer
begin

text \<open>
  The handle and protocol database of the DXE core: MdeModulePkg/Core/Dxe/Hand/Handle.c, Notify.c and Locate.c. The structures are
  those of theory Dxe_Tpl; every service takes the database lock, so that releasing it may run notifications (fuel \<open>n\<close> and the
  functions \<open>notify\<close>, as in the event services). A NULL pointer is the address 0 or \<open>None\<close>. What AllocatePool answers is an argument of the
  call: the address it returns, or whether it succeeds where the address of the new structure is not
  used. CoreConnectController and CoreDisconnectController, which call the drivers' bindings, are the arguments \<open>Connect\<close>
  and \<open>Disconnect\<close>.
\<close>

unbundle bit_operations_syntax

section \<open>Access to the structures\<close>

abbreviation EFI_HANDLE_SIGNATURE :: UINTN where "EFI_HANDLE_SIGNATURE \<equiv> 0x6c646e68"
abbreviation PROTOCOL_INTERFACE_SIGNATURE :: UINTN where "PROTOCOL_INTERFACE_SIGNATURE \<equiv> 0x63666970"

abbreviation EFI_OPEN_PROTOCOL_BY_HANDLE_PROTOCOL :: UINT32 where "EFI_OPEN_PROTOCOL_BY_HANDLE_PROTOCOL \<equiv> 0x01"
abbreviation EFI_OPEN_PROTOCOL_GET_PROTOCOL :: UINT32 where "EFI_OPEN_PROTOCOL_GET_PROTOCOL \<equiv> 0x02"
abbreviation EFI_OPEN_PROTOCOL_TEST_PROTOCOL :: UINT32 where "EFI_OPEN_PROTOCOL_TEST_PROTOCOL \<equiv> 0x04"
abbreviation EFI_OPEN_PROTOCOL_BY_CHILD_CONTROLLER :: UINT32 where "EFI_OPEN_PROTOCOL_BY_CHILD_CONTROLLER \<equiv> 0x08"
abbreviation EFI_OPEN_PROTOCOL_BY_DRIVER :: UINT32 where "EFI_OPEN_PROTOCOL_BY_DRIVER \<equiv> 0x10"
abbreviation EFI_OPEN_PROTOCOL_EXCLUSIVE :: UINT32 where "EFI_OPEN_PROTOCOL_EXCLUSIVE \<equiv> 0x20"

abbreviation EFI_NATIVE_INTERFACE :: UINT32 where "EFI_NATIVE_INTERFACE \<equiv> 0"

type_synonym 'w connect = "EFI_HANDLE \<Rightarrow> 'w DXE \<Rightarrow> (EFI_STATUS \<times> 'w DXE) option"
type_synonym 'w disconnect = "EFI_HANDLE \<Rightarrow> EFI_HANDLE \<Rightarrow> 'w DXE \<Rightarrow> (EFI_STATUS \<times> 'w DXE) option"

abbreviation handle_at :: "'w DXE \<Rightarrow> EFI_HANDLE \<Rightarrow> IHANDLE" where "handle_at s h \<equiv> ihandle (hand s) h"
abbreviation interface_at :: "'w DXE \<Rightarrow> PTR \<Rightarrow> PROTOCOL_INTERFACE" where "interface_at s p \<equiv> interface (hand s) p"

definition put_hand :: "(HAND \<Rightarrow> HAND) \<Rightarrow> 'w DXE \<Rightarrow> 'w DXE" where
  "put_hand f s = s\<lparr>hand := f (hand s)\<rparr>"

definition put_handle :: "EFI_HANDLE \<Rightarrow> (IHANDLE \<Rightarrow> IHANDLE) \<Rightarrow> 'w DXE \<Rightarrow> 'w DXE" where
  "put_handle h f s = put_hand (\<lambda>d. d\<lparr>ihandle := (ihandle d)(h := f (ihandle d h))\<rparr>) s"

definition put_interface :: "PTR \<Rightarrow> (PROTOCOL_INTERFACE \<Rightarrow> PROTOCOL_INTERFACE) \<Rightarrow> 'w DXE \<Rightarrow> 'w DXE" where
  "put_interface p f s = put_hand (\<lambda>d. d\<lparr>interface := (interface d)(p := f (interface d p))\<rparr>) s"

definition entry_at :: "'w DXE \<Rightarrow> PTR \<Rightarrow> PROTOCOL_ENTRY option" where
  "entry_at s a = find (\<lambda>e. EntryAddress e = a) (mProtocolDatabase s)"

definition put_entry :: "PTR \<Rightarrow> (PROTOCOL_ENTRY \<Rightarrow> PROTOCOL_ENTRY) \<Rightarrow> 'w DXE \<Rightarrow> 'w DXE" where
  "put_entry a f s = s\<lparr>mProtocolDatabase := map (\<lambda>e. if EntryAddress e = a then f e else e) (mProtocolDatabase s)\<rparr>"

text \<open>The links of a list behind a position, and the link in front of an element.\<close>

definition links_after :: "PTR option \<Rightarrow> PTR list \<Rightarrow> PTR list option" where
  "links_after pos xs =
     (case pos of
        None \<Rightarrow> Some xs
      | Some p \<Rightarrow> if p \<in> set xs then Some (tl (dropWhile (\<lambda>x. x \<noteq> p) xs)) else None)"

definition link_before :: "PTR \<Rightarrow> PTR list \<Rightarrow> PTR option" where
  "link_before p xs = (case takeWhile (\<lambda>x. x \<noteq> p) xs of [] \<Rightarrow> None | ys \<Rightarrow> Some (last ys))"

section \<open>Finding handles, entries and interfaces\<close>

definition CoreValidateHandle :: "EFI_HANDLE \<Rightarrow> 'w DXE \<Rightarrow> EFI_STATUS option" where
  "CoreValidateHandle UserHandle s =
     (if UserHandle = 0 then Some EFI_INVALID_PARAMETER
      else do {
        r \<leftarrow> walk (\<lambda>h. HandleSignature (handle_at s h) = EFI_HANDLE_SIGNATURE) (\<lambda>h. h = UserHandle) (rev (gHandleList (hand s)));
        Some (case r of Some _ \<Rightarrow> EFI_SUCCESS | None \<Rightarrow> EFI_INVALID_PARAMETER)
      })"

definition CoreFindProtocolEntry :: "EFI_GUID \<Rightarrow> bool \<Rightarrow> PTR \<Rightarrow> 'w DXE \<Rightarrow> (PTR \<times> 'w DXE) option" where
  "CoreFindProtocolEntry guid Create Pool s =
     do {
       ASSERT_LOCKED gProtocolDatabaseLock s;
       Some (case find (\<lambda>Item. CompareGuid (ProtocolID Item) guid) (mProtocolDatabase s) of
               Some Item \<Rightarrow> (EntryAddress Item, s)
             | None \<Rightarrow>
                 if Create \<and> Pool \<noteq> 0
                 then (Pool, s\<lparr>mProtocolDatabase := mProtocolDatabase s @
                               [\<lparr>EntryAddress = Pool, ProtocolID = guid, EntryProtocols = [], Notifies = []\<rparr>]\<rparr>)
                 else (0, s))
     }"

definition CoreFindProtocolInterface :: "EFI_HANDLE \<Rightarrow> EFI_GUID \<Rightarrow> PTR \<Rightarrow> 'w DXE \<Rightarrow> PTR option" where
  "CoreFindProtocolInterface Handle guid Intf s =
     do {
       ASSERT_LOCKED gProtocolDatabaseLock s;
       (ProtEntry, _) \<leftarrow> CoreFindProtocolEntry guid False 0 s;
       if ProtEntry \<noteq> 0
       then do {
         r \<leftarrow> walk (\<lambda>p. InterfaceSignature (interface_at s p) = PROTOCOL_INTERFACE_SIGNATURE)
                (\<lambda>p. Interface (interface_at s p) = Intf \<and> Protocol (interface_at s p) = ProtEntry)
                (Protocols (handle_at s Handle));
         Some (case r of Some Prot \<Rightarrow> Prot | None \<Rightarrow> 0)
       }
       else Some 0
     }"

definition CoreGetProtocolInterface :: "EFI_HANDLE \<Rightarrow> EFI_GUID \<Rightarrow> 'w DXE \<Rightarrow> PTR option" where
  "CoreGetProtocolInterface UserHandle guid s =
     do {
       Status \<leftarrow> CoreValidateHandle UserHandle s;
       if EFI_ERROR Status then Some 0
       else do {
         r \<leftarrow> walk (\<lambda>p. InterfaceSignature (interface_at s p) = PROTOCOL_INTERFACE_SIGNATURE \<and> entry_at s (Protocol (interface_at s p)) \<noteq> None)
                (\<lambda>p. CompareGuid (ProtocolID (the (entry_at s (Protocol (interface_at s p))))) guid)
                (Protocols (handle_at s UserHandle));
         Some (case r of Some Prot \<Rightarrow> Prot | None \<Rightarrow> 0)
       }
     }"

section \<open>Opening and closing protocols\<close>

text \<open>
  The walk of CoreOpenProtocol over the OpenList: an exact match opened by a driver is already started, another exact match that is
  not exclusive is counted, and otherwise the walk tells whether a driver and whether an exclusive opener is there.
\<close>

datatype open_scan = Already_started | Counted "OPEN_PROTOCOL_DATA list" | Scanned bool bool

fun OpenList_scan :: "(OPEN_PROTOCOL_DATA \<Rightarrow> bool) \<Rightarrow> bool \<Rightarrow> bool \<Rightarrow> OPEN_PROTOCOL_DATA list \<Rightarrow> open_scan" where
  "OpenList_scan ExactMatch ByDriver Exclusive [] = Scanned ByDriver Exclusive"
| "OpenList_scan ExactMatch ByDriver Exclusive (OpenData # l) =
     (if Attributes OpenData AND EFI_OPEN_PROTOCOL_BY_DRIVER \<noteq> 0 \<and> ExactMatch OpenData then Already_started
      else if Attributes OpenData AND EFI_OPEN_PROTOCOL_EXCLUSIVE = 0 \<and> ExactMatch OpenData
      then Counted (OpenData\<lparr>OpenCount := OpenCount OpenData + 1\<rparr> # l)
      else (case OpenList_scan ExactMatch (ByDriver \<or> Attributes OpenData AND EFI_OPEN_PROTOCOL_BY_DRIVER \<noteq> 0)
                   (Exclusive \<or> Attributes OpenData AND EFI_OPEN_PROTOCOL_EXCLUSIVE \<noteq> 0) l of
              Counted l' \<Rightarrow> Counted (OpenData # l')
            | r \<Rightarrow> r))"

text \<open>Disconnecting the drivers from an interface that is opened exclusively, until no driver has it open.\<close>

primrec OpenDisconnect_loop ::
  "nat \<Rightarrow> nat \<Rightarrow> 'w notify \<Rightarrow> 'w disconnect \<Rightarrow> EFI_HANDLE \<Rightarrow> PTR \<Rightarrow> 'w DXE \<Rightarrow> (EFI_STATUS \<times> 'w DXE) option" where
  "OpenDisconnect_loop 0 n notify Disconnect UserHandle Prot s = None"
| "OpenDisconnect_loop (Suc k) n notify Disconnect UserHandle Prot s =
     (case find (\<lambda>d. Attributes d AND EFI_OPEN_PROTOCOL_BY_DRIVER \<noteq> 0) (OpenList (interface_at s Prot)) of
        None \<Rightarrow> Some (EFI_SUCCESS, s)
      | Some OpenData \<Rightarrow> do {
          s \<leftarrow> CoreReleaseProtocolLock n notify s;
          (Status, s) \<leftarrow> Disconnect UserHandle (AgentHandle OpenData) s;
          s \<leftarrow> CoreAcquireProtocolLock s;
          if EFI_ERROR Status then Some (EFI_ACCESS_DENIED, s)
          else OpenDisconnect_loop k n notify Disconnect UserHandle Prot s
        })"

text \<open>The checks of the handles that an open mode needs.\<close>

definition open_mode_check :: "EFI_HANDLE \<Rightarrow> EFI_HANDLE \<Rightarrow> EFI_HANDLE \<Rightarrow> UINT32 \<Rightarrow> 'w DXE \<Rightarrow> EFI_STATUS option" where
  "open_mode_check UserHandle ImageHandle Controller Attr s =
     (if Attr = EFI_OPEN_PROTOCOL_BY_CHILD_CONTROLLER
      then do {
        Status \<leftarrow> CoreValidateHandle ImageHandle s;
        if EFI_ERROR Status then Some Status
        else do {
          Status \<leftarrow> CoreValidateHandle Controller s;
          if EFI_ERROR Status then Some Status
          else Some (if UserHandle = Controller then EFI_INVALID_PARAMETER else EFI_SUCCESS)
        }
      }
      else if Attr = EFI_OPEN_PROTOCOL_BY_DRIVER \<or> Attr = EFI_OPEN_PROTOCOL_BY_DRIVER OR EFI_OPEN_PROTOCOL_EXCLUSIVE
      then do {
        Status \<leftarrow> CoreValidateHandle ImageHandle s;
        if EFI_ERROR Status then Some Status else CoreValidateHandle Controller s
      }
      else if Attr = EFI_OPEN_PROTOCOL_EXCLUSIVE then CoreValidateHandle ImageHandle s
      else if Attr = EFI_OPEN_PROTOCOL_BY_HANDLE_PROTOCOL \<or> Attr = EFI_OPEN_PROTOCOL_GET_PROTOCOL \<or> Attr = EFI_OPEN_PROTOCOL_TEST_PROTOCOL
      then Some EFI_SUCCESS
      else Some EFI_INVALID_PARAMETER)"

text \<open>CoreOpenProtocol from the walk over the OpenList of the interface \<open>Prot\<close> to the label Done.\<close>

definition open_interface ::
  "nat \<Rightarrow> 'w notify \<Rightarrow> 'w disconnect \<Rightarrow> bool \<Rightarrow> EFI_HANDLE \<Rightarrow> PTR \<Rightarrow> EFI_HANDLE \<Rightarrow> EFI_HANDLE \<Rightarrow> UINT32 \<Rightarrow> 'w DXE
   \<Rightarrow> (EFI_STATUS \<times> 'w DXE) option" where
  "open_interface n notify Disconnect Pool UserHandle Prot ImageHandle Controller Attr s =
     (case OpenList_scan (\<lambda>d. AgentHandle d = ImageHandle \<and> Attributes d = Attr \<and> ControllerHandle d = Controller)
             False False (OpenList (interface_at s Prot)) of
        Already_started \<Rightarrow> Some (EFI_ALREADY_STARTED, s)
      | Counted l \<Rightarrow> Some (EFI_SUCCESS, put_interface Prot (OpenList_update (\<lambda>_. l)) s)
      | Scanned ByDriver Exclusive \<Rightarrow> do {
          (Status, s) \<leftarrow>
            (if Attr = EFI_OPEN_PROTOCOL_BY_DRIVER
             then Some (if Exclusive \<or> ByDriver then EFI_ACCESS_DENIED else EFI_SUCCESS, s)
             else if Attr = EFI_OPEN_PROTOCOL_BY_DRIVER OR EFI_OPEN_PROTOCOL_EXCLUSIVE \<or> Attr = EFI_OPEN_PROTOCOL_EXCLUSIVE
             then if Exclusive then Some (EFI_ACCESS_DENIED, s)
                  else if ByDriver then OpenDisconnect_loop n n notify Disconnect UserHandle Prot s
                  else Some (EFI_SUCCESS, s)
             else Some (EFI_SUCCESS, s));
          if EFI_ERROR Status then Some (Status, s)
          else if ImageHandle = 0 then Some (EFI_SUCCESS, s)
          else if \<not> Pool then Some (EFI_OUT_OF_RESOURCES, s)
          else Some (EFI_SUCCESS, put_interface Prot
                 (\<lambda>p. p\<lparr>OpenList := OpenList p @ [\<lparr>AgentHandle = ImageHandle, ControllerHandle = Controller, Attributes = Attr, OpenCount = 1\<rparr>],
                        OpenListCount := OpenListCount p + 1\<rparr>) s)
        })"

text \<open>
  The results are the status, what is stored through the pointer Interface (\<open>None\<close> when nothing is) and the state.
\<close>

definition CoreOpenProtocol ::
  "nat \<Rightarrow> 'w notify \<Rightarrow> 'w disconnect \<Rightarrow> bool \<Rightarrow> EFI_HANDLE \<Rightarrow> EFI_GUID option \<Rightarrow> bool \<Rightarrow> EFI_HANDLE \<Rightarrow> EFI_HANDLE \<Rightarrow> UINT32
   \<Rightarrow> 'w DXE \<Rightarrow> (EFI_STATUS \<times> PTR option \<times> 'w DXE) option" where
  "CoreOpenProtocol n notify Disconnect Pool UserHandle guid Interface_given ImageHandle Controller Attr s =
     (case guid of
        None \<Rightarrow> Some (EFI_INVALID_PARAMETER, None, s)
      | Some guid \<Rightarrow>
        if Attr \<noteq> EFI_OPEN_PROTOCOL_TEST_PROTOCOL \<and> \<not> Interface_given then Some (EFI_INVALID_PARAMETER, None, s)
        else do {
          Status \<leftarrow> CoreValidateHandle UserHandle s;
          if EFI_ERROR Status then Some (Status, None, s)
          else do {
            Status \<leftarrow> open_mode_check UserHandle ImageHandle Controller Attr s;
            if EFI_ERROR Status then Some (Status, None, s)
            else do {
              s \<leftarrow> CoreAcquireProtocolLock s;
              Prot \<leftarrow> CoreGetProtocolInterface UserHandle guid s;
              (Status, s) \<leftarrow>
                (if Prot = 0 then Some (EFI_UNSUPPORTED, s)
                 else open_interface n notify Disconnect Pool UserHandle Prot ImageHandle Controller Attr s);
              out \<leftarrow>
                (if Attr \<noteq> EFI_OPEN_PROTOCOL_TEST_PROTOCOL
                 then if \<not> EFI_ERROR Status \<or> Status = EFI_ALREADY_STARTED
                      then do { ASSERT (Prot \<noteq> 0); Some (Some (Interface (interface_at s Prot))) }
                      else Some (if Status = EFI_UNSUPPORTED then Some 0 else None)
                 else Some None);
              s \<leftarrow> CoreReleaseProtocolLock n notify s;
              Some (Status, out, s)
            }
          }
        })"

definition CoreHandleProtocol ::
  "nat \<Rightarrow> 'w notify \<Rightarrow> 'w disconnect \<Rightarrow> bool \<Rightarrow> EFI_HANDLE \<Rightarrow> EFI_GUID option \<Rightarrow> bool \<Rightarrow> 'w DXE
   \<Rightarrow> (EFI_STATUS \<times> PTR option \<times> 'w DXE) option" where
  "CoreHandleProtocol n notify Disconnect Pool UserHandle guid Interface_given s =
     CoreOpenProtocol n notify Disconnect Pool UserHandle guid Interface_given (gDxeCoreImageHandle (hand s)) 0
       EFI_OPEN_PROTOCOL_BY_HANDLE_PROTOCOL s"

definition CoreCloseProtocol ::
  "nat \<Rightarrow> 'w notify \<Rightarrow> EFI_HANDLE \<Rightarrow> EFI_GUID option \<Rightarrow> EFI_HANDLE \<Rightarrow> EFI_HANDLE \<Rightarrow> 'w DXE \<Rightarrow> (EFI_STATUS \<times> 'w DXE) option" where
  "CoreCloseProtocol n notify UserHandle guid Agent Controller s =
     do {
       Status \<leftarrow> CoreValidateHandle UserHandle s;
       if EFI_ERROR Status then Some (Status, s)
       else do {
         Status \<leftarrow> CoreValidateHandle Agent s;
         if EFI_ERROR Status then Some (Status, s)
         else do {
           Status \<leftarrow> (if Controller \<noteq> 0 then CoreValidateHandle Controller s else Some EFI_SUCCESS);
           if EFI_ERROR Status then Some (Status, s)
           else (case guid of
             None \<Rightarrow> Some (EFI_INVALID_PARAMETER, s)
           | Some guid \<Rightarrow> do {
               s \<leftarrow> CoreAcquireProtocolLock s;
               Prot \<leftarrow> CoreGetProtocolInterface UserHandle guid s;
               let Found = (\<lambda>d. AgentHandle d = Agent \<and> ControllerHandle d = Controller);
               let (Status, s) =
                 (if Prot = 0 then (EFI_NOT_FOUND, s)
                  else (if list_ex Found (OpenList (interface_at s Prot)) then EFI_SUCCESS else EFI_NOT_FOUND,
                        put_interface Prot
                          (\<lambda>p. p\<lparr>OpenList := filter (\<lambda>d. \<not> Found d) (OpenList p),
                                 OpenListCount := OpenListCount p - of_nat (length (filter Found (OpenList p)))\<rparr>) s));
               s \<leftarrow> CoreReleaseProtocolLock n notify s;
               Some (Status, s)
             })
         }
       }
     }"

text \<open>\<open>Pool\<close>: whether the information buffer is allocated. The results are the status, the entries and the state.\<close>

definition CoreOpenProtocolInformation ::
  "nat \<Rightarrow> 'w notify \<Rightarrow> bool \<Rightarrow> EFI_HANDLE \<Rightarrow> EFI_GUID \<Rightarrow> 'w DXE \<Rightarrow> (EFI_STATUS \<times> OPEN_PROTOCOL_DATA list \<times> 'w DXE) option" where
  "CoreOpenProtocolInformation n notify Pool UserHandle guid s =
     do {
       s \<leftarrow> CoreAcquireProtocolLock s;
       Prot \<leftarrow> CoreGetProtocolInterface UserHandle guid s;
       (Status, Entries) \<leftarrow>
         (if Prot = 0 then Some (EFI_NOT_FOUND, [])
          else do {
            ASSERT (of_nat (length (OpenList (interface_at s Prot))) = OpenListCount (interface_at s Prot));
            Some (if Pool then (EFI_SUCCESS, OpenList (interface_at s Prot)) else (EFI_OUT_OF_RESOURCES, []))
          });
       s \<leftarrow> CoreReleaseProtocolLock n notify s;
       Some (Status, Entries, s)
     }"

section \<open>Installing protocols\<close>

text \<open>
  The walk of CoreNotifyProtocolEntry over the notifications of an entry. The list cannot change under the walk: whatever
  would change it asserts that the database lock is free.
\<close>

fun NotifyProtocolEntry_loop :: "nat \<Rightarrow> 'w notify \<Rightarrow> PROTOCOL_NOTIFY list \<Rightarrow> 'w DXE \<Rightarrow> 'w DXE option" where
  "NotifyProtocolEntry_loop n notify [] s = Some s"
| "NotifyProtocolEntry_loop n notify (ProtNotify # l) s =
     do { (_, s) \<leftarrow> CoreSignalEvent n notify (Event ProtNotify) s; NotifyProtocolEntry_loop n notify l s }"

definition CoreNotifyProtocolEntry :: "nat \<Rightarrow> 'w notify \<Rightarrow> PTR \<Rightarrow> 'w DXE \<Rightarrow> 'w DXE option" where
  "CoreNotifyProtocolEntry n notify ProtEntry s =
     do {
       ASSERT_LOCKED gProtocolDatabaseLock s;
       e \<leftarrow> entry_at s ProtEntry;
       NotifyProtocolEntry_loop n notify (Notifies e) s
     }"

text \<open>The handle an installation is on: a new one, or the caller's, which has to be valid.\<close>

definition install_handle :: "PTR \<Rightarrow> EFI_HANDLE \<Rightarrow> 'w DXE \<Rightarrow> (EFI_STATUS \<times> EFI_HANDLE \<times> 'w DXE) option" where
  "install_handle HandlePool UserHandle s =
     (if UserHandle = 0
      then if HandlePool = 0 then Some (EFI_OUT_OF_RESOURCES, 0, s)
           else do {
             let s = put_hand (\<lambda>d. d\<lparr>gHandleDatabaseKey := gHandleDatabaseKey d + 1\<rparr>) s;
             let s = put_handle HandlePool (\<lambda>_. \<lparr>HandleSignature = EFI_HANDLE_SIGNATURE, Protocols = [], LocateRequest = 0,
                                                  Key = gHandleDatabaseKey (hand s)\<rparr>) s;
             Some (EFI_SUCCESS, HandlePool, put_hand (\<lambda>d. d\<lparr>gHandleList := gHandleList d @ [HandlePool]\<rparr>) s)
           }
      else do { Status \<leftarrow> CoreValidateHandle UserHandle s; Some (Status, UserHandle, s) })"

text \<open>
  CoreInstallProtocolInterfaceNotify between taking the lock and the label Done. \<open>Status\<close> is the value the status variable has when
  the lock is taken; the results are the status, the handle and the state.
\<close>

definition install_locked ::
  "nat \<Rightarrow> 'w notify \<Rightarrow> PTR \<Rightarrow> PTR \<Rightarrow> PTR \<Rightarrow> EFI_STATUS \<Rightarrow> EFI_HANDLE \<Rightarrow> EFI_GUID \<Rightarrow> PTR \<Rightarrow> bool \<Rightarrow> 'w DXE
   \<Rightarrow> (EFI_STATUS \<times> EFI_HANDLE \<times> 'w DXE) option" where
  "install_locked n notify EntryPool ProtPool HandlePool Status UserHandle guid Intf Notify s =
     do {
       (ProtEntry, s) \<leftarrow> CoreFindProtocolEntry guid True EntryPool s;
       if ProtEntry = 0 then Some (Status, 0, s)
       else if ProtPool = 0 then Some (EFI_OUT_OF_RESOURCES, 0, s)
       else do {
         (Status, Handle, s) \<leftarrow> install_handle HandlePool UserHandle s;
         if EFI_ERROR Status then Some (Status, Handle, s)
         else do {
           Found \<leftarrow> CoreFindProtocolInterface Handle guid Intf s;
           ASSERT (Found = 0);
           let s = put_interface ProtPool (\<lambda>_. \<lparr>InterfaceSignature = PROTOCOL_INTERFACE_SIGNATURE, OnHandle = Handle, Protocol = ProtEntry,
                                               Interface = Intf, OpenList = [], OpenListCount = 0\<rparr>) s;
           let s = put_handle Handle (Protocols_update (\<lambda>l. ProtPool # l)) s;
           let s = put_entry ProtEntry (EntryProtocols_update (\<lambda>l. l @ [ProtPool])) s;
           s \<leftarrow> (if Notify then CoreNotifyProtocolEntry n notify ProtEntry s else Some s);
           Some (EFI_SUCCESS, Handle, s)
         }
       }
     }"

text \<open>
  \<open>UserHandle\<close> is the pointer to the handle variable, \<open>None\<close> for NULL; the second result is the variable afterwards. The pool
  answers are for the OPEN_PROTOCOL_DATA of CoreHandleProtocol, the protocol entry, the interface and the handle.
\<close>

definition CoreInstallProtocolInterfaceNotify ::
  "nat \<Rightarrow> 'w notify \<Rightarrow> 'w disconnect \<Rightarrow> bool \<Rightarrow> PTR \<Rightarrow> PTR \<Rightarrow> PTR \<Rightarrow> EFI_HANDLE option \<Rightarrow> EFI_GUID option \<Rightarrow> UINT32 \<Rightarrow> PTR \<Rightarrow> bool
   \<Rightarrow> 'w DXE \<Rightarrow> (EFI_STATUS \<times> EFI_HANDLE option \<times> 'w DXE) option" where
  "CoreInstallProtocolInterfaceNotify n notify Disconnect OpenPool EntryPool ProtPool HandlePool UserHandle guid InterfaceType Intf Notify s =
     (case (UserHandle, guid) of
        (Some h, Some g) \<Rightarrow>
          if InterfaceType \<noteq> EFI_NATIVE_INTERFACE then Some (EFI_INVALID_PARAMETER, UserHandle, s)
          else do {
            (Status, s) \<leftarrow>
              (if h \<noteq> 0
               then do { (Status, _, s) \<leftarrow> CoreHandleProtocol n notify Disconnect OpenPool h guid True s; Some (Status, s) }
               else Some (EFI_OUT_OF_RESOURCES, s));
            if \<not> EFI_ERROR Status then Some (EFI_INVALID_PARAMETER, UserHandle, s)
            else do {
              s \<leftarrow> CoreAcquireProtocolLock s;
              (Status, Handle, s) \<leftarrow> install_locked n notify EntryPool ProtPool HandlePool Status h g Intf Notify s;
              s \<leftarrow> CoreReleaseProtocolLock n notify s;
              Some (Status, if EFI_ERROR Status then UserHandle else Some Handle, s)
            }
          }
      | _ \<Rightarrow> Some (EFI_INVALID_PARAMETER, UserHandle, s))"

definition CoreInstallProtocolInterface ::
  "nat \<Rightarrow> 'w notify \<Rightarrow> 'w disconnect \<Rightarrow> bool \<Rightarrow> PTR \<Rightarrow> PTR \<Rightarrow> PTR \<Rightarrow> EFI_HANDLE option \<Rightarrow> EFI_GUID option \<Rightarrow> UINT32 \<Rightarrow> PTR
   \<Rightarrow> 'w DXE \<Rightarrow> (EFI_STATUS \<times> EFI_HANDLE option \<times> 'w DXE) option" where
  "CoreInstallProtocolInterface n notify Disconnect OpenPool EntryPool ProtPool HandlePool UserHandle guid InterfaceType Intf s =
     CoreInstallProtocolInterfaceNotify n notify Disconnect OpenPool EntryPool ProtPool HandlePool UserHandle guid InterfaceType Intf True s"

section \<open>Uninstalling protocols\<close>

primrec DisconnectUsing_loop ::
  "nat \<Rightarrow> nat \<Rightarrow> 'w notify \<Rightarrow> 'w disconnect \<Rightarrow> EFI_HANDLE \<Rightarrow> PTR \<Rightarrow> 'w DXE \<Rightarrow> (EFI_STATUS \<times> 'w DXE) option" where
  "DisconnectUsing_loop 0 n notify Disconnect UserHandle Prot s = None"
| "DisconnectUsing_loop (Suc k) n notify Disconnect UserHandle Prot s =
     (case find (\<lambda>d. Attributes d AND EFI_OPEN_PROTOCOL_BY_DRIVER \<noteq> 0) (OpenList (interface_at s Prot)) of
        None \<Rightarrow> Some (EFI_SUCCESS, s)
      | Some OpenData \<Rightarrow> do {
          s \<leftarrow> CoreReleaseProtocolLock n notify s;
          (Status, s) \<leftarrow> Disconnect UserHandle (AgentHandle OpenData) s;
          s \<leftarrow> CoreAcquireProtocolLock s;
          if EFI_ERROR Status then Some (Status, s)
          else DisconnectUsing_loop k n notify Disconnect UserHandle Prot s
        })"

definition CoreDisconnectControllersUsingProtocolInterface ::
  "nat \<Rightarrow> 'w notify \<Rightarrow> 'w connect \<Rightarrow> 'w disconnect \<Rightarrow> EFI_HANDLE \<Rightarrow> PTR \<Rightarrow> 'w DXE \<Rightarrow> (EFI_STATUS \<times> 'w DXE) option" where
  "CoreDisconnectControllersUsingProtocolInterface n notify Connect Disconnect UserHandle Prot s =
     do {
       (Status, s) \<leftarrow> DisconnectUsing_loop n n notify Disconnect UserHandle Prot s;
       let passive = (\<lambda>d. Attributes d AND (EFI_OPEN_PROTOCOL_BY_HANDLE_PROTOCOL OR EFI_OPEN_PROTOCOL_GET_PROTOCOL OR
                            EFI_OPEN_PROTOCOL_TEST_PROTOCOL) \<noteq> 0);
       let s = (if EFI_ERROR Status then s
                else put_interface Prot
                       (\<lambda>p. p\<lparr>OpenList := filter (\<lambda>d. \<not> passive d) (OpenList p),
                              OpenListCount := OpenListCount p - of_nat (length (filter passive (OpenList p)))\<rparr>) s);
       if EFI_ERROR Status \<or> OpenListCount (interface_at s Prot) > 0
       then do {
         s \<leftarrow> CoreReleaseProtocolLock n notify s;
         (_, s) \<leftarrow> Connect UserHandle s;
         s \<leftarrow> CoreAcquireProtocolLock s;
         Some (EFI_ACCESS_DENIED, s)
       }
       else Some (Status, s)
     }"

text \<open>A notification that stands at the interface is backed up to the link before it.\<close>

definition CoreRemoveInterfaceFromProtocol :: "EFI_HANDLE \<Rightarrow> EFI_GUID \<Rightarrow> PTR \<Rightarrow> 'w DXE \<Rightarrow> (PTR \<times> 'w DXE) option" where
  "CoreRemoveInterfaceFromProtocol Handle guid Intf s =
     do {
       ASSERT_LOCKED gProtocolDatabaseLock s;
       Prot \<leftarrow> CoreFindProtocolInterface Handle guid Intf s;
       Some (Prot,
         if Prot = 0 then s
         else put_entry (Protocol (interface_at s Prot))
                (\<lambda>e. e\<lparr>Notifies := map (\<lambda>r. if Position r = Some Prot then r\<lparr>Position := link_before Prot (EntryProtocols e)\<rparr> else r) (Notifies e),
                       EntryProtocols := remove1 Prot (EntryProtocols e)\<rparr>) s)
     }"

definition CoreUninstallProtocolInterface ::
  "nat \<Rightarrow> 'w notify \<Rightarrow> 'w connect \<Rightarrow> 'w disconnect \<Rightarrow> EFI_HANDLE \<Rightarrow> EFI_GUID option \<Rightarrow> PTR \<Rightarrow> 'w DXE \<Rightarrow> (EFI_STATUS \<times> 'w DXE) option" where
  "CoreUninstallProtocolInterface n notify Connect Disconnect UserHandle guid Intf s =
     (case guid of
        None \<Rightarrow> Some (EFI_INVALID_PARAMETER, s)
      | Some guid \<Rightarrow> do {
          Status \<leftarrow> CoreValidateHandle UserHandle s;
          if EFI_ERROR Status then Some (Status, s)
          else do {
            s \<leftarrow> CoreAcquireProtocolLock s;
            Prot \<leftarrow> CoreFindProtocolInterface UserHandle guid Intf s;
            (Status, s) \<leftarrow>
              (if Prot = 0 then Some (EFI_NOT_FOUND, s)
               else do {
                 (Status, s) \<leftarrow> CoreDisconnectControllersUsingProtocolInterface n notify Connect Disconnect UserHandle Prot s;
                 if EFI_ERROR Status then Some (Status, s)
                 else do {
                   (Prot, s) \<leftarrow> CoreRemoveInterfaceFromProtocol UserHandle guid Intf s;
                   let (Status, s) =
                     (if Prot \<noteq> 0
                      then let s = put_hand (\<lambda>d. d\<lparr>gHandleDatabaseKey := gHandleDatabaseKey d + 1\<rparr>) s;
                               s = put_handle UserHandle (Key_update (\<lambda>_. gHandleDatabaseKey (hand s))) s;
                               s = put_handle UserHandle (Protocols_update (remove1 Prot)) s
                           in (EFI_SUCCESS, put_interface Prot (InterfaceSignature_update (\<lambda>_. 0)) s)
                      else (EFI_NOT_FOUND, s));
                   Some (Status,
                     if Protocols (handle_at s UserHandle) = []
                     then put_hand (\<lambda>d. d\<lparr>gHandleList := remove1 UserHandle (gHandleList d)\<rparr>)
                            (put_handle UserHandle (HandleSignature_update (\<lambda>_. 0)) s)
                     else s)
                 }
               });
            s \<leftarrow> CoreReleaseProtocolLock n notify s;
            Some (Status, s)
          }
        })"

text \<open>
  The arguments of CoreUninstallMultipleProtocolInterfaces are the list of its protocol and interface pairs. The first loop gives
  the status and the number of calls it made; the pool answers of the calls that install again are \<open>pools\<close>, one record per call.
\<close>

record install_pool =
  PoolOpen :: bool
  PoolEntry :: PTR
  PoolProt :: PTR
  PoolHandle :: PTR

fun UninstallMultiple_loop ::
  "nat \<Rightarrow> 'w notify \<Rightarrow> 'w connect \<Rightarrow> 'w disconnect \<Rightarrow> EFI_HANDLE \<Rightarrow> (EFI_GUID \<times> PTR) list \<Rightarrow> nat \<Rightarrow> 'w DXE
   \<Rightarrow> (EFI_STATUS \<times> nat \<times> 'w DXE) option" where
  "UninstallMultiple_loop n notify Connect Disconnect Handle [] Index s = Some (EFI_SUCCESS, Index, s)"
| "UninstallMultiple_loop n notify Connect Disconnect Handle ((guid, Intf) # Args) Index s =
     do {
       (Status, s) \<leftarrow> CoreUninstallProtocolInterface n notify Connect Disconnect Handle (Some guid) Intf s;
       if EFI_ERROR Status then Some (Status, Index + 1, s)
       else UninstallMultiple_loop n notify Connect Disconnect Handle Args (Index + 1) s
     }"

fun ReinstallMultiple_loop ::
  "nat \<Rightarrow> 'w notify \<Rightarrow> 'w disconnect \<Rightarrow> EFI_HANDLE \<Rightarrow> (EFI_GUID \<times> PTR) list \<Rightarrow> install_pool list \<Rightarrow> 'w DXE \<Rightarrow> 'w DXE option" where
  "ReinstallMultiple_loop n notify Disconnect Handle ((guid, Intf) # Args) (Pool # Pools) s =
     do {
       (_, h, s) \<leftarrow> CoreInstallProtocolInterface n notify Disconnect (PoolOpen Pool) (PoolEntry Pool) (PoolProt Pool) (PoolHandle Pool)
                      (Some Handle) (Some guid) EFI_NATIVE_INTERFACE Intf s;
       h \<leftarrow> h;
       ReinstallMultiple_loop n notify Disconnect h Args Pools s
     }"
| "ReinstallMultiple_loop n notify Disconnect Handle Args Pools s = Some s"

definition CoreUninstallMultipleProtocolInterfaces ::
  "nat \<Rightarrow> 'w notify \<Rightarrow> 'w connect \<Rightarrow> 'w disconnect \<Rightarrow> install_pool list \<Rightarrow> EFI_HANDLE \<Rightarrow> (EFI_GUID \<times> PTR) list \<Rightarrow> 'w DXE
   \<Rightarrow> (EFI_STATUS \<times> 'w DXE) option" where
  "CoreUninstallMultipleProtocolInterfaces n notify Connect Disconnect Pools Handle Args s =
     do {
       (Status, Index, s) \<leftarrow> UninstallMultiple_loop n notify Connect Disconnect Handle Args 0 s;
       if EFI_ERROR Status
       then do {
         ASSERT (Index - 1 \<le> length Pools);
         s \<leftarrow> ReinstallMultiple_loop n notify Disconnect Handle (take (Index - 1) Args) Pools s;
         Some (EFI_INVALID_PARAMETER, s)
       }
       else Some (Status, s)
     }"

section \<open>Protocol notifications and reinstalling\<close>

text \<open>\<open>EntryPool\<close> and \<open>NotifyPool\<close> are the pool answers; the second result is what is stored through the pointer Registration.\<close>

definition CoreRegisterProtocolNotify ::
  "nat \<Rightarrow> 'w notify \<Rightarrow> PTR \<Rightarrow> PTR \<Rightarrow> EFI_GUID option \<Rightarrow> EFI_EVENT \<Rightarrow> bool \<Rightarrow> 'w DXE \<Rightarrow> (EFI_STATUS \<times> PTR option \<times> 'w DXE) option" where
  "CoreRegisterProtocolNotify n notify EntryPool NotifyPool guid ev Registration_given s =
     (case guid of
        None \<Rightarrow> Some (EFI_INVALID_PARAMETER, None, s)
      | Some guid \<Rightarrow>
        if ev = 0 \<or> \<not> Registration_given then Some (EFI_INVALID_PARAMETER, None, s)
        else do {
          s \<leftarrow> CoreAcquireProtocolLock s;
          (ProtEntry, s) \<leftarrow> CoreFindProtocolEntry guid True EntryPool s;
          let (ProtNotify, s) =
            (if ProtEntry \<noteq> 0 \<and> NotifyPool \<noteq> 0
             then let s = put_event ev (ExFlag_update (\<lambda>x. x OR EVT_EXFLAG_EVENT_PROTOCOL_NOTIFICATION)) s
                  in (NotifyPool, put_entry ProtEntry
                        (Notifies_update (\<lambda>l. l @ [\<lparr>Registration = NotifyPool, Event = ev, Position = None\<rparr>])) s)
             else (0, s));
          s \<leftarrow> CoreReleaseProtocolLock n notify s;
          Some (if ProtNotify \<noteq> 0 then (EFI_SUCCESS, Some ProtNotify, s) else (EFI_OUT_OF_RESOURCES, None, s))
        })"

definition CoreReinstallProtocolInterface ::
  "nat \<Rightarrow> 'w notify \<Rightarrow> 'w connect \<Rightarrow> 'w disconnect \<Rightarrow> EFI_HANDLE \<Rightarrow> EFI_GUID option \<Rightarrow> PTR \<Rightarrow> PTR \<Rightarrow> 'w DXE
   \<Rightarrow> (EFI_STATUS \<times> 'w DXE) option" where
  "CoreReinstallProtocolInterface n notify Connect Disconnect UserHandle guid OldInterface NewInterface s =
     do {
       Status \<leftarrow> CoreValidateHandle UserHandle s;
       if EFI_ERROR Status then Some (Status, s)
       else (case guid of
         None \<Rightarrow> Some (EFI_INVALID_PARAMETER, s)
       | Some guid \<Rightarrow> do {
           s \<leftarrow> CoreAcquireProtocolLock s;
           Prot \<leftarrow> CoreFindProtocolInterface UserHandle guid OldInterface s;
           (Status, s) \<leftarrow>
             (if Prot = 0 then Some (EFI_NOT_FOUND, s)
              else do {
                (Status, s) \<leftarrow> CoreDisconnectControllersUsingProtocolInterface n notify Connect Disconnect UserHandle Prot s;
                if EFI_ERROR Status then Some (Status, s)
                else do {
                  (Prot, s) \<leftarrow> CoreRemoveInterfaceFromProtocol UserHandle guid OldInterface s;
                  if Prot = 0 then Some (EFI_NOT_FOUND, s)
                  else do {
                    let ProtEntry = Protocol (interface_at s Prot);
                    let s = put_interface Prot (Interface_update (\<lambda>_. NewInterface)) s;
                    let s = put_entry ProtEntry (EntryProtocols_update (\<lambda>l. l @ [Prot])) s;
                    let s = put_hand (\<lambda>d. d\<lparr>gHandleDatabaseKey := gHandleDatabaseKey d + 1\<rparr>) s;
                    let s = put_handle UserHandle (Key_update (\<lambda>_. gHandleDatabaseKey (hand s))) s;
                    s \<leftarrow> CoreReleaseProtocolLock n notify s;
                    (_, s) \<leftarrow> Connect UserHandle s;
                    s \<leftarrow> CoreAcquireProtocolLock s;
                    s \<leftarrow> CoreNotifyProtocolEntry n notify ProtEntry s;
                    Some (EFI_SUCCESS, s)
                  }
                }
              });
           s \<leftarrow> CoreReleaseProtocolLock n notify s;
           Some (Status, s)
         })
     }"

section \<open>Queries\<close>

text \<open>The results are the status, the GUIDs that the entries of the buffer point to, and the state.\<close>

definition CoreProtocolsPerHandle ::
  "nat \<Rightarrow> 'w notify \<Rightarrow> bool \<Rightarrow> EFI_HANDLE \<Rightarrow> bool \<Rightarrow> bool \<Rightarrow> 'w DXE \<Rightarrow> (EFI_STATUS \<times> EFI_GUID list \<times> 'w DXE) option" where
  "CoreProtocolsPerHandle n notify Pool UserHandle ProtocolBuffer_given ProtocolBufferCount_given s =
     do {
       Status \<leftarrow> CoreValidateHandle UserHandle s;
       if EFI_ERROR Status then Some (Status, [], s)
       else if \<not> ProtocolBuffer_given \<or> \<not> ProtocolBufferCount_given then Some (EFI_INVALID_PARAMETER, [], s)
       else do {
         s \<leftarrow> CoreAcquireProtocolLock s;
         (Status, guids) \<leftarrow>
           (if Protocols (handle_at s UserHandle) = [] then Some (EFI_INVALID_PARAMETER, [])
            else if \<not> Pool then Some (EFI_OUT_OF_RESOURCES, [])
            else do {
              ASSERT (list_all (\<lambda>p. InterfaceSignature (interface_at s p) = PROTOCOL_INTERFACE_SIGNATURE
                                  \<and> entry_at s (Protocol (interface_at s p)) \<noteq> None) (Protocols (handle_at s UserHandle)));
              Some (EFI_SUCCESS, map (\<lambda>p. ProtocolID (the (entry_at s (Protocol (interface_at s p))))) (Protocols (handle_at s UserHandle)))
            });
         s \<leftarrow> CoreReleaseProtocolLock n notify s;
         Some (Status, guids, s)
       }
     }"

definition CoreGetHandleDatabaseKey :: "'w DXE \<Rightarrow> UINT64" where
  "CoreGetHandleDatabaseKey s = gHandleDatabaseKey (hand s)"

fun ConnectHandles_loop :: "'w connect \<Rightarrow> EFI_HANDLE list \<Rightarrow> 'w DXE \<Rightarrow> 'w DXE option" where
  "ConnectHandles_loop Connect [] s = Some s"
| "ConnectHandles_loop Connect (h # hs) s = do { (_, s) \<leftarrow> Connect h s; ConnectHandles_loop Connect hs s }"

definition CoreConnectHandlesByKey :: "nat \<Rightarrow> 'w notify \<Rightarrow> 'w connect \<Rightarrow> bool \<Rightarrow> UINT64 \<Rightarrow> 'w DXE \<Rightarrow> 'w DXE option" where
  "CoreConnectHandlesByKey n notify Connect Pool k s =
     do {
       s \<leftarrow> CoreAcquireProtocolLock s;
       ASSERT (list_all (\<lambda>h. HandleSignature (handle_at s h) = EFI_HANDLE_SIGNATURE) (gHandleList (hand s)));
       let HandleBuffer = filter (\<lambda>h. Key (handle_at s h) > k) (gHandleList (hand s));
       s \<leftarrow> CoreReleaseProtocolLock n notify s;
       if Pool then ConnectHandles_loop Connect HandleBuffer s else Some s
     }"

section \<open>Locating handles and protocols\<close>

abbreviation AllHandles :: UINT32 where "AllHandles \<equiv> 0"
abbreviation ByRegisterNotify :: UINT32 where "ByRegisterNotify \<equiv> 1"
abbreviation ByProtocol :: UINT32 where "ByProtocol \<equiv> 2"

text \<open>
  A position: the search key, the link reached (\<open>None\<close> is the head of the list that is searched) and the protocol
  entry. The functions that advance it return the handle, the interface and the new position.
\<close>

record LOCATE_POSITION =
  SearchKey :: PTR
  Reached :: "PTR option"
  PosEntry :: PTR

type_synonym 'w CORE_GET_NEXT =
  "LOCATE_POSITION \<Rightarrow> 'w DXE \<Rightarrow> (EFI_HANDLE \<times> PTR \<times> LOCATE_POSITION \<times> 'w DXE) option"

definition CoreGetNextLocateAllHandles :: "'w CORE_GET_NEXT" where
  "CoreGetNextLocateAllHandles pos s =
     do {
       l \<leftarrow> links_after (Reached pos) (gHandleList (hand s));
       (case l of
          [] \<Rightarrow> Some (0, 0, pos\<lparr>Reached := None\<rparr>, s)
        | h # _ \<Rightarrow> do {
            ASSERT (HandleSignature (handle_at s h) = EFI_HANDLE_SIGNATURE);
            Some (h, 0, pos\<lparr>Reached := Some h\<rparr>, s)
          })
     }"

text \<open>The notification record a registration key points to, with its protocol entry.\<close>

definition notify_at :: "'w DXE \<Rightarrow> PTR \<Rightarrow> (PROTOCOL_ENTRY \<times> PROTOCOL_NOTIFY) option" where
  "notify_at s k =
     find (\<lambda>(e, r). Registration r = k) (concat (map (\<lambda>e. map (Pair e) (Notifies e)) (mProtocolDatabase s)))"

definition CoreGetNextLocateByRegisterNotify :: "'w CORE_GET_NEXT" where
  "CoreGetNextLocateByRegisterNotify pos s =
     (if SearchKey pos = 0 then Some (0, 0, pos, s)
      else do {
        (e, ProtNotify) \<leftarrow> notify_at s (SearchKey pos);
        let pos = pos\<lparr>SearchKey := 0\<rparr>;
        l \<leftarrow> links_after (Position ProtNotify) (EntryProtocols e);
        (case l of
           [] \<Rightarrow> Some (0, 0, pos, s)
         | Prot # _ \<Rightarrow> do {
             ASSERT (InterfaceSignature (interface_at s Prot) = PROTOCOL_INTERFACE_SIGNATURE);
             Some (OnHandle (interface_at s Prot), Interface (interface_at s Prot), pos, s)
           })
      })"

text \<open>The loop over the links of the protocol entry behind the position; \<open>Intf\<close> is the interface of the last link passed.\<close>

fun GetNextLocateByProtocol_loop :: "PTR \<Rightarrow> PTR list \<Rightarrow> 'w DXE \<Rightarrow> (EFI_HANDLE \<times> PTR \<times> PTR option \<times> 'w DXE) option" where
  "GetNextLocateByProtocol_loop Intf [] s = Some (0, Intf, None, s)"
| "GetNextLocateByProtocol_loop Intf (Prot # l) s =
     do {
       ASSERT (InterfaceSignature (interface_at s Prot) = PROTOCOL_INTERFACE_SIGNATURE);
       let Handle = OnHandle (interface_at s Prot);
       let Intf = Interface (interface_at s Prot);
       if LocateRequest (handle_at s Handle) \<noteq> mEfiLocateHandleRequest (hand s)
       then Some (Handle, Intf, Some Prot, put_handle Handle (LocateRequest_update (\<lambda>_. mEfiLocateHandleRequest (hand s))) s)
       else GetNextLocateByProtocol_loop Intf l s
     }"

definition CoreGetNextLocateByProtocol :: "'w CORE_GET_NEXT" where
  "CoreGetNextLocateByProtocol pos s =
     do {
       e \<leftarrow> entry_at s (PosEntry pos);
       l \<leftarrow> links_after (Reached pos) (EntryProtocols e);
       (Handle, Intf, link, s) \<leftarrow> GetNextLocateByProtocol_loop 0 l s;
       Some (Handle, Intf, pos\<lparr>Reached := link\<rparr>, s)
     }"

text \<open>The link a notification stands at moves on to the next one of its protocol (the head after the last).\<close>

definition advance_notify :: "PTR \<Rightarrow> 'w DXE \<Rightarrow> 'w DXE option" where
  "advance_notify k s =
     do {
       (e, ProtNotify) \<leftarrow> notify_at s k;
       l \<leftarrow> links_after (Position ProtNotify) (EntryProtocols e);
       let next = (case l of [] \<Rightarrow> None | p # _ \<Rightarrow> Some p);
       Some (put_entry (EntryAddress e)
         (Notifies_update (map (\<lambda>r. if Registration r = k then r\<lparr>Position := next\<rparr> else r))) s)
     }"

text \<open>The enumeration of CoreLocateHandle: \<open>ResultSize\<close> and the handles stored so far are the accumulators.\<close>

primrec LocateHandle_loop ::
  "nat \<Rightarrow> 'w CORE_GET_NEXT \<Rightarrow> UINTN \<Rightarrow> LOCATE_POSITION \<Rightarrow> UINTN \<Rightarrow> EFI_HANDLE list \<Rightarrow> 'w DXE \<Rightarrow> (UINTN \<times> EFI_HANDLE list \<times> 'w DXE) option" where
  "LocateHandle_loop 0 GetNext BufferSize pos ResultSize ResultBuffer s = None"
| "LocateHandle_loop (Suc k) GetNext BufferSize pos ResultSize ResultBuffer s =
     do {
       (Handle, _, pos, s) \<leftarrow> GetNext pos s;
       if Handle = 0 then Some (ResultSize, ResultBuffer, s)
       else let ResultSize = ResultSize + 8
            in LocateHandle_loop k GetNext BufferSize pos ResultSize
                 (if ResultSize \<le> BufferSize then ResultBuffer @ [Handle] else ResultBuffer) s
     }"

text \<open>
  The results are the status, the value of BufferSize afterwards, the handles stored in the buffer from its start,
  and the state.
\<close>

definition CoreLocateHandle ::
  "nat \<Rightarrow> 'w notify \<Rightarrow> UINT32 \<Rightarrow> EFI_GUID option \<Rightarrow> PTR \<Rightarrow> UINTN option \<Rightarrow> bool \<Rightarrow> 'w DXE
   \<Rightarrow> (EFI_STATUS \<times> UINTN option \<times> EFI_HANDLE list \<times> 'w DXE) option" where
  "CoreLocateHandle n notify SearchType guid SKey BufferSize Buffer_given s =
     (case BufferSize of
        None \<Rightarrow> Some (EFI_INVALID_PARAMETER, BufferSize, [], s)
      | Some sz \<Rightarrow>
        if sz > 0 \<and> \<not> Buffer_given then Some (EFI_INVALID_PARAMETER, BufferSize, [], s)
        else do {
          s \<leftarrow> CoreAcquireProtocolLock s;
          let pos = \<lparr>SearchKey = SKey, Reached = None, PosEntry = 0\<rparr>;
          (Status, GetNext, pos) \<leftarrow>
            (if SearchType = AllHandles then Some (EFI_SUCCESS, CoreGetNextLocateAllHandles, pos)
             else if SearchType = ByRegisterNotify
             then Some (if SKey = 0 then EFI_INVALID_PARAMETER else EFI_SUCCESS, CoreGetNextLocateByRegisterNotify, pos)
             else if SearchType = ByProtocol
             then (case guid of
                     None \<Rightarrow> Some (EFI_INVALID_PARAMETER, CoreGetNextLocateByProtocol, pos)
                   | Some guid \<Rightarrow> do {
                       (e, _) \<leftarrow> CoreFindProtocolEntry guid False 0 s;
                       Some (if e = 0 then EFI_NOT_FOUND else EFI_SUCCESS, CoreGetNextLocateByProtocol, pos\<lparr>PosEntry := e\<rparr>)
                     })
             else Some (EFI_INVALID_PARAMETER, CoreGetNextLocateAllHandles, pos));
          if EFI_ERROR Status
          then do { s \<leftarrow> CoreReleaseProtocolLock n notify s; Some (Status, BufferSize, [], s) }
          else do {
            let s = put_hand (\<lambda>d. d\<lparr>mEfiLocateHandleRequest := mEfiLocateHandleRequest d + 1\<rparr>) s;
            (ResultSize, ResultBuffer, s) \<leftarrow> LocateHandle_loop n GetNext sz pos 0 [] s;
            (Status, BufferSize, s) \<leftarrow>
              (if ResultSize = 0 then Some (EFI_NOT_FOUND, BufferSize, s)
               else if ResultSize > sz then Some (EFI_BUFFER_TOO_SMALL, Some ResultSize, s)
               else do {
                 s \<leftarrow> (if SearchType = ByRegisterNotify then advance_notify SKey s else Some s);
                 Some (EFI_SUCCESS, Some ResultSize, s)
               });
            s \<leftarrow> CoreReleaseProtocolLock n notify s;
            Some (Status, BufferSize, ResultBuffer, s)
          }
        })"

text \<open>The second result is what is stored through the pointer Interface.\<close>

definition CoreLocateProtocol ::
  "nat \<Rightarrow> 'w notify \<Rightarrow> EFI_GUID option \<Rightarrow> PTR \<Rightarrow> bool \<Rightarrow> 'w DXE \<Rightarrow> (EFI_STATUS \<times> PTR option \<times> 'w DXE) option" where
  "CoreLocateProtocol n notify guid SKey Interface_given s =
     (case guid of
        None \<Rightarrow> Some (EFI_INVALID_PARAMETER, None, s)
      | Some guid \<Rightarrow>
        if \<not> Interface_given then Some (EFI_INVALID_PARAMETER, None, s)
        else do {
          (Status, s) \<leftarrow> CoreAcquireLockOrFail gProtocolDatabaseLock s;
          if EFI_ERROR Status then Some (EFI_NOT_FOUND, Some 0, s)
          else do {
            let s = put_hand (\<lambda>d. d\<lparr>mEfiLocateHandleRequest := mEfiLocateHandleRequest d + 1\<rparr>) s;
            let pos = \<lparr>SearchKey = SKey, Reached = None, PosEntry = 0\<rparr>;
            (Handle, Intf, s) \<leftarrow>
              (if SKey = 0
               then do {
                 (e, _) \<leftarrow> CoreFindProtocolEntry guid False 0 s;
                 if e = 0 then Some (0, 0, s)
                 else do { (Handle, Intf, _, s) \<leftarrow> CoreGetNextLocateByProtocol (pos\<lparr>PosEntry := e\<rparr>) s; Some (Handle, Intf, s) }
               }
               else do { (Handle, Intf, _, s) \<leftarrow> CoreGetNextLocateByRegisterNotify pos s; Some (Handle, Intf, s) });
            s \<leftarrow> (if Handle \<noteq> 0 \<and> SKey \<noteq> 0 then advance_notify SKey s else Some s);
            s \<leftarrow> CoreReleaseProtocolLock n notify s;
            Some (if Handle = 0 then EFI_NOT_FOUND else EFI_SUCCESS, Some Intf, s)
          }
        })"

text \<open>\<open>Pool\<close>: whether the buffer is allocated. The results are the status, the handles of the buffer and the state.\<close>

definition CoreLocateHandleBuffer ::
  "nat \<Rightarrow> 'w notify \<Rightarrow> bool \<Rightarrow> UINT32 \<Rightarrow> EFI_GUID option \<Rightarrow> PTR \<Rightarrow> bool \<Rightarrow> bool \<Rightarrow> 'w DXE
   \<Rightarrow> (EFI_STATUS \<times> EFI_HANDLE list \<times> 'w DXE) option" where
  "CoreLocateHandleBuffer n notify Pool SearchType guid SKey NumberHandles_given Buffer_given s =
     (if \<not> NumberHandles_given \<or> \<not> Buffer_given then Some (EFI_INVALID_PARAMETER, [], s)
      else do {
        (Status, BufferSize, _, s) \<leftarrow> CoreLocateHandle n notify SearchType guid SKey (Some 0) False s;
        if EFI_ERROR Status \<and> Status \<noteq> EFI_BUFFER_TOO_SMALL
        then Some (if Status \<noteq> EFI_INVALID_PARAMETER then EFI_NOT_FOUND else Status, [], s)
        else if \<not> Pool then Some (EFI_OUT_OF_RESOURCES, [], s)
        else do {
          (Status, BufferSize, ResultBuffer, s) \<leftarrow> CoreLocateHandle n notify SearchType guid SKey BufferSize True s;
          sz \<leftarrow> BufferSize;
          Some (Status, if EFI_ERROR Status then [] else take (unat (sz div 8)) ResultBuffer, s)
        }
      })"

end
