(* ===== verification/Dxe_HandleInv.thy ===== *)
theory Dxe_HandleInv
  imports Dxe_Handle
begin

text \<open>
  The invariant of the handle and protocol database, its abstraction to a map from handles and protocols to interfaces, what installing
  and removing do to both, and the results of the searches under the invariant.
\<close>

section \<open>The invariant of the database\<close>

definition protocol_of :: "PROTOCOL_ENTRY list \<Rightarrow> PTR \<Rightarrow> EFI_GUID option" where
  "protocol_of D a = map_option ProtocolID (find (\<lambda>e. EntryAddress e = a) D)"

definition installed_in :: "PROTOCOL_ENTRY list \<Rightarrow> PTR \<Rightarrow> bool" where
  "installed_in D p \<longleftrightarrow> (\<exists>e\<in>set D. p \<in> set (EntryProtocols e))"

definition handles_inv :: "HAND \<Rightarrow> bool" where
  "handles_inv H \<longleftrightarrow> distinct (gHandleList H) \<and> 0 \<notin> set (gHandleList H) \<and>
     (\<forall>h\<in>set (gHandleList H). HandleSignature (ihandle H h) = EFI_HANDLE_SIGNATURE \<and> distinct (Protocols (ihandle H h))
        \<and> inj_on (\<lambda>p. Protocol (interface H p)) (set (Protocols (ihandle H h)))
        \<and> LocateRequest (ihandle H h) \<le> mEfiLocateHandleRequest H)"

definition entries_inv :: "PROTOCOL_ENTRY list \<Rightarrow> bool" where
  "entries_inv D \<longleftrightarrow> distinct (map EntryAddress D) \<and> 0 \<notin> EntryAddress ` set D \<and> distinct (map ProtocolID D) \<and>
     (\<forall>e\<in>set D. distinct (EntryProtocols e)
        \<and> (\<forall>r\<in>set (Notifies e). Registration r \<noteq> 0 \<and> (\<forall>p. Position r = Some p \<longrightarrow> p \<in> set (EntryProtocols e)))) \<and>
     distinct (map Registration (concat (map Notifies D)))"

definition links_inv :: "HAND \<Rightarrow> PROTOCOL_ENTRY list \<Rightarrow> bool" where
  "links_inv H D \<longleftrightarrow>
     (\<forall>h\<in>set (gHandleList H). \<forall>p. p \<in> set (Protocols (ihandle H h)) \<longleftrightarrow> installed_in D p \<and> OnHandle (interface H p) = h) \<and>
     (\<forall>e\<in>set D. \<forall>p\<in>set (EntryProtocols e). p \<noteq> 0 \<and> InterfaceSignature (interface H p) = PROTOCOL_INTERFACE_SIGNATURE
        \<and> Protocol (interface H p) = EntryAddress e \<and> OnHandle (interface H p) \<in> set (gHandleList H)
        \<and> OpenListCount (interface H p) = of_nat (length (OpenList (interface H p))))"

definition hand_inv0 :: "HAND \<Rightarrow> PROTOCOL_ENTRY list \<Rightarrow> bool" where
  "hand_inv0 H D \<longleftrightarrow> handles_inv H \<and> entries_inv D \<and> links_inv H D"

definition hand_inv :: "HAND \<Rightarrow> PROTOCOL_ENTRY list \<Rightarrow> bool" where
  "hand_inv H D \<longleftrightarrow> hand_inv0 H D \<and> (\<forall>h\<in>set (gHandleList H). Protocols (ihandle H h) \<noteq> [])"

text \<open>The interface of a protocol on a handle.\<close>

definition protocol_on :: "HAND \<Rightarrow> PROTOCOL_ENTRY list \<Rightarrow> EFI_HANDLE \<Rightarrow> EFI_GUID \<Rightarrow> PTR option" where
  "protocol_on H D h g =
     (if h \<in> set (gHandleList H)
      then find (\<lambda>p. protocol_of D (Protocol (interface H p)) = Some g) (Protocols (ihandle H h)) else None)"

text \<open>The abstract database: the interface that each handle has for each protocol.\<close>

definition database :: "HAND \<Rightarrow> PROTOCOL_ENTRY list \<Rightarrow> EFI_HANDLE \<Rightarrow> EFI_GUID \<Rightarrow> PTR option" where
  "database H D h g = map_option (\<lambda>p. Interface (interface H p)) (protocol_on H D h g)"

lemma handles_invD:
  assumes "handles_inv H" "h \<in> set (gHandleList H)"
  shows "h \<noteq> 0" "HandleSignature (ihandle H h) = EFI_HANDLE_SIGNATURE" "distinct (Protocols (ihandle H h))"
    "inj_on (\<lambda>p. Protocol (interface H p)) (set (Protocols (ihandle H h)))" "LocateRequest (ihandle H h) \<le> mEfiLocateHandleRequest H"
  using assms by (auto simp: handles_inv_def)

lemma links_invD:
  assumes "links_inv H D" "installed_in D p"
  shows "p \<noteq> 0" "InterfaceSignature (interface H p) = PROTOCOL_INTERFACE_SIGNATURE" "OnHandle (interface H p) \<in> set (gHandleList H)"
    "OpenListCount (interface H p) = of_nat (length (OpenList (interface H p)))" "Protocol (interface H p) \<in> EntryAddress ` set D"
  using assms by (auto simp: links_inv_def installed_in_def)

lemma links_inv_entry:
  "links_inv H D \<Longrightarrow> e \<in> set D \<Longrightarrow> p \<in> set (EntryProtocols e) \<Longrightarrow> Protocol (interface H p) = EntryAddress e"
  by (auto simp: links_inv_def)

lemma links_inv_handle:
  "links_inv H D \<Longrightarrow> h \<in> set (gHandleList H) \<Longrightarrow> p \<in> set (Protocols (ihandle H h)) \<longleftrightarrow> installed_in D p \<and> OnHandle (interface H p) = h"
  by (auto simp: links_inv_def)

lemma find_key:
  "distinct (map f D) \<Longrightarrow> e \<in> set D \<Longrightarrow> find (\<lambda>x. f x = f e) D = Some e"
  by (induction D) auto

lemma protocol_of_entry: "entries_inv D \<Longrightarrow> e \<in> set D \<Longrightarrow> protocol_of D (EntryAddress e) = Some (ProtocolID e)"
  using find_key[of EntryAddress D e] by (simp add: protocol_of_def entries_inv_def)

text \<open>The three ways in which installing extends the database.\<close>

lemma installed_in_append: "installed_in (D @ [\<lparr>EntryAddress = a, ProtocolID = g, EntryProtocols = [], Notifies = ns\<rparr>]) p = installed_in D p"
  by (auto simp: installed_in_def)

lemma inv0_new_entry:
  assumes "hand_inv0 H D" "a \<noteq> 0" "a \<notin> EntryAddress ` set D" "g \<notin> ProtocolID ` set D"
  shows "hand_inv0 H (D @ [\<lparr>EntryAddress = a, ProtocolID = g, EntryProtocols = [], Notifies = []\<rparr>])" (is "hand_inv0 H ?D")
proof -
  have "entries_inv ?D" using assms by (auto simp: hand_inv0_def entries_inv_def)
  moreover have "links_inv H ?D" using assms(1) unfolding hand_inv0_def links_inv_def installed_in_append by auto
  ultimately show ?thesis using assms(1) by (simp add: hand_inv0_def)
qed

definition with_handle :: "EFI_HANDLE \<Rightarrow> HAND \<Rightarrow> HAND" where
  "with_handle h H = H\<lparr>gHandleDatabaseKey := gHandleDatabaseKey H + 1,
     ihandle := (ihandle H)(h := \<lparr>HandleSignature = EFI_HANDLE_SIGNATURE, Protocols = [], LocateRequest = 0, Key = gHandleDatabaseKey H + 1\<rparr>),
     gHandleList := gHandleList H @ [h]\<rparr>"

lemma inv0_new_handle:
  assumes inv: "hand_inv0 H D" and h: "h \<noteq> 0" "h \<notin> set (gHandleList H)"
  shows "hand_inv0 (with_handle h H) D"
proof -
  have "handles_inv (with_handle h H)" using inv h by (auto simp: hand_inv0_def handles_inv_def with_handle_def)
  moreover have "links_inv (with_handle h H) D"
    using inv h unfolding hand_inv0_def links_inv_def by (auto simp: with_handle_def installed_in_def)
  ultimately show ?thesis using inv by (simp add: hand_inv0_def)
qed

definition with_interface :: "EFI_HANDLE \<Rightarrow> PTR \<Rightarrow> PTR \<Rightarrow> PTR \<Rightarrow> HAND \<Rightarrow> HAND" where
  "with_interface h p a Intf H = H\<lparr>
     interface := (interface H)(p := \<lparr>InterfaceSignature = PROTOCOL_INTERFACE_SIGNATURE, OnHandle = h, Protocol = a, Interface = Intf,
                                      OpenList = [], OpenListCount = 0\<rparr>),
     ihandle := (ihandle H)(h := (ihandle H h)\<lparr>Protocols := p # Protocols (ihandle H h)\<rparr>)\<rparr>"

lemma with_interface_fields [simp]:
  "Protocol (interface (with_interface h p a Intf H) q) = (if q = p then a else Protocol (interface H q))"
  "OnHandle (interface (with_interface h p a Intf H) q) = (if q = p then h else OnHandle (interface H q))"
  "Interface (interface (with_interface h p a Intf H) q) = (if q = p then Intf else Interface (interface H q))"
  "InterfaceSignature (interface (with_interface h p a Intf H) q) =
     (if q = p then PROTOCOL_INTERFACE_SIGNATURE else InterfaceSignature (interface H q))"
  "OpenList (interface (with_interface h p a Intf H) q) = (if q = p then [] else OpenList (interface H q))"
  "OpenListCount (interface (with_interface h p a Intf H) q) = (if q = p then 0 else OpenListCount (interface H q))"
  "Protocols (ihandle (with_interface h p a Intf H) k) = (if k = h then p # Protocols (ihandle H h) else Protocols (ihandle H k))"
  "HandleSignature (ihandle (with_interface h p a Intf H) k) = HandleSignature (ihandle H k)"
  "LocateRequest (ihandle (with_interface h p a Intf H) k) = LocateRequest (ihandle H k)"
  "gHandleList (with_interface h p a Intf H) = gHandleList H"
  "mEfiLocateHandleRequest (with_interface h p a Intf H) = mEfiLocateHandleRequest H"
  "gHandleDatabaseKey (with_interface h p a Intf H) = gHandleDatabaseKey H"
  "gDxeCoreImageHandle (with_interface h p a Intf H) = gDxeCoreImageHandle H"
  by (simp_all add: with_interface_def)

definition linked :: "PTR \<Rightarrow> PTR \<Rightarrow> PROTOCOL_ENTRY \<Rightarrow> PROTOCOL_ENTRY" where
  "linked a p e = (if EntryAddress e = a then e\<lparr>EntryProtocols := EntryProtocols e @ [p]\<rparr> else e)"

lemma linked_fields [simp]:
  "EntryAddress (linked a p e) = EntryAddress e" "ProtocolID (linked a p e) = ProtocolID e" "Notifies (linked a p e) = Notifies e"
  "EntryProtocols (linked a p e) = (if EntryAddress e = a then EntryProtocols e @ [p] else EntryProtocols e)"
  by (simp_all add: linked_def)

lemma protocol_of_map:
  assumes "\<And>e. EntryAddress (f e) = EntryAddress e" "\<And>e. ProtocolID (f e) = ProtocolID e"
  shows "protocol_of (map f D) a = protocol_of D a"
  using assms by (induction D) (auto simp: protocol_of_def)

lemma installed_with_link:
  "a \<in> EntryAddress ` set D \<Longrightarrow> installed_in (map (linked a p) D) q \<longleftrightarrow> installed_in D q \<or> q = p"
  by (auto simp: installed_in_def split: if_splits)

lemma map_linked [simp]:
  "map EntryAddress (map (linked a p) D) = map EntryAddress D" "map ProtocolID (map (linked a p) D) = map ProtocolID D"
  "map Notifies (map (linked a p) D) = map Notifies D" "EntryAddress ` linked a p ` set D = EntryAddress ` set D"
  by (simp_all add: image_image)

lemma entries_inv_with_link:
  assumes "entries_inv D" "\<not> installed_in D p"
  shows "entries_inv (map (linked a p) D)"
  using assms unfolding entries_inv_def map_linked list.set_map
  by (simp add: installed_in_def)

lemma inv0_link:
  assumes inv: "hand_inv0 H D" and h: "h \<in> set (gHandleList H)" and a: "a \<in> EntryAddress ` set D"
    and p: "p \<noteq> 0" "\<not> installed_in D p" and new: "\<forall>q\<in>set (Protocols (ihandle H h)). Protocol (interface H q) \<noteq> a"
  shows "hand_inv0 (with_interface h p a Intf H) (map (linked a p) D)" (is "hand_inv0 ?H ?D")
proof -
  have hi: "handles_inv H" and ei: "entries_inv D" and li: "links_inv H D" using inv by (simp_all add: hand_inv0_def)
  have notp: "p \<notin> set (Protocols (ihandle H k))" if "k \<in> set (gHandleList H)" for k
    using links_inv_handle[OF li that] p(2) by blast
  have "inj_on (\<lambda>q. Protocol (interface ?H q)) (set (Protocols (ihandle ?H k)))" if k: "k \<in> set (gHandleList H)" for k
  proof -
    have "inj_on (\<lambda>q. Protocol (interface ?H q)) (set (Protocols (ihandle H k)))"
      using handles_invD(4)[OF hi k] notp[OF k] by (auto simp: inj_on_def)
    then show ?thesis using new notp[OF h] by (auto split: if_splits)
  qed
  then have "handles_inv ?H" using hi notp[OF h] by (auto simp: handles_inv_def)
  moreover have "links_inv ?H ?D"
    using li p h notp unfolding links_inv_def installed_with_link[OF a]
    by (auto simp: installed_in_def)
  ultimately show ?thesis using entries_inv_with_link[OF ei p(2)] by (simp add: hand_inv0_def)
qed

text \<open>What they do to the abstract database.\<close>

lemma protocol_of_linked [simp]: "protocol_of (map (linked a p) D) b = protocol_of D b"
  by (rule protocol_of_map) simp_all

lemma protocols_installed:
  assumes "hand_inv0 H D" "h \<in> set (gHandleList H)" "q \<in> set (Protocols (ihandle H h))"
  shows "installed_in D q" "OnHandle (interface H q) = h" "Protocol (interface H q) \<in> EntryAddress ` set D" "q \<noteq> 0"
    "InterfaceSignature (interface H q) = PROTOCOL_INTERFACE_SIGNATURE"
proof -
  have li: "links_inv H D" using assms(1) by (simp add: hand_inv0_def)
  show q: "installed_in D q" and "OnHandle (interface H q) = h" using links_inv_handle[OF li assms(2)] assms(3) by simp_all
  show "Protocol (interface H q) \<in> EntryAddress ` set D" "q \<noteq> 0" "InterfaceSignature (interface H q) = PROTOCOL_INTERFACE_SIGNATURE"
    using links_invD[OF li q] by simp_all
qed

lemma protocol_on_new_entry:
  assumes "hand_inv0 H D" "a \<notin> EntryAddress ` set D"
  shows "protocol_on H (D @ [\<lparr>EntryAddress = a, ProtocolID = g, EntryProtocols = [], Notifies = ns\<rparr>]) = protocol_on H D"
    (is "protocol_on H ?D = _")
proof -
  have same: "protocol_of ?D b = protocol_of D b" if "b \<in> EntryAddress ` set D" for b
    using that assms(2) by (induction D) (auto simp: protocol_of_def)
  have "protocol_on H ?D h g' = protocol_on H D h g'" for h g'
    using protocols_installed(3)[OF assms(1), of h] same by (auto simp: protocol_on_def intro!: find_cong)
  then show ?thesis by (simp add: fun_eq_iff)
qed

lemma database_new_entry:
  assumes "hand_inv0 H D" "a \<notin> EntryAddress ` set D"
  shows "database H (D @ [\<lparr>EntryAddress = a, ProtocolID = g, EntryProtocols = [], Notifies = ns\<rparr>]) = database H D"
  by (simp add: database_def protocol_on_new_entry[OF assms] fun_eq_iff)

lemma database_new_handle:
  assumes "hand_inv0 H D" "h \<notin> set (gHandleList H)"
  shows "database (with_handle h H) D = database H D"
  using assms(2) by (auto simp: database_def protocol_on_def with_handle_def fun_eq_iff)

lemma database_link:
  assumes inv: "hand_inv0 H D" and h: "h \<in> set (gHandleList H)" and a: "protocol_of D a = Some g" and p: "\<not> installed_in D p"
  shows "database (with_interface h p a Intf H) (map (linked a p) D) = (database H D)(h := (database H D h)(g \<mapsto> Intf))"
    (is "database ?H ?D = _")
proof -
  have q: "q \<noteq> p" if "k \<in> set (gHandleList H)" "q \<in> set (Protocols (ihandle H k))" for k q
    using protocols_installed(1)[OF inv that] p by blast
  have same: "find (\<lambda>q. protocol_of D (Protocol (interface ?H q)) = Some g') (Protocols (ihandle H k)) =
      find (\<lambda>q. protocol_of D (Protocol (interface H q)) = Some g') (Protocols (ihandle H k))" if "k \<in> set (gHandleList H)" for k g'
    using q[OF that] by (intro find_cong) auto
  have "protocol_on ?H ?D k g' = (if k = h \<and> g' = g then Some p else protocol_on H D k g')" for k g'
    using h a same by (auto simp: protocol_on_def)
  moreover have "r \<noteq> p" if "protocol_on H D k g' = Some r" for k g' r
    using q that by (auto simp: protocol_on_def dest!: find_SomeD split: if_splits)
  ultimately have "database ?H ?D k g' = (if k = h \<and> g' = g then Some Intf else database H D k g')" for k g'
    by (cases "protocol_on H D k g'") (simp_all add: database_def)
  then show ?thesis by (simp add: fun_eq_iff)
qed

section \<open>Taking an interface out of the database\<close>

definition delinked :: "PTR \<Rightarrow> PTR \<Rightarrow> PROTOCOL_ENTRY \<Rightarrow> PROTOCOL_ENTRY" where
  "delinked a p e =
     (if EntryAddress e = a
      then e\<lparr>Notifies := map (\<lambda>r. if Position r = Some p then r\<lparr>Position := link_before p (EntryProtocols e)\<rparr> else r) (Notifies e),
             EntryProtocols := remove1 p (EntryProtocols e)\<rparr>
      else e)"

lemma delinked_fields [simp]:
  "EntryAddress (delinked a p e) = EntryAddress e" "ProtocolID (delinked a p e) = ProtocolID e"
  "map Registration (Notifies (delinked a p e)) = map Registration (Notifies e)"
  "EntryProtocols (delinked a p e) = (if EntryAddress e = a then remove1 p (EntryProtocols e) else EntryProtocols e)"
  by (simp_all add: delinked_def)

lemma protocol_of_delinked [simp]: "protocol_of (map (delinked a p) D) b = protocol_of D b"
  by (rule protocol_of_map) simp_all

lemma link_before_in: "link_before p xs = Some q \<Longrightarrow> q \<in> set xs \<and> q \<noteq> p"
proof -
  assume "link_before p xs = Some q"
  then have "q \<in> set (takeWhile (\<lambda>x. x \<noteq> p) xs)" by (auto simp: link_before_def split: list.splits if_splits)
  then show ?thesis by (auto dest: set_takeWhileD)
qed

lemma installed_delinked:
  assumes "hand_inv0 H D" "Protocol (interface H p) = a"
  shows "installed_in (map (delinked a p) D) q \<longleftrightarrow> installed_in D q \<and> q \<noteq> p"
proof -
  have d: "distinct (EntryProtocols e)" if "e \<in> set D" for e using assms(1) that by (simp add: hand_inv0_def entries_inv_def)
  have at: "EntryAddress e = a" if "e \<in> set D" "p \<in> set (EntryProtocols e)" for e
    using links_inv_entry[OF _ that] assms by (simp add: hand_inv0_def)
  have in1: "q \<in> set (EntryProtocols (delinked a p e)) \<longleftrightarrow> q \<in> set (EntryProtocols e) \<and> q \<noteq> p" if "e \<in> set D" for e
    using d[OF that] at[OF that] by auto
  show ?thesis unfolding installed_in_def list.set_map using in1 by auto
qed

lemma map_delinked [simp]:
  "map EntryAddress (map (delinked a p) D) = map EntryAddress D" "map ProtocolID (map (delinked a p) D) = map ProtocolID D"
  "EntryAddress ` delinked a p ` set D = EntryAddress ` set D"
  "map Registration (concat (map Notifies (map (delinked a p) D))) = map Registration (concat (map Notifies D))"
  by (simp_all add: image_image map_concat o_def)

lemma entries_inv_delinked:
  assumes "entries_inv D"
  shows "entries_inv (map (delinked a p) D)"
proof -
  have "distinct (EntryProtocols (delinked a p e)) \<and> (\<forall>r\<in>set (Notifies (delinked a p e)).
      Registration r \<noteq> 0 \<and> (\<forall>q. Position r = Some q \<longrightarrow> q \<in> set (EntryProtocols (delinked a p e))))" if "e \<in> set D" for e
  proof -
    have e: "distinct (EntryProtocols e)" "\<forall>r\<in>set (Notifies e). Registration r \<noteq> 0 \<and> (\<forall>q. Position r = Some q \<longrightarrow> q \<in> set (EntryProtocols e))"
      using assms that by (simp_all add: entries_inv_def)
    then show ?thesis by (auto simp: delinked_def dest!: link_before_in)
  qed
  then show ?thesis using assms unfolding entries_inv_def map_delinked list.set_map by simp
qed

definition without_interface :: "EFI_HANDLE \<Rightarrow> PTR \<Rightarrow> HAND \<Rightarrow> HAND" where
  "without_interface h p H = H\<lparr>gHandleDatabaseKey := gHandleDatabaseKey H + 1,
     ihandle := (ihandle H)(h := (ihandle H h)\<lparr>Key := gHandleDatabaseKey H + 1, Protocols := remove1 p (Protocols (ihandle H h))\<rparr>),
     interface := (interface H)(p := (interface H p)\<lparr>InterfaceSignature := 0\<rparr>)\<rparr>"

definition without_handle :: "EFI_HANDLE \<Rightarrow> HAND \<Rightarrow> HAND" where
  "without_handle h H = H\<lparr>ihandle := (ihandle H)(h := (ihandle H h)\<lparr>HandleSignature := 0\<rparr>),
     gHandleList := remove1 h (gHandleList H)\<rparr>"

lemma without_interface_fields [simp]:
  "Protocol (interface (without_interface h p H) q) = Protocol (interface H q)"
  "OnHandle (interface (without_interface h p H) q) = OnHandle (interface H q)"
  "Interface (interface (without_interface h p H) q) = Interface (interface H q)"
  "InterfaceSignature (interface (without_interface h p H) q) = (if q = p then 0 else InterfaceSignature (interface H q))"
  "OpenList (interface (without_interface h p H) q) = OpenList (interface H q)"
  "OpenListCount (interface (without_interface h p H) q) = OpenListCount (interface H q)"
  "Protocols (ihandle (without_interface h p H) k) = (if k = h then remove1 p (Protocols (ihandle H h)) else Protocols (ihandle H k))"
  "HandleSignature (ihandle (without_interface h p H) k) = HandleSignature (ihandle H k)"
  "LocateRequest (ihandle (without_interface h p H) k) = LocateRequest (ihandle H k)"
  "gHandleList (without_interface h p H) = gHandleList H"
  "mEfiLocateHandleRequest (without_interface h p H) = mEfiLocateHandleRequest H"
  by (simp_all add: without_interface_def)

lemma inv0_delink:
  assumes inv: "hand_inv0 H D" and h: "h \<in> set (gHandleList H)" and p: "p \<in> set (Protocols (ihandle H h))" "Protocol (interface H p) = a"
  shows "hand_inv0 (without_interface h p H) (map (delinked a p) D)" (is "hand_inv0 ?H ?D")
proof -
  have hi: "handles_inv H" and ei: "entries_inv D" and li: "links_inv H D" using inv by (simp_all add: hand_inv0_def)
  note inst = installed_delinked[OF inv p(2)]
  have sub: "set (Protocols (ihandle ?H k)) \<subseteq> set (Protocols (ihandle H k))" for k by (auto dest: set_remove1_subset[THEN subsetD])
  have "handles_inv ?H"
    using hi sub unfolding handles_inv_def by (auto intro: inj_on_subset simp: distinct_remove1)
  moreover have "links_inv ?H ?D"
    unfolding links_inv_def inst
  proof (intro conjI ballI allI)
    fix k q assume k: "k \<in> set (gHandleList ?H)"
    show "q \<in> set (Protocols (ihandle ?H k)) \<longleftrightarrow> (installed_in D q \<and> q \<noteq> p) \<and> OnHandle (interface ?H q) = k"
      using links_inv_handle[OF li, of k q] links_inv_handle[OF li h, of p] handles_invD(3)[OF hi h] k p(1) by auto
  next
    fix e q assume e: "e \<in> set ?D" and q: "q \<in> set (EntryProtocols e)"
    then have "installed_in ?D q" unfolding installed_in_def by blast
    then have iq: "installed_in D q" "q \<noteq> p" using inst by simp_all
    note f = links_invD[OF li iq(1)]
    show "q \<noteq> 0" "InterfaceSignature (interface ?H q) = PROTOCOL_INTERFACE_SIGNATURE" "OnHandle (interface ?H q) \<in> set (gHandleList ?H)"
      "OpenListCount (interface ?H q) = of_nat (length (OpenList (interface ?H q)))" using f iq(2) by simp_all
    obtain d where d: "d \<in> set D" "e = delinked a p d" using e by auto
    then have "q \<in> set (EntryProtocols d)" using q by (auto split: if_splits dest: set_remove1_subset[THEN subsetD])
    then show "Protocol (interface ?H q) = EntryAddress e" using links_inv_entry[OF li d(1)] d(2) by simp
  qed
  ultimately show ?thesis using entries_inv_delinked[OF ei] by (simp add: hand_inv0_def)
qed

lemma inv0_without_handle:
  assumes inv: "hand_inv0 H D" and h: "Protocols (ihandle H h) = []" "h \<in> set (gHandleList H)"
  shows "hand_inv0 (without_handle h H) D"
proof -
  have d: "distinct (gHandleList H)" using inv by (simp add: hand_inv0_def handles_inv_def)
  have "OnHandle (interface H p) \<noteq> h" if "installed_in D p" for p
    using inv h that links_inv_handle[of H D h p] by (auto simp: hand_inv0_def)
  then have "links_inv (without_handle h H) D"
    using inv d unfolding hand_inv0_def links_inv_def by (auto simp: without_handle_def installed_in_def)
  moreover have "handles_inv (without_handle h H)" using inv d by (auto simp: hand_inv0_def handles_inv_def without_handle_def)
  ultimately show ?thesis using inv by (simp add: hand_inv0_def)
qed

lemma find_remove1: "find P xs \<noteq> Some p \<Longrightarrow> find P (remove1 p xs) = find P xs"
  by (induction xs) (auto split: if_splits)

lemma find_same: "find (\<lambda>k. k = h) xs = (if h \<in> set xs then Some h else None)"
  by (induction xs) auto

lemma database_delink:
  assumes inv: "hand_inv0 H D" and h: "h \<in> set (gHandleList H)" and p: "p \<in> set (Protocols (ihandle H h))"
    and a: "Protocol (interface H p) = a" "protocol_of D a = Some g"
  shows "database (without_interface h p H) (map (delinked a p) D) = (database H D)(h := (database H D h)(g := None))"
    (is "database ?H ?D = _")
proof -
  let ?P = "\<lambda>g' q. protocol_of D (Protocol (interface H q)) = Some g'"
  let ?l = "Protocols (ihandle H h)"
  have hi: "handles_inv H" and ei: "entries_inv D" using inv by (simp_all add: hand_inv0_def)
  have inj: "inj_on (\<lambda>q. Protocol (interface H q)) (set ?l)" and d: "distinct ?l" using handles_invD[OF hi h] by simp_all
  have g_inj: "b = c" if "protocol_of D b = Some x" "protocol_of D c = Some x" for b c x
    using ei that by (auto simp: protocol_of_def entries_inv_def distinct_map dest!: find_SomeD dest: inj_onD)
  have one: "q = p" if "q \<in> set ?l" "?P g q" for q
    using inj_onD[OF inj _ that(1) p] g_inj[OF that(2), of a] a by simp
  have "find (?P g') (remove1 p ?l) = (if g' = g then None else find (?P g') ?l)" for g'
  proof (cases "g' = g")
    case True
    then show ?thesis using one d by (auto simp: find_None_iff')
  next
    case False
    then have "find (?P g') ?l \<noteq> Some p" using a by (auto dest!: find_SomeD)
    then show ?thesis using False find_remove1[of "?P g'" ?l p] by simp
  qed
  then have "protocol_on ?H ?D k g' = (if k = h \<and> g' = g then None else protocol_on H D k g')" for k g'
    using h by (auto simp: protocol_on_def)
  then show ?thesis by (auto simp: database_def fun_eq_iff)
qed

lemma database_without_handle:
  assumes "hand_inv0 H D" "Protocols (ihandle H h) = []" "h \<in> set (gHandleList H)"
  shows "database (without_handle h H) D = database H D"
proof -
  have d: "distinct (gHandleList H)" using assms(1) by (simp add: hand_inv0_def handles_inv_def)
  show ?thesis using assms(2) d by (auto simp: database_def protocol_on_def without_handle_def fun_eq_iff)
qed

section \<open>The searches\<close>

abbreviation PL :: lock_name where "PL \<equiv> gProtocolDatabaseLock"

abbreviation db_inv0 :: "'w DXE \<Rightarrow> bool" where "db_inv0 s \<equiv> hand_inv0 (hand s) (mProtocolDatabase s)"

lemma validate_handle:
  assumes "db_inv0 s"
  shows "CoreValidateHandle h s = Some (if h \<in> set (gHandleList (hand s)) then EFI_SUCCESS else EFI_INVALID_PARAMETER)"
proof -
  have hi: "handles_inv (hand s)" using assms by (simp add: hand_inv0_def)
  have "walk (\<lambda>h. HandleSignature (handle_at s h) = EFI_HANDLE_SIGNATURE) (\<lambda>k. k = h) (rev (gHandleList (hand s))) =
      Some (find (\<lambda>k. k = h) (rev (gHandleList (hand s))))"
    using handles_invD(2)[OF hi] by (intro walk_find) simp
  then show ?thesis using handles_invD(1)[OF hi] by (auto simp: CoreValidateHandle_def find_same)
qed

lemma entry_at_guid: "map_option ProtocolID (entry_at s a) = protocol_of (mProtocolDatabase s) a"
  by (simp add: entry_at_def protocol_of_def)

lemma get_interface:
  assumes "db_inv0 s"
  shows "CoreGetProtocolInterface h g s =
    Some (case protocol_on (hand s) (mProtocolDatabase s) h g of Some p \<Rightarrow> p | None \<Rightarrow> 0)"
proof (cases "h \<in> set (gHandleList (hand s))")
  case True
  note q = protocols_installed[OF assms True]
  have e: "\<exists>e. entry_at s (Protocol (interface_at s p)) = Some e" if "p \<in> set (Protocols (handle_at s h))" for p
    using q(3)[OF that] by (fastforce simp: entry_at_def find_None_iff' simp flip: not_None_eq)
  have same: "CompareGuid (ProtocolID (the (entry_at s (Protocol (interface_at s p))))) g \<longleftrightarrow>
      protocol_of (mProtocolDatabase s) (Protocol (interface_at s p)) = Some g" if "p \<in> set (Protocols (handle_at s h))" for p
    using e[OF that] by (auto simp: entry_at_guid[symmetric] CompareGuid_def prod_eq_iff)
  have "walk (\<lambda>p. InterfaceSignature (interface_at s p) = PROTOCOL_INTERFACE_SIGNATURE \<and> entry_at s (Protocol (interface_at s p)) \<noteq> None)
      (\<lambda>p. CompareGuid (ProtocolID (the (entry_at s (Protocol (interface_at s p))))) g) (Protocols (handle_at s h)) =
      Some (find (\<lambda>p. CompareGuid (ProtocolID (the (entry_at s (Protocol (interface_at s p))))) g) (Protocols (handle_at s h)))"
    using q(5) e by (intro walk_find) auto
  also have "find (\<lambda>p. CompareGuid (ProtocolID (the (entry_at s (Protocol (interface_at s p))))) g) (Protocols (handle_at s h)) =
      protocol_on (hand s) (mProtocolDatabase s) h g"
    using True same by (auto simp: protocol_on_def intro!: find_cong)
  finally show ?thesis using True validate_handle[OF assms, of h] by (simp add: CoreGetProtocolInterface_def)
next
  case False
  then show ?thesis using validate_handle[OF assms, of h] by (simp add: CoreGetProtocolInterface_def protocol_on_def)
qed

definition entry_of :: "PROTOCOL_ENTRY list \<Rightarrow> EFI_GUID \<Rightarrow> PTR" where
  "entry_of D g = (case find (\<lambda>e. ProtocolID e = g) D of Some e \<Rightarrow> EntryAddress e | None \<Rightarrow> 0)"

lemma CompareGuid_eq: "CompareGuid x y \<longleftrightarrow> x = y"
  by (simp add: CompareGuid_def prod_eq_iff)

lemma find_entry:
  assumes "Lock (locks s PL) = EfiLockAcquired"
  shows "CoreFindProtocolEntry g Create Pool s =
    Some (case find (\<lambda>e. ProtocolID e = g) (mProtocolDatabase s) of
        Some e \<Rightarrow> (EntryAddress e, s)
      | None \<Rightarrow> if Create \<and> Pool \<noteq> 0
          then (Pool, s\<lparr>mProtocolDatabase := mProtocolDatabase s @ [\<lparr>EntryAddress = Pool, ProtocolID = g, EntryProtocols = [], Notifies = []\<rparr>]\<rparr>)
          else (0, s))"
  using assms by (simp add: CoreFindProtocolEntry_def ASSERT_LOCKED_def CompareGuid_eq)

lemma protocol_of_iff:
  assumes "entries_inv D"
  shows "protocol_of D a = Some g \<longleftrightarrow> a \<noteq> 0 \<and> entry_of D g = a"
proof -
  have d: "distinct (map EntryAddress D)" "distinct (map ProtocolID D)" "0 \<notin> EntryAddress ` set D" using assms by (simp_all add: entries_inv_def)
  show ?thesis
  proof
    assume "protocol_of D a = Some g"
    then obtain e where e: "e \<in> set D" "EntryAddress e = a" "ProtocolID e = g" by (auto simp: protocol_of_def dest!: find_SomeD)
    then have "find (\<lambda>x. ProtocolID x = g) D = Some e" using find_key[OF d(2) e(1)] by simp
    then show "a \<noteq> 0 \<and> entry_of D g = a" using e d(3) by (auto simp: entry_of_def)
  next
    assume a: "a \<noteq> 0 \<and> entry_of D g = a"
    then obtain e where e: "e \<in> set D" "ProtocolID e = g" "EntryAddress e = a"
      by (auto simp: entry_of_def split: option.splits dest!: find_SomeD)
    then show "protocol_of D a = Some g" using protocol_of_entry[OF assms e(1)] by simp
  qed
qed

lemma find_conj_inj:
  "inj_on f (set l) \<Longrightarrow> find (\<lambda>p. Q p \<and> f p = a) l = (case find (\<lambda>p. f p = a) l of Some p \<Rightarrow> if Q p then Some p else None | None \<Rightarrow> None)"
proof (induction l)
  case (Cons x xs)
  then have IH: "find (\<lambda>p. Q p \<and> f p = a) xs = (case find (\<lambda>p. f p = a) xs of Some p \<Rightarrow> if Q p then Some p else None | None \<Rightarrow> None)"
    by (simp add: inj_on_def)
  have "\<not> Q y" if "y \<in> set xs" "f y = a" "f x = a" "\<not> Q x" for y using Cons.prems that by (auto simp: inj_on_def)
  then show ?case using IH by (auto split: option.splits dest: find_SomeD)
qed simp

lemma find_interface:
  assumes inv: "db_inv0 s" and h: "h \<in> set (gHandleList (hand s))" and lk: "Lock (locks s PL) = EfiLockAcquired"
  shows "CoreFindProtocolInterface h g i s =
    Some (case protocol_on (hand s) (mProtocolDatabase s) h g of
        Some p \<Rightarrow> if Interface (interface_at s p) = i then p else 0
      | None \<Rightarrow> 0)"
proof -
  let ?D = "mProtocolDatabase s"
  let ?l = "Protocols (handle_at s h)"
  let ?a = "entry_of ?D g"
  have ei: "entries_inv ?D" and hi: "handles_inv (hand s)" using inv by (simp_all add: hand_inv0_def)
  have start: "(case find (\<lambda>e. ProtocolID e = g) ?D of Some e \<Rightarrow> (EntryAddress e, s) | None \<Rightarrow> (0, s)) = (?a, s)"
    by (simp add: entry_of_def split: option.split)
  have w: "walk (\<lambda>p. InterfaceSignature (interface_at s p) = PROTOCOL_INTERFACE_SIGNATURE)
      (\<lambda>p. Interface (interface_at s p) = i \<and> Protocol (interface_at s p) = ?a) ?l =
      Some (find (\<lambda>p. Interface (interface_at s p) = i \<and> Protocol (interface_at s p) = ?a) ?l)"
    using protocols_installed(5)[OF inv h] by (intro walk_find) simp
  have inj: "inj_on (\<lambda>p. Protocol (interface_at s p)) (set ?l)" by (rule handles_invD(4)[OF hi h])
  have on: "protocol_on (hand s) ?D h g = (if ?a \<noteq> 0 then find (\<lambda>p. Protocol (interface_at s p) = ?a) ?l else None)"
    using h protocol_of_iff[OF ei] by (auto simp: protocol_on_def find_None_iff' intro!: find_cong)
  have split: "find (\<lambda>p. Interface (interface_at s p) = i \<and> Protocol (interface_at s p) = ?a) ?l =
      (case find (\<lambda>p. Protocol (interface_at s p) = ?a) ?l of
         Some p \<Rightarrow> if Interface (interface_at s p) = i then Some p else None | None \<Rightarrow> None)"
    by (rule find_conj_inj[OF inj])
  show ?thesis
    using lk w by (simp add: CoreFindProtocolInterface_def ASSERT_LOCKED_def find_entry start on split split: option.split)
qed

end
