(* ===== verification/Dxe_HandleOps.thy ===== *)
theory Dxe_HandleOps
  imports Dxe_HandleInv
begin

text \<open>
  The services of the handle database as sections under the database lock: what they leave of the state when nothing is
  pending, signalling with drivers that keep to their own data, opening, installing and uninstalling a protocol.
\<close>

unbundle bit_operations_syntax

section \<open>Sections under the database lock\<close>

definition at_ease :: "'w DXE \<Rightarrow> bool" where
  "at_ease s \<longleftrightarrow> settled s \<and> gEfiCurrentTpl s \<le> TPL_NOTIFY \<and> Lock (locks s PL) = EfiLockReleased"

lemma put_fields [simp]:
  "gEfiCurrentTpl (put_hand f s) = gEfiCurrentTpl s" "locks (put_hand f s) = locks s" "hand (put_hand f s) = f (hand s)"
  "mProtocolDatabase (put_hand f s) = mProtocolDatabase s" "gEventPending (put_hand f s) = gEventPending s"
  "put_hand f (s\<lparr>hand := H\<rparr>) = s\<lparr>hand := f H\<rparr>"
  by (simp_all add: put_hand_def)

lemma at_ease_level: "at_ease s \<Longrightarrow> Tpl (locks s PL) = TPL_NOTIFY"
  by (simp add: at_ease_def settled_def event_inv_def lock_levels_def)

lemma acquire_ease: "at_ease s \<Longrightarrow> CoreAcquireProtocolLock s = Some (acquired PL s)"
  using at_ease_level[of s] by (simp add: CoreAcquireProtocolLock_def CoreAcquireLock_eq at_ease_def)

text \<open>The state \<open>s\<close> with another database.\<close>

abbreviation with_db :: "HAND \<Rightarrow> PROTOCOL_ENTRY list \<Rightarrow> 'w DXE \<Rightarrow> 'w DXE" where
  "with_db H D s \<equiv> s\<lparr>hand := H, mProtocolDatabase := D\<rparr>"

lemma settled_with_db: "settled s \<Longrightarrow> settled (with_db H D s)"
  by (simp add: settled_def nothing_pending_above_def event_inv_def pending_inv_def queue_inv_def signal_inv_def lock_levels_def)

lemma release_ease:
  assumes s: "at_ease s" and n: "2 \<le> n"
  obtains t where "CoreReleaseProtocolLock n notify (with_db H D (acquired PL s)) = Some t"
    "view t = view (with_db H D s)" "locks_kept s t" "at_ease t"
proof -
  let ?u = "with_db H D (acquired PL s)"
  let ?t = "released PL ?u"
  have c: "nothing_pending_above (gEfiCurrentTpl s) s" using s by (simp add: at_ease_def settled_def)
  have sec: "CoreReleaseLock n notify PL ?u = Some ?t" "view ?t = view (?u\<lparr>gEfiCurrentTpl := gEfiCurrentTpl s\<rparr>)" "locks_kept s ?t"
    using calm_section(1,2,3)[of s PL ?u] s c n at_ease_level[OF s] by (simp_all add: at_ease_def)
  have v: "view ?t = view (with_db H D s)" unfolding sec(2) by (simp add: view_def other_fields_def acquired_platform)
  have k: "locks_kept (with_db H D s) ?t" using sec(3) by (simp add: locks_kept_def)
  have "settled ?t" by (rule settled_cong[OF settled_with_db v k]) (use s in \<open>simp add: at_ease_def\<close>)
  then have "at_ease ?t" using view_eqD(1)[OF v] sec(3) s by (simp add: at_ease_def locks_kept_def)
  with sec v that show thesis by (simp add: CoreReleaseProtocolLock_def)
qed

section \<open>Signalling with quiet drivers\<close>

text \<open>
  Drivers whose notification functions only work on their own data, and fuel enough for notifying every event there is. What such
  notifications leave alone: the events' functions and contexts and whether they are live.
\<close>

definition quiet_drivers :: "(EFI_EVENT \<Rightarrow> 'w \<Rightarrow> 'w) \<Rightarrow> nat \<Rightarrow> 'w notify \<Rightarrow> 'w DXE \<Rightarrow> bool" where
  "quiet_drivers run n notify s \<longleftrightarrow> finite {e. live s e} \<and> 33 + card {e. live s e} < n \<and>
     (\<forall>e t. live s e \<longrightarrow> notify (the (NotifyFunction (event s e))) e (NotifyContext (event s e)) t = Some (t\<lparr>world := run e (world t)\<rparr>))"

definition same_functions :: "'w DXE \<Rightarrow> 'w DXE \<Rightarrow> bool" where
  "same_functions s t \<longleftrightarrow> (\<forall>e. Signature (event t e) = Signature (event s e) \<and> NotifyFunction (event t e) = NotifyFunction (event s e)
     \<and> NotifyContext (event t e) = NotifyContext (event s e))"

lemma quiet_drivers_cong: "same_functions s t \<Longrightarrow> quiet_drivers run n notify t = quiet_drivers run n notify s"
  by (simp add: same_functions_def quiet_drivers_def)

lemma quiet_drivers_on: "quiet_drivers run n notify s \<Longrightarrow> \<forall>e\<in>set es. live s e \<Longrightarrow> quiet_on es run notify (event s)"
  by (simp add: quiet_drivers_def quiet_on_def)

lemma distinct_queued_between:
  assumes "queue_inv s"
  shows "distinct (queued_between lo hi s)"
proof (induction hi)
  case (Suc hi)
  show ?case
  proof (cases "lo < hi")
    case True
    have "set (gEventQueue s hi) \<inter> set (queued_between lo hi s) = {}"
      using queue_inv_facts(3)[OF assms] by (auto simp: set_queued_between) (metis less_irrefl)
    then show ?thesis using Suc True queue_inv_facts(1)[OF assms] by (simp add: queued_between_Suc)
  qed (simp add: queued_between_empty)
qed (simp add: queued_between_empty)

lemma queued_above_live:
  assumes "event_inv s" "e \<in> set (queued_above t s)"
  shows "live s e"
  using assms queue_inv_facts(2)[of s e] by (auto simp: queued_above_def set_queued_between event_inv_def)

lemma queued_above_bound:
  assumes "event_inv s" "finite {e. live s e}"
  shows "length (queued_above t s) \<le> card {e. live s e}"
proof -
  have "distinct (queued_above t s)" using assms(1) distinct_queued_between by (auto simp: queued_above_def event_inv_def)
  then have "length (queued_above t s) = card (set (queued_above t s))" by (simp add: distinct_card)
  also have "\<dots> \<le> card {e. live s e}" using queued_above_live[OF assms(1)] assms(2) by (intro card_mono) auto
  finally show ?thesis .
qed

lemma signal_quiet:
  assumes s: "settled s" and q: "quiet_drivers run n notify s"
  shows "\<exists>st t. CoreSignalEvent n notify e s = Some (st, t) \<and> settled t \<and> locks_kept s t \<and> other_fields t = other_fields s
    \<and> gEfiCurrentTpl t = gEfiCurrentTpl s \<and> same_functions s t"
proof (cases "e = 0 \<or> \<not> live s e")
  case True
  then show ?thesis using s by (auto simp: CoreSignalEvent_def same_functions_def locks_kept_def)
next
  case False
  let ?u = "signal_effect e s"
  have inv: "event_inv s" using s by (simp add: settled_def)
  have iu: "event_inv ?u" using event_inv_signal_effect[OF inv] False by simp
  have live: "{x. live ?u x} = {x. live s x}" by simp
  have "\<forall>x\<in>set (queued_above (gEfiCurrentTpl s) ?u). live s x" using queued_above_live[OF iu] by simp
  then have on: "quiet_on (queued_above (gEfiCurrentTpl s) ?u) run notify (event s)" by (rule quiet_drivers_on[OF q])
  have "length (queued_above (gEfiCurrentTpl s) ?u) \<le> card {x. live s x}"
    using queued_above_bound[OF iu, of "gEfiCurrentTpl s"] q unfolding live by (simp add: quiet_drivers_def)
  then have "33 + length (queued_above (gEfiCurrentTpl s) ?u) < n" using q by (simp add: quiet_drivers_def)
  then obtain t where t: "CoreSignalEvent n notify e s = Some (EFI_SUCCESS, t)" "dispatched run ?u t" "settled t" "locks_kept s t"
    using signal_exact[OF s _ _ on] False by auto
  have "same_functions s t" using t(2) by (auto simp: dispatched_def same_functions_def notified_all_def Let_def)
  then show ?thesis using t by (auto simp: dispatched_def Let_def)
qed

lemma notify_loop_quiet:
  assumes "settled s" "quiet_drivers run n notify s"
  shows "\<exists>t. NotifyProtocolEntry_loop n notify l s = Some t \<and> settled t \<and> locks_kept s t \<and> other_fields t = other_fields s
    \<and> gEfiCurrentTpl t = gEfiCurrentTpl s \<and> same_functions s t"
  using assms
proof (induction l arbitrary: s)
  case Nil
  then show ?case by (simp add: locks_kept_def same_functions_def)
next
  case (Cons r l)
  obtain st u where u: "CoreSignalEvent n notify (Event r) s = Some (st, u)" "settled u" "locks_kept s u"
    "other_fields u = other_fields s" "gEfiCurrentTpl u = gEfiCurrentTpl s" "same_functions s u"
    using signal_quiet[OF Cons.prems] by blast
  obtain t where t: "NotifyProtocolEntry_loop n notify l u = Some t" "settled t" "locks_kept u t"
    "other_fields t = other_fields u" "gEfiCurrentTpl t = gEfiCurrentTpl u" "same_functions u t"
    using Cons.IH[OF u(2)] Cons.prems(2) quiet_drivers_cong[OF u(6)] by blast
  then show ?case using u locks_kept_trans[OF u(3) t(3)] by (auto simp: same_functions_def)
qed

lemma release_quiet:
  assumes u: "settled u" "Lock (locks u PL) = EfiLockAcquired" "OwnerTpl (locks u PL) \<le> gEfiCurrentTpl u"
    and q: "quiet_drivers run n notify u"
  shows "\<exists>t. CoreReleaseProtocolLock n notify u = Some t \<and> settled t \<and> other_fields t = other_fields u
    \<and> gEfiCurrentTpl t = OwnerTpl (locks u PL) \<and> same_functions u t
    \<and> locks_kept (u\<lparr>locks := (locks u)(PL := (locks u PL)\<lparr>Lock := EfiLockReleased\<rparr>)\<rparr>) t"
proof -
  let ?r = "u\<lparr>locks := (locks u)(PL := (locks u PL)\<lparr>Lock := EfiLockReleased\<rparr>)\<rparr>"
  let ?o = "OwnerTpl (locks u PL)"
  have inv: "event_inv u" using u(1) by (simp add: settled_def)
  have ir: "event_inv ?r" by (rule event_inv_cong[OF inv]) (use inv in \<open>auto simp: event_inv_def\<close>)
  have free: "event_lock_free ?r" using u(1) by (simp add: settled_def)
  have live: "{x. live ?r x} = {x. live u x}" by simp
  have qr: "quiet_drivers run n notify ?r" using q by (simp add: quiet_drivers_def)
  have on: "quiet_on (queued_above ?o ?r) run notify (event ?r)"
    by (rule quiet_drivers_on[OF qr]) (use queued_above_live[OF ir] in blast)
  have "length (queued_above ?o ?r) \<le> card {x. live u x}"
    using queued_above_bound[OF ir, of ?o] qr unfolding live by (simp add: quiet_drivers_def)
  then have fuel: "33 + length (queued_above ?o ?r) < n" using q by (simp add: quiet_drivers_def)
  have lvl: "?o \<le> gEfiCurrentTpl ?r" using u(3) by simp
  obtain t where t: "CoreRestoreTpl n notify ?o ?r = Some t" "gEfiCurrentTpl t = ?o"
    "event t = notified_all (queued_above ?o ?r) (event ?r)"
    "\<forall>k. bit (gEventPending t) k \<longleftrightarrow> bit (gEventPending ?r) k \<and> k \<le> unat ?o"
    "locks_kept ?r t" "other_fields t = other_fields ?r" "event_inv t"
    using restore_quiet[OF ir free lvl on fuel] by blast
  have "settled t" using t free by (simp add: settled_def nothing_pending_above_def locks_kept_def)
  moreover have "same_functions u t" using t(3) by (auto simp: same_functions_def notified_all_def)
  moreover have "CoreReleaseProtocolLock n notify u = Some t"
    using t(1) u(2) by (simp add: CoreReleaseProtocolLock_def CoreReleaseLock_def ReleaseLock_by_def)
  ultimately show ?thesis using t by auto
qed

section \<open>Opening\<close>

definition with_open :: "PTR \<Rightarrow> OPEN_PROTOCOL_DATA list \<Rightarrow> HAND \<Rightarrow> HAND" where
  "with_open p l H = H\<lparr>interface := (interface H)(p := (interface H p)\<lparr>OpenList := l, OpenListCount := of_nat (length l)\<rparr>)\<rparr>"

lemma with_open_fields [simp]:
  "Protocol (interface (with_open p l H) q) = Protocol (interface H q)" "OnHandle (interface (with_open p l H) q) = OnHandle (interface H q)"
  "Interface (interface (with_open p l H) q) = Interface (interface H q)"
  "InterfaceSignature (interface (with_open p l H) q) = InterfaceSignature (interface H q)"
  "OpenList (interface (with_open p l H) q) = (if q = p then l else OpenList (interface H q))"
  "OpenListCount (interface (with_open p l H) q) = (if q = p then of_nat (length l) else OpenListCount (interface H q))"
  "ihandle (with_open p l H) = ihandle H" "gHandleList (with_open p l H) = gHandleList H"
  "mEfiLocateHandleRequest (with_open p l H) = mEfiLocateHandleRequest H" "gHandleDatabaseKey (with_open p l H) = gHandleDatabaseKey H"
  "gDxeCoreImageHandle (with_open p l H) = gDxeCoreImageHandle H"
  by (simp_all add: with_open_def)

lemma inv_with_open: "hand_inv H D \<Longrightarrow> hand_inv (with_open p l H) D"
  by (simp add: hand_inv_def hand_inv0_def handles_inv_def links_inv_def)

lemma protocol_on_with_open [simp]: "protocol_on (with_open p l H) D = protocol_on H D"
  by (simp add: protocol_on_def fun_eq_iff)

lemma database_with_open [simp]: "database (with_open p l H) D = database H D"
  by (simp add: database_def fun_eq_iff)

text \<open>The open list and the status after an open that disconnects no driver.\<close>

definition open_effect ::
  "bool \<Rightarrow> EFI_HANDLE \<Rightarrow> EFI_HANDLE \<Rightarrow> UINT32 \<Rightarrow> OPEN_PROTOCOL_DATA list \<Rightarrow> EFI_STATUS \<times> OPEN_PROTOCOL_DATA list" where
  "open_effect Pool img ctl Attr l =
     (case OpenList_scan (\<lambda>d. AgentHandle d = img \<and> Attributes d = Attr \<and> ControllerHandle d = ctl) False False l of
        Already_started \<Rightarrow> (EFI_ALREADY_STARTED, l)
      | Counted l' \<Rightarrow> (EFI_SUCCESS, l')
      | Scanned ByDriver Exclusive \<Rightarrow>
          if Attr = EFI_OPEN_PROTOCOL_BY_DRIVER \<and> (Exclusive \<or> ByDriver) \<or> Attr AND EFI_OPEN_PROTOCOL_EXCLUSIVE \<noteq> 0 \<and> Exclusive
          then (EFI_ACCESS_DENIED, l)
          else if img = 0 then (EFI_SUCCESS, l)
          else if \<not> Pool then (EFI_OUT_OF_RESOURCES, l)
          else (EFI_SUCCESS, l @ [\<lparr>AgentHandle = img, ControllerHandle = ctl, Attributes = Attr, OpenCount = 1\<rparr>]))"

definition open_modes :: "UINT32 set" where
  "open_modes = {EFI_OPEN_PROTOCOL_BY_HANDLE_PROTOCOL, EFI_OPEN_PROTOCOL_GET_PROTOCOL, EFI_OPEN_PROTOCOL_TEST_PROTOCOL,
     EFI_OPEN_PROTOCOL_BY_CHILD_CONTROLLER, EFI_OPEN_PROTOCOL_BY_DRIVER, EFI_OPEN_PROTOCOL_BY_DRIVER OR EFI_OPEN_PROTOCOL_EXCLUSIVE,
     EFI_OPEN_PROTOCOL_EXCLUSIVE}"

lemma open_modes_iff:
  "Attr \<in> open_modes \<longleftrightarrow> Attr = 1 \<or> Attr = 2 \<or> Attr = 4 \<or> Attr = 8 \<or> Attr = 0x10 \<or> Attr = 0x30 \<or> Attr = 0x20"
  by (simp add: open_modes_def)

lemma scan_counted_length: "OpenList_scan E b x l = Counted l' \<Longrightarrow> length l' = length l"
  by (induction E b x l arbitrary: l' rule: OpenList_scan.induct) (auto split: if_splits open_scan.splits)

lemma scan_driver:
  "OpenList_scan E b x l = Scanned bd ex \<Longrightarrow> bd = (b \<or> (\<exists>d\<in>set l. Attributes d AND EFI_OPEN_PROTOCOL_BY_DRIVER \<noteq> 0))
     \<and> ex = (x \<or> (\<exists>d\<in>set l. Attributes d AND EFI_OPEN_PROTOCOL_EXCLUSIVE \<noteq> 0))"
  by (induction E b x l rule: OpenList_scan.induct) (auto split: if_splits open_scan.splits)

lemma open_interface_passive:
  assumes cnt: "OpenListCount (interface_at s p) = of_nat (length (OpenList (interface_at s p)))" and Attr: "Attr \<in> open_modes"
    and nodrv: "Attr AND EFI_OPEN_PROTOCOL_EXCLUSIVE \<noteq> 0 \<longrightarrow> (\<forall>d\<in>set (OpenList (interface_at s p)). Attributes d AND EFI_OPEN_PROTOCOL_BY_DRIVER = 0)"
    and eff: "open_effect Pool img ctl Attr (OpenList (interface_at s p)) = (st, l)"
  shows "open_interface n notify Disconnect Pool h p img ctl Attr s = Some (st, s\<lparr>hand := with_open p l (hand s)\<rparr>)"
proof -
  let ?l = "OpenList (interface_at s p)"
  have idem: "with_open p ?l (hand s) = hand s" unfolding with_open_def cnt[symmetric] by simp
  show ?thesis
  proof (cases "OpenList_scan (\<lambda>d. AgentHandle d = img \<and> Attributes d = Attr \<and> ControllerHandle d = ctl) False False ?l")
    case Already_started
    then show ?thesis using eff idem by (auto simp: open_interface_def open_effect_def)
  next
    case (Counted l')
    then have l: "l = l'" "st = EFI_SUCCESS" "length l = length ?l" using eff scan_counted_length[OF Counted] by (auto simp: open_effect_def)
    have "(interface_at s p)\<lparr>OpenList := l\<rparr> = (interface_at s p)\<lparr>OpenList := l, OpenListCount := of_nat (length l)\<rparr>"
      by (rule PROTOCOL_INTERFACE.equality) (simp_all add: cnt l(3))
    then show ?thesis using Counted l(1,2) by (simp add: open_interface_def put_interface_def put_hand_def with_open_def)
  next
    case (Scanned bd ex)
    have bd: "bd \<Longrightarrow> Attr AND EFI_OPEN_PROTOCOL_EXCLUSIVE = 0" using scan_driver[OF Scanned] nodrv by auto
    let ?den = "Attr = EFI_OPEN_PROTOCOL_BY_DRIVER \<and> (ex \<or> bd) \<or> Attr AND EFI_OPEN_PROTOCOL_EXCLUSIVE \<noteq> 0 \<and> ex"
    have mode: "(if Attr = EFI_OPEN_PROTOCOL_BY_DRIVER then Some (if ex \<or> bd then EFI_ACCESS_DENIED else EFI_SUCCESS, s)
             else if Attr = EFI_OPEN_PROTOCOL_BY_DRIVER OR EFI_OPEN_PROTOCOL_EXCLUSIVE \<or> Attr = EFI_OPEN_PROTOCOL_EXCLUSIVE
             then if ex then Some (EFI_ACCESS_DENIED, s)
                  else if bd then OpenDisconnect_loop n n notify Disconnect h p s
                  else Some (EFI_SUCCESS, s)
             else Some (EFI_SUCCESS, s)) = Some (if ?den then EFI_ACCESS_DENIED else EFI_SUCCESS, s)"
      using Attr bd unfolding open_modes_iff by (cases bd; elim disjE) simp_all
    have run: "open_interface n notify Disconnect Pool h p img ctl Attr s =
        (if ?den then Some (EFI_ACCESS_DENIED, s) else if img = 0 then Some (EFI_SUCCESS, s) else if \<not> Pool then Some (EFI_OUT_OF_RESOURCES, s)
         else Some (EFI_SUCCESS, put_interface p
                 (\<lambda>p. p\<lparr>OpenList := OpenList p @ [\<lparr>AgentHandle = img, ControllerHandle = ctl, Attributes = Attr, OpenCount = 1\<rparr>],
                        OpenListCount := OpenListCount p + 1\<rparr>) s))"
      unfolding open_interface_def Scanned open_scan.case mode by simp
    have new: "put_interface p (\<lambda>p. p\<lparr>OpenList := OpenList p @ [d], OpenListCount := OpenListCount p + 1\<rparr>) s =
        s\<lparr>hand := with_open p (?l @ [d]) (hand s)\<rparr>" for d
      using cnt by (simp add: put_interface_def put_hand_def with_open_def add.commute)
    have same: "s\<lparr>hand := with_open p ?l (hand s)\<rparr> = s" unfolding idem by simp
    have "(st, l) = (if ?den then (EFI_ACCESS_DENIED, ?l) else if img = 0 then (EFI_SUCCESS, ?l) else if \<not> Pool then (EFI_OUT_OF_RESOURCES, ?l)
        else (EFI_SUCCESS, ?l @ [\<lparr>AgentHandle = img, ControllerHandle = ctl, Attributes = Attr, OpenCount = 1\<rparr>]))"
      using eff unfolding open_effect_def Scanned by simp
    then show ?thesis unfolding run new by (cases ?den; cases "img = 0"; cases Pool) (simp_all only: if_True if_False prod.inject same simp_thms)
  qed
qed

text \<open>The handles an open mode names are valid.\<close>

definition open_handles :: "HAND \<Rightarrow> EFI_HANDLE \<Rightarrow> EFI_HANDLE \<Rightarrow> EFI_HANDLE \<Rightarrow> UINT32 \<Rightarrow> bool" where
  "open_handles H h img ctl Attr \<longleftrightarrow> h \<in> set (gHandleList H) \<and>
     (Attr AND (EFI_OPEN_PROTOCOL_BY_CHILD_CONTROLLER OR EFI_OPEN_PROTOCOL_BY_DRIVER OR EFI_OPEN_PROTOCOL_EXCLUSIVE) \<noteq> 0 \<longrightarrow> img \<in> set (gHandleList H)) \<and>
     (Attr AND (EFI_OPEN_PROTOCOL_BY_CHILD_CONTROLLER OR EFI_OPEN_PROTOCOL_BY_DRIVER) \<noteq> 0 \<longrightarrow> ctl \<in> set (gHandleList H)) \<and>
     (Attr = EFI_OPEN_PROTOCOL_BY_CHILD_CONTROLLER \<longrightarrow> h \<noteq> ctl)"

abbreviation db_inv :: "'w DXE \<Rightarrow> bool" where "db_inv s \<equiv> hand_inv (hand s) (mProtocolDatabase s)"
abbreviation on_handle :: "'w DXE \<Rightarrow> EFI_HANDLE \<Rightarrow> EFI_GUID \<Rightarrow> PTR option" where
  "on_handle s \<equiv> protocol_on (hand s) (mProtocolDatabase s)"

lemma db_inv_inv0: "db_inv s \<Longrightarrow> db_inv0 s" by (simp add: hand_inv_def)

lemma on_handle_Some:
  assumes "db_inv0 s" "on_handle s h g = Some p"
  shows "h \<in> set (gHandleList (hand s))" "p \<in> set (Protocols (handle_at s h))" "installed_in (mProtocolDatabase s) p" "p \<noteq> 0"
    "protocol_of (mProtocolDatabase s) (Protocol (interface_at s p)) = Some g"
    "OpenListCount (interface_at s p) = of_nat (length (OpenList (interface_at s p)))"
proof -
  show h: "h \<in> set (gHandleList (hand s))" and p: "p \<in> set (Protocols (handle_at s h))"
    and "protocol_of (mProtocolDatabase s) (Protocol (interface_at s p)) = Some g"
    using assms(2) by (auto simp: protocol_on_def split: if_splits dest!: find_SomeD)
  show i: "installed_in (mProtocolDatabase s) p" "p \<noteq> 0" using protocols_installed[OF assms(1) h p] by simp_all
  show "OpenListCount (interface_at s p) = of_nat (length (OpenList (interface_at s p)))"
    using links_invD(4)[OF _ i(1)] assms(1) by (simp add: hand_inv0_def)
qed

lemma open_checks:
  assumes "db_inv0 s" "Attr \<in> open_modes" "open_handles (hand s) h img ctl Attr"
  shows "CoreValidateHandle h s = Some EFI_SUCCESS" "open_mode_check h img ctl Attr s = Some EFI_SUCCESS"
  using assms(2,3) validate_handle[OF assms(1)] unfolding open_modes_iff by (auto simp: open_handles_def open_mode_check_def)

lemma open_protocol_run:
  assumes s: "at_ease s" "db_inv0 s" and Attr: "Attr \<in> open_modes" "open_handles (hand s) h img ctl Attr" and n: "2 \<le> n"
    and given: "Attr \<noteq> EFI_OPEN_PROTOCOL_TEST_PROTOCOL \<longrightarrow> given"
  shows "on_handle s h g = None \<Longrightarrow> \<exists>t. CoreOpenProtocol n notify Disconnect Pool h (Some g) given img ctl Attr s =
      Some (EFI_UNSUPPORTED, if Attr = EFI_OPEN_PROTOCOL_TEST_PROTOCOL then None else Some 0, t)
      \<and> view t = view s \<and> locks_kept s t \<and> at_ease t"
    and "on_handle s h g = Some p \<Longrightarrow>
      Attr AND EFI_OPEN_PROTOCOL_EXCLUSIVE \<noteq> 0 \<longrightarrow> (\<forall>d\<in>set (OpenList (interface_at s p)). Attributes d AND EFI_OPEN_PROTOCOL_BY_DRIVER = 0) \<Longrightarrow>
      open_effect Pool img ctl Attr (OpenList (interface_at s p)) = (st, l) \<Longrightarrow>
      \<exists>t. CoreOpenProtocol n notify Disconnect Pool h (Some g) given img ctl Attr s =
        Some (st, if Attr \<noteq> EFI_OPEN_PROTOCOL_TEST_PROTOCOL \<and> (st = EFI_SUCCESS \<or> st = EFI_ALREADY_STARTED)
                  then Some (Interface (interface_at s p)) else None, t)
      \<and> view t = view (s\<lparr>hand := with_open p l (hand s)\<rparr>) \<and> locks_kept s t \<and> at_ease t"
proof -
  let ?a = "acquired PL s"
  have da: "db_inv0 ?a" using s(2) by simp
  note chk = open_checks[OF s(2) Attr] acquire_ease[OF s(1)]
  note get = get_interface[OF da, of h g]
  show "\<exists>t. CoreOpenProtocol n notify Disconnect Pool h (Some g) given img ctl Attr s =
      Some (EFI_UNSUPPORTED, if Attr = EFI_OPEN_PROTOCOL_TEST_PROTOCOL then None else Some 0, t)
      \<and> view t = view s \<and> locks_kept s t \<and> at_ease t" if none: "on_handle s h g = None"
  proof -
    obtain t where t: "CoreReleaseProtocolLock n notify (with_db (hand s) (mProtocolDatabase s) ?a) = Some t"
      "view t = view (with_db (hand s) (mProtocolDatabase s) s)" "locks_kept s t" "at_ease t"
      using release_ease[OF s(1) n] by blast
    have "with_db (hand s) (mProtocolDatabase s) ?a = ?a" by (rule DXE.equality) simp_all
    then have "CoreReleaseProtocolLock n notify ?a = Some t" using t(1) by (simp only:)
    then show ?thesis using t(2-4) none get given by (intro exI[of _ t]) (auto simp: CoreOpenProtocol_def chk)
  qed
  show "\<exists>t. CoreOpenProtocol n notify Disconnect Pool h (Some g) given img ctl Attr s =
        Some (st, if Attr \<noteq> EFI_OPEN_PROTOCOL_TEST_PROTOCOL \<and> (st = EFI_SUCCESS \<or> st = EFI_ALREADY_STARTED)
                  then Some (Interface (interface_at s p)) else None, t)
      \<and> view t = view (s\<lparr>hand := with_open p l (hand s)\<rparr>) \<and> locks_kept s t \<and> at_ease t"
    if on: "on_handle s h g = Some p"
      and nodrv: "Attr AND EFI_OPEN_PROTOCOL_EXCLUSIVE \<noteq> 0 \<longrightarrow> (\<forall>d\<in>set (OpenList (interface_at s p)). Attributes d AND EFI_OPEN_PROTOCOL_BY_DRIVER = 0)"
      and eff: "open_effect Pool img ctl Attr (OpenList (interface_at s p)) = (st, l)"
  proof -
    note P = on_handle_Some[OF s(2) on]
    let ?H = "with_open p l (hand s)"
    obtain t where t: "CoreReleaseProtocolLock n notify (with_db ?H (mProtocolDatabase s) ?a) = Some t"
      "view t = view (with_db ?H (mProtocolDatabase s) s)" "locks_kept s t" "at_ease t"
      using release_ease[OF s(1) n] by blast
    have oi: "open_interface n notify Disconnect Pool h p img ctl Attr ?a = Some (st, ?a\<lparr>hand := ?H\<rparr>)"
      using open_interface_passive[of ?a p, OF _ Attr(1)] P(6) nodrv eff by simp
    have st: "st \<noteq> EFI_UNSUPPORTED" using eff by (auto simp: open_effect_def split: open_scan.splits if_splits)
    have db: "with_db ?H (mProtocolDatabase s) ?a = ?a\<lparr>hand := ?H\<rparr>" by (rule DXE.equality) simp_all
    have "CoreReleaseProtocolLock n notify (?a\<lparr>hand := ?H\<rparr>) = Some t" using t(1) db by (simp only:)
    then show ?thesis using t(2-4) on get given P(4) st oi
      by (intro exI[of _ t]) (auto simp: CoreOpenProtocol_def chk EFI_ERROR_def)
  qed
qed

section \<open>Installing\<close>

text \<open>The database after an installation on the handle \<open>h\<close>, or on a new handle at \<open>hp\<close> for \<open>h = 0\<close>.\<close>

definition entries_with :: "PTR \<Rightarrow> EFI_GUID \<Rightarrow> PROTOCOL_ENTRY list \<Rightarrow> PROTOCOL_ENTRY list" where
  "entries_with E g D =
     (if g \<in> ProtocolID ` set D then D else D @ [\<lparr>EntryAddress = E, ProtocolID = g, EntryProtocols = [], Notifies = []\<rparr>])"

definition installed_hand :: "EFI_HANDLE \<Rightarrow> EFI_HANDLE \<Rightarrow> PTR \<Rightarrow> PTR \<Rightarrow> PTR \<Rightarrow> HAND \<Rightarrow> HAND" where
  "installed_hand h hp a p i H = with_interface (if h = 0 then hp else h) p a i (if h = 0 then with_handle hp H else H)"

definition pool_fresh :: "HAND \<Rightarrow> PROTOCOL_ENTRY list \<Rightarrow> PTR \<Rightarrow> PTR \<Rightarrow> PTR \<Rightarrow> bool" where
  "pool_fresh H D E p hp \<longleftrightarrow> E \<noteq> 0 \<and> E \<notin> EntryAddress ` set D \<and> p \<noteq> 0 \<and> \<not> installed_in D p \<and> hp \<noteq> 0 \<and> hp \<notin> set (gHandleList H)"

lemma entries_with_inv:
  assumes "hand_inv0 H D" "pool_fresh H D E p hp"
  shows "hand_inv0 H (entries_with E g D)" "database H (entries_with E g D) = database H D"
    "installed_in (entries_with E g D) q = installed_in D q"
    "protocol_of (entries_with E g D) (entry_of (entries_with E g D) g) = Some g"
    "protocol_on H (entries_with E g D) = protocol_on H D"
proof -
  show inv: "hand_inv0 H (entries_with E g D)"
    using assms inv0_new_entry[of H D E g] by (simp add: entries_with_def pool_fresh_def)
  show "database H (entries_with E g D) = database H D"
    using assms database_new_entry[of H D E] by (simp add: entries_with_def pool_fresh_def)
  show "installed_in (entries_with E g D) q = installed_in D q" by (simp add: entries_with_def installed_in_append)
  have "entries_inv (entries_with E g D)" using inv by (simp add: hand_inv0_def)
  moreover have "g \<in> ProtocolID ` set (entries_with E g D)" by (simp add: entries_with_def)
  ultimately show "protocol_of (entries_with E g D) (entry_of (entries_with E g D) g) = Some g"
    by (metis (no_types, lifting) protocol_of_entry protocol_of_iff image_iff)
  show "protocol_on H (entries_with E g D) = protocol_on H D"
    using assms protocol_on_new_entry[of H D E] by (simp add: entries_with_def pool_fresh_def)
qed

lemma installed_inv:
  assumes inv: "hand_inv H D" and pool: "pool_fresh H D E p hp"
    and h: "h \<noteq> 0 \<Longrightarrow> h \<in> set (gHandleList H) \<and> protocol_on H D h g = None"
  defines "D1 \<equiv> entries_with E g D"
  defines "a \<equiv> entry_of D1 g" and "h' \<equiv> (if h = 0 then hp else h)"
  shows "hand_inv (installed_hand h hp a p i H) (map (linked a p) D1)"
    "database (installed_hand h hp a p i H) (map (linked a p) D1) = (database H D)(h' := (database H D h')(g \<mapsto> i))"
proof -
  have inv0: "hand_inv0 H D" and ne: "\<forall>h\<in>set (gHandleList H). Protocols (ihandle H h) \<noteq> []" using inv by (simp_all add: hand_inv_def)
  note E = entries_with_inv[OF inv0 pool, where g = g, folded D1_def]
  define H1 where "H1 = (if h = 0 then with_handle hp H else H)"
  have pf: "hp \<noteq> 0" "hp \<notin> set (gHandleList H)" "p \<noteq> 0" "\<not> installed_in D1 p" using pool E(3) by (simp_all add: pool_fresh_def)
  have inv1: "hand_inv0 H1 D1" unfolding H1_def using inv0_new_handle[OF E(1) pf(1,2)] E(1) by simp
  have db1: "database H1 D1 = database H D" unfolding H1_def using database_new_handle[OF E(1) pf(2)] E(2) by simp
  have h': "h' \<in> set (gHandleList H1)" using h pf by (simp add: h'_def H1_def with_handle_def)
  have ga: "protocol_of D1 a = Some g" unfolding a_def by (rule E(4))
  then have a: "a \<in> EntryAddress ` set D1" by (auto simp: protocol_of_def dest!: find_SomeD)
  have new: "\<forall>q\<in>set (Protocols (ihandle H1 h')). Protocol (interface H1 q) \<noteq> a"
  proof (cases "h = 0")
    case True
    then show ?thesis by (simp add: H1_def h'_def with_handle_def)
  next
    case False
    then have "protocol_on H D1 h g = None" "h \<in> set (gHandleList H)" using h E(5) by simp_all
    then show ?thesis using False ga by (auto simp: H1_def h'_def protocol_on_def find_None_iff')
  qed
  have "hand_inv0 (installed_hand h hp a p i H) (map (linked a p) D1)"
    using inv0_link[OF inv1 h' a pf(3,4) new] by (simp add: installed_hand_def H1_def h'_def)
  moreover have "Protocols (ihandle (installed_hand h hp a p i H) k) \<noteq> []" if "k \<in> set (gHandleList (installed_hand h hp a p i H))" for k
    using that ne by (auto simp: installed_hand_def with_handle_def split: if_splits)
  ultimately show "hand_inv (installed_hand h hp a p i H) (map (linked a p) D1)" by (simp add: hand_inv_def)
  show "database (installed_hand h hp a p i H) (map (linked a p) D1) = (database H D)(h' := (database H D h')(g \<mapsto> i))"
    using database_link[OF inv1 h' ga pf(4), of i] db1 by (simp add: installed_hand_def H1_def h'_def)
qed

lemma find_entry_create:
  assumes "Lock (locks s PL) = EfiLockAcquired" "E \<noteq> 0"
  shows "CoreFindProtocolEntry g True E s =
    Some (entry_of (entries_with E g (mProtocolDatabase s)) g, s\<lparr>mProtocolDatabase := entries_with E g (mProtocolDatabase s)\<rparr>)"
proof (cases "find (\<lambda>e. ProtocolID e = g) (mProtocolDatabase s)")
  case None
  then have "g \<notin> ProtocolID ` set (mProtocolDatabase s)" by (auto simp: find_None_iff')
  then show ?thesis using None find_entry[OF assms(1), of g True E] assms(2) by (simp add: entries_with_def entry_of_def find_append)
next
  case (Some e)
  then have "g \<in> ProtocolID ` set (mProtocolDatabase s)" by (auto dest!: find_SomeD)
  then show ?thesis using Some find_entry[OF assms(1), of g True E] by (simp add: entries_with_def entry_of_def)
qed

lemma settled_section:
  assumes "at_ease s"
  shows "settled (with_db H D (acquired PL s))"
proof (rule settled_with_db)
  have s: "settled s" "gEfiCurrentTpl s \<le> TPL_NOTIFY" using assms by (simp_all add: at_ease_def)
  have "event_inv (acquired PL s)"
    by (rule event_inv_cong[of s]) (use s at_ease_level[OF assms] in \<open>auto simp: settled_def event_inv_def\<close>)
  moreover have "nothing_pending_above TPL_NOTIFY (acquired PL s)"
    using s by (auto simp: settled_def nothing_pending_above_def word_le_nat_alt intro: order_trans)
  ultimately show "settled (acquired PL s)" using s at_ease_level[OF assms] by (simp add: settled_def)
qed

lemma updates_at:
  "Protocols_update ((#) p) x = x\<lparr>Protocols := p # Protocols x\<rparr>"
  "(\<lambda>e. if EntryAddress e = a then EntryProtocols_update (\<lambda>l. l @ [p]) e else e) = linked a p"
  by (cases x, simp) (auto simp: fun_eq_iff linked_def)

text \<open>The steps of an installation under the lock, up to the notification of the protocol's listeners.\<close>

lemma install_locked_run:
  assumes inv: "db_inv s" and lk: "Lock (locks s PL) = EfiLockAcquired" and pool: "pool_fresh (hand s) (mProtocolDatabase s) E p hp"
    and h: "h \<noteq> 0 \<Longrightarrow> h \<in> set (gHandleList (hand s)) \<and> on_handle s h g = None"
  defines "D1 \<equiv> entries_with E g (mProtocolDatabase s)"
  defines "a \<equiv> entry_of D1 g" and "h' \<equiv> (if h = 0 then hp else h)"
  shows "install_locked n notify E p hp Status h g i Notify s =
    do { u \<leftarrow> (if Notify then CoreNotifyProtocolEntry n notify a (with_db (installed_hand h hp a p i (hand s)) (map (linked a p) D1) s)
              else Some (with_db (installed_hand h hp a p i (hand s)) (map (linked a p) D1) s));
         Some (EFI_SUCCESS, h', u) }"
proof -
  have inv0: "db_inv0 s" by (rule db_inv_inv0[OF inv])
  note E = entries_with_inv[OF inv0 pool, where g = g, folded D1_def]
  have pf: "E \<noteq> 0" "p \<noteq> 0" "hp \<noteq> 0" "hp \<notin> set (gHandleList (hand s))" using pool by (simp_all add: pool_fresh_def)
  have a0: "a \<noteq> 0" using E(1,4) protocol_of_iff[of D1 a g] by (simp add: a_def hand_inv0_def)
  define H1 where "H1 = (if h = 0 then with_handle hp (hand s) else hand s)"
  let ?u = "with_db H1 D1 s"
  have inv1: "db_inv0 ?u" unfolding H1_def using inv0_new_handle[OF E(1) pf(3,4)] E(1) by simp
  have h': "h' \<in> set (gHandleList (hand ?u))" using h pf by (simp add: h'_def H1_def with_handle_def)
  have none: "on_handle ?u h' g = None"
    using h E(5) by (cases "h = 0") (simp_all add: h'_def H1_def, simp add: protocol_on_def with_handle_def)
  have fi: "CoreFindProtocolInterface h' g i ?u = Some 0" using find_interface[OF inv1 h'] lk none by simp
  have entry: "CoreFindProtocolEntry g True E s = Some (a, s\<lparr>mProtocolDatabase := D1\<rparr>)"
    using find_entry_create[OF lk pf(1), of g] by (simp add: D1_def a_def)
  have hv: "install_handle hp h (s\<lparr>mProtocolDatabase := D1\<rparr>) = Some (EFI_SUCCESS, h', ?u)"
    using pf h validate_handle[of "s\<lparr>mProtocolDatabase := D1\<rparr>" h] E(1)
    by (simp add: install_handle_def h'_def H1_def with_handle_def put_handle_def put_hand_def Let_def)
  have upd: "put_entry a (EntryProtocols_update (\<lambda>l. l @ [p])) (put_handle h' (Protocols_update (\<lambda>l. p # l))
      (put_interface p (\<lambda>_. \<lparr>InterfaceSignature = PROTOCOL_INTERFACE_SIGNATURE, OnHandle = h', Protocol = a, Interface = i,
         OpenList = [], OpenListCount = 0\<rparr>) ?u)) = with_db (installed_hand h hp a p i (hand s)) (map (linked a p) D1) s"
    by (simp add: put_entry_def put_handle_def put_interface_def put_hand_def installed_hand_def with_interface_def updates_at H1_def h'_def)
  show ?thesis
    unfolding install_locked_def entry Option.bind.simps prod.case hv fi Let_def upd using a0 pf(2) by simp
qed

lemma view_hand: "view t = view s \<Longrightarrow> hand t = hand s \<and> mProtocolDatabase t = mProtocolDatabase s"
  by (simp add: view_def other_fields_def)

lemma other_fields_hand: "other_fields t = other_fields s \<Longrightarrow> hand t = hand s \<and> mProtocolDatabase t = mProtocolDatabase s"
  by (simp add: other_fields_def)

lemma quiet_drivers_view: "view t = view s \<Longrightarrow> quiet_drivers run n notify t = quiet_drivers run n notify s"
  by (rule quiet_drivers_cong) (simp add: same_functions_def view_def)

text \<open>The check that the protocol is not on the handle yet.\<close>

lemma handle_protocol_missing:
  assumes s: "at_ease s" "db_inv0 s" and n: "2 \<le> n" and h: "h \<in> set (gHandleList (hand s))" "on_handle s h g = None"
  shows "\<exists>t. CoreHandleProtocol n notify Disconnect Pool h (Some g) True s = Some (EFI_UNSUPPORTED, Some 0, t)
    \<and> view t = view s \<and> locks_kept s t \<and> at_ease t"
proof -
  have "open_handles (hand s) h (gDxeCoreImageHandle (hand s)) 0 EFI_OPEN_PROTOCOL_BY_HANDLE_PROTOCOL"
    using h(1) by (simp add: open_handles_def)
  then show ?thesis
    using open_protocol_run(1)[OF s _ _ n _ h(2), of EFI_OPEN_PROTOCOL_BY_HANDLE_PROTOCOL "gDxeCoreImageHandle (hand s)" 0 True notify Disconnect Pool]
    by (auto simp: CoreHandleProtocol_def open_modes_def)
qed

lemma install_run:
  assumes s: "at_ease s" "db_inv s" and pool: "pool_fresh (hand s) (mProtocolDatabase s) E p hp"
    and h: "h \<noteq> 0 \<Longrightarrow> h \<in> set (gHandleList (hand s)) \<and> on_handle s h g = None" and q: "quiet_drivers run n notify s"
  defines "D1 \<equiv> entries_with E g (mProtocolDatabase s)"
  defines "a \<equiv> entry_of D1 g" and "h' \<equiv> (if h = 0 then hp else h)"
  shows "\<exists>t. CoreInstallProtocolInterface n notify Disconnect OpenPool E p hp (Some h) (Some g) EFI_NATIVE_INTERFACE i s =
      Some (EFI_SUCCESS, Some h', t) \<and> hand t = installed_hand h hp a p i (hand s) \<and> mProtocolDatabase t = map (linked a p) D1
      \<and> at_ease t \<and> locks_kept s t \<and> same_functions s t"
proof -
  have n: "2 \<le> n" using q by (simp add: quiet_drivers_def)
  have inv0: "db_inv0 s" by (rule db_inv_inv0[OF s(2)])
  obtain st s1 where s1: "(if h \<noteq> 0 then do { (Status, _, s) \<leftarrow> CoreHandleProtocol n notify Disconnect OpenPool h (Some g) True s; Some (Status, s) }
      else Some (EFI_OUT_OF_RESOURCES, s)) = Some (st, s1)" "EFI_ERROR st" "view s1 = view s" "locks_kept s s1" "at_ease s1"
  proof (cases "h = 0")
    case True
    then show thesis using that[of EFI_OUT_OF_RESOURCES s] s(1) by (simp add: locks_kept_def)
  next
    case False
    then obtain t where "CoreHandleProtocol n notify Disconnect OpenPool h (Some g) True s = Some (EFI_UNSUPPORTED, Some 0, t)"
      "view t = view s" "locks_kept s t" "at_ease t" using handle_protocol_missing[OF s(1) inv0 n] h by blast
    then show thesis using that[of EFI_UNSUPPORTED t] False by simp
  qed
  have db1: "hand s1 = hand s" "mProtocolDatabase s1 = mProtocolDatabase s" using view_hand[OF s1(3)] by simp_all
  let ?u = "acquired PL s1"
  let ?H = "installed_hand h hp a p i (hand s)" and ?D = "map (linked a p) D1"
  let ?w = "with_db ?H ?D ?u"
  have lk: "Lock (locks ?u PL) = EfiLockAcquired" by simp
  have il: "install_locked n notify E p hp st h g i True ?u =
      do { u \<leftarrow> CoreNotifyProtocolEntry n notify a ?w; Some (EFI_SUCCESS, h', u) }"
    using install_locked_run[of ?u E p hp h g n notify st i True] s(2) pool h db1
    by (simp add: D1_def a_def h'_def)
  have sw: "settled ?w" by (rule settled_section[OF s1(5)])
  have qw: "quiet_drivers run n notify ?w"
    using q quiet_drivers_view[OF s1(3)] quiet_drivers_cong[of s1 ?w run n notify] by (simp add: same_functions_def)
  have "protocol_of D1 a = Some g" unfolding a_def D1_def by (rule entries_with_inv(4)[OF inv0 pool])
  then have "protocol_of ?D a = Some g" by simp
  then obtain e where e: "entry_at ?w a = Some e" by (auto simp: protocol_of_def entry_at_def)
  obtain v where v: "NotifyProtocolEntry_loop n notify (Notifies e) ?w = Some v" "settled v" "locks_kept ?w v"
    "other_fields v = other_fields ?w" "gEfiCurrentTpl v = gEfiCurrentTpl ?w" "same_functions ?w v"
    using notify_loop_quiet[OF sw qw] by blast
  have lv: "Lock (locks v PL) = EfiLockAcquired" "OwnerTpl (locks v PL) = gEfiCurrentTpl s1" "gEfiCurrentTpl v = TPL_NOTIFY"
    using v(3,5) at_ease_level[OF s1(5)] by (simp_all add: locks_kept_def)
  have le: "OwnerTpl (locks v PL) \<le> gEfiCurrentTpl v" using lv s1(5) by (simp add: at_ease_def)
  have qv: "quiet_drivers run n notify v" using qw quiet_drivers_cong[OF v(6)] by simp
  obtain t where t: "CoreReleaseProtocolLock n notify v = Some t" "settled t" "other_fields t = other_fields v"
    "gEfiCurrentTpl t = gEfiCurrentTpl s1" "same_functions v t"
    "locks_kept (v\<lparr>locks := (locks v)(PL := (locks v PL)\<lparr>Lock := EfiLockReleased\<rparr>)\<rparr>) t"
    using release_quiet[OF v(2) lv(1) le qv] unfolding lv(2) by blast
  have "hand t = ?H" "mProtocolDatabase t = ?D" using other_fields_hand[of t ?w] t(3) v(4) by simp_all
  moreover have kt: "locks_kept s1 t" using t(6) v(3) s1(5) by (auto simp: locks_kept_def at_ease_def)
  moreover have "at_ease t" using t(2,4) kt s1(5) by (simp add: at_ease_def locks_kept_def)
  moreover have "same_functions s t" using t(5) v(6) view_eqD(4)[OF s1(3)] by (simp add: same_functions_def)
  moreover have "CoreInstallProtocolInterface n notify Disconnect OpenPool E p hp (Some h) (Some g) EFI_NATIVE_INTERFACE i s = Some (EFI_SUCCESS, Some h', t)"
  proof -
    have ne: "CoreNotifyProtocolEntry n notify a ?w = Some v"
      using e v(1) by (simp add: CoreNotifyProtocolEntry_def ASSERT_LOCKED_def)
    show ?thesis
      unfolding CoreInstallProtocolInterface_def CoreInstallProtocolInterfaceNotify_def prod.case option.case s1(1) Option.bind.simps
        acquire_ease[OF s1(5)] il ne t(1)
      using s1(2) by simp
  qed
  ultimately show ?thesis using locks_kept_trans[OF s1(4)] by blast
qed

section \<open>Uninstalling\<close>

definition passive_open :: "OPEN_PROTOCOL_DATA \<Rightarrow> bool" where
  "passive_open d \<longleftrightarrow> Attributes d AND (EFI_OPEN_PROTOCOL_BY_HANDLE_PROTOCOL OR EFI_OPEN_PROTOCOL_GET_PROTOCOL OR EFI_OPEN_PROTOCOL_TEST_PROTOCOL) \<noteq> 0
     \<and> Attributes d AND EFI_OPEN_PROTOCOL_BY_DRIVER = 0"

definition uninstalled_hand :: "EFI_HANDLE \<Rightarrow> PTR \<Rightarrow> HAND \<Rightarrow> HAND" where
  "uninstalled_hand h p H =
     (let H = without_interface h p (with_open p [] H) in if Protocols (ihandle H h) = [] then without_handle h H else H)"

lemma uninstalled_inv:
  assumes inv: "hand_inv H D" and on: "protocol_on H D h g = Some p"
  defines "a \<equiv> Protocol (interface H p)"
  shows "hand_inv (uninstalled_hand h p H) (map (delinked a p) D)"
    "database (uninstalled_hand h p H) (map (delinked a p) D) = (database H D)(h := (database H D h)(g := None))"
proof -
  let ?H0 = "with_open p [] H" and ?D = "map (delinked a p) D"
  let ?H1 = "without_interface h p ?H0"
  have i0: "hand_inv ?H0 D" by (rule inv_with_open[OF inv])
  then have inv0: "hand_inv0 ?H0 D" and ne: "\<forall>k\<in>set (gHandleList H). Protocols (ihandle H k) \<noteq> []" by (simp_all add: hand_inv_def)
  have h: "h \<in> set (gHandleList ?H0)" and p: "p \<in> set (Protocols (ihandle ?H0 h))" "Protocol (interface ?H0 p) = a" and g: "protocol_of D a = Some g"
    using on by (auto simp: a_def protocol_on_def split: if_splits dest!: find_SomeD)
  have inv1: "hand_inv0 ?H1 ?D" by (rule inv0_delink[OF inv0 h p])
  have db1: "database ?H1 ?D = (database H D)(h := (database H D h)(g := None))" using database_delink[OF inv0 h p g] by simp
  have h1: "h \<in> set (gHandleList ?H1)" and d: "distinct (gHandleList H)" using h inv0 by (simp_all add: hand_inv0_def handles_inv_def)
  show "hand_inv (uninstalled_hand h p H) ?D"
  proof (cases "Protocols (ihandle ?H1 h) = []")
    case True
    have "Protocols (ihandle (without_handle h ?H1) k) \<noteq> []" if "k \<in> set (gHandleList (without_handle h ?H1))" for k
      using that ne d by (auto simp: without_handle_def)
    then show ?thesis using True inv0_without_handle[OF inv1 True h1] by (simp add: uninstalled_hand_def hand_inv_def)
  next
    case False
    then show ?thesis using ne inv1 by (auto simp: uninstalled_hand_def hand_inv_def)
  qed
  show "database (uninstalled_hand h p H) ?D = (database H D)(h := (database H D h)(g := None))"
    using database_without_handle[OF inv1 _ h1] db1 by (simp add: uninstalled_hand_def Let_def)
qed

lemma disconnect_passive:
  assumes cnt: "OpenListCount (interface_at s p) = of_nat (length (OpenList (interface_at s p)))"
    and pas: "\<forall>d\<in>set (OpenList (interface_at s p)). passive_open d" and n: "1 \<le> n"
  shows "CoreDisconnectControllersUsingProtocolInterface n notify Connect Disconnect h p s =
    Some (EFI_SUCCESS, s\<lparr>hand := with_open p [] (hand s)\<rparr>)"
proof -
  let ?l = "OpenList (interface_at s p)"
  obtain k where k: "n = Suc k" using n by (cases n) auto
  have "find (\<lambda>d. Attributes d AND EFI_OPEN_PROTOCOL_BY_DRIVER \<noteq> 0) ?l = None" using pas by (auto simp: find_None_iff' passive_open_def)
  then have loop: "DisconnectUsing_loop n n notify Disconnect h p s = Some (EFI_SUCCESS, s)" by (simp add: k)
  have f: "filter (\<lambda>d. Attributes d AND (EFI_OPEN_PROTOCOL_BY_HANDLE_PROTOCOL OR EFI_OPEN_PROTOCOL_GET_PROTOCOL OR EFI_OPEN_PROTOCOL_TEST_PROTOCOL) \<noteq> 0) ?l = ?l"
    "filter (\<lambda>d. \<not> Attributes d AND (EFI_OPEN_PROTOCOL_BY_HANDLE_PROTOCOL OR EFI_OPEN_PROTOCOL_GET_PROTOCOL OR EFI_OPEN_PROTOCOL_TEST_PROTOCOL) \<noteq> 0) ?l = []"
    using pas by (auto simp: filter_id_conv filter_empty_conv passive_open_def)
  show ?thesis
    unfolding CoreDisconnectControllersUsingProtocolInterface_def loop Option.bind.simps prod.case Let_def put_interface_def put_hand_def f
    using cnt by (simp add: with_open_def)
qed

lemma remove1_update: "Protocols_update (remove1 p) x = x\<lparr>Protocols := remove1 p (Protocols x)\<rparr>"
  by (cases x) simp

lemma uninstall_run:
  assumes s: "at_ease s" "db_inv s" and on: "on_handle s h g = Some p" "Interface (interface_at s p) = i"
    and pas: "\<forall>d\<in>set (OpenList (interface_at s p)). passive_open d" and n: "2 \<le> n"
  defines "a \<equiv> Protocol (interface_at s p)"
  shows "\<exists>t. CoreUninstallProtocolInterface n notify Connect Disconnect h (Some g) i s = Some (EFI_SUCCESS, t)
    \<and> view t = view (with_db (uninstalled_hand h p (hand s)) (map (delinked a p) (mProtocolDatabase s)) s) \<and> at_ease t \<and> locks_kept s t"
proof -
  have inv0: "db_inv0 s" by (rule db_inv_inv0[OF s(2)])
  note P = on_handle_Some[OF inv0 on(1)]
  let ?u = "acquired PL s"
  let ?H = "uninstalled_hand h p (hand s)" and ?D = "map (delinked a p) (mProtocolDatabase s)"
  let ?v = "?u\<lparr>hand := with_open p [] (hand s)\<rparr>"
  have val: "CoreValidateHandle h s = Some EFI_SUCCESS" using validate_handle[OF inv0] P(1) by simp
  have fi: "CoreFindProtocolInterface h g i ?u = Some p" using find_interface[of ?u h g i] inv0 P(1) on by simp
  have dis: "CoreDisconnectControllersUsingProtocolInterface n notify Connect Disconnect h p ?u = Some (EFI_SUCCESS, ?v)"
    using disconnect_passive[of ?u p n notify Connect Disconnect h] P(6) pas n by simp
  have "db_inv ?v" using inv_with_open[OF s(2)] by simp
  then have fv: "CoreFindProtocolInterface h g i ?v = Some p" using find_interface[of ?v h g i] P(1) on db_inv_inv0[of ?v] by simp
  have rm: "CoreRemoveInterfaceFromProtocol h g i ?v = Some (p, ?v\<lparr>mProtocolDatabase := ?D\<rparr>)"
    using fv P(4) by (simp add: CoreRemoveInterfaceFromProtocol_def ASSERT_LOCKED_def put_entry_def delinked_def[abs_def] a_def)
  obtain t where t: "CoreReleaseProtocolLock n notify (with_db ?H ?D ?u) = Some t" "view t = view (with_db ?H ?D s)" "locks_kept s t" "at_ease t"
    using release_ease[OF s(1) n] by blast
  have upd: "(let s = put_hand (\<lambda>d. d\<lparr>gHandleDatabaseKey := gHandleDatabaseKey d + 1\<rparr>) (?v\<lparr>mProtocolDatabase := ?D\<rparr>);
                  s = put_handle h (Key_update (\<lambda>_. gHandleDatabaseKey (hand s))) s;
                  s = put_handle h (Protocols_update (remove1 p)) s
              in (EFI_SUCCESS, put_interface p (InterfaceSignature_update (\<lambda>_. 0)) s)) =
      (EFI_SUCCESS, with_db (without_interface h p (with_open p [] (hand s))) ?D ?u)"
    by (simp add: put_handle_def put_interface_def put_hand_def without_interface_def remove1_update)
  have drop: "(if Protocols (handle_at (with_db (without_interface h p (with_open p [] (hand s))) ?D ?u) h) = []
       then put_hand (\<lambda>d. d\<lparr>gHandleList := remove1 h (gHandleList d)\<rparr>)
              (put_handle h (HandleSignature_update (\<lambda>_. 0)) (with_db (without_interface h p (with_open p [] (hand s))) ?D ?u))
       else with_db (without_interface h p (with_open p [] (hand s))) ?D ?u) = with_db ?H ?D ?u"
    by (simp add: put_handle_def put_hand_def uninstalled_hand_def without_handle_def Let_def)
  show ?thesis
    using t val fi dis rm P(4) on(2)
    by (intro exI[of _ t]) (simp only: CoreUninstallProtocolInterface_def option.case val Option.bind.simps EFI_ERROR_simps if_False
        acquire_ease[OF s(1)] fi dis rm prod.case upd simp_thms if_True, simp only: Let_def prod.case drop Option.bind.simps t(1) simp_thms)
qed

end
