(* ===== verification/Dxe_Locate.thy ===== *)
theory Dxe_Locate
  imports Dxe_HandleOps
begin

text \<open>
  Searching the handle database: the contract of the functions that CoreLocateHandle enumerates with, its interpretations on the search for all
  handles and for a protocol, and what CoreLocateHandle and CoreLocateProtocol answer.
\<close>

unbundle bit_operations_syntax

lemma len64: "LENGTH(64) = 64"
  by simp

section \<open>Enumerating handles\<close>

text \<open>
  The contract of a CORE_GET_NEXT function: \<open>rest\<close> are the handles it has still to return from a position, \<open>ok\<close> says that it may be called there
  and \<open>step\<close> is what it may do to the state.
\<close>

locale get_next =
  fixes GetNext :: "'w CORE_GET_NEXT" and rest :: "LOCATE_POSITION \<Rightarrow> 'w DXE \<Rightarrow> EFI_HANDLE list"
    and ok :: "LOCATE_POSITION \<Rightarrow> 'w DXE \<Rightarrow> bool" and step :: "'w DXE \<Rightarrow> 'w DXE \<Rightarrow> bool"
  assumes at_end: "ok pos s \<Longrightarrow> rest pos s = [] \<Longrightarrow> \<exists>i pos'. GetNext pos s = Some (0, i, pos', s)"
    and at_handle: "ok pos s \<Longrightarrow> rest pos s = h # hs \<Longrightarrow>
      \<exists>i pos' t. GetNext pos s = Some (h, i, pos', t) \<and> h \<noteq> 0 \<and> ok pos' t \<and> rest pos' t = hs \<and> step s t"
    and step_refl: "step s s" and step_trans: "step s t \<Longrightarrow> step t u \<Longrightarrow> step s u"
begin

lemma enumerate:
  assumes "ok pos s" "length (rest pos s) < k" "8 * (length found + length (rest pos s)) < 2 ^ 64"
  shows "\<exists>t. LocateHandle_loop k GetNext sz pos (of_nat (8 * length found)) (take (unat sz div 8) found) s =
      Some (of_nat (8 * (length found + length (rest pos s))), take (unat sz div 8) (found @ rest pos s), t) \<and> step s t"
  using assms
proof (induction k arbitrary: pos s found)
  case (Suc k)
  show ?case
  proof (cases "rest pos s")
    case Nil
    then show ?thesis using at_end[OF Suc.prems(1)] step_refl by fastforce
  next
    case (Cons h hs)
    obtain i pos' t where t: "GetNext pos s = Some (h, i, pos', t)" "h \<noteq> 0" "ok pos' t" "rest pos' t = hs" "step s t"
      using at_handle[OF Suc.prems(1) Cons] by blast
    let ?d = "found @ [h]"
    have size: "of_nat (8 * length found) + 8 = (of_nat (8 * length ?d) :: UINTN)" by simp
    have "8 * length ?d < 2 ^ 64" using Suc.prems(3) Cons by simp
    then have "unat (of_nat (8 * length ?d) :: UINTN) = 8 * length ?d"
      by (simp only: unsigned_of_nat take_bit_nat_eq_self len64 of_nat_id)
    then have fits: "of_nat (8 * length ?d) \<le> sz \<longleftrightarrow> length ?d \<le> unat sz div 8" by (simp only: word_le_nat_alt) linarith
    have buf: "(if of_nat (8 * length ?d) \<le> sz then take (unat sz div 8) found @ [h] else take (unat sz div 8) found) = take (unat sz div 8) ?d"
      unfolding fits by auto
    obtain u where u: "LocateHandle_loop k GetNext sz pos' (of_nat (8 * length ?d)) (take (unat sz div 8) ?d) t =
        Some (of_nat (8 * (length ?d + length (rest pos' t))), take (unat sz div 8) (?d @ rest pos' t), u)" "step t u"
      using Suc.IH[OF t(3), of ?d] Suc.prems(2,3) t(4) Cons by auto
    have "LocateHandle_loop (Suc k) GetNext sz pos (of_nat (8 * length found)) (take (unat sz div 8) found) s =
        LocateHandle_loop k GetNext sz pos' (of_nat (8 * length ?d)) (take (unat sz div 8) ?d) t"
      using t(1,2) unfolding LocateHandle_loop.simps t(1) Option.bind.simps prod.case Let_def size buf by (simp only: if_False)
    then show ?thesis using u step_trans[OF t(5) u(2)] t(4) Cons by auto
  qed
qed simp

lemma enumerate_all:
  assumes "ok pos s" "length (rest pos s) < k" "8 * length (rest pos s) < 2 ^ 64"
  shows "\<exists>t. LocateHandle_loop k GetNext sz pos 0 [] s =
      Some (of_nat (8 * length (rest pos s)), take (unat sz div 8) (rest pos s), t) \<and> step s t"
  using enumerate[where found = "[]", OF assms(1,2)] assms(3) by simp

end

text \<open>What enumerating changes: the request marks of handles.\<close>

definition only_requests :: "'w DXE \<Rightarrow> 'w DXE \<Rightarrow> bool" where
  "only_requests s t \<longleftrightarrow> t = s\<lparr>hand := hand t\<rparr> \<and> gHandleList (hand t) = gHandleList (hand s) \<and> interface (hand t) = interface (hand s)
     \<and> gHandleDatabaseKey (hand t) = gHandleDatabaseKey (hand s) \<and> mEfiLocateHandleRequest (hand t) = mEfiLocateHandleRequest (hand s)
     \<and> gDxeCoreImageHandle (hand t) = gDxeCoreImageHandle (hand s)
     \<and> (\<forall>h. HandleSignature (handle_at t h) = HandleSignature (handle_at s h) \<and> Protocols (handle_at t h) = Protocols (handle_at s h)
          \<and> Key (handle_at t h) = Key (handle_at s h)
          \<and> (LocateRequest (handle_at t h) = LocateRequest (handle_at s h) \<or> LocateRequest (handle_at t h) = mEfiLocateHandleRequest (hand s)))"

lemma only_requests_refl: "only_requests s s"
  by (simp add: only_requests_def)

lemma only_requests_trans:
  assumes "only_requests s t" "only_requests t u"
  shows "only_requests s u"
proof -
  have "u = s\<lparr>hand := hand u\<rparr>"
  proof -
    have "t = s\<lparr>hand := hand t\<rparr>" "u = t\<lparr>hand := hand u\<rparr>" using assms by (simp_all add: only_requests_def)
    then show ?thesis by (metis DXE.surjective DXE.update_convs(13))
  qed
  then show ?thesis using assms unfolding only_requests_def by metis
qed

lemma only_requests_db:
  assumes "only_requests s t"
  shows "mProtocolDatabase t = mProtocolDatabase s" "db_inv0 s \<Longrightarrow> db_inv0 t" "db_inv s \<Longrightarrow> db_inv t" "on_handle t = on_handle s"
    "database (hand t) (mProtocolDatabase t) = database (hand s) (mProtocolDatabase s)"
proof -
  have "mProtocolDatabase t = mProtocolDatabase (s\<lparr>hand := hand t\<rparr>)" using assms unfolding only_requests_def by metis
  then show db: "mProtocolDatabase t = mProtocolDatabase s" by simp
  have f: "gHandleList (hand t) = gHandleList (hand s)" "interface (hand t) = interface (hand s)"
    "HandleSignature (handle_at t h) = HandleSignature (handle_at s h)" "Protocols (handle_at t h) = Protocols (handle_at s h)"
    "LocateRequest (handle_at t h) = LocateRequest (handle_at s h) \<or> LocateRequest (handle_at t h) = mEfiLocateHandleRequest (hand t)"
    "mEfiLocateHandleRequest (hand t) = mEfiLocateHandleRequest (hand s)" for h
    using assms by (simp_all add: only_requests_def)
  have hi: "handles_inv (hand t)" if "handles_inv (hand s)"
    using that f(5) unfolding handles_inv_def f(1,2,3,4) by (metis f(6) order_refl)
  show inv0: "db_inv0 t" if "db_inv0 s" using that hi by (simp add: hand_inv0_def links_inv_def f db)
  show "db_inv t" if "db_inv s" using that inv0 by (simp add: hand_inv_def f)
  show on: "on_handle t = on_handle s" by (simp add: protocol_on_def fun_eq_iff f db)
  show "database (hand t) (mProtocolDatabase t) = database (hand s) (mProtocolDatabase s)"
    unfolding database_def on by (simp add: f)
qed

lemma links_after_step:
  assumes "distinct xs" "links_after pos xs = Some (y # ys)"
  shows "links_after (Some y) xs = Some ys" "y \<in> set xs" "set ys \<subseteq> set xs" "distinct (y # ys)"
proof -
  obtain zs where zs: "xs = zs @ y # ys"
  proof (cases pos)
    case None
    then show thesis using assms(2) that[of "[]"] by (simp add: links_after_def)
  next
    case (Some p)
    then have p: "p \<in> set xs" "tl (dropWhile (\<lambda>x. x \<noteq> p) xs) = y # ys" using assms(2) by (auto simp: links_after_def split: if_splits)
    then obtain c where "dropWhile (\<lambda>x. x \<noteq> p) xs = c # y # ys" by (cases "dropWhile (\<lambda>x. x \<noteq> p) xs") auto
    then show thesis using that[of "takeWhile (\<lambda>x. x \<noteq> p) xs @ [c]"] by (metis append.assoc append_Cons append_Nil takeWhile_dropWhile_id)
  qed
  then have "y \<notin> set zs" using assms(1) by auto
  then have "dropWhile (\<lambda>x. x \<noteq> y) (zs @ y # ys) = y # ys" by (subst dropWhile_append2) auto
  then show "links_after (Some y) xs = Some ys" "y \<in> set xs" "set ys \<subseteq> set xs" "distinct (y # ys)"
    using zs assms(1) by (auto simp: links_after_def)
qed

definition all_rest :: "LOCATE_POSITION \<Rightarrow> 'w DXE \<Rightarrow> EFI_HANDLE list" where
  "all_rest pos s = (case links_after (Reached pos) (gHandleList (hand s)) of Some l \<Rightarrow> l | None \<Rightarrow> [])"

definition all_ok :: "LOCATE_POSITION \<Rightarrow> 'w DXE \<Rightarrow> bool" where
  "all_ok pos s \<longleftrightarrow> db_inv0 s \<and> links_after (Reached pos) (gHandleList (hand s)) \<noteq> None"

interpretation all_handles: get_next CoreGetNextLocateAllHandles all_rest all_ok only_requests
proof
  fix pos :: LOCATE_POSITION and s :: "'a DXE"
  assume ok: "all_ok pos s" and r: "all_rest pos s = []"
  then have "links_after (Reached pos) (gHandleList (hand s)) = Some []" by (auto simp: all_ok_def all_rest_def)
  then show "\<exists>i pos'. CoreGetNextLocateAllHandles pos s = Some (0, i, pos', s)" by (simp add: CoreGetNextLocateAllHandles_def)
next
  fix pos :: LOCATE_POSITION and s :: "'a DXE" and h hs
  assume ok: "all_ok pos s" and r: "all_rest pos s = h # hs"
  then have l: "links_after (Reached pos) (gHandleList (hand s)) = Some (h # hs)" by (auto simp: all_ok_def all_rest_def)
  have hi: "handles_inv (hand s)" using ok by (simp add: all_ok_def hand_inv0_def)
  have "distinct (gHandleList (hand s))" using hi by (simp add: handles_inv_def)
  note st = links_after_step[OF this l]
  show "\<exists>i pos' t. CoreGetNextLocateAllHandles pos s = Some (h, i, pos', t) \<and> h \<noteq> 0 \<and> all_ok pos' t \<and> all_rest pos' t = hs \<and> only_requests s t"
    using st l ok handles_invD[OF hi st(2)]
    by (simp add: CoreGetNextLocateAllHandles_def all_ok_def all_rest_def only_requests_refl)
qed (simp add: only_requests_refl, blast intro: only_requests_trans)

definition protocol_rest :: "LOCATE_POSITION \<Rightarrow> 'w DXE \<Rightarrow> EFI_HANDLE list" where
  "protocol_rest pos s =
     (case entry_at s (PosEntry pos) of
        None \<Rightarrow> []
      | Some e \<Rightarrow> (case links_after (Reached pos) (EntryProtocols e) of Some l \<Rightarrow> map (\<lambda>p. OnHandle (interface_at s p)) l | None \<Rightarrow> []))"

definition protocol_ok :: "LOCATE_POSITION \<Rightarrow> 'w DXE \<Rightarrow> bool" where
  "protocol_ok pos s \<longleftrightarrow> db_inv0 s \<and>
     (\<exists>e l. entry_at s (PosEntry pos) = Some e \<and> links_after (Reached pos) (EntryProtocols e) = Some l
        \<and> (\<forall>p\<in>set l. p \<in> set (EntryProtocols e) \<and> LocateRequest (handle_at s (OnHandle (interface_at s p))) \<noteq> mEfiLocateHandleRequest (hand s)))"

lemma entry_at_in: "entry_at s a = Some e \<Longrightarrow> e \<in> set (mProtocolDatabase s) \<and> EntryAddress e = a"
  by (auto simp: entry_at_def dest!: find_SomeD)

lemma same_protocol_handle:
  assumes inv: "db_inv0 s" and e: "e \<in> set (mProtocolDatabase s)" and p: "p \<in> set (EntryProtocols e)" "q \<in> set (EntryProtocols e)"
    and h: "OnHandle (interface_at s p) = OnHandle (interface_at s q)"
  shows "p = q"
proof -
  have li: "links_inv (hand s) (mProtocolDatabase s)" and hi: "handles_inv (hand s)" using inv by (simp_all add: hand_inv0_def)
  have i: "installed_in (mProtocolDatabase s) p" "installed_in (mProtocolDatabase s) q" using e p by (auto simp: installed_in_def)
  have hl: "OnHandle (interface_at s q) \<in> set (gHandleList (hand s))" using links_invD(3)[OF li i(2)] .
  have m: "p \<in> set (Protocols (handle_at s (OnHandle (interface_at s q))))" "q \<in> set (Protocols (handle_at s (OnHandle (interface_at s q))))"
    using links_inv_handle[OF li hl] i h by simp_all
  show ?thesis using inj_onD[OF handles_invD(4)[OF hi hl] _ m] links_inv_entry[OF li e] p by simp
qed

lemma next_by_protocol:
  assumes ok: "protocol_ok pos s" and r: "protocol_rest pos s = h # hs"
  shows "\<exists>p pos' t. CoreGetNextLocateByProtocol pos s = Some (h, Interface (interface_at s p), pos', t) \<and> h \<noteq> 0 \<and> protocol_ok pos' t
    \<and> protocol_rest pos' t = hs \<and> only_requests s t
    \<and> (\<exists>e l. entry_at s (PosEntry pos) = Some e \<and> links_after (Reached pos) (EntryProtocols e) = Some (p # l)) \<and> OnHandle (interface_at s p) = h"
proof -
  have inv: "db_inv0 s" using ok by (simp add: protocol_ok_def)
  obtain e l' where e: "entry_at s (PosEntry pos) = Some e" "links_after (Reached pos) (EntryProtocols e) = Some l'"
    "\<forall>p\<in>set l'. p \<in> set (EntryProtocols e) \<and> LocateRequest (handle_at s (OnHandle (interface_at s p))) \<noteq> mEfiLocateHandleRequest (hand s)"
    using ok by (auto simp: protocol_ok_def)
  have "map (\<lambda>p. OnHandle (interface_at s p)) l' = h # hs" using r e by (simp add: protocol_rest_def)
  then obtain p l where l': "l' = p # l" "h = OnHandle (interface_at s p)" "hs = map (\<lambda>p. OnHandle (interface_at s p)) l" by (cases l') auto
  have ein: "e \<in> set (mProtocolDatabase s)" using entry_at_in[OF e(1)] by simp
  have de: "distinct (EntryProtocols e)" using inv ein by (simp add: hand_inv0_def entries_inv_def)
  note st = links_after_step[OF de e(2)[unfolded l'(1)]]
  have li: "links_inv (hand s) (mProtocolDatabase s)" and hi: "handles_inv (hand s)" using inv by (simp_all add: hand_inv0_def)
  have ip: "installed_in (mProtocolDatabase s) p" using ein st(2) by (auto simp: installed_in_def)
  let ?t = "put_handle h (LocateRequest_update (\<lambda>_. mEfiLocateHandleRequest (hand s))) s"
  have h0: "h \<noteq> 0" using handles_invD(1)[OF hi links_invD(3)[OF li ip]] l'(2) by simp
  have loop: "GetNextLocateByProtocol_loop 0 (p # l) s = Some (h, Interface (interface_at s p), Some p, ?t)"
    using links_invD(2)[OF li ip] e(3) l'(1,2) by (simp add: Let_def)
  have get: "CoreGetNextLocateByProtocol pos s = Some (h, Interface (interface_at s p), pos\<lparr>Reached := Some p\<rparr>, ?t)"
    unfolding CoreGetNextLocateByProtocol_def e(1,2) Option.bind.simps l'(1) loop by simp
  have only: "only_requests s ?t" by (simp add: only_requests_def put_handle_def put_hand_def)
  have et: "entry_at ?t a = entry_at s a" for a by (simp add: entry_at_def put_handle_def)
  have it: "interface (hand ?t) = interface (hand s)" by (simp add: put_handle_def put_hand_def)
  have other: "LocateRequest (handle_at ?t (OnHandle (interface_at s q))) \<noteq> mEfiLocateHandleRequest (hand ?t)" if "q \<in> set l" for q
  proof -
    have "q \<noteq> p" using st(4) that by auto
    then have "OnHandle (interface_at s q) \<noteq> h"
      using same_protocol_handle[OF inv ein _ st(2), of q] st(3) that l'(2) by blast
    then show ?thesis using e(3) l'(1) that by (simp add: put_handle_def put_hand_def)
  qed
  have "protocol_ok (pos\<lparr>Reached := Some p\<rparr>) ?t"
    unfolding protocol_ok_def using only_requests_db(2)[OF only inv] e(1) st(1,3) other by (auto simp: et it)
  moreover have "protocol_rest (pos\<lparr>Reached := Some p\<rparr>) ?t = hs" using e(1) st(1) l'(3) by (simp add: protocol_rest_def et it)
  ultimately show ?thesis using get h0 only e l'(1,2) by blast
qed

interpretation by_protocol: get_next CoreGetNextLocateByProtocol protocol_rest protocol_ok only_requests
proof
  fix pos :: LOCATE_POSITION and s :: "'a DXE"
  assume ok: "protocol_ok pos s" and r: "protocol_rest pos s = []"
  obtain e l where e: "entry_at s (PosEntry pos) = Some e" "links_after (Reached pos) (EntryProtocols e) = Some l"
    using ok by (auto simp: protocol_ok_def)
  then have "l = []" using r by (simp add: protocol_rest_def)
  then show "\<exists>i pos'. CoreGetNextLocateByProtocol pos s = Some (0, i, pos', s)" using e by (simp add: CoreGetNextLocateByProtocol_def)
next
  fix pos :: LOCATE_POSITION and s :: "'a DXE" and h hs
  assume "protocol_ok pos s" and "protocol_rest pos s = h # hs"
  then show "\<exists>i pos' t. CoreGetNextLocateByProtocol pos s = Some (h, i, pos', t) \<and> h \<noteq> 0 \<and> protocol_ok pos' t \<and> protocol_rest pos' t = hs \<and> only_requests s t"
    using next_by_protocol by blast
qed (simp add: only_requests_refl, blast intro: only_requests_trans)

section \<open>Locating\<close>

definition handles_with :: "'w DXE \<Rightarrow> EFI_GUID \<Rightarrow> EFI_HANDLE list" where
  "handles_with s g =
     (case find (\<lambda>e. ProtocolID e = g) (mProtocolDatabase s) of
        None \<Rightarrow> [] | Some e \<Rightarrow> map (\<lambda>p. OnHandle (interface_at s p)) (EntryProtocols e))"

abbreviation protocols :: "'w DXE \<Rightarrow> EFI_HANDLE \<Rightarrow> EFI_GUID \<Rightarrow> PTR option" where
  "protocols s \<equiv> database (hand s) (mProtocolDatabase s)"

lemma on_handle_iff:
  assumes "db_inv0 s"
  shows "on_handle s h g = Some p \<longleftrightarrow>
    (\<exists>e\<in>set (mProtocolDatabase s). ProtocolID e = g \<and> p \<in> set (EntryProtocols e) \<and> OnHandle (interface_at s p) = h)"
proof -
  have ei: "entries_inv (mProtocolDatabase s)" and li: "links_inv (hand s) (mProtocolDatabase s)" and hi: "handles_inv (hand s)"
    using assms by (simp_all add: hand_inv0_def)
  show ?thesis
  proof
    assume on: "on_handle s h g = Some p"
    note P = on_handle_Some[OF assms on]
    obtain e where e: "e \<in> set (mProtocolDatabase s)" "p \<in> set (EntryProtocols e)" using P(3) by (auto simp: installed_in_def)
    have "protocol_of (mProtocolDatabase s) (EntryAddress e) = Some g" using P(5) links_inv_entry[OF li e] by simp
    then have "ProtocolID e = g" using protocol_of_entry[OF ei e(1)] by simp
    then show "\<exists>e\<in>set (mProtocolDatabase s). ProtocolID e = g \<and> p \<in> set (EntryProtocols e) \<and> OnHandle (interface_at s p) = h"
      using e protocols_installed(2)[OF assms P(1,2)] by blast
  next
    assume "\<exists>e\<in>set (mProtocolDatabase s). ProtocolID e = g \<and> p \<in> set (EntryProtocols e) \<and> OnHandle (interface_at s p) = h"
    then obtain e where e: "e \<in> set (mProtocolDatabase s)" "ProtocolID e = g" "p \<in> set (EntryProtocols e)" "OnHandle (interface_at s p) = h" by blast
    then have ip: "installed_in (mProtocolDatabase s) p" by (auto simp: installed_in_def)
    have h: "h \<in> set (gHandleList (hand s))" using links_invD(3)[OF li ip] e(4) by simp
    have pm: "p \<in> set (Protocols (handle_at s h))" using links_inv_handle[OF li h] ip e(4) by simp
    have g: "protocol_of (mProtocolDatabase s) (Protocol (interface_at s p)) = Some g"
      using protocol_of_entry[OF ei e(1)] links_inv_entry[OF li e(1,3)] e(2) by simp
    have u: "q = p" if "q \<in> set (Protocols (handle_at s h))" "protocol_of (mProtocolDatabase s) (Protocol (interface_at s q)) = Some g" for q
      using inj_onD[OF handles_invD(4)[OF hi h] _ that(1) pm] that(2) g protocol_of_iff[OF ei] by simp
    show "on_handle s h g = Some p" unfolding protocol_on_def if_P[OF h] by (rule find_unique) (simp_all add: pm g u)
  qed
qed

text \<open>The handles of a protocol are those that have it in the abstract database, each once.\<close>

lemma handles_with_exact:
  assumes "db_inv0 s"
  shows "distinct (handles_with s g)" "h \<in> set (handles_with s g) \<longleftrightarrow> protocols s h g \<noteq> None"
proof -
  have D: "distinct (map ProtocolID (mProtocolDatabase s))" using assms by (simp add: hand_inv0_def entries_inv_def)
  have one: "h \<in> set (handles_with s g) \<longleftrightarrow>
      (\<exists>e\<in>set (mProtocolDatabase s). ProtocolID e = g \<and> (\<exists>p\<in>set (EntryProtocols e). OnHandle (interface_at s p) = h))"
  proof (cases "find (\<lambda>e. ProtocolID e = g) (mProtocolDatabase s)")
    case None
    then have "\<forall>e\<in>set (mProtocolDatabase s). ProtocolID e \<noteq> g" by (simp add: find_None_iff')
    then show ?thesis by (simp add: handles_with_def None)
  next
    case (Some e)
    have "d = e" if "d \<in> set (mProtocolDatabase s)" "ProtocolID d = g" for d
      using find_key[OF D that(1)] that(2) Some by simp
    then show ?thesis using Some find_SomeD[OF Some] by (auto simp: handles_with_def)
  qed
  show "h \<in> set (handles_with s g) \<longleftrightarrow> protocols s h g \<noteq> None"
    unfolding one database_def using on_handle_iff[OF assms, of h g] by (auto simp: option.map_disc_iff)
  show "distinct (handles_with s g)"
  proof (cases "find (\<lambda>e. ProtocolID e = g) (mProtocolDatabase s)")
    case (Some e)
    have e: "e \<in> set (mProtocolDatabase s)" using find_SomeD[OF Some] by simp
    then have "distinct (EntryProtocols e)" using assms by (simp add: hand_inv0_def entries_inv_def)
    then show ?thesis using same_protocol_handle[OF assms e] by (auto simp: handles_with_def Some distinct_map inj_on_def)
  qed (simp add: handles_with_def)
qed

text \<open>A new request marks no handle yet.\<close>

definition requested :: "HAND \<Rightarrow> HAND" where
  "requested H = H\<lparr>mEfiLocateHandleRequest := mEfiLocateHandleRequest H + 1\<rparr>"

lemma inv_requested:
  assumes "hand_inv H D" "mEfiLocateHandleRequest H \<noteq> - 1"
  shows "hand_inv (requested H) D" "h \<in> set (gHandleList H) \<Longrightarrow> LocateRequest (ihandle H h) \<noteq> mEfiLocateHandleRequest H + 1"
    "database (requested H) D = database H D" "protocol_on (requested H) D = protocol_on H D"
proof -
  have le: "mEfiLocateHandleRequest H < mEfiLocateHandleRequest H + 1" using assms(2) by (simp add: less_succ_word)
  show "hand_inv (requested H) D"
    using assms(1) le by (auto simp: hand_inv_def hand_inv0_def handles_inv_def links_inv_def requested_def)
  show "LocateRequest (ihandle H h) \<noteq> mEfiLocateHandleRequest H + 1" if "h \<in> set (gHandleList H)"
    using assms(1) that le by (auto simp: hand_inv_def hand_inv0_def handles_inv_def)
  show "protocol_on (requested H) D = protocol_on H D" by (simp add: protocol_on_def requested_def fun_eq_iff)
  then show "database (requested H) D = database H D" by (simp add: database_def requested_def fun_eq_iff)
qed

abbreviation requested_state :: "'w DXE \<Rightarrow> 'w DXE" where
  "requested_state s \<equiv> put_hand (\<lambda>d. d\<lparr>mEfiLocateHandleRequest := mEfiLocateHandleRequest d + 1\<rparr>) (acquired PL s)"

lemma requested_state_hand: "hand (requested_state s) = requested (hand s)"
  by (simp add: requested_def)

text \<open>What a search leaves behind, whatever it answers.\<close>

definition searched :: "'w DXE \<Rightarrow> 'w DXE \<Rightarrow> bool" where
  "searched s t \<longleftrightarrow> at_ease t \<and> db_inv t \<and> protocols t = protocols s \<and> gHandleList (hand t) = gHandleList (hand s) \<and> locks_kept s t
     \<and> same_functions s t \<and> gEfiCurrentTpl t = gEfiCurrentTpl s \<and> mProtocolDatabase t = mProtocolDatabase s
     \<and> interface (hand t) = interface (hand s)
     \<and> mEfiLocateHandleRequest (hand t) \<in> {mEfiLocateHandleRequest (hand s), mEfiLocateHandleRequest (hand s) + 1}"

lemma search_released:
  assumes s: "at_ease s" "db_inv s" and r: "mEfiLocateHandleRequest (hand s) \<noteq> - 1" and n: "2 \<le> n"
    and u: "only_requests (requested_state s) u"
  shows "\<exists>t. CoreReleaseProtocolLock n notify u = Some t \<and> searched s t"
proof -
  note R = inv_requested[OF s(2) r]
  have u1: "u = with_db (hand u) (mProtocolDatabase s) (acquired PL s)"
  proof -
    have "u = (requested_state s)\<lparr>hand := hand u\<rparr>" using u unfolding only_requests_def by (elim conjE)
    also have "\<dots> = with_db (hand u) (mProtocolDatabase s) (acquired PL s)" by (rule DXE.equality) (simp_all add: put_hand_def)
    finally show ?thesis .
  qed
  obtain t where t: "CoreReleaseProtocolLock n notify (with_db (hand u) (mProtocolDatabase s) (acquired PL s)) = Some t"
    "view t = view (with_db (hand u) (mProtocolDatabase s) s)" "locks_kept s t" "at_ease t"
    using release_ease[OF s(1) n] by blast
  have db: "hand t = hand u" "mProtocolDatabase t = mProtocolDatabase s" using view_hand[OF t(2)] by simp_all
  have mu: "mProtocolDatabase u = mProtocolDatabase s" using only_requests_db(1)[OF u] by simp
  have "db_inv (requested_state s)" using R(1) by (simp add: requested_def)
  then have "db_inv u" by (rule only_requests_db(3)[OF u])
  moreover have "protocols u = protocols s" using only_requests_db(5)[OF u] R(3) by (simp add: requested_def)
  moreover have "gHandleList (hand u) = gHandleList (hand s)" "interface (hand u) = interface (hand s)"
    "mEfiLocateHandleRequest (hand u) = mEfiLocateHandleRequest (hand s) + 1" using u by (simp_all add: only_requests_def)
  ultimately have "searched s t" using t db mu view_eqD(1,4)[OF t(2)] by (simp add: searched_def same_functions_def)
  then show ?thesis using t(1) u1 by metis
qed

lemma unchanged_released:
  assumes s: "at_ease s" "db_inv s" and n: "2 \<le> n"
  shows "\<exists>t. CoreReleaseProtocolLock n notify (acquired PL s) = Some t \<and> searched s t"
proof -
  have same: "with_db (hand s) (mProtocolDatabase s) u = u" if "hand u = hand s" "mProtocolDatabase u = mProtocolDatabase s" for u
    using that by (intro DXE.equality) simp_all
  obtain t where t: "CoreReleaseProtocolLock n notify (acquired PL s) = Some t" "view t = view s" "locks_kept s t" "at_ease t"
    using release_ease[OF s(1) n, where H = "hand s" and D = "mProtocolDatabase s"] by (simp add: same) blast
  then show ?thesis using view_hand[OF t(2)] view_eqD(1,4)[OF t(2)] s(2) by (simp add: searched_def same_functions_def)
qed

text \<open>The answer to a caller whose buffer has \<open>sz\<close> bytes when the handles \<open>hs\<close> are found.\<close>

definition locate_answer :: "EFI_HANDLE list \<Rightarrow> UINTN \<Rightarrow> EFI_STATUS \<times> UINTN \<times> EFI_HANDLE list" where
  "locate_answer hs sz =
     (if hs = [] then (EFI_NOT_FOUND, sz, [])
      else if unat sz < 8 * length hs then (EFI_BUFFER_TOO_SMALL, of_nat (8 * length hs), take (unat sz div 8) hs)
      else (EFI_SUCCESS, of_nat (8 * length hs), hs))"

definition located :: "UINT32 \<Rightarrow> EFI_GUID \<Rightarrow> 'w DXE \<Rightarrow> EFI_HANDLE list" where
  "located SearchType g s = (if SearchType = AllHandles then gHandleList (hand s) else handles_with s g)"

lemma located_bound:
  assumes "db_inv0 s"
  shows "distinct (located st g s)" "set (located st g s) \<subseteq> set (gHandleList (hand s))" "length (located st g s) \<le> length (gHandleList (hand s))"
proof -
  have d: "distinct (gHandleList (hand s))" using assms by (simp add: hand_inv0_def handles_inv_def)
  then show D: "distinct (located st g s)" using handles_with_exact(1)[OF assms] by (simp add: located_def)
  have "h \<in> set (gHandleList (hand s))" if "h \<in> set (handles_with s g)" for h
    using handles_with_exact(2)[OF assms, of h g] that by (auto simp: database_def protocol_on_def split: if_splits)
  then show S: "set (located st g s) \<subseteq> set (gHandleList (hand s))" by (auto simp: located_def)
  show "length (located st g s) \<le> length (gHandleList (hand s))"
    using card_mono[OF _ S] distinct_card[OF D] distinct_card[OF d] by simp
qed

lemma unat_size: "8 * k < 2 ^ 64 \<Longrightarrow> unat (of_nat (8 * k) :: UINTN) = 8 * k"
  by (simp only: unsigned_of_nat take_bit_nat_eq_self len64 of_nat_id)

lemma start_by_protocol:
  assumes s: "db_inv s" and r: "mEfiLocateHandleRequest (hand s) \<noteq> - 1"
    and f: "find (\<lambda>e. ProtocolID e = g) (mProtocolDatabase s) = Some e" and pos: "Reached pos = None" "PosEntry pos = EntryAddress e"
  shows "protocol_ok pos (requested_state s)" "protocol_rest pos (requested_state s) = handles_with s g"
proof -
  note R = inv_requested[OF s r]
  have inv: "db_inv0 s" by (rule db_inv_inv0[OF s])
  have e: "e \<in> set (mProtocolDatabase s)" using find_SomeD[OF f] by simp
  have "distinct (map EntryAddress (mProtocolDatabase s))" using inv by (simp add: hand_inv0_def entries_inv_def)
  then have ea: "entry_at (requested_state s) (EntryAddress e) = Some e" using e by (simp add: entry_at_def find_key)
  have "LocateRequest (handle_at s (OnHandle (interface_at s p))) \<noteq> mEfiLocateHandleRequest (hand s) + 1" if "p \<in> set (EntryProtocols e)" for p
    using R(2) links_invD(3)[of "hand s" "mProtocolDatabase s" p] inv e that by (auto simp: hand_inv0_def installed_in_def)
  moreover have "db_inv0 (requested_state s)" using db_inv_inv0[of "requested_state s"] R(1) by (simp add: requested_def)
  ultimately show "protocol_ok pos (requested_state s)" using ea pos by (simp add: protocol_ok_def links_after_def)
  show "protocol_rest pos (requested_state s) = handles_with s g" using ea pos f by (simp add: protocol_rest_def handles_with_def links_after_def)
qed

text \<open>The section of CoreLocateHandle from the request on, for a search that finds the handles \<open>hs\<close>.\<close>

lemma locate_tail:
  assumes s: "at_ease s" "db_inv s" and r: "mEfiLocateHandleRequest (hand s) \<noteq> - 1" and n: "2 \<le> n" and len: "8 * length hs < 2 ^ 64"
    and loop: "\<exists>u. LocateHandle_loop n GetNext sz pos 0 [] (requested_state s) = Some (of_nat (8 * length hs), take (unat sz div 8) hs, u)
      \<and> only_requests (requested_state s) u" and st: "st \<noteq> ByRegisterNotify"
  shows "\<exists>t. do {
            (ResultSize, ResultBuffer, s) \<leftarrow> LocateHandle_loop n GetNext sz pos 0 [] (requested_state s);
            (Status, BufferSize, s) \<leftarrow>
              (if ResultSize = 0 then Some (EFI_NOT_FOUND, Some sz, s)
               else if ResultSize > sz then Some (EFI_BUFFER_TOO_SMALL, Some ResultSize, s)
               else do {
                 s \<leftarrow> (if st = ByRegisterNotify then advance_notify SKey s else Some s);
                 Some (EFI_SUCCESS, Some ResultSize, s)
               });
            s \<leftarrow> CoreReleaseProtocolLock n notify s;
            Some (Status, BufferSize, ResultBuffer, s)
          } = (case locate_answer hs sz of (status, size', buf) \<Rightarrow> Some (status, Some size', buf, t)) \<and> searched s t"
proof -
  obtain u where u: "LocateHandle_loop n GetNext sz pos 0 [] (requested_state s) = Some (of_nat (8 * length hs), take (unat sz div 8) hs, u)"
    "only_requests (requested_state s) u" using loop by blast
  obtain t where t: "CoreReleaseProtocolLock n notify u = Some t" "searched s t" using search_released[OF s r n u(2)] by blast
  have z: "(of_nat (8 * length hs) :: UINTN) = 0 \<longleftrightarrow> hs = []"
    using unat_size[OF len] by (metis length_0_conv mult_eq_0_iff unat_eq_zero zero_neq_numeral)
  have big: "sz < of_nat (8 * length hs) \<longleftrightarrow> unat sz < 8 * length hs" using unat_size[OF len] by (simp only: word_less_nat_alt)
  show ?thesis
    unfolding u(1) Option.bind.simps prod.case z big using t st by (auto simp: locate_answer_def)
qed

lemma locate_handle_run:
  assumes s: "at_ease s" "db_inv s" and r: "mEfiLocateHandleRequest (hand s) \<noteq> - 1"
    and n: "2 \<le> n" "length (gHandleList (hand s)) < n" and len: "8 * length (gHandleList (hand s)) < 2 ^ 64"
    and st: "st = AllHandles \<or> st = ByProtocol" and buf: "sz = 0 \<or> given"
  shows "\<exists>t. CoreLocateHandle n notify st (Some g) SKey (Some sz) given s =
      (case locate_answer (located st g s) sz of (status, size', buf) \<Rightarrow> Some (status, Some size', buf, t)) \<and> searched s t"
proof -
  have inv: "db_inv0 s" by (rule db_inv_inv0[OF s(2)])
  have small: "length (located st g s) < n" "8 * length (located st g s) < 2 ^ 64"
    using located_bound(3)[OF inv, of st g] n(2) len by linarith+
  have noerr: "\<not> (sz > 0 \<and> \<not> given)" using buf by auto
  let ?pos = "\<lparr>SearchKey = SKey, Reached = None, PosEntry = 0\<rparr>"
  show ?thesis
  proof (cases "st = AllHandles")
    case True
    have ok: "all_ok ?pos (requested_state s)"
      using db_inv_inv0[of "requested_state s"] inv_requested(1)[OF s(2) r] by (simp add: all_ok_def links_after_def requested_def)
    have rest: "all_rest ?pos (requested_state s) = located st g s" using True by (simp add: all_rest_def links_after_def located_def)
    have "\<exists>u. LocateHandle_loop n CoreGetNextLocateAllHandles sz ?pos 0 [] (requested_state s) =
        Some (of_nat (8 * length (located st g s)), take (unat sz div 8) (located st g s), u) \<and> only_requests (requested_state s) u"
      using all_handles.enumerate_all[OF ok] small unfolding rest by blast
    note tail = locate_tail[OF s r n(1) small(2) this, of st SKey notify]
    show ?thesis
      using tail True unfolding CoreLocateHandle_def option.case if_not_P[OF noerr] acquire_ease[OF s(1)] Option.bind.simps Let_def by simp
  next
    case False
    then have p: "st = ByProtocol" using st by simp
    show ?thesis
    proof (cases "find (\<lambda>e. ProtocolID e = g) (mProtocolDatabase s)")
      case None
      obtain t where t: "CoreReleaseProtocolLock n notify (acquired PL s) = Some t" "searched s t" using unchanged_released[OF s n(1)] by blast
      then show ?thesis
        using p find_entry[of "acquired PL s" g False 0] None
        unfolding CoreLocateHandle_def option.case if_not_P[OF noerr] acquire_ease[OF s(1)] Option.bind.simps Let_def
        by (simp add: locate_answer_def located_def handles_with_def)
    next
      case (Some e)
      let ?pos' = "?pos\<lparr>PosEntry := EntryAddress e\<rparr>"
      have nz: "EntryAddress e \<noteq> 0" using inv find_SomeD[OF Some] by (auto simp: hand_inv0_def entries_inv_def)
      have ok: "protocol_ok ?pos' (requested_state s)" and rest: "protocol_rest ?pos' (requested_state s) = located st g s"
        using start_by_protocol[OF s(2) r Some, of ?pos'] p by (simp_all add: located_def)
      have "\<exists>u. LocateHandle_loop n CoreGetNextLocateByProtocol sz ?pos' 0 [] (requested_state s) =
          Some (of_nat (8 * length (located st g s)), take (unat sz div 8) (located st g s), u) \<and> only_requests (requested_state s) u"
        using by_protocol.enumerate_all[OF ok] small unfolding rest by blast
      note tail = locate_tail[OF s r n(1) small(2) this, of st SKey notify]
      show ?thesis
        using tail p nz find_entry[of "acquired PL s" g False 0] Some
        unfolding CoreLocateHandle_def option.case if_not_P[OF noerr] acquire_ease[OF s(1)] Option.bind.simps Let_def by simp
    qed
  qed
qed

lemma entry_found:
  assumes "db_inv0 s" "find (\<lambda>e. ProtocolID e = g) (mProtocolDatabase s) = Some e"
  shows "e \<in> set (mProtocolDatabase s)" "ProtocolID e = g" "EntryAddress e \<noteq> 0" "entry_at s (EntryAddress e) = Some e"
proof -
  show e: "e \<in> set (mProtocolDatabase s)" "ProtocolID e = g" using find_SomeD[OF assms(2)] by simp_all
  show "EntryAddress e \<noteq> 0" using assms(1) e by (auto simp: hand_inv0_def entries_inv_def)
  have "distinct (map EntryAddress (mProtocolDatabase s))" using assms(1) by (simp add: hand_inv0_def entries_inv_def)
  then show "entry_at s (EntryAddress e) = Some e" using e by (simp add: entry_at_def find_key)
qed

text \<open>The first interface of a protocol, as the search for the protocol answers it.\<close>

lemma first_interface:
  assumes s: "db_inv s" and r: "mEfiLocateHandleRequest (hand s) \<noteq> - 1"
    and f: "find (\<lambda>e. ProtocolID e = g) (mProtocolDatabase s) = Some e" and pos: "Reached pos = None" "PosEntry pos = EntryAddress e"
  shows "\<exists>i p' u. CoreGetNextLocateByProtocol pos (requested_state s) = Some (if handles_with s g = [] then 0 else hd (handles_with s g), i, p', u)
      \<and> only_requests (requested_state s) u
      \<and> (if handles_with s g = [] then i = 0 else hd (handles_with s g) \<noteq> 0 \<and> protocols s (hd (handles_with s g)) g = Some i)"
proof (cases "handles_with s g")
  case Nil
  have inv: "db_inv0 s" by (rule db_inv_inv0[OF s])
  have "EntryProtocols e = []" using Nil f by (simp add: handles_with_def)
  moreover have "entry_at (requested_state s) (EntryAddress e) = Some e" using entry_found(4)[OF inv f] by (simp add: entry_at_def)
  ultimately show ?thesis using Nil only_requests_refl pos by (simp add: CoreGetNextLocateByProtocol_def links_after_def)
next
  case (Cons h hs)
  have inv: "db_inv0 s" by (rule db_inv_inv0[OF s])
  note E = entry_found[OF inv f]
  note start = start_by_protocol[OF s r f pos]
  obtain p pos' u d l where u: "CoreGetNextLocateByProtocol pos (requested_state s) = Some (h, Interface (interface_at (requested_state s) p), pos', u)"
    "h \<noteq> 0" "only_requests (requested_state s) u" "entry_at (requested_state s) (EntryAddress e) = Some d"
    "links_after None (EntryProtocols d) = Some (p # l)" "OnHandle (interface_at (requested_state s) p) = h"
    using next_by_protocol[OF start(1)] start(2) Cons pos by (metis (no_types, lifting))
  have "d = e" using u(4) E(4) by (simp add: entry_at_def)
  then have "p \<in> set (EntryProtocols e)" "OnHandle (interface_at s p) = h" using u(5,6) by (simp_all add: links_after_def)
  then have "on_handle s h g = Some p" using on_handle_iff[OF inv, of h g p] E(1,2) by blast
  then have "protocols s h g = Some (Interface (interface_at (requested_state s) p))" by (simp add: database_def)
  then show ?thesis using u(1,2,3) Cons by auto
qed

lemma acquire_or_fail_ease: "at_ease s \<Longrightarrow> CoreAcquireLockOrFail PL s = Some (EFI_SUCCESS, acquired PL s)"
  using at_ease_level[of s] by (auto simp: CoreAcquireLockOrFail_def CoreRaiseTpl_def acquired_def VALID_TPL_def ASSERT_def Let_def not_less at_ease_def)

lemma locate_protocol_run:
  assumes s: "at_ease s" "db_inv s" and r: "mEfiLocateHandleRequest (hand s) \<noteq> - 1" and n: "2 \<le> n"
  shows "\<exists>t i. CoreLocateProtocol n notify (Some g) 0 True s =
      Some (if handles_with s g = [] then EFI_NOT_FOUND else EFI_SUCCESS, Some i, t)
      \<and> (if handles_with s g = [] then i = 0 else protocols s (hd (handles_with s g)) g = Some i) \<and> searched s t"
proof (cases "find (\<lambda>e. ProtocolID e = g) (mProtocolDatabase s)")
  case None
  obtain t where t: "CoreReleaseProtocolLock n notify (requested_state s) = Some t" "searched s t"
    using search_released[OF s r n only_requests_refl] by blast
  then show ?thesis
    using find_entry[of "requested_state s" g False 0] None
    unfolding CoreLocateProtocol_def option.case acquire_or_fail_ease[OF s(1)] Option.bind.simps prod.case Let_def
    by (simp add: handles_with_def)
next
  case (Some e)
  let ?pos = "\<lparr>SearchKey = 0, Reached = None, PosEntry = EntryAddress e\<rparr>"
  have nz: "EntryAddress e \<noteq> 0" by (rule entry_found(3)[OF db_inv_inv0[OF s(2)] Some])
  obtain i p' u where u: "CoreGetNextLocateByProtocol ?pos (requested_state s) = Some (if handles_with s g = [] then 0 else hd (handles_with s g), i, p', u)"
      "only_requests (requested_state s) u" "if handles_with s g = [] then i = 0 else hd (handles_with s g) \<noteq> 0 \<and> protocols s (hd (handles_with s g)) g = Some i"
    using first_interface[OF s(2) r Some, of ?pos] by auto
  obtain t where t: "CoreReleaseProtocolLock n notify u = Some t" "searched s t" using search_released[OF s r n u(2)] by blast
  show ?thesis
    using u(1,3) t find_entry[of "requested_state s" g False 0] Some nz
    unfolding CoreLocateProtocol_def option.case acquire_or_fail_ease[OF s(1)] Option.bind.simps prod.case Let_def
    by auto
qed

end
