(* ===== verification/Dxe_Database.thy ===== *)
theory Dxe_Database
  imports Dxe_Locate
begin

text \<open>
  The handle database as a map from handles and protocols to interfaces: what each service promises of the map, the contract between a service
  and its clients as a locale, its interpretation on the services of the database, and the searches for handles.
\<close>

unbundle bit_operations_syntax

section \<open>Opening as HandleProtocol does\<close>

lemma scan_started: "OpenList_scan E b x l = Already_started \<Longrightarrow> \<exists>d\<in>set l. Attributes d AND EFI_OPEN_PROTOCOL_BY_DRIVER \<noteq> 0 \<and> E d"
  by (induction E b x l rule: OpenList_scan.induct) (auto split: if_splits open_scan.splits)

lemma scan_counted: "OpenList_scan E b x l = Counted l' \<Longrightarrow> map Attributes l' = map Attributes l"
  by (induction E b x l arbitrary: l' rule: OpenList_scan.induct) (auto split: if_splits open_scan.splits)

abbreviation passive_list :: "OPEN_PROTOCOL_DATA list \<Rightarrow> bool" where
  "passive_list l \<equiv> \<forall>d\<in>set l. passive_open d"

lemma passive_list_iff: "passive_list l \<longleftrightarrow> (\<forall>a\<in>set (map Attributes l). a AND 7 \<noteq> 0 \<and> a AND EFI_OPEN_PROTOCOL_BY_DRIVER = 0)"
  by (simp add: passive_open_def)

lemma open_by_handle:
  "\<exists>l'. open_effect True img 0 EFI_OPEN_PROTOCOL_BY_HANDLE_PROTOCOL l = (EFI_SUCCESS, l') \<and> (passive_list l \<longrightarrow> passive_list l')"
proof (cases "OpenList_scan (\<lambda>d. AgentHandle d = img \<and> Attributes d = EFI_OPEN_PROTOCOL_BY_HANDLE_PROTOCOL \<and> ControllerHandle d = 0) False False l")
  case Already_started
  then show ?thesis using scan_started[OF Already_started] by auto
next
  case (Counted l')
  have "passive_list l' = passive_list l" unfolding passive_list_iff scan_counted[OF Counted] by (rule refl)
  then show ?thesis using Counted by (simp add: open_effect_def)
next
  case (Scanned b x)
  then show ?thesis by (simp add: open_effect_def passive_open_def)
qed

lemma handle_protocol_run:
  assumes s: "at_ease s" "db_inv s" and n: "2 \<le> n" and on: "on_handle s h g = Some p"
  shows "\<exists>l t. CoreHandleProtocol n notify Disconnect True h (Some g) True s = Some (EFI_SUCCESS, Some (Interface (interface_at s p)), t)
    \<and> view t = view (s\<lparr>hand := with_open p l (hand s)\<rparr>) \<and> locks_kept s t \<and> at_ease t
    \<and> (passive_list (OpenList (interface_at s p)) \<longrightarrow> passive_list l)"
proof -
  have inv: "db_inv0 s" by (rule db_inv_inv0[OF s(2)])
  have oh: "open_handles (hand s) h (gDxeCoreImageHandle (hand s)) 0 EFI_OPEN_PROTOCOL_BY_HANDLE_PROTOCOL"
    using on_handle_Some(1)[OF inv on] by (simp add: open_handles_def)
  obtain l where l: "open_effect True (gDxeCoreImageHandle (hand s)) 0 EFI_OPEN_PROTOCOL_BY_HANDLE_PROTOCOL (OpenList (interface_at s p)) = (EFI_SUCCESS, l)"
    "passive_list (OpenList (interface_at s p)) \<longrightarrow> passive_list l" using open_by_handle by blast
  show ?thesis
    using open_protocol_run(2)[OF s(1) inv _ oh n _ on _ l(1), of True notify Disconnect] l(2)
    by (auto simp: CoreHandleProtocol_def open_modes_def)
qed

text \<open>A handle exists as long as it has a protocol.\<close>

lemma handles_have_protocols:
  assumes "db_inv s"
  shows "h \<in> set (gHandleList (hand s)) \<longleftrightarrow> protocols s h \<noteq> Map.empty"
proof
  have inv: "db_inv0 s" by (rule db_inv_inv0[OF assms])
  assume h: "h \<in> set (gHandleList (hand s))"
  then obtain p where p: "p \<in> set (Protocols (handle_at s h))" using assms by (fastforce simp: hand_inv_def)
  have i: "installed_in (mProtocolDatabase s) p" "OnHandle (interface_at s p) = h" using protocols_installed[OF inv h p] by simp_all
  then obtain e where e: "e \<in> set (mProtocolDatabase s)" "p \<in> set (EntryProtocols e)" by (auto simp: installed_in_def)
  then have "on_handle s h (ProtocolID e) = Some p" using on_handle_iff[OF inv] i(2) by blast
  then have "protocols s h (ProtocolID e) \<noteq> None" by (simp add: database_def)
  then show "protocols s h \<noteq> Map.empty" by auto
next
  assume "protocols s h \<noteq> Map.empty"
  then show "h \<in> set (gHandleList (hand s))" by (auto simp: database_def protocol_on_def fun_eq_iff split: if_splits)
qed

section \<open>Installing and uninstalling on every branch\<close>

lemma install_present:
  assumes s: "at_ease s" "db_inv s" and n: "2 \<le> n" and on: "on_handle s h g = Some p"
  shows "\<exists>l t. CoreInstallProtocolInterface n notify Disconnect True E q hp (Some h) (Some g) EFI_NATIVE_INTERFACE i s =
      Some (EFI_INVALID_PARAMETER, Some h, t) \<and> at_ease t \<and> view t = view (s\<lparr>hand := with_open p l (hand s)\<rparr>)
      \<and> (passive_list (OpenList (interface_at s p)) \<longrightarrow> passive_list l)"
proof -
  have "h \<noteq> 0" using on_handle_Some(1)[OF db_inv_inv0[OF s(2)] on] s(2) handles_invD(1) by (auto simp: hand_inv_def hand_inv0_def)
  then show ?thesis using handle_protocol_run[OF s n on, of notify Disconnect]
    by (fastforce simp: CoreInstallProtocolInterface_def CoreInstallProtocolInterfaceNotify_def)
qed

text \<open>An installation on something that is no handle leaves at most an entry without interfaces behind.\<close>

lemma install_no_handle:
  assumes s: "at_ease s" "db_inv s" and n: "2 \<le> n" and pool: "pool_fresh (hand s) (mProtocolDatabase s) E p hp"
    and h: "h \<noteq> 0" "h \<notin> set (gHandleList (hand s))"
  shows "\<exists>t. CoreInstallProtocolInterface n notify Disconnect OpenPool E p hp (Some h) (Some g) EFI_NATIVE_INTERFACE i s =
      Some (EFI_INVALID_PARAMETER, Some h, t) \<and> at_ease t \<and> view t = view (with_db (hand s) (entries_with E g (mProtocolDatabase s)) s)"
proof -
  have inv: "db_inv0 s" by (rule db_inv_inv0[OF s(2)])
  let ?D = "entries_with E g (mProtocolDatabase s)" and ?u = "acquired PL s"
  have hp: "CoreHandleProtocol n notify Disconnect OpenPool h (Some g) True s = Some (EFI_INVALID_PARAMETER, None, s)"
    using validate_handle[OF inv, of h] h by (simp add: CoreHandleProtocol_def CoreOpenProtocol_def)
  have pf: "E \<noteq> 0" "p \<noteq> 0" using pool by (simp_all add: pool_fresh_def)
  have entry: "CoreFindProtocolEntry g True E ?u = Some (entry_of ?D g, ?u\<lparr>mProtocolDatabase := ?D\<rparr>)"
    using find_entry_create[of ?u E g] pf(1) by simp
  have "protocol_of ?D (entry_of ?D g) = Some g" by (rule entries_with_inv(4)[OF inv pool])
  then have a0: "entry_of ?D g \<noteq> 0" using protocol_of_iff entries_with_inv(1)[OF inv pool, of g] by (auto simp: hand_inv0_def)
  have "db_inv0 (?u\<lparr>mProtocolDatabase := ?D\<rparr>)" using entries_with_inv(1)[OF inv pool] by simp
  then have ih: "install_handle hp h (?u\<lparr>mProtocolDatabase := ?D\<rparr>) = Some (EFI_INVALID_PARAMETER, h, ?u\<lparr>mProtocolDatabase := ?D\<rparr>)"
    using validate_handle[of "?u\<lparr>mProtocolDatabase := ?D\<rparr>" h] h by (simp add: install_handle_def)
  have il: "install_locked n notify E p hp EFI_INVALID_PARAMETER h g i True ?u = Some (EFI_INVALID_PARAMETER, h, ?u\<lparr>mProtocolDatabase := ?D\<rparr>)"
    unfolding install_locked_def entry Option.bind.simps prod.case ih using a0 pf(2) by simp
  have same: "with_db (hand s) ?D ?u = ?u\<lparr>mProtocolDatabase := ?D\<rparr>" by (rule DXE.equality) simp_all
  obtain t where t: "CoreReleaseProtocolLock n notify (?u\<lparr>mProtocolDatabase := ?D\<rparr>) = Some t"
    "view t = view (with_db (hand s) ?D s)" "at_ease t"
    using release_ease[OF s(1) n, where H = "hand s" and D = ?D] unfolding same by blast
  have "CoreInstallProtocolInterface n notify Disconnect OpenPool E p hp (Some h) (Some g) EFI_NATIVE_INTERFACE i s = Some (EFI_INVALID_PARAMETER, Some h, t)"
    unfolding CoreInstallProtocolInterface_def CoreInstallProtocolInterfaceNotify_def prod.case option.case
    using h(1) hp acquire_ease[OF s(1)] il t(1) by simp
  then show ?thesis using t(2,3) by blast
qed

lemma uninstall_refused:
  assumes s: "at_ease s" "db_inv s" and n: "2 \<le> n"
  shows "h \<notin> set (gHandleList (hand s)) \<Longrightarrow>
      CoreUninstallProtocolInterface n notify Connect Disconnect h (Some g) i s = Some (EFI_INVALID_PARAMETER, s)"
    and "h \<in> set (gHandleList (hand s)) \<Longrightarrow> protocols s h g \<noteq> Some i \<Longrightarrow>
      \<exists>t. CoreUninstallProtocolInterface n notify Connect Disconnect h (Some g) i s = Some (EFI_NOT_FOUND, t) \<and> searched s t"
proof -
  have inv: "db_inv0 s" by (rule db_inv_inv0[OF s(2)])
  show "CoreUninstallProtocolInterface n notify Connect Disconnect h (Some g) i s = Some (EFI_INVALID_PARAMETER, s)"
    if "h \<notin> set (gHandleList (hand s))"
    using validate_handle[OF inv, of h] that by (simp add: CoreUninstallProtocolInterface_def)
  show "\<exists>t. CoreUninstallProtocolInterface n notify Connect Disconnect h (Some g) i s = Some (EFI_NOT_FOUND, t) \<and> searched s t"
    if h: "h \<in> set (gHandleList (hand s))" and i: "protocols s h g \<noteq> Some i"
  proof -
    have "CoreFindProtocolInterface h g i (acquired PL s) = Some 0"
      using find_interface[of "acquired PL s" h g i] inv h i by (auto simp: database_def split: option.splits)
    moreover obtain t where "CoreReleaseProtocolLock n notify (acquired PL s) = Some t" "searched s t" using unchanged_released[OF s n] by blast
    ultimately show ?thesis using validate_handle[OF inv, of h] h acquire_ease[OF s(1)] by (simp add: CoreUninstallProtocolInterface_def)
  qed
qed

section \<open>The database as a map\<close>

text \<open>
  The calls a driver makes on the database, with the memory that an installation gets for an entry, an interface and a handle; how the services
  serve them; and what they promise of a map from handles and protocols to interfaces.
\<close>

datatype database_call =
    InstallCall EFI_HANDLE EFI_GUID PTR PTR PTR PTR
  | UninstallCall EFI_HANDLE EFI_GUID PTR
  | HandleCall EFI_HANDLE EFI_GUID
  | LocateCall EFI_GUID

type_synonym database_result = "EFI_STATUS \<times> PTR option"

fun serve :: "nat \<Rightarrow> 'w notify \<Rightarrow> 'w connect \<Rightarrow> 'w disconnect \<Rightarrow> database_call \<Rightarrow> 'w DXE \<Rightarrow> (database_result \<times> 'w DXE) option" where
  "serve n notify Connect Disconnect (InstallCall h g i E p hp) s =
     map_option (\<lambda>(st, out, t). ((st, out), t))
       (CoreInstallProtocolInterface n notify Disconnect True E p hp (Some h) (Some g) EFI_NATIVE_INTERFACE i s)"
| "serve n notify Connect Disconnect (UninstallCall h g i) s =
     map_option (\<lambda>(st, t). ((st, None), t)) (CoreUninstallProtocolInterface n notify Connect Disconnect h (Some g) i s)"
| "serve n notify Connect Disconnect (HandleCall h g) s =
     map_option (\<lambda>(st, out, t). ((st, out), t)) (CoreHandleProtocol n notify Disconnect True h (Some g) True s)"
| "serve n notify Connect Disconnect (LocateCall g) s =
     map_option (\<lambda>(st, out, t). ((st, out), t)) (CoreLocateProtocol n notify (Some g) 0 True s)"

fun promised :: "database_call \<Rightarrow> (EFI_HANDLE \<Rightarrow> EFI_GUID \<Rightarrow> PTR option) \<Rightarrow> database_result \<Rightarrow> (EFI_HANDLE \<Rightarrow> EFI_GUID \<Rightarrow> PTR option) \<Rightarrow> bool" where
  "promised (InstallCall h g i E p hp) M r M' \<longleftrightarrow>
     (if h = 0 then r = (EFI_SUCCESS, Some hp) \<and> M hp = Map.empty \<and> M' = M(hp := [g \<mapsto> i])
      else if M h = Map.empty \<or> M h g \<noteq> None then r = (EFI_INVALID_PARAMETER, Some h) \<and> M' = M
      else r = (EFI_SUCCESS, Some h) \<and> M' = M(h := (M h)(g \<mapsto> i)))"
| "promised (UninstallCall h g i) M r M' \<longleftrightarrow>
     (if M h = Map.empty then r = (EFI_INVALID_PARAMETER, None) \<and> M' = M
      else if M h g \<noteq> Some i then r = (EFI_NOT_FOUND, None) \<and> M' = M
      else r = (EFI_SUCCESS, None) \<and> M' = M(h := (M h)(g := None)))"
| "promised (HandleCall h g) M r M' \<longleftrightarrow> M' = M \<and>
     r = (if M h = Map.empty then (EFI_INVALID_PARAMETER, None)
          else case M h g of None \<Rightarrow> (EFI_UNSUPPORTED, Some 0) | Some i \<Rightarrow> (EFI_SUCCESS, Some i))"
| "promised (LocateCall g) M r M' \<longleftrightarrow> M' = M \<and>
     (if \<exists>h. M h g \<noteq> None then \<exists>h i. M h g = Some i \<and> r = (EFI_SUCCESS, Some i) else r = (EFI_NOT_FOUND, Some 0))"

definition ready :: "(EFI_EVENT \<Rightarrow> 'w \<Rightarrow> 'w) \<Rightarrow> nat \<Rightarrow> 'w notify \<Rightarrow> 'w DXE \<Rightarrow> bool" where
  "ready run n notify s \<longleftrightarrow> at_ease s \<and> db_inv s \<and> quiet_drivers run n notify s
     \<and> (\<forall>p. installed_in (mProtocolDatabase s) p \<longrightarrow> passive_list (OpenList (interface_at s p)))"

fun admissible :: "database_call \<Rightarrow> 'w DXE \<Rightarrow> bool" where
  "admissible (InstallCall h g i E p hp) s \<longleftrightarrow> pool_fresh (hand s) (mProtocolDatabase s) E p hp"
| "admissible (LocateCall g) s \<longleftrightarrow> mEfiLocateHandleRequest (hand s) \<noteq> - 1"
| "admissible _ s \<longleftrightarrow> True"

lemma ready_facts:
  assumes "ready run n notify s"
  shows "at_ease s" "db_inv s" "db_inv0 s" "quiet_drivers run n notify s" "2 \<le> n"
    "installed_in (mProtocolDatabase s) p \<Longrightarrow> passive_list (OpenList (interface_at s p))"
  using assms db_inv_inv0[of s] by (simp_all add: ready_def quiet_drivers_def)

lemma ready_after:
  assumes "ready run n notify s" "at_ease t" "same_functions s t" "db_inv t"
    "\<And>p. installed_in (mProtocolDatabase t) p \<Longrightarrow> passive_list (OpenList (interface_at t p))"
  shows "ready run n notify t"
  using assms quiet_drivers_cong[OF assms(3)] by (simp add: ready_def)

lemma view_functions: "view t = view s \<Longrightarrow> same_functions s t"
  by (simp add: view_def same_functions_def)

lemma no_protocols: "db_inv s \<Longrightarrow> protocols s h = Map.empty \<longleftrightarrow> h \<notin> set (gHandleList (hand s))"
  using handles_have_protocols[of s h] by blast

lemma protocols_None: "protocols s h g = None \<longleftrightarrow> on_handle s h g = None"
  by (simp add: database_def)

lemma searchedD:
  assumes "searched s t"
  shows "at_ease t" "db_inv t" "protocols t = protocols s" "same_functions s t" "mProtocolDatabase t = mProtocolDatabase s"
    "interface_at t p = interface_at s p"
  using assms unfolding searched_def by auto

lemma protocol_of_address: "protocol_of D a = Some g \<Longrightarrow> a \<in> EntryAddress ` set D"
  by (auto simp: protocol_of_def dest!: find_SomeD)

lemma ready_searched:
  assumes "ready run n notify s" "searched s t"
  shows "ready run n notify t"
proof (rule ready_after[OF assms(1)])
  show "at_ease t" "same_functions s t" "db_inv t" by (fact searchedD[OF assms(2)])+
  show "passive_list (OpenList (interface_at t p))" if "installed_in (mProtocolDatabase t) p" for p
    using ready_facts(6)[OF assms(1), of p] that unfolding searchedD(5,6)[OF assms(2)] .
qed

lemma ready_opened:
  assumes r: "ready run n notify s" and on: "on_handle s h g = Some p" and v: "view t = view (s\<lparr>hand := with_open p l (hand s)\<rparr>)"
    and t: "at_ease t" and l: "passive_list (OpenList (interface_at s p)) \<longrightarrow> passive_list l"
  shows "ready run n notify t" "protocols t = protocols s"
proof -
  have db: "hand t = with_open p l (hand s)" "mProtocolDatabase t = mProtocolDatabase s" using view_hand[OF v] by simp_all
  have f: "same_functions s t" using view_functions[OF v] by (simp add: same_functions_def)
  have pl: "passive_list l" using l ready_facts(6)[OF r on_handle_Some(3)[OF ready_facts(3)[OF r] on]] by blast
  have ol: "OpenList (interface_at t q) = (if q = p then l else OpenList (interface_at s q))" for q by (simp add: db)
  have o: "passive_list (OpenList (interface_at t q))" if "installed_in (mProtocolDatabase t) q" for q
    using pl ready_facts(6)[OF r, of q] that unfolding ol db(2) by (cases "q = p") simp_all
  have "db_inv t" using inv_with_open[OF ready_facts(2)[OF r]] by (simp add: db)
  then show "ready run n notify t" by (rule ready_after[OF r t f _ o])
  show "protocols t = protocols s" by (simp add: db)
qed



lemma serve_install:
  assumes r: "ready run n notify s" and pool: "pool_fresh (hand s) (mProtocolDatabase s) E p hp"
  shows "\<exists>res t. serve n notify Connect Disconnect (InstallCall h g i E p hp) s = Some (res, t) \<and> ready run n notify t
    \<and> promised (InstallCall h g i E p hp) (protocols s) res (protocols t)"
proof -
  note R = ready_facts[OF r]
  note mt = no_protocols[OF R(2)]
  have hp: "hp \<notin> set (gHandleList (hand s))" using pool by (simp add: pool_fresh_def)
  consider "h \<noteq> 0 \<longrightarrow> h \<in> set (gHandleList (hand s)) \<and> on_handle s h g = None" | q where "h \<noteq> 0" "on_handle s h g = Some q"
    | "h \<noteq> 0" "h \<notin> set (gHandleList (hand s))" by (cases "on_handle s h g") auto
  then show ?thesis
  proof cases
    case 1
    let ?D1 = "entries_with E g (mProtocolDatabase s)" and ?h = "if h = 0 then hp else h"
    let ?a = "entry_of ?D1 g"
    obtain t where t: "CoreInstallProtocolInterface n notify Disconnect True E p hp (Some h) (Some g) EFI_NATIVE_INTERFACE i s = Some (EFI_SUCCESS, Some ?h, t)"
      "hand t = installed_hand h hp ?a p i (hand s)" "mProtocolDatabase t = map (linked ?a p) ?D1" "at_ease t" "same_functions s t"
      using install_run[OF R(1,2) pool _ R(4)] 1 by blast
    have I: "db_inv t" "protocols t = (protocols s)(?h := (protocols s ?h)(g \<mapsto> i))"
      using installed_inv[OF R(2) pool, of h g i] 1 by (simp_all add: t(2,3))
    have "installed_in ?D1 q = installed_in (mProtocolDatabase s) q" for q by (rule entries_with_inv(3)[OF R(3) pool])
    moreover have "protocol_of ?D1 ?a = Some g" by (rule entries_with_inv(4)[OF R(3) pool])
    ultimately have inst: "installed_in (mProtocolDatabase t) q \<longleftrightarrow> installed_in (mProtocolDatabase s) q \<or> q = p" for q
      using installed_with_link[of ?a ?D1 p q] protocol_of_address[of ?D1 ?a g] by (simp add: t(3))
    have "passive_list (OpenList (interface_at t q))" if "installed_in (mProtocolDatabase t) q" for q
    proof -
      have "OpenList (interface_at t q) = (if q = p then [] else OpenList (interface_at s q))"
        by (simp add: t(2) installed_hand_def with_handle_def)
      then show ?thesis using R(6)[of q] that inst by (cases "q = p") simp_all
    qed
    then have "ready run n notify t" by (rule ready_after[OF r t(4,5) I(1)])
    moreover have "promised (InstallCall h g i E p hp) (protocols s) (EFI_SUCCESS, Some ?h) (protocols t)"
      using 1 I(2) mt[of h] mt[of hp] hp by (simp add: protocols_None)
    ultimately show ?thesis using t(1) by simp
  next
    case (2 q)
    obtain l t where t: "CoreInstallProtocolInterface n notify Disconnect True E p hp (Some h) (Some g) EFI_NATIVE_INTERFACE i s =
        Some (EFI_INVALID_PARAMETER, Some h, t)" "at_ease t" "view t = view (s\<lparr>hand := with_open q l (hand s)\<rparr>)"
      "passive_list (OpenList (interface_at s q)) \<longrightarrow> passive_list l" using install_present[OF R(1,2,5) 2(2)] by blast
    note O = ready_opened[OF r 2(2) t(3,2,4)]
    have "protocols s h g \<noteq> None" using 2(2) by (simp add: protocols_None)
    then have "promised (InstallCall h g i E p hp) (protocols s) (EFI_INVALID_PARAMETER, Some h) (protocols t)" using O(2) 2(1) by simp
    then show ?thesis using t(1) O(1) by simp
  next
    case 3
    let ?D = "entries_with E g (mProtocolDatabase s)"
    obtain t where t: "CoreInstallProtocolInterface n notify Disconnect True E p hp (Some h) (Some g) EFI_NATIVE_INTERFACE i s =
        Some (EFI_INVALID_PARAMETER, Some h, t)" "at_ease t" "view t = view (with_db (hand s) ?D s)"
      using install_no_handle[OF R(1,2,5) pool 3] by blast
    have db: "hand t = hand s" "mProtocolDatabase t = ?D" using view_hand[OF t(3)] by simp_all
    have "same_functions s t" using view_functions[OF t(3)] by (simp add: same_functions_def)
    moreover have "db_inv t" using entries_with_inv(1)[OF R(3) pool] R(2) by (simp add: db hand_inv_def)
    moreover have "passive_list (OpenList (interface_at t q))" if "installed_in (mProtocolDatabase t) q" for q
      using R(6)[of q] that entries_with_inv(3)[OF R(3) pool] by (simp add: db)
    ultimately have "ready run n notify t" by (rule ready_after[OF r t(2)])
    moreover have "promised (InstallCall h g i E p hp) (protocols s) (EFI_INVALID_PARAMETER, Some h) (protocols t)"
      using 3 mt[of h] entries_with_inv(2)[OF R(3) pool] by (simp add: db)
    ultimately show ?thesis using t(1) by simp
  qed
qed

lemma serve_uninstall:
  assumes r: "ready run n notify s"
  shows "\<exists>res t. serve n notify Connect Disconnect (UninstallCall h g i) s = Some (res, t) \<and> ready run n notify t
    \<and> promised (UninstallCall h g i) (protocols s) res (protocols t)"
proof -
  note R = ready_facts[OF r]
  note mt = no_protocols[OF R(2)]
  consider "h \<notin> set (gHandleList (hand s))" | "h \<in> set (gHandleList (hand s))" "protocols s h g \<noteq> Some i"
    | p where "on_handle s h g = Some p" "Interface (interface_at s p) = i" by (auto simp: database_def)
  then show ?thesis
  proof cases
    case 1
    then show ?thesis using uninstall_refused(1)[OF R(1,2,5) 1, of notify Connect Disconnect g i] r mt[of h] by simp
  next
    case 2
    obtain t where t: "CoreUninstallProtocolInterface n notify Connect Disconnect h (Some g) i s = Some (EFI_NOT_FOUND, t)" "searched s t"
      using uninstall_refused(2)[OF R(1,2,5) 2] by blast
    have "protocols s h \<noteq> Map.empty" using 2(1) mt[of h] by blast
    then have "promised (UninstallCall h g i) (protocols s) (EFI_NOT_FOUND, None) (protocols t)"
      unfolding searchedD(3)[OF t(2)] using 2(2) by simp
    then show ?thesis using t(1) ready_searched[OF r t(2)] by simp
  next
    case (3 p)
    note P = on_handle_Some[OF R(3) 3(1)]
    let ?a = "Protocol (interface_at s p)"
    let ?D = "map (delinked ?a p) (mProtocolDatabase s)" and ?H = "uninstalled_hand h p (hand s)"
    obtain t where t: "CoreUninstallProtocolInterface n notify Connect Disconnect h (Some g) i s = Some (EFI_SUCCESS, t)"
      "view t = view (with_db ?H ?D s)" "at_ease t"
      using uninstall_run[OF R(1,2) 3 R(6)[OF P(3)] R(5)] by blast
    have db: "hand t = ?H" "mProtocolDatabase t = ?D" using view_hand[OF t(2)] by simp_all
    note I = uninstalled_inv[OF R(2) 3(1)]
    have "same_functions s t" using view_functions[OF t(2)] by (simp add: same_functions_def)
    moreover have "db_inv t" using I(1) by (simp add: db)
    moreover have "passive_list (OpenList (interface_at t q))" if "installed_in (mProtocolDatabase t) q" for q
    proof -
      have q: "installed_in (mProtocolDatabase s) q" "q \<noteq> p" using that installed_delinked[OF R(3) refl, of p q] by (simp_all add: db)
      have "OpenList (interface_at t q) = OpenList (interface_at s q)"
        using q(2) by (simp add: db uninstalled_hand_def without_handle_def Let_def)
      then show ?thesis using R(6)[OF q(1)] by simp
    qed
    ultimately have "ready run n notify t" by (rule ready_after[OF r t(3)])
    moreover have "promised (UninstallCall h g i) (protocols s) (EFI_SUCCESS, None) (protocols t)"
    proof -
      have "protocols s h g = Some i" using 3 by (simp add: database_def)
      then show ?thesis using I(2) by (auto simp: db)
    qed
    ultimately show ?thesis using t(1) by simp
  qed
qed


lemma serve_handle:
  assumes r: "ready run n notify s"
  shows "\<exists>res t. serve n notify Connect Disconnect (HandleCall h g) s = Some (res, t) \<and> ready run n notify t
    \<and> promised (HandleCall h g) (protocols s) res (protocols t)"
proof -
  note R = ready_facts[OF r]
  note mt = no_protocols[OF R(2)]
  consider "h \<notin> set (gHandleList (hand s))" | "h \<in> set (gHandleList (hand s))" "on_handle s h g = None" | p where "on_handle s h g = Some p"
    by (cases "on_handle s h g") auto
  then show ?thesis
  proof cases
    case 1
    then have "CoreHandleProtocol n notify Disconnect True h (Some g) True s = Some (EFI_INVALID_PARAMETER, None, s)"
      using validate_handle[OF R(3), of h] by (simp add: CoreHandleProtocol_def CoreOpenProtocol_def)
    then show ?thesis using 1 r mt[of h] by simp
  next
    case 2
    obtain t where t: "CoreHandleProtocol n notify Disconnect True h (Some g) True s = Some (EFI_UNSUPPORTED, Some 0, t)" "view t = view s" "at_ease t"
      using handle_protocol_missing[OF R(1,3,5) 2] by blast
    have db: "hand t = hand s" "mProtocolDatabase t = mProtocolDatabase s" using view_hand[OF t(2)] by simp_all
    have "ready run n notify t"
      by (rule ready_after[OF r t(3) view_functions[OF t(2)]]) (use R(2,6) in \<open>simp_all add: db\<close>)
    moreover have "promised (HandleCall h g) (protocols s) (EFI_UNSUPPORTED, Some 0) (protocols t)"
      using 2 mt[of h] by (simp add: db database_def)
    ultimately show ?thesis using t(1) by simp
  next
    case (3 p)
    obtain l t where t: "CoreHandleProtocol n notify Disconnect True h (Some g) True s = Some (EFI_SUCCESS, Some (Interface (interface_at s p)), t)"
      "view t = view (s\<lparr>hand := with_open p l (hand s)\<rparr>)" "at_ease t" "passive_list (OpenList (interface_at s p)) \<longrightarrow> passive_list l"
      using handle_protocol_run[OF R(1,2,5) 3] by blast
    note O = ready_opened[OF r 3 t(2,3,4)]
    have i: "protocols s h g = Some (Interface (interface_at s p))" using 3 by (simp add: database_def)
    then have "protocols s h \<noteq> Map.empty" by auto
    then have "promised (HandleCall h g) (protocols s) (EFI_SUCCESS, Some (Interface (interface_at s p))) (protocols t)" using i O(2) by simp
    then show ?thesis using t(1) O(1) by simp
  qed
qed

lemma serve_locate:
  assumes r: "ready run n notify s" and req: "mEfiLocateHandleRequest (hand s) \<noteq> - 1"
  shows "\<exists>res t. serve n notify Connect Disconnect (LocateCall g) s = Some (res, t) \<and> ready run n notify t
    \<and> promised (LocateCall g) (protocols s) res (protocols t)"
proof -
  note R = ready_facts[OF r]
  obtain t i where t: "CoreLocateProtocol n notify (Some g) 0 True s =
      Some (if handles_with s g = [] then EFI_NOT_FOUND else EFI_SUCCESS, Some i, t)"
    "if handles_with s g = [] then i = 0 else protocols s (hd (handles_with s g)) g = Some i" "searched s t"
    using locate_protocol_run[OF R(1,2) req R(5)] by blast
  have "(\<exists>h. protocols s h g \<noteq> None) \<longleftrightarrow> handles_with s g \<noteq> []" using handles_with_exact(2)[OF R(3)] by (metis empty_iff empty_set hd_in_set)
  then have "promised (LocateCall g) (protocols s) (if handles_with s g = [] then EFI_NOT_FOUND else EFI_SUCCESS, Some i) (protocols t)"
    using t(2) unfolding searchedD(3)[OF t(3)] by (auto split: if_splits)
  moreover have "serve n notify Connect Disconnect (LocateCall g) s = Some ((if handles_with s g = [] then EFI_NOT_FOUND else EFI_SUCCESS, Some i), t)"
    using t(1) by simp
  ultimately show ?thesis using ready_searched[OF r t(3)] by blast
qed

section \<open>Sequences of calls\<close>

text \<open>
  A service that answers one call after the other, and what a sequence of answers keeps of the promises made for each call. The
  interface between a service and its clients is the contract of a single call.
\<close>

primrec answers :: "('c \<Rightarrow> 's \<Rightarrow> ('r \<times> 's) option) \<Rightarrow> 'c list \<Rightarrow> 's \<Rightarrow> ('r list \<times> 's) option" where
  "answers answer [] s = Some ([], s)"
| "answers answer (c # cs) s = do { (r, s) \<leftarrow> answer c s; (rs, s) \<leftarrow> answers answer cs s; Some (r # rs, s) }"

primrec allowed :: "('c \<Rightarrow> 's \<Rightarrow> bool) \<Rightarrow> ('c \<Rightarrow> 's \<Rightarrow> ('r \<times> 's) option) \<Rightarrow> 'c list \<Rightarrow> 's \<Rightarrow> bool" where
  "allowed adm answer [] s \<longleftrightarrow> True"
| "allowed adm answer (c # cs) s \<longleftrightarrow> adm c s \<and> (case answer c s of None \<Rightarrow> True | Some (r, t) \<Rightarrow> allowed adm answer cs t)"

fun all_promised :: "('c \<Rightarrow> 'a \<Rightarrow> 'r \<Rightarrow> 'a \<Rightarrow> bool) \<Rightarrow> 'c list \<Rightarrow> 'a \<Rightarrow> 'r list \<Rightarrow> 'a \<Rightarrow> bool" where
  "all_promised promise [] a [] a' \<longleftrightarrow> a' = a"
| "all_promised promise (c # cs) a (r # rs) a' \<longleftrightarrow> (\<exists>b. promise c a r b \<and> all_promised promise cs b rs a')"
| "all_promised promise _ a _ a' \<longleftrightarrow> False"

lemma all_promised_unfold:
  "all_promised promise [] a rs a' \<longleftrightarrow> rs = [] \<and> a' = a"
  "all_promised promise (c # cs) a rs a' \<longleftrightarrow> (\<exists>r rs' b. rs = r # rs' \<and> promise c a r b \<and> all_promised promise cs b rs' a')"
  by (cases rs; simp)+

locale service =
  fixes answer :: "'c \<Rightarrow> 's \<Rightarrow> ('r \<times> 's) option" and rdy :: "'s \<Rightarrow> bool" and adm :: "'c \<Rightarrow> 's \<Rightarrow> bool"
    and abstraction :: "'s \<Rightarrow> 'a" and promise :: "'c \<Rightarrow> 'a \<Rightarrow> 'r \<Rightarrow> 'a \<Rightarrow> bool"
  assumes one_call: "rdy s \<Longrightarrow> adm c s \<Longrightarrow>
    \<exists>r t. answer c s = Some (r, t) \<and> rdy t \<and> promise c (abstraction s) r (abstraction t)"
begin

lemma simulates:
  assumes "rdy s" "allowed adm answer cs s"
  shows "\<exists>rs t. answers answer cs s = Some (rs, t) \<and> rdy t \<and> all_promised promise cs (abstraction s) rs (abstraction t)"
  using assms
proof (induction cs arbitrary: s)
  case (Cons c cs)
  have "adm c s" using Cons.prems(2) by simp
  then obtain r t where t: "answer c s = Some (r, t)" "rdy t" "promise c (abstraction s) r (abstraction t)"
    using one_call[OF Cons.prems(1)] by blast
  then obtain rs u where "answers answer cs t = Some (rs, u)" "rdy u" "all_promised promise cs (abstraction t) rs (abstraction u)"
    using Cons.IH[of t] Cons.prems(2) by auto
  then show ?case using t by auto
qed simp

end

interpretation handle_database: service "serve n notify Connect Disconnect" "ready run n notify" admissible protocols promised
proof
  fix s :: "'a DXE" and c
  assume r: "ready run n notify s" and a: "admissible c s"
  show "\<exists>res t. serve n notify Connect Disconnect c s = Some (res, t) \<and> ready run n notify t \<and> promised c (protocols s) res (protocols t)"
    using a serve_install[OF r] serve_uninstall[OF r] serve_handle[OF r] serve_locate[OF r] by (cases c) simp_all
qed



lemma ready_initial: "34 \<le> n \<Longrightarrow> ready run n notify (initial_core True w)"
proof -
  assume n: "34 \<le> n"
  have nl: "\<not> live (initial_core True w) e" for e by (simp add: initial_core_def zero_event_def)
  have "at_ease (initial_core True w)"
    using settled_initial[of True w] by (simp add: at_ease_def) (simp add: initial_core_def EFI_INITIALIZE_LOCK_VARIABLE_def)
  moreover have "hand_inv (hand (initial_core True w)) (mProtocolDatabase (initial_core True w))"
    by (simp add: initial_core_def initial_hand_def hand_inv_def hand_inv0_def handles_inv_def entries_inv_def links_inv_def)
  moreover have "quiet_drivers run n notify (initial_core True w)" using nl n by (simp add: quiet_drivers_def)
  ultimately show ?thesis by (simp add: ready_def) (simp add: initial_core_def installed_in_def)
qed

lemma protocols_initial: "protocols (initial_core c w) = (\<lambda>_. Map.empty)"
  by (simp add: initial_core_def initial_hand_def database_def protocol_on_def fun_eq_iff)

abbreviation still :: "'w notify" where "still \<equiv> \<lambda>f e c s. Some s"
abbreviation a_guid :: EFI_GUID where "a_guid \<equiv> (1, 2)"

definition sample_calls :: "database_call list" where
  "sample_calls = [InstallCall 0 a_guid 0x77 0x1000 0x2000 0x3000, LocateCall a_guid, UninstallCall 0x3000 a_guid 0x77]"

lemma sample_allowed:
  "allowed admissible (serve 40 still (\<lambda>_ s. Some (EFI_SUCCESS, s)) (\<lambda>_ _ s. Some (EFI_SUCCESS, s))) sample_calls (initial_core True ())"
proof -
  let ?s = "initial_core True ()"
  let ?D = "entries_with 0x1000 a_guid (mProtocolDatabase ?s)"
  note R = ready_facts[OF ready_initial[of 40 "\<lambda>_ x. x" still "()"], simplified]
  have pool: "pool_fresh (hand ?s) (mProtocolDatabase ?s) 0x1000 0x2000 0x3000"
    by (simp add: initial_core_def initial_hand_def pool_fresh_def installed_in_def)
  obtain t where t: "CoreInstallProtocolInterface 40 still (\<lambda>_ _ s. Some (EFI_SUCCESS, s)) True 0x1000 0x2000 0x3000 (Some 0) (Some a_guid)
      EFI_NATIVE_INTERFACE 0x77 ?s = Some (EFI_SUCCESS, Some 0x3000, t)"
    "hand t = installed_hand 0 0x3000 (entry_of ?D a_guid) 0x2000 0x77 (hand ?s)"
    using install_run[OF R(1,2) pool _ R(4), of 0 a_guid "\<lambda>_ _ s. Some (EFI_SUCCESS, s)" True "0x77"] by auto
  have "mEfiLocateHandleRequest (hand t) \<noteq> - 1" using t(2) by (simp add: installed_hand_def with_handle_def initial_core_def initial_hand_def)
  then show ?thesis using pool t(1) by (simp add: sample_calls_def split: option.splits)
qed


section \<open>Searching for handles\<close>

lemma located_searched:
  assumes "searched s t"
  shows "located st g t = located st g s"
proof -
  have "gHandleList (hand t) = gHandleList (hand s)" using assms by (simp add: searched_def)
  then show ?thesis unfolding located_def handles_with_def searchedD(5,6)[OF assms] by simp
qed

lemma located_exact:
  assumes "db_inv s" "st = AllHandles \<or> st = ByProtocol"
  shows "h \<in> set (located st g s) \<longleftrightarrow> (if st = AllHandles then protocols s h \<noteq> Map.empty else protocols s h g \<noteq> None)"
  using handles_have_protocols[OF assms(1), of h] handles_with_exact(2)[OF db_inv_inv0[OF assms(1)], of h g] assms(2) by (auto simp: located_def)

lemma locate_buffer_run:
  assumes s: "at_ease s" "db_inv s" and r: "mEfiLocateHandleRequest (hand s) \<noteq> - 1" "mEfiLocateHandleRequest (hand s) \<noteq> - 2"
    and n: "2 \<le> n" "length (gHandleList (hand s)) < n" and len: "8 * length (gHandleList (hand s)) < 2 ^ 64"
    and st: "st = AllHandles \<or> st = ByProtocol"
  shows "\<exists>t. CoreLocateHandleBuffer n notify True st (Some g) SKey True True s =
      Some (if located st g s = [] then EFI_NOT_FOUND else EFI_SUCCESS, located st g s, t) \<and> db_inv t \<and> protocols t = protocols s \<and> at_ease t"
proof -
  have small: "8 * length (located st g s) < 2 ^ 64" using located_bound(3)[OF db_inv_inv0[OF s(2)], of st g] len by linarith
  obtain t where t: "CoreLocateHandle n notify st (Some g) SKey (Some 0) False s =
      (case locate_answer (located st g s) 0 of (status, size', buf) \<Rightarrow> Some (status, Some size', buf, t))" "searched s t"
    using locate_handle_run[OF s r(1) n len st disjI1[OF refl]] by blast
  show ?thesis
  proof (cases "located st g s = []")
    case True
    then show ?thesis using t searchedD(1,2,3)[OF t(2)] by (simp add: CoreLocateHandleBuffer_def locate_answer_def)
  next
    case False
    define z where "z = (of_nat (8 * length (located st g s)) :: UINTN)"
    have sz: "unat z = 8 * length (located st g s)" unfolding z_def by (rule unat_size[OF small])
    have first: "CoreLocateHandle n notify st (Some g) SKey (Some 0) False s = Some (EFI_BUFFER_TOO_SMALL, Some z, [], t)"
      using t(1) False by (simp add: locate_answer_def z_def)
    have req: "mEfiLocateHandleRequest (hand t) \<noteq> - 1" using t(2) r by (auto simp: searched_def eq_neg_iff_add_eq_0 add.assoc)
    have list: "gHandleList (hand t) = gHandleList (hand s)" using t(2) by (simp add: searched_def)
    obtain u where u: "CoreLocateHandle n notify st (Some g) SKey (Some z) True t =
        (case locate_answer (located st g s) z of (status, size', buf) \<Rightarrow> Some (status, Some size', buf, u))" "searched t u"
      using locate_handle_run[OF searchedD(1,2)[OF t(2)] req n(1) _ _ st, of z True notify g SKey] n(2) len
      unfolding list located_searched[OF t(2)] by blast
    have second: "CoreLocateHandle n notify st (Some g) SKey (Some z) True t = Some (EFI_SUCCESS, Some z, located st g s, u)"
      using u(1) False sz z_def by (simp add: locate_answer_def)
    have "unat (z div 8) = length (located st g s)" using sz by (simp add: unat_div)
    then have "CoreLocateHandleBuffer n notify True st (Some g) SKey True True s = Some (EFI_SUCCESS, located st g s, u)"
      unfolding CoreLocateHandleBuffer_def first Option.bind.simps prod.case by (simp add: second)
    then show ?thesis using False searchedD(1,2,3)[OF u(2)] searchedD(3)[OF t(2)] by simp
  qed
qed

text \<open>
  (C22) CoreLocateHandle and CoreLocateHandleBuffer, for all handles and for the handles of a protocol: the handles found are those of the
  database, each once. With no such handle the answer is EFI_NOT_FOUND and the size is left alone; with a buffer that is too small it is EFI_BUFFER_TOO_SMALL,
  the size is what is needed and the buffer has the handles that fit; otherwise it is EFI_SUCCESS with all of them, and the
  buffer that CoreLocateHandleBuffer allocates always has all of them. The database is as before.
\<close>

theorem locate_handle_exact:
  assumes s: "at_ease s" "db_inv s" and r: "mEfiLocateHandleRequest (hand s) \<noteq> - 1" "mEfiLocateHandleRequest (hand s) \<noteq> - 2"
    and n: "2 \<le> n" "length (gHandleList (hand s)) < n" and len: "8 * length (gHandleList (hand s)) < 2 ^ 64"
    and st: "st = AllHandles \<or> st = ByProtocol" and buf: "sz = 0 \<or> given"
  shows "\<exists>hs t u size'. distinct hs \<and> (\<forall>h. h \<in> set hs \<longleftrightarrow> (if st = AllHandles then protocols s h \<noteq> Map.empty else protocols s h g \<noteq> None))
    \<and> CoreLocateHandle n notify st (Some g) SKey (Some sz) given s =
        Some (if hs = [] then EFI_NOT_FOUND else if unat sz < 8 * length hs then EFI_BUFFER_TOO_SMALL else EFI_SUCCESS,
              Some size', take (unat sz div 8) hs, t)
    \<and> (if hs = [] then size' = sz else unat size' = 8 * length hs)
    \<and> CoreLocateHandleBuffer n notify True st (Some g) SKey True True s = Some (if hs = [] then EFI_NOT_FOUND else EFI_SUCCESS, hs, u)
    \<and> db_inv t \<and> protocols t = protocols s \<and> db_inv u \<and> protocols u = protocols s"
proof -
  let ?hs = "located st g s"
  have small: "8 * length ?hs < 2 ^ 64" using located_bound(3)[OF db_inv_inv0[OF s(2)], of st g] len by linarith
  obtain t where t: "CoreLocateHandle n notify st (Some g) SKey (Some sz) given s =
      (case locate_answer ?hs sz of (status, size', buf) \<Rightarrow> Some (status, Some size', buf, t))" "searched s t"
    using locate_handle_run[OF s r(1) n len st buf] by blast
  obtain u where u: "CoreLocateHandleBuffer n notify True st (Some g) SKey True True s = Some (if ?hs = [] then EFI_NOT_FOUND else EFI_SUCCESS, ?hs, u)"
    "db_inv u" "protocols u = protocols s" using locate_buffer_run[OF s r n len st] by blast
  have fits: "take (unat sz div 8) ?hs = ?hs" if "\<not> unat sz < 8 * length ?hs" using that by simp
  have "\<exists>size'. CoreLocateHandle n notify st (Some g) SKey (Some sz) given s =
      Some (if ?hs = [] then EFI_NOT_FOUND else if unat sz < 8 * length ?hs then EFI_BUFFER_TOO_SMALL else EFI_SUCCESS, Some size', take (unat sz div 8) ?hs, t)
      \<and> (if ?hs = [] then size' = sz else unat size' = 8 * length ?hs)"
    using t(1) fits unat_size[OF small] by (simp add: locate_answer_def)
  then show ?thesis
    using u located_bound(1)[OF db_inv_inv0[OF s(2)], of st g] located_exact[OF s(2) st, of _ g] searchedD(2,3)[OF t(2)] by blast
qed


text \<open>A database with one handle that has one protocol.\<close>

definition sample_db :: "unit DXE" where
  "sample_db = with_db (installed_hand 0 0x3000 0x1000 0x2000 0x77 initial_hand)
     [\<lparr>EntryAddress = 0x1000, ProtocolID = a_guid, EntryProtocols = [0x2000], Notifies = []\<rparr>] (initial_core True ())"

lemma sample_db_facts:
  "at_ease sample_db" "db_inv sample_db" "protocols sample_db = (\<lambda>_. Map.empty)(0x3000 := [a_guid \<mapsto> 0x77])"
  "gHandleList (hand sample_db) = [0x3000]" "mEfiLocateHandleRequest (hand sample_db) = 0"
  "on_handle sample_db 0x3000 a_guid = Some 0x2000" "OpenList (interface_at sample_db 0x2000) = []"
proof -
  have a: "at_ease (initial_core True ())" using ready_facts(1)[OF ready_initial[of 40 "\<lambda>_ x. x" still "()"]] by simp
  then show "at_ease sample_db" using settled_with_db[of "initial_core True ()"] by (simp add: sample_db_def at_ease_def)
  have inv: "hand_inv initial_hand []"
    by (simp add: initial_hand_def hand_inv_def hand_inv0_def handles_inv_def entries_inv_def links_inv_def)
  have pool: "pool_fresh initial_hand [] 0x1000 0x2000 0x3000" by (simp add: initial_hand_def pool_fresh_def installed_in_def)
  have d: "entry_of (entries_with 0x1000 a_guid []) a_guid = 0x1000"
    "map (linked 0x1000 0x2000) (entries_with 0x1000 a_guid []) = mProtocolDatabase sample_db"
    by (simp_all add: entries_with_def entry_of_def linked_def sample_db_def)
  note I = installed_inv[OF inv pool, of 0 a_guid "0x77", unfolded d]
  show "db_inv sample_db" using I(1) by (simp add: sample_db_def)
  show "protocols sample_db = (\<lambda>_. Map.empty)(0x3000 := [a_guid \<mapsto> 0x77])"
    using I(2) by (simp add: sample_db_def fun_eq_iff database_def protocol_on_def initial_hand_def)
  show "gHandleList (hand sample_db) = [0x3000]" "mEfiLocateHandleRequest (hand sample_db) = 0" "OpenList (interface_at sample_db 0x2000) = []"
    "on_handle sample_db 0x3000 a_guid = Some 0x2000"
    by (simp_all add: sample_db_def installed_hand_def with_handle_def initial_hand_def protocol_on_def protocol_of_def)
qed

theorem locate_handle_exact_witness:
  "\<exists>t. CoreLocateHandle 40 still ByProtocol (Some a_guid) 0 (Some 16) True sample_db = Some (EFI_SUCCESS, Some 8, [0x3000], t)"
proof -
  note F = sample_db_facts
  have num: "8 * length (gHandleList (hand sample_db)) < 2 ^ 64" by (simp add: F)
  obtain hs t size' where t: "distinct hs" "\<forall>h. h \<in> set hs \<longleftrightarrow> protocols sample_db h a_guid \<noteq> None"
    "CoreLocateHandle 40 still ByProtocol (Some a_guid) 0 (Some 16) True sample_db =
      Some (if hs = [] then EFI_NOT_FOUND else if unat (16 :: UINTN) < 8 * length hs then EFI_BUFFER_TOO_SMALL else EFI_SUCCESS,
            Some size', take (unat (16 :: UINTN) div 8) hs, t)"
    "if hs = [] then size' = 16 else unat size' = 8 * length hs"
    using locate_handle_exact[of sample_db 40 ByProtocol 16 True a_guid still 0] num by (auto simp: F)
  have "set hs = {0x3000}" using t(2) by (auto simp: F split: if_splits)
  then have hs: "hs = [0x3000]" using t(1) by (metis distinct_card card_1_singleton_iff One_nat_def card.empty card_insert_disjoint finite.emptyI empty_iff length_0_conv length_Suc_conv list.simps(15) singleton_insert_inj_eq' set_empty)
  have "size' = 8" using t(4) hs by (simp add: word_unat_eq_iff)
  then show ?thesis using t(3) hs by simp
qed

end
