(* ===== verification/Dxe_Open.thy ===== *)
theory Dxe_Open
  imports Dxe_Database
begin

text \<open>
  Opening and closing protocols: who may open an interface in which mode, and that closing undoes opening.
\<close>

unbundle bit_operations_syntax

section \<open>Openers\<close>

text \<open>An opener that claims an interface: a driver or an exclusive opener.\<close>

definition claims :: "OPEN_PROTOCOL_DATA \<Rightarrow> bool" where
  "claims d \<longleftrightarrow> Attributes d AND (EFI_OPEN_PROTOCOL_BY_DRIVER OR EFI_OPEN_PROTOCOL_EXCLUSIVE) \<noteq> 0"

definition sole_claim :: "OPEN_PROTOCOL_DATA list \<Rightarrow> bool" where
  "sole_claim l \<longleftrightarrow> length (filter claims l) \<le> 1"

lemma scan_cases:
  assumes "\<And>d. E d \<Longrightarrow> Attributes d = Attr"
  shows "OpenList_scan E b x l = Already_started \<longleftrightarrow> Attr AND EFI_OPEN_PROTOCOL_BY_DRIVER \<noteq> 0 \<and> list_ex E l"
    "(\<exists>l'. OpenList_scan E b x l = Counted l') \<longleftrightarrow>
       Attr AND EFI_OPEN_PROTOCOL_BY_DRIVER = 0 \<and> Attr AND EFI_OPEN_PROTOCOL_EXCLUSIVE = 0 \<and> list_ex E l"
  using assms by (induction E b x l rule: OpenList_scan.induct) (auto split: open_scan.splits)


lemma filter_claims_map: "map Attributes l' = map Attributes l \<Longrightarrow> length (filter claims l') = length (filter claims l)"
proof -
  have "length (filter claims k) = length (filter (\<lambda>a. a AND (EFI_OPEN_PROTOCOL_BY_DRIVER OR EFI_OPEN_PROTOCOL_EXCLUSIVE) \<noteq> 0) (map Attributes k))" for k
    by (induction k) (simp_all add: claims_def)
  moreover assume "map Attributes l' = map Attributes l"
  ultimately show ?thesis by (simp only:)
qed

lemma scan_counted_entry:
  "OpenList_scan E b x l = Counted l' \<Longrightarrow> (\<exists>d\<in>set l'. E (d\<lparr>OpenCount := OpenCount d - 1\<rparr>))"
  by (induction E b x l arbitrary: l' rule: OpenList_scan.induct) (auto split: if_splits open_scan.splits)

abbreviation opened_as :: "EFI_HANDLE \<Rightarrow> EFI_HANDLE \<Rightarrow> UINT32 \<Rightarrow> OPEN_PROTOCOL_DATA \<Rightarrow> bool" where
  "opened_as img ctl Attr d \<equiv> AgentHandle d = img \<and> Attributes d = Attr \<and> ControllerHandle d = ctl"

lemma open_effect_exact:
  assumes Attr: "Attr \<in> open_modes"
    and nodrv: "Attr AND EFI_OPEN_PROTOCOL_EXCLUSIVE \<noteq> 0 \<longrightarrow> (\<forall>d\<in>set l. Attributes d AND EFI_OPEN_PROTOCOL_BY_DRIVER = 0)"
    and eff: "open_effect Pool img ctl Attr l = (st, l')"
  defines "claim \<equiv> Attr AND (EFI_OPEN_PROTOCOL_BY_DRIVER OR EFI_OPEN_PROTOCOL_EXCLUSIVE) \<noteq> 0"
    and "again \<equiv> list_ex (opened_as img ctl Attr) l"
  shows "st = (if claim \<and> again \<and> Attr AND EFI_OPEN_PROTOCOL_BY_DRIVER \<noteq> 0 then EFI_ALREADY_STARTED
      else if claim \<and> list_ex claims l then EFI_ACCESS_DENIED
      else if again \<or> img = 0 \<or> Pool then EFI_SUCCESS else EFI_OUT_OF_RESOURCES)"
    and "sole_claim l \<Longrightarrow> sole_claim l'" and "st \<noteq> EFI_SUCCESS \<Longrightarrow> l' = l"
    and "st = EFI_SUCCESS \<Longrightarrow> img \<noteq> 0 \<Longrightarrow> list_ex (opened_as img ctl Attr) l'"
proof -
  let ?E = "opened_as img ctl Attr"
  have EA: "\<And>d. ?E d \<Longrightarrow> Attributes d = Attr" by simp
  note cases = scan_cases[of ?E Attr False False l, OF EA]
  have modes: "claim \<longleftrightarrow> Attr AND EFI_OPEN_PROTOCOL_BY_DRIVER \<noteq> 0 \<or> Attr AND EFI_OPEN_PROTOCOL_EXCLUSIVE \<noteq> 0"
    "Attr AND EFI_OPEN_PROTOCOL_BY_DRIVER \<noteq> 0 \<Longrightarrow> Attr = EFI_OPEN_PROTOCOL_BY_DRIVER \<or> Attr AND EFI_OPEN_PROTOCOL_EXCLUSIVE \<noteq> 0"
    using Attr unfolding open_modes_iff claim_def by (elim disjE; simp)+
  have any: "claims d \<longleftrightarrow> Attributes d AND EFI_OPEN_PROTOCOL_BY_DRIVER \<noteq> 0 \<or> Attributes d AND EFI_OPEN_PROTOCOL_EXCLUSIVE \<noteq> 0" for d
    unfolding claims_def bit.conj_disj_distrib or_eq_0_iff by blast
  have ex: "again \<Longrightarrow> claim \<Longrightarrow> list_ex claims l" unfolding again_def claim_def by (auto simp: list_ex_iff claims_def)
  have all: "st = (if claim \<and> again \<and> Attr AND EFI_OPEN_PROTOCOL_BY_DRIVER \<noteq> 0 then EFI_ALREADY_STARTED
      else if claim \<and> list_ex claims l then EFI_ACCESS_DENIED
      else if again \<or> img = 0 \<or> Pool then EFI_SUCCESS else EFI_OUT_OF_RESOURCES) \<and> (sole_claim l \<longrightarrow> sole_claim l') \<and> (st \<noteq> EFI_SUCCESS \<longrightarrow> l' = l)
      \<and> (st = EFI_SUCCESS \<longrightarrow> img \<noteq> 0 \<longrightarrow> list_ex ?E l')"
  proof (cases "OpenList_scan ?E False False l")
    case Already_started
    then have "st = EFI_ALREADY_STARTED" "l' = l" using eff by (simp_all add: open_effect_def)
    moreover have "again" "Attr AND EFI_OPEN_PROTOCOL_BY_DRIVER \<noteq> 0" using cases(1) Already_started by (simp_all add: again_def)
    ultimately show ?thesis using modes(1) by simp
  next
    case (Counted k)
    then have "st = EFI_SUCCESS" "l' = k" using eff by (simp_all add: open_effect_def)
    moreover have "again" "\<not> claim" using cases(2) Counted modes(1) by (auto simp: again_def)
    moreover have "sole_claim k = sole_claim l" using filter_claims_map[OF scan_counted[OF Counted]] by (simp add: sole_claim_def)
    moreover have "list_ex ?E k" using scan_counted_entry[OF Counted] by (auto simp: list_ex_iff)
    ultimately show ?thesis by simp
  next
    case (Scanned b x)
    let ?den = "Attr = EFI_OPEN_PROTOCOL_BY_DRIVER \<and> (x \<or> b) \<or> Attr AND EFI_OPEN_PROTOCOL_EXCLUSIVE \<noteq> 0 \<and> x"
    have bx: "b \<longleftrightarrow> (\<exists>d\<in>set l. Attributes d AND EFI_OPEN_PROTOCOL_BY_DRIVER \<noteq> 0)" "x \<longleftrightarrow> (\<exists>d\<in>set l. Attributes d AND EFI_OPEN_PROTOCOL_EXCLUSIVE \<noteq> 0)"
      using scan_driver[OF Scanned] by simp_all
    have "list_ex claims l \<longleftrightarrow> b \<or> x" unfolding bx list_ex_iff any by blast
    moreover have "Attr AND EFI_OPEN_PROTOCOL_EXCLUSIVE \<noteq> 0 \<Longrightarrow> \<not> b" using nodrv bx(1) by blast
    ultimately have den: "?den \<longleftrightarrow> claim \<and> list_ex claims l" using modes by auto
    have na: "\<not> (again \<and> Attr AND EFI_OPEN_PROTOCOL_BY_DRIVER \<noteq> 0)" "again \<Longrightarrow> claim"
      using cases Scanned modes(1) by (auto simp: again_def)
    have eff': "(st, l') = (if ?den then (EFI_ACCESS_DENIED, l) else if img = 0 then (EFI_SUCCESS, l) else if \<not> Pool then (EFI_OUT_OF_RESOURCES, l)
        else (EFI_SUCCESS, l @ [\<lparr>AgentHandle = img, ControllerHandle = ctl, Attributes = Attr, OpenCount = 1\<rparr>]))"
      using eff unfolding open_effect_def Scanned by simp
    have new: "claims \<lparr>AgentHandle = img, ControllerHandle = ctl, Attributes = Attr, OpenCount = 1\<rparr> = claim" by (simp add: claims_def claim_def)
    have none: "\<not> list_ex claims l \<Longrightarrow> filter claims l = []" by (simp add: filter_empty_conv list_ex_iff)
    show ?thesis
    proof (cases "claim \<and> list_ex claims l")
      case True
      then show ?thesis using eff' na(1) den by auto
    next
      case False
      then have noag: "\<not> again" using na(2) ex by blast
      have "sole_claim (l @ [\<lparr>AgentHandle = img, ControllerHandle = ctl, Attributes = Attr, OpenCount = 1\<rparr>])" if "sole_claim l"
        using that False none by (cases claim) (simp_all add: sole_claim_def new)
      then show ?thesis using eff' noag False den by (cases "img = 0"; cases Pool) (simp_all split: if_splits)
    qed
  qed
  then show "st = (if claim \<and> again \<and> Attr AND EFI_OPEN_PROTOCOL_BY_DRIVER \<noteq> 0 then EFI_ALREADY_STARTED
      else if claim \<and> list_ex claims l then EFI_ACCESS_DENIED
      else if again \<or> img = 0 \<or> Pool then EFI_SUCCESS else EFI_OUT_OF_RESOURCES)"
    and "sole_claim l \<Longrightarrow> sole_claim l'" and "st \<noteq> EFI_SUCCESS \<Longrightarrow> l' = l"
    and "st = EFI_SUCCESS \<Longrightarrow> img \<noteq> 0 \<Longrightarrow> list_ex (opened_as img ctl Attr) l'"
    by blast+
qed



lemma count_filtered: "(of_nat (length l) :: 'a::len word) - of_nat (length (filter P l)) = of_nat (length (filter (\<lambda>x. \<not> P x) l))"
  using sum_length_filter_compl[of P l] by (metis add_diff_cancel_left' of_nat_add)

lemma close_protocol_run:
  assumes s: "at_ease s" "db_inv s" and n: "2 \<le> n" and on: "on_handle s h g = Some p"
    and agent: "agent \<in> set (gHandleList (hand s))" and ctl: "ctl = 0 \<or> ctl \<in> set (gHandleList (hand s))"
  defines "mine \<equiv> \<lambda>d. AgentHandle d = agent \<and> ControllerHandle d = ctl"
  shows "\<exists>t. CoreCloseProtocol n notify h (Some g) agent ctl s =
      Some (if list_ex mine (OpenList (interface_at s p)) then EFI_SUCCESS else EFI_NOT_FOUND, t)
    \<and> view t = view (s\<lparr>hand := with_open p (filter (\<lambda>d. \<not> mine d) (OpenList (interface_at s p))) (hand s)\<rparr>) \<and> at_ease t"
proof -
  have inv: "db_inv0 s" by (rule db_inv_inv0[OF s(2)])
  note P = on_handle_Some[OF inv on]
  let ?l = "filter (\<lambda>d. \<not> mine d) (OpenList (interface_at s p))" and ?u = "acquired PL s"
  let ?H = "with_open p ?l (hand s)"
  have same: "with_db ?H (mProtocolDatabase s) ?u = ?u\<lparr>hand := ?H\<rparr>" "with_db ?H (mProtocolDatabase s) s = s\<lparr>hand := ?H\<rparr>"
    by (rule DXE.equality; simp)+
  obtain t where t: "CoreReleaseProtocolLock n notify (?u\<lparr>hand := ?H\<rparr>) = Some t" "view t = view (s\<lparr>hand := ?H\<rparr>)" "at_ease t"
    using release_ease[OF s(1) n, where H = ?H and D = "mProtocolDatabase s"] unfolding same by blast
  have get: "CoreGetProtocolInterface h g ?u = Some p" using get_interface[of ?u h g] inv on by simp
  have upd: "put_interface p (\<lambda>q. q\<lparr>OpenList := filter (\<lambda>d. \<not> mine d) (OpenList q),
      OpenListCount := OpenListCount q - of_nat (length (filter mine (OpenList q)))\<rparr>) ?u = ?u\<lparr>hand := ?H\<rparr>"
    using P(6) by (simp add: put_interface_def put_hand_def with_open_def count_filtered[symmetric])
  have "CoreCloseProtocol n notify h (Some g) agent ctl s = Some (if list_ex mine (OpenList (interface_at s p)) then EFI_SUCCESS else EFI_NOT_FOUND, t)"
    using validate_handle[OF inv] P(1,4) agent ctl acquire_ease[OF s(1)] get t(1) upd
    by (auto simp: CoreCloseProtocol_def mine_def Let_def)
  then show ?thesis using t(2,3) by blast
qed

lemma with_open_twice: "with_open p l (with_open p l' H) = with_open p l H"
  by (simp add: with_open_def)

lemma with_open_same:
  assumes "OpenListCount (interface H p) = of_nat (length (OpenList (interface H p)))"
  shows "with_open p (OpenList (interface H p)) H = H"
  unfolding with_open_def assms[symmetric] by simp

lemma open_effect_appends:
  assumes "\<not> list_ex (opened_as img ctl Attr) l" "img \<noteq> 0"
    and free: "Attr AND (EFI_OPEN_PROTOCOL_BY_DRIVER OR EFI_OPEN_PROTOCOL_EXCLUSIVE) \<noteq> 0 \<longrightarrow> \<not> list_ex claims l"
  shows "open_effect True img ctl Attr l =
    (EFI_SUCCESS, l @ [\<lparr>AgentHandle = img, ControllerHandle = ctl, Attributes = Attr, OpenCount = 1\<rparr>])"
proof -
  let ?E = "opened_as img ctl Attr"
  have EA: "\<And>d. ?E d \<Longrightarrow> Attributes d = Attr" by simp
  obtain b x where sc: "OpenList_scan ?E False False l = Scanned b x"
    using scan_cases[of ?E Attr False False l, OF EA] assms(1) by (cases "OpenList_scan ?E False False l") auto
  have "\<not> (Attr = EFI_OPEN_PROTOCOL_BY_DRIVER \<and> (x \<or> b) \<or> Attr AND EFI_OPEN_PROTOCOL_EXCLUSIVE \<noteq> 0 \<and> x)"
  proof
    assume den: "Attr = EFI_OPEN_PROTOCOL_BY_DRIVER \<and> (x \<or> b) \<or> Attr AND EFI_OPEN_PROTOCOL_EXCLUSIVE \<noteq> 0 \<and> x"
    then have "Attr AND (EFI_OPEN_PROTOCOL_BY_DRIVER OR EFI_OPEN_PROTOCOL_EXCLUSIVE) \<noteq> 0" unfolding bit.conj_disj_distrib or_eq_0_iff by auto
    moreover have "list_ex claims l"
      using den scan_driver[OF sc] unfolding list_ex_iff claims_def bit.conj_disj_distrib or_eq_0_iff by blast
    ultimately show False using free by blast
  qed
  then show ?thesis unfolding open_effect_def sc open_scan.case using assms(2) by simp
qed

text \<open>
  (C24) Closing undoes opening: an agent that opens a protocol of a handle for a controller, in a mode that nobody's claim forbids and without having it
  open for that controller already, gets the interface and is among its openers; when it closes the protocol for that controller
  the whole handle database is what it was.
\<close>

theorem close_undoes_open:
  assumes s: "at_ease s" "db_inv s" and Attr: "Attr \<in> open_modes" "open_handles (hand s) h img ctl Attr" and n: "2 \<le> n"
    and given: "Attr \<noteq> EFI_OPEN_PROTOCOL_TEST_PROTOCOL \<longrightarrow> given" and on: "on_handle s h g = Some p"
    and agent: "img \<in> set (gHandleList (hand s))" and ctl: "ctl = 0 \<or> ctl \<in> set (gHandleList (hand s))"
    and new: "\<not> list_ex (\<lambda>d. AgentHandle d = img \<and> ControllerHandle d = ctl) (OpenList (interface_at s p))"
    and free: "Attr AND (EFI_OPEN_PROTOCOL_BY_DRIVER OR EFI_OPEN_PROTOCOL_EXCLUSIVE) \<noteq> 0 \<longrightarrow> \<not> list_ex claims (OpenList (interface_at s p))"
  shows "\<exists>t u out. CoreOpenProtocol n notify Disconnect True h (Some g) given img ctl Attr s = Some (EFI_SUCCESS, out, t)
    \<and> list_ex (opened_as img ctl Attr) (OpenList (interface_at t p))
    \<and> CoreCloseProtocol n notify h (Some g) img ctl t = Some (EFI_SUCCESS, u)
    \<and> hand u = hand s \<and> mProtocolDatabase u = mProtocolDatabase s \<and> at_ease u"
proof -
  let ?l = "OpenList (interface_at s p)" and ?d = "\<lparr>AgentHandle = img, ControllerHandle = ctl, Attributes = Attr, OpenCount = 1\<rparr>"
  have inv: "db_inv0 s" by (rule db_inv_inv0[OF s(2)])
  note P = on_handle_Some[OF inv on]
  have img: "img \<noteq> 0" using agent inv by (auto simp: hand_inv0_def handles_inv_def)
  have none: "\<not> list_ex (opened_as img ctl Attr) ?l" using new by (auto simp: list_ex_iff)
  have nodrv: "Attr AND EFI_OPEN_PROTOCOL_EXCLUSIVE \<noteq> 0 \<longrightarrow> (\<forall>d\<in>set ?l. Attributes d AND EFI_OPEN_PROTOCOL_BY_DRIVER = 0)"
    using free unfolding list_ex_iff claims_def bit.conj_disj_distrib or_eq_0_iff by blast
  have eff: "open_effect True img ctl Attr ?l = (EFI_SUCCESS, ?l @ [?d])"
    by (rule open_effect_appends[OF none img free])
  obtain out t where t: "CoreOpenProtocol n notify Disconnect True h (Some g) given img ctl Attr s = Some (EFI_SUCCESS, out, t)"
      "view t = view (s\<lparr>hand := with_open p (?l @ [?d]) (hand s)\<rparr>)" "at_ease t"
    using open_protocol_run(2)[OF s(1) inv Attr n given on nodrv eff] by blast
  have db: "hand t = with_open p (?l @ [?d]) (hand s)" "mProtocolDatabase t = mProtocolDatabase s" using view_hand[OF t(2)] by simp_all
  have inv_t: "db_inv t" using inv_with_open[OF s(2)] by (simp add: db)
  have "filter (\<lambda>d. \<not> (AgentHandle d = img \<and> ControllerHandle d = ctl)) (?l @ [?d]) = ?l" using new by (auto simp: list_ex_iff filter_id_conv)
  moreover have "on_handle t h g = Some p" "OpenList (interface_at t p) = ?l @ [?d]" "gHandleList (hand t) = gHandleList (hand s)" using on by (simp_all add: db)
  ultimately obtain u where u: "CoreCloseProtocol n notify h (Some g) img ctl t = Some (EFI_SUCCESS, u)"
      "view u = view (t\<lparr>hand := with_open p ?l (hand t)\<rparr>)" "at_ease u"
    using close_protocol_run[OF t(3) inv_t n, of h g p img ctl notify] agent ctl by auto
  have "hand u = hand s" "mProtocolDatabase u = mProtocolDatabase s"
    using view_hand[OF u(2)] with_open_same[OF P(6)] by (simp_all add: db with_open_twice)
  moreover have "list_ex (opened_as img ctl Attr) (OpenList (interface_at t p))" by (simp add: db)
  ultimately show ?thesis using t(1) u(1,3) by blast
qed


lemma sample_open: "open_handles (hand sample_db) 0x3000 0x3000 0x3000 EFI_OPEN_PROTOCOL_BY_DRIVER" "EFI_OPEN_PROTOCOL_BY_DRIVER \<in> open_modes"
  by (simp_all add: open_handles_def open_modes_def sample_db_facts)


theorem close_undoes_open_witness:
  "\<exists>t u out. CoreOpenProtocol 40 still (\<lambda>_ _ s. Some (EFI_SUCCESS, s)) True 0x3000 (Some a_guid) True 0x3000 0x3000 EFI_OPEN_PROTOCOL_BY_DRIVER sample_db
      = Some (EFI_SUCCESS, out, t) \<and> CoreCloseProtocol 40 still 0x3000 (Some a_guid) 0x3000 0x3000 t = Some (EFI_SUCCESS, u) \<and> hand u = hand sample_db"
  using close_undoes_open[OF sample_db_facts(1,2) sample_open(2,1) _ _ sample_db_facts(6), of 40 True still "\<lambda>_ _ s. Some (EFI_SUCCESS, s)"]
  by (auto simp: sample_db_facts)

end
