(* ===== verification/Gcd_Map.thy ===== *)
theory Gcd_Map
  imports Liano_Prelude
begin

text \<open>
  The maps of the global coherency domain (MdeModulePkg/Core/Dxe/Gcd/Gcd.c): a list of entries, each for a range of addresses, and the worker
  functions that search, split, convert and merge entries. A position in the list (the parameters Link, StartLink and EndLink of the code) is a
  splitting of it: the entries before it, the entry or entries meant, and the entries after.
\<close>

unbundle bit_operations_syntax

section \<open>Entries\<close>

text \<open>
  EFI_GCD_MAP_ENTRY. Its signature is not followed for the entries of a list, which all carry it; of the two work entries that an operation
  allocates it tells whether they are still unused.
\<close>

record EFI_GCD_MAP_ENTRY =
  BaseAddress :: UINT64
  EndAddress :: UINT64
  Capabilities :: UINT64
  GcdAttributes :: UINT64
  GcdMemoryType :: UINT32
  GcdIoType :: UINT32
  GcdImageHandle :: UINT64
  GcdDeviceHandle :: UINT64

record gcd_spare =
  BottomUnused :: bool
  TopUnused :: bool

abbreviation EfiGcdMemoryTypeNonExistent :: UINT32 where "EfiGcdMemoryTypeNonExistent \<equiv> 0"
abbreviation EfiGcdMemoryTypeSystemMemory :: UINT32 where "EfiGcdMemoryTypeSystemMemory \<equiv> 2"
abbreviation EfiGcdMemoryTypeMemoryMappedIo :: UINT32 where "EfiGcdMemoryTypeMemoryMappedIo \<equiv> 3"
abbreviation EfiGcdMemoryTypeMoreReliable :: UINT32 where "EfiGcdMemoryTypeMoreReliable \<equiv> 5"
abbreviation EfiGcdMemoryTypeMaximum :: UINT32 where "EfiGcdMemoryTypeMaximum \<equiv> 6"

abbreviation EfiGcdIoTypeNonExistent :: UINT32 where "EfiGcdIoTypeNonExistent \<equiv> 0"
abbreviation EfiGcdIoTypeMaximum :: UINT32 where "EfiGcdIoTypeMaximum \<equiv> 3"

section \<open>Searching, splitting and merging\<close>

text \<open>
  The loop of CoreSearchGcdMapEntry: \<open>bf\<close> are the entries before StartLink, \<open>found\<close> those from StartLink on that are passed, \<open>None\<close> while there
  is no StartLink. The result splits the list at StartLink and behind EndLink.
\<close>

fun SearchGcdMapEntry_loop ::
  "UINT64 \<Rightarrow> UINT64 \<Rightarrow> EFI_GCD_MAP_ENTRY list \<Rightarrow> EFI_GCD_MAP_ENTRY list option \<Rightarrow> EFI_GCD_MAP_ENTRY list
   \<Rightarrow> (EFI_GCD_MAP_ENTRY list \<times> EFI_GCD_MAP_ENTRY list \<times> EFI_GCD_MAP_ENTRY list) option" where
  "SearchGcdMapEntry_loop Base Last bf found [] = None"
| "SearchGcdMapEntry_loop Base Last bf found (Entry # l) =
     (let start = (Base \<ge> BaseAddress Entry \<and> Base \<le> EndAddress Entry);
          bf = (if start then (case found of None \<Rightarrow> bf | Some es \<Rightarrow> bf @ es) else bf);
          found = (if start then Some [] else found)
      in case found of
           None \<Rightarrow> SearchGcdMapEntry_loop Base Last (bf @ [Entry]) None l
         | Some es \<Rightarrow>
             if Last \<ge> BaseAddress Entry \<and> Last \<le> EndAddress Entry then Some (bf, es @ [Entry], l)
             else SearchGcdMapEntry_loop Base Last bf (Some (es @ [Entry])) l)"

definition CoreSearchGcdMapEntry ::
  "UINT64 \<Rightarrow> UINT64 \<Rightarrow> EFI_GCD_MAP_ENTRY list
   \<Rightarrow> (EFI_STATUS \<times> EFI_GCD_MAP_ENTRY list \<times> EFI_GCD_MAP_ENTRY list \<times> EFI_GCD_MAP_ENTRY list) option" where
  "CoreSearchGcdMapEntry Base Len Map =
     do {
       ASSERT (Len \<noteq> 0);
       Some (case SearchGcdMapEntry_loop Base (Base + Len - 1) [] None Map of
               Some (bf, es, af) \<Rightarrow> (EFI_SUCCESS, bf, es, af)
             | None \<Rightarrow> (EFI_NOT_FOUND, [], [], []))
     }"

definition CoreCountGcdMapEntry :: "EFI_GCD_MAP_ENTRY list \<Rightarrow> UINTN" where
  "CoreCountGcdMapEntry Map = of_nat (length Map)"

text \<open>Splitting the entry \<open>e\<close>, with the entries \<open>bf\<close> before it and \<open>af\<close> after it.\<close>

definition CoreInsertGcdMapEntry ::
  "UINT64 \<Rightarrow> UINT64 \<Rightarrow> gcd_spare \<Rightarrow> EFI_GCD_MAP_ENTRY list \<Rightarrow> EFI_GCD_MAP_ENTRY \<Rightarrow> EFI_GCD_MAP_ENTRY list
   \<Rightarrow> (gcd_spare \<times> EFI_GCD_MAP_ENTRY list \<times> EFI_GCD_MAP_ENTRY \<times> EFI_GCD_MAP_ENTRY list) option" where
  "CoreInsertGcdMapEntry Base Len sp bf e af =
     do {
       ASSERT (Len \<noteq> 0);
       (sp, bf, e) \<leftarrow>
         (if Base > BaseAddress e
          then do {
            ASSERT (BottomUnused sp);
            Some (sp\<lparr>BottomUnused := False\<rparr>, bf @ [e\<lparr>EndAddress := Base - 1\<rparr>], e\<lparr>BaseAddress := Base\<rparr>)
          }
          else Some (sp, bf, e));
       if Base + Len - 1 < EndAddress e
       then do {
         ASSERT (TopUnused sp);
         Some (sp\<lparr>TopUnused := False\<rparr>, bf, e\<lparr>EndAddress := Base + Len - 1\<rparr>, e\<lparr>BaseAddress := Base + Len\<rparr> # af)
       }
       else Some (sp, bf, e, af)
     }"

definition CoreMergeGcdMapEntry ::
  "bool \<Rightarrow> EFI_GCD_MAP_ENTRY list \<Rightarrow> EFI_GCD_MAP_ENTRY \<Rightarrow> EFI_GCD_MAP_ENTRY list
   \<Rightarrow> EFI_STATUS \<times> EFI_GCD_MAP_ENTRY list \<times> EFI_GCD_MAP_ENTRY \<times> EFI_GCD_MAP_ENTRY list" where
  "CoreMergeGcdMapEntry Forward bf e af =
     (if (if Forward then af else bf) = [] then (EFI_SUCCESS, bf, e, af)
      else let adj = (if Forward then hd af else last bf)
           in if Capabilities e \<noteq> Capabilities adj \<or> GcdAttributes e \<noteq> GcdAttributes adj \<or> GcdMemoryType e \<noteq> GcdMemoryType adj
                \<or> GcdIoType e \<noteq> GcdIoType adj \<or> GcdImageHandle e \<noteq> GcdImageHandle adj \<or> GcdDeviceHandle e \<noteq> GcdDeviceHandle adj
              then (EFI_UNSUPPORTED, bf, e, af)
              else if Forward then (EFI_SUCCESS, bf, e\<lparr>EndAddress := EndAddress adj\<rparr>, tl af)
              else (EFI_SUCCESS, butlast bf, e\<lparr>BaseAddress := BaseAddress adj\<rparr>, af))"

fun CleanupGcdMapEntry_loop :: "EFI_GCD_MAP_ENTRY list \<Rightarrow> EFI_GCD_MAP_ENTRY list \<Rightarrow> EFI_GCD_MAP_ENTRY list" where
  "CleanupGcdMapEntry_loop bf [] = bf"
| "CleanupGcdMapEntry_loop bf (e # es) =
     (case CoreMergeGcdMapEntry False bf e es of (_, bf, e, es') \<Rightarrow> CleanupGcdMapEntry_loop (bf @ [e]) es)"

text \<open>\<open>es\<close> are the entries from StartLink to EndLink; after the loop EndLink is the last entry of \<open>bf\<close>.\<close>

definition CoreCleanupGcdMapEntry ::
  "EFI_GCD_MAP_ENTRY list \<Rightarrow> EFI_GCD_MAP_ENTRY list \<Rightarrow> EFI_GCD_MAP_ENTRY list \<Rightarrow> EFI_STATUS \<times> EFI_GCD_MAP_ENTRY list" where
  "CoreCleanupGcdMapEntry bf es af =
     (let bf = CleanupGcdMapEntry_loop bf es
      in case CoreMergeGcdMapEntry True (butlast bf) (last bf) af of (_, bf, e, af) \<Rightarrow> (EFI_SUCCESS, bf @ [e] @ af))"

text \<open>
  The loop that inserts and converts the entries from StartLink to EndLink, in CoreConvertSpace and in CoreAllocateSpace: \<open>es\<close> are the entries
  from StartLink up to before Link, \<open>todo\<close> those from Link to EndLink. \<open>conv\<close> is what the loop does to an entry, with a value \<open>a\<close> that it carries along.
\<close>

function ConvertGcdMap_loop ::
  "('a \<Rightarrow> EFI_GCD_MAP_ENTRY \<Rightarrow> 'a \<times> EFI_GCD_MAP_ENTRY) \<Rightarrow> UINT64 \<Rightarrow> UINT64 \<Rightarrow> gcd_spare \<Rightarrow> 'a
   \<Rightarrow> EFI_GCD_MAP_ENTRY list \<Rightarrow> EFI_GCD_MAP_ENTRY list \<Rightarrow> EFI_GCD_MAP_ENTRY list \<Rightarrow> EFI_GCD_MAP_ENTRY list
   \<Rightarrow> (EFI_GCD_MAP_ENTRY list \<times> EFI_GCD_MAP_ENTRY list \<times> EFI_GCD_MAP_ENTRY list) option" where
  "ConvertGcdMap_loop conv Base Len sp a bf es [] af = Some (bf, es, af)"
| "ConvertGcdMap_loop conv Base Len sp a bf es (e # todo) af =
     do {
       (sp', before, e, after) \<leftarrow>
         CoreInsertGcdMapEntry Base Len sp (if es = [] then bf else es) e (if todo = [] then af else todo);
       let (a, e) = conv a e;
       ConvertGcdMap_loop conv Base Len sp' a (if es = [] then before else bf) ((if es = [] then [] else before) @ [e])
         (if todo = [] then [] else after) (if todo = [] then after else af)
     }"
  by pat_completeness auto
termination
  by (relation "measure (\<lambda>(conv, Base, Len, sp, a, bf, es, todo, af). length todo + of_bool (TopUnused sp))")
    (auto simp: CoreInsertGcdMapEntry_def ASSERT_def split: if_splits bind_splits option.splits)

section \<open>Maps as tilings of an interval\<close>

text \<open>
  A list of entries tiles the addresses from \<open>lo\<close> up to below \<open>hi\<close>: each entry begins where the one before it ends.
\<close>

fun tiles :: "nat \<Rightarrow> EFI_GCD_MAP_ENTRY list \<Rightarrow> nat \<Rightarrow> bool" where
  "tiles lo [] hi \<longleftrightarrow> lo = hi"
| "tiles lo (e # es) hi \<longleftrightarrow> unat (BaseAddress e) = lo \<and> lo \<le> unat (EndAddress e) \<and> tiles (unat (EndAddress e) + 1) es hi"

text \<open>What an entry says of its addresses, and what a list says of an address.\<close>

definition what :: "EFI_GCD_MAP_ENTRY \<Rightarrow> EFI_GCD_MAP_ENTRY" where
  "what e = e\<lparr>BaseAddress := 0, EndAddress := 0\<rparr>"

abbreviation holds_address :: "nat \<Rightarrow> EFI_GCD_MAP_ENTRY \<Rightarrow> bool" where
  "holds_address x e \<equiv> unat (BaseAddress e) \<le> x \<and> x \<le> unat (EndAddress e)"

definition space :: "EFI_GCD_MAP_ENTRY list \<Rightarrow> nat \<Rightarrow> EFI_GCD_MAP_ENTRY option" where
  "space m x = map_option what (find (holds_address x) m)"

text \<open>No entry could be merged with the next one.\<close>

fun merged :: "EFI_GCD_MAP_ENTRY list \<Rightarrow> bool" where
  "merged (e # f # es) \<longleftrightarrow> what e \<noteq> what f \<and> merged (f # es)"
| "merged _ \<longleftrightarrow> True"

lemma tiles_le: "tiles lo m hi \<Longrightarrow> lo \<le> hi"
  by (induction lo m hi rule: tiles.induct) auto

lemma tiles_append: "tiles lo (xs @ ys) hi \<longleftrightarrow> (\<exists>k. tiles lo xs k \<and> tiles k ys hi)"
  by (induction lo xs hi rule: tiles.induct) auto

lemma tiles_hi: "tiles lo m hi \<Longrightarrow> m \<noteq> [] \<Longrightarrow> hi = unat (EndAddress (last m)) + 1 \<and> lo < hi"
  by (induction lo m hi rule: tiles.induct) (auto dest: tiles_le split: if_splits)

lemma tiles_bound: "tiles lo m hi \<Longrightarrow> m \<noteq> [] \<Longrightarrow> hi \<le> 2 ^ 64"
  using tiles_hi[of lo m hi] unat_less_power[of "EndAddress (last m)"] by simp

lemma space_out: "tiles lo m hi \<Longrightarrow> x < lo \<or> hi \<le> x \<Longrightarrow> space m x = None"
  by (induction lo m hi rule: tiles.induct) (auto simp: space_def dest: tiles_le)

lemma space_in: "tiles lo m hi \<Longrightarrow> lo \<le> x \<Longrightarrow> x < hi \<Longrightarrow> space m x \<noteq> None"
  by (induction lo m hi rule: tiles.induct) (auto simp: space_def)

lemma space_Cons:
  assumes "tiles lo (e # es) hi"
  shows "space (e # es) x = (if x < lo then None else if x \<le> unat (EndAddress e) then Some (what e) else space es x)"
  using assms space_out[of "unat (EndAddress e) + 1" es hi x] by (auto simp: space_def)

lemma space_append:
  assumes "tiles lo xs k" "tiles k ys hi"
  shows "space (xs @ ys) x = (if x < k then space xs x else space ys x)"
  using assms
proof (induction lo xs k rule: tiles.induct)
  case (1 lo hi)
  then show ?case using space_out[of hi ys _ x] by (auto simp: space_def)
next
  case (2 lo e es k)
  have t: "tiles lo (e # es @ ys) hi" using 2(2,3) by (auto simp: tiles_append)
  have le: "unat (EndAddress e) < k" using 2(2) tiles_le[of "unat (EndAddress e) + 1" es k] by simp
  have le2: "k \<le> hi" using tiles_le[OF 2(3)] .
  show ?case using 2(1,2,3) space_Cons[OF t, of x] space_Cons[OF 2(2), of x] le space_out[OF 2(3), of x] by auto
qed

lemma what_fields [simp]:
  "what (e\<lparr>BaseAddress := x\<rparr>) = what e" "what (e\<lparr>EndAddress := x\<rparr>) = what e" "what (what e) = what e"
  by (simp_all add: what_def)

lemma what_eq_iff:
  "what e = what f \<longleftrightarrow> Capabilities e = Capabilities f \<and> GcdAttributes e = GcdAttributes f \<and> GcdMemoryType e = GcdMemoryType f
     \<and> GcdIoType e = GcdIoType f \<and> GcdImageHandle e = GcdImageHandle f \<and> GcdDeviceHandle e = GcdDeviceHandle f"
  by (cases e; cases f) (auto simp: what_def)

lemma merged_append:
  "merged (xs @ ys) \<longleftrightarrow> merged xs \<and> merged ys \<and> (xs \<noteq> [] \<and> ys \<noteq> [] \<longrightarrow> what (last xs) \<noteq> what (hd ys))"
  by (induction xs rule: merged.induct) (cases ys; auto)+

section \<open>The search finds the entries of a range\<close>

lemma search_inside:
  assumes "tiles k l hi" "l \<noteq> []" "k \<le> unat Last" "unat Last < hi" "\<And>e. e \<in> set l \<Longrightarrow> Base < BaseAddress e"
  shows "\<exists>es af. SearchGcdMapEntry_loop Base Last bf (Some acc) l = Some (bf, acc @ es, af) \<and> es @ af = l \<and> es \<noteq> []
    \<and> holds_address (unat Last) (last es)"
  using assms
proof (induction k l hi arbitrary: acc rule: tiles.induct)
  case (2 k e l hi)
  have out: "\<not> (Base \<ge> BaseAddress e \<and> Base \<le> EndAddress e)" using 2(6)[of e] by auto
  show ?case
  proof (cases "unat Last \<le> unat (EndAddress e)")
    case True
    then show ?thesis using 2(2,4) out by (auto simp: Let_def word_le_nat_alt intro!: exI[of _ "[e]"])
  next
    case False
    then have "l \<noteq> []" using 2(2,5) by auto
    moreover have "unat (EndAddress e) + 1 \<le> unat Last" using False by simp
    ultimately obtain es af where "SearchGcdMapEntry_loop Base Last bf (Some (acc @ [e])) l = Some (bf, (acc @ [e]) @ es, af)" "es @ af = l" "es \<noteq> []"
      "holds_address (unat Last) (last es)"
      using 2(1)[of "acc @ [e]"] 2(2,5,6) by auto
    then show ?thesis using out False by (intro exI[of _ "e # es"] exI[of _ af]) (auto simp: Let_def word_le_nat_alt)
  qed
qed simp


lemma tiles_above: "tiles k l hi \<Longrightarrow> e \<in> set l \<Longrightarrow> k \<le> unat (BaseAddress e) \<and> unat (EndAddress e) < hi"
  by (induction k l hi rule: tiles.induct) (auto dest: tiles_le)

lemma search_from:
  assumes "tiles k l hi" "k \<le> unat Base" "Base \<le> Last" "unat Last < hi"
  shows "\<exists>pre es af. SearchGcdMapEntry_loop Base Last bf None l = Some (bf @ pre, es, af) \<and> pre @ es @ af = l \<and> es \<noteq> []
    \<and> holds_address (unat Base) (hd es) \<and> holds_address (unat Last) (last es)"
  using assms
proof (induction k l hi arbitrary: bf rule: tiles.induct)
  case (2 k e l hi)
  have e: "unat (BaseAddress e) = k" "k \<le> unat (EndAddress e)" "tiles (unat (EndAddress e) + 1) l hi" using 2(2) by simp_all
  have le: "unat Base \<le> unat Last" using 2(4) by (simp add: word_le_nat_alt)
  show ?case
  proof (cases "unat Base \<le> unat (EndAddress e)")
    case False
    obtain pre es af where "SearchGcdMapEntry_loop Base Last (bf @ [e]) None l = Some ((bf @ [e]) @ pre, es, af)" "pre @ es @ af = l" "es \<noteq> []"
      "holds_address (unat Base) (hd es) \<and> holds_address (unat Last) (last es)"
      using 2(1)[OF e(3), of "bf @ [e]"] 2(4,5) False by auto
    then show ?thesis using False by (intro exI[of _ "e # pre"] exI[of _ es] exI[of _ af]) (auto simp: Let_def word_le_nat_alt)
  next
    case True
    show ?thesis
    proof (cases "unat Last \<le> unat (EndAddress e)")
      case last: True
      then show ?thesis using True e(1) 2(3) le
        by (intro exI[of _ "[]"] exI[of _ "[e]"] exI[of _ l]) (auto simp: Let_def word_le_nat_alt)
    next
      case last: False
      have "l \<noteq> []" using last e(3) 2(5) by auto
      moreover have "Base < BaseAddress f" if "f \<in> set l" for f using tiles_above[OF e(3) that] True by (simp add: word_less_nat_alt)
      ultimately obtain es af where "SearchGcdMapEntry_loop Base Last bf (Some [e]) l = Some (bf, [e] @ es, af)" "es @ af = l" "es \<noteq> []"
        "holds_address (unat Last) (last es)"
        using search_inside[OF e(3), of Last Base bf "[e]"] last 2(5) by auto
      then show ?thesis using True e(1) 2(3) last
        by (intro exI[of _ "[]"] exI[of _ "e # es"] exI[of _ af]) (auto simp: Let_def word_le_nat_alt)
    qed
  qed
qed (simp add: word_le_nat_alt)

lemma search_beyond:
  assumes "tiles k l hi" "hi \<le> unat Last \<or> found = None \<and> (hi \<le> unat Base \<or> unat Base < k)"
  shows "SearchGcdMapEntry_loop Base Last bf found l = None"
  using assms
proof (induction k l hi arbitrary: bf found rule: tiles.induct)
  case (2 k e l hi)
  have e: "unat (BaseAddress e) = k" "k \<le> unat (EndAddress e)" "tiles (unat (EndAddress e) + 1) l hi" using 2(2) by simp_all
  then have "unat (EndAddress e) < hi" using tiles_le by fastforce
  then show ?case using 2(1)[OF e(3)] 2(3) e(1,2) by (auto simp: Let_def word_le_nat_alt split: option.splits)
qed simp

section \<open>Splitting and converting a range\<close>

text \<open>The entries converted one after the other, and a list of entries cut behind the address \<open>Last\<close> and in front of \<open>Base\<close>.\<close>

fun convert_all :: "('a \<Rightarrow> EFI_GCD_MAP_ENTRY \<Rightarrow> 'a \<times> EFI_GCD_MAP_ENTRY) \<Rightarrow> 'a \<Rightarrow> EFI_GCD_MAP_ENTRY list \<Rightarrow> EFI_GCD_MAP_ENTRY list" where
  "convert_all conv a [] = []"
| "convert_all conv a (e # es) = (case conv a e of (a, e) \<Rightarrow> e # convert_all conv a es)"

definition cut_above :: "UINT64 \<Rightarrow> EFI_GCD_MAP_ENTRY list \<Rightarrow> EFI_GCD_MAP_ENTRY list" where
  "cut_above Last es = (if Last < EndAddress (last es) then butlast es @ [(last es)\<lparr>EndAddress := Last\<rparr>] else es)"

definition cut_rest :: "UINT64 \<Rightarrow> EFI_GCD_MAP_ENTRY list \<Rightarrow> EFI_GCD_MAP_ENTRY list" where
  "cut_rest Last es = (if Last < EndAddress (last es) then [(last es)\<lparr>BaseAddress := Last + 1\<rparr>] else [])"

definition cut_below :: "UINT64 \<Rightarrow> EFI_GCD_MAP_ENTRY list \<Rightarrow> EFI_GCD_MAP_ENTRY list" where
  "cut_below Base es = (if Base > BaseAddress (hd es) then [(hd es)\<lparr>EndAddress := Base - 1\<rparr>] else [])"

definition cut_from :: "UINT64 \<Rightarrow> EFI_GCD_MAP_ENTRY list \<Rightarrow> EFI_GCD_MAP_ENTRY list" where
  "cut_from Base es = (hd es)\<lparr>BaseAddress := Base\<rparr> # tl es"

lemma tiles_last_base: "tiles k (e # es) l \<Longrightarrow> es \<noteq> [] \<Longrightarrow> unat (EndAddress e) < unat (BaseAddress (last es))"
  using tiles_above[of "unat (EndAddress e) + 1" es l "last es"] by auto

lemma convert_rest:
  assumes "tiles k todo l" "todo \<noteq> []" "unat Base \<le> k" "Len \<noteq> 0" "holds_address (unat (Base + Len - 1)) (last todo)" "TopUnused sp" "es \<noteq> []"
  shows "ConvertGcdMap_loop conv Base Len sp a bf es todo af =
    Some (bf, es @ convert_all conv a (cut_above (Base + Len - 1) todo), cut_rest (Base + Len - 1) todo @ af)"
  using assms
proof (induction todo arbitrary: k a es)
  case (Cons e todo)
  have e: "unat (BaseAddress e) = k" "k \<le> unat (EndAddress e)" "tiles (unat (EndAddress e) + 1) todo l" using Cons.prems(1) by simp_all
  have nb: "\<not> Base > BaseAddress e" using e(1) Cons.prems(3) by (simp add: word_less_nat_alt)
  have succ: "Base + Len = (Base + Len - 1) + 1" by simp
  show ?case
  proof (cases "todo = []")
    case True
    then show ?thesis using nb Cons.prems(4-7) succ
      by (auto simp: CoreInsertGcdMapEntry_def cut_above_def cut_rest_def split: prod.splits)
  next
    case False
    have "unat (EndAddress e) < unat (Base + Len - 1)"
      using tiles_last_base[OF Cons.prems(1) False] Cons.prems(5) False by simp
    then have nt: "\<not> Base + Len - 1 < EndAddress e" by (simp add: word_less_nat_alt)
    obtain a' e' where ae: "conv a e = (a', e')" by (cases "conv a e")
    have "ConvertGcdMap_loop conv Base Len sp a' bf (es @ [e']) todo af =
        Some (bf, (es @ [e']) @ convert_all conv a' (cut_above (Base + Len - 1) todo), cut_rest (Base + Len - 1) todo @ af)"
      using Cons.prems e(2) False by (intro Cons.IH[OF e(3)]) simp_all
    then show ?thesis using nb nt False Cons.prems(4,7) ae by (simp add: CoreInsertGcdMapEntry_def cut_above_def cut_rest_def)
  qed
qed simp

lemma convert_range:
  assumes t: "tiles k todo l" "todo \<noteq> []" and b: "holds_address (unat Base) (hd todo)" and len: "Len \<noteq> 0"
    and last: "holds_address (unat (Base + Len - 1)) (last todo)" and sp: "TopUnused sp" "BottomUnused sp" and le: "Base \<le> Base + Len - 1"
  shows "ConvertGcdMap_loop conv Base Len sp a bf [] todo af =
    Some (bf @ cut_below Base todo, convert_all conv a (cut_above (Base + Len - 1) (cut_from Base todo)), cut_rest (Base + Len - 1) (cut_from Base todo) @ af)"
proof -
  obtain e es where todo: "todo = e # es" using t(2) by (cases todo) auto
  have e: "unat (BaseAddress e) = k" "k \<le> unat (EndAddress e)" "tiles (unat (EndAddress e) + 1) es l" using t(1) todo by simp_all
  have succ: "Base + Len = (Base + Len - 1) + 1" by simp
  let ?e = "e\<lparr>BaseAddress := Base\<rparr>"
  have same: "?e = e" if "\<not> BaseAddress e < Base"
  proof -
    have "Base = BaseAddress e" using that b todo by (simp add: word_less_nat_alt word_unat_eq_iff)
    then show ?thesis by simp
  qed
  show ?thesis
  proof (cases "es = []")
    case True
    show ?thesis
      using True todo len sp succ same
      by (cases "BaseAddress e < Base") (auto simp: CoreInsertGcdMapEntry_def cut_above_def cut_rest_def cut_below_def cut_from_def split: prod.splits)
  next
    case False
    have "unat (EndAddress e) < unat (Base + Len - 1)" using tiles_last_base[of k e es l] t(1) todo last False by simp
    then have nt: "\<not> Base + Len - 1 < EndAddress e" by (simp add: word_less_nat_alt)
    obtain a' e' where ae: "conv a ?e = (a', e')" by (cases "conv a ?e")
    have rest: "ConvertGcdMap_loop conv Base Len sp' a' bf' [e'] es af =
        Some (bf', [e'] @ convert_all conv a' (cut_above (Base + Len - 1) es), cut_rest (Base + Len - 1) es @ af)" if "TopUnused sp'" for sp' bf'
      using e b todo len last False that by (intro convert_rest[OF e(3) False]) simp_all
    show ?thesis
      using todo False nt len sp ae rest same
      by (cases "BaseAddress e < Base") (auto simp: CoreInsertGcdMapEntry_def cut_above_def cut_rest_def cut_below_def cut_from_def)
  qed
qed

lemma cut_top:
  assumes t: "tiles k es l" and ne: "es \<noteq> []" and last: "holds_address (unat Last) (last es)"
  shows "tiles k (cut_above Last es) (unat Last + 1)" "tiles (unat Last + 1) (cut_rest Last es) l"
    "x \<le> unat Last \<Longrightarrow> space (cut_above Last es) x = space es x" "unat Last < x \<Longrightarrow> space (cut_rest Last es) x = space es x"
proof -
  obtain ini e where es: "es = ini @ [e]" using ne by (cases es rule: rev_cases) auto
  obtain m where m: "tiles k ini m" "unat (BaseAddress e) = m" "m \<le> unat (EndAddress e)" "l = unat (EndAddress e) + 1"
    using t es by (auto simp: tiles_append)
  have h: "m \<le> unat Last" "unat Last \<le> unat (EndAddress e)" using last es m(2) by simp_all
  have same: "\<not> Last < EndAddress e \<Longrightarrow> Last = EndAddress e" using h(2) by (simp add: word_less_nat_alt word_unat_eq_iff)
  have suc: "Last < EndAddress e \<Longrightarrow> unat (Last + 1) = unat Last + 1"
    using unat_less_power[of "EndAddress e"] by (simp add: word_less_nat_alt unat_word_ariths)
  have all: "tiles k (ini @ [e]) l" using t es by simp
  show t1: "tiles k (cut_above Last es) (unat Last + 1)"
    using es m h same by (auto simp: cut_above_def tiles_append)
  show t2: "tiles (unat Last + 1) (cut_rest Last es) l"
    using es m h same suc by (auto simp: cut_rest_def word_less_nat_alt)
  have te: "tiles m [e] l" using m by simp
  show "space (cut_above Last es) x = space es x" if x: "x \<le> unat Last"
  proof (cases "Last < EndAddress e")
    case True
    have "tiles m [e\<lparr>EndAddress := Last\<rparr>] (unat Last + 1)" using m h by simp
    then show ?thesis using True es x h space_append[OF m(1) te, of x] space_append[OF m(1), of "[e\<lparr>EndAddress := Last\<rparr>]" _ x] m(2)
      by (auto simp: cut_above_def space_def)
  qed (simp add: es cut_above_def)
  show "space (cut_rest Last es) x = space es x" if x: "unat Last < x"
  proof (cases "Last < EndAddress e")
    case True
    then show ?thesis using es x h space_append[OF m(1) te, of x] m(2) suc by (auto simp: cut_rest_def space_def)
  next
    case False
    then show ?thesis using es x same m(4) space_out[OF all, of x] by (simp add: cut_rest_def space_def)
  qed
qed

lemma cut_bottom:
  assumes t: "tiles k es l" and ne: "es \<noteq> []" and base: "holds_address (unat Base) (hd es)"
  shows "tiles k (cut_below Base es) (unat Base)" "tiles (unat Base) (cut_from Base es) l"
    "x < unat Base \<Longrightarrow> space (cut_below Base es) x = space es x" "unat Base \<le> x \<Longrightarrow> space (cut_from Base es) x = space es x"
proof -
  obtain e f where es: "es = e # f" using ne by (cases es) auto
  have m: "unat (BaseAddress e) = k" "k \<le> unat (EndAddress e)" "tiles (unat (EndAddress e) + 1) f l" using t es by simp_all
  have h: "k \<le> unat Base" "unat Base \<le> unat (EndAddress e)" using base es m(1) by simp_all
  have pre: "k < unat Base \<Longrightarrow> unat (Base - 1) = unat Base - 1" by (metis gr_implies_not0 unat_0 unat_minus_one)
  show "tiles k (cut_below Base es) (unat Base)" using es m h pre by (auto simp: cut_below_def word_less_nat_alt)
  show t2: "tiles (unat Base) (cut_from Base es) l" using es m h by (simp add: cut_from_def)
  show "space (cut_below Base es) x = space es x" if "x < unat Base"
    using es m h pre that space_Cons[OF t[unfolded es], of x] by (auto simp: cut_below_def space_def word_less_nat_alt)
  show "space (cut_from Base es) x = space es x" if "unat Base \<le> x"
    using es m h that space_Cons[OF t[unfolded es], of x] space_Cons[OF t2[unfolded es cut_from_def list.sel], of x]
    by (auto simp: cut_from_def)
qed

section \<open>Merging\<close>

lemma merge_backward:
  assumes t: "tiles lo (bf @ [e]) hi" and m: "CoreMergeGcdMapEntry False bf e af = (st, bf', e', af')"
  shows "tiles lo (bf' @ [e']) hi" "space (bf' @ [e']) x = space (bf @ [e]) x" "merged bf \<Longrightarrow> merged (bf' @ [e'])" "what e' = what e" "af' = af"
proof -
  have "tiles lo (bf' @ [e']) hi \<and> space (bf' @ [e']) x = space (bf @ [e]) x \<and> (merged bf \<longrightarrow> merged (bf' @ [e'])) \<and> what e' = what e \<and> af' = af"
  proof (cases bf rule: rev_cases)
    case Nil
    then show ?thesis using m t by (simp add: CoreMergeGcdMapEntry_def)
  next
    case (snoc ini d)
    show ?thesis
    proof (cases "what e = what d")
      case False
      then have "bf' = bf" "e' = e" "af' = af" using m snoc by (auto simp: CoreMergeGcdMapEntry_def what_eq_iff Let_def split: if_splits)
      then show ?thesis using t False snoc by (auto simp: merged_append)
    next
      case True
      then have r: "bf' = ini" "e' = e\<lparr>BaseAddress := BaseAddress d\<rparr>" "af' = af"
        using m snoc by (auto simp: CoreMergeGcdMapEntry_def what_eq_iff Let_def split: if_splits)
      obtain k where k: "tiles lo ini k" "unat (BaseAddress d) = k" "k \<le> unat (EndAddress d)" "unat (BaseAddress e) = unat (EndAddress d) + 1"
        "unat (BaseAddress e) \<le> unat (EndAddress e)" "hi = unat (EndAddress e) + 1"
        using t snoc by (auto simp: tiles_append)
      have t': "tiles k [e'] hi" "tiles k [d, e] hi" using k r by simp_all
      have "space [e'] x = space [d, e] x" using space_Cons[OF t'(1), of x] space_Cons[OF t'(2), of x] k r True by (auto simp: space_def)
      then have "space (ini @ [e']) x = space (ini @ [d, e]) x" using space_append[OF k(1) t'(1)] space_append[OF k(1) t'(2)] by simp
      then show ?thesis using k(1) t'(1) r snoc True by (auto simp: tiles_append merged_append)
    qed
  qed
  then show "tiles lo (bf' @ [e']) hi" "space (bf' @ [e']) x = space (bf @ [e]) x" "merged bf \<Longrightarrow> merged (bf' @ [e'])" "what e' = what e" "af' = af"
    by blast+
qed

lemma cleanup_loop:
  assumes "tiles lo (bf @ es) hi"
  shows "tiles lo (CleanupGcdMapEntry_loop bf es) hi \<and> (\<forall>x. space (CleanupGcdMapEntry_loop bf es) x = space (bf @ es) x)
    \<and> (merged bf \<longrightarrow> merged (CleanupGcdMapEntry_loop bf es)) \<and> (bf @ es \<noteq> [] \<longrightarrow> CleanupGcdMapEntry_loop bf es \<noteq> [])
    \<and> (es \<noteq> [] \<longrightarrow> what (last (CleanupGcdMapEntry_loop bf es)) = what (last es))"
  using assms
proof (induction bf es rule: CleanupGcdMapEntry_loop.induct)
  case (2 bf e es)
  obtain k where k: "tiles lo (bf @ [e]) k" "tiles k es hi" using 2(2) by (metis append.assoc append_Cons append_Nil tiles_append)
  obtain st bf' e' af' where m: "CoreMergeGcdMapEntry False bf e es = (st, bf', e', af')" by (cases "CoreMergeGcdMapEntry False bf e es")
  note M = merge_backward[OF k(1) m]
  have t: "tiles lo ((bf' @ [e']) @ es) hi" using M(1) k(2) tiles_append by blast
  have sp: "space ((bf' @ [e']) @ es) x = space (bf @ e # es) x" for x
    using space_append[OF M(1) k(2), of x] space_append[OF k(1) k(2), of x] M(2)[of x] by simp
  note IH = 2(1)[OF m[symmetric] refl refl t]
  show ?case using IH sp M(3,4) m by (cases es) auto
qed simp

lemma cleanup:
  assumes t: "tiles lo (bf @ es @ af) hi" and ne: "es \<noteq> []" and m: "CoreCleanupGcdMapEntry bf es af = (st, m')"
  shows "st = EFI_SUCCESS" "tiles lo m' hi" "space m' x = space (bf @ es @ af) x" "merged bf \<Longrightarrow> merged af \<Longrightarrow> merged m'"
proof -
  obtain k where k: "tiles lo (bf @ es) k" "tiles k af hi" using t by (metis append.assoc tiles_append)
  define R where "R = CleanupGcdMapEntry_loop bf es"
  have R: "tiles lo R k" "\<And>x. space R x = space (bf @ es) x" "merged bf \<Longrightarrow> merged R" "R \<noteq> []"
    using cleanup_loop[OF k(1)] ne by (simp_all add: R_def)
  obtain ini e where Re: "R = ini @ [e]" using R(4) by (cases R rule: rev_cases) auto
  have sp: "space (R @ af) x = space (bf @ es @ af) x" for x using space_append[OF R(1) k(2), of x] space_append[OF k(1) k(2), of x] R(2)[of x] by simp
  have tR: "tiles lo (R @ af) hi" using R(1) k(2) tiles_append by blast
  have "st = EFI_SUCCESS \<and> tiles lo m' hi \<and> space m' x = space (bf @ es @ af) x \<and> (merged bf \<longrightarrow> merged af \<longrightarrow> merged m')"
  proof (cases "af \<noteq> [] \<and> what e = what (hd af)")
    case False
    then have "st = EFI_SUCCESS" "m' = R @ af"
      using m Re by (auto simp: CoreCleanupGcdMapEntry_def R_def[symmetric] CoreMergeGcdMapEntry_def what_eq_iff Let_def split: if_splits)
    moreover have "merged (R @ af)" if "merged R" "merged af" using that False Re merged_append[of R af] by auto
    ultimately show ?thesis using tR sp R(3) by simp
  next
    case True
    then obtain d af' where af: "af = d # af'" "what e = what d" by (cases af) auto
    let ?e = "e\<lparr>EndAddress := EndAddress d\<rparr>"
    have r: "st = EFI_SUCCESS" "m' = ini @ ?e # af'"
      using m Re af by (auto simp: CoreCleanupGcdMapEntry_def R_def[symmetric] CoreMergeGcdMapEntry_def what_eq_iff Let_def split: if_splits)
    obtain j where j: "tiles lo ini j" "unat (BaseAddress e) = j" "j \<le> unat (EndAddress e)" "k = unat (EndAddress e) + 1"
      using R(1) Re by (auto simp: tiles_append)
    have d: "unat (BaseAddress d) = k" "k \<le> unat (EndAddress d)" "tiles (unat (EndAddress d) + 1) af' hi" using k(2) af by simp_all
    have t': "tiles j (?e # af') hi" "tiles j (e # d # af') hi" using j d by simp_all
    have td: "tiles k (d # af') hi" using d by simp
    have "space (?e # af') x = space (e # d # af') x"
      using space_Cons[OF t'(1), of x] space_Cons[OF t'(2), of x] space_Cons[OF td, of x] j d af(2) by auto
    then have "space m' x = space (R @ af) x" using space_append[OF j(1) t'(1), of x] space_append[OF j(1) t'(2), of x] r Re af by simp
    moreover have "tiles lo m' hi" using j(1) t'(1) r(2) tiles_append by blast
    moreover have "merged m'" if "merged bf" "merged af"
    proof -
      have "merged (ini @ [e])" using R(3) that(1) Re by simp
      moreover have "merged (?e # af')" using that(2) af by (cases af') auto
      ultimately show ?thesis unfolding r(2) by (auto simp: merged_append)
    qed
    ultimately show ?thesis using r(1) sp by simp
  qed
  then show "st = EFI_SUCCESS" "tiles lo m' hi" "space m' x = space (bf @ es @ af) x" "merged bf \<Longrightarrow> merged af \<Longrightarrow> merged m'" by blast+
qed

section \<open>Converting a range of a map\<close>

lemma convert_all_tiles:
  assumes "\<And>a e. BaseAddress (snd (conv a e)) = BaseAddress e \<and> EndAddress (snd (conv a e)) = EndAddress e"
  shows "tiles lo (convert_all conv a es) hi = tiles lo es hi" "convert_all conv a es = [] \<longleftrightarrow> es = []"
  by (induction es arbitrary: a lo) (use assms in \<open>auto simp: split_beta\<close>)

lemma convert_all_space:
  assumes "\<And>e. conv a e = (a, f e)" "\<And>e. BaseAddress (f e) = BaseAddress e \<and> EndAddress (f e) = EndAddress e" "\<And>e. what (f e) = what (f (what e))"
  shows "space (convert_all conv a es) x = map_option (\<lambda>w. what (f w)) (space es x)"
  by (induction es) (use assms in \<open>auto simp: space_def\<close>)

lemma merged_cut:
  assumes "merged (bf @ es @ af)" "es \<noteq> []"
  shows "merged (bf @ cut_below Base es)" "merged (cut_rest Last (cut_from Base es) @ af)"
proof -
  have m: "merged bf" "merged es" "merged af" "bf \<noteq> [] \<Longrightarrow> what (last bf) \<noteq> what (hd es)" "af \<noteq> [] \<Longrightarrow> what (last es) \<noteq> what (hd af)"
    using assms by (auto simp: merged_append)
  show "merged (bf @ cut_below Base es)" using m(1,4) by (auto simp: cut_below_def merged_append)
  have "what (last (cut_from Base es)) = what (last es)" using assms(2) by (cases es) (auto simp: cut_from_def)
  then show "merged (cut_rest Last (cut_from Base es) @ af)" using m(3,5) by (cases af) (auto simp: cut_rest_def)
qed

lemma unat_last:
  fixes Base Len :: UINT64
  assumes "Len \<noteq> 0" "unat Base + unat Len \<le> 2 ^ 64"
  shows "unat (Base + Len - 1) = unat Base + unat Len - 1"
proof -
  have u: "unat (Len - 1) = unat Len - 1" "0 < unat Len" using assms(1) by (simp_all add: unat_minus_one unat_gt_0)
  have "unat (Base + (Len - 1)) = unat Base + unat (Len - 1)"
    using assms(2) u by (simp add: unat_word_ariths)
  then show ?thesis using u by (simp add: algebra_simps)
qed

lemma touched_entries:
  assumes "tiles j es k" "holds_address b (hd es)" "holds_address (c - 1) (last es)" "b < c" "e \<in> set es"
  shows "\<exists>x. b \<le> x \<and> x < c \<and> holds_address x e"
proof (cases "b \<le> unat (BaseAddress e)")
  case True
  show ?thesis
  proof (cases "e = last es")
    case True
    then show ?thesis using assms(3,4) \<open>b \<le> unat (BaseAddress e)\<close> by (intro exI[of _ "c - 1"]) auto
  next
    case False
    have "unat (EndAddress e) < unat (BaseAddress (last es)) \<and> unat (BaseAddress e) \<le> unat (EndAddress e)"
      using assms(1,5) False by (induction j es k rule: tiles.induct) (auto split: if_splits dest: tiles_above[OF _ last_in_set])
    then show ?thesis using assms(3) True by (intro exI[of _ "unat (BaseAddress e)"]) auto
  qed
next
  case False
  obtain d l where es: "es = d # l" using assms(5) by (cases es) auto
  have "e = d" using False assms(1,2,5) es tiles_above[of "unat (EndAddress d) + 1" l k e] by auto
  then show ?thesis using assms(2,4) es by (intro exI[of _ b]) auto
qed

text \<open>The search for a range of a map splits it at the entries of the range.\<close>

definition range_of_map :: "nat \<Rightarrow> nat \<Rightarrow> UINT64 \<Rightarrow> UINT64 \<Rightarrow> EFI_GCD_MAP_ENTRY list \<Rightarrow> EFI_GCD_MAP_ENTRY list \<Rightarrow> EFI_GCD_MAP_ENTRY list \<Rightarrow> bool" where
  "range_of_map lo hi Base Len bf es af \<longleftrightarrow> es \<noteq> [] \<and> holds_address (unat Base) (hd es) \<and> holds_address (unat Base + unat Len - 1) (last es)
     \<and> (\<exists>j k. tiles lo bf j \<and> tiles j es k \<and> tiles k af hi)"

abbreviation within :: "UINT64 \<Rightarrow> UINT64 \<Rightarrow> nat \<Rightarrow> bool" where
  "within Base Len x \<equiv> unat Base \<le> x \<and> x < unat Base + unat Len"

lemma range_searched:
  assumes m: "tiles lo m hi" and b: "lo \<le> unat Base" "unat Base + unat Len \<le> hi" and len: "Len \<noteq> 0"
  obtains bf es af where "CoreSearchGcdMapEntry Base Len m = Some (EFI_SUCCESS, bf, es, af)" "m = bf @ es @ af" "range_of_map lo hi Base Len bf es af"
proof -
  let ?L = "Base + Len - 1"
  have pos: "0 < unat Len" using len by (simp add: unat_gt_0)
  have ne: "m \<noteq> []" using m b pos by (cases m) auto
  have L: "unat ?L = unat Base + unat Len - 1" by (rule unat_last) (use b(2) tiles_bound[OF m ne] len in simp_all)
  have le: "Base \<le> ?L" using L pos by (simp add: word_le_nat_alt)
  have lt: "unat ?L < hi" using L b(2) pos by linarith
  obtain bf es af where s: "SearchGcdMapEntry_loop Base ?L [] None m = Some (bf, es, af)" "bf @ es @ af = m" "es \<noteq> []"
    "holds_address (unat Base) (hd es)" "holds_address (unat ?L) (last es)"
    using search_from[OF m b(1) le lt, of "[]"] by auto
  obtain j k where t: "tiles lo bf j" "tiles j es k" "tiles k af hi" using m s(2) by (auto simp: tiles_append)
  have "CoreSearchGcdMapEntry Base Len m = Some (EFI_SUCCESS, bf, es, af)" using s(1) len by (simp add: CoreSearchGcdMapEntry_def)
  moreover have "range_of_map lo hi Base Len bf es af" unfolding range_of_map_def using s(3,4) s(5)[unfolded L] t by blast
  ultimately show thesis by (rule that[OF _ s(2)[symmetric]])
qed

lemma search_outside:
  assumes "tiles lo m hi" "Len \<noteq> 0" "unat Base + unat Len \<le> 2 ^ 64" "hi < unat Base + unat Len \<or> unat Base < lo"
  shows "CoreSearchGcdMapEntry Base Len m = Some (EFI_NOT_FOUND, [], [], [])"
proof -
  have "0 < unat Len" using assms(2) by (simp add: unat_gt_0)
  then have "SearchGcdMapEntry_loop Base (Base + Len - 1) [] None m = None"
    using assms(4) by (intro search_beyond[OF assms(1)]) (auto simp: unat_last[OF assms(2,3)])
  then show ?thesis using assms(2) by (simp add: CoreSearchGcdMapEntry_def)
qed

text \<open>What the map says of the addresses of the range is what the entries found say, and each of them has an address of the range.\<close>

lemma range_space:
  assumes "range_of_map lo hi Base Len bf es af" "within Base Len x"
  shows "space (bf @ es @ af) x = space es x"
proof -
  obtain j k where t: "tiles lo bf j" "tiles j es k" "tiles k af hi" and e: "es \<noteq> []" "holds_address (unat Base) (hd es)"
    "holds_address (unat Base + unat Len - 1) (last es)" using assms(1) by (auto simp: range_of_map_def)
  have m2: "tiles j (es @ af) hi" using t(2,3) tiles_append by blast
  have "j \<le> unat Base" using e(1,2) t(2) by (cases es) auto
  moreover have "unat Base + unat Len \<le> k" using tiles_hi[OF t(2) e(1)] e(3) by linarith
  ultimately show ?thesis using space_append[OF t(1) m2, of x] space_append[OF t(2,3), of x] assms(2) by auto
qed

lemma range_touched:
  assumes "range_of_map lo hi Base Len bf es af" "e \<in> set es" "Len \<noteq> 0"
  obtains x where "within Base Len x" "holds_address x e"
proof -
  obtain j k where "tiles j es k" using assms(1) by (auto simp: range_of_map_def)
  then obtain x where "unat Base \<le> x" "x < unat Base + unat Len" "holds_address x e"
    using touched_entries[of j es k "unat Base" "unat Base + unat Len" e] assms by (auto simp: range_of_map_def unat_gt_0)
  then show thesis using that by blast
qed

text \<open>
  The conversion and the clean-up of a range of a map: they succeed, the map still tiles its addresses and stays merged, and outside the
  range it says what it said; inside it says what the conversion makes of it, when the conversion carries nothing from one entry to the next.
\<close>

lemma range_converted:
  assumes r: "range_of_map lo hi Base Len bf es af" and len: "Len \<noteq> 0" and nowrap: "unat Base + unat Len \<le> 2 ^ 64"
    and conv: "\<And>a e. BaseAddress (snd (conv a e)) = BaseAddress e \<and> EndAddress (snd (conv a e)) = EndAddress e"
    and sp: "TopUnused sp" "BottomUnused sp"
  obtains bf' es' af' m' where "ConvertGcdMap_loop conv Base Len sp a bf [] es af = Some (bf', es', af')"
    "CoreCleanupGcdMapEntry bf' es' af' = (EFI_SUCCESS, m')" "tiles lo m' hi" "merged (bf @ es @ af) \<Longrightarrow> merged m'"
    "\<And>x. \<not> within Base Len x \<Longrightarrow> space m' x = space (bf @ es @ af) x"
    "\<And>x. (\<And>e. conv a e = (a, f e)) \<Longrightarrow> (\<And>e. what (f e) = what (f (what e))) \<Longrightarrow> within Base Len x
       \<Longrightarrow> space m' x = map_option (\<lambda>w. what (f w)) (space (bf @ es @ af) x)"
proof -
  let ?L = "Base + Len - 1" and ?m = "bf @ es @ af"
  obtain j k where t: "tiles lo bf j" "tiles j es k" "tiles k af hi" using r by (auto simp: range_of_map_def)
  have s: "es \<noteq> []" "holds_address (unat Base) (hd es)" and s3: "holds_address (unat Base + unat Len - 1) (last es)"
    using r by (auto simp: range_of_map_def)
  have pos: "0 < unat Len" using len by (simp add: unat_gt_0)
  note L = unat_last[OF len nowrap]
  have le: "Base \<le> ?L" using L pos by (simp add: word_le_nat_alt)
  note B = cut_bottom[OF t(2) s]
  have ne': "cut_from Base es \<noteq> []" and last': "holds_address (unat ?L) (last (cut_from Base es))"
    using s(1) s3 le L by (cases es; auto simp: cut_from_def word_le_nat_alt)+
  note T = cut_top[OF B(2) ne' last']
  let ?es = "convert_all conv a (cut_above ?L (cut_from Base es))" and ?bf = "bf @ cut_below Base es" and ?af = "cut_rest ?L (cut_from Base es) @ af"
  have run: "ConvertGcdMap_loop conv Base Len sp a bf [] es af = Some (?bf, ?es, ?af)"
    by (rule convert_range[OF t(2) s len _ sp le]) (use s3 L in simp)
  have "cut_above ?L (cut_from Base es) \<noteq> []" using ne' by (auto simp: cut_above_def)
  then have ne: "?es \<noteq> []" using convert_all_tiles(2)[OF conv] by simp
  have tt: "tiles lo ?bf (unat Base)" "tiles (unat Base) ?es (unat ?L + 1)" "tiles (unat ?L + 1) ?af hi"
    subgoal using t(1) B(1) tiles_append by blast
    subgoal unfolding convert_all_tiles(1)[OF conv] by (rule T(1))
    subgoal using T(2) t(3) tiles_append by blast
    done
  have te: "tiles (unat Base) (?es @ ?af) hi" using tt(2,3) tiles_append by blast
  have all: "tiles lo (?bf @ ?es @ ?af) hi" using tt(1) te tiles_append by blast
  obtain st m' where c: "CoreCleanupGcdMapEntry ?bf ?es ?af = (st, m')" by (cases "CoreCleanupGcdMapEntry ?bf ?es ?af")
  note C = cleanup[OF all ne c]
  have m2: "tiles j (es @ af) hi" using t(2,3) tiles_append by blast
  have orig: "space ?m x = (if x < j then space bf x else if x < k then space es x else space af x)" for x
    using space_append[OF t(1) m2, of x] space_append[OF t(2,3), of x] by auto
  have jk: "j \<le> unat Base" "unat ?L < k" using tiles_le[OF B(1)] tiles_le[OF T(2)] by simp_all
  have new: "space m' x = (if x < unat Base then space ?bf x else if x < unat ?L + 1 then space ?es x else space ?af x)" for x
    unfolding C(3) space_append[OF tt(1) te] space_append[OF tt(2,3)] by simp
  have outside: "space m' x = space ?m x" if "\<not> within Base Len x" for x
  proof (cases "x < unat Base")
    case True
    then show ?thesis using space_append[OF t(1) B(1), of x] B(3)[OF True] orig[of x] jk L pos new[of x] by auto
  next
    case False
    then have "unat ?L < x" using that L pos by linarith
    then show ?thesis using space_append[OF T(2) t(3), of x] T(4) B(4)[of x] orig[of x] jk False new[of x] by auto
  qed
  have inside: "space m' x = map_option (\<lambda>w. what (f w)) (space ?m x)"
    if f: "\<And>e. conv a e = (a, f e)" "\<And>e. what (f e) = what (f (what e))" "within Base Len x" for x
  proof -
    have fe: "BaseAddress (f e) = BaseAddress e \<and> EndAddress (f e) = EndAddress e" for e using conv[of a e] f(1)[of e] by simp
    have "space ?es x = map_option (\<lambda>w. what (f w)) (space (cut_above ?L (cut_from Base es)) x)"
      by (rule convert_all_space) (use f(1,2) fe in auto)
    moreover have "space (cut_above ?L (cut_from Base es)) x = space ?m x" using orig[of x] T(3)[of x] B(4)[of x] jk f(3) L by auto
    ultimately show ?thesis using new[of x] f(3) L by simp
  qed
  show thesis by (rule that[OF run, of m']) (use c C(1,2) C(4) merged_cut[of bf es af] s(1) outside inside in auto)
qed

lemma range_converted_by:
  assumes r: "range_of_map lo hi Base Len bf es af" and len: "Len \<noteq> 0" and nowrap: "unat Base + unat Len \<le> 2 ^ 64"
    and f: "\<And>e. BaseAddress (f e) = BaseAddress e \<and> EndAddress (f e) = EndAddress e" "\<And>e. what (f e) = what (f (what e))"
    and sp: "TopUnused sp" "BottomUnused sp"
  shows "\<exists>bf' es' af' m'. ConvertGcdMap_loop (\<lambda>a e. (a, f e)) Base Len sp a bf [] es af = Some (bf', es', af')
    \<and> CoreCleanupGcdMapEntry bf' es' af' = (EFI_SUCCESS, m') \<and> tiles lo m' hi \<and> (merged (bf @ es @ af) \<longrightarrow> merged m')
    \<and> (\<forall>x. space m' x = (if within Base Len x then map_option (\<lambda>w. what (f w)) (space (bf @ es @ af) x) else space (bf @ es @ af) x))"
proof (rule range_converted[where conv = "\<lambda>a e. (a, f e)" and f = f and sp = sp and a = a, OF r len nowrap])
  fix bf' es' af' m'
  assume c: "ConvertGcdMap_loop (\<lambda>a e. (a, f e)) Base Len sp a bf [] es af = Some (bf', es', af')" "CoreCleanupGcdMapEntry bf' es' af' = (EFI_SUCCESS, m')"
    "tiles lo m' hi" "merged (bf @ es @ af) \<Longrightarrow> merged m'" "\<And>x. \<not> within Base Len x \<Longrightarrow> space m' x = space (bf @ es @ af) x"
    and i: "\<And>x. (\<And>e. (a, f e) = (a, f e)) \<Longrightarrow> (\<And>e. what (f e) = what (f (what e))) \<Longrightarrow> within Base Len x
      \<Longrightarrow> space m' x = map_option (\<lambda>w. what (f w)) (space (bf @ es @ af) x)"
  have new: "space m' x = (if within Base Len x then map_option (\<lambda>w. what (f w)) (space (bf @ es @ af) x) else space (bf @ es @ af) x)" for x
    using i[OF refl f(2), of x] c(5)[of x] by simp
  show ?thesis using c(1-4) new by blast
qed (use f(1) sp in simp_all)

section \<open>Merged maps are canonical\<close>

lemma space_end_next:
  assumes "tiles lo (e # es) hi" "merged (e # es)" "unat (EndAddress e) < y" "y < hi"
  shows "space (e # es) (unat (EndAddress e) + 1) \<noteq> Some (what e)"
proof -
  obtain f l where es: "es = f # l" using assms by (cases es) auto
  have f: "tiles (unat (EndAddress e) + 1) (f # l) hi" "unat (EndAddress e) + 1 \<le> unat (EndAddress f)" using assms(1) es by auto
  show ?thesis using space_Cons[OF assms(1), of "unat (EndAddress e) + 1"] space_Cons[OF f(1), of "unat (EndAddress e) + 1"] f(2) assms(1,2) es by auto
qed

lemma tiling_unique:
  assumes "tiles lo m hi" "tiles lo m' hi" "merged m" "merged m'" "\<And>x. space m x = space m' x"
  shows "m = m'"
  using assms
proof (induction lo m hi arbitrary: m' rule: tiles.induct)
  case (1 lo hi)
  then show ?case by (cases m') (auto dest: tiles_le)
next
  case (2 lo e es hi)
  have "lo < hi" using tiles_hi[OF 2(2)] by simp
  then obtain e' es' where m': "m' = e' # es'" using 2(3) by (cases m') auto
  have t': "tiles lo (e' # es') hi" using 2(3) m' by simp
  have lo: "unat (BaseAddress e) = lo" "lo \<le> unat (EndAddress e)" "unat (BaseAddress e') = lo" "lo \<le> unat (EndAddress e')" using 2(2) t' by auto
  have w: "what e = what e'" using 2(6)[of lo] space_Cons[OF 2(2), of lo] space_Cons[OF t', of lo] lo m' by simp
  have hi: "unat (EndAddress e) < hi" "unat (EndAddress e') < hi" using tiles_above[OF 2(2), of e] tiles_above[OF t', of e'] by auto
  have "\<not> unat (EndAddress e) < unat (EndAddress e')"
    using space_end_next[OF 2(2,4) _ hi(2)] 2(6)[of "unat (EndAddress e) + 1"] space_Cons[OF t', of "unat (EndAddress e) + 1"] lo w m' by auto
  moreover have "\<not> unat (EndAddress e') < unat (EndAddress e)"
    using space_end_next[OF t' _ _ hi(1)] 2(5) 2(6)[of "unat (EndAddress e') + 1"] space_Cons[OF 2(2), of "unat (EndAddress e') + 1"] lo w m' by auto
  ultimately have ee: "EndAddress e = EndAddress e'" by (simp add: word_unat_eq_iff)
  have "BaseAddress e = BaseAddress e'" using lo(1,3) by (simp add: word_unat_eq_iff)
  then have "e = e'" using w ee by (cases e; cases e') (simp add: what_def)
  moreover have "es = es'"
  proof (rule 2(1))
    have tl: "tiles (unat (EndAddress e) + 1) es hi" "tiles (unat (EndAddress e) + 1) es' hi" using 2(2) t' ee by auto
    then show "tiles (unat (EndAddress e) + 1) es hi" "tiles (unat (EndAddress e) + 1) es' hi" .
    show "merged es" using 2(4) by (cases es) auto
    show "merged es'" using 2(5) m' by (cases es') auto
    show "space es x = space es' x" for x
      using 2(6)[of x] space_Cons[OF 2(2), of x] space_Cons[OF t', of x] space_out[OF tl(1), of x] space_out[OF tl(2), of x] ee m' lo
      by (cases "x \<le> unat (EndAddress e)") (auto split: if_splits)
  qed
  ultimately show ?case using m' by simp
qed

end
