(* ===== verification/Dxe_Gcd.thy ===== *)
theory Dxe_Gcd
  imports Dxe_Timer Gcd_Map BaseMath
begin

text \<open>
  The services of the global coherency domain (MdeModulePkg/Core/Dxe/Gcd/Gcd.c). The two maps are part of the world that the event services
  leave alone; every service takes the lock of its map, so that releasing it may run notifications (fuel \<open>n\<close> and functions \<open>notify\<close>,
  as in the event services). \<open>Pool\<close> says whether the two work entries, or a buffer, are allocated; \<open>Cpu\<close> is what SetMemoryAttributes of the CPU
  architectural protocol answers for a range. Debug output is left out.
\<close>

unbundle bit_operations_syntax

section \<open>State, operations and attributes\<close>

record 'v GCD_STATE =
  mGcdMemorySpaceMap :: "EFI_GCD_MAP_ENTRY list"
  mGcdIoSpaceMap :: "EFI_GCD_MAP_ENTRY list"
  elsewhere :: 'v

type_synonym 'v CORE = "'v GCD_STATE DXE"
type_synonym cpu_answer = "UINT64 \<Rightarrow> UINT64 \<Rightarrow> UINT64 \<Rightarrow> EFI_STATUS"

abbreviation GCD_MEMORY_SPACE_OPERATION :: UINTN where "GCD_MEMORY_SPACE_OPERATION \<equiv> 0x20"
abbreviation GCD_IO_SPACE_OPERATION :: UINTN where "GCD_IO_SPACE_OPERATION \<equiv> 0x40"
abbreviation GCD_ADD_MEMORY_OPERATION :: UINTN where "GCD_ADD_MEMORY_OPERATION \<equiv> 0x20"
abbreviation GCD_ALLOCATE_MEMORY_OPERATION :: UINTN where "GCD_ALLOCATE_MEMORY_OPERATION \<equiv> 0x21"
abbreviation GCD_FREE_MEMORY_OPERATION :: UINTN where "GCD_FREE_MEMORY_OPERATION \<equiv> 0x22"
abbreviation GCD_REMOVE_MEMORY_OPERATION :: UINTN where "GCD_REMOVE_MEMORY_OPERATION \<equiv> 0x23"
abbreviation GCD_SET_ATTRIBUTES_MEMORY_OPERATION :: UINTN where "GCD_SET_ATTRIBUTES_MEMORY_OPERATION \<equiv> 0x24"
abbreviation GCD_SET_CAPABILITIES_MEMORY_OPERATION :: UINTN where "GCD_SET_CAPABILITIES_MEMORY_OPERATION \<equiv> 0x25"
abbreviation GCD_ADD_IO_OPERATION :: UINTN where "GCD_ADD_IO_OPERATION \<equiv> 0x40"
abbreviation GCD_ALLOCATE_IO_OPERATION :: UINTN where "GCD_ALLOCATE_IO_OPERATION \<equiv> 0x41"
abbreviation GCD_FREE_IO_OPERATION :: UINTN where "GCD_FREE_IO_OPERATION \<equiv> 0x42"
abbreviation GCD_REMOVE_IO_OPERATION :: UINTN where "GCD_REMOVE_IO_OPERATION \<equiv> 0x43"

abbreviation EFI_MEMORY_UC :: UINT64 where "EFI_MEMORY_UC \<equiv> 0x1"
abbreviation EFI_MEMORY_WC :: UINT64 where "EFI_MEMORY_WC \<equiv> 0x2"
abbreviation EFI_MEMORY_WT :: UINT64 where "EFI_MEMORY_WT \<equiv> 0x4"
abbreviation EFI_MEMORY_WB :: UINT64 where "EFI_MEMORY_WB \<equiv> 0x8"
abbreviation EFI_MEMORY_UCE :: UINT64 where "EFI_MEMORY_UCE \<equiv> 0x10"
abbreviation EFI_MEMORY_WP :: UINT64 where "EFI_MEMORY_WP \<equiv> 0x1000"
abbreviation EFI_MEMORY_RP :: UINT64 where "EFI_MEMORY_RP \<equiv> 0x2000"
abbreviation EFI_MEMORY_XP :: UINT64 where "EFI_MEMORY_XP \<equiv> 0x4000"
abbreviation EFI_MEMORY_RO :: UINT64 where "EFI_MEMORY_RO \<equiv> 0x20000"
abbreviation EFI_MEMORY_RUNTIME :: UINT64 where "EFI_MEMORY_RUNTIME \<equiv> 0x8000000000000000"
abbreviation EFI_MEMORY_PORT_IO :: UINT64 where "EFI_MEMORY_PORT_IO \<equiv> 0x4000000000000000"
abbreviation EFI_PAGE_MASK :: UINT64 where "EFI_PAGE_MASK \<equiv> 0xfff"
abbreviation EFI_PAGE_SIZE :: UINT64 where "EFI_PAGE_SIZE \<equiv> 0x1000"
abbreviation EFI_PAGE_SHIFT :: UINTN where "EFI_PAGE_SHIFT \<equiv> 12"

definition EXCLUSIVE_MEMORY_ATTRIBUTES :: UINT64 where
  "EXCLUSIVE_MEMORY_ATTRIBUTES = EFI_MEMORY_UC OR EFI_MEMORY_WC OR EFI_MEMORY_WT OR EFI_MEMORY_WB OR EFI_MEMORY_WP OR EFI_MEMORY_UCE"

definition NONEXCLUSIVE_MEMORY_ATTRIBUTES :: UINT64 where
  "NONEXCLUSIVE_MEMORY_ATTRIBUTES = EFI_MEMORY_XP OR EFI_MEMORY_RP OR EFI_MEMORY_RO"

definition CoreAcquireGcdMemoryLock :: "'w DXE \<Rightarrow> 'w DXE option" where
  "CoreAcquireGcdMemoryLock s = CoreAcquireLock mGcdMemorySpaceLock s"

definition CoreReleaseGcdMemoryLock :: "nat \<Rightarrow> 'w notify \<Rightarrow> 'w DXE \<Rightarrow> 'w DXE option" where
  "CoreReleaseGcdMemoryLock n notify s = CoreReleaseLock n notify mGcdMemorySpaceLock s"

definition CoreAcquireGcdIoLock :: "'w DXE \<Rightarrow> 'w DXE option" where
  "CoreAcquireGcdIoLock s = CoreAcquireLock mGcdIoSpaceLock s"

definition CoreReleaseGcdIoLock :: "nat \<Rightarrow> 'w notify \<Rightarrow> 'w DXE \<Rightarrow> 'w DXE option" where
  "CoreReleaseGcdIoLock n notify s = CoreReleaseLock n notify mGcdIoSpaceLock s"

definition AlignValue :: "UINT64 \<Rightarrow> UINTN \<Rightarrow> bool \<Rightarrow> UINT64 option" where
  "AlignValue Val Alignment RoundUp =
     do {
       b \<leftarrow> LShiftU64 1 Alignment;
       let AlignmentMask = b - 1;
       Some ((if RoundUp then Val + AlignmentMask else Val) AND NOT AlignmentMask)
     }"

definition PageAlignAddress :: "UINT64 \<Rightarrow> UINT64 option" where
  "PageAlignAddress Val = AlignValue Val EFI_PAGE_SHIFT True"

definition PageAlignLength :: "UINT64 \<Rightarrow> UINT64 option" where
  "PageAlignLength Val = AlignValue Val EFI_PAGE_SHIFT False"

definition ConverToCpuArchAttributes :: "UINT64 \<Rightarrow> UINT64" where
  "ConverToCpuArchAttributes Attr =
     (let CpuArchAttributes = Attr AND NONEXCLUSIVE_MEMORY_ATTRIBUTES
      in if Attr AND EFI_MEMORY_UC = EFI_MEMORY_UC then CpuArchAttributes OR EFI_MEMORY_UC
         else if Attr AND EFI_MEMORY_WC = EFI_MEMORY_WC then CpuArchAttributes OR EFI_MEMORY_WC
         else if Attr AND EFI_MEMORY_WT = EFI_MEMORY_WT then CpuArchAttributes OR EFI_MEMORY_WT
         else if Attr AND EFI_MEMORY_WB = EFI_MEMORY_WB then CpuArchAttributes OR EFI_MEMORY_WB
         else if Attr AND EFI_MEMORY_UCE = EFI_MEMORY_UCE then CpuArchAttributes OR EFI_MEMORY_UCE
         else if Attr AND EFI_MEMORY_WP = EFI_MEMORY_WP then CpuArchAttributes OR EFI_MEMORY_WP
         else CpuArchAttributes)"

section \<open>Converting space\<close>

text \<open>The verification of one entry in CoreConvertSpace.\<close>

definition convert_check :: "UINTN \<Rightarrow> UINT64 \<Rightarrow> UINT64 \<Rightarrow> UINT64 \<Rightarrow> UINT64 \<Rightarrow> EFI_GCD_MAP_ENTRY \<Rightarrow> EFI_STATUS" where
  "convert_check Operation Base Len Caps Attr Entry =
     (if Operation = GCD_ADD_MEMORY_OPERATION
      then if GcdMemoryType Entry \<noteq> EfiGcdMemoryTypeNonExistent \<or> GcdImageHandle Entry \<noteq> 0 then EFI_ACCESS_DENIED else EFI_SUCCESS
      else if Operation = GCD_ADD_IO_OPERATION
      then if GcdIoType Entry \<noteq> EfiGcdIoTypeNonExistent \<or> GcdImageHandle Entry \<noteq> 0 then EFI_ACCESS_DENIED else EFI_SUCCESS
      else if Operation = GCD_FREE_MEMORY_OPERATION \<or> Operation = GCD_FREE_IO_OPERATION
      then if GcdImageHandle Entry = 0 then EFI_NOT_FOUND else EFI_SUCCESS
      else if Operation = GCD_REMOVE_MEMORY_OPERATION
      then if GcdMemoryType Entry = EfiGcdMemoryTypeNonExistent then EFI_NOT_FOUND
           else if GcdImageHandle Entry \<noteq> 0 then EFI_ACCESS_DENIED else EFI_SUCCESS
      else if Operation = GCD_REMOVE_IO_OPERATION
      then if GcdIoType Entry = EfiGcdIoTypeNonExistent then EFI_NOT_FOUND
           else if GcdImageHandle Entry \<noteq> 0 then EFI_ACCESS_DENIED else EFI_SUCCESS
      else if Operation = GCD_SET_ATTRIBUTES_MEMORY_OPERATION
      then if Attr AND EFI_MEMORY_RUNTIME \<noteq> 0 \<and> (Base AND EFI_PAGE_MASK \<noteq> 0 \<or> Len AND EFI_PAGE_MASK \<noteq> 0) then EFI_INVALID_PARAMETER
           else if Capabilities Entry AND Attr \<noteq> Attr then EFI_UNSUPPORTED else EFI_SUCCESS
      else if Operation = GCD_SET_CAPABILITIES_MEMORY_OPERATION
      then if Base AND EFI_PAGE_MASK \<noteq> 0 \<or> Len AND EFI_PAGE_MASK \<noteq> 0 then EFI_INVALID_PARAMETER
           else if Caps AND GcdAttributes Entry \<noteq> GcdAttributes Entry then EFI_UNSUPPORTED else EFI_SUCCESS
      else EFI_SUCCESS)"

text \<open>The verification loop: the status of the first entry that is refused.\<close>

fun ConvertSpace_verify :: "(EFI_GCD_MAP_ENTRY \<Rightarrow> EFI_STATUS) \<Rightarrow> EFI_GCD_MAP_ENTRY list \<Rightarrow> EFI_STATUS" where
  "ConvertSpace_verify check [] = EFI_SUCCESS"
| "ConvertSpace_verify check (Entry # l) = (if EFI_ERROR (check Entry) then check Entry else ConvertSpace_verify check l)"

text \<open>The conversion of one entry; the variable Attributes is carried from one entry to the next.\<close>

definition convert_entry ::
  "UINTN \<Rightarrow> UINT32 \<Rightarrow> UINT32 \<Rightarrow> UINT64 \<Rightarrow> UINT64 \<Rightarrow> UINT64 \<Rightarrow> EFI_GCD_MAP_ENTRY \<Rightarrow> UINT64 \<times> EFI_GCD_MAP_ENTRY" where
  "convert_entry Operation MemoryType IoType Caps CpuArchAttributes Attr Entry =
     (if Operation = GCD_ADD_MEMORY_OPERATION
      then (Attr, Entry\<lparr>GcdMemoryType := MemoryType,
              Capabilities := (if MemoryType = EfiGcdMemoryTypeMemoryMappedIo then Caps OR EFI_MEMORY_RUNTIME OR EFI_MEMORY_PORT_IO
                               else Caps OR EFI_MEMORY_RUNTIME)\<rparr>)
      else if Operation = GCD_ADD_IO_OPERATION then (Attr, Entry\<lparr>GcdIoType := IoType\<rparr>)
      else if Operation = GCD_FREE_MEMORY_OPERATION \<or> Operation = GCD_FREE_IO_OPERATION
      then (Attr, Entry\<lparr>GcdImageHandle := 0, GcdDeviceHandle := 0\<rparr>)
      else if Operation = GCD_REMOVE_MEMORY_OPERATION
      then (Attr, Entry\<lparr>GcdMemoryType := EfiGcdMemoryTypeNonExistent, Capabilities := 0\<rparr>)
      else if Operation = GCD_REMOVE_IO_OPERATION then (Attr, Entry\<lparr>GcdIoType := EfiGcdIoTypeNonExistent\<rparr>)
      else if Operation = GCD_SET_ATTRIBUTES_MEMORY_OPERATION
      then let Attr = (if CpuArchAttributes = 0
                       then Attr OR (GcdAttributes Entry AND (EXCLUSIVE_MEMORY_ATTRIBUTES OR NONEXCLUSIVE_MEMORY_ATTRIBUTES)) else Attr)
           in (Attr, Entry\<lparr>GcdAttributes := Attr\<rparr>)
      else if Operation = GCD_SET_CAPABILITIES_MEMORY_OPERATION then (Attr, Entry\<lparr>Capabilities := Caps\<rparr>)
      else (Attr, Entry))"

text \<open>The lock and the map that an operation works on.\<close>

definition gcd_lock :: "UINTN \<Rightarrow> 'v CORE \<Rightarrow> 'v CORE option" where
  "gcd_lock Operation s =
     (if Operation AND GCD_MEMORY_SPACE_OPERATION \<noteq> 0 then CoreAcquireGcdMemoryLock s
      else if Operation AND GCD_IO_SPACE_OPERATION \<noteq> 0 then CoreAcquireGcdIoLock s
      else None)"

definition gcd_unlock :: "nat \<Rightarrow> 'v GCD_STATE notify \<Rightarrow> UINTN \<Rightarrow> 'v CORE \<Rightarrow> 'v CORE option" where
  "gcd_unlock n notify Operation s =
     do {
       s \<leftarrow> (if Operation AND GCD_MEMORY_SPACE_OPERATION \<noteq> 0 then CoreReleaseGcdMemoryLock n notify s else Some s);
       (if Operation AND GCD_IO_SPACE_OPERATION \<noteq> 0 then CoreReleaseGcdIoLock n notify s else Some s)
     }"

definition gcd_map :: "UINTN \<Rightarrow> 'v CORE \<Rightarrow> EFI_GCD_MAP_ENTRY list" where
  "gcd_map Operation s = (if Operation AND GCD_MEMORY_SPACE_OPERATION \<noteq> 0 then mGcdMemorySpaceMap (world s) else mGcdIoSpaceMap (world s))"

definition put_gcd_map :: "UINTN \<Rightarrow> EFI_GCD_MAP_ENTRY list \<Rightarrow> 'v CORE \<Rightarrow> 'v CORE" where
  "put_gcd_map Operation Map s =
     (if Operation AND GCD_MEMORY_SPACE_OPERATION \<noteq> 0 then s\<lparr>world := (world s)\<lparr>mGcdMemorySpaceMap := Map\<rparr>\<rparr>
      else s\<lparr>world := (world s)\<lparr>mGcdIoSpaceMap := Map\<rparr>\<rparr>)"

abbreviation fresh_entries :: gcd_spare where
  "fresh_entries \<equiv> \<lparr>BottomUnused = True, TopUnused = True\<rparr>"

text \<open>CoreConvertSpace between taking and releasing the lock, on the map; \<open>gCpu\<close> says whether the CPU protocol is there.\<close>

definition convert_map ::
  "bool \<Rightarrow> cpu_answer \<Rightarrow> bool \<Rightarrow> UINTN \<Rightarrow> UINT32 \<Rightarrow> UINT32 \<Rightarrow> UINT64 \<Rightarrow> UINT64 \<Rightarrow> UINT64 \<Rightarrow> UINT64 \<Rightarrow> EFI_GCD_MAP_ENTRY list
   \<Rightarrow> (EFI_STATUS \<times> EFI_GCD_MAP_ENTRY list) option" where
  "convert_map Pool Cpu CpuThere Operation MemoryType IoType Base Len Caps Attr Map =
     do {
       (Status, bf, es, af) \<leftarrow> CoreSearchGcdMapEntry Base Len Map;
       if EFI_ERROR Status then Some (EFI_UNSUPPORTED, Map)
       else let Status = ConvertSpace_verify (convert_check Operation Base Len Caps Attr) es
         in if EFI_ERROR Status then Some (Status, Map)
         else if \<not> Pool then Some (EFI_OUT_OF_RESOURCES, Map)
         else let CpuArchAttributes = (if Operation = GCD_SET_ATTRIBUTES_MEMORY_OPERATION then ConverToCpuArchAttributes Attr else 0);
                  Status = (if CpuArchAttributes \<noteq> 0 then if \<not> CpuThere then EFI_NOT_AVAILABLE_YET else Cpu Base Len CpuArchAttributes
                            else EFI_SUCCESS)
           in if EFI_ERROR Status then Some (Status, Map)
           else do {
             (bf, es, af) \<leftarrow> ConvertGcdMap_loop (convert_entry Operation MemoryType IoType Caps CpuArchAttributes)
                             Base Len fresh_entries Attr bf [] es af;
             Some (CoreCleanupGcdMapEntry bf es af)
           }
     }"

definition CoreConvertSpace ::
  "nat \<Rightarrow> 'v GCD_STATE notify \<Rightarrow> bool \<Rightarrow> cpu_answer \<Rightarrow> UINTN \<Rightarrow> UINT32 \<Rightarrow> UINT32 \<Rightarrow> UINT64 \<Rightarrow> UINT64 \<Rightarrow> UINT64 \<Rightarrow> UINT64 \<Rightarrow> 'v CORE
   \<Rightarrow> (EFI_STATUS \<times> 'v CORE) option" where
  "CoreConvertSpace n notify Pool Cpu Operation MemoryType IoType Base Len Caps Attr s =
     (if Len = 0 then Some (EFI_INVALID_PARAMETER, s)
      else do {
        s \<leftarrow> gcd_lock Operation s;
        (Status, Map) \<leftarrow> convert_map Pool Cpu (gCpu s) Operation MemoryType IoType Base Len Caps Attr (gcd_map Operation s);
        s \<leftarrow> gcd_unlock n notify Operation (put_gcd_map Operation Map s);
        Some (Status, s)
      })"

section \<open>Allocating space\<close>

abbreviation EfiGcdAllocateAnySearchBottomUp :: UINT32 where "EfiGcdAllocateAnySearchBottomUp \<equiv> 0"
abbreviation EfiGcdAllocateMaxAddressSearchBottomUp :: UINT32 where "EfiGcdAllocateMaxAddressSearchBottomUp \<equiv> 1"
abbreviation EfiGcdAllocateAddress :: UINT32 where "EfiGcdAllocateAddress \<equiv> 2"
abbreviation EfiGcdAllocateAnySearchTopDown :: UINT32 where "EfiGcdAllocateAnySearchTopDown \<equiv> 3"
abbreviation EfiGcdAllocateMaxAddressSearchTopDown :: UINT32 where "EfiGcdAllocateMaxAddressSearchTopDown \<equiv> 4"
abbreviation EfiGcdMaxAllocateType :: UINT32 where "EfiGcdMaxAllocateType \<equiv> 5"

definition CoreAllocateSpaceCheckEntry :: "UINTN \<Rightarrow> UINT32 \<Rightarrow> UINT32 \<Rightarrow> EFI_GCD_MAP_ENTRY \<Rightarrow> EFI_STATUS" where
  "CoreAllocateSpaceCheckEntry Operation MemoryType IoType Entry =
     (if GcdImageHandle Entry \<noteq> 0 then EFI_NOT_FOUND
      else if Operation = GCD_ALLOCATE_MEMORY_OPERATION then if GcdMemoryType Entry \<noteq> MemoryType then EFI_NOT_FOUND else EFI_SUCCESS
      else if Operation = GCD_ALLOCATE_IO_OPERATION then if GcdIoType Entry \<noteq> IoType then EFI_NOT_FOUND else EFI_SUCCESS
      else EFI_UNSUPPORTED)"

text \<open>
  The search for free space: \<open>Link\<close> is the index of an entry, \<open>None\<close> the head of the list. The results are the status, the base address found
  and the map split at the entries of the range.
\<close>

primrec AllocateSpace_loop ::
  "nat \<Rightarrow> bool \<Rightarrow> (EFI_GCD_MAP_ENTRY \<Rightarrow> EFI_STATUS) \<Rightarrow> UINT64 \<Rightarrow> UINT64 \<Rightarrow> UINT64 \<Rightarrow> EFI_GCD_MAP_ENTRY list \<Rightarrow> nat option \<Rightarrow> UINT64
   \<Rightarrow> (EFI_STATUS \<times> UINT64 \<times> EFI_GCD_MAP_ENTRY list \<times> EFI_GCD_MAP_ENTRY list \<times> EFI_GCD_MAP_ENTRY list) option" where
  "AllocateSpace_loop 0 TopDown check Len AlignmentMask MaxAddress Map Link Base = None"
| "AllocateSpace_loop (Suc k) TopDown check Len AlignmentMask MaxAddress Map Link Base =
     (case Link of
        None \<Rightarrow> Some (EFI_NOT_FOUND, Base, [], [], [])
      | Some i \<Rightarrow>
        let Entry = Map ! i;
            Link = (if TopDown then if i = 0 then None else Some (i - 1) else if i + 1 < length Map then Some (i + 1) else None)
        in if EFI_ERROR (check Entry) then AllocateSpace_loop k TopDown check Len AlignmentMask MaxAddress Map Link Base
        else if TopDown \<and> BaseAddress Entry + Len > MaxAddress
        then AllocateSpace_loop k TopDown check Len AlignmentMask MaxAddress Map Link Base
        else if TopDown \<and> Len > EndAddress Entry + 1 then Some (EFI_NOT_FOUND, Base, [], [], [])
        else let Base = (if TopDown
                         then ((if EndAddress Entry > MaxAddress then MaxAddress else EndAddress Entry) + 1 - Len) AND NOT AlignmentMask
                         else (BaseAddress Entry + AlignmentMask) AND NOT AlignmentMask)
        in if \<not> TopDown \<and> Base + Len - 1 > MaxAddress then Some (EFI_NOT_FOUND, Base, [], [], [])
        else do {
          (Status, bf, es, af) \<leftarrow> CoreSearchGcdMapEntry Base Len Map;
          if EFI_ERROR Status then Some (EFI_NOT_FOUND, Base, [], [], [])
          else (let ok = takeWhile (\<lambda>e. \<not> EFI_ERROR (check e)) es
                in if length ok = length es then Some (EFI_SUCCESS, Base, bf, es, af)
                   else AllocateSpace_loop k TopDown check Len AlignmentMask MaxAddress Map (Some (length bf + length ok)) Base)
        })"

text \<open>
  CoreAllocateSpace between taking and releasing the lock: first the search, whose results are the status, the base address and the map split at the
  range, then the conversion, whose results are the status, the base address and the map.
\<close>

definition allocate_search ::
  "nat \<Rightarrow> UINTN \<Rightarrow> UINT32 \<Rightarrow> UINT32 \<Rightarrow> UINT32 \<Rightarrow> UINTN \<Rightarrow> UINT64 \<Rightarrow> UINT64 \<Rightarrow> EFI_GCD_MAP_ENTRY list
   \<Rightarrow> (EFI_STATUS \<times> UINT64 \<times> EFI_GCD_MAP_ENTRY list \<times> EFI_GCD_MAP_ENTRY list \<times> EFI_GCD_MAP_ENTRY list) option" where
  "allocate_search n Operation AllocateType MemoryType IoType Alignment Len Base Map =
     do {
       b \<leftarrow> LShiftU64 1 Alignment;
       let AlignmentMask = b - 1;
       let check = CoreAllocateSpaceCheckEntry Operation MemoryType IoType;
       let TopDown = (AllocateType = EfiGcdAllocateMaxAddressSearchTopDown \<or> AllocateType = EfiGcdAllocateAnySearchTopDown);
       if AllocateType = EfiGcdAllocateAddress
       then if Base AND AlignmentMask \<noteq> 0 then Some (EFI_NOT_FOUND, Base, [], [], [])
            else do {
              (Status, bf, es, af) \<leftarrow> CoreSearchGcdMapEntry Base Len Map;
              Some (if EFI_ERROR Status then EFI_NOT_FOUND else ConvertSpace_verify check es, Base, bf, es, af)
            }
       else do {
         ASSERT (Map \<noteq> []);
         let MaxAddress = (if AllocateType = EfiGcdAllocateMaxAddressSearchBottomUp \<or> AllocateType = EfiGcdAllocateMaxAddressSearchTopDown
                           then Base else EndAddress (last Map));
         AllocateSpace_loop n TopDown check Len AlignmentMask MaxAddress Map (Some (if TopDown then length Map - 1 else 0)) Base
       }
     }"

definition allocate_map ::
  "nat \<Rightarrow> bool \<Rightarrow> UINTN \<Rightarrow> UINT32 \<Rightarrow> UINT32 \<Rightarrow> UINT32 \<Rightarrow> UINTN \<Rightarrow> UINT64 \<Rightarrow> UINT64 \<Rightarrow> UINT64 \<Rightarrow> UINT64 \<Rightarrow> EFI_GCD_MAP_ENTRY list
   \<Rightarrow> (EFI_STATUS \<times> UINT64 \<times> EFI_GCD_MAP_ENTRY list) option" where
  "allocate_map n Pool Operation AllocateType MemoryType IoType Alignment Len Base ImageHandle DeviceHandle Map =
     do {
       (Status, Base, bf, es, af) \<leftarrow> allocate_search n Operation AllocateType MemoryType IoType Alignment Len Base Map;
       if EFI_ERROR Status then Some (Status, Base, Map)
       else if \<not> Pool then Some (EFI_OUT_OF_RESOURCES, Base, Map)
       else do {
         (bf, es, af) \<leftarrow> ConvertGcdMap_loop (\<lambda>a e. (a, e\<lparr>GcdImageHandle := ImageHandle, GcdDeviceHandle := DeviceHandle\<rparr>))
                         Base Len fresh_entries () bf [] es af;
         let (Status, Map) = CoreCleanupGcdMapEntry bf es af;
         Some (Status, Base, Map)
       }
     }"

text \<open>\<open>BaseAddress\<close> is the pointer to the base address, \<open>None\<close> for NULL; the second result is the variable afterwards.\<close>

definition CoreAllocateSpace ::
  "nat \<Rightarrow> 'v GCD_STATE notify \<Rightarrow> bool \<Rightarrow> UINTN \<Rightarrow> UINT32 \<Rightarrow> UINT32 \<Rightarrow> UINT32 \<Rightarrow> UINTN \<Rightarrow> UINT64 \<Rightarrow> UINT64 option \<Rightarrow> UINT64 \<Rightarrow> UINT64 \<Rightarrow> 'v CORE
   \<Rightarrow> (EFI_STATUS \<times> UINT64 option \<times> 'v CORE) option" where
  "CoreAllocateSpace n notify Pool Operation AllocateType MemoryType IoType Alignment Len Address ImageHandle DeviceHandle s =
     (if AllocateType \<ge> EfiGcdMaxAllocateType \<or> MemoryType \<ge> EfiGcdMemoryTypeMaximum \<or> IoType \<ge> EfiGcdIoTypeMaximum
      then Some (EFI_INVALID_PARAMETER, Address, s)
      else case Address of
        None \<Rightarrow> Some (EFI_INVALID_PARAMETER, Address, s)
      | Some Base \<Rightarrow>
        if ImageHandle = 0 then Some (EFI_INVALID_PARAMETER, Address, s)
        else if Alignment \<ge> 64 then Some (EFI_NOT_FOUND, Address, s)
        else if Len = 0 then Some (EFI_INVALID_PARAMETER, Address, s)
        else do {
          s \<leftarrow> gcd_lock Operation s;
          (Status, Base, Map) \<leftarrow> allocate_map n Pool Operation AllocateType MemoryType IoType Alignment Len Base ImageHandle DeviceHandle (gcd_map Operation s);
          s \<leftarrow> gcd_unlock n notify Operation (put_gcd_map Operation Map s);
          Some (Status, Some Base, s)
        })"

section \<open>Services for memory space\<close>

definition CoreInternalAddMemorySpace ::
  "nat \<Rightarrow> 'v GCD_STATE notify \<Rightarrow> bool \<Rightarrow> cpu_answer \<Rightarrow> UINT32 \<Rightarrow> UINT64 \<Rightarrow> UINT64 \<Rightarrow> UINT64 \<Rightarrow> 'v CORE \<Rightarrow> (EFI_STATUS \<times> 'v CORE) option" where
  "CoreInternalAddMemorySpace n notify Pool Cpu MemoryType Base Len Caps s =
     (if MemoryType \<le> EfiGcdMemoryTypeNonExistent \<or> MemoryType \<ge> EfiGcdMemoryTypeMaximum then Some (EFI_INVALID_PARAMETER, s)
      else CoreConvertSpace n notify Pool Cpu GCD_ADD_MEMORY_OPERATION MemoryType 0 Base Len Caps 0 s)"

definition CoreAllocateMemorySpace ::
  "nat \<Rightarrow> 'v GCD_STATE notify \<Rightarrow> bool \<Rightarrow> UINT32 \<Rightarrow> UINT32 \<Rightarrow> UINTN \<Rightarrow> UINT64 \<Rightarrow> UINT64 option \<Rightarrow> UINT64 \<Rightarrow> UINT64 \<Rightarrow> 'v CORE
   \<Rightarrow> (EFI_STATUS \<times> UINT64 option \<times> 'v CORE) option" where
  "CoreAllocateMemorySpace n notify Pool AllocateType MemoryType Alignment Len Address ImageHandle DeviceHandle s =
     CoreAllocateSpace n notify Pool GCD_ALLOCATE_MEMORY_OPERATION AllocateType MemoryType 0 Alignment Len Address ImageHandle DeviceHandle s"

abbreviation EfiConventionalMemory :: UINT32 where "EfiConventionalMemory \<equiv> 7"

text \<open>
  The loop of CoreAddMemorySpace over the pages of a range that could not be allocated as a whole: PageLength is \<open>k\<close> pages. The result is the
  last status. CoreAddMemoryDescriptor of the page services (Mem/Page.c) is a parameter, with the type of memory, the address, the number of
  pages and the attributes as its arguments.
\<close>

primrec AddMemorySpace_loop ::
  "nat \<Rightarrow> 'v GCD_STATE notify \<Rightarrow> bool \<Rightarrow> (UINT32 \<Rightarrow> UINT64 \<Rightarrow> UINT64 \<Rightarrow> UINT64 \<Rightarrow> 'v CORE \<Rightarrow> 'v CORE) \<Rightarrow> UINT64 \<Rightarrow> UINT32 \<Rightarrow> UINT64
   \<Rightarrow> nat \<Rightarrow> UINT64 \<Rightarrow> EFI_STATUS \<Rightarrow> 'v CORE \<Rightarrow> (EFI_STATUS \<times> 'v CORE) option" where
  "AddMemorySpace_loop n notify Pool AddMemoryDescriptor CoreHandle MemoryType Caps 0 PageBase Status s = Some (Status, s)"
| "AddMemorySpace_loop n notify Pool AddMemoryDescriptor CoreHandle MemoryType Caps (Suc k) PageBase Status s =
     do {
       (Status, Address, s) \<leftarrow> CoreAllocateMemorySpace n notify Pool EfiGcdAllocateAddress MemoryType EFI_PAGE_SHIFT EFI_PAGE_SIZE (Some PageBase) CoreHandle 0 s;
       let PageBase = the Address;
       let s = (if EFI_ERROR Status then s else AddMemoryDescriptor EfiConventionalMemory PageBase 1 Caps s);
       AddMemorySpace_loop n notify Pool AddMemoryDescriptor CoreHandle MemoryType Caps k (PageBase + EFI_PAGE_SIZE) Status s
     }"

text \<open>\<open>CoreHandle\<close> is gDxeCoreImageHandle.\<close>

definition CoreAddMemorySpace ::
  "nat \<Rightarrow> 'v GCD_STATE notify \<Rightarrow> bool \<Rightarrow> cpu_answer \<Rightarrow> (UINT32 \<Rightarrow> UINT64 \<Rightarrow> UINT64 \<Rightarrow> UINT64 \<Rightarrow> 'v CORE \<Rightarrow> 'v CORE) \<Rightarrow> UINT64
   \<Rightarrow> UINT32 \<Rightarrow> UINT64 \<Rightarrow> UINT64 \<Rightarrow> UINT64 \<Rightarrow> 'v CORE \<Rightarrow> (EFI_STATUS \<times> 'v CORE) option" where
  "CoreAddMemorySpace n notify Pool Cpu AddMemoryDescriptor CoreHandle MemoryType Base Len Caps s =
     do {
       (Status, s) \<leftarrow> CoreInternalAddMemorySpace n notify Pool Cpu MemoryType Base Len Caps s;
       if \<not> EFI_ERROR Status \<and> (MemoryType = EfiGcdMemoryTypeSystemMemory \<or> MemoryType = EfiGcdMemoryTypeMoreReliable)
       then do {
         PageBase \<leftarrow> PageAlignAddress Base;
         PageLength \<leftarrow> PageAlignLength (Base + Len - PageBase);
         (Status, Address, s) \<leftarrow> CoreAllocateMemorySpace n notify Pool EfiGcdAllocateAddress MemoryType EFI_PAGE_SHIFT PageLength (Some PageBase) CoreHandle 0 s;
         let PageBase = the Address;
         Pages \<leftarrow> RShiftU64 PageLength EFI_PAGE_SHIFT;
         if \<not> EFI_ERROR Status then Some (Status, AddMemoryDescriptor EfiConventionalMemory PageBase Pages Caps s)
         else AddMemorySpace_loop n notify Pool AddMemoryDescriptor CoreHandle MemoryType Caps (unat Pages) PageBase Status s
       }
       else Some (Status, s)
     }"

definition CoreFreeMemorySpace ::
  "nat \<Rightarrow> 'v GCD_STATE notify \<Rightarrow> bool \<Rightarrow> cpu_answer \<Rightarrow> UINT64 \<Rightarrow> UINT64 \<Rightarrow> 'v CORE \<Rightarrow> (EFI_STATUS \<times> 'v CORE) option" where
  "CoreFreeMemorySpace n notify Pool Cpu Base Len s = CoreConvertSpace n notify Pool Cpu GCD_FREE_MEMORY_OPERATION 0 0 Base Len 0 0 s"

definition CoreRemoveMemorySpace ::
  "nat \<Rightarrow> 'v GCD_STATE notify \<Rightarrow> bool \<Rightarrow> cpu_answer \<Rightarrow> UINT64 \<Rightarrow> UINT64 \<Rightarrow> 'v CORE \<Rightarrow> (EFI_STATUS \<times> 'v CORE) option" where
  "CoreRemoveMemorySpace n notify Pool Cpu Base Len s = CoreConvertSpace n notify Pool Cpu GCD_REMOVE_MEMORY_OPERATION 0 0 Base Len 0 0 s"

record EFI_GCD_MEMORY_SPACE_DESCRIPTOR =
  MdBaseAddress :: UINT64
  MdLength :: UINT64
  MdCapabilities :: UINT64
  MdAttributes :: UINT64
  MdMemoryType :: UINT32
  MdImageHandle :: UINT64
  MdDeviceHandle :: UINT64

definition BuildMemoryDescriptor :: "EFI_GCD_MAP_ENTRY \<Rightarrow> EFI_GCD_MEMORY_SPACE_DESCRIPTOR" where
  "BuildMemoryDescriptor Entry =
     \<lparr>MdBaseAddress = BaseAddress Entry, MdLength = EndAddress Entry - BaseAddress Entry + 1, MdCapabilities = Capabilities Entry,
      MdAttributes = GcdAttributes Entry, MdMemoryType = GcdMemoryType Entry, MdImageHandle = GcdImageHandle Entry,
      MdDeviceHandle = GcdDeviceHandle Entry\<rparr>"

text \<open>\<open>There\<close> says that the pointer to the descriptor is not NULL; the second result is what is written to it.\<close>

definition CoreGetMemorySpaceDescriptor ::
  "nat \<Rightarrow> 'v GCD_STATE notify \<Rightarrow> UINT64 \<Rightarrow> bool \<Rightarrow> 'v CORE \<Rightarrow> (EFI_STATUS \<times> EFI_GCD_MEMORY_SPACE_DESCRIPTOR option \<times> 'v CORE) option" where
  "CoreGetMemorySpaceDescriptor n notify Base There s =
     (if \<not> There then Some (EFI_INVALID_PARAMETER, None, s)
      else do {
        s \<leftarrow> CoreAcquireGcdMemoryLock s;
        (Status, bf, es, af) \<leftarrow> CoreSearchGcdMapEntry Base 1 (mGcdMemorySpaceMap (world s));
        let (Status, d) = (if EFI_ERROR Status then (EFI_NOT_FOUND, None) else (Status, Some (BuildMemoryDescriptor (hd es))));
        s \<leftarrow> CoreReleaseGcdMemoryLock n notify s;
        Some (Status, d, s)
      })"

definition CoreSetMemorySpaceAttributes ::
  "nat \<Rightarrow> 'v GCD_STATE notify \<Rightarrow> bool \<Rightarrow> cpu_answer \<Rightarrow> UINT64 \<Rightarrow> UINT64 \<Rightarrow> UINT64 \<Rightarrow> 'v CORE \<Rightarrow> (EFI_STATUS \<times> 'v CORE) option" where
  "CoreSetMemorySpaceAttributes n notify Pool Cpu Base Len Attr s =
     CoreConvertSpace n notify Pool Cpu GCD_SET_ATTRIBUTES_MEMORY_OPERATION 0 0 Base Len 0 Attr s"

text \<open>CoreUpdateMemoryAttributes of the page services is a parameter, with the address, the number of pages and the attributes as its arguments.\<close>

definition CoreSetMemorySpaceCapabilities ::
  "nat \<Rightarrow> 'v GCD_STATE notify \<Rightarrow> bool \<Rightarrow> cpu_answer \<Rightarrow> (UINT64 \<Rightarrow> UINT64 \<Rightarrow> UINT64 \<Rightarrow> 'v CORE \<Rightarrow> 'v CORE) \<Rightarrow> UINT64 \<Rightarrow> UINT64 \<Rightarrow> UINT64 \<Rightarrow> 'v CORE
   \<Rightarrow> (EFI_STATUS \<times> 'v CORE) option" where
  "CoreSetMemorySpaceCapabilities n notify Pool Cpu UpdateMemoryAttributes Base Len Caps s =
     do {
       (Status, s) \<leftarrow> CoreConvertSpace n notify Pool Cpu GCD_SET_CAPABILITIES_MEMORY_OPERATION 0 0 Base Len Caps 0 s;
       Pages \<leftarrow> RShiftU64 Len EFI_PAGE_SHIFT;
       Some (Status, if EFI_ERROR Status then s else UpdateMemoryAttributes Base Pages (Caps AND NOT EFI_MEMORY_RUNTIME) s)
     }"

text \<open>
  The loop of CoreGetMemorySpaceMap, entered with the lock held: \<open>Number\<close> is *NumberOfDescriptors and \<open>Buffer\<close> says that *MemorySpaceMap is
  allocated. AllocatePool and FreePool, which run with the lock released and may use the map themselves, are parameters; AllocatePool is given the
  number of descriptors and says whether it succeeds.
\<close>

primrec GetMemorySpaceMap_loop ::
  "nat \<Rightarrow> nat \<Rightarrow> 'v GCD_STATE notify \<Rightarrow> (UINTN \<Rightarrow> 'v CORE \<Rightarrow> bool \<times> 'v CORE) \<Rightarrow> ('v CORE \<Rightarrow> 'v CORE) \<Rightarrow> UINTN \<Rightarrow> bool \<Rightarrow> 'v CORE
   \<Rightarrow> (EFI_STATUS \<times> UINTN \<times> EFI_GCD_MEMORY_SPACE_DESCRIPTOR list option \<times> 'v CORE) option" where
  "GetMemorySpaceMap_loop 0 n notify AllocatePool FreePool Number Buffer s = None"
| "GetMemorySpaceMap_loop (Suc k) n notify AllocatePool FreePool Number Buffer s =
     (let DescriptorCount = CoreCountGcdMapEntry (mGcdMemorySpaceMap (world s))
      in if DescriptorCount = Number \<and> Buffer
      then do {
        let Descriptors = map BuildMemoryDescriptor (mGcdMemorySpaceMap (world s));
        s \<leftarrow> CoreReleaseGcdMemoryLock n notify s;
        Some (EFI_SUCCESS, Number, Some Descriptors, s)
      }
      else do {
        s \<leftarrow> CoreReleaseGcdMemoryLock n notify s;
        let s = (if Buffer then FreePool s else s);
        let (ok, s) = AllocatePool DescriptorCount s;
        if \<not> ok then Some (EFI_OUT_OF_RESOURCES, 0, None, s)
        else do {
          s \<leftarrow> CoreAcquireGcdMemoryLock s;
          GetMemorySpaceMap_loop k n notify AllocatePool FreePool DescriptorCount True s
        }
      })"

definition CoreGetMemorySpaceMap ::
  "nat \<Rightarrow> nat \<Rightarrow> 'v GCD_STATE notify \<Rightarrow> (UINTN \<Rightarrow> 'v CORE \<Rightarrow> bool \<times> 'v CORE) \<Rightarrow> ('v CORE \<Rightarrow> 'v CORE) \<Rightarrow> bool \<Rightarrow> bool \<Rightarrow> 'v CORE
   \<Rightarrow> (EFI_STATUS \<times> UINTN \<times> EFI_GCD_MEMORY_SPACE_DESCRIPTOR list option \<times> 'v CORE) option" where
  "CoreGetMemorySpaceMap k n notify AllocatePool FreePool NumberThere MapThere s =
     (if \<not> NumberThere \<or> \<not> MapThere then Some (EFI_INVALID_PARAMETER, 0, None, s)
      else do {
        s \<leftarrow> CoreAcquireGcdMemoryLock s;
        GetMemorySpaceMap_loop k n notify AllocatePool FreePool 0 False s
      })"

section \<open>Services for I/O space\<close>

definition CoreAddIoSpace ::
  "nat \<Rightarrow> 'v GCD_STATE notify \<Rightarrow> bool \<Rightarrow> cpu_answer \<Rightarrow> UINT32 \<Rightarrow> UINT64 \<Rightarrow> UINT64 \<Rightarrow> 'v CORE \<Rightarrow> (EFI_STATUS \<times> 'v CORE) option" where
  "CoreAddIoSpace n notify Pool Cpu IoType Base Len s =
     (if IoType \<le> EfiGcdIoTypeNonExistent \<or> IoType \<ge> EfiGcdIoTypeMaximum then Some (EFI_INVALID_PARAMETER, s)
      else CoreConvertSpace n notify Pool Cpu GCD_ADD_IO_OPERATION 0 IoType Base Len 0 0 s)"

definition CoreAllocateIoSpace ::
  "nat \<Rightarrow> 'v GCD_STATE notify \<Rightarrow> bool \<Rightarrow> UINT32 \<Rightarrow> UINT32 \<Rightarrow> UINTN \<Rightarrow> UINT64 \<Rightarrow> UINT64 option \<Rightarrow> UINT64 \<Rightarrow> UINT64 \<Rightarrow> 'v CORE
   \<Rightarrow> (EFI_STATUS \<times> UINT64 option \<times> 'v CORE) option" where
  "CoreAllocateIoSpace n notify Pool AllocateType IoType Alignment Len Address ImageHandle DeviceHandle s =
     CoreAllocateSpace n notify Pool GCD_ALLOCATE_IO_OPERATION AllocateType 0 IoType Alignment Len Address ImageHandle DeviceHandle s"

definition CoreFreeIoSpace ::
  "nat \<Rightarrow> 'v GCD_STATE notify \<Rightarrow> bool \<Rightarrow> cpu_answer \<Rightarrow> UINT64 \<Rightarrow> UINT64 \<Rightarrow> 'v CORE \<Rightarrow> (EFI_STATUS \<times> 'v CORE) option" where
  "CoreFreeIoSpace n notify Pool Cpu Base Len s = CoreConvertSpace n notify Pool Cpu GCD_FREE_IO_OPERATION 0 0 Base Len 0 0 s"

definition CoreRemoveIoSpace ::
  "nat \<Rightarrow> 'v GCD_STATE notify \<Rightarrow> bool \<Rightarrow> cpu_answer \<Rightarrow> UINT64 \<Rightarrow> UINT64 \<Rightarrow> 'v CORE \<Rightarrow> (EFI_STATUS \<times> 'v CORE) option" where
  "CoreRemoveIoSpace n notify Pool Cpu Base Len s = CoreConvertSpace n notify Pool Cpu GCD_REMOVE_IO_OPERATION 0 0 Base Len 0 0 s"

record EFI_GCD_IO_SPACE_DESCRIPTOR =
  IdBaseAddress :: UINT64
  IdLength :: UINT64
  IdIoType :: UINT32
  IdImageHandle :: UINT64
  IdDeviceHandle :: UINT64

definition BuildIoDescriptor :: "EFI_GCD_MAP_ENTRY \<Rightarrow> EFI_GCD_IO_SPACE_DESCRIPTOR" where
  "BuildIoDescriptor Entry =
     \<lparr>IdBaseAddress = BaseAddress Entry, IdLength = EndAddress Entry - BaseAddress Entry + 1, IdIoType = GcdIoType Entry,
      IdImageHandle = GcdImageHandle Entry, IdDeviceHandle = GcdDeviceHandle Entry\<rparr>"

definition CoreGetIoSpaceDescriptor ::
  "nat \<Rightarrow> 'v GCD_STATE notify \<Rightarrow> UINT64 \<Rightarrow> bool \<Rightarrow> 'v CORE \<Rightarrow> (EFI_STATUS \<times> EFI_GCD_IO_SPACE_DESCRIPTOR option \<times> 'v CORE) option" where
  "CoreGetIoSpaceDescriptor n notify Base There s =
     (if \<not> There then Some (EFI_INVALID_PARAMETER, None, s)
      else do {
        s \<leftarrow> CoreAcquireGcdIoLock s;
        (Status, bf, es, af) \<leftarrow> CoreSearchGcdMapEntry Base 1 (mGcdIoSpaceMap (world s));
        let (Status, d) = (if EFI_ERROR Status then (EFI_NOT_FOUND, None) else (Status, Some (BuildIoDescriptor (hd es))));
        s \<leftarrow> CoreReleaseGcdIoLock n notify s;
        Some (Status, d, s)
      })"

text \<open>\<open>Pool\<close> says whether the buffer is allocated. The number of descriptors is written in any case.\<close>

definition CoreGetIoSpaceMap ::
  "nat \<Rightarrow> 'v GCD_STATE notify \<Rightarrow> bool \<Rightarrow> bool \<Rightarrow> bool \<Rightarrow> 'v CORE
   \<Rightarrow> (EFI_STATUS \<times> UINTN option \<times> EFI_GCD_IO_SPACE_DESCRIPTOR list option \<times> 'v CORE) option" where
  "CoreGetIoSpaceMap n notify Pool NumberThere MapThere s =
     (if \<not> NumberThere \<or> \<not> MapThere then Some (EFI_INVALID_PARAMETER, None, None, s)
      else do {
        s \<leftarrow> CoreAcquireGcdIoLock s;
        let Number = CoreCountGcdMapEntry (mGcdIoSpaceMap (world s));
        let (Status, Descriptors) = (if \<not> Pool then (EFI_OUT_OF_RESOURCES, None)
              else (EFI_SUCCESS, Some (map BuildIoDescriptor (mGcdIoSpaceMap (world s)))));
        s \<leftarrow> CoreReleaseGcdIoLock n notify s;
        Some (Status, Some Number, Descriptors, s)
      })"

end
