(* ===== verification/Gcd_Search.thy ===== *)
theory Gcd_Search
  imports Dxe_Gcd
begin

text \<open>
  The search for free space in a map (CoreAllocateSpace): alignment, the addresses at which a range may be allocated, and the searches from below and
  from above. The search from below finds the lowest such address; both end within one step more than the map has entries.
\<close>

unbundle bit_operations_syntax

section \<open>Alignment\<close>

lemma unat_take_bit: "unat (take_bit al x) = unat x mod 2 ^ al"
  unfolding unsigned_take_bit_eq by (simp add: take_bit_eq_mod)

lemma align_down:
  fixes x :: UINT64
  assumes "al < 64"
  shows "unat (x AND NOT (2 ^ al - 1)) = unat x - unat x mod 2 ^ al"
proof -
  have m: "2 ^ al - 1 = (mask al :: UINT64)" by (simp add: mask_eq_exp_minus_1)
  have "x AND NOT (mask al) = x AND NOT (x AND mask al)" by (simp add: bit.conj_disj_distrib)
  also have "\<dots> = x - (x AND mask al)" by (rule disjunctive_diff_eq_and_not[symmetric]) (simp add: bit_eq_iff bit_simps)
  also have "\<dots> = x - take_bit al x" by (simp add: take_bit_eq_mask)
  finally have e: "x AND NOT (2 ^ al - 1) = x - take_bit al x" by (simp add: m)
  have "take_bit al x \<le> x" by (simp add: word_le_nat_alt unat_take_bit)
  then show ?thesis unfolding e by (simp add: unat_sub unat_take_bit)
qed

lemma page_mask: "(2 :: UINT64) ^ 12 - 1 = 0xFFF"
  by simp

lemma aligned_iff:
  fixes x :: UINT64
  assumes "al < 64"
  shows "x AND (2 ^ al - 1) = 0 \<longleftrightarrow> 2 ^ al dvd unat x"
proof -
  have m: "2 ^ al - 1 = (mask al :: UINT64)" by (simp add: mask_eq_exp_minus_1)
  show ?thesis unfolding m take_bit_eq_mask[symmetric] word_unat_eq_iff by (simp add: unat_take_bit dvd_eq_mod_eq_0)
qed

lemma align_up:
  fixes x :: UINT64
  assumes "al < 64" "unat x < 2 ^ 63"
  shows "unat ((x + (2 ^ al - 1)) AND NOT (2 ^ al - 1)) = (unat x + (2 ^ al - 1)) div 2 ^ al * 2 ^ al"
proof -
  have p: "unat (2 ^ al - 1 :: UINT64) = 2 ^ al - 1"  
  proof -
    have "unat (of_nat (2 ^ al) :: UINT64) = 2 ^ al" 
      unfolding unat_of_nat using power_strict_increasing[of al 64 "2::nat"] assms(1) by simp
    then have "unat (2 ^ al :: UINT64) = 2 ^ al" by simp
    then show ?thesis by (subst unat_minus_one) (auto simp: word_unat_eq_iff)
  qed
  have "(2::nat) ^ al \<le> 2 ^ 63" using assms(1) by (intro power_increasing) auto
  then have "unat (x + (2 ^ al - 1)) = unat x + (2 ^ al - 1)" using assms(2) p by (simp add: unat_word_ariths)
  then show ?thesis using align_down[OF assms(1), of "x + (2 ^ al - 1)"] by (metis minus_mod_eq_div_mult)
qed

lemma align_up_bounds:
  fixes b a d :: nat
  assumes "0 < d"
  shows "b \<le> (b + (d - 1)) div d * d" "(b + (d - 1)) div d * d \<le> b + (d - 1)" "d dvd a \<Longrightarrow> b \<le> a \<Longrightarrow> (b + (d - 1)) div d * d \<le> a"
proof -
  have "(b + (d - 1)) div d * d + (b + (d - 1)) mod d = b + (d - 1)" "(b + (d - 1)) mod d < d" using assms by simp_all
  then show "b \<le> (b + (d - 1)) div d * d" "(b + (d - 1)) div d * d \<le> b + (d - 1)" using assms by linarith+
  assume "d dvd a" "b \<le> a"
  then obtain q where q: "a = q * d" by (metis dvd_div_mult_self)
  have "(b + (d - 1)) div d \<le> (q * d + (d - 1)) div d" using \<open>b \<le> a\<close> q by (intro div_le_mono) simp
  also have "\<dots> = q" using assms using div_mult_self3[of d q "d - 1"] by (simp add: mult.commute)
  finally have "(b + (d - 1)) div d * d \<le> q * d" by (rule mult_le_mono1)
  then show "(b + (d - 1)) div d * d \<le> a" unfolding q .
qed

section \<open>Entries by index\<close>

lemma tiles_nth:
  assumes "tiles lo m hi" "i < length m"
  shows "tiles lo (take i m) (unat (BaseAddress (m ! i)))" "unat (BaseAddress (m ! i)) \<le> unat (EndAddress (m ! i))"
    "tiles (unat (EndAddress (m ! i)) + 1) (drop (Suc i) m) hi"
proof -
  obtain k where "tiles lo (take i m) k" "tiles k (m ! i # drop (Suc i) m) hi" using assms id_take_nth_drop[OF assms(2)] tiles_append by metis
  then show "tiles lo (take i m) (unat (BaseAddress (m ! i)))" "unat (BaseAddress (m ! i)) \<le> unat (EndAddress (m ! i))"
    "tiles (unat (EndAddress (m ! i)) + 1) (drop (Suc i) m) hi" by auto
qed

lemma tiles_next:
  assumes "tiles lo m hi" "Suc i < length m"
  shows "unat (BaseAddress (m ! Suc i)) = unat (EndAddress (m ! i)) + 1"
proof -
  have "drop (Suc i) m = m ! Suc i # drop (Suc (Suc i)) m" using assms(2) by (simp add: Cons_nth_drop_Suc)
  then show ?thesis using tiles_nth(3)[OF assms(1), of i] assms(2) by simp
qed

lemma tiles_order:
  assumes "tiles lo m hi" "i < j" "j < length m"
  shows "unat (EndAddress (m ! i)) < unat (BaseAddress (m ! j))"
proof -
  have "m ! j = drop (Suc i) m ! (j - Suc i)" using assms by simp
  then have "m ! j \<in> set (drop (Suc i) m)" using assms nth_mem[of "j - Suc i" "drop (Suc i) m"] by simp
  then show ?thesis using tiles_above[OF tiles_nth(3)[OF assms(1), of i]] assms by fastforce
qed

lemma space_nth:
  assumes "tiles lo m hi" "i < length m" "holds_address x (m ! i)"
  shows "space m x = Some (what (m ! i))"
proof -
  note t = tiles_nth[OF assms(1,2)]
  have c: "tiles (unat (BaseAddress (m ! i))) (m ! i # drop (Suc i) m) hi" using t by simp
  have "space m x = space (take i m @ m ! i # drop (Suc i) m) x" using id_take_nth_drop[OF assms(2)] by simp
  then show ?thesis using space_append[OF t(1) c, of x] space_Cons[OF c, of x] assms(3) by simp
qed

lemma space_what: "space m x = Some w \<Longrightarrow> what w = w"
  by (auto simp: space_def)

section \<open>Space that may be allocated\<close>

text \<open>
  An address at which \<open>len\<close> bytes can be allocated: it is a multiple of \<open>2 ^ al\<close>, the bytes end at or below \<open>Top\<close> and every one of them is in an entry that
  passes the check.
\<close>

definition suitable :: "(EFI_GCD_MAP_ENTRY \<Rightarrow> EFI_STATUS) \<Rightarrow> EFI_GCD_MAP_ENTRY list \<Rightarrow> nat \<Rightarrow> nat \<Rightarrow> nat \<Rightarrow> nat \<Rightarrow> bool" where
  "suitable check m al Top len a \<longleftrightarrow> 2 ^ al dvd a \<and> a + len \<le> Top + 1
     \<and> (\<forall>x. a \<le> x \<and> x < a + len \<longrightarrow> (\<exists>w. space m x = Some w \<and> \<not> EFI_ERROR (check w)))"

lemma suitable_beyond:
  assumes m: "tiles lo m hi" "i < length m" and c: "\<And>e. check e = check (what e)" "EFI_ERROR (check (m ! i))"
    and a: "suitable check m al Top len a" "0 < len" "holds_address x (m ! i)" "x < a + len"
  shows "unat (EndAddress (m ! i)) < a"
proof (rule ccontr)
  assume n: "\<not> unat (EndAddress (m ! i)) < a"
  let ?y = "max a (unat (BaseAddress (m ! i)))"
  have y: "holds_address ?y (m ! i)" "a \<le> ?y" "?y < a + len" using n a(2-4) by auto
  obtain w where "space m ?y = Some w" "\<not> EFI_ERROR (check w)" using a(1) y(2,3) unfolding suitable_def by blast
  then have "\<not> EFI_ERROR (check (what (m ! i)))" using space_nth[OF m y(1)] by simp
  then show False using c by metis
qed

lemma range_checked:
  assumes r: "range_of_map lo hi Base Len bf es af" and len: "Len \<noteq> 0" and c: "\<And>e. P e = P (what e)"
  shows "takeWhile P es = es \<Longrightarrow> within Base Len x \<Longrightarrow> \<exists>w. space (bf @ es @ af) x = Some w \<and> P w"
    and "takeWhile P es \<noteq> es \<Longrightarrow> \<exists>x. length bf + length (takeWhile P es) < length (bf @ es @ af)
      \<and> \<not> P ((bf @ es @ af) ! (length bf + length (takeWhile P es))) \<and> within Base Len x
      \<and> holds_address x ((bf @ es @ af) ! (length bf + length (takeWhile P es)))"
proof -
  obtain j k where t: "tiles j es k" and e: "es \<noteq> []" "holds_address (unat Base) (hd es)"
    "holds_address (unat Base + unat Len - 1) (last es)" using r by (auto simp: range_of_map_def)
  assume a: "takeWhile P es = es" "within Base Len x"
  have "j \<le> x" using e(1,2) t a(2) by (cases es) auto
  moreover have "x < k" using tiles_hi[OF t e(1)] e(3) a(2) by linarith
  ultimately obtain d where d: "find (holds_address x) es = Some d" using space_in[OF t] by (auto simp: space_def)
  then have "P d" using find_SomeD[OF d] a(1) by (metis set_takeWhileD)
  moreover have "space (bf @ es @ af) x = Some (what d)" using range_space[OF r a(2)] d by (simp add: space_def)
  ultimately show "\<exists>w. space (bf @ es @ af) x = Some w \<and> P w" using c[of d] by simp
next
  let ?f = "length (takeWhile P es)"
  assume "takeWhile P es \<noteq> es"
  then have f: "?f < length es" by (metis length_takeWhile_le nat_less_le takeWhile_eq_take take_all_iff)
  then have n: "\<not> P (es ! ?f)" by (rule nth_length_takeWhile)
  have i: "(bf @ es @ af) ! (length bf + ?f) = es ! ?f" using f by (simp add: nth_append)
  obtain x where "within Base Len x" "holds_address x (es ! ?f)" by (rule range_touched[OF r nth_mem[OF f] len])
  then show "\<exists>x. length bf + ?f < length (bf @ es @ af) \<and> \<not> P ((bf @ es @ af) ! (length bf + ?f)) \<and> within Base Len x
      \<and> holds_address x ((bf @ es @ af) ! (length bf + ?f))" using f n i by auto
qed

text \<open>Trying a candidate: the range is not in the map, or all its entries pass, or the first that does not is told by its index.\<close>

abbreviation passing :: "(EFI_GCD_MAP_ENTRY \<Rightarrow> EFI_STATUS) \<Rightarrow> EFI_GCD_MAP_ENTRY list \<Rightarrow> EFI_GCD_MAP_ENTRY list" where
  "passing check es \<equiv> takeWhile (\<lambda>e. \<not> EFI_ERROR (check e)) es"

lemma candidate_tried:
  assumes m: "tiles 0 m hi" and len: "Len \<noteq> 0" and c: "\<And>e. check e = check (what e)" and nowrap: "unat B + unat Len \<le> 2 ^ 64"
  obtains (outside) "hi < unat B + unat Len" "CoreSearchGcdMapEntry B Len m = Some (EFI_NOT_FOUND, [], [], [])"
  | (good) bf es af where "CoreSearchGcdMapEntry B Len m = Some (EFI_SUCCESS, bf, es, af)" "length (passing check es) = length es"
      "\<And>x. within B Len x \<Longrightarrow> \<exists>w. space m x = Some w \<and> \<not> EFI_ERROR (check w)"
  | (bad) bf es af f x where "CoreSearchGcdMapEntry B Len m = Some (EFI_SUCCESS, bf, es, af)" "length (passing check es) \<noteq> length es"
      "f = length bf + length (passing check es)" "f < length m" "EFI_ERROR (check (m ! f))" "within B Len x" "holds_address x (m ! f)"
      "m ! f = es ! length (passing check es)"
proof (cases "hi < unat B + unat Len")
  case True
  then show thesis using outside search_outside[OF m len nowrap] by blast
next
  case False
  then obtain bf es af where s: "CoreSearchGcdMapEntry B Len m = Some (EFI_SUCCESS, bf, es, af)" "m = bf @ es @ af"
    and r: "range_of_map 0 hi B Len bf es af" using range_searched[OF m, of B Len] len by auto
  let ?P = "\<lambda>e. \<not> EFI_ERROR (check e)"
  have P: "?P e = ?P (what e)" for e using c[of e] by simp
  show thesis
  proof (cases "passing check es = es")
    case True
    show thesis using good[OF s(1)] range_checked(1)[OF r len P True] s(2) True by simp
  next
    case False
    obtain x where "length bf + length (passing check es) < length m" "EFI_ERROR (check (m ! (length bf + length (passing check es))))" "within B Len x"
      "holds_address x (m ! (length bf + length (passing check es)))" using range_checked(2)[OF r len P False] unfolding s(2) by auto
    moreover have n: "length (passing check es) \<noteq> length es" using False by (metis takeWhile_eq_take take_all_iff order_refl)
    moreover have "m ! (length bf + length (passing check es)) = es ! length (passing check es)"
      using n length_takeWhile_le[of ?P es] by (simp add: s(2) nth_append)
    ultimately show thesis using bad[OF s(1) _ refl] by blast
  qed
qed

section \<open>The search from below finds the lowest address\<close>

lemma bottom_up_aligned:
  fixes x :: UINT64
  assumes "al < 64" "unat x < 2 ^ 63"
  defines "B \<equiv> (x + (2 ^ al - 1)) AND NOT (2 ^ al - 1)"
  shows "unat x \<le> unat B" "2 ^ al dvd unat B" "unat B \<le> 2 ^ 63" "2 ^ al dvd a \<Longrightarrow> unat x \<le> a \<Longrightarrow> unat B \<le> a"
proof -
  have B: "unat B = (unat x + (2 ^ al - 1)) div 2 ^ al * 2 ^ al" unfolding B_def by (rule align_up[OF assms(1,2)])
  note b = align_up_bounds[where d = "2 ^ al" and b = "unat x", folded B]
  show "unat x \<le> unat B" "2 ^ al dvd a \<Longrightarrow> unat x \<le> a \<Longrightarrow> unat B \<le> a" using b by simp_all
  show "2 ^ al dvd unat B" unfolding B by simp
  show "unat B \<le> 2 ^ 63" by (rule b(3)) (use assms(1,2) le_imp_power_dvd[of al 63 "2::nat"] in auto)
qed

abbreviation search_up where
  "search_up check Len al Top m k \<equiv> AllocateSpace_loop k False check Len (2 ^ al - 1) Top m"

lemma bottom_up_passed:
  fixes Top :: UINT64
  assumes m: "tiles 0 m hi" "hi \<le> 2 ^ 63" and len: "Len \<noteq> 0" "unat Len < 2 ^ 63" and al: "al < 64" and c: "\<And>e. check e = check (what e)"
    and i: "i < length m" "\<And>a. suitable check m al (unat Top) (unat Len) a \<Longrightarrow> unat (BaseAddress (m ! i)) \<le> a" and passed: "\<not> EFI_ERROR (check (m ! i))"
  obtains (found) B bf es af where "\<And>k Base. search_up check Len al Top m (Suc k) (Some i) Base = Some (EFI_SUCCESS, B, bf, es, af)" "suitable check m al (unat Top) (unat Len) (unat B)" "\<And>a. suitable check m al (unat Top) (unat Len) a \<Longrightarrow> unat B \<le> a"
      "CoreSearchGcdMapEntry B Len m = Some (EFI_SUCCESS, bf, es, af)"
  | (none) B where "\<And>k Base. search_up check Len al Top m (Suc k) (Some i) Base = Some (EFI_NOT_FOUND, B, [], [], [])" "\<And>a. \<not> suitable check m al (unat Top) (unat Len) a"
  | (on) B j where "\<And>k Base. search_up check Len al Top m (Suc k) (Some i) Base = search_up check Len al Top m k (Some j) B" "i < j" "j < length m" "\<And>a. suitable check m al (unat Top) (unat Len) a \<Longrightarrow> unat (BaseAddress (m ! j)) \<le> a"
proof -
  define B where "B = (BaseAddress (m ! i) + (2 ^ al - 1)) AND NOT (2 ^ al - 1)"
  have pos: "0 < unat Len" using len by (simp add: unat_gt_0)
  have bi: "unat (BaseAddress (m ! i)) < 2 ^ 63" using tiles_above[OF m(1) nth_mem[OF i(1)]] tiles_nth(2)[OF m(1) i(1)] m(2) by linarith
  note up = bottom_up_aligned[OF al bi, folded B_def]
  have least: "unat B \<le> a" if "suitable check m al (unat Top) (unat Len) a" for a using up(4)[of a] i(2)[OF that] that by (simp add: suitable_def)
  have nowrap: "unat B + unat Len \<le> 2 ^ 64" using up(3) len(2) by simp
  have top: "B + Len - 1 > Top \<longleftrightarrow> unat Top + 1 < unat B + unat Len" using unat_last[OF len(1) nowrap] pos by (auto simp: word_less_nat_alt)
  show thesis
  proof (cases "B + Len - 1 > Top")
    case True
    then have "\<not> suitable check m al (unat Top) (unat Len) a" for a using least[of a] top by (auto simp: suitable_def)
    moreover have "search_up check Len al Top m (Suc k) (Some i) Base = Some (EFI_NOT_FOUND, B, [], [], [])" for k Base using True passed by (simp add: B_def)
    ultimately show thesis using none by blast
  next
    case le: False
    from m(1) len(1) c nowrap show thesis
    proof (cases rule: candidate_tried)
      case outside
      have "\<not> suitable check m al (unat Top) (unat Len) a" for a
      proof
        assume a: "suitable check m al (unat Top) (unat Len) a"
        have "a \<le> a + unat Len - 1 \<and> a + unat Len - 1 < a + unat Len" using pos by simp
        then have "space m (a + unat Len - 1) \<noteq> None" using a unfolding suitable_def by fastforce
        then show False using space_out[OF m(1), of "a + unat Len - 1"] least[OF a] outside(1) pos by auto
      qed
      moreover have "search_up check Len al Top m (Suc k) (Some i) Base = Some (EFI_NOT_FOUND, B, [], [], [])" for k Base
        using le passed outside(2) by (simp add: B_def)
      ultimately show thesis using none by blast
    next
      case (good bf es af)
      have "suitable check m al (unat Top) (unat Len) (unat B)" unfolding suitable_def using good(3) up(2) le top by auto
      moreover have "search_up check Len al Top m (Suc k) (Some i) Base = Some (EFI_SUCCESS, B, bf, es, af)" for k Base
        using le passed good(1,2) by (simp add: B_def)
      ultimately show thesis using found least good(1) by blast
    next
      case (bad bf es af f x)
      have "i \<noteq> f" using bad(5) passed by auto
      moreover have "\<not> f < i" using tiles_order[OF m(1) _ i(1), of f] bad(6,7) up(1) by linarith
      moreover have "unat (BaseAddress (m ! f)) \<le> a" if "suitable check m al (unat Top) (unat Len) a" for a
      proof -
        have "unat (EndAddress (m ! f)) < a"
          by (rule suitable_beyond[OF m(1) bad(4) c bad(5)]) (use that least[OF that] bad(6,7) pos in auto)
        then show ?thesis using bad(7) by linarith
      qed
      moreover have "search_up check Len al Top m (Suc k) (Some i) Base = search_up check Len al Top m k (Some f) B" for k Base
        using le passed bad(1,2,3) by (simp add: B_def Let_def)
      ultimately show thesis using on[where B = B and j = f] bad(4) by simp
    qed
  qed
qed

lemma bottom_up_refused:
  fixes Top :: UINT64 and al :: nat
  assumes m: "tiles 0 m hi" and len: "Len \<noteq> 0" and c: "\<And>e. check e = check (what e)"
  defines "ok \<equiv> suitable check m al (unat Top) (unat Len)"
  assumes i: "i < length m" "\<And>a. ok a \<Longrightarrow> unat (BaseAddress (m ! i)) \<le> a" and refused: "EFI_ERROR (check (m ! i))"
  shows "ok a \<Longrightarrow> Suc i < length m \<and> unat (BaseAddress (m ! Suc i)) \<le> a"
proof -
  assume a: "ok a"
  have pos: "0 < unat Len" using len by (simp add: unat_gt_0)
  have beyond: "unat (EndAddress (m ! i)) < a"
    by (rule suitable_beyond[OF m i(1) c refused, of al "unat Top" "unat Len" a "unat (BaseAddress (m ! i))"])
      (use a i(2)[OF a] pos tiles_nth(2)[OF m i(1)] in \<open>auto simp: ok_def\<close>)
  have "Suc i < length m"
  proof (rule ccontr)
    assume "\<not> Suc i < length m"
    then have "unat (EndAddress (m ! i)) + 1 = hi" using tiles_nth(3)[OF m i(1)] by simp
    then show False using beyond a pos space_out[OF m, of a] by (auto simp: ok_def suitable_def)
  qed
  then show ?thesis using beyond tiles_next[OF m, of i] by simp
qed

lemma bottom_up_search:
  fixes Top :: UINT64
  assumes m: "tiles 0 m hi" "hi \<le> 2 ^ 63" and len: "Len \<noteq> 0" "unat Len < 2 ^ 63" and al: "al < 64" and c: "\<And>e. check e = check (what e)"
  defines "ok \<equiv> suitable check m al (unat Top) (unat Len)" and "loop \<equiv> \<lambda>k. AllocateSpace_loop k False check Len (2 ^ al - 1) Top m"
  assumes L: "case L of None \<Rightarrow> (\<forall>a. \<not> ok a) | Some i \<Rightarrow> i < length m \<and> (\<forall>a. ok a \<longrightarrow> unat (BaseAddress (m ! i)) \<le> a)"
    and k: "case L of None \<Rightarrow> 0 < k | Some i \<Rightarrow> length m - i < k"
  shows "\<exists>st B bf es af. loop k L Base = Some (st, B, bf, es, af)
    \<and> (st = EFI_SUCCESS \<and> ok (unat B) \<and> (\<forall>a. ok a \<longrightarrow> unat B \<le> a) \<and> CoreSearchGcdMapEntry B Len m = Some (EFI_SUCCESS, bf, es, af)
       \<or> st = EFI_NOT_FOUND \<and> (\<forall>a. \<not> ok a))"
  using L k
proof (induction k arbitrary: L Base)
  case (Suc k)
  show ?case
  proof (cases L)
    case None
    then show ?thesis using Suc.prems by (simp add: loop_def)
  next
    case (Some i)
    have i: "i < length m" "\<And>a. ok a \<Longrightarrow> unat (BaseAddress (m ! i)) \<le> a" and k: "length m - i < Suc k" using Suc.prems Some by auto
    show ?thesis
    proof (cases "EFI_ERROR (check (m ! i))")
      case True
      let ?next = "if i + 1 < length m then Some (i + 1) else None"
      have eq: "loop (Suc k) L Base = loop k ?next Base" using Some True by (simp add: loop_def)
      have "case ?next of None \<Rightarrow> (\<forall>a. \<not> ok a) | Some i \<Rightarrow> i < length m \<and> (\<forall>a. ok a \<longrightarrow> unat (BaseAddress (m ! i)) \<le> a)"
        using bottom_up_refused[OF m(1) len(1) c i(1) _ True, of al Top] i(2) by (auto simp: ok_def)
      then show ?thesis unfolding eq by (rule Suc.IH) (use k i(1) in auto)
    next
      case passed: False
      show ?thesis
      proof (rule bottom_up_passed[where check = check and Top = Top and al = al, OF m len al c i(1) _ passed], goal_cases)
        case (1 a)
        then show ?case using i(2) by (simp add: ok_def)
      next
        case (2 B bf es af)
        then show ?thesis unfolding Some loop_def ok_def by blast
      next
        case (3 B)
        then show ?thesis unfolding Some loop_def ok_def by blast
      next
        case (4 B j)
        have eq: "loop (Suc k) L Base = loop k (Some j) B" unfolding Some loop_def by (rule 4(1))
        show ?thesis unfolding eq by (rule Suc.IH) (use 4(2,3,4) k in \<open>auto simp: ok_def\<close>)
      qed
    qed
  qed
qed (auto split: option.splits)

section \<open>The search from above\<close>

abbreviation search_down where
  "search_down check Len al Top m k \<equiv> AllocateSpace_loop k True check Len (2 ^ al - 1) Top m"

lemma top_down_aligned:
  fixes Top :: UINT64
  assumes "al < 64" "unat b \<le> unat e" "unat e < 2 ^ 63" "\<not> b + Len > Top" "\<not> Len > e + 1"
  defines "B \<equiv> ((if e > Top then Top else e) + 1 - Len) AND NOT (2 ^ al - 1)"
  shows "2 ^ al dvd unat B" "unat B + unat Len \<le> unat Top + 1" "unat B + unat Len \<le> unat e + 1"
proof -
  have e1: "unat (e + 1) = unat e + 1" using assms(3) by (simp add: unat_word_ariths)
  then have len: "unat Len \<le> unat e + 1" using assms(5) by (simp add: word_less_nat_alt)
  have "unat (b + Len) = unat b + unat Len" using assms(2,3) len by (simp add: unat_word_ariths)
  then have top: "unat b + unat Len \<le> unat Top" using assms(4) by (simp add: word_less_nat_alt)
  define c where "c = (if e > Top then Top else e) + 1"
  have c: "unat c \<le> unat e + 1" "unat c \<le> unat Top + 1" "unat Len \<le> unat c"
    using e1 assms(3) len top by (auto simp: c_def word_less_nat_alt unat_word_ariths)
  have d: "unat (c - Len) = unat c - unat Len" using c(3) by (simp add: unat_sub word_le_nat_alt)
  have B: "unat B = unat (c - Len) - unat (c - Len) mod 2 ^ al" unfolding B_def c_def[symmetric] by (rule align_down[OF assms(1)])
  show "2 ^ al dvd unat B" unfolding B by (simp add: minus_mod_eq_div_mult)
  show "unat B + unat Len \<le> unat Top + 1" "unat B + unat Len \<le> unat e + 1" using B d c by linarith+
qed

lemma top_down_passed:
  fixes Top :: UINT64
  assumes m: "tiles 0 m hi" "hi \<le> 2 ^ 63" and len: "Len \<noteq> 0" and al: "al < 64" and c: "\<And>e. check e = check (what e)"
    and i: "i < length m" and passed: "\<not> EFI_ERROR (check (m ! i))"
    and fits: "\<not> BaseAddress (m ! i) + Len > Top" "\<not> Len > EndAddress (m ! i) + 1"
  obtains (found) B bf es af where "\<And>k Base. search_down check Len al Top m (Suc k) (Some i) Base = Some (EFI_SUCCESS, B, bf, es, af)"
      "suitable check m al (unat Top) (unat Len) (unat B)" "CoreSearchGcdMapEntry B Len m = Some (EFI_SUCCESS, bf, es, af)"
  | (none) B where "\<And>k Base. search_down check Len al Top m (Suc k) (Some i) Base = Some (EFI_NOT_FOUND, B, [], [], [])"
  | (on) B j where "\<And>k Base. search_down check Len al Top m (Suc k) (Some i) Base = search_down check Len al Top m k (Some j) B" "j < i"
proof -
  let ?e = "EndAddress (m ! i)"
  define B where "B = ((if ?e > Top then Top else ?e) + 1 - Len) AND NOT (2 ^ al - 1)"
  have e: "unat ?e < 2 ^ 63" using tiles_above[OF m(1) nth_mem[OF i]] m(2) by linarith
  note down = top_down_aligned[OF al tiles_nth(2)[OF m(1) i] e fits, folded B_def]
  have nowrap: "unat B + unat Len \<le> 2 ^ 64" using down(3) e by simp
  have base: "((if ?e > Top then Top else ?e) + 1 - Len) AND NOT (2 ^ al - 1) = B" by (simp add: B_def)
  have run: "search_down check Len al Top m (Suc k) (Some i) Base =
    do { (Status, bf, es, af) \<leftarrow> CoreSearchGcdMapEntry B Len m;
         if EFI_ERROR Status then Some (EFI_NOT_FOUND, B, [], [], [])
         else (let ok = passing check es in if length ok = length es then Some (EFI_SUCCESS, B, bf, es, af)
           else search_down check Len al Top m k (Some (length bf + length ok)) B) }" for k Base
    using passed fits by (simp add: Let_def base)
  from m(1) len(1) c nowrap show thesis
  proof (cases rule: candidate_tried)
    case outside
    have "search_down check Len al Top m (Suc k) (Some i) Base = Some (EFI_NOT_FOUND, B, [], [], [])" for k Base unfolding run outside(2) by simp
    then show thesis by (rule none)
  next
    case (good bf es af)
    have "suitable check m al (unat Top) (unat Len) (unat B)" unfolding suitable_def using good(3) down(1,2) by blast
    moreover have "search_down check Len al Top m (Suc k) (Some i) Base = Some (EFI_SUCCESS, B, bf, es, af)" for k Base unfolding run good(1) using good(2) by simp
    ultimately show thesis using found good(1) by blast
  next
    case (bad bf es af f x)
    have "i \<noteq> f" using bad(5) passed by auto
    moreover have "\<not> i < f" using tiles_order[OF m(1) _ bad(4), of i] bad(6,7) down(3) by linarith
    ultimately have "f < i" by simp
    moreover have "search_down check Len al Top m (Suc k) (Some i) Base = search_down check Len al Top m k (Some f) B" for k Base
      unfolding run bad(1) using bad(2,3) by (simp add: Let_def)
    ultimately show thesis using on by blast
  qed
qed

lemma top_down_search:
  fixes Top :: UINT64
  assumes m: "tiles 0 m hi" "hi \<le> 2 ^ 63" and len: "Len \<noteq> 0" and al: "al < 64" and c: "\<And>e. check e = check (what e)"
    and L: "case L of None \<Rightarrow> True | Some i \<Rightarrow> i < length m" and k: "case L of None \<Rightarrow> 0 < k | Some i \<Rightarrow> Suc i < k"
  shows "\<exists>st B bf es af. search_down check Len al Top m k L Base = Some (st, B, bf, es, af)
    \<and> (st = EFI_SUCCESS \<and> suitable check m al (unat Top) (unat Len) (unat B) \<and> CoreSearchGcdMapEntry B Len m = Some (EFI_SUCCESS, bf, es, af)
       \<or> st = EFI_NOT_FOUND)"
  using L k
proof (induction k arbitrary: L Base)
  case (Suc k)
  show ?case
  proof (cases L)
    case (Some i)
    let ?next = "if i = 0 then None else Some (i - 1)"
    have i: "i < length m" "Suc i < Suc k" using Suc.prems Some by auto
    consider (go) "EFI_ERROR (check (m ! i)) \<or> BaseAddress (m ! i) + Len > Top"
      | (short) "\<not> EFI_ERROR (check (m ! i))" "\<not> BaseAddress (m ! i) + Len > Top" "Len > EndAddress (m ! i) + 1"
      | (fits) "\<not> EFI_ERROR (check (m ! i))" "\<not> BaseAddress (m ! i) + Len > Top" "\<not> Len > EndAddress (m ! i) + 1" by blast
    then show ?thesis
    proof cases
      case go
      have eq: "search_down check Len al Top m (Suc k) L Base = search_down check Len al Top m k ?next Base" using Some go by (auto simp: Let_def)
      show ?thesis unfolding eq by (rule Suc.IH) (use i in auto)
    next
      case short
      then show ?thesis using Some by (simp add: Let_def)
    next
      case fits
      show ?thesis
      proof (rule top_down_passed[where check = check and Top = Top and al = al, OF m len al c i(1) fits], goal_cases)
        case (1 B bf es af)
        then show ?thesis unfolding Some by blast
      next
        case (2 B)
        then show ?thesis unfolding Some by blast
      next
        case (3 B j)
        show ?thesis unfolding Some 3(1) by (rule Suc.IH) (use 3(2) i in auto)
      qed
    qed
  qed simp
qed (auto split: option.splits)

section \<open>Allocating\<close>

definition searches_down :: "UINT32 \<Rightarrow> bool" where
  "searches_down AllocateType \<longleftrightarrow> AllocateType = EfiGcdAllocateMaxAddressSearchTopDown \<or> AllocateType = EfiGcdAllocateAnySearchTopDown"

text \<open>
  The addresses that an allocation may be given: a single one for EfiGcdAllocateAddress, and otherwise those that leave the range at or below the
  maximum address.
\<close>

definition allocatable :: "UINTN \<Rightarrow> UINT32 \<Rightarrow> UINT32 \<Rightarrow> UINT32 \<Rightarrow> UINTN \<Rightarrow> UINT64 \<Rightarrow> UINT64 \<Rightarrow> EFI_GCD_MAP_ENTRY list \<Rightarrow> nat \<Rightarrow> bool" where
  "allocatable Operation AllocateType MemoryType IoType Alignment Len Base m a \<longleftrightarrow>
     (AllocateType = EfiGcdAllocateAddress \<longrightarrow> a = unat Base) \<and>
     suitable (CoreAllocateSpaceCheckEntry Operation MemoryType IoType) m (unat Alignment)
       (if AllocateType = EfiGcdAllocateAddress then unat Base + unat Len
        else if AllocateType = EfiGcdAllocateMaxAddressSearchBottomUp \<or> AllocateType = EfiGcdAllocateMaxAddressSearchTopDown then unat Base
        else unat (EndAddress (last m)))
       (unat Len) a"

lemma check_what: "CoreAllocateSpaceCheckEntry Operation MemoryType IoType e = CoreAllocateSpaceCheckEntry Operation MemoryType IoType (what e)"
  by (simp add: CoreAllocateSpaceCheckEntry_def what_def)

lemma verify_passing:
  "ConvertSpace_verify check es = (if length (passing check es) = length es then EFI_SUCCESS else check (es ! length (passing check es)))"
  by (induction es) auto

lemma mask_shift: "Alignment < 64 \<Longrightarrow> LShiftU64 1 Alignment = Some (2 ^ unat Alignment)"
  by (simp add: LShiftU64_def InternalMathLShiftU64_def push_bit_eq_mult)

lemma search_base_outside:
  assumes "tiles lo m hi" "Len \<noteq> 0" "hi \<le> unat Base"
  shows "CoreSearchGcdMapEntry Base Len m = Some (EFI_NOT_FOUND, [], [], [])"
  using search_beyond[OF assms(1), of "Base + Len - 1" None Base "[]"] assms(2,3) by (simp add: CoreSearchGcdMapEntry_def)

lemma allocate_address_search:
  fixes Base :: UINT64 and MemoryType IoType :: UINT32
  assumes m: "tiles 0 m hi" "hi \<le> 2 ^ 63" and len: "Len \<noteq> 0" "unat Len < 2 ^ 63" and al: "Alignment < 64"
    and op: "Operation = GCD_ALLOCATE_MEMORY_OPERATION \<or> Operation = GCD_ALLOCATE_IO_OPERATION"
  defines "ok \<equiv> allocatable Operation EfiGcdAllocateAddress MemoryType IoType Alignment Len Base m"
  shows "\<exists>st bf es af. allocate_search n Operation EfiGcdAllocateAddress MemoryType IoType Alignment Len Base m = Some (st, Base, bf, es, af)
    \<and> (st = EFI_SUCCESS \<and> ok (unat Base) \<and> CoreSearchGcdMapEntry Base Len m = Some (EFI_SUCCESS, bf, es, af) \<or> st = EFI_NOT_FOUND \<and> (\<forall>a. \<not> ok a))"
proof -
  let ?check = "CoreAllocateSpaceCheckEntry Operation MemoryType IoType"
  have pos: "0 < unat Len" using len by (simp add: unat_gt_0)
  have al': "unat Alignment < 64" using al by (simp add: word_less_nat_alt)
  note run = allocate_search_def mask_shift[OF al] Let_def
  have okD: "a = unat Base \<and> 2 ^ unat Alignment dvd unat Base \<and> (\<forall>x. within Base Len x \<longrightarrow> (\<exists>w. space m x = Some w \<and> \<not> EFI_ERROR (?check w)))" if "ok a" for a
    using that by (auto simp: ok_def allocatable_def suitable_def)
  show ?thesis
  proof (cases "Base AND (2 ^ unat Alignment - 1) = 0")
    case False
    then have "\<not> ok a" for a using okD[of a] aligned_iff[OF al', of Base] by blast
    then show ?thesis using False by (simp add: run)
  next
    case aligned: True
    have fails: ?thesis if "CoreSearchGcdMapEntry Base Len m = Some (EFI_NOT_FOUND, [], [], [])" "\<And>a. \<not> ok a"
      using that aligned by (simp add: run)
    show ?thesis
    proof (cases "hi \<le> unat Base")
      case True
      then have "\<not> ok a" for a using okD[of a] space_out[OF m(1), of "unat Base"] pos by fastforce
      then show ?thesis by (rule fails[OF search_base_outside[OF m(1) len(1) True]])
    next
      case False
      then have nowrap: "unat Base + unat Len \<le> 2 ^ 64" using m(2) len(2) by simp
      from m(1) len(1) check_what nowrap show ?thesis
      proof (cases rule: candidate_tried[where check = ?check])
        case outside
        have "within Base Len (unat Base + unat Len - 1)" using pos by simp
        moreover have "space m (unat Base + unat Len - 1) = None" using space_out[OF m(1), of "unat Base + unat Len - 1"] outside(1) pos by simp
        ultimately have "\<not> ok a" for a using okD[of a] by (metis option.distinct(1))
        then show ?thesis by (rule fails[OF outside(2)])
      next
        case (good bf es af)
        have "ok (unat Base)" unfolding ok_def allocatable_def suitable_def using good(3) aligned aligned_iff[OF al', of Base] by auto
        moreover have "allocate_search n Operation EfiGcdAllocateAddress MemoryType IoType Alignment Len Base m = Some (EFI_SUCCESS, Base, bf, es, af)"
          using aligned good(1,2) by (simp add: run verify_passing)
        ultimately show ?thesis using good(1) by blast
      next
        case (bad bf es af f x)
        have i: "?check (m ! f) = EFI_NOT_FOUND" using bad(5) op by (auto simp: CoreAllocateSpaceCheckEntry_def split: if_splits)
        have "\<not> EFI_ERROR (?check (what (m ! f)))" if "ok a" for a using okD[OF that] bad(6) space_nth[OF m(1) bad(4,7)] by auto
        then have "\<not> ok a" for a using bad(5) check_what by metis
        moreover have "allocate_search n Operation EfiGcdAllocateAddress MemoryType IoType Alignment Len Base m = Some (EFI_NOT_FOUND, Base, bf, es, af)"
          using aligned bad(1,2,8) i by (simp add: run verify_passing)
        ultimately show ?thesis by blast
      qed
    qed
  qed
qed

text \<open>
  The search of CoreAllocateSpace: it ends when there is fuel for one step more than the map has entries, and what it finds may be allocated. Except
  when it goes down from the top it finds the lowest such address, and it fails only if there is none.
\<close>

lemma allocate_search_exact:
  fixes Base :: UINT64 and AllocateType MemoryType IoType :: UINT32
  assumes m: "tiles 0 m hi" "0 < hi" "hi \<le> 2 ^ 63" and len: "Len \<noteq> 0" "unat Len < 2 ^ 63" and al: "Alignment < 64" and n: "AllocateType = EfiGcdAllocateAddress \<or> length m < n"
    and op: "Operation = GCD_ALLOCATE_MEMORY_OPERATION \<or> Operation = GCD_ALLOCATE_IO_OPERATION"
  defines "ok \<equiv> allocatable Operation AllocateType MemoryType IoType Alignment Len Base m"
  shows "\<exists>st B bf es af. allocate_search n Operation AllocateType MemoryType IoType Alignment Len Base m = Some (st, B, bf, es, af)
    \<and> (st = EFI_SUCCESS \<and> ok (unat B) \<and> (searches_down AllocateType \<or> (\<forall>a. ok a \<longrightarrow> unat B \<le> a))
         \<and> CoreSearchGcdMapEntry B Len m = Some (EFI_SUCCESS, bf, es, af)
       \<or> st = EFI_NOT_FOUND \<and> (searches_down AllocateType \<or> (\<forall>a. \<not> ok a)))"
proof (cases "AllocateType = EfiGcdAllocateAddress")
  case True
  have "ok a \<Longrightarrow> a = unat Base" for a using True by (simp add: ok_def allocatable_def)
  then have "\<forall>a. ok a \<longrightarrow> unat Base \<le> a" by blast
  then show ?thesis
    using allocate_address_search[OF m(1,3) len al op, where MemoryType = MemoryType and IoType = IoType and Base = Base and n = n]
    unfolding ok_def True by blast
next
  case False
  let ?check = "CoreAllocateSpaceCheckEntry Operation MemoryType IoType"
  let ?Top = "if AllocateType = EfiGcdAllocateMaxAddressSearchBottomUp \<or> AllocateType = EfiGcdAllocateMaxAddressSearchTopDown then Base else EndAddress (last m)"
  have ne: "m \<noteq> []" using m(1,2) by (cases m) auto
  have al': "unat Alignment < 64" using al by (simp add: word_less_nat_alt)
  have ok: "ok = suitable ?check m (unat Alignment) (unat ?Top) (unat Len)" unfolding ok_def using False by (auto simp: allocatable_def fun_eq_iff)
  have run: "allocate_search n Operation AllocateType MemoryType IoType Alignment Len Base m =
    AllocateSpace_loop n (searches_down AllocateType) ?check Len (2 ^ unat Alignment - 1) ?Top m (Some (if searches_down AllocateType then length m - 1 else 0)) Base"
    using False ne by (simp add: allocate_search_def mask_shift[OF al] searches_down_def Let_def)
  show ?thesis
  proof (cases "searches_down AllocateType")
    case True
    have n: "length m < n" using n False by simp
    have L: "case Some (length m - 1) of None \<Rightarrow> True | Some i \<Rightarrow> i < length m" and k: "case Some (length m - 1) of None \<Rightarrow> 0 < n | Some i \<Rightarrow> Suc i < n"
      using ne n by auto
    show ?thesis using top_down_search[where check = ?check and Top = ?Top and Base = Base, OF m(1,3) len(1) al' check_what L k] True unfolding run ok by auto
  next
    case up: False
    have n: "length m < n" using n False by simp
    have b: "unat (BaseAddress (m ! 0)) = 0" using m(1) ne by (cases m) auto
    have L: "case Some 0 of None \<Rightarrow> (\<forall>a. \<not> ok a) | Some i \<Rightarrow> i < length m \<and> (\<forall>a. ok a \<longrightarrow> unat (BaseAddress (m ! i)) \<le> a)"
      and k: "case Some 0 of None \<Rightarrow> 0 < n | Some i \<Rightarrow> length m - i < n" using ne n b by auto
    show ?thesis using bottom_up_search[where check = ?check and Top = ?Top and Base = Base, OF m(1,3) len al' check_what L[unfolded ok] k] up unfolding run ok by auto
  qed
qed

definition taken :: "UINT64 \<Rightarrow> UINT64 \<Rightarrow> EFI_GCD_MAP_ENTRY \<Rightarrow> EFI_GCD_MAP_ENTRY" where
  "taken ImageHandle DeviceHandle w = w\<lparr>GcdImageHandle := ImageHandle, GcdDeviceHandle := DeviceHandle\<rparr>"

lemma suitable_inside:
  assumes "tiles 0 m hi" "suitable check m al Top len a" "0 < len"
  shows "a + len \<le> hi"
proof (rule ccontr)
  assume "\<not> a + len \<le> hi"
  then have "space m (a + len - 1) = None" using space_out[OF assms(1), of "a + len - 1"] by simp
  moreover have "a \<le> a + len - 1 \<and> a + len - 1 < a + len" using assms(3) by simp
  ultimately show False using assms(2) unfolding suitable_def by fastforce
qed

lemma allocate_map_exact:
  fixes Base :: UINT64 and AllocateType MemoryType IoType :: UINT32
  assumes m: "tiles 0 m hi" "0 < hi" "hi \<le> 2 ^ 63" and len: "Len \<noteq> 0" "unat Len < 2 ^ 63" and al: "Alignment < 64" and n: "AllocateType = EfiGcdAllocateAddress \<or> length m < n"
    and op: "Operation = GCD_ALLOCATE_MEMORY_OPERATION \<or> Operation = GCD_ALLOCATE_IO_OPERATION"
  defines "ok \<equiv> allocatable Operation AllocateType MemoryType IoType Alignment Len Base m"
  obtains (found) B m' where "allocate_map n Pool Operation AllocateType MemoryType IoType Alignment Len Base ImageHandle DeviceHandle m = Some (EFI_SUCCESS, B, m')"
      "Pool" "ok (unat B)" "searches_down AllocateType \<or> (\<forall>a. ok a \<longrightarrow> unat B \<le> a)" "tiles 0 m' hi" "merged m \<Longrightarrow> merged m'"
      "\<And>x. space m' x = (if within B Len x then map_option (taken ImageHandle DeviceHandle) (space m x) else space m x)"
  | (failed) st B where "allocate_map n Pool Operation AllocateType MemoryType IoType Alignment Len Base ImageHandle DeviceHandle m = Some (st, B, m)"
      "st = EFI_NOT_FOUND \<and> (searches_down AllocateType \<or> (\<forall>a. \<not> ok a)) \<or> st = EFI_OUT_OF_RESOURCES \<and> \<not> Pool \<and> (\<exists>a. ok a)"
proof -
  obtain st B bf es af where s: "allocate_search n Operation AllocateType MemoryType IoType Alignment Len Base m = Some (st, B, bf, es, af)"
    "st = EFI_SUCCESS \<and> ok (unat B) \<and> (searches_down AllocateType \<or> (\<forall>a. ok a \<longrightarrow> unat B \<le> a))
       \<and> CoreSearchGcdMapEntry B Len m = Some (EFI_SUCCESS, bf, es, af)
     \<or> st = EFI_NOT_FOUND \<and> (searches_down AllocateType \<or> (\<forall>a. \<not> ok a))"
    using allocate_search_exact[OF m len al n op, of MemoryType IoType Base] unfolding ok_def by blast
  consider (no) "st = EFI_NOT_FOUND" "searches_down AllocateType \<or> (\<forall>a. \<not> ok a)" | (pool) "st = EFI_SUCCESS" "ok (unat B)" "\<not> Pool"
    | (yes) "st = EFI_SUCCESS" "ok (unat B)" "Pool" "searches_down AllocateType \<or> (\<forall>a. ok a \<longrightarrow> unat B \<le> a)"
        "CoreSearchGcdMapEntry B Len m = Some (EFI_SUCCESS, bf, es, af)" using s(2) by blast
  then show thesis
  proof cases
    case no
    have "allocate_map n Pool Operation AllocateType MemoryType IoType Alignment Len Base ImageHandle DeviceHandle m = Some (EFI_NOT_FOUND, B, m)"
      using no(1) s(1) by (simp add: allocate_map_def)
    then show thesis using failed no(2) by blast
  next
    case pool
    have "allocate_map n Pool Operation AllocateType MemoryType IoType Alignment Len Base ImageHandle DeviceHandle m = Some (EFI_OUT_OF_RESOURCES, B, m)"
      using pool(1,3) s(1) by (simp add: allocate_map_def)
    then show thesis using failed pool(2,3) by blast
  next
    case yes
    have pos: "0 < unat Len" using len by (simp add: unat_gt_0)
    obtain Top where "suitable (CoreAllocateSpaceCheckEntry Operation MemoryType IoType) m (unat Alignment) Top (unat Len) (unat B)"
      using yes(2) by (auto simp: ok_def allocatable_def)
    then have inside: "unat B + unat Len \<le> hi" by (rule suitable_inside[OF m(1) _ pos])
    obtain bf2 es2 af2 where "CoreSearchGcdMapEntry B Len m = Some (EFI_SUCCESS, bf2, es2, af2)" "m = bf2 @ es2 @ af2" "range_of_map 0 hi B Len bf2 es2 af2"
      by (rule range_searched[OF m(1) _ inside len(1)]) simp_all
    then have r: "m = bf @ es @ af" "range_of_map 0 hi B Len bf es af" using yes(5) by simp_all
    let ?f = "taken ImageHandle DeviceHandle" and ?conv = "\<lambda>a e. (a, taken ImageHandle DeviceHandle e)"
    have nowrap: "unat B + unat Len \<le> 2 ^ 64" using inside m(3) by simp
    have conv: "BaseAddress (?f e) = BaseAddress e \<and> EndAddress (?f e) = EndAddress e" "what (?f e) = what (?f (what e))" for e
      by (simp_all add: taken_def what_def)
    obtain bf' es' af' m' where c: "ConvertGcdMap_loop ?conv B Len fresh_entries () bf [] es af = Some (bf', es', af')"
      "CoreCleanupGcdMapEntry bf' es' af' = (EFI_SUCCESS, m')" "tiles 0 m' hi" "merged m \<longrightarrow> merged m'"
      "\<forall>x. space m' x = (if within B Len x then map_option (\<lambda>w. what (?f w)) (space m x) else space m x)"
      using range_converted_by[where f = ?f and sp = fresh_entries and a = "()", OF r(2) len(1) nowrap conv, folded r(1)] by auto
    have new: "space m' x = (if within B Len x then map_option ?f (space m x) else space m x)" for x
    proof (cases "space m x")
      case (Some w)
      have "what (?f w) = ?f w" using space_what[OF Some] by (cases w) (simp add: taken_def what_def)
      then show ?thesis using c(5) Some by simp
    qed (use c(5) in simp)
    have "allocate_map n Pool Operation AllocateType MemoryType IoType Alignment Len Base ImageHandle DeviceHandle m = Some (EFI_SUCCESS, B, m')"
      using yes(1,3) s(1) c(1,2) by (simp add: allocate_map_def taken_def)
    then show thesis by (rule found[OF _ yes(3,2,4) c(3) _ new]) (use c(4) in blast)
  qed
qed

end
