(* ===== verification/Dxe_GcdOps.thy ===== *)
theory Dxe_GcdOps
  imports Gcd_Search
begin

text \<open>
  The services of the global coherency domain as operations on maps from addresses: what a conversion and an allocation do to every address, with the
  lock of the map taken and released around them.
\<close>

unbundle bit_operations_syntax

section \<open>Sections under the lock of a map\<close>

text \<open>
  The state in which a service is called: nothing pending, the locks of the maps free and the task priority low enough to take them.
\<close>

definition gcd_ready :: "'v CORE \<Rightarrow> bool" where
  "gcd_ready s \<longleftrightarrow> calm s \<and> gEfiCurrentTpl s \<le> TPL_NOTIFY \<and> Lock (locks s mGcdMemorySpaceLock) = EfiLockReleased
     \<and> Lock (locks s mGcdIoSpaceLock) = EfiLockReleased"

lemma gcd_ready_cong:
  assumes "gcd_ready s" "gEventPending t = gEventPending s" "gEfiCurrentTpl t = gEfiCurrentTpl s" "locks_kept s t"
  shows "gcd_ready t"
  using assms by (simp add: gcd_ready_def calm_def lock_levels_def locks_kept_def nothing_pending_above_def)

text \<open>What the services rely on of a map: its own lock, and its place in the state.\<close>

locale gcd_space =
  fixes l :: lock_name and at :: "'v GCD_STATE \<Rightarrow> EFI_GCD_MAP_ENTRY list" and put :: "EFI_GCD_MAP_ENTRY list \<Rightarrow> 'v GCD_STATE \<Rightarrow> 'v GCD_STATE"
  assumes level: "lock_levels (s :: 'v CORE) \<Longrightarrow> Tpl (locks s l) = TPL_NOTIFY"
    and free: "gcd_ready (s :: 'v CORE) \<Longrightarrow> Lock (locks s l) = EfiLockReleased"
    and at_put: "at (put m w) = m"
    and put_at: "put (at w) w = w"
begin

lemma acquire: "gcd_ready (s :: 'v CORE) \<Longrightarrow> CoreAcquireLock l s = Some (acquired l s)"
  using level[of s] free[of s] by (simp add: CoreAcquireLock_eq gcd_ready_def calm_def)

lemma release:
  assumes s: "gcd_ready (s :: 'v CORE)" and n: "2 \<le> n"
  obtains t where "CoreReleaseLock n notify l ((acquired l s)\<lparr>world := w\<rparr>) = Some t" "view t = view (s\<lparr>world := w\<rparr>)" "gcd_ready t"
proof -
  let ?u = "(acquired l s)\<lparr>world := w\<rparr>"
  have lv: "Tpl (locks s l) = TPL_NOTIFY" using level[of s] s by (simp add: gcd_ready_def calm_def)
  have sec: "CoreReleaseLock n notify l ?u = Some (released l ?u)" "view (released l ?u) = view (?u\<lparr>gEfiCurrentTpl := gEfiCurrentTpl s\<rparr>)"
    "locks_kept s (released l ?u)"
    using calm_section(1-3)[of s l ?u] s n lv free[OF s] by (simp_all add: gcd_ready_def calm_def)
  have v: "view (released l ?u) = view (s\<lparr>world := w\<rparr>)" unfolding sec(2) by (simp add: view_def other_fields_def acquired_platform)
  have "gcd_ready (released l ?u)" by (rule gcd_ready_cong[OF s _ _ sec(3)]) (use view_eqD(1,3)[OF v] in simp_all)
  then show thesis using that sec(1) v by blast
qed

text \<open>A section that works out a result and a new map.\<close>

lemma section_runs:
  assumes s: "gcd_ready (s :: 'v CORE)" and n: "2 \<le> n" and F: "F (acquired l s) = Some (r, m)"
  obtains t where "do { s \<leftarrow> CoreAcquireLock l s; (r, m) \<leftarrow> F s; s \<leftarrow> CoreReleaseLock n notify l (s\<lparr>world := put m (world s)\<rparr>); Some (r, s) } = Some (r, t)"
    "view t = view (s\<lparr>world := put m (world s)\<rparr>)" "at (world t) = m" "gcd_ready t"
proof -
  obtain t where t: "CoreReleaseLock n notify l ((acquired l s)\<lparr>world := put m (world s)\<rparr>) = Some t"
    "view t = view (s\<lparr>world := put m (world s)\<rparr>)" "gcd_ready t" using release[OF s n] .
  show thesis by (rule that[of t]) (use acquire[OF s] F t view_eqD(5)[OF t(2)] at_put in simp_all)
qed

end

interpretation memory: gcd_space mGcdMemorySpaceLock mGcdMemorySpaceMap "\<lambda>m w. w\<lparr>mGcdMemorySpaceMap := m\<rparr>"
  by unfold_locales (simp_all add: lock_levels_def gcd_ready_def)

interpretation io: gcd_space mGcdIoSpaceLock mGcdIoSpaceMap "\<lambda>m w. w\<lparr>mGcdIoSpaceMap := m\<rparr>"
  by unfold_locales (simp_all add: lock_levels_def gcd_ready_def)

text \<open>The operations, by the map that they work on.\<close>

definition memory_operation :: "UINTN \<Rightarrow> bool" where
  "memory_operation Operation \<longleftrightarrow> Operation AND GCD_MEMORY_SPACE_OPERATION \<noteq> 0 \<and> Operation AND GCD_IO_SPACE_OPERATION = 0"

definition io_operation :: "UINTN \<Rightarrow> bool" where
  "io_operation Operation \<longleftrightarrow> Operation AND GCD_MEMORY_SPACE_OPERATION = 0 \<and> Operation AND GCD_IO_SPACE_OPERATION \<noteq> 0"

lemma locked_section:
  assumes s: "gcd_ready s" and n: "2 \<le> n" and op: "memory_operation Operation \<or> io_operation Operation"
    and F: "F (gCpu s) (gcd_map Operation s) = Some (r, m)"
  obtains t where "do { s \<leftarrow> gcd_lock Operation s; (r, m) \<leftarrow> F (gCpu s) (gcd_map Operation s);
      s \<leftarrow> gcd_unlock n notify Operation (put_gcd_map Operation m s); Some (r, s) } = Some (r, t)"
    "view t = view (put_gcd_map Operation m s)" "gcd_map Operation t = m" "gcd_ready t"
proof (cases "memory_operation Operation")
  case True
  note defs = gcd_lock_def gcd_unlock_def put_gcd_map_def gcd_map_def CoreAcquireGcdMemoryLock_def CoreReleaseGcdMemoryLock_def
  have F': "F (gCpu (acquired mGcdMemorySpaceLock s)) (gcd_map Operation (acquired mGcdMemorySpaceLock s)) = Some (r, m)"
    using F by (auto simp: acquired_platform gcd_map_def)
  show thesis by (rule memory.section_runs[where F = "\<lambda>s. F (gCpu s) (gcd_map Operation s)" and notify = notify, OF s n F'], rule that) (use True in \<open>simp_all add: memory_operation_def defs\<close>)
next
  case False
  then have io: "io_operation Operation" using op by simp
  note defs = gcd_lock_def gcd_unlock_def put_gcd_map_def gcd_map_def CoreAcquireGcdIoLock_def CoreReleaseGcdIoLock_def
  have F': "F (gCpu (acquired mGcdIoSpaceLock s)) (gcd_map Operation (acquired mGcdIoSpaceLock s)) = Some (r, m)"
    using F by (auto simp: acquired_platform gcd_map_def)
  show thesis by (rule io.section_runs[where F = "\<lambda>s. F (gCpu s) (gcd_map Operation s)" and notify = notify, OF s n F'], rule that) (use io in \<open>simp_all add: io_operation_def defs\<close>)
qed

section \<open>Conversion by address\<close>

text \<open>
  What the services promise, by address and not by entry. The status of a check over a range is that of the lowest address whose entry is refused.
\<close>

definition refusal :: "(EFI_GCD_MAP_ENTRY \<Rightarrow> EFI_STATUS) \<Rightarrow> (nat \<Rightarrow> EFI_GCD_MAP_ENTRY option) \<Rightarrow> nat \<Rightarrow> nat \<Rightarrow> EFI_STATUS" where
  "refusal check sp b c =
     (case find (\<lambda>x. EFI_ERROR (check (the (sp x)))) [b..<c] of None \<Rightarrow> EFI_SUCCESS | Some x \<Rightarrow> check (the (sp x)))"

definition convert_status ::
  "bool \<Rightarrow> cpu_answer \<Rightarrow> bool \<Rightarrow> UINTN \<Rightarrow> UINT64 \<Rightarrow> UINT64 \<Rightarrow> UINT64 \<Rightarrow> UINT64 \<Rightarrow> nat \<Rightarrow> (nat \<Rightarrow> EFI_GCD_MAP_ENTRY option) \<Rightarrow> EFI_STATUS" where
  "convert_status Pool Cpu CpuThere Operation Base Len Caps Attr hi sp =
     (let refused = refusal (convert_check Operation Base Len Caps Attr) sp (unat Base) (unat Base + unat Len);
          CpuArchAttributes = (if Operation = GCD_SET_ATTRIBUTES_MEMORY_OPERATION then ConverToCpuArchAttributes Attr else 0)
      in if Len = 0 then EFI_INVALID_PARAMETER
         else if hi < unat Base + unat Len then EFI_UNSUPPORTED
         else if EFI_ERROR refused then refused
         else if \<not> Pool then EFI_OUT_OF_RESOURCES
         else if CpuArchAttributes = 0 then EFI_SUCCESS
         else if \<not> CpuThere then EFI_NOT_AVAILABLE_YET
         else if EFI_ERROR (Cpu Base Len CpuArchAttributes) then Cpu Base Len CpuArchAttributes
         else EFI_SUCCESS)"

definition convert_what :: "UINTN \<Rightarrow> UINT32 \<Rightarrow> UINT32 \<Rightarrow> UINT64 \<Rightarrow> UINT64 \<Rightarrow> EFI_GCD_MAP_ENTRY \<Rightarrow> EFI_GCD_MAP_ENTRY" where
  "convert_what Operation MemoryType IoType Caps Attr w =
     what (snd (convert_entry Operation MemoryType IoType Caps (ConverToCpuArchAttributes Attr) Attr w))"

lemma refusal_split:
  assumes "b \<le> k" "k \<le> c"
  shows "refusal check sp b c = (if EFI_ERROR (refusal check sp b k) then refusal check sp b k else refusal check sp k c)"
proof -
  let ?P = "\<lambda>x. EFI_ERROR (check (the (sp x)))"
  have "[b..<c] = [b..<k] @ [k..<c]" using assms upt_add_eq_append[of b k "c - k"] by simp
  then have "find ?P [b..<c] = (case find ?P [b..<k] of None \<Rightarrow> find ?P [k..<c] | Some x \<Rightarrow> Some x)" by (simp add: find_append)
  moreover have "?P x" if "find ?P [b..<k] = Some x" for x using find_SomeD[OF that] by blast
  ultimately show ?thesis unfolding refusal_def by (cases "find ?P [b..<k]") simp_all
qed

lemma refusal_const:
  assumes "b < c" "\<And>x. b \<le> x \<Longrightarrow> x < c \<Longrightarrow> check (the (sp x)) = st"
  shows "refusal check sp b c = (if EFI_ERROR st then st else EFI_SUCCESS)"
proof (cases "EFI_ERROR st")
  case True
  then have "find (\<lambda>x. EFI_ERROR (check (the (sp x)))) [b..<c] = Some b" using assms by (simp add: upt_conv_Cons)
  then show ?thesis using True assms by (simp add: refusal_def)
next
  case False
  then have "find (\<lambda>x. EFI_ERROR (check (the (sp x)))) [b..<c] = None" using assms(2) by (auto simp: find_None_iff)
  then show ?thesis using False by (simp add: refusal_def)
qed

lemma refusal_cong: "(\<And>x. b \<le> x \<Longrightarrow> x < c \<Longrightarrow> sp x = sp' x) \<Longrightarrow> refusal check sp b c = refusal check sp' b c"
proof -
  assume a: "\<And>x. b \<le> x \<Longrightarrow> x < c \<Longrightarrow> sp x = sp' x"
  have "find (\<lambda>x. EFI_ERROR (check (the (sp x)))) [b..<c] = find (\<lambda>x. EFI_ERROR (check (the (sp' x)))) [b..<c]"
    by (rule find_cong) (use a in auto)
  moreover have "sp x = sp' x" if "find P [b..<c] = Some x" for P x using find_SomeD[OF that] a by simp
  ultimately show ?thesis unfolding refusal_def by (simp split: option.split)
qed

lemma verify_refusal:
  assumes "tiles j es k" "es \<noteq> []" "holds_address b (hd es)" "holds_address (c - 1) (last es)" "b < c" "\<And>e. check e = check (what e)"
  shows "ConvertSpace_verify check es = refusal check (space es) b c"
  using assms(1-5)
proof (induction j es k arbitrary: b rule: tiles.induct)
  case (2 j d l k)
  have d: "j \<le> unat (EndAddress d)" "tiles (unat (EndAddress d) + 1) l k" "j \<le> b" "b \<le> unat (EndAddress d)" using 2(2,4) by auto
  have sd: "check (the (space (d # l) x)) = check d" if "b \<le> x" "x \<le> unat (EndAddress d)" for x
    using space_Cons[OF 2(2), of x] that d(3) assms(6)[of d] by simp
  show ?case
  proof (cases "l = []")
    case True
    then have "c - 1 \<le> unat (EndAddress d)" using 2(5) by simp
    then have "refusal check (space (d # l)) b c = (if EFI_ERROR (check d) then check d else EFI_SUCCESS)"
      using sd 2(6) by (intro refusal_const) auto
    then show ?thesis using True by simp
  next
    case False
    let ?k = "unat (EndAddress d) + 1"
    have h: "holds_address ?k (hd l)" "holds_address (c - 1) (last l)" using d(2) False 2(5) by (cases l; auto)+
    have kc: "?k < c" using tiles_last_base[OF 2(2) False] h(2) by linarith
    have "refusal check (space (d # l)) b ?k = (if EFI_ERROR (check d) then check d else EFI_SUCCESS)"
      using sd d(4) by (intro refusal_const) auto
    moreover have "refusal check (space (d # l)) ?k c = refusal check (space l) ?k c"
      by (rule refusal_cong) (use space_Cons[OF 2(2)] d(1) in auto)
    moreover have "ConvertSpace_verify check l = refusal check (space l) ?k c" by (rule 2(1)[OF d(2) False h kc])
    ultimately show ?thesis using refusal_split[of b ?k c check "space (d # l)"] d(4) kc by (simp add: EFI_ERROR_def)
  qed
qed simp

lemma convert_check_what: "convert_check Operation Base Len Caps Attr e = convert_check Operation Base Len Caps Attr (what e)"
  by (simp add: convert_check_def what_def)

lemma convert_entry_addresses:
  "BaseAddress (snd (convert_entry Operation MemoryType IoType Caps Cpu Attr e)) = BaseAddress e
   \<and> EndAddress (snd (convert_entry Operation MemoryType IoType Caps Cpu Attr e)) = EndAddress e"
  by (simp add: convert_entry_def Let_def)

lemma convert_entry_what:
  "what (snd (convert_entry Operation MemoryType IoType Caps Cpu Attr e)) = what (snd (convert_entry Operation MemoryType IoType Caps Cpu Attr (what e)))"
  by (cases e) (simp add: convert_entry_def what_def Let_def)

text \<open>Except for attributes that leave the CPU's alone, the conversion carries nothing from entry to entry.\<close>

abbreviation cpu_attributes :: "UINTN \<Rightarrow> UINT64 \<Rightarrow> UINT64" where
  "cpu_attributes Operation Attr \<equiv> if Operation = GCD_SET_ATTRIBUTES_MEMORY_OPERATION then ConverToCpuArchAttributes Attr else 0"

lemma convert_entry_stateless:
  assumes "Operation = GCD_SET_ATTRIBUTES_MEMORY_OPERATION \<longrightarrow> ConverToCpuArchAttributes Attr \<noteq> 0"
  shows "convert_entry Operation MemoryType IoType Caps (cpu_attributes Operation Attr) Attr e =
    (Attr, snd (convert_entry Operation MemoryType IoType Caps (ConverToCpuArchAttributes Attr) Attr e))"
  using assms by (simp add: convert_entry_def)

text \<open>\<open>convert_map\<close> as a function of the addresses.\<close>

lemma convert_map_spaces:
  assumes m: "tiles 0 m hi" and len: "Len \<noteq> 0" and nowrap: "unat Base + unat Len \<le> 2 ^ 64"
    and st: "convert_status Pool Cpu CpuThere Operation Base Len Caps Attr hi (space m) = st"
  obtains m' where "convert_map Pool Cpu CpuThere Operation MemoryType IoType Base Len Caps Attr m = Some (st, m')"
    "tiles 0 m' hi" "merged m \<Longrightarrow> merged m'" "st \<noteq> EFI_SUCCESS \<Longrightarrow> m' = m" "\<And>x. \<not> within Base Len x \<Longrightarrow> space m' x = space m x"
    "\<And>x. st = EFI_SUCCESS \<Longrightarrow> Operation = GCD_SET_ATTRIBUTES_MEMORY_OPERATION \<longrightarrow> ConverToCpuArchAttributes Attr \<noteq> 0 \<Longrightarrow> within Base Len x
       \<Longrightarrow> space m' x = map_option (convert_what Operation MemoryType IoType Caps Attr) (space m x)"
proof (cases "hi < unat Base + unat Len")
  case True
  then have "convert_map Pool Cpu CpuThere Operation MemoryType IoType Base Len Caps Attr m = Some (st, m)" "st = EFI_UNSUPPORTED"
    using search_outside[OF m len nowrap] st len by (simp_all add: convert_map_def convert_status_def Let_def)
  then show thesis using that[of m] m by simp
next
  case False
  then obtain bf es af where s: "CoreSearchGcdMapEntry Base Len m = Some (EFI_SUCCESS, bf, es, af)" "m = bf @ es @ af" and r: "range_of_map 0 hi Base Len bf es af"
    using range_searched[OF m, of Base Len] len by auto
  let ?check = "convert_check Operation Base Len Caps Attr"
  let ?ref = "refusal ?check (space m) (unat Base) (unat Base + unat Len)"
  have v: "ConvertSpace_verify ?check es = ?ref"
  proof -
    obtain j k where "tiles j es k" using r by (auto simp: range_of_map_def)
    then have "ConvertSpace_verify ?check es = refusal ?check (space es) (unat Base) (unat Base + unat Len)"
      by (rule verify_refusal) (use r len convert_check_what in \<open>auto simp: range_of_map_def unat_gt_0\<close>)
    also have "\<dots> = ?ref" unfolding s(2) by (rule refusal_cong[symmetric], rule range_space[OF r]) simp
    finally show ?thesis .
  qed
  let ?conv = "convert_entry Operation MemoryType IoType Caps (cpu_attributes Operation Attr)"
  let ?f = "\<lambda>e. snd (convert_entry Operation MemoryType IoType Caps (ConverToCpuArchAttributes Attr) Attr e)"
  obtain bf' es' af' m' where c: "ConvertGcdMap_loop ?conv Base Len fresh_entries Attr bf [] es af = Some (bf', es', af')"
    "CoreCleanupGcdMapEntry bf' es' af' = (EFI_SUCCESS, m')" "tiles 0 m' hi" "merged m \<Longrightarrow> merged m'" "\<And>x. \<not> within Base Len x \<Longrightarrow> space m' x = space m x"
    "\<And>x. (\<And>e. ?conv Attr e = (Attr, ?f e)) \<Longrightarrow> (\<And>e. what (?f e) = what (?f (what e))) \<Longrightarrow> within Base Len x
       \<Longrightarrow> space m' x = map_option (\<lambda>w. what (?f w)) (space m x)"
    using range_converted[where f = ?f, OF r len nowrap, of ?conv fresh_entries Attr] convert_entry_addresses s(2) by (simp, blast)
  have run: "convert_map Pool Cpu CpuThere Operation MemoryType IoType Base Len Caps Attr m = Some (st, if st = EFI_SUCCESS then m' else m)"
    unfolding st[symmetric] convert_map_def convert_status_def using False len by (auto simp add: s(1) v c(1,2) Let_def EFI_ERROR_def split: if_splits)
  show thesis
  proof (rule that[OF run])
    show "tiles 0 (if st = EFI_SUCCESS then m' else m) hi" using c(3) m by simp
    show "merged m \<Longrightarrow> merged (if st = EFI_SUCCESS then m' else m)" using c(4) by simp
    show "\<And>x. \<not> within Base Len x \<Longrightarrow> space (if st = EFI_SUCCESS then m' else m) x = space m x" using c(5) by simp
    fix x assume a: "st = EFI_SUCCESS" "Operation = GCD_SET_ATTRIBUTES_MEMORY_OPERATION \<longrightarrow> ConverToCpuArchAttributes Attr \<noteq> 0" "within Base Len x"
    show "space (if st = EFI_SUCCESS then m' else m) x = map_option (convert_what Operation MemoryType IoType Caps Attr) (space m x)"
      using c(6)[OF convert_entry_stateless[OF a(2)] convert_entry_what a(3)] a(1) by (simp add: convert_what_def[abs_def])
  qed simp
qed

lemma convert_space_runs:
  assumes s: "gcd_ready s" and n: "2 \<le> n" and op: "memory_operation Operation \<or> io_operation Operation"
    and m: "tiles 0 (gcd_map Operation s) hi" and nowrap: "unat Base + unat Len \<le> 2 ^ 64"
    and st: "convert_status Pool Cpu (gCpu s) Operation Base Len Caps Attr hi (space (gcd_map Operation s)) = st"
  obtains t where "CoreConvertSpace n notify Pool Cpu Operation MemoryType IoType Base Len Caps Attr s = Some (st, t)"
    "tiles 0 (gcd_map Operation t) hi" "merged (gcd_map Operation s) \<Longrightarrow> merged (gcd_map Operation t)" "st \<noteq> EFI_SUCCESS \<Longrightarrow> gcd_map Operation t = gcd_map Operation s"
    "\<And>x. \<not> within Base Len x \<Longrightarrow> space (gcd_map Operation t) x = space (gcd_map Operation s) x"
    "\<And>x. st = EFI_SUCCESS \<Longrightarrow> Operation = GCD_SET_ATTRIBUTES_MEMORY_OPERATION \<longrightarrow> ConverToCpuArchAttributes Attr \<noteq> 0 \<Longrightarrow> within Base Len x
       \<Longrightarrow> space (gcd_map Operation t) x = map_option (convert_what Operation MemoryType IoType Caps Attr) (space (gcd_map Operation s) x)"
    "view t = view (put_gcd_map Operation (gcd_map Operation t) s)" "gcd_ready t"
proof (cases "Len = 0")
  case True
  have "CoreConvertSpace n notify Pool Cpu Operation MemoryType IoType Base Len Caps Attr s = Some (st, s)" "st = EFI_INVALID_PARAMETER"
    using True st by (simp_all add: CoreConvertSpace_def convert_status_def)
  moreover have "put_gcd_map Operation (gcd_map Operation s) s = s" by (simp add: put_gcd_map_def gcd_map_def)
  ultimately show thesis using that[of s] m s by simp
next
  case False
  show thesis
  proof (rule convert_map_spaces[OF m False nowrap st, of MemoryType IoType])
    fix m'
    assume c: "convert_map Pool Cpu (gCpu s) Operation MemoryType IoType Base Len Caps Attr (gcd_map Operation s) = Some (st, m')" "tiles 0 m' hi"
      and r: "merged (gcd_map Operation s) \<Longrightarrow> merged m'" "st \<noteq> EFI_SUCCESS \<Longrightarrow> m' = gcd_map Operation s"
      "\<And>x. \<not> within Base Len x \<Longrightarrow> space m' x = space (gcd_map Operation s) x"
      "\<And>x. st = EFI_SUCCESS \<Longrightarrow> Operation = GCD_SET_ATTRIBUTES_MEMORY_OPERATION \<longrightarrow> ConverToCpuArchAttributes Attr \<noteq> 0 \<Longrightarrow> within Base Len x
         \<Longrightarrow> space m' x = map_option (convert_what Operation MemoryType IoType Caps Attr) (space (gcd_map Operation s) x)"
    obtain t where t: "CoreConvertSpace n notify Pool Cpu Operation MemoryType IoType Base Len Caps Attr s = Some (st, t)"
      "view t = view (put_gcd_map Operation m' s)" "gcd_map Operation t = m'" "gcd_ready t"
      using False by (auto simp: CoreConvertSpace_def intro: locked_section[where F = "\<lambda>cpu m. convert_map Pool Cpu cpu Operation MemoryType IoType Base Len Caps Attr m" and notify = notify, OF s n op c(1)])
    show thesis by (rule that[OF t(1)]) (use t c(2) r in auto)
  qed
qed

text \<open>
  (C3) The services that change a map, in a state where the map tiles the addresses below \<open>hi\<close> and no notification is pending: CoreConvertSpace
  returns, with the status that the request has by address (an empty range, a range that leaves the map, the lowest address that is refused, no memory
  for the work entries, the CPU protocol missing or failing). On success every address of the range has been converted, on failure none; no other
  address and nothing else of the state has changed, and the map tiles the same addresses with no two neighbours that could be merged. The range must
  not wrap around 2^64, and attributes that set nothing of the CPU are excluded.
\<close>

theorem convert_space_exact:
  assumes s: "gcd_ready s" and n: "2 \<le> n" and op: "memory_operation Operation \<or> io_operation Operation"
    and m: "tiles 0 (gcd_map Operation s) hi" "merged (gcd_map Operation s)" and nowrap: "unat Base + unat Len \<le> 2 ^ 64"
    and cpu: "Operation = GCD_SET_ATTRIBUTES_MEMORY_OPERATION \<longrightarrow> ConverToCpuArchAttributes Attr \<noteq> 0"
  shows "\<exists>st t. CoreConvertSpace n notify Pool Cpu Operation MemoryType IoType Base Len Caps Attr s = Some (st, t)
    \<and> st = convert_status Pool Cpu (gCpu s) Operation Base Len Caps Attr hi (space (gcd_map Operation s))
    \<and> (\<forall>x. space (gcd_map Operation t) x = (if st = EFI_SUCCESS \<and> within Base Len x
          then map_option (convert_what Operation MemoryType IoType Caps Attr) (space (gcd_map Operation s) x) else space (gcd_map Operation s) x))
    \<and> tiles 0 (gcd_map Operation t) hi \<and> merged (gcd_map Operation t) \<and> view t = view (put_gcd_map Operation (gcd_map Operation t) s) \<and> gcd_ready t"
proof (rule convert_space_runs[where Pool = Pool and Cpu = Cpu and Caps = Caps and Attr = Attr and notify = notify and MemoryType = MemoryType and IoType = IoType,
      OF s n op m(1) nowrap refl], goal_cases)
  case (1 t)
  let ?st = "convert_status Pool Cpu (gCpu s) Operation Base Len Caps Attr hi (space (gcd_map Operation s))"
  have "space (gcd_map Operation t) x = (if ?st = EFI_SUCCESS \<and> within Base Len x
      then map_option (convert_what Operation MemoryType IoType Caps Attr) (space (gcd_map Operation s) x) else space (gcd_map Operation s) x)" for x
    using 1(4) 1(5)[of x] 1(6)[OF _ cpu, of x] by (cases "?st = EFI_SUCCESS"; cases "within Base Len x") auto
  then show ?case using 1 m(2) by blast
qed

text \<open>A state with an empty map of 2^36 addresses in memory and 2^16 in I/O space.\<close>

abbreviation entry_at :: "UINT64 \<Rightarrow> UINT64 \<Rightarrow> UINT64 \<Rightarrow> UINT64 \<Rightarrow> UINT32 \<Rightarrow> UINT64 \<Rightarrow> EFI_GCD_MAP_ENTRY" where
  "entry_at b e caps attr ty img \<equiv> \<lparr>BaseAddress = b, EndAddress = e, Capabilities = caps, GcdAttributes = attr, GcdMemoryType = ty, GcdIoType = 0,
     GcdImageHandle = img, GcdDeviceHandle = 0\<rparr>"

definition gcd_sample :: "EFI_GCD_MAP_ENTRY list \<Rightarrow> unit CORE" where
  "gcd_sample m = initial_core True \<lparr>mGcdMemorySpaceMap = m, mGcdIoSpaceMap = [entry_at 0 0xFFFF 0 0 0 0], elsewhere = ()\<rparr>"

lemma gcd_sample_ready: "gcd_ready (gcd_sample m)"
  using settled_initial[of True "\<lparr>mGcdMemorySpaceMap = m, mGcdIoSpaceMap = [entry_at 0 0xFFFF 0 0 0 0], elsewhere = ()\<rparr>"]
  unfolding gcd_ready_def gcd_sample_def settled_def event_inv_def calm_def
  by (simp add: initial_core_def EFI_INITIALIZE_LOCK_VARIABLE_def)

lemma gcd_sample_maps: "mGcdMemorySpaceMap (world (gcd_sample m)) = m" "gCpu (gcd_sample m)"
  by (simp_all add: gcd_sample_def initial_core_def)

theorem convert_space_exact_witness:
  "\<exists>t. CoreConvertSpace 2 (\<lambda>f e c s. Some s) True (\<lambda>b l a. EFI_SUCCESS) GCD_ADD_MEMORY_OPERATION EfiGcdMemoryTypeSystemMemory 0 0x1000 0x2000 8 0
      (gcd_sample [entry_at 0 0xFFFFFFFFF 0 0 0 0]) = Some (EFI_SUCCESS, t)
    \<and> tiles 0 (mGcdMemorySpaceMap (world t)) 0x1000000000 \<and> space (mGcdMemorySpaceMap (world t)) 0x2FFF = Some (entry_at 0 0 0x8000000000000008 0 2 0)
    \<and> space (mGcdMemorySpaceMap (world t)) 0x3000 = Some (entry_at 0 0 0 0 0 0)"
proof -
  let ?m = "[entry_at 0 0xFFFFFFFFF 0 0 0 0]"
  let ?s = "gcd_sample ?m"
  have sp: "space ?m x = (if x < 0x1000000000 then Some (entry_at 0 0 0 0 0 0) else None)" for x
    by (auto simp: space_def what_def unat_numeral)
  have g: "gcd_map GCD_ADD_MEMORY_OPERATION ?s = ?m" by (simp add: gcd_map_def gcd_sample_maps)
  have ref: "refusal (convert_check GCD_ADD_MEMORY_OPERATION 0x1000 0x2000 8 0) (space ?m) 0x1000 0x3000 = EFI_SUCCESS"
    by (rule refusal_const[of _ _ _ _ EFI_SUCCESS, simplified]) (simp_all add: sp convert_check_def)
  have st: "convert_status True (\<lambda>b l a. EFI_SUCCESS) (gCpu ?s) GCD_ADD_MEMORY_OPERATION 0x1000 0x2000 8 0 0x1000000000 (space ?m) = EFI_SUCCESS"
    using ref by (simp add: convert_status_def)
  have op: "memory_operation GCD_ADD_MEMORY_OPERATION \<or> io_operation GCD_ADD_MEMORY_OPERATION" by (simp add: memory_operation_def)
  have ti: "tiles 0 (gcd_map GCD_ADD_MEMORY_OPERATION ?s) 0x1000000000" "merged (gcd_map GCD_ADD_MEMORY_OPERATION ?s)" by (simp_all add: g)
  obtain t where t: "CoreConvertSpace 2 (\<lambda>f e c s. Some s) True (\<lambda>b l a. EFI_SUCCESS) GCD_ADD_MEMORY_OPERATION EfiGcdMemoryTypeSystemMemory 0 0x1000 0x2000 8 0 ?s
      = Some (EFI_SUCCESS, t)"
    "\<forall>x. space (gcd_map GCD_ADD_MEMORY_OPERATION t) x = (if within 0x1000 0x2000 x
        then map_option (convert_what GCD_ADD_MEMORY_OPERATION EfiGcdMemoryTypeSystemMemory 0 8 0) (space ?m x) else space ?m x)"
    "tiles 0 (gcd_map GCD_ADD_MEMORY_OPERATION t) 0x1000000000"
    using convert_space_exact[where n = 2 and notify = "\<lambda>f e c s. Some s" and Pool = True and Cpu = "\<lambda>b l a. EFI_SUCCESS" and MemoryType = EfiGcdMemoryTypeSystemMemory
        and IoType = 0 and Base = "0x1000" and Len = "0x2000" and Caps = 8 and Attr = 0, OF gcd_sample_ready _ op ti] st unfolding g by auto
  have "gcd_map GCD_ADD_MEMORY_OPERATION t = mGcdMemorySpaceMap (world t)" by (simp add: gcd_map_def)
  then show ?thesis using t(1,3) t(2)[rule_format, of "0x2FFF"] t(2)[rule_format, of "0x3000"]
    by (simp add: sp convert_what_def convert_entry_def what_def)
qed

section \<open>Allocation\<close>

lemma allocate_space_refused:
  assumes "AllocateType \<ge> EfiGcdMaxAllocateType \<or> MemoryType \<ge> EfiGcdMemoryTypeMaximum \<or> IoType \<ge> EfiGcdIoTypeMaximum \<or> Address = None
    \<or> ImageHandle = 0 \<or> Alignment \<ge> 64 \<or> Len = 0"
  shows "\<exists>st. EFI_ERROR st \<and> CoreAllocateSpace n notify Pool Operation AllocateType MemoryType IoType Alignment Len Address ImageHandle DeviceHandle s = Some (st, Address, s)"
  using assms by (cases Address) (auto simp: CoreAllocateSpace_def)

lemma allocate_space_runs:
  fixes Base :: UINT64
  assumes s: "gcd_ready s" and n: "2 \<le> n" "AllocateType = EfiGcdAllocateAddress \<or> length (gcd_map Operation s) < n"
    and op: "Operation = GCD_ALLOCATE_MEMORY_OPERATION \<or> Operation = GCD_ALLOCATE_IO_OPERATION"
    and m: "tiles 0 (gcd_map Operation s) hi" "0 < hi" "hi \<le> 2 ^ 63"
    and args: "AllocateType < EfiGcdMaxAllocateType" "MemoryType < EfiGcdMemoryTypeMaximum" "IoType < EfiGcdIoTypeMaximum" "ImageHandle \<noteq> 0" "Alignment < 64"
    and len: "Len \<noteq> 0" "unat Len < 2 ^ 63"
  defines "ok \<equiv> allocatable Operation AllocateType MemoryType IoType Alignment Len Base (gcd_map Operation s)"
  shows "\<exists>st B t. CoreAllocateSpace n notify Pool Operation AllocateType MemoryType IoType Alignment Len (Some Base) ImageHandle DeviceHandle s = Some (st, Some B, t)
    \<and> (st = EFI_SUCCESS \<and> Pool \<and> ok (unat B) \<and> (searches_down AllocateType \<or> (\<forall>a. ok a \<longrightarrow> unat B \<le> a))
         \<and> (\<forall>x. space (gcd_map Operation t) x = (if within B Len x then map_option (taken ImageHandle DeviceHandle) (space (gcd_map Operation s) x)
             else space (gcd_map Operation s) x))
       \<or> st = EFI_NOT_FOUND \<and> (searches_down AllocateType \<or> (\<forall>a. \<not> ok a)) \<and> gcd_map Operation t = gcd_map Operation s
       \<or> st = EFI_OUT_OF_RESOURCES \<and> \<not> Pool \<and> (\<exists>a. ok a) \<and> gcd_map Operation t = gcd_map Operation s)
    \<and> tiles 0 (gcd_map Operation t) hi \<and> (merged (gcd_map Operation s) \<longrightarrow> merged (gcd_map Operation t))
    \<and> view t = view (put_gcd_map Operation (gcd_map Operation t) s) \<and> gcd_ready t"
proof -
  let ?m = "gcd_map Operation s"
  have op': "memory_operation Operation \<or> io_operation Operation" using op by (auto simp: memory_operation_def io_operation_def)
  have run: "\<exists>t. CoreAllocateSpace n notify Pool Operation AllocateType MemoryType IoType Alignment Len (Some Base) ImageHandle DeviceHandle s = Some (st, Some B, t)
      \<and> view t = view (put_gcd_map Operation m' s) \<and> gcd_map Operation t = m' \<and> gcd_ready t"
    if F: "allocate_map n Pool Operation AllocateType MemoryType IoType Alignment Len Base ImageHandle DeviceHandle ?m = Some (st, B, m')" for st B m'
  proof -
    let ?F = "\<lambda>(cpu :: bool) m. map_option (\<lambda>(st, B, m). ((st, B), m)) (allocate_map n Pool Operation AllocateType MemoryType IoType Alignment Len Base ImageHandle DeviceHandle m)"
    obtain t where t: "do { s \<leftarrow> gcd_lock Operation s; (r, m) \<leftarrow> ?F (gCpu s) (gcd_map Operation s);
        s \<leftarrow> gcd_unlock n notify Operation (put_gcd_map Operation m s); Some (r, s) } = Some ((st, B), t)"
      "view t = view (put_gcd_map Operation m' s)" "gcd_map Operation t = m'" "gcd_ready t"
      using locked_section[where F = ?F and r = "(st, B)" and m = m' and notify = notify, OF s n(1) op'] F by auto
    have "CoreAllocateSpace n notify Pool Operation AllocateType MemoryType IoType Alignment Len (Some Base) ImageHandle DeviceHandle s = Some (st, Some B, t)"
      using args len(1) t(1) by (auto simp: CoreAllocateSpace_def not_le split: bind_splits)
    then show ?thesis using t by blast
  qed
  show ?thesis
  proof (rule allocate_map_exact[where Pool = Pool and ImageHandle = ImageHandle and DeviceHandle = DeviceHandle, OF m len args(5) n(2) op, of MemoryType IoType Base], goal_cases)
    case (1 B m')
    then show ?case using run[OF 1(1)] unfolding ok_def by blast
  next
    case (2 st B)
    obtain t where t: "CoreAllocateSpace n notify Pool Operation AllocateType MemoryType IoType Alignment Len (Some Base) ImageHandle DeviceHandle s = Some (st, Some B, t)"
      "view t = view (put_gcd_map Operation (gcd_map Operation t) s)" "gcd_map Operation t = gcd_map Operation s" "gcd_ready t" using run[OF 2(1)] by metis
    show ?case unfolding ok_def by (rule exI[of _ st], rule exI[of _ B], rule exI[of _ t], unfold t(3)) (use t 2(2) m(1) in auto)
  qed
qed


text \<open>A map with system memory from 1000 to 3FFF.\<close>

abbreviation memory_sample :: "EFI_GCD_MAP_ENTRY list" where
  "memory_sample \<equiv> [entry_at 0 0xFFF 0 0 0 0, entry_at 0x1000 0x3FFF 8 0 2 0, entry_at 0x4000 0xFFFFF 0 0 0 0]"

lemma memory_sample_space:
  "space memory_sample x = (if x < 0x100000 then Some (if 0x1000 \<le> x \<and> x < 0x4000 then entry_at 0 0 8 0 2 0 else entry_at 0 0 0 0 0 0) else None)"
  by (auto simp: space_def what_def)

lemma memory_sample_tiles: "tiles 0 memory_sample 0x100000" "merged memory_sample"
  by (simp_all add: what_def)


section \<open>Freeing what was allocated\<close>

lemma refusal_none:
  assumes "\<And>x. b \<le> x \<Longrightarrow> x < c \<Longrightarrow> \<not> EFI_ERROR (check (the (sp x)))"
  shows "refusal check sp b c = EFI_SUCCESS"
proof -
  have "find (\<lambda>x. EFI_ERROR (check (the (sp x)))) [b..<c] = None" using assms by (auto simp: find_None_iff)
  then show ?thesis by (simp add: refusal_def)
qed

lemma allocatable_inside:
  assumes "allocatable Operation AllocateType MemoryType IoType Alignment Len Base m (unat B)" "tiles 0 m hi" "Len \<noteq> 0"
  shows "unat B + unat Len \<le> hi" "within B Len x \<Longrightarrow> \<exists>w. space m x = Some w \<and> what w = w \<and> GcdImageHandle w = 0"
proof -
  obtain Top where s: "suitable (CoreAllocateSpaceCheckEntry Operation MemoryType IoType) m (unat Alignment) Top (unat Len) (unat B)"
    using assms(1) by (auto simp: allocatable_def)
  show "unat B + unat Len \<le> hi" by (rule suitable_inside[OF assms(2) s]) (use assms(3) in \<open>simp add: unat_gt_0\<close>)
  assume "within B Len x"
  then obtain w where "space m x = Some w" "\<not> EFI_ERROR (CoreAllocateSpaceCheckEntry Operation MemoryType IoType w)" using s by (auto simp: suitable_def)
  then show "\<exists>w. space m x = Some w \<and> what w = w \<and> GcdImageHandle w = 0" using space_what[of m x w]
    by (auto simp: CoreAllocateSpaceCheckEntry_def split: if_splits)
qed

lemma free_taken: "what w = w \<Longrightarrow> GcdImageHandle w = 0 \<Longrightarrow> GcdDeviceHandle w = 0
    \<Longrightarrow> convert_what GCD_FREE_MEMORY_OPERATION 0 0 0 0 (taken i d w) = w"
  by (cases w) (simp add: convert_what_def convert_entry_def taken_def what_def)

text \<open>Freeing an allocated range, on the maps.\<close>

lemma freed_map:
  assumes s: "gcd_ready t" "2 \<le> n" and m: "tiles 0 m hi" "hi \<le> 2 ^ 63" "merged m"
    and t: "tiles 0 (mGcdMemorySpaceMap (world t)) hi" "merged (mGcdMemorySpaceMap (world t))"
      "\<And>x. space (mGcdMemorySpaceMap (world t)) x = (if within B Len x then map_option (taken i d) (space m x) else space m x)"
    and al: "Len \<noteq> 0" "unat B + unat Len \<le> hi" "\<And>x. within B Len x \<Longrightarrow> \<exists>w. space m x = Some w \<and> what w = w \<and> GcdImageHandle w = 0 \<and> GcdDeviceHandle w = 0"
    and i: "i \<noteq> 0"
  shows "\<exists>u. CoreFreeMemorySpace n notify True Cpu B Len t = Some (EFI_SUCCESS, u) \<and> gcd_ready u \<and> view u = view (t\<lparr>world := (world t)\<lparr>mGcdMemorySpaceMap := m\<rparr>\<rparr>)"
proof -
  have g: "gcd_map GCD_FREE_MEMORY_OPERATION s = mGcdMemorySpaceMap (world s)" for s :: "'a CORE" by (simp add: gcd_map_def)
  have ref: "refusal (convert_check GCD_FREE_MEMORY_OPERATION B Len 0 0) (space (gcd_map GCD_FREE_MEMORY_OPERATION t)) (unat B) (unat B + unat Len) = EFI_SUCCESS"
    by (rule refusal_none) (use al(3) i in \<open>force simp: g t(3) convert_check_def taken_def\<close>)
  then have st: "convert_status True Cpu (gCpu t) GCD_FREE_MEMORY_OPERATION B Len 0 0 hi (space (gcd_map GCD_FREE_MEMORY_OPERATION t)) = EFI_SUCCESS"
    using al(1,2) by (simp add: convert_status_def)
  have op: "memory_operation GCD_FREE_MEMORY_OPERATION \<or> io_operation GCD_FREE_MEMORY_OPERATION" by (simp add: memory_operation_def)
  have ti: "tiles 0 (gcd_map GCD_FREE_MEMORY_OPERATION t) hi" by (simp add: g t(1))
  have nw: "unat B + unat Len \<le> 2 ^ 64" using al(2) m(2) by simp
  show ?thesis
  proof (rule convert_space_runs[where notify = notify and MemoryType = 0 and IoType = 0, OF s op ti nw st], goal_cases)
    case (1 u)
    have "space (mGcdMemorySpaceMap (world u)) x = space m x" for x
    proof (cases "within B Len x")
      case True
      then obtain w where w: "space m x = Some w" "what w = w" "GcdImageHandle w = 0" "GcdDeviceHandle w = 0" using al(3) by blast
      show ?thesis using 1(6)[OF refl _ True] True w free_taken[OF w(2-4), of i d] by (simp add: g t(3))
    next
      case False
      then show ?thesis using 1(5)[of x] by (auto simp add: g t(3))
    qed
    then have "mGcdMemorySpaceMap (world u) = m" by (intro tiling_unique[OF _ m(1) _ m(3)]) (use 1(2,3) t(2) g in auto)
    then show ?case using 1(1,7,8) by (auto simp: CoreFreeMemorySpace_def put_gcd_map_def g)
  qed
qed



section \<open>Flaws\<close>

text \<open>The search from above passes over a free entry that is exactly as long as the range, while the search from below takes it.\<close>

lemma top_down_skips_exact_fit:
  assumes e: "BaseAddress e = 0" "EndAddress e + 1 = Len" "Len \<noteq> 0" "\<not> EFI_ERROR (CoreAllocateSpaceCheckEntry Operation MemoryType IoType e)"
    and n: "2 \<le> n"
  shows "allocate_search n Operation EfiGcdAllocateAnySearchTopDown MemoryType IoType 0 Len Base [e] = Some (EFI_NOT_FOUND, Base, [], [], [])"
    and "allocate_search n Operation EfiGcdAllocateAnySearchBottomUp MemoryType IoType 0 Len Base [e] = Some (EFI_SUCCESS, 0, [], [e], [])"
proof -
  obtain k where k: "n = Suc (Suc k)" using n by (metis add_2_eq_Suc le_iff_add)
  have l: "Len - 1 = EndAddress e" using e(2) by auto
  have "EndAddress e < Len" using e(3) unfolding l[symmetric] by (simp add: word_less_nat_alt unat_minus_one unat_gt_0)
  then show "allocate_search n Operation EfiGcdAllocateAnySearchTopDown MemoryType IoType 0 Len Base [e] = Some (EFI_NOT_FOUND, Base, [], [], [])"
    using e(1,4) by (simp add: allocate_search_def mask_shift k Let_def)
  show "allocate_search n Operation EfiGcdAllocateAnySearchBottomUp MemoryType IoType 0 Len Base [e] = Some (EFI_SUCCESS, 0, [], [e], [])"
    using e(1,3,4) l by (simp add: allocate_search_def mask_shift k Let_def CoreSearchGcdMapEntry_def)
qed

lemma one_entry_wraps:
  fixes Caps :: UINT64
  assumes e: "BaseAddress e = 0" "GcdMemoryType e = EfiGcdMemoryTypeNonExistent" "GcdImageHandle e = 0" and ty: "MemoryType \<noteq> EfiGcdMemoryTypeNonExistent"
    and r: "0 < Base" "Base \<le> EndAddress e" "Base + Len - 1 < Base" "Len \<noteq> 0"
  defines "caps \<equiv> (if MemoryType = EfiGcdMemoryTypeMemoryMappedIo then Caps OR EFI_MEMORY_RUNTIME OR EFI_MEMORY_PORT_IO else Caps OR EFI_MEMORY_RUNTIME)"
  shows "convert_map True Cpu CpuThere GCD_ADD_MEMORY_OPERATION MemoryType 0 Base Len Caps 0 [e] =
    Some (EFI_SUCCESS, [e\<lparr>EndAddress := Base - 1\<rparr>, e\<lparr>BaseAddress := Base, EndAddress := Base + Len - 1, GcdMemoryType := MemoryType, Capabilities := caps\<rparr>,
      e\<lparr>BaseAddress := Base + Len\<rparr>])"
proof -
  have l: "Base + Len - 1 < EndAddress e" using r(2,3) by (rule order.strict_trans2[rotated])
  have s: "CoreSearchGcdMapEntry Base Len [e] = Some (EFI_SUCCESS, [], [e], [])"
    using e(1) r(2,4) l by (simp add: CoreSearchGcdMapEntry_def Let_def)
  have v: "ConvertSpace_verify (convert_check GCD_ADD_MEMORY_OPERATION Base Len Caps 0) [e] = EFI_SUCCESS" using e(2,3) by (simp add: convert_check_def)
  let ?e = "e\<lparr>BaseAddress := Base, EndAddress := Base + Len - 1, GcdMemoryType := MemoryType, Capabilities := caps\<rparr>"
  have c: "ConvertGcdMap_loop (convert_entry GCD_ADD_MEMORY_OPERATION MemoryType 0 Caps 0) Base Len fresh_entries 0 [] [] [e] [] =
      Some ([e\<lparr>EndAddress := Base - 1\<rparr>], [?e], [e\<lparr>BaseAddress := Base + Len\<rparr>])"
    using e(1) r(1,4) l by (simp add: CoreInsertGcdMapEntry_def convert_entry_def caps_def)
  have "CoreCleanupGcdMapEntry [e\<lparr>EndAddress := Base - 1\<rparr>] [?e] [e\<lparr>BaseAddress := Base + Len\<rparr>] =
      (EFI_SUCCESS, [e\<lparr>EndAddress := Base - 1\<rparr>, ?e, e\<lparr>BaseAddress := Base + Len\<rparr>])"
    using e(2) ty by (simp add: CoreCleanupGcdMapEntry_def CoreMergeGcdMapEntry_def Let_def)
  then show ?thesis by (simp add: convert_map_def s v c Let_def del: ConvertGcdMap_loop.simps ConvertSpace_verify.simps)
qed

text \<open>
  (C27) A length that takes the end of the range around 2^64 is not refused: adding memory space from \<open>Base\<close> on to an empty map succeeds and leaves
  entries that overlap, one of them with an end below its base. The map no longer tiles the addresses.
\<close>

theorem wrapping_range_corrupts:
  assumes s: "gcd_ready s" "2 \<le> n" "mGcdMemorySpaceMap (world s) = [e]" "BaseAddress e = 0" "GcdMemoryType e = EfiGcdMemoryTypeNonExistent" "GcdImageHandle e = 0"
    and ty: "EfiGcdMemoryTypeNonExistent < MemoryType" "MemoryType < EfiGcdMemoryTypeMaximum"
    and r: "0 < Base" "Base \<le> EndAddress e" "Base + Len - 1 < Base" "Len \<noteq> 0"
  shows "\<exists>t a b c. CoreInternalAddMemorySpace n notify True Cpu MemoryType Base Len Caps s = Some (EFI_SUCCESS, t) \<and> mGcdMemorySpaceMap (world t) = [a, b, c]
    \<and> BaseAddress b = Base \<and> EndAddress b < BaseAddress b \<and> BaseAddress c \<le> BaseAddress b \<and> EndAddress c = EndAddress e
    \<and> (\<forall>hi. \<not> tiles 0 (mGcdMemorySpaceMap (world t)) hi)"
proof -
  have g: "gcd_map GCD_ADD_MEMORY_OPERATION s = mGcdMemorySpaceMap (world s)" for s :: "'a CORE" by (simp add: gcd_map_def)
  have op: "memory_operation GCD_ADD_MEMORY_OPERATION \<or> io_operation GCD_ADD_MEMORY_OPERATION" by (simp add: memory_operation_def)
  let ?caps = "if MemoryType = EfiGcdMemoryTypeMemoryMappedIo then Caps OR EFI_MEMORY_RUNTIME OR EFI_MEMORY_PORT_IO else Caps OR EFI_MEMORY_RUNTIME"
  let ?b = "e\<lparr>BaseAddress := Base, EndAddress := Base + Len - 1, GcdMemoryType := MemoryType, Capabilities := ?caps\<rparr>"
  have F: "convert_map True Cpu (gCpu s) GCD_ADD_MEMORY_OPERATION MemoryType 0 Base Len Caps 0 (gcd_map GCD_ADD_MEMORY_OPERATION s) =
      Some (EFI_SUCCESS, [e\<lparr>EndAddress := Base - 1\<rparr>, ?b, e\<lparr>BaseAddress := Base + Len\<rparr>])"
    unfolding g s(3) by (rule one_entry_wraps) (use s(4-6) ty(1) r in auto)
  obtain t where t: "do { s \<leftarrow> gcd_lock GCD_ADD_MEMORY_OPERATION s; (r, m) \<leftarrow> convert_map True Cpu (gCpu s) GCD_ADD_MEMORY_OPERATION MemoryType 0 Base Len Caps 0 (gcd_map GCD_ADD_MEMORY_OPERATION s);
      s \<leftarrow> gcd_unlock n notify GCD_ADD_MEMORY_OPERATION (put_gcd_map GCD_ADD_MEMORY_OPERATION m s); Some (r, s) } = Some (EFI_SUCCESS, t)"
    "gcd_map GCD_ADD_MEMORY_OPERATION t = [e\<lparr>EndAddress := Base - 1\<rparr>, ?b, e\<lparr>BaseAddress := Base + Len\<rparr>]"
    by (rule locked_section[where F = "\<lambda>cpu m. convert_map True Cpu cpu GCD_ADD_MEMORY_OPERATION MemoryType 0 Base Len Caps 0 m" and notify = notify, OF s(1,2) op F])
  have "\<not> MemoryType \<le> EfiGcdMemoryTypeNonExistent" "\<not> MemoryType \<ge> EfiGcdMemoryTypeMaximum" using ty by (simp_all add: not_le)
  then have run: "CoreInternalAddMemorySpace n notify True Cpu MemoryType Base Len Caps s = Some (EFI_SUCCESS, t)"
    using r(4) t(1) by (simp only: CoreInternalAddMemorySpace_def CoreConvertSpace_def if_False disj_not1 simp_thms)
  have le: "Base + Len \<le> Base" using r(3) inc_le[of "Base + Len - 1" Base] by simp
  have bad: "\<not> unat Base \<le> unat (Base + Len - 1)" using r(3) by (simp add: word_less_nat_alt)
  show ?thesis
    by (rule exI[of _ t], rule exI[of _ "e\<lparr>EndAddress := Base - 1\<rparr>"], rule exI[of _ ?b], rule exI[of _ "e\<lparr>BaseAddress := Base + Len\<rparr>"])
      (use run t(2) r(3) le bad in \<open>auto simp: g\<close>)
qed

theorem wrapping_range_corrupts_witness:
  "\<exists>t a b c. CoreInternalAddMemorySpace 2 (\<lambda>f e c s. Some s) True (\<lambda>b l a. EFI_SUCCESS) EfiGcdMemoryTypeSystemMemory 0x5000 0xFFFFFFFFFFFFF000 8
      (gcd_sample [entry_at 0 0xFFFFFFFFF 0 0 0 0]) = Some (EFI_SUCCESS, t)
    \<and> mGcdMemorySpaceMap (world t) = [a, b, c] \<and> BaseAddress b = 0x5000 \<and> EndAddress b < BaseAddress b"
proof -
  let ?s = "gcd_sample [entry_at 0 0xFFFFFFFFF 0 0 0 0]"
  show ?thesis
    using wrapping_range_corrupts[where n = 2 and notify = "\<lambda>f e c s. Some s" and Cpu = "\<lambda>b l a. EFI_SUCCESS" and Base = "0x5000" and Len = "0xFFFFFFFFFFFFF000"
        and Caps = 8 and MemoryType = EfiGcdMemoryTypeSystemMemory and e = "entry_at 0 0xFFFFFFFFF 0 0 0 0", OF gcd_sample_ready _ gcd_sample_maps(1)] by (simp, blast)
qed

abbreviation CPU_ATTRIBUTES :: UINT64 where "CPU_ATTRIBUTES \<equiv> EXCLUSIVE_MEMORY_ATTRIBUTES OR NONEXCLUSIVE_MEMORY_ATTRIBUTES"

lemma two_entries_leak:
  assumes t: "tiles 0 [e, f] hi" and len: "unat Len = hi" and caps: "Capabilities e AND Attr = Attr" "Capabilities f AND Attr = Attr"
    and attr: "ConverToCpuArchAttributes Attr = 0" "Attr AND EFI_MEMORY_RUNTIME = 0 \<or> Len AND EFI_PAGE_MASK = 0"
  obtains m' where "convert_map True Cpu CpuThere GCD_SET_ATTRIBUTES_MEMORY_OPERATION 0 0 0 Len 0 Attr [e, f] = Some (EFI_SUCCESS, m')" "tiles 0 m' hi"
    "\<And>x. holds_address x f \<Longrightarrow> space m' x =
       Some (what (f\<lparr>GcdAttributes := (Attr OR (GcdAttributes e AND CPU_ATTRIBUTES)) OR (GcdAttributes f AND CPU_ATTRIBUTES)\<rparr>))"
proof -
  have b: "unat (BaseAddress e) = 0" "unat (BaseAddress f) = unat (EndAddress e) + 1" "unat (BaseAddress f) \<le> unat (EndAddress f)" "unat Len = unat (EndAddress f) + 1"
    using t len by auto
  have "Len \<noteq> 0" using b(4) by auto
  then have "unat (Len - 1) = unat (EndAddress f)" using b(4) by (simp add: unat_minus_one)
  then have l: "Len - 1 = EndAddress f" by (simp add: word_unat_eq_iff)
  have w: "BaseAddress e = 0" "\<not> BaseAddress f \<le> 0" "\<not> EndAddress f \<le> EndAddress e" "BaseAddress f \<le> EndAddress f" "\<not> EndAddress f < EndAddress e"
    using b by (simp_all add: word_unat_eq_iff word_le_nat_alt word_less_nat_alt)
  have s: "CoreSearchGcdMapEntry 0 Len [e, f] = Some (EFI_SUCCESS, [], [e, f], [])"
    using w l \<open>Len \<noteq> 0\<close> by (simp add: CoreSearchGcdMapEntry_def Let_def)
  have v: "ConvertSpace_verify (convert_check GCD_SET_ATTRIBUTES_MEMORY_OPERATION 0 Len 0 Attr) [e, f] = EFI_SUCCESS"
    using caps attr(2) by (auto simp: convert_check_def)
  let ?a = "Attr OR (GcdAttributes e AND CPU_ATTRIBUTES)"
  let ?es = "[e\<lparr>GcdAttributes := ?a\<rparr>, f\<lparr>GcdAttributes := ?a OR (GcdAttributes f AND CPU_ATTRIBUTES)\<rparr>]"
  have c: "ConvertGcdMap_loop (convert_entry GCD_SET_ATTRIBUTES_MEMORY_OPERATION 0 0 0 0) 0 Len fresh_entries Attr [] [] [e, f] [] = Some ([], ?es, [])"
    using w l \<open>Len \<noteq> 0\<close> by (simp add: CoreInsertGcdMapEntry_def convert_entry_def Let_def)
  obtain st m' where m': "CoreCleanupGcdMapEntry [] ?es [] = (st, m')" by (cases "CoreCleanupGcdMapEntry [] ?es []")
  have te: "tiles 0 ([] @ ?es @ []) hi" using t by simp
  note cl = cleanup[OF te _ m']
  have "space ?es x = Some (what (f\<lparr>GcdAttributes := ?a OR (GcdAttributes f AND CPU_ATTRIBUTES)\<rparr>))" if "holds_address x f" for x
    using that b by (simp add: space_def)
  then have new: "space m' x = Some (what (f\<lparr>GcdAttributes := ?a OR (GcdAttributes f AND CPU_ATTRIBUTES)\<rparr>))" if "holds_address x f" for x
    using cl(3)[of x] that by simp
  have "convert_map True Cpu CpuThere GCD_SET_ATTRIBUTES_MEMORY_OPERATION 0 0 0 Len 0 Attr [e, f] = Some (EFI_SUCCESS, m')"
    using attr(1) cl(1) m' by (simp add: convert_map_def s v c Let_def del: ConvertGcdMap_loop.simps ConvertSpace_verify.simps)
  then show thesis by (rule that) (use cl(2) new in auto)
qed

text \<open>
  (C29) Setting attributes that say nothing of the CPU, such as the runtime attribute, over more than one entry: each entry is meant to keep its own
  cache and page attributes, but the attributes of the first entry are carried on to the second, which afterwards has those of both.
\<close>

theorem attributes_leak:
  assumes s: "gcd_ready s" "2 \<le> n" "mGcdMemorySpaceMap (world s) = [e, f]" "tiles 0 [e, f] (unat Len)"
    and caps: "Capabilities e AND Attr = Attr" "Capabilities f AND Attr = Attr"
    and attr: "ConverToCpuArchAttributes Attr = 0" "Attr AND EFI_MEMORY_RUNTIME = 0 \<or> Len AND EFI_PAGE_MASK = 0"
  shows "\<exists>t. CoreSetMemorySpaceAttributes n notify True Cpu 0 Len Attr s = Some (EFI_SUCCESS, t) \<and> tiles 0 (mGcdMemorySpaceMap (world t)) (unat Len)
    \<and> (\<forall>x. holds_address x f \<longrightarrow> space (mGcdMemorySpaceMap (world t)) x =
          Some (what (f\<lparr>GcdAttributes := (Attr OR (GcdAttributes e AND CPU_ATTRIBUTES)) OR (GcdAttributes f AND CPU_ATTRIBUTES)\<rparr>)))"
proof (rule two_entries_leak[OF s(4) refl caps attr, of Cpu "gCpu s"], goal_cases)
  case (1 m')
  let ?op = GCD_SET_ATTRIBUTES_MEMORY_OPERATION
  have g: "gcd_map ?op s = mGcdMemorySpaceMap (world s)" for s :: "'a CORE" by (simp add: gcd_map_def)
  have op: "memory_operation ?op \<or> io_operation ?op" by (simp add: memory_operation_def)
  have F: "convert_map True Cpu (gCpu s) ?op 0 0 0 Len 0 Attr (gcd_map ?op s) = Some (EFI_SUCCESS, m')" using 1(1) s(3) by (simp add: g)
  obtain t where t: "do { s \<leftarrow> gcd_lock ?op s; (r, m) \<leftarrow> convert_map True Cpu (gCpu s) ?op 0 0 0 Len 0 Attr (gcd_map ?op s);
      s \<leftarrow> gcd_unlock n notify ?op (put_gcd_map ?op m s); Some (r, s) } = Some (EFI_SUCCESS, t)" "gcd_map ?op t = m'"
    by (rule locked_section[where F = "\<lambda>cpu m. convert_map True Cpu cpu ?op 0 0 0 Len 0 Attr m" and notify = notify, OF s(1,2) op F])
  have "Len \<noteq> 0" using s(4) by auto
  then have "CoreSetMemorySpaceAttributes n notify True Cpu 0 Len Attr s = Some (EFI_SUCCESS, t)"
    using t(1) by (simp only: CoreSetMemorySpaceAttributes_def CoreConvertSpace_def if_False simp_thms)
  then show ?case using 1(2,3) t(2) by (auto simp: g)
qed

theorem attributes_leak_witness:
  "\<exists>t. CoreSetMemorySpaceAttributes 2 (\<lambda>f e c s. Some s) True (\<lambda>b l a. EFI_SUCCESS) 0 0x2000 EFI_MEMORY_RUNTIME
      (gcd_sample [entry_at 0 0xFFF 0x8000000000000009 EFI_MEMORY_WB 2 0, entry_at 0x1000 0x1FFF 0x8000000000000009 EFI_MEMORY_UC 2 0]) = Some (EFI_SUCCESS, t)
    \<and> space (mGcdMemorySpaceMap (world t)) 0x1800 = Some (entry_at 0 0 0x8000000000000009 0x8000000000000009 2 0)"
proof -
  let ?e = "entry_at 0 0xFFF 0x8000000000000009 EFI_MEMORY_WB 2 0" and ?f = "entry_at 0x1000 0x1FFF 0x8000000000000009 EFI_MEMORY_UC 2 0"
  obtain t where t: "CoreSetMemorySpaceAttributes 2 (\<lambda>f e c s. Some s) True (\<lambda>b l a. EFI_SUCCESS) 0 0x2000 EFI_MEMORY_RUNTIME (gcd_sample [?e, ?f]) = Some (EFI_SUCCESS, t)"
    "\<forall>x. holds_address x ?f \<longrightarrow> space (mGcdMemorySpaceMap (world t)) x =
       Some (what (?f\<lparr>GcdAttributes := (EFI_MEMORY_RUNTIME OR (GcdAttributes ?e AND CPU_ATTRIBUTES)) OR (GcdAttributes ?f AND CPU_ATTRIBUTES)\<rparr>))"
    using attributes_leak[where n = 2 and notify = "\<lambda>f e c s. Some s" and Cpu = "\<lambda>b l a. EFI_SUCCESS" and Attr = EFI_MEMORY_RUNTIME and Len = "0x2000"
        and e = ?e and f = ?f, OF gcd_sample_ready _ gcd_sample_maps(1)]
    by (simp add: ConverToCpuArchAttributes_def NONEXCLUSIVE_MEMORY_ATTRIBUTES_def, blast)
  then show ?thesis using t(2)[rule_format, of "0x1800"] by (simp add: what_def EXCLUSIVE_MEMORY_ATTRIBUTES_def NONEXCLUSIVE_MEMORY_ATTRIBUTES_def)
qed

end
