(* ===== verification/Dxe_GcdInit.thy ===== *)
theory Dxe_GcdInit
  imports Dxe_GcdOps
begin

text \<open>
  The initialisation of the global coherency domain from the hand-off blocks (MdeModulePkg/Core/Dxe/Gcd/Gcd.c): the attributes of resource
  descriptors and the walk over the list of HOBs that fills the maps; the first memory region, chosen before, is an argument.
\<close>

unbundle bit_operations_syntax

section \<open>Attributes of resource descriptors\<close>

abbreviation EFI_RESOURCE_ATTRIBUTE_PRESENT :: UINT64 where "EFI_RESOURCE_ATTRIBUTE_PRESENT \<equiv> 0x1"
abbreviation EFI_RESOURCE_ATTRIBUTE_INITIALIZED :: UINT64 where "EFI_RESOURCE_ATTRIBUTE_INITIALIZED \<equiv> 0x2"
abbreviation EFI_RESOURCE_ATTRIBUTE_TESTED :: UINT64 where "EFI_RESOURCE_ATTRIBUTE_TESTED \<equiv> 0x4"
abbreviation EFI_RESOURCE_ATTRIBUTE_READ_PROTECTED :: UINT64 where "EFI_RESOURCE_ATTRIBUTE_READ_PROTECTED \<equiv> 0x80"
abbreviation EFI_RESOURCE_ATTRIBUTE_WRITE_PROTECTED :: UINT64 where "EFI_RESOURCE_ATTRIBUTE_WRITE_PROTECTED \<equiv> 0x100"
abbreviation EFI_RESOURCE_ATTRIBUTE_EXECUTION_PROTECTED :: UINT64 where "EFI_RESOURCE_ATTRIBUTE_EXECUTION_PROTECTED \<equiv> 0x200"
abbreviation EFI_RESOURCE_ATTRIBUTE_UNCACHEABLE :: UINT64 where "EFI_RESOURCE_ATTRIBUTE_UNCACHEABLE \<equiv> 0x400"
abbreviation EFI_RESOURCE_ATTRIBUTE_WRITE_COMBINEABLE :: UINT64 where "EFI_RESOURCE_ATTRIBUTE_WRITE_COMBINEABLE \<equiv> 0x800"
abbreviation EFI_RESOURCE_ATTRIBUTE_WRITE_THROUGH_CACHEABLE :: UINT64 where "EFI_RESOURCE_ATTRIBUTE_WRITE_THROUGH_CACHEABLE \<equiv> 0x1000"
abbreviation EFI_RESOURCE_ATTRIBUTE_WRITE_BACK_CACHEABLE :: UINT64 where "EFI_RESOURCE_ATTRIBUTE_WRITE_BACK_CACHEABLE \<equiv> 0x2000"
abbreviation EFI_RESOURCE_ATTRIBUTE_16_BIT_IO :: UINT64 where "EFI_RESOURCE_ATTRIBUTE_16_BIT_IO \<equiv> 0x4000"
abbreviation EFI_RESOURCE_ATTRIBUTE_32_BIT_IO :: UINT64 where "EFI_RESOURCE_ATTRIBUTE_32_BIT_IO \<equiv> 0x8000"
abbreviation EFI_RESOURCE_ATTRIBUTE_64_BIT_IO :: UINT64 where "EFI_RESOURCE_ATTRIBUTE_64_BIT_IO \<equiv> 0x10000"
abbreviation EFI_RESOURCE_ATTRIBUTE_UNCACHED_EXPORTED :: UINT64 where "EFI_RESOURCE_ATTRIBUTE_UNCACHED_EXPORTED \<equiv> 0x20000"
abbreviation EFI_RESOURCE_ATTRIBUTE_READ_ONLY_PROTECTED :: UINT64 where "EFI_RESOURCE_ATTRIBUTE_READ_ONLY_PROTECTED \<equiv> 0x40000"
abbreviation EFI_RESOURCE_ATTRIBUTE_READ_ONLY_PROTECTABLE :: UINT64 where "EFI_RESOURCE_ATTRIBUTE_READ_ONLY_PROTECTABLE \<equiv> 0x80000"
abbreviation EFI_RESOURCE_ATTRIBUTE_READ_PROTECTABLE :: UINT64 where "EFI_RESOURCE_ATTRIBUTE_READ_PROTECTABLE \<equiv> 0x100000"
abbreviation EFI_RESOURCE_ATTRIBUTE_WRITE_PROTECTABLE :: UINT64 where "EFI_RESOURCE_ATTRIBUTE_WRITE_PROTECTABLE \<equiv> 0x200000"
abbreviation EFI_RESOURCE_ATTRIBUTE_EXECUTION_PROTECTABLE :: UINT64 where "EFI_RESOURCE_ATTRIBUTE_EXECUTION_PROTECTABLE \<equiv> 0x400000"
abbreviation EFI_RESOURCE_ATTRIBUTE_PERSISTENT :: UINT64 where "EFI_RESOURCE_ATTRIBUTE_PERSISTENT \<equiv> 0x800000"
abbreviation EFI_RESOURCE_ATTRIBUTE_PERSISTABLE :: UINT64 where "EFI_RESOURCE_ATTRIBUTE_PERSISTABLE \<equiv> 0x1000000"
abbreviation EFI_RESOURCE_ATTRIBUTE_MORE_RELIABLE :: UINT64 where "EFI_RESOURCE_ATTRIBUTE_MORE_RELIABLE \<equiv> 0x2000000"
abbreviation EFI_MEMORY_NV :: UINT64 where "EFI_MEMORY_NV \<equiv> 0x8000"
abbreviation EFI_MEMORY_MORE_RELIABLE :: UINT64 where "EFI_MEMORY_MORE_RELIABLE \<equiv> 0x10000"
abbreviation EFI_MEMORY_PRESENT :: UINT64 where "EFI_MEMORY_PRESENT \<equiv> 0x100000000000000"
abbreviation EFI_MEMORY_INITIALIZED :: UINT64 where "EFI_MEMORY_INITIALIZED \<equiv> 0x200000000000000"
abbreviation EFI_MEMORY_TESTED :: UINT64 where "EFI_MEMORY_TESTED \<equiv> 0x400000000000000"

definition CoreValidateResourceDescriptorHobAttributes :: "UINT64 \<Rightarrow> unit option" where
  "CoreValidateResourceDescriptorHobAttributes Attr =
     do {
       ASSERT (Attr AND EFI_RESOURCE_ATTRIBUTE_READ_PROTECTED = 0 \<or> Attr AND EFI_RESOURCE_ATTRIBUTE_READ_PROTECTABLE \<noteq> 0);
       ASSERT (Attr AND EFI_RESOURCE_ATTRIBUTE_WRITE_PROTECTED = 0 \<or> Attr AND EFI_RESOURCE_ATTRIBUTE_WRITE_PROTECTABLE \<noteq> 0);
       ASSERT (Attr AND EFI_RESOURCE_ATTRIBUTE_EXECUTION_PROTECTED = 0 \<or> Attr AND EFI_RESOURCE_ATTRIBUTE_EXECUTION_PROTECTABLE \<noteq> 0);
       ASSERT (Attr AND EFI_RESOURCE_ATTRIBUTE_READ_ONLY_PROTECTED = 0 \<or> Attr AND EFI_RESOURCE_ATTRIBUTE_READ_ONLY_PROTECTABLE \<noteq> 0);
       ASSERT (Attr AND EFI_RESOURCE_ATTRIBUTE_PERSISTENT = 0 \<or> Attr AND EFI_RESOURCE_ATTRIBUTE_PERSISTABLE \<noteq> 0)
     }"

text \<open>An entry of the table: the attribute, the capability and whether it is for memory as well.\<close>

definition mAttributeConversionTable :: "(UINT64 \<times> UINT64 \<times> bool) list" where
  "mAttributeConversionTable =
     [(EFI_RESOURCE_ATTRIBUTE_UNCACHEABLE, EFI_MEMORY_UC, True),
      (EFI_RESOURCE_ATTRIBUTE_UNCACHED_EXPORTED, EFI_MEMORY_UCE, True),
      (EFI_RESOURCE_ATTRIBUTE_WRITE_COMBINEABLE, EFI_MEMORY_WC, True),
      (EFI_RESOURCE_ATTRIBUTE_WRITE_THROUGH_CACHEABLE, EFI_MEMORY_WT, True),
      (EFI_RESOURCE_ATTRIBUTE_WRITE_BACK_CACHEABLE, EFI_MEMORY_WB, True),
      (EFI_RESOURCE_ATTRIBUTE_READ_PROTECTABLE, EFI_MEMORY_RP, True),
      (EFI_RESOURCE_ATTRIBUTE_WRITE_PROTECTABLE, EFI_MEMORY_WP, True),
      (EFI_RESOURCE_ATTRIBUTE_EXECUTION_PROTECTABLE, EFI_MEMORY_XP, True),
      (EFI_RESOURCE_ATTRIBUTE_READ_ONLY_PROTECTABLE, EFI_MEMORY_RO, True),
      (EFI_RESOURCE_ATTRIBUTE_PRESENT, EFI_MEMORY_PRESENT, False),
      (EFI_RESOURCE_ATTRIBUTE_INITIALIZED, EFI_MEMORY_INITIALIZED, False),
      (EFI_RESOURCE_ATTRIBUTE_TESTED, EFI_MEMORY_TESTED, False),
      (EFI_RESOURCE_ATTRIBUTE_PERSISTABLE, EFI_MEMORY_NV, True),
      (EFI_RESOURCE_ATTRIBUTE_MORE_RELIABLE, EFI_MEMORY_MORE_RELIABLE, True),
      (0, 0, False)]"

text \<open>The loop of the conversion ends at an attribute 0.\<close>

fun HobAttributes_loop :: "UINT32 \<Rightarrow> UINT64 \<Rightarrow> UINT64 \<Rightarrow> (UINT64 \<times> UINT64 \<times> bool) list \<Rightarrow> UINT64" where
  "HobAttributes_loop MemoryType Attr Caps [] = Caps"
| "HobAttributes_loop MemoryType Attr Caps ((Attribute, Capability, Memory) # table) =
     (if Attribute = 0 then Caps
      else HobAttributes_loop MemoryType Attr
             (if (Memory \<or> MemoryType \<noteq> EfiGcdMemoryTypeSystemMemory \<and> MemoryType \<noteq> EfiGcdMemoryTypeMoreReliable) \<and> Attr AND Attribute \<noteq> 0
              then Caps OR Capability else Caps) table)"

definition CoreConvertResourceDescriptorHobAttributesToCapabilities :: "UINT32 \<Rightarrow> UINT64 \<Rightarrow> UINT64" where
  "CoreConvertResourceDescriptorHobAttributesToCapabilities MemoryType Attr = HobAttributes_loop MemoryType Attr 0 mAttributeConversionTable"

section \<open>The list of HOBs\<close>

text \<open>
  The HOBs that are looked at, in the order of the list; the PHIT and CPU HOBs are arguments of their own. A resource descriptor has its type, its
  attributes, its start and its length; a memory allocation the type of memory, the base address and the length.
\<close>

datatype HOB =
  ResourceDescriptor UINT32 UINT32 UINT64 UINT64
| MemoryAllocation UINT32 UINT64 UINT64
| FirmwareVolume UINT64 UINT64
| OtherHob

record PHIT =
  EfiMemoryTop :: UINT64
  EfiFreeMemoryBottom :: UINT64
  EfiFreeMemoryTop :: UINT64

abbreviation EFI_RESOURCE_SYSTEM_MEMORY :: UINT32 where "EFI_RESOURCE_SYSTEM_MEMORY \<equiv> 0"
abbreviation EFI_RESOURCE_MEMORY_MAPPED_IO :: UINT32 where "EFI_RESOURCE_MEMORY_MAPPED_IO \<equiv> 1"
abbreviation EFI_RESOURCE_IO :: UINT32 where "EFI_RESOURCE_IO \<equiv> 2"
abbreviation EFI_RESOURCE_FIRMWARE_DEVICE :: UINT32 where "EFI_RESOURCE_FIRMWARE_DEVICE \<equiv> 3"
abbreviation EFI_RESOURCE_MEMORY_MAPPED_IO_PORT :: UINT32 where "EFI_RESOURCE_MEMORY_MAPPED_IO_PORT \<equiv> 4"
abbreviation EFI_RESOURCE_MEMORY_RESERVED :: UINT32 where "EFI_RESOURCE_MEMORY_RESERVED \<equiv> 5"
abbreviation EFI_RESOURCE_IO_RESERVED :: UINT32 where "EFI_RESOURCE_IO_RESERVED \<equiv> 6"
abbreviation EfiGcdMemoryTypeReserved :: UINT32 where "EfiGcdMemoryTypeReserved \<equiv> 1"
abbreviation EfiGcdMemoryTypePersistent :: UINT32 where "EfiGcdMemoryTypePersistent \<equiv> 4"
abbreviation EfiGcdIoTypeReserved :: UINT32 where "EfiGcdIoTypeReserved \<equiv> 1"
abbreviation EfiGcdIoTypeIo :: UINT32 where "EfiGcdIoTypeIo \<equiv> 2"

definition MEMORY_ATTRIBUTE_MASK :: UINT64 where
  "MEMORY_ATTRIBUTE_MASK =
     EFI_RESOURCE_ATTRIBUTE_PRESENT OR EFI_RESOURCE_ATTRIBUTE_INITIALIZED OR EFI_RESOURCE_ATTRIBUTE_TESTED OR
     EFI_RESOURCE_ATTRIBUTE_READ_PROTECTED OR EFI_RESOURCE_ATTRIBUTE_WRITE_PROTECTED OR EFI_RESOURCE_ATTRIBUTE_EXECUTION_PROTECTED OR
     EFI_RESOURCE_ATTRIBUTE_READ_ONLY_PROTECTED OR EFI_RESOURCE_ATTRIBUTE_16_BIT_IO OR EFI_RESOURCE_ATTRIBUTE_32_BIT_IO OR
     EFI_RESOURCE_ATTRIBUTE_64_BIT_IO OR EFI_RESOURCE_ATTRIBUTE_PERSISTENT"

definition TESTED_MEMORY_ATTRIBUTES :: UINT64 where
  "TESTED_MEMORY_ATTRIBUTES = EFI_RESOURCE_ATTRIBUTE_PRESENT OR EFI_RESOURCE_ATTRIBUTE_INITIALIZED OR EFI_RESOURCE_ATTRIBUTE_TESTED"

definition INITIALIZED_MEMORY_ATTRIBUTES :: UINT64 where
  "INITIALIZED_MEMORY_ATTRIBUTES = EFI_RESOURCE_ATTRIBUTE_PRESENT OR EFI_RESOURCE_ATTRIBUTE_INITIALIZED"

abbreviation PRESENT_MEMORY_ATTRIBUTES :: UINT64 where "PRESENT_MEMORY_ATTRIBUTES \<equiv> EFI_RESOURCE_ATTRIBUTE_PRESENT"

text \<open>The memory type and the I/O type that the walk gives a resource descriptor.\<close>

definition resource_memory_type :: "UINT32 \<Rightarrow> UINT64 \<Rightarrow> UINT32" where
  "resource_memory_type ResourceType Attr =
     (if ResourceType = EFI_RESOURCE_SYSTEM_MEMORY
      then if Attr AND EFI_RESOURCE_ATTRIBUTE_PERSISTENT = EFI_RESOURCE_ATTRIBUTE_PERSISTENT then EfiGcdMemoryTypePersistent
           else if Attr AND MEMORY_ATTRIBUTE_MASK = PRESENT_MEMORY_ATTRIBUTES then EfiGcdMemoryTypeReserved
           else if Attr AND MEMORY_ATTRIBUTE_MASK = INITIALIZED_MEMORY_ATTRIBUTES then EfiGcdMemoryTypeReserved
           else if Attr AND MEMORY_ATTRIBUTE_MASK = TESTED_MEMORY_ATTRIBUTES
           then if Attr AND EFI_RESOURCE_ATTRIBUTE_MORE_RELIABLE = EFI_RESOURCE_ATTRIBUTE_MORE_RELIABLE
                then EfiGcdMemoryTypeMoreReliable else EfiGcdMemoryTypeSystemMemory
           else EfiGcdMemoryTypeNonExistent
      else if ResourceType = EFI_RESOURCE_MEMORY_MAPPED_IO \<or> ResourceType = EFI_RESOURCE_FIRMWARE_DEVICE then EfiGcdMemoryTypeMemoryMappedIo
      else if ResourceType = EFI_RESOURCE_MEMORY_MAPPED_IO_PORT \<or> ResourceType = EFI_RESOURCE_MEMORY_RESERVED then EfiGcdMemoryTypeReserved
      else EfiGcdMemoryTypeNonExistent)"

definition resource_io_type :: "UINT32 \<Rightarrow> UINT32" where
  "resource_io_type ResourceType =
     (if ResourceType = EFI_RESOURCE_IO then EfiGcdIoTypeIo
      else if ResourceType = EFI_RESOURCE_IO_RESERVED then EfiGcdIoTypeReserved else EfiGcdIoTypeNonExistent)"

section \<open>CoreInitializeGcdServices\<close>

text \<open>The first walk adds the resources of one HOB after the other.\<close>

fun add_resources :: "nat \<Rightarrow> 'v GCD_STATE notify \<Rightarrow> bool \<Rightarrow> cpu_answer \<Rightarrow> HOB list \<Rightarrow> 'v CORE \<Rightarrow> 'v CORE option" where
  "add_resources n notify Pool Cpu [] s = Some s"
| "add_resources n notify Pool Cpu (ResourceDescriptor ResourceType Attribute PhysicalStart ResourceLength # hobs) s =
     do {
       let Attr = ucast Attribute;
       let MemoryType = resource_memory_type ResourceType Attr;
       let IoType = resource_io_type ResourceType;
       s \<leftarrow> (if MemoryType \<noteq> EfiGcdMemoryTypeNonExistent
            then do {
              CoreValidateResourceDescriptorHobAttributes Attr;
              let Caps = CoreConvertResourceDescriptorHobAttributesToCapabilities MemoryType Attr;
              (Status, s) \<leftarrow> CoreInternalAddMemorySpace n notify Pool Cpu MemoryType PhysicalStart ResourceLength Caps s;
              Some s
            }
            else Some s);
       s \<leftarrow> (if IoType \<noteq> EfiGcdIoTypeNonExistent
            then do {
              (Status, s) \<leftarrow> CoreAddIoSpace n notify Pool Cpu IoType PhysicalStart ResourceLength s;
              Some s
            }
            else Some s);
       add_resources n notify Pool Cpu hobs s
     }"
| "add_resources n notify Pool Cpu (_ # hobs) s = add_resources n notify Pool Cpu hobs s"

text \<open>The second walk takes the memory that the allocation and firmware volume HOBs use. \<open>AddMemoryDescriptor\<close> and \<open>CoreHandle\<close> are as in CoreAddMemorySpace.\<close>

fun take_allocations ::
  "nat \<Rightarrow> 'v GCD_STATE notify \<Rightarrow> bool \<Rightarrow> (UINT32 \<Rightarrow> UINT64 \<Rightarrow> UINT64 \<Rightarrow> UINT64 \<Rightarrow> 'v CORE \<Rightarrow> 'v CORE) \<Rightarrow> UINT64 \<Rightarrow> HOB list \<Rightarrow> 'v CORE \<Rightarrow> 'v CORE option" where
  "take_allocations n notify Pool AddMemoryDescriptor CoreHandle [] s = Some s"
| "take_allocations n notify Pool AddMemoryDescriptor CoreHandle (MemoryAllocation MemoryType Base Len # hobs) s =
     do {
       (Status, d, s) \<leftarrow> CoreGetMemorySpaceDescriptor n notify Base True s;
       s \<leftarrow> (case d of
              None \<Rightarrow> Some s
            | Some Descriptor \<Rightarrow>
                do {
                  (Status, _, s) \<leftarrow> CoreAllocateMemorySpace n notify Pool EfiGcdAllocateAddress (MdMemoryType Descriptor) 0 Len (Some Base) CoreHandle 0 s;
                  Pages \<leftarrow> RShiftU64 Len EFI_PAGE_SHIFT;
                  Some (if \<not> EFI_ERROR Status \<and> (MdMemoryType Descriptor = EfiGcdMemoryTypeSystemMemory \<or> MdMemoryType Descriptor = EfiGcdMemoryTypeMoreReliable)
                        then AddMemoryDescriptor MemoryType Base Pages (MdCapabilities Descriptor AND NOT EFI_MEMORY_RUNTIME) s
                        else s)
                });
       take_allocations n notify Pool AddMemoryDescriptor CoreHandle hobs s
     }"
| "take_allocations n notify Pool AddMemoryDescriptor CoreHandle (FirmwareVolume Base Len # hobs) s =
     do {
       (Status, _, s) \<leftarrow> CoreAllocateMemorySpace n notify Pool EfiGcdAllocateAddress EfiGcdMemoryTypeMemoryMappedIo 0 Len (Some Base) CoreHandle 0 s;
       take_allocations n notify Pool AddMemoryDescriptor CoreHandle hobs s
     }"
| "take_allocations n notify Pool AddMemoryDescriptor CoreHandle (_ # hobs) s = take_allocations n notify Pool AddMemoryDescriptor CoreHandle hobs s"

text \<open>Adding the memory from \<open>Base\<close> of a descriptor to the memory services and taking it.\<close>

definition add_and_take ::
  "nat \<Rightarrow> 'v GCD_STATE notify \<Rightarrow> bool \<Rightarrow> (UINT32 \<Rightarrow> UINT64 \<Rightarrow> UINT64 \<Rightarrow> UINT64 \<Rightarrow> 'v CORE \<Rightarrow> 'v CORE) \<Rightarrow> UINT64
   \<Rightarrow> EFI_GCD_MEMORY_SPACE_DESCRIPTOR \<Rightarrow> UINT64 \<Rightarrow> UINT64 \<Rightarrow> 'v CORE \<Rightarrow> 'v CORE option" where
  "add_and_take n notify Pool AddMemoryDescriptor CoreHandle d Base Len s =
     do {
       Pages \<leftarrow> RShiftU64 Len EFI_PAGE_SHIFT;
       let s = AddMemoryDescriptor EfiConventionalMemory Base Pages (MdCapabilities d AND NOT EFI_MEMORY_RUNTIME) s;
       (Status, _, s) \<leftarrow> CoreAllocateMemorySpace n notify Pool EfiGcdAllocateAddress (MdMemoryType d) 0 Len (Some Base) CoreHandle 0 s;
       Some s
     }"

text \<open>The third loop, over the descriptors of free system memory; the one that covers the list of HOBs is kept for later.\<close>

fun add_free_memory ::
  "nat \<Rightarrow> 'v GCD_STATE notify \<Rightarrow> bool \<Rightarrow> (UINT32 \<Rightarrow> UINT64 \<Rightarrow> UINT64 \<Rightarrow> UINT64 \<Rightarrow> 'v CORE \<Rightarrow> 'v CORE) \<Rightarrow> UINT64 \<Rightarrow> UINT64 \<Rightarrow> UINT64
   \<Rightarrow> EFI_GCD_MEMORY_SPACE_DESCRIPTOR list \<Rightarrow> EFI_GCD_MEMORY_SPACE_DESCRIPTOR option \<Rightarrow> 'v CORE
   \<Rightarrow> (EFI_GCD_MEMORY_SPACE_DESCRIPTOR option \<times> 'v CORE) option" where
  "add_free_memory n notify Pool AddMemoryDescriptor CoreHandle HobStart FreeBottom [] hold s = Some (hold, s)"
| "add_free_memory n notify Pool AddMemoryDescriptor CoreHandle HobStart FreeBottom (d # ds) hold s =
     (if (MdMemoryType d = EfiGcdMemoryTypeSystemMemory \<or> MdMemoryType d = EfiGcdMemoryTypeMoreReliable) \<and> MdImageHandle d = 0
      then do {
        Base \<leftarrow> PageAlignAddress (MdBaseAddress d);
        Len \<leftarrow> PageAlignLength (MdBaseAddress d + MdLength d - Base);
        if Len = 0 \<or> MdBaseAddress d + MdLength d < Base
        then add_free_memory n notify Pool AddMemoryDescriptor CoreHandle HobStart FreeBottom ds hold s
        else if MdBaseAddress d \<le> HobStart \<and> MdBaseAddress d + MdLength d \<ge> FreeBottom
        then add_free_memory n notify Pool AddMemoryDescriptor CoreHandle HobStart FreeBottom ds (Some d) s
        else do {
          s \<leftarrow> add_and_take n notify Pool AddMemoryDescriptor CoreHandle d Base Len s;
          add_free_memory n notify Pool AddMemoryDescriptor CoreHandle HobStart FreeBottom ds hold s
        }
      }
      else add_free_memory n notify Pool AddMemoryDescriptor CoreHandle HobStart FreeBottom ds hold s)"

definition mGcdMemorySpaceMapEntryTemplate :: EFI_GCD_MAP_ENTRY where
  "mGcdMemorySpaceMapEntryTemplate =
     \<lparr>BaseAddress = 0, EndAddress = 0, Capabilities = 0, GcdAttributes = 0, GcdMemoryType = EfiGcdMemoryTypeNonExistent, GcdIoType = 0,
      GcdImageHandle = 0, GcdDeviceHandle = 0\<rparr>"

definition mGcdIoSpaceMapEntryTemplate :: EFI_GCD_MAP_ENTRY where
  "mGcdIoSpaceMapEntryTemplate =
     \<lparr>BaseAddress = 0, EndAddress = 0, Capabilities = 0, GcdAttributes = 0, GcdMemoryType = 0, GcdIoType = EfiGcdIoTypeNonExistent,
      GcdImageHandle = 0, GcdDeviceHandle = 0\<rparr>"

text \<open>
  \<open>Phit\<close> and \<open>CpuHob\<close> (the sizes of memory and I/O space in bits) are the HOBs of their own; \<open>NewHobList\<close> is the buffer that the list is copied to, 0 if none
  can be allocated, and becomes both *HobStart and gHobList, the second result. \<open>Pool\<close> is for all the allocations of entries.
\<close>

definition CoreInitializeGcdServices ::
  "nat \<Rightarrow> nat \<Rightarrow> 'v GCD_STATE notify \<Rightarrow> bool \<Rightarrow> cpu_answer \<Rightarrow> (UINT32 \<Rightarrow> UINT64 \<Rightarrow> UINT64 \<Rightarrow> UINT64 \<Rightarrow> 'v CORE \<Rightarrow> 'v CORE)
   \<Rightarrow> (UINTN \<Rightarrow> 'v CORE \<Rightarrow> bool \<times> 'v CORE) \<Rightarrow> ('v CORE \<Rightarrow> 'v CORE) \<Rightarrow> UINT64 \<Rightarrow> UINT64 \<Rightarrow> UINT64 \<Rightarrow> PHIT \<Rightarrow> (UINT8 \<times> UINT8) option \<Rightarrow> HOB list
   \<Rightarrow> UINT64 \<Rightarrow> UINT64 \<Rightarrow> 'v CORE \<Rightarrow> (EFI_STATUS \<times> UINT64 \<times> 'v CORE) option" where
  "CoreInitializeGcdServices k n notify Pool Cpu AddMemoryDescriptor AllocatePool FreePool CoreHandle NewHobList HobStart Phit CpuHob Hobs
     MemoryBaseAddress MemoryLength s =
     do {
       (SizeOfMemorySpace, SizeOfIoSpace) \<leftarrow> CpuHob;
       ASSERT Pool;
       b \<leftarrow> LShiftU64 1 (ucast SizeOfMemorySpace);
       let s = s\<lparr>world := (world s)\<lparr>mGcdMemorySpaceMap := mGcdMemorySpaceMapEntryTemplate\<lparr>EndAddress := b - 1\<rparr> # mGcdMemorySpaceMap (world s)\<rparr>\<rparr>;
       b \<leftarrow> LShiftU64 1 (ucast SizeOfIoSpace);
       let s = s\<lparr>world := (world s)\<lparr>mGcdIoSpaceMap := mGcdIoSpaceMapEntryTemplate\<lparr>EndAddress := b - 1\<rparr> # mGcdIoSpaceMap (world s)\<rparr>\<rparr>;
       s \<leftarrow> add_resources n notify Pool Cpu Hobs s;
       (Status, d, s) \<leftarrow> CoreGetMemorySpaceDescriptor n notify MemoryBaseAddress True s;
       s \<leftarrow> (case d of
              None \<Rightarrow> Some s
            | Some Descriptor \<Rightarrow>
                do {
                  ASSERT (MdMemoryType Descriptor = EfiGcdMemoryTypeSystemMemory \<or> MdMemoryType Descriptor = EfiGcdMemoryTypeMoreReliable);
                  (Status, _, s) \<leftarrow> CoreAllocateMemorySpace n notify Pool EfiGcdAllocateAddress (MdMemoryType Descriptor) 0 MemoryLength
                    (Some MemoryBaseAddress) CoreHandle 0 s;
                  Some s
                });
       s \<leftarrow> take_allocations n notify Pool AddMemoryDescriptor CoreHandle Hobs s;
       (Status, Number, Descriptors, s) \<leftarrow> CoreGetMemorySpaceMap k n notify AllocatePool FreePool True True s;
       ASSERT (Status = EFI_SUCCESS);
       (hold, s) \<leftarrow> add_free_memory n notify Pool AddMemoryDescriptor CoreHandle HobStart (EfiFreeMemoryBottom Phit) (the Descriptors) None s;
       ASSERT (NewHobList \<noteq> 0);
       s \<leftarrow> (case hold of
              None \<Rightarrow> Some s
            | Some d \<Rightarrow>
                do {
                  Base \<leftarrow> PageAlignAddress (MdBaseAddress d);
                  Len \<leftarrow> PageAlignLength (MdBaseAddress d + MdLength d - Base);
                  add_and_take n notify Pool AddMemoryDescriptor CoreHandle d Base Len s
                });
       Some (EFI_SUCCESS, NewHobList, FreePool s)
     }"

section \<open>The invariant of the maps\<close>

text \<open>Both maps tile their spaces and are merged, and the services can be called.\<close>

definition gcd_maps :: "nat \<Rightarrow> nat \<Rightarrow> 'v CORE \<Rightarrow> bool" where
  "gcd_maps M I s \<longleftrightarrow> gcd_ready s \<and> tiles 0 (mGcdMemorySpaceMap (world s)) M \<and> merged (mGcdMemorySpaceMap (world s))
     \<and> tiles 0 (mGcdIoSpaceMap (world s)) I \<and> merged (mGcdIoSpaceMap (world s))"

lemma gcd_maps_put:
  assumes s: "gcd_maps M I s" and op: "memory_operation Operation \<or> io_operation Operation" and t: "gcd_ready t" "view t = view (put_gcd_map Operation (gcd_map Operation t) s)"
    and m: "tiles 0 (gcd_map Operation t) (if memory_operation Operation then M else I)" "merged (gcd_map Operation t)"
  shows "gcd_maps M I t"
proof -
  have w: "world t = world (put_gcd_map Operation (gcd_map Operation t) s)" using view_eqD(5)[OF t(2)] .
  show ?thesis
  proof (cases "memory_operation Operation")
    case True
    then have "world t = (world s)\<lparr>mGcdMemorySpaceMap := gcd_map Operation t\<rparr>" using w by (simp add: put_gcd_map_def memory_operation_def)
    then show ?thesis using s t(1) m True by (simp add: gcd_maps_def)
  next
    case False
    then have io: "io_operation Operation" using op by simp
    then have "world t = (world s)\<lparr>mGcdIoSpaceMap := gcd_map Operation t\<rparr>" using w by (simp add: put_gcd_map_def io_operation_def)
    then show ?thesis using s t(1) m False by (simp add: gcd_maps_def)
  qed
qed

lemma gcd_maps_at:
  assumes "gcd_maps M I s" "memory_operation Operation \<or> io_operation Operation"
  shows "tiles 0 (gcd_map Operation s) (if memory_operation Operation then M else I)" "merged (gcd_map Operation s)"
  using assms by (auto simp: gcd_maps_def gcd_map_def memory_operation_def io_operation_def)

lemma convert_keeps:
  assumes s: "gcd_maps M I s" and n: "2 \<le> n" and op: "memory_operation Operation \<or> io_operation Operation" and nowrap: "unat Base + unat Len \<le> 2 ^ 64"
  obtains st t where "CoreConvertSpace n notify Pool Cpu Operation MemoryType IoType Base Len Caps Attr s = Some (st, t)" "gcd_maps M I t"
proof -
  have r: "gcd_ready s" using s by (simp add: gcd_maps_def)
  note m = gcd_maps_at[OF s op]
  show thesis
  proof (rule convert_space_runs[where notify = notify and MemoryType = MemoryType and IoType = IoType and Pool = Pool and Cpu = Cpu and Caps = Caps and Attr = Attr,
        OF r n op m(1) nowrap refl], goal_cases)
    case (1 t)
    then show ?case using that gcd_maps_put[OF s op 1(8,7,2)] m(2) by blast
  qed
qed

lemma allocate_address_keeps:
  assumes s: "gcd_maps M I s" and n: "2 \<le> n" and M: "0 < M" "M \<le> 2 ^ 63" and len: "unat Len < 2 ^ 63"
  obtains st B t where "CoreAllocateMemorySpace n notify Pool EfiGcdAllocateAddress MemoryType Alignment Len (Some Base) ImageHandle DeviceHandle s = Some (st, Some B, t)"
    "gcd_maps M I t"
proof (cases "MemoryType \<ge> EfiGcdMemoryTypeMaximum \<or> ImageHandle = 0 \<or> Alignment \<ge> 64 \<or> Len = 0")
  case True
  then obtain st where "CoreAllocateSpace n notify Pool GCD_ALLOCATE_MEMORY_OPERATION EfiGcdAllocateAddress MemoryType 0 Alignment Len (Some Base) ImageHandle DeviceHandle s
      = Some (st, Some Base, s)"
    using allocate_space_refused[of EfiGcdAllocateAddress MemoryType 0 "Some Base" ImageHandle Alignment Len] by metis
  then show thesis using that s by (simp add: CoreAllocateMemorySpace_def)
next
  case False
  let ?op = GCD_ALLOCATE_MEMORY_OPERATION
  have op: "memory_operation ?op" by (simp add: memory_operation_def)
  have r: "gcd_ready s" "tiles 0 (gcd_map ?op s) M" "merged (gcd_map ?op s)" using s by (simp_all add: gcd_maps_def gcd_map_def)
  have args: "(2 :: UINT32) < EfiGcdMaxAllocateType" "MemoryType < EfiGcdMemoryTypeMaximum" "(0 :: UINT32) < EfiGcdIoTypeMaximum" "ImageHandle \<noteq> 0" "Alignment < 64" "Len \<noteq> 0"
    using False by (simp_all add: not_le)
  obtain st B t where t: "CoreAllocateSpace n notify Pool ?op EfiGcdAllocateAddress MemoryType 0 Alignment Len (Some Base) ImageHandle DeviceHandle s = Some (st, Some B, t)"
    "tiles 0 (gcd_map ?op t) M" "merged (gcd_map ?op s) \<longrightarrow> merged (gcd_map ?op t)" "view t = view (put_gcd_map ?op (gcd_map ?op t) s)" "gcd_ready t"
    using allocate_space_runs[where Operation = ?op and notify = notify and Pool = Pool and Base = Base and DeviceHandle = DeviceHandle, OF r(1) n _ _ r(2) M args len] by auto
  have "gcd_maps M I t" by (rule gcd_maps_put[OF s _ t(5,4)]) (use op t(2,3) r(3) in auto)
  then show thesis using that t(1) by (simp add: CoreAllocateMemorySpace_def)
qed

text \<open>Sections that only read.\<close>

lemma acquired_world: "(acquired l s)\<lparr>world := world s\<rparr> = acquired l s"
  by (simp add: acquired_def at_level_def)

lemma gcd_maps_view:
  assumes "gcd_maps M I s" "gcd_ready t" "view t = view (s\<lparr>world := world s\<rparr>)"
  shows "gcd_maps M I t" "world t = world s"
  using assms view_eqD(5)[OF assms(3)] by (simp_all add: gcd_maps_def)

lemma descriptor_exact:
  assumes s: "gcd_maps M I s" and n: "2 \<le> n" and M: "M \<le> 2 ^ 64"
  obtains t where "CoreGetMemorySpaceDescriptor n notify Base True s =
      Some (if unat Base < M then EFI_SUCCESS else EFI_NOT_FOUND,
        map_option BuildMemoryDescriptor (find (holds_address (unat Base)) (mGcdMemorySpaceMap (world s))), t)" "gcd_maps M I t" "world t = world s"
proof -
  let ?m = "mGcdMemorySpaceMap (world s)"
  have r: "gcd_ready s" and m: "tiles 0 ?m M" using s by (simp_all add: gcd_maps_def)
  obtain t where t: "CoreReleaseLock n notify mGcdMemorySpaceLock (acquired mGcdMemorySpaceLock s) = Some t" "view t = view (s\<lparr>world := world s\<rparr>)" "gcd_ready t"
    by (rule memory.release[OF r n, of notify "world s", unfolded acquired_world])
  note g = gcd_maps_view[OF s t(3,2)]
  have nw: "unat Base + unat (1 :: UINT64) \<le> 2 ^ 64" using unat_less_power[of Base] by simp
  show thesis
  proof (cases "unat Base < M")
    case True
    then obtain bf es af where sr: "CoreSearchGcdMapEntry Base 1 ?m = Some (EFI_SUCCESS, bf, es, af)" "?m = bf @ es @ af" and ra: "range_of_map 0 M Base 1 bf es af"
      using range_searched[OF m, of Base 1] by auto
    have h: "holds_address (unat Base) (hd es)" "es \<noteq> []" using ra by (auto simp: range_of_map_def)
    obtain j where "tiles 0 bf j" "tiles j (es @ af) M" using m sr(2) by (auto simp: tiles_append)
    moreover have "j \<le> unat (BaseAddress (hd es))" using calculation(2) h(2) by (cases es) auto
    ultimately have "\<not> holds_address (unat Base) e" if "e \<in> set bf" for e using tiles_above[of 0 bf j e] that h(1) by (auto simp: not_le)
    then have "find (holds_address (unat Base)) bf = None" by (auto simp: find_None_iff)
    then have f: "find (holds_address (unat Base)) ?m = Some (hd es)" unfolding sr(2) using h by (cases es) (simp_all add: find_append)
    have "CoreGetMemorySpaceDescriptor n notify Base True s = Some (EFI_SUCCESS, Some (BuildMemoryDescriptor (hd es)), t)"
      using memory.acquire[OF r] sr(1) t(1) by (simp add: CoreGetMemorySpaceDescriptor_def CoreAcquireGcdMemoryLock_def CoreReleaseGcdMemoryLock_def)
    then show thesis using that g f True by simp
  next
    case False
    have "find (holds_address (unat Base)) ?m = None" using space_out[OF m, of "unat Base"] False by (auto simp: space_def)
    moreover have "CoreSearchGcdMapEntry Base 1 ?m = Some (EFI_NOT_FOUND, [], [], [])" by (rule search_outside[OF m _ nw]) (use False in auto)
    ultimately have "CoreGetMemorySpaceDescriptor n notify Base True s = Some (EFI_NOT_FOUND, None, t)"
      using memory.acquire[OF r] t(1) by (simp add: CoreGetMemorySpaceDescriptor_def CoreAcquireGcdMemoryLock_def CoreReleaseGcdMemoryLock_def)
    then show thesis using that g False \<open>find _ ?m = None\<close> by simp
  qed
qed

text \<open>The pool services as the initialisation uses them: they succeed, and neither touches the maps.\<close>

definition pool_keeps :: "nat \<Rightarrow> nat \<Rightarrow> (UINTN \<Rightarrow> 'v CORE \<Rightarrow> bool \<times> 'v CORE) \<Rightarrow> ('v CORE \<Rightarrow> 'v CORE) \<Rightarrow> bool" where
  "pool_keeps M I AllocatePool FreePool \<longleftrightarrow>
     (\<forall>c s. gcd_maps M I s \<longrightarrow> fst (AllocatePool c s) \<and> gcd_maps M I (snd (AllocatePool c s)) \<and> world (snd (AllocatePool c s)) = world s \<and> gcd_maps M I (FreePool s))"

lemma memory_map_exact:
  assumes s: "gcd_maps M I s" and n: "2 \<le> n" and pool: "pool_keeps M I AllocatePool FreePool" and k: "2 \<le> k"
  obtains t where "CoreGetMemorySpaceMap k n notify AllocatePool FreePool True True s =
      Some (EFI_SUCCESS, of_nat (length (mGcdMemorySpaceMap (world s))), Some (map BuildMemoryDescriptor (mGcdMemorySpaceMap (world s))), t)"
    "gcd_maps M I t" "world t = world s"
proof -
  obtain j where j: "k = Suc (Suc j)" using k by (metis add_2_eq_Suc le_iff_add)
  let ?c = "CoreCountGcdMapEntry (mGcdMemorySpaceMap (world s))"
  have r: "gcd_ready s" using s by (simp add: gcd_maps_def)
  obtain t where t: "CoreReleaseLock n notify mGcdMemorySpaceLock (acquired mGcdMemorySpaceLock s) = Some t" "view t = view (s\<lparr>world := world s\<rparr>)" "gcd_ready t"
    by (rule memory.release[OF r n, of notify "world s", unfolded acquired_world])
  note gt = gcd_maps_view[OF s t(3,2)]
  obtain u where u: "AllocatePool ?c t = (True, u)" "gcd_maps M I u" "world u = world s"
  proof -
    have "fst (AllocatePool ?c t)" "gcd_maps M I (snd (AllocatePool ?c t))" "world (snd (AllocatePool ?c t)) = world s"
      using pool gt unfolding pool_keeps_def by metis+
    then show thesis using that[of "snd (AllocatePool ?c t)"] by (simp add: prod_eq_iff)
  qed
  have ru: "gcd_ready u" using u(2) by (simp add: gcd_maps_def)
  obtain v where v: "CoreReleaseLock n notify mGcdMemorySpaceLock (acquired mGcdMemorySpaceLock u) = Some v" "view v = view (u\<lparr>world := world u\<rparr>)" "gcd_ready v"
    by (rule memory.release[OF ru n, of notify "world u", unfolded acquired_world])
  note gv = gcd_maps_view[OF u(2) v(3,2)]
  have "CoreGetMemorySpaceMap k n notify AllocatePool FreePool True True s =
      Some (EFI_SUCCESS, ?c, Some (map BuildMemoryDescriptor (mGcdMemorySpaceMap (world s))), v)"
    using memory.acquire[OF r] memory.acquire[OF ru] t(1) u(1,3) v(1)
    by (simp add: CoreGetMemorySpaceMap_def j CoreAcquireGcdMemoryLock_def CoreReleaseGcdMemoryLock_def)
  then show thesis using that gv u(3) by (simp add: CoreCountGcdMapEntry_def)
qed

section \<open>Initialisation establishes the invariant\<close>

text \<open>
  HOBs as a platform should report them: ranges that do not wrap around, lengths below half of the address space, and protections only where they can
  be switched.
\<close>

fun sound_hob :: "HOB \<Rightarrow> bool" where
  "sound_hob (ResourceDescriptor ty attr b l) \<longleftrightarrow> unat b + unat l \<le> 2 ^ 64
     \<and> (resource_memory_type ty (ucast attr) = EfiGcdMemoryTypeNonExistent \<or> CoreValidateResourceDescriptorHobAttributes (ucast attr) = Some ())"
| "sound_hob (MemoryAllocation ty b l) \<longleftrightarrow> unat l < 2 ^ 63"
| "sound_hob (FirmwareVolume b l) \<longleftrightarrow> unat l < 2 ^ 63"
| "sound_hob OtherHob \<longleftrightarrow> True"

lemma add_memory_keeps:
  assumes "gcd_maps M I s" "2 \<le> n" "unat Base + unat Len \<le> 2 ^ 64"
  obtains st t where "CoreInternalAddMemorySpace n notify Pool Cpu MemoryType Base Len Caps s = Some (st, t)" "gcd_maps M I t"
proof (cases "MemoryType \<le> EfiGcdMemoryTypeNonExistent \<or> MemoryType \<ge> EfiGcdMemoryTypeMaximum")
  case True
  then show thesis using that assms(1) by (simp add: CoreInternalAddMemorySpace_def)
next
  case False
  then have eq: "CoreInternalAddMemorySpace n notify Pool Cpu MemoryType Base Len Caps s =
      CoreConvertSpace n notify Pool Cpu GCD_ADD_MEMORY_OPERATION MemoryType 0 Base Len Caps 0 s" by (simp add: CoreInternalAddMemorySpace_def)
  have op: "memory_operation GCD_ADD_MEMORY_OPERATION \<or> io_operation GCD_ADD_MEMORY_OPERATION" by (simp add: memory_operation_def)
  show thesis by (rule convert_keeps[OF assms(1,2) op assms(3)], rule that) (simp_all add: eq)
qed

lemma add_io_keeps:
  assumes "gcd_maps M I s" "2 \<le> n" "unat Base + unat Len \<le> 2 ^ 64"
  obtains st t where "CoreAddIoSpace n notify Pool Cpu IoType Base Len s = Some (st, t)" "gcd_maps M I t"
proof (cases "IoType \<le> EfiGcdIoTypeNonExistent \<or> IoType \<ge> EfiGcdIoTypeMaximum")
  case True
  then show thesis using that assms(1) by (simp add: CoreAddIoSpace_def)
next
  case False
  then have eq: "CoreAddIoSpace n notify Pool Cpu IoType Base Len s = CoreConvertSpace n notify Pool Cpu GCD_ADD_IO_OPERATION 0 IoType Base Len 0 0 s"
    by (simp add: CoreAddIoSpace_def)
  have op: "memory_operation GCD_ADD_IO_OPERATION \<or> io_operation GCD_ADD_IO_OPERATION" by (simp add: io_operation_def)
  show thesis by (rule convert_keeps[OF assms(1,2) op assms(3)], rule that) (simp_all add: eq)
qed

lemma add_resources_keeps:
  assumes "gcd_maps M I s" "2 \<le> n" "\<forall>h\<in>set hobs. sound_hob h"
  shows "\<exists>t. add_resources n notify Pool Cpu hobs s = Some t \<and> gcd_maps M I t"
  using assms
proof (induction hobs arbitrary: s)
  case (Cons h hobs)
  show ?case
  proof (cases h)
    case (ResourceDescriptor ty attr b l)
    let ?mt = "resource_memory_type ty (ucast attr)" and ?it = "resource_io_type ty"
    have nw: "unat b + unat l \<le> 2 ^ 64" and val: "?mt = EfiGcdMemoryTypeNonExistent \<or> CoreValidateResourceDescriptorHobAttributes (ucast attr) = Some ()"
      using Cons.prems(3) ResourceDescriptor by auto
    obtain st u where u: "CoreInternalAddMemorySpace n notify Pool Cpu ?mt b l
        (CoreConvertResourceDescriptorHobAttributesToCapabilities ?mt (ucast attr)) s = Some (st, u)" "gcd_maps M I u"
      by (rule add_memory_keeps[OF Cons.prems(1,2) nw])
    define u' where "u' = (if ?mt \<noteq> EfiGcdMemoryTypeNonExistent then u else s)"
    have gu: "gcd_maps M I u'" using u(2) Cons.prems(1) by (simp add: u'_def)
    obtain st' v where v: "CoreAddIoSpace n notify Pool Cpu ?it b l u' = Some (st', v)" "gcd_maps M I v" by (rule add_io_keeps[OF gu Cons.prems(2) nw])
    define v' where "v' = (if ?it \<noteq> EfiGcdIoTypeNonExistent then v else u')"
    have gv: "gcd_maps M I v'" using v(2) gu by (simp add: v'_def)
    obtain t where t: "add_resources n notify Pool Cpu hobs v' = Some t" "gcd_maps M I t" using Cons.IH[OF gv Cons.prems(2)] Cons.prems(3) by auto
    have "add_resources n notify Pool Cpu (h # hobs) s = Some t"
      using val u(1) v(1) t(1) unfolding ResourceDescriptor by (auto simp: u'_def v'_def Let_def)
    then show ?thesis using t(2) by blast
  qed (use Cons in auto)
qed simp

text \<open>CoreAddMemoryDescriptor as the initialisation uses it: it keeps the invariant of the maps.\<close>

definition descriptor_keeps :: "nat \<Rightarrow> nat \<Rightarrow> (UINT32 \<Rightarrow> UINT64 \<Rightarrow> UINT64 \<Rightarrow> UINT64 \<Rightarrow> 'v CORE \<Rightarrow> 'v CORE) \<Rightarrow> bool" where
  "descriptor_keeps M I AddMemoryDescriptor \<longleftrightarrow> (\<forall>ty a p c s. gcd_maps M I s \<longrightarrow> gcd_maps M I (AddMemoryDescriptor ty a p c s))"

lemma pages_shift: "RShiftU64 Len EFI_PAGE_SHIFT = Some (drop_bit 12 Len)"
  by (simp add: RShiftU64_def InternalMathRShiftU64_def)

lemma take_allocations_keeps:
  assumes "gcd_maps M I s" "2 \<le> n" "0 < M" "M \<le> 2 ^ 63" "descriptor_keeps M I AddMemoryDescriptor" "\<forall>h\<in>set hobs. sound_hob h"
  shows "\<exists>t. take_allocations n notify Pool AddMemoryDescriptor CoreHandle hobs s = Some t \<and> gcd_maps M I t"
  using assms(1,6)
proof (induction hobs arbitrary: s)
  case (Cons h hobs)
  have IH: "\<exists>t. take_allocations n notify Pool AddMemoryDescriptor CoreHandle hobs u = Some t \<and> gcd_maps M I t" if "gcd_maps M I u" for u
    using Cons.IH[OF that] Cons.prems(2) by simp
  note alloc = allocate_address_keeps[OF _ assms(2-4)]
  show ?case
  proof (cases h)
    case (MemoryAllocation ty b l)
    then have len: "unat l < 2 ^ 63" using Cons.prems(2) by simp
    have M64: "M \<le> 2 ^ 64" using assms(4) by simp
    obtain st d u where u: "CoreGetMemorySpaceDescriptor n notify b True s = Some (st, d, u)" "gcd_maps M I u"
      by (rule descriptor_exact[OF Cons.prems(1) assms(2) M64, of notify b]) blast
    show ?thesis
    proof (cases d)
      case None
      then show ?thesis using IH[OF u(2)] u(1) unfolding MemoryAllocation by simp
    next
      case (Some D)
      obtain st' B v where v: "CoreAllocateMemorySpace n notify Pool EfiGcdAllocateAddress (MdMemoryType D) 0 l (Some b) CoreHandle 0 u = Some (st', Some B, v)" "gcd_maps M I v"
        by (rule alloc[OF u(2) len])
      let ?w = "if \<not> EFI_ERROR st' \<and> (MdMemoryType D = EfiGcdMemoryTypeSystemMemory \<or> MdMemoryType D = EfiGcdMemoryTypeMoreReliable)
        then AddMemoryDescriptor ty b (drop_bit 12 l) (MdCapabilities D AND NOT EFI_MEMORY_RUNTIME) v else v"
      have "gcd_maps M I ?w" using v(2) assms(5) by (simp add: descriptor_keeps_def)
      then obtain t where "take_allocations n notify Pool AddMemoryDescriptor CoreHandle hobs ?w = Some t" "gcd_maps M I t" using IH by blast
      then show ?thesis using u(1) v(1) Some unfolding MemoryAllocation by (simp add: pages_shift)
    qed
  next
    case (FirmwareVolume b l)
    then have len: "unat l < 2 ^ 63" using Cons.prems(2) by simp
    obtain st' B v where v: "CoreAllocateMemorySpace n notify Pool EfiGcdAllocateAddress EfiGcdMemoryTypeMemoryMappedIo 0 l (Some b) CoreHandle 0 s = Some (st', Some B, v)"
      "gcd_maps M I v" by (rule alloc[OF Cons.prems(1) len])
    then show ?thesis using IH[OF v(2)] unfolding FirmwareVolume by simp
  qed (use IH[OF Cons.prems(1)] in simp_all)
qed simp

lemma add_and_take_keeps:
  assumes "gcd_maps M I s" "2 \<le> n" "0 < M" "M \<le> 2 ^ 63" "descriptor_keeps M I AddMemoryDescriptor" "unat Len < 2 ^ 63"
  shows "\<exists>t. add_and_take n notify Pool AddMemoryDescriptor CoreHandle d Base Len s = Some t \<and> gcd_maps M I t"
proof -
  let ?u = "AddMemoryDescriptor EfiConventionalMemory Base (drop_bit 12 Len) (MdCapabilities d AND NOT EFI_MEMORY_RUNTIME) s"
  have u: "gcd_maps M I ?u" using assms(1,5) by (simp add: descriptor_keeps_def)
  obtain st B v where "CoreAllocateMemorySpace n notify Pool EfiGcdAllocateAddress (MdMemoryType d) 0 Len (Some Base) CoreHandle 0 ?u = Some (st, Some B, v)" "gcd_maps M I v"
    by (rule allocate_address_keeps[OF u assms(2-4,6)])
  then show ?thesis by (simp add: add_and_take_def pages_shift)
qed

text \<open>The page range inside a descriptor.\<close>

definition small_descriptor :: "EFI_GCD_MEMORY_SPACE_DESCRIPTOR \<Rightarrow> bool" where
  "small_descriptor d \<longleftrightarrow> unat (MdBaseAddress d) + unat (MdLength d) \<le> 2 ^ 62"

lemma page_range:
  assumes "small_descriptor d"
  obtains Base Len where "PageAlignAddress (MdBaseAddress d) = Some Base" "PageAlignLength (MdBaseAddress d + MdLength d - Base) = Some Len"
    "MdBaseAddress d + MdLength d < Base \<or> unat Len < 2 ^ 63"
proof -
  have sh: "LShiftU64 1 EFI_PAGE_SHIFT = Some 0x1000" by (simp add: LShiftU64_def InternalMathLShiftU64_def)
  define Base where "Base = (MdBaseAddress d + 0xFFF) AND NOT 0xFFF"
  define Len where "Len = (MdBaseAddress d + MdLength d - Base) AND NOT 0xFFF"
  have e: "unat (MdBaseAddress d + MdLength d) = unat (MdBaseAddress d) + unat (MdLength d)" using assms by (simp add: small_descriptor_def unat_word_ariths)
  have "unat Len < 2 ^ 63" if "\<not> MdBaseAddress d + MdLength d < Base"
  proof -
    have "unat (MdBaseAddress d + MdLength d - Base) \<le> unat (MdBaseAddress d + MdLength d)" using that by (simp add: unat_sub not_less)
    moreover have "unat Len \<le> unat (MdBaseAddress d + MdLength d - Base)" using align_down[of 12 "MdBaseAddress d + MdLength d - Base", unfolded page_mask] by (simp add: Len_def)
    ultimately show ?thesis using e assms by (simp add: small_descriptor_def)
  qed
  then show thesis using that[of Base Len] by (auto simp: PageAlignAddress_def PageAlignLength_def AlignValue_def sh Base_def Len_def)
qed

lemma add_free_memory_keeps:
  assumes "gcd_maps M I s" "2 \<le> n" "0 < M" "M \<le> 2 ^ 63" "descriptor_keeps M I AddMemoryDescriptor" "\<forall>d\<in>set ds. small_descriptor d"
    "\<And>d Base. hold = Some d \<Longrightarrow> small_descriptor d \<and> (PageAlignAddress (MdBaseAddress d) = Some Base \<longrightarrow> \<not> MdBaseAddress d + MdLength d < Base)"
  shows "\<exists>hold' t. add_free_memory n notify Pool AddMemoryDescriptor CoreHandle HobStart FreeBottom ds hold s = Some (hold', t) \<and> gcd_maps M I t
    \<and> (\<forall>d Base. hold' = Some d \<longrightarrow> small_descriptor d \<and> (PageAlignAddress (MdBaseAddress d) = Some Base \<longrightarrow> \<not> MdBaseAddress d + MdLength d < Base))"
  using assms(1,6,7)
proof (induction ds arbitrary: s hold)
  case (Cons d ds)
  obtain Base Len where p: "PageAlignAddress (MdBaseAddress d) = Some Base" "PageAlignLength (MdBaseAddress d + MdLength d - Base) = Some Len"
    "MdBaseAddress d + MdLength d < Base \<or> unat Len < 2 ^ 63" using page_range[of d] Cons.prems(2) by (metis list.set_intros(1))
  have small: "\<forall>d\<in>set ds. small_descriptor d" "small_descriptor d" using Cons.prems(2) by simp_all
  let ?loop = "add_free_memory n notify Pool AddMemoryDescriptor CoreHandle HobStart FreeBottom"
  let ?sys = "(MdMemoryType d = EfiGcdMemoryTypeSystemMemory \<or> MdMemoryType d = EfiGcdMemoryTypeMoreReliable) \<and> MdImageHandle d = 0"
  let ?none = "Len = 0 \<or> MdBaseAddress d + MdLength d < Base" and ?hob = "MdBaseAddress d \<le> HobStart \<and> MdBaseAddress d + MdLength d \<ge> FreeBottom"
  have step: "?loop (d # ds) hold s = (if ?sys then if ?none then ?loop ds hold s else if ?hob then ?loop ds (Some d) s
      else do { s \<leftarrow> add_and_take n notify Pool AddMemoryDescriptor CoreHandle d Base Len s; ?loop ds hold s } else ?loop ds hold s)"
    by (simp add: p(1,2))
  consider (skip) "\<not> ?sys \<or> ?none" | (hob) ?sys "\<not> ?none" ?hob | (take) ?sys "\<not> ?none" "\<not> ?hob" by blast
  then show ?case
  proof cases
    case skip
    have eq: "?loop (d # ds) hold s = ?loop ds hold s" unfolding step using skip by auto
    show ?thesis unfolding eq by (rule Cons.IH[OF Cons.prems(1) small(1) Cons.prems(3)])
  next
    case hob
    have eq: "?loop (d # ds) hold s = ?loop ds (Some d) s" unfolding step using hob by simp
    show ?thesis unfolding eq by (rule Cons.IH[OF Cons.prems(1) small(1)]) (use hob(2) p(1) small(2) in auto)
  next
    case take
    obtain u where u: "add_and_take n notify Pool AddMemoryDescriptor CoreHandle d Base Len s = Some u" "gcd_maps M I u"
      using add_and_take_keeps[OF Cons.prems(1) assms(2-5), of Len] p(3) take(2) by blast
    have eq: "?loop (d # ds) hold s = ?loop ds hold u" unfolding step u(1) using take by auto
    show ?thesis unfolding eq by (rule Cons.IH[OF u(2) small(1) Cons.prems(3)])
  qed
qed simp

lemma build_descriptor_small:
  assumes "tiles 0 m M" "M \<le> 2 ^ 62" "d \<in> set (map BuildMemoryDescriptor m)"
  shows "small_descriptor d"
proof -
  obtain e where e: "e \<in> set m" "d = BuildMemoryDescriptor e" using assms(3) by auto
  obtain i where "i < length m" "m ! i = e" using e(1) by (auto simp: in_set_conv_nth)
  then have o: "unat (BaseAddress e) \<le> unat (EndAddress e)" "unat (EndAddress e) < M" using tiles_nth(2)[OF assms(1)] tiles_above[OF assms(1) e(1)] by auto
  have "unat (EndAddress e - BaseAddress e) = unat (EndAddress e) - unat (BaseAddress e)" using o(1) by (simp add: unat_sub word_le_nat_alt)
  then have "unat (EndAddress e - BaseAddress e + 1) = unat (EndAddress e) - unat (BaseAddress e) + 1" using o assms(2) by (simp add: unat_word_ariths)
  then show ?thesis using o assms(2) by (simp add: small_descriptor_def e(2) BuildMemoryDescriptor_def)
qed

text \<open>The state with the first entries of both maps.\<close>

definition first_maps :: "nat \<Rightarrow> nat \<Rightarrow> 'v CORE \<Rightarrow> 'v CORE" where
  "first_maps a b s = s\<lparr>world := (world s)\<lparr>mGcdMemorySpaceMap := [mGcdMemorySpaceMapEntryTemplate\<lparr>EndAddress := 2 ^ a - 1\<rparr>],
     mGcdIoSpaceMap := [mGcdIoSpaceMapEntryTemplate\<lparr>EndAddress := 2 ^ b - 1\<rparr>]\<rparr>\<rparr>"

lemma first_maps_invariant:
  assumes "gcd_ready s" "a < 64" "b < 64"
  shows "gcd_maps (2 ^ a) (2 ^ b) (first_maps a b s)"
proof -
  have p: "unat (2 ^ k - 1 :: UINT64) + 1 = 2 ^ k" if "k < 64" for k :: nat
  proof -
    have "unat (of_nat (2 ^ k) :: UINT64) = 2 ^ k" unfolding unat_of_nat using power_strict_increasing[of k 64 "2::nat"] that by simp
    then have "unat (2 ^ k :: UINT64) = 2 ^ k" by simp
    then show ?thesis by (subst unat_minus_one) (auto simp: word_unat_eq_iff)
  qed
  have "gcd_ready (first_maps a b s)" by (rule gcd_ready_cong[OF assms(1)]) (simp_all add: first_maps_def locks_kept_def)
  then show ?thesis using p[OF assms(2)] p[OF assms(3)]
    by (simp add: gcd_maps_def) (simp add: first_maps_def mGcdMemorySpaceMapEntryTemplate_def mGcdIoSpaceMapEntryTemplate_def)
qed

definition region_is_memory :: "UINT64 \<Rightarrow> 'v CORE \<Rightarrow> bool" where
  "region_is_memory Base s \<longleftrightarrow> (\<forall>w. space (mGcdMemorySpaceMap (world s)) (unat Base) = Some w
     \<longrightarrow> GcdMemoryType w = EfiGcdMemoryTypeSystemMemory \<or> GcdMemoryType w = EfiGcdMemoryTypeMoreReliable)"

text \<open>The first memory region, and the memory that covers the list of HOBs, are taken for the DXE core.\<close>

lemma first_region_keeps:
  assumes g: "gcd_maps M I v" "2 \<le> n" "0 < M" "M \<le> 2 ^ 63" "unat Len < 2 ^ 63" and region: "region_is_memory Base u"
  shows "\<exists>w. (case map_option BuildMemoryDescriptor (find (holds_address (unat Base)) (mGcdMemorySpaceMap (world u))) of None \<Rightarrow> Some v | Some Descriptor \<Rightarrow>
      do { ASSERT (MdMemoryType Descriptor = EfiGcdMemoryTypeSystemMemory \<or> MdMemoryType Descriptor = EfiGcdMemoryTypeMoreReliable);
        (Status, _, s) \<leftarrow> CoreAllocateMemorySpace n notify Pool EfiGcdAllocateAddress (MdMemoryType Descriptor) 0 Len (Some Base) CoreHandle 0 v;
        Some s }) = Some w \<and> gcd_maps M I w"
proof (cases "find (holds_address (unat Base)) (mGcdMemorySpaceMap (world u))")
  case (Some e)
  have "GcdMemoryType e = EfiGcdMemoryTypeSystemMemory \<or> GcdMemoryType e = EfiGcdMemoryTypeMoreReliable"
    using region Some by (auto simp: region_is_memory_def space_def what_def)
  moreover obtain st B w where "CoreAllocateMemorySpace n notify Pool EfiGcdAllocateAddress (GcdMemoryType e) 0 Len (Some Base) CoreHandle 0 v = Some (st, Some B, w)"
    "gcd_maps M I w" by (rule allocate_address_keeps[OF g])
  ultimately show ?thesis using Some by (simp add: BuildMemoryDescriptor_def ASSERT_def)
qed (use g(1) in simp)

lemma held_memory_keeps:
  assumes g: "gcd_maps M I z" "2 \<le> n" "0 < M" "M \<le> 2 ^ 63" "descriptor_keeps M I AddMemoryDescriptor"
    and h: "\<forall>d Base. hold = Some d \<longrightarrow> small_descriptor d \<and> (PageAlignAddress (MdBaseAddress d) = Some Base \<longrightarrow> \<not> MdBaseAddress d + MdLength d < Base)"
  shows "\<exists>t. (case hold of None \<Rightarrow> Some z | Some d \<Rightarrow>
      do { Base \<leftarrow> PageAlignAddress (MdBaseAddress d); Len \<leftarrow> PageAlignLength (MdBaseAddress d + MdLength d - Base);
        add_and_take n notify Pool AddMemoryDescriptor CoreHandle d Base Len z }) = Some t \<and> gcd_maps M I t"
proof (cases hold)
  case (Some d)
  obtain Base Len where p: "PageAlignAddress (MdBaseAddress d) = Some Base" "PageAlignLength (MdBaseAddress d + MdLength d - Base) = Some Len"
    "MdBaseAddress d + MdLength d < Base \<or> unat Len < 2 ^ 63" using page_range h Some by metis
  then show ?thesis using add_and_take_keeps[OF g, of Len] h Some by fastforce
qed (use g(1) in simp)

text \<open>
  (C25) The initialisation of the global coherency domain, from empty maps, with a CPU HOB of less than 63 address bits, HOBs whose ranges do not wrap
  around, a pool that does not fail and page services that keep the maps' invariant: if the resources make the first memory region system memory, as the
  code asserts, CoreInitializeGcdServices returns with success and the relocated list, and both maps tile their whole spaces and are merged.
\<close>

theorem gcd_services_initialised:
  assumes s: "gcd_ready s" "mGcdMemorySpaceMap (world s) = []" "mGcdIoSpaceMap (world s) = []" and n: "2 \<le> n" "2 \<le> k"
    and cpu: "CpuHob = Some (a, b)" "unat a \<le> 62" "unat b \<le> 62" and hobs: "\<forall>h\<in>set Hobs. sound_hob h" "NewHobList \<noteq> 0" "unat MemoryLength < 2 ^ 63"
    and pool: "pool_keeps (2 ^ unat a) (2 ^ unat b) AllocatePool FreePool" and desc: "descriptor_keeps (2 ^ unat a) (2 ^ unat b) AddMemoryDescriptor"
    and region: "\<forall>u. add_resources n notify True Cpu Hobs (first_maps (unat a) (unat b) s) = Some u \<longrightarrow> region_is_memory MemoryBaseAddress u"
  shows "\<exists>t. CoreInitializeGcdServices k n notify True Cpu AddMemoryDescriptor AllocatePool FreePool CoreHandle NewHobList HobStart Phit CpuHob Hobs
      MemoryBaseAddress MemoryLength s = Some (EFI_SUCCESS, NewHobList, t) \<and> gcd_maps (2 ^ unat a) (2 ^ unat b) t"
proof -
  let ?M = "2 ^ unat a :: nat" and ?I = "2 ^ unat b :: nat"
  have M: "0 < ?M" "?M \<le> 2 ^ 63" "?M \<le> 2 ^ 62" "?M \<le> 2 ^ 64" using cpu(2) power_increasing[of "unat a" 62 "2::nat"] by simp_all
  have sh: "LShiftU64 1 (ucast x) = Some (2 ^ unat x)" if "unat x \<le> 62" for x :: UINT8
  proof -
    have "unat (ucast x :: UINTN) = unat x" using that by (simp add: unsigned_ucast_eq take_bit_eq_mod)
    then show ?thesis using that mask_shift[of "ucast x"] by (simp add: word_less_nat_alt)
  qed
  have f: "gcd_maps ?M ?I (first_maps (unat a) (unat b) s)" by (rule first_maps_invariant) (use s(1) cpu(2,3) in simp_all)
  obtain u where u: "add_resources n notify True Cpu Hobs (first_maps (unat a) (unat b) s) = Some u" "gcd_maps ?M ?I u"
    using add_resources_keeps[OF f n(1) hobs(1)] by blast
  obtain v where v: "CoreGetMemorySpaceDescriptor n notify MemoryBaseAddress True u = Some (if unat MemoryBaseAddress < ?M then EFI_SUCCESS else EFI_NOT_FOUND,
      map_option BuildMemoryDescriptor (find (holds_address (unat MemoryBaseAddress)) (mGcdMemorySpaceMap (world u))), v)" "gcd_maps ?M ?I v"
    by (rule descriptor_exact[OF u(2) n(1) M(4)])
  have "region_is_memory MemoryBaseAddress u" using region u(1) by blast
  from first_region_keeps[OF v(2) n(1) M(1,2) hobs(3) this, of notify True CoreHandle]
  obtain w where w: "(case map_option BuildMemoryDescriptor (find (holds_address (unat MemoryBaseAddress)) (mGcdMemorySpaceMap (world u))) of None \<Rightarrow> Some v | Some Descriptor \<Rightarrow>
      do { ASSERT (MdMemoryType Descriptor = EfiGcdMemoryTypeSystemMemory \<or> MdMemoryType Descriptor = EfiGcdMemoryTypeMoreReliable);
        (Status, _, s) \<leftarrow> CoreAllocateMemorySpace n notify True EfiGcdAllocateAddress (MdMemoryType Descriptor) 0 MemoryLength (Some MemoryBaseAddress) CoreHandle 0 v;
        Some s }) = Some w" "gcd_maps ?M ?I w" by blast
  obtain x where x: "take_allocations n notify True AddMemoryDescriptor CoreHandle Hobs w = Some x" "gcd_maps ?M ?I x"
    using take_allocations_keeps[OF w(2) n(1) M(1,2) desc hobs(1)] by blast
  obtain y where y: "CoreGetMemorySpaceMap k n notify AllocatePool FreePool True True x = Some (EFI_SUCCESS, of_nat (length (mGcdMemorySpaceMap (world x))),
      Some (map BuildMemoryDescriptor (mGcdMemorySpaceMap (world x))), y)" "gcd_maps ?M ?I y" by (rule memory_map_exact[OF x(2) n(1) pool n(2)])
  have small: "\<forall>d\<in>set (map BuildMemoryDescriptor (mGcdMemorySpaceMap (world x))). small_descriptor d"
    using x(2) M(3) by (auto intro!: build_descriptor_small simp: gcd_maps_def)
  obtain hold z where z: "add_free_memory n notify True AddMemoryDescriptor CoreHandle HobStart (EfiFreeMemoryBottom Phit)
      (map BuildMemoryDescriptor (mGcdMemorySpaceMap (world x))) None y = Some (hold, z)" "gcd_maps ?M ?I z"
    "\<forall>d Base. hold = Some d \<longrightarrow> small_descriptor d \<and> (PageAlignAddress (MdBaseAddress d) = Some Base \<longrightarrow> \<not> MdBaseAddress d + MdLength d < Base)"
    using add_free_memory_keeps[OF y(2) n(1) M(1,2) desc small, of None] by blast
  from held_memory_keeps[OF z(2) n(1) M(1,2) desc z(3), of notify True CoreHandle]
  obtain t where t: "(case hold of None \<Rightarrow> Some z | Some d \<Rightarrow>
      do { Base \<leftarrow> PageAlignAddress (MdBaseAddress d); Len \<leftarrow> PageAlignLength (MdBaseAddress d + MdLength d - Base);
        add_and_take n notify True AddMemoryDescriptor CoreHandle d Base Len z }) = Some t" "gcd_maps ?M ?I t" by blast
  have "gcd_maps ?M ?I (FreePool t)" using pool t(2) by (auto simp: pool_keeps_def)
  moreover have "CoreInitializeGcdServices k n notify True Cpu AddMemoryDescriptor AllocatePool FreePool CoreHandle NewHobList HobStart Phit CpuHob Hobs
      MemoryBaseAddress MemoryLength s = Some (EFI_SUCCESS, NewHobList, FreePool t)"
    using sh[OF cpu(2)] sh[OF cpu(3)] u(1) v(1) w(1) x(1) y(1) z(1) t(1) hobs(2) s(2,3)
    by (simp add: CoreInitializeGcdServices_def cpu(1) first_maps_def)
  ultimately show ?thesis by blast
qed

text \<open>A platform with one megabyte of tested memory at 0, an allocation and a firmware volume, and 36 and 16 address bits.\<close>

abbreviation sample_hobs :: "HOB list" where
  "sample_hobs \<equiv> [ResourceDescriptor EFI_RESOURCE_SYSTEM_MEMORY 0x3C07 0 0x100000, OtherHob, MemoryAllocation 4 0x8000 0x2000, FirmwareVolume 0xFFF00000 0x10000]"

lemma sample_resource: "resource_memory_type EFI_RESOURCE_SYSTEM_MEMORY 0x3C07 = EfiGcdMemoryTypeSystemMemory"
  by (simp add: resource_memory_type_def MEMORY_ATTRIBUTE_MASK_def TESTED_MEMORY_ATTRIBUTES_def INITIALIZED_MEMORY_ATTRIBUTES_def)

lemma sample_region:
  assumes "add_resources 2 (\<lambda>f e c s. Some s) True (\<lambda>b l a. EFI_SUCCESS) sample_hobs (first_maps 36 16 (gcd_sample [])) = Some u"
  shows "region_is_memory 0x10000 u"
proof -
  let ?f = "first_maps 36 16 (gcd_sample [])" and ?op = GCD_ADD_MEMORY_OPERATION
  let ?caps = "CoreConvertResourceDescriptorHobAttributesToCapabilities EfiGcdMemoryTypeSystemMemory 0x3C07"
  have f: "gcd_maps (2 ^ 36) (2 ^ 16) ?f" by (rule first_maps_invariant) (simp_all add: gcd_sample_ready)
  have g: "gcd_map ?op s = mGcdMemorySpaceMap (world s)" for s :: "unit CORE" by (simp add: gcd_map_def)
  have sp: "space (gcd_map ?op ?f) x = (if x < 2 ^ 36 then Some mGcdMemorySpaceMapEntryTemplate else None)" for x
    by (auto simp: g first_maps_def space_def what_def mGcdMemorySpaceMapEntryTemplate_def)
  have ref: "refusal (convert_check ?op 0 0x100000 ?caps 0) (space (gcd_map ?op ?f)) 0 0x100000 = EFI_SUCCESS"
    by (rule refusal_none) (simp add: sp convert_check_def mGcdMemorySpaceMapEntryTemplate_def)
  then have st: "convert_status True (\<lambda>b l a. EFI_SUCCESS) (gCpu ?f) ?op 0 0x100000 ?caps 0 (2 ^ 36) (space (gcd_map ?op ?f)) = EFI_SUCCESS"
    by (simp add: convert_status_def)
  have op: "memory_operation ?op \<or> io_operation ?op" by (simp add: memory_operation_def)
  have r: "gcd_ready ?f" "tiles 0 (gcd_map ?op ?f) (2 ^ 36)" using f by (simp_all add: gcd_maps_def g)
  show ?thesis
  proof (rule convert_space_runs[where notify = "\<lambda>f e c s. Some s" and MemoryType = EfiGcdMemoryTypeSystemMemory and IoType = 0 and n = 2, OF r(1) _ op r(2) _ st], goal_cases)
    case (3 t)
    have "u = t" using assms 3(1) by (simp add: sample_resource CoreInternalAddMemorySpace_def resource_io_type_def CoreValidateResourceDescriptorHobAttributes_def)
    then show ?case using 3(6)[of "0x10000"] sp[of "0x10000"]
      by (auto simp: region_is_memory_def g convert_what_def convert_entry_def what_def mGcdMemorySpaceMapEntryTemplate_def)
  qed simp_all
qed

theorem gcd_services_initialised_witness:
  "\<exists>t. CoreInitializeGcdServices 2 2 (\<lambda>f e c s. Some s) True (\<lambda>b l a. EFI_SUCCESS) (\<lambda>ty a p c s. s) (\<lambda>c s. (True, s)) (\<lambda>s. s) 0x77 0x20000 0x30000
      \<lparr>EfiMemoryTop = 0x80000, EfiFreeMemoryBottom = 0x40000, EfiFreeMemoryTop = 0x70000\<rparr> (Some (36, 16)) sample_hobs 0x10000 0x8000 (gcd_sample [] \<lparr>world := (world (gcd_sample []))\<lparr>mGcdIoSpaceMap := []\<rparr>\<rparr>)
      = Some (EFI_SUCCESS, 0x20000, t) \<and> tiles 0 (mGcdMemorySpaceMap (world t)) (2 ^ 36) \<and> tiles 0 (mGcdIoSpaceMap (world t)) (2 ^ 16)"
proof -
  let ?s = "gcd_sample [] \<lparr>world := (world (gcd_sample []))\<lparr>mGcdIoSpaceMap := []\<rparr>\<rparr>"
  have same: "first_maps a b ?s = first_maps a b (gcd_sample [])" for a b by (simp add: first_maps_def)
  have s: "gcd_ready ?s" by (rule gcd_ready_cong[OF gcd_sample_ready[of "[]"]]) (simp_all add: locks_kept_def)
  have hobs: "\<forall>h\<in>set sample_hobs. sound_hob h"
    by (simp add: sample_resource CoreValidateResourceDescriptorHobAttributes_def)
  have "\<exists>t. CoreInitializeGcdServices 2 2 (\<lambda>f e c s. Some s) True (\<lambda>b l a. EFI_SUCCESS) (\<lambda>ty a p c s. s) (\<lambda>c s. (True, s)) (\<lambda>s. s) 0x77 0x20000 0x30000
      \<lparr>EfiMemoryTop = 0x80000, EfiFreeMemoryBottom = 0x40000, EfiFreeMemoryTop = 0x70000\<rparr> (Some (36, 16)) sample_hobs 0x10000 0x8000 ?s
      = Some (EFI_SUCCESS, 0x20000, t) \<and> gcd_maps (2 ^ unat (36 :: UINT8)) (2 ^ unat (16 :: UINT8)) t"
    by (rule gcd_services_initialised[OF s _ _ _ _ refl _ _ hobs])
      (use sample_region in \<open>simp_all add: gcd_sample_maps pool_keeps_def descriptor_keeps_def same\<close>)
  then show ?thesis by (auto simp: gcd_maps_def)
qed

end
