(* ===== verification/Mem_Map.thy ===== *)
theory Mem_Map
  imports BaseMath
begin

text \<open>
  The memory map of the page services (MdeModulePkg/Core/Dxe/Mem/Page.c, Imem.h): a list of descriptors, each for a range of pages of one type, and
  the work on the list itself. A descriptor is kept either in a slot of the small array mMapStack or in a page that was allocated for
  descriptors; which one is the field FromPages, and the slot or address tells descriptors apart. The field VirtualStart is 0 in every descriptor and left out.
\<close>

unbundle bit_operations_syntax

section \<open>Descriptors and their list\<close>

datatype map_storage = MapStack nat | FromPages UINT64

record MEMORY_MAP =
  Storage :: map_storage
  MemType :: UINT32
  MemStart :: UINT64
  MemEnd :: UINT64
  MemAttribute :: UINT64

record map_lists =
  gMemoryMap :: "MEMORY_MAP list"
  mMapDepth :: nat
  mFreeMemoryMapEntryList :: "UINT64 list"

abbreviation MAX_MAP_DEPTH :: nat where "MAX_MAP_DEPTH \<equiv> 6"

abbreviation EfiReservedMemoryType :: UINT32 where "EfiReservedMemoryType \<equiv> 0"
abbreviation EfiBootServicesData :: UINT32 where "EfiBootServicesData \<equiv> 4"
abbreviation EfiRuntimeServicesCode :: UINT32 where "EfiRuntimeServicesCode \<equiv> 5"
abbreviation EfiRuntimeServicesData :: UINT32 where "EfiRuntimeServicesData \<equiv> 6"
abbreviation EfiConventional :: UINT32 where "EfiConventional \<equiv> 7"
abbreviation EfiACPIReclaimMemory :: UINT32 where "EfiACPIReclaimMemory \<equiv> 9"
abbreviation EfiACPIMemoryNVS :: UINT32 where "EfiACPIMemoryNVS \<equiv> 10"
abbreviation EfiMemoryMappedIO :: UINT32 where "EfiMemoryMappedIO \<equiv> 11"
abbreviation EfiMemoryMappedIOPortSpace :: UINT32 where "EfiMemoryMappedIOPortSpace \<equiv> 12"
abbreviation EfiPersistentMemory :: UINT32 where "EfiPersistentMemory \<equiv> 14"
abbreviation EfiMaxMemoryType :: UINT32 where "EfiMaxMemoryType \<equiv> 15"
abbreviation MEMORY_TYPE_OEM_RESERVED_MIN :: UINT32 where "MEMORY_TYPE_OEM_RESERVED_MIN \<equiv> 0x70000000"
abbreviation MAX_ALLOC_ADDRESS :: UINT64 where "MAX_ALLOC_ADDRESS \<equiv> 0xFFFFFFFFFFFFFFFF"

definition RemoveMemoryMapEntry :: "MEMORY_MAP \<Rightarrow> map_lists \<Rightarrow> map_lists" where
  "RemoveMemoryMapEntry Entry p =
     p\<lparr>gMemoryMap := remove1 Entry (gMemoryMap p),
       mFreeMemoryMapEntryList := mFreeMemoryMapEntryList p @ (case Storage Entry of FromPages a \<Rightarrow> [a] | MapStack _ \<Rightarrow> [])\<rparr>"

text \<open>The loop of CoreAddRange that looks for adjoining descriptors; the results are the grown range and the lists.\<close>

fun AddRange_loop :: "UINT32 \<Rightarrow> UINT64 \<Rightarrow> MEMORY_MAP list \<Rightarrow> UINT64 \<Rightarrow> UINT64 \<Rightarrow> map_lists \<Rightarrow> UINT64 \<times> UINT64 \<times> map_lists" where
  "AddRange_loop ty Attribute [] Start End p = (Start, End, p)"
| "AddRange_loop ty Attribute (Entry # l) Start End p =
     (if MemType Entry \<noteq> ty \<or> MemAttribute Entry \<noteq> Attribute then AddRange_loop ty Attribute l Start End p
      else if MemEnd Entry + 1 = Start then AddRange_loop ty Attribute l (MemStart Entry) End (RemoveMemoryMapEntry Entry p)
      else if MemStart Entry = End + 1 then AddRange_loop ty Attribute l Start (MemEnd Entry) (RemoveMemoryMapEntry Entry p)
      else AddRange_loop ty Attribute l Start End p)"

text \<open>Linking a new descriptor from the array at the end of the map.\<close>

definition push_entry :: "UINT32 \<Rightarrow> UINT64 \<Rightarrow> UINT64 \<Rightarrow> UINT64 \<Rightarrow> map_lists \<Rightarrow> map_lists option" where
  "push_entry ty Start End Attribute p =
     do {
       ASSERT (mMapDepth p + 1 < MAX_MAP_DEPTH);
       Some (p\<lparr>gMemoryMap := gMemoryMap p @ [\<lparr>Storage = MapStack (mMapDepth p), MemType = ty, MemStart = Start, MemEnd = End, MemAttribute = Attribute\<rparr>],
               mMapDepth := mMapDepth p + 1\<rparr>)
     }"

text \<open>Changing a descriptor in place.\<close>

definition put_entry :: "MEMORY_MAP \<Rightarrow> MEMORY_MAP \<Rightarrow> map_lists \<Rightarrow> map_lists" where
  "put_entry Entry Entry' p = p\<lparr>gMemoryMap := map (\<lambda>e. if e = Entry then Entry' else e) (gMemoryMap p)\<rparr>"

text \<open>CoreConvertPagesEx pulls the range from Start to RangeEnd out of the descriptor it was found in.\<close>

definition pull_range :: "UINT64 \<Rightarrow> UINT64 \<Rightarrow> MEMORY_MAP \<Rightarrow> map_lists \<Rightarrow> map_lists option" where
  "pull_range Start RangeEnd Entry p =
     (if MemStart Entry = Start
      then if RangeEnd + 1 = MemEnd Entry + 1 then Some (RemoveMemoryMapEntry Entry p)
           else Some (put_entry Entry (Entry\<lparr>MemStart := RangeEnd + 1\<rparr>) p)
      else if MemEnd Entry = RangeEnd then Some (put_entry Entry (Entry\<lparr>MemEnd := Start - 1\<rparr>) p)
      else do {
        ASSERT (MemStart Entry < Start - 1);
        push_entry (MemType Entry) (RangeEnd + 1) (MemEnd Entry) (MemAttribute Entry) (put_entry Entry (Entry\<lparr>MemEnd := Start - 1\<rparr>) p)
      })"

text \<open>
  One round of the loop of CoreFreeMemoryMapStack, with a descriptor at the address \<open>a\<close> to move the topmost slot to: before the first descriptor from
  pages that starts higher, or to the list of free descriptors when the slot is no longer linked.
\<close>

definition free_slot :: "UINT64 \<Rightarrow> map_lists \<Rightarrow> map_lists" where
  "free_slot a p =
     (let d = mMapDepth p - 1; p = p\<lparr>mMapDepth := d\<rparr>
      in case find (\<lambda>e. Storage e = MapStack d) (gMemoryMap p) of
           None \<Rightarrow> p\<lparr>mFreeMemoryMapEntryList := mFreeMemoryMapEntryList p @ [a]\<rparr>
         | Some Entry \<Rightarrow>
             let m = remove1 Entry (gMemoryMap p);
                 before = (\<lambda>e. \<not> ((\<exists>b. Storage e = FromPages b) \<and> MemStart e > MemStart Entry))
             in p\<lparr>gMemoryMap := takeWhile before m @ [Entry\<lparr>Storage := FromPages a\<rparr>] @ dropWhile before m\<rparr>)"

text \<open>The search for free pages below MaxAddress and above MinAddress: the loop keeps the highest end address so far.\<close>

definition page_top :: "UINT64 \<Rightarrow> UINT64" where
  "page_top MaxAddress =
     (if MaxAddress AND 0xFFF \<noteq> 0xFFF then ((MaxAddress - 0x1000) AND NOT 0xFFF) OR 0xFFF else MaxAddress)"

fun FindFreePages_loop :: "UINT64 \<Rightarrow> UINT64 \<Rightarrow> UINT64 \<Rightarrow> UINT64 \<Rightarrow> MEMORY_MAP list \<Rightarrow> UINT64 \<Rightarrow> UINT64" where
  "FindFreePages_loop MaxAddress MinAddress NumberOfBytes Alignment [] Target = Target"
| "FindFreePages_loop MaxAddress MinAddress NumberOfBytes Alignment (Entry # l) Target =
     (let DescStart = MemStart Entry; DescEnd = MemEnd Entry
      in if MemType Entry \<noteq> EfiConventional \<or> DescStart \<ge> MaxAddress \<or> DescEnd < MinAddress
         then FindFreePages_loop MaxAddress MinAddress NumberOfBytes Alignment l Target
      else let DescEnd = (if DescEnd \<ge> MaxAddress then MaxAddress else DescEnd);
               DescEnd = ((DescEnd + 1) AND NOT (Alignment - 1)) - 1
      in if DescEnd < DescStart then FindFreePages_loop MaxAddress MinAddress NumberOfBytes Alignment l Target
      else if DescEnd - DescStart + 1 \<ge> NumberOfBytes \<and> \<not> DescEnd - NumberOfBytes + 1 < MinAddress \<and> DescEnd > Target
      then FindFreePages_loop MaxAddress MinAddress NumberOfBytes Alignment l DescEnd
      else FindFreePages_loop MaxAddress MinAddress NumberOfBytes Alignment l Target)"

definition CoreFindFreePagesI :: "UINT64 \<Rightarrow> UINT64 \<Rightarrow> UINT64 \<Rightarrow> UINT64 \<Rightarrow> MEMORY_MAP list \<Rightarrow> UINT64 option" where
  "CoreFindFreePagesI MaxAddress MinAddress NumberOfPages Alignment Map =
     (if MaxAddress < 0xFFF \<or> NumberOfPages = 0 then Some 0
      else do {
        NumberOfBytes \<leftarrow> LShiftU64 NumberOfPages 12;
        let Target = FindFreePages_loop (page_top MaxAddress) MinAddress NumberOfBytes Alignment Map 0;
        let Target = Target - (NumberOfBytes - 1);
        Some (if Target AND 0xFFF \<noteq> 0 then 0 else Target)
      })"

end
