(* ===== verification/Dxe_Page.thy ===== *)
theory Dxe_Page
  imports Dxe_GcdInit Mem_Map
begin

text \<open>
  The page services (MdeModulePkg/Core/Dxe/Mem/Page.c), for the X64 build with the default PCDs: no heap guard, no loading of modules at fixed addresses. The contents of
  memory are not followed, so that clearing it has no effect here. Converting pages may leave descriptors in the array mMapStack; CoreFreeMemoryMapStack moves
  them to pages, and may have to allocate a page for that, which converts pages again. The functions between are given the CoreFreeMemoryMapStack they call as an
  argument \<open>FreeStack\<close>; CoreFreeMemoryMapStack itself ties the knot. Fuel \<open>n\<close> bounds the loops and the depth of these calls.
\<close>

unbundle bit_operations_syntax

section \<open>State\<close>

record EFI_MEMORY_TYPE_STATISTICS =
  BinBase :: UINT64
  BinMaximum :: UINT64
  CurrentNumberOfPages :: UINT64
  BinPages :: UINT64
  InformationIndex :: nat
  Special :: bool
  Runtime :: bool

record EFI_MEMORY_TYPE_INFORMATION =
  InfoType :: UINT32
  InfoPages :: UINT32

record 'v PAGE_STATE =
  mMemoryMapKey :: UINTN
  memory_lists :: map_lists
  mFreeMapStack :: UINTN
  mMemoryTypeInformationInitialized :: bool
  mMemoryTypeStatistics :: "nat \<Rightarrow> EFI_MEMORY_TYPE_STATISTICS"
  mDefaultMaximumAddress :: UINT64
  mDefaultBaseAddress :: UINT64
  gMemoryTypeInformation :: "nat \<Rightarrow> EFI_MEMORY_TYPE_INFORMATION"
  beyond :: 'v

text \<open>The initial data. The types with special pages are the reserved, runtime, ACPI and PAL ones; no type has a bin yet.\<close>

definition initial_pages :: "'v \<Rightarrow> 'v PAGE_STATE" where
  "initial_pages v =
     \<lparr>mMemoryMapKey = 0, memory_lists = \<lparr>gMemoryMap = [], mMapDepth = 0, mFreeMemoryMapEntryList = []\<rparr>,
      mFreeMapStack = 0, mMemoryTypeInformationInitialized = False,
      mMemoryTypeStatistics = (\<lambda>ty. \<lparr>BinBase = 0, BinMaximum = MAX_ALLOC_ADDRESS, CurrentNumberOfPages = 0, BinPages = 0, InformationIndex = 15,
        Special = ty \<in> {0, 5, 6, 9, 10, 13}, Runtime = ty \<in> {5, 6, 13}\<rparr>),
      mDefaultMaximumAddress = MAX_ALLOC_ADDRESS, mDefaultBaseAddress = MAX_ALLOC_ADDRESS,
      gMemoryTypeInformation = (\<lambda>i. \<lparr>InfoType = of_nat i, InfoPages = 0\<rparr>), beyond = v\<rparr>"

type_synonym 'v PAGES = "'v PAGE_STATE CORE"

abbreviation pages :: "'v PAGES \<Rightarrow> 'v PAGE_STATE" where "pages s \<equiv> elsewhere (world s)"

definition put_pages :: "('v PAGE_STATE \<Rightarrow> 'v PAGE_STATE) \<Rightarrow> 'v PAGES \<Rightarrow> 'v PAGES" where
  "put_pages f s = s\<lparr>world := (world s)\<lparr>elsewhere := f (pages s)\<rparr>\<rparr>"

definition put_lists :: "map_lists \<Rightarrow> 'v PAGES \<Rightarrow> 'v PAGES" where
  "put_lists p s = put_pages (memory_lists_update (\<lambda>_. p)) s"

definition put_statistics :: "nat \<Rightarrow> (EFI_MEMORY_TYPE_STATISTICS \<Rightarrow> EFI_MEMORY_TYPE_STATISTICS) \<Rightarrow> 'v PAGE_STATE \<Rightarrow> 'v PAGE_STATE" where
  "put_statistics i f p = p\<lparr>mMemoryTypeStatistics := (mMemoryTypeStatistics p)(i := f (mMemoryTypeStatistics p i))\<rparr>"

abbreviation DEFAULT_PAGE_ALLOCATION_GRANULARITY :: UINT64 where "DEFAULT_PAGE_ALLOCATION_GRANULARITY \<equiv> 0x1000"
abbreviation RUNTIME_PAGE_ALLOCATION_GRANULARITY :: UINT64 where "RUNTIME_PAGE_ALLOCATION_GRANULARITY \<equiv> 0x1000"
abbreviation gEfiEventMemoryMapChangeGuid :: EFI_GUID where
  "gEfiEventMemoryMapChangeGuid \<equiv> (0x48fd692f78bee926, 0xabd7f02e4201db9e)"

definition CoreAcquireMemoryLock :: "'w DXE \<Rightarrow> 'w DXE option" where
  "CoreAcquireMemoryLock s = CoreAcquireLock gMemoryLock s"

definition CoreReleaseMemoryLock :: "nat \<Rightarrow> 'w notify \<Rightarrow> 'w DXE \<Rightarrow> 'w DXE option" where
  "CoreReleaseMemoryLock n notify s = CoreReleaseLock n notify gMemoryLock s"

section \<open>Adding and converting ranges\<close>

definition CoreAddRange ::
  "nat \<Rightarrow> 'v PAGE_STATE GCD_STATE notify \<Rightarrow> UINT32 \<Rightarrow> UINT64 \<Rightarrow> UINT64 \<Rightarrow> UINT64 \<Rightarrow> 'v PAGES \<Rightarrow> 'v PAGES option" where
  "CoreAddRange n notify ty Start End Attribute s =
     do {
       ASSERT (Start AND EFI_PAGE_MASK = 0);
       ASSERT (End > Start);
       ASSERT_LOCKED gMemoryLock s;
       let s = put_pages (mMemoryMapKey_update (\<lambda>k. k + 1)) s;
       s \<leftarrow> CoreNotifySignalList n notify gEfiEventMemoryMapChangeGuid s;
       let (Start, End, p) = AddRange_loop ty Attribute (gMemoryMap (memory_lists (pages s))) Start End (memory_lists (pages s));
       p \<leftarrow> push_entry ty Start End Attribute p;
       Some (put_lists p s)
     }"

text \<open>The counters of the pages of each type, in CoreConvertPagesEx.\<close>

definition in_bin :: "UINT64 \<Rightarrow> UINT32 \<Rightarrow> 'v PAGE_STATE \<Rightarrow> bool" where
  "in_bin Start ty p \<longleftrightarrow>
     Start \<ge> BinBase (mMemoryTypeStatistics p (unat ty)) \<and> Start \<le> BinMaximum (mMemoryTypeStatistics p (unat ty))
     \<or> Start \<ge> mDefaultBaseAddress p \<and> Start \<le> mDefaultMaximumAddress p"

definition count_pages :: "UINT64 \<Rightarrow> UINT64 \<Rightarrow> UINT32 \<Rightarrow> UINT32 \<Rightarrow> 'v PAGE_STATE \<Rightarrow> 'v PAGE_STATE" where
  "count_pages Start NumberOfPages OldType NewType p =
     (let p = (if OldType < EfiMaxMemoryType \<and> in_bin Start OldType p
               then put_statistics (unat OldType) (CurrentNumberOfPages_update (\<lambda>c. if NumberOfPages > c then 0 else c - NumberOfPages)) p else p)
      in if NewType < EfiMaxMemoryType \<and> in_bin Start NewType p
         then let p = put_statistics (unat NewType) (CurrentNumberOfPages_update (\<lambda>c. c + NumberOfPages)) p;
                  c = CurrentNumberOfPages (mMemoryTypeStatistics p (unat NewType));
                  i = InformationIndex (mMemoryTypeStatistics p (unat NewType))
              in if c > ucast (InfoPages (gMemoryTypeInformation p i))
                 then p\<lparr>gMemoryTypeInformation := (gMemoryTypeInformation p)(i := (gMemoryTypeInformation p i)\<lparr>InfoPages := ucast c\<rparr>)\<rparr> else p
         else p)"

primrec ConvertPages_loop ::
  "nat \<Rightarrow> nat \<Rightarrow> 'v PAGE_STATE GCD_STATE notify \<Rightarrow> ('v PAGES \<Rightarrow> 'v PAGES option) \<Rightarrow> UINT64 \<Rightarrow> UINT32 option \<Rightarrow> UINT64 \<Rightarrow> UINT64 \<Rightarrow> UINT64
   \<Rightarrow> 'v PAGES \<Rightarrow> (EFI_STATUS \<times> 'v PAGES) option" where
  "ConvertPages_loop 0 n notify FreeStack NumberOfPages NewType NewAttributes Start End s = None"
| "ConvertPages_loop (Suc k) n notify FreeStack NumberOfPages NewType NewAttributes Start End s =
     (if \<not> Start < End then Some (EFI_SUCCESS, s)
      else case find (\<lambda>e. MemStart e \<le> Start \<and> MemEnd e > Start) (gMemoryMap (memory_lists (pages s))) of
        None \<Rightarrow> Some (EFI_NOT_FOUND, s)
      | Some Entry \<Rightarrow>
          if (case NewType of Some ty \<Rightarrow> ty \<noteq> EfiConventional \<and> MemEnd Entry < End | None \<Rightarrow> False) then Some (EFI_NOT_FOUND, s)
          else let RangeEnd = (if MemEnd Entry < End then MemEnd Entry else End)
          in if (case NewType of Some ty \<Rightarrow> (ty \<noteq> EfiConventional) \<noteq> (MemType Entry = EfiConventional) | None \<Rightarrow> False)
             then Some (EFI_NOT_FOUND, s)
          else do {
            let s = (case NewType of Some ty \<Rightarrow> put_pages (count_pages Start NumberOfPages (MemType Entry) ty) s | None \<Rightarrow> s);
            p \<leftarrow> pull_range Start RangeEnd Entry (memory_lists (pages s));
            s \<leftarrow> (case NewType of
                    Some ty \<Rightarrow> CoreAddRange n notify ty Start RangeEnd (MemAttribute Entry) (put_lists p s)
                  | None \<Rightarrow> CoreAddRange n notify (MemType Entry) Start RangeEnd NewAttributes (put_lists p s));
            s \<leftarrow> FreeStack s;
            ConvertPages_loop k n notify FreeStack NumberOfPages NewType NewAttributes (RangeEnd + 1) End s
          })"

text \<open>\<open>NewType\<close> is \<open>Some ty\<close> when the type is changed (ChangingType) and \<open>None\<close> when the attributes are; the code asserts that it is not both.\<close>

definition ConvertPages_by ::
  "nat \<Rightarrow> 'v PAGE_STATE GCD_STATE notify \<Rightarrow> ('v PAGES \<Rightarrow> 'v PAGES option) \<Rightarrow> UINT64 \<Rightarrow> UINT64 \<Rightarrow> UINT32 option \<Rightarrow> UINT64
   \<Rightarrow> 'v PAGES \<Rightarrow> (EFI_STATUS \<times> 'v PAGES) option" where
  "ConvertPages_by n notify FreeStack Start NumberOfPages NewType NewAttributes s =
     do {
       NumberOfBytes \<leftarrow> LShiftU64 NumberOfPages EFI_PAGE_SHIFT;
       let End = Start + NumberOfBytes - 1;
       ASSERT (NumberOfPages \<noteq> 0);
       ASSERT (Start AND EFI_PAGE_MASK = 0);
       ASSERT (End > Start);
       ASSERT_LOCKED gMemoryLock s;
       ConvertPages_loop n n notify FreeStack NumberOfPages NewType NewAttributes Start End s
     }"

section \<open>Promoting memory and finding free pages\<close>

abbreviation PROMOTED_CAPABILITIES :: UINT64 where
  "PROMOTED_CAPABILITIES \<equiv> EFI_MEMORY_PRESENT OR EFI_MEMORY_INITIALIZED OR EFI_MEMORY_TESTED"

text \<open>The loop over the memory space map, by the indices of its entries; the result says whether something was promoted.\<close>

fun Promote_loop ::
  "nat \<Rightarrow> 'v PAGE_STATE GCD_STATE notify \<Rightarrow> ('v PAGES \<Rightarrow> 'v PAGES option) \<Rightarrow> nat list \<Rightarrow> bool \<Rightarrow> 'v PAGES \<Rightarrow> (bool \<times> 'v PAGES) option" where
  "Promote_loop n notify FreeStack [] Promoted s = Some (Promoted, s)"
| "Promote_loop n notify FreeStack (i # is) Promoted s =
     (let Entry = mGcdMemorySpaceMap (world s) ! i
      in if GcdMemoryType Entry = EfiGcdMemoryTypeReserved \<and> EndAddress Entry < MAX_ALLOC_ADDRESS
            \<and> Capabilities Entry AND PROMOTED_CAPABILITIES = EFI_MEMORY_PRESENT OR EFI_MEMORY_INITIALIZED
         then do {
           let Entry = Entry\<lparr>GcdMemoryType := (if Capabilities Entry AND EFI_MEMORY_MORE_RELIABLE = EFI_MEMORY_MORE_RELIABLE
                                              then EfiGcdMemoryTypeMoreReliable else EfiGcdMemoryTypeSystemMemory),
                             Capabilities := Capabilities Entry OR EFI_MEMORY_TESTED,
                             GcdImageHandle := gDxeCoreImageHandle (hand s), GcdDeviceHandle := 0\<rparr>;
           let s = s\<lparr>world := (world s)\<lparr>mGcdMemorySpaceMap := (mGcdMemorySpaceMap (world s))[i := Entry]\<rparr>\<rparr>;
           s \<leftarrow> CoreAddRange n notify EfiConventional (BaseAddress Entry) (EndAddress Entry)
                 (Capabilities Entry AND NOT (PROMOTED_CAPABILITIES OR EFI_MEMORY_RUNTIME)) s;
           s \<leftarrow> FreeStack s;
           Promote_loop n notify FreeStack is True s
         }
         else Promote_loop n notify FreeStack is Promoted s)"

definition PromoteMemoryResource ::
  "nat \<Rightarrow> 'v PAGE_STATE GCD_STATE notify \<Rightarrow> ('v PAGES \<Rightarrow> 'v PAGES option) \<Rightarrow> 'v PAGES \<Rightarrow> (bool \<times> 'v PAGES) option" where
  "PromoteMemoryResource n notify FreeStack s =
     do {
       s \<leftarrow> CoreAcquireGcdMemoryLock s;
       (Promoted, s) \<leftarrow> Promote_loop n notify FreeStack [0..<length (mGcdMemorySpaceMap (world s))] False s;
       s \<leftarrow> CoreReleaseGcdMemoryLock n notify s;
       Some (Promoted, s)
     }"

primrec FindFreePages ::
  "nat \<Rightarrow> nat \<Rightarrow> 'v PAGE_STATE GCD_STATE notify \<Rightarrow> ('v PAGES \<Rightarrow> 'v PAGES option) \<Rightarrow> UINT64 \<Rightarrow> UINT64 \<Rightarrow> UINT32 \<Rightarrow> UINT64
   \<Rightarrow> 'v PAGES \<Rightarrow> (UINT64 \<times> 'v PAGES) option" where
  "FindFreePages 0 n notify FreeStack MaxAddress NoPages NewType Alignment s = None"
| "FindFreePages (Suc k) n notify FreeStack MaxAddress NoPages NewType Alignment s =
     do {
       let find_in = (\<lambda>Max Min. CoreFindFreePagesI Max Min NoPages Alignment (gMemoryMap (memory_lists (pages s))));
       let Bin = mMemoryTypeStatistics (pages s) (unat NewType);
       Start \<leftarrow> (if NewType < EfiMaxMemoryType \<and> MaxAddress \<ge> BinMaximum Bin then find_in (BinMaximum Bin) (BinBase Bin) else Some 0);
       if Start \<noteq> 0 then Some (Start, s)
       else do {
         Start \<leftarrow> (if MaxAddress \<ge> mDefaultMaximumAddress (pages s) then find_in (mDefaultMaximumAddress (pages s)) 0 else Some 0);
         if Start \<noteq> 0
         then Some (Start, if Start < mDefaultBaseAddress (pages s) then put_pages (mDefaultBaseAddress_update (\<lambda>_. Start)) s else s)
         else do {
           Start \<leftarrow> find_in MaxAddress 0;
           if Start \<noteq> 0 then Some (Start, s)
           else do {
             (Promoted, s) \<leftarrow> PromoteMemoryResource n notify FreeStack s;
             if Promoted then FindFreePages k n notify FreeStack MaxAddress NoPages NewType Alignment s else Some (0, s)
           }
         }
       }
     }"

definition PoolPages_by ::
  "nat \<Rightarrow> 'v PAGE_STATE GCD_STATE notify \<Rightarrow> ('v PAGES \<Rightarrow> 'v PAGES option) \<Rightarrow> UINT32 \<Rightarrow> UINT64 \<Rightarrow> UINT64 \<Rightarrow> 'v PAGES \<Rightarrow> (UINT64 \<times> 'v PAGES) option" where
  "PoolPages_by n notify FreeStack PoolType NumberOfPages Alignment s =
     do {
       (Start, s) \<leftarrow> FindFreePages n n notify FreeStack MAX_ALLOC_ADDRESS NumberOfPages PoolType Alignment s;
       if Start = 0 then Some (0, s)
       else do {
         (Status, s) \<leftarrow> ConvertPages_by n notify FreeStack Start NumberOfPages (Some PoolType) 0 s;
         Some (Start, s)
       }
     }"

section \<open>Descriptors from pages\<close>

text \<open>sizeof (MEMORY_MAP) is 64. The result is the address of a descriptor, 0 if there is none.\<close>

definition AllocateMemoryMapEntry ::
  "nat \<Rightarrow> 'v PAGE_STATE GCD_STATE notify \<Rightarrow> ('v PAGES \<Rightarrow> 'v PAGES option) \<Rightarrow> 'v PAGES \<Rightarrow> (UINT64 \<times> 'v PAGES) option" where
  "AllocateMemoryMapEntry n notify FreeStack s =
     do {
       (ok, s) \<leftarrow>
         (if mFreeMemoryMapEntryList (memory_lists (pages s)) = []
          then do {
            (a, s) \<leftarrow> PoolPages_by n notify FreeStack EfiBootServicesData 1 DEFAULT_PAGE_ALLOCATION_GRANULARITY s;
            Some (a \<noteq> 0, if a \<noteq> 0
              then put_lists ((memory_lists (pages s))\<lparr>mFreeMemoryMapEntryList := mFreeMemoryMapEntryList (memory_lists (pages s)) @ map (\<lambda>i. a + 64 * of_nat i) [0..<64]\<rparr>) s
              else s)
          }
          else Some (True, s));
       if \<not> ok then Some (0, s)
       else case mFreeMemoryMapEntryList (memory_lists (pages s)) of
         [] \<Rightarrow> None
       | a # l \<Rightarrow> Some (a, put_lists ((memory_lists (pages s))\<lparr>mFreeMemoryMapEntryList := l\<rparr>) s)
     }"

primrec FreeMapStack_loop ::
  "nat \<Rightarrow> nat \<Rightarrow> 'v PAGE_STATE GCD_STATE notify \<Rightarrow> ('v PAGES \<Rightarrow> 'v PAGES option) \<Rightarrow> 'v PAGES \<Rightarrow> 'v PAGES option" where
  "FreeMapStack_loop 0 n notify FreeStack s = None"
| "FreeMapStack_loop (Suc k) n notify FreeStack s =
     (if mMapDepth (memory_lists (pages s)) = 0 then Some s
      else do {
        (a, s) \<leftarrow> AllocateMemoryMapEntry n notify FreeStack s;
        ASSERT (a \<noteq> 0);
        FreeMapStack_loop k n notify FreeStack (put_lists (free_slot a (memory_lists (pages s))) s)
      })"

primrec FreeMemoryMapStack_depth :: "nat \<Rightarrow> nat \<Rightarrow> 'v PAGE_STATE GCD_STATE notify \<Rightarrow> 'v PAGES \<Rightarrow> 'v PAGES option" where
  "FreeMemoryMapStack_depth 0 n notify s = None"
| "FreeMemoryMapStack_depth (Suc d) n notify s =
     do {
       ASSERT_LOCKED gMemoryLock s;
       if mFreeMapStack (pages s) \<noteq> 0 then Some s
       else do {
         s \<leftarrow> FreeMapStack_loop n n notify (FreeMemoryMapStack_depth d n notify) (put_pages (mFreeMapStack_update (\<lambda>c. c + 1)) s);
         Some (put_pages (mFreeMapStack_update (\<lambda>c. c - 1)) s)
       }
     }"

definition CoreFreeMemoryMapStack :: "nat \<Rightarrow> 'v PAGE_STATE GCD_STATE notify \<Rightarrow> 'v PAGES \<Rightarrow> 'v PAGES option" where
  "CoreFreeMemoryMapStack n notify s = FreeMemoryMapStack_depth n n notify s"

definition CoreConvertPagesEx ::
  "nat \<Rightarrow> 'v PAGE_STATE GCD_STATE notify \<Rightarrow> UINT64 \<Rightarrow> UINT64 \<Rightarrow> UINT32 option \<Rightarrow> UINT64 \<Rightarrow> 'v PAGES \<Rightarrow> (EFI_STATUS \<times> 'v PAGES) option" where
  "CoreConvertPagesEx n notify Start NumberOfPages NewType NewAttributes s =
     ConvertPages_by n notify (CoreFreeMemoryMapStack n notify) Start NumberOfPages NewType NewAttributes s"

definition CoreConvertPages ::
  "nat \<Rightarrow> 'v PAGE_STATE GCD_STATE notify \<Rightarrow> UINT64 \<Rightarrow> UINT64 \<Rightarrow> UINT32 \<Rightarrow> 'v PAGES \<Rightarrow> (EFI_STATUS \<times> 'v PAGES) option" where
  "CoreConvertPages n notify Start NumberOfPages NewType s = CoreConvertPagesEx n notify Start NumberOfPages (Some NewType) 0 s"

definition CoreUpdateMemoryAttributes ::
  "nat \<Rightarrow> 'v PAGE_STATE GCD_STATE notify \<Rightarrow> UINT64 \<Rightarrow> UINT64 \<Rightarrow> UINT64 \<Rightarrow> 'v PAGES \<Rightarrow> 'v PAGES option" where
  "CoreUpdateMemoryAttributes n notify Start NumberOfPages NewAttributes s =
     do {
       s \<leftarrow> CoreAcquireMemoryLock s;
       (_, s) \<leftarrow> CoreConvertPagesEx n notify Start NumberOfPages None NewAttributes s;
       CoreReleaseMemoryLock n notify s
     }"

definition CoreAllocatePoolPages ::
  "nat \<Rightarrow> 'v PAGE_STATE GCD_STATE notify \<Rightarrow> UINT32 \<Rightarrow> UINT64 \<Rightarrow> UINT64 \<Rightarrow> 'v PAGES \<Rightarrow> (UINT64 \<times> 'v PAGES) option" where
  "CoreAllocatePoolPages n notify PoolType NumberOfPages Alignment s =
     PoolPages_by n notify (CoreFreeMemoryMapStack n notify) PoolType NumberOfPages Alignment s"

definition CoreFreePoolPages :: "nat \<Rightarrow> 'v PAGE_STATE GCD_STATE notify \<Rightarrow> UINT64 \<Rightarrow> UINT64 \<Rightarrow> 'v PAGES \<Rightarrow> 'v PAGES option" where
  "CoreFreePoolPages n notify Memory NumberOfPages s = map_option snd (CoreConvertPages n notify Memory NumberOfPages EfiConventional s)"

section \<open>Allocating and freeing pages\<close>

abbreviation AllocateAnyPages :: UINT32 where "AllocateAnyPages \<equiv> 0"
abbreviation AllocateMaxAddress :: UINT32 where "AllocateMaxAddress \<equiv> 1"
abbreviation AllocateAddress :: UINT32 where "AllocateAddress \<equiv> 2"
abbreviation MaxAllocateType :: UINT32 where "MaxAllocateType \<equiv> 3"

definition EFI_SIZE_TO_PAGES :: "UINT64 \<Rightarrow> UINT64" where
  "EFI_SIZE_TO_PAGES a = drop_bit 12 a + (if a AND EFI_PAGE_MASK \<noteq> 0 then 1 else 0)"

definition type_alignment :: "UINT32 \<Rightarrow> UINT64" where
  "type_alignment ty =
     (if ty = EfiACPIReclaimMemory \<or> ty = EfiACPIMemoryNVS \<or> ty = EfiRuntimeServicesCode \<or> ty = EfiRuntimeServicesData
      then RUNTIME_PAGE_ALLOCATION_GRANULARITY else DEFAULT_PAGE_ALLOCATION_GRANULARITY)"

definition round_pages :: "UINT64 \<Rightarrow> UINT64 \<Rightarrow> UINT64" where
  "round_pages Alignment NumberOfPages =
     (NumberOfPages + (EFI_SIZE_TO_PAGES Alignment - 1)) AND NOT (EFI_SIZE_TO_PAGES Alignment - 1)"

text \<open>Whether a range meets the bin of another type whose pages are special.\<close>

definition meets_special_bin :: "UINT32 \<Rightarrow> UINT64 \<Rightarrow> UINT64 \<Rightarrow> 'v PAGE_STATE \<Rightarrow> bool" where
  "meets_special_bin MemoryType Start End p \<longleftrightarrow>
     list_ex (\<lambda>i. let b = mMemoryTypeStatistics p i
        in unat MemoryType \<noteq> i \<and> Special b \<and> BinPages b > 0
           \<and> (Start \<ge> BinBase b \<and> Start \<le> BinMaximum b \<or> End \<ge> BinBase b \<and> End \<le> BinMaximum b \<or> Start < BinBase b \<and> End > BinMaximum b)) [0..<15]"

definition address_refused :: "UINT32 \<Rightarrow> UINT64 \<Rightarrow> UINT64 \<Rightarrow> 'v PAGE_STATE \<Rightarrow> bool option" where
  "address_refused MemoryType NumberOfPages Start p =
     do {
       MaxPages \<leftarrow> RShiftU64 MAX_ALLOC_ADDRESS EFI_PAGE_SHIFT;
       if NumberOfPages = 0 \<or> NumberOfPages > MaxPages then Some True
       else do {
         NumberOfBytes \<leftarrow> LShiftU64 NumberOfPages EFI_PAGE_SHIFT;
         let End = Start + NumberOfBytes - 1;
         Some (Start \<ge> End \<or> Start > MAX_ALLOC_ADDRESS \<or> End > MAX_ALLOC_ADDRESS \<or> meets_special_bin MemoryType Start End p)
       }
     }"

definition CoreInternalAllocatePages ::
  "nat \<Rightarrow> 'v PAGE_STATE GCD_STATE notify \<Rightarrow> UINT32 \<Rightarrow> UINT32 \<Rightarrow> UINT64 \<Rightarrow> UINT64 option \<Rightarrow> 'v PAGES \<Rightarrow> (EFI_STATUS \<times> UINT64 option \<times> 'v PAGES) option" where
  "CoreInternalAllocatePages n notify AllocateType MemoryType NumberOfPages Mem s =
     (if AllocateType \<ge> MaxAllocateType
         \<or> MemoryType \<ge> EfiMaxMemoryType \<and> MemoryType < MEMORY_TYPE_OEM_RESERVED_MIN \<or> MemoryType = EfiConventional \<or> MemoryType = EfiPersistentMemory
      then Some (EFI_INVALID_PARAMETER, Mem, s)
      else case Mem of None \<Rightarrow> Some (EFI_INVALID_PARAMETER, Mem, s)
      | Some Start \<Rightarrow>
        let Alignment = type_alignment MemoryType
        in if AllocateType = AllocateAddress \<and> Start AND (Alignment - 1) \<noteq> 0 then Some (EFI_NOT_FOUND, Mem, s)
        else do {
          let NumberOfPages = round_pages Alignment NumberOfPages;
          refused \<leftarrow> (if AllocateType = AllocateAddress then address_refused MemoryType NumberOfPages Start (pages s) else Some False);
          if refused then Some (EFI_NOT_FOUND, Mem, s)
          else do {
            let MaxAddress = (if AllocateType = AllocateMaxAddress then Start else MAX_ALLOC_ADDRESS);
            s \<leftarrow> CoreAcquireMemoryLock s;
            (Start, s) \<leftarrow> (if AllocateType \<noteq> AllocateAddress
                          then FindFreePages n n notify (CoreFreeMemoryMapStack n notify) MaxAddress NumberOfPages MemoryType Alignment s
                          else Some (Start, s));
            (Status, s) \<leftarrow> (if AllocateType \<noteq> AllocateAddress \<and> Start = 0 then Some (EFI_OUT_OF_RESOURCES, s)
                           else CoreConvertPages n notify Start NumberOfPages MemoryType s);
            s \<leftarrow> CoreReleaseMemoryLock n notify s;
            Some (Status, if EFI_ERROR Status then Mem else Some Start, s)
          }
        })"

text \<open>
  \<open>Hook\<close> stands for what follows a change of type (the memory profile, the memory attributes table and the protection policy): it has the old and the new type,
  the address and the size.
\<close>

type_synonym 'v hook = "UINT32 \<Rightarrow> UINT32 \<Rightarrow> UINT64 \<Rightarrow> UINT64 \<Rightarrow> 'v PAGES \<Rightarrow> 'v PAGES"

definition CoreAllocatePages ::
  "nat \<Rightarrow> 'v PAGE_STATE GCD_STATE notify \<Rightarrow> 'v hook \<Rightarrow> UINT32 \<Rightarrow> UINT32 \<Rightarrow> UINT64 \<Rightarrow> UINT64 option \<Rightarrow> 'v PAGES \<Rightarrow> (EFI_STATUS \<times> UINT64 option \<times> 'v PAGES) option" where
  "CoreAllocatePages n notify Hook AllocateType MemoryType NumberOfPages Mem s =
     do {
       (Status, Mem, s) \<leftarrow> CoreInternalAllocatePages n notify AllocateType MemoryType NumberOfPages Mem s;
       Some (Status, Mem, if EFI_ERROR Status then s else Hook EfiConventional MemoryType (the Mem) (push_bit 12 NumberOfPages) s)
     }"

definition CoreInternalFreePages ::
  "nat \<Rightarrow> 'v PAGE_STATE GCD_STATE notify \<Rightarrow> UINT64 \<Rightarrow> UINT64 \<Rightarrow> 'v PAGES \<Rightarrow> (EFI_STATUS \<times> UINT32 option \<times> 'v PAGES) option" where
  "CoreInternalFreePages n notify Mem NumberOfPages s =
     do {
       s \<leftarrow> CoreAcquireMemoryLock s;
       (Status, ty, s) \<leftarrow>
         (case find (\<lambda>e. MemStart e \<le> Mem \<and> MemEnd e > Mem) (gMemoryMap (memory_lists (pages s))) of
            None \<Rightarrow> Some (EFI_NOT_FOUND, None, s)
          | Some Entry \<Rightarrow>
            let Alignment = type_alignment (MemType Entry)
            in if Mem AND (Alignment - 1) \<noteq> 0 then Some (EFI_INVALID_PARAMETER, None, s)
               else do {
                 (Status, s) \<leftarrow> CoreConvertPages n notify Mem (round_pages Alignment NumberOfPages) EfiConventional s;
                 Some (Status, Some (MemType Entry), s)
               });
       s \<leftarrow> CoreReleaseMemoryLock n notify s;
       Some (Status, ty, s)
     }"

definition CoreFreePages ::
  "nat \<Rightarrow> 'v PAGE_STATE GCD_STATE notify \<Rightarrow> 'v hook \<Rightarrow> UINT64 \<Rightarrow> UINT64 \<Rightarrow> 'v PAGES \<Rightarrow> (EFI_STATUS \<times> 'v PAGES) option" where
  "CoreFreePages n notify Hook Mem NumberOfPages s =
     do {
       (Status, ty, s) \<leftarrow> CoreInternalFreePages n notify Mem NumberOfPages s;
       Some (Status, if EFI_ERROR Status then s else Hook (the ty) EfiConventional Mem (push_bit 12 NumberOfPages) s)
     }"

section \<open>Adding memory and the bins of the types\<close>

text \<open>The indices of the valid entries of gMemoryTypeInformation, which ends at the first entry of EfiMaxMemoryType; \<open>None\<close> if there is no such entry.\<close>

definition info_indices :: "'v PAGE_STATE \<Rightarrow> nat list option" where
  "info_indices p =
     (let is = takeWhile (\<lambda>i. InfoType (gMemoryTypeInformation p i) \<noteq> EfiMaxMemoryType) [0..<16]
      in if length is < 16 then Some is else None)"

definition has_bin :: "nat \<Rightarrow> 'v PAGE_STATE \<Rightarrow> bool" where
  "has_bin i p \<longleftrightarrow> InfoType (gMemoryTypeInformation p i) \<le> EfiMaxMemoryType \<and> InfoPages (gMemoryTypeInformation p i) \<noteq> 0"

fun release_bins :: "nat \<Rightarrow> 'v PAGE_STATE GCD_STATE notify \<Rightarrow> 'v hook \<Rightarrow> nat list \<Rightarrow> 'v PAGES \<Rightarrow> 'v PAGES option" where
  "release_bins n notify Hook [] s = Some s"
| "release_bins n notify Hook (i # is) s =
     (if \<not> has_bin i (pages s) then release_bins n notify Hook is s
      else do {
        let ty = unat (InfoType (gMemoryTypeInformation (pages s) i));
        (_, s) \<leftarrow> CoreFreePages n notify Hook (BinBase (mMemoryTypeStatistics (pages s) ty)) (ucast (InfoPages (gMemoryTypeInformation (pages s) i))) s;
        release_bins n notify Hook is (put_pages (put_statistics ty (\<lambda>b. b\<lparr>BinBase := 0, BinMaximum := MAX_ALLOC_ADDRESS\<rparr>)) s)
      })"

text \<open>The result says whether all bins could be reserved; the second list has the indices gone through so far.\<close>

fun reserve_bins :: "nat \<Rightarrow> 'v PAGE_STATE GCD_STATE notify \<Rightarrow> 'v hook \<Rightarrow> nat list \<Rightarrow> nat list \<Rightarrow> 'v PAGES \<Rightarrow> (bool \<times> 'v PAGES) option" where
  "reserve_bins n notify Hook past [] s = Some (True, s)"
| "reserve_bins n notify Hook past (i # is) s =
     (if \<not> has_bin i (pages s) then reserve_bins n notify Hook (past @ [i]) is s
      else do {
        let ty = InfoType (gMemoryTypeInformation (pages s) i);
        (Status, Mem, s) \<leftarrow> CoreAllocatePages n notify Hook AllocateAnyPages ty (ucast (InfoPages (gMemoryTypeInformation (pages s) i)))
                              (Some (BinBase (mMemoryTypeStatistics (pages s) (unat ty)))) s;
        if EFI_ERROR Status
        then do { s \<leftarrow> release_bins n notify Hook past s; Some (False, s) }
        else do {
          Bytes \<leftarrow> LShiftU64 (ucast (InfoPages (gMemoryTypeInformation (pages s) i))) EFI_PAGE_SHIFT;
          let Base = the Mem;
          let s = put_pages (put_statistics (unat ty) (\<lambda>b. b\<lparr>BinBase := Base, BinMaximum := Base + Bytes - 1\<rparr>)) s;
          let s = (if Base < mDefaultMaximumAddress (pages s) then put_pages (mDefaultMaximumAddress_update (\<lambda>_. Base - 1)) s else s);
          reserve_bins n notify Hook (past @ [i]) is s
        }
      })"

fun open_bins :: "nat \<Rightarrow> 'v PAGE_STATE GCD_STATE notify \<Rightarrow> 'v hook \<Rightarrow> nat list \<Rightarrow> 'v PAGES \<Rightarrow> 'v PAGES option" where
  "open_bins n notify Hook [] s = Some s"
| "open_bins n notify Hook (i # is) s =
     (if \<not> has_bin i (pages s) then open_bins n notify Hook is s
      else do {
        let ty = unat (InfoType (gMemoryTypeInformation (pages s) i));
        (_, s) \<leftarrow> CoreFreePages n notify Hook (BinBase (mMemoryTypeStatistics (pages s) ty)) (ucast (InfoPages (gMemoryTypeInformation (pages s) i))) s;
        let s = put_pages (\<lambda>p. put_statistics ty (\<lambda>b. b\<lparr>BinPages := ucast (InfoPages (gMemoryTypeInformation p i))\<rparr>) p) s;
        open_bins n notify Hook is (put_pages (\<lambda>p. p\<lparr>gMemoryTypeInformation := (gMemoryTypeInformation p)(i := (gMemoryTypeInformation p i)\<lparr>InfoPages := 0\<rparr>)\<rparr>) s)
      })"

definition index_bins :: "nat list \<Rightarrow> 'v PAGE_STATE \<Rightarrow> 'v PAGE_STATE" where
  "index_bins is p =
     p\<lparr>mMemoryTypeStatistics := (\<lambda>ty. let b = mMemoryTypeStatistics p ty
        in if ty < 15
           then b\<lparr>InformationIndex := fold (\<lambda>i j. if ty = unat (InfoType (gMemoryTypeInformation p i)) then i else j) is (InformationIndex b),
                  CurrentNumberOfPages := 0,
                  BinMaximum := (if BinMaximum b = MAX_ALLOC_ADDRESS then mDefaultMaximumAddress p else BinMaximum b)\<rparr>
           else b),
       mMemoryTypeInformationInitialized := True\<rparr>"

definition CoreAddMemoryDescriptor ::
  "nat \<Rightarrow> 'v PAGE_STATE GCD_STATE notify \<Rightarrow> 'v hook \<Rightarrow> UINT32 \<Rightarrow> UINT64 \<Rightarrow> UINT64 \<Rightarrow> UINT64 \<Rightarrow> 'v PAGES \<Rightarrow> 'v PAGES option" where
  "CoreAddMemoryDescriptor n notify Hook ty Start NumberOfPages Attribute s =
     (if Start AND EFI_PAGE_MASK \<noteq> 0 \<or> ty \<ge> EfiMaxMemoryType \<and> ty < MEMORY_TYPE_OEM_RESERVED_MIN then Some s
      else do {
        s \<leftarrow> CoreAcquireMemoryLock s;
        Bytes \<leftarrow> LShiftU64 NumberOfPages EFI_PAGE_SHIFT;
        s \<leftarrow> CoreAddRange n notify ty Start (Start + Bytes - 1) Attribute s;
        s \<leftarrow> CoreFreeMemoryMapStack n notify s;
        s \<leftarrow> CoreReleaseMemoryLock n notify s;
        let s = Hook EfiMaxMemoryType ty Start Bytes s;
        if mMemoryTypeInformationInitialized (pages s) then Some s
        else do {
          is \<leftarrow> info_indices (pages s);
          (ok, s) \<leftarrow> reserve_bins n notify Hook [] is s;
          if \<not> ok then Some s
          else do {
            s \<leftarrow> open_bins n notify Hook is s;
            Some (put_pages (index_bins is) s)
          }
        }
      })"

end
