(* ===== verification/Mem_MapOps.thy ===== *)
theory Mem_MapOps
  imports Mem_Map Gcd_Search
begin

text \<open>
  The memory map as a map from addresses to types and attributes: what adding a range, pulling one out and moving descriptors off the array do to every
  address, the invariant that each keeps, and the search for free pages.
\<close>

unbundle bit_operations_syntax

section \<open>The memory map by address\<close>

text \<open>
  The type and attribute of every address in the map. A well formed map has descriptors of whole pages, none of which reaches the last page of the address
  space; they are disjoint and no two that adjoin could be one. Descriptors in the array are in slots below mMapDepth, and no descriptor is linked and free at once.
\<close>

abbreviation covers :: "MEMORY_MAP \<Rightarrow> nat \<Rightarrow> bool" where
  "covers e x \<equiv> unat (MemStart e) \<le> x \<and> x \<le> unat (MemEnd e)"

abbreviation kind :: "MEMORY_MAP \<Rightarrow> UINT32 \<times> UINT64" where
  "kind e \<equiv> (MemType e, MemAttribute e)"

definition mem :: "MEMORY_MAP list \<Rightarrow> nat \<Rightarrow> (UINT32 \<times> UINT64) option" where
  "mem m x = map_option kind (find (\<lambda>e. covers e x) m)"

definition whole_pages :: "nat \<Rightarrow> nat \<Rightarrow> bool" where
  "whole_pages a b \<longleftrightarrow> 4096 dvd a \<and> 4096 dvd (b + 1) \<and> a \<le> b \<and> b + 1 < 2 ^ 64"

definition apart :: "MEMORY_MAP list \<Rightarrow> bool" where
  "apart m \<longleftrightarrow> distinct (map Storage m) \<and> (\<forall>e\<in>set m. whole_pages (unat (MemStart e)) (unat (MemEnd e)))
     \<and> (\<forall>e\<in>set m. \<forall>f\<in>set m. e \<noteq> f \<longrightarrow> unat (MemEnd e) < unat (MemStart f) \<or> unat (MemEnd f) < unat (MemStart e))"

definition fused :: "MEMORY_MAP list \<Rightarrow> bool" where
  "fused m \<longleftrightarrow> (\<forall>e\<in>set m. \<forall>f\<in>set m. unat (MemEnd e) + 1 = unat (MemStart f) \<longrightarrow> kind e \<noteq> kind f)"

fun slot_ok :: "nat \<Rightarrow> UINT64 list \<Rightarrow> map_storage \<Rightarrow> bool" where
  "slot_ok d l (MapStack i) \<longleftrightarrow> i < d"
| "slot_ok d l (FromPages a) \<longleftrightarrow> a \<noteq> 0 \<and> a \<notin> set l"

definition stored :: "map_lists \<Rightarrow> bool" where
  "stored p \<longleftrightarrow> (\<forall>e\<in>set (gMemoryMap p). slot_ok (mMapDepth p) (mFreeMemoryMapEntryList p) (Storage e))
     \<and> distinct (mFreeMemoryMapEntryList p) \<and> 0 \<notin> set (mFreeMemoryMapEntryList p)"

definition map_ok :: "map_lists \<Rightarrow> bool" where
  "map_ok p \<longleftrightarrow> apart (gMemoryMap p) \<and> fused (gMemoryMap p) \<and> stored p"

lemma apart_distinct: "apart m \<Longrightarrow> distinct m"
  by (simp add: apart_def distinct_map)

lemma apart_unique:
  assumes "apart m" "e \<in> set m" "f \<in> set m" "covers e x" "covers f x"
  shows "e = f"
  using assms by (fastforce simp: apart_def)

lemma mem_Some: "apart m \<Longrightarrow> mem m x = Some k \<longleftrightarrow> (\<exists>e\<in>set m. covers e x \<and> kind e = k)"
proof -
  assume a: "apart m"
  show ?thesis
  proof
    assume "mem m x = Some k"
    then show "\<exists>e\<in>set m. covers e x \<and> kind e = k" using find_SomeD by (fastforce simp: mem_def)
  next
    assume "\<exists>e\<in>set m. covers e x \<and> kind e = k"
    then obtain e where e: "e \<in> set m" "covers e x" "kind e = k" by blast
    then have "find (\<lambda>e. covers e x) m = Some e" using apart_unique[OF a] by (intro find_unique) auto
    then show "mem m x = Some k" using e(3) by (simp add: mem_def)
  qed
qed

lemma mem_None: "mem m x = None \<longleftrightarrow> (\<forall>e\<in>set m. \<not> covers e x)"
  by (simp add: mem_def find_None_iff')

text \<open>Descriptions by address agree when they do on every kind.\<close>

lemma mem_eqI:
  assumes "apart m" "\<And>k. (\<exists>e\<in>set m. covers e x \<and> kind e = k) \<longleftrightarrow> v = Some k"
  shows "mem m x = v"
  using assms mem_Some[OF assms(1)] by (metis option.exhaust)

lemma storage_inj: "apart m \<Longrightarrow> e \<in> set m \<Longrightarrow> f \<in> set m \<Longrightarrow> Storage e = Storage f \<Longrightarrow> e = f"
  by (auto simp: apart_def distinct_map dest: inj_onD)

section \<open>Removing, changing and adding descriptors\<close>

lemma apart_subset: "apart m \<Longrightarrow> distinct (map Storage m') \<Longrightarrow> set m' \<subseteq> set m \<Longrightarrow> apart m'"
  unfolding apart_def by blast

lemma distinct_storage_remove1: "distinct (map Storage m) \<Longrightarrow> distinct (map Storage (remove1 e m))"
  by (auto simp: distinct_map intro: inj_on_subset)

lemma remove_ok:
  assumes "map_ok p" "e \<in> set (gMemoryMap p)"
  shows "map_ok (RemoveMemoryMapEntry e p)" "set (gMemoryMap (RemoveMemoryMapEntry e p)) = set (gMemoryMap p) - {e}"
    "mMapDepth (RemoveMemoryMapEntry e p) = mMapDepth p"
    "length (mFreeMemoryMapEntryList (RemoveMemoryMapEntry e p)) = length (mFreeMemoryMapEntryList p) + (case Storage e of FromPages _ \<Rightarrow> 1 | MapStack _ \<Rightarrow> 0)"
proof -
  let ?p = "RemoveMemoryMapEntry e p"
  have a: "apart (gMemoryMap p)" "fused (gMemoryMap p)" "stored p" using assms(1) by (simp_all add: map_ok_def)
  show set: "set (gMemoryMap ?p) = set (gMemoryMap p) - {e}" using apart_distinct[OF a(1)] by (simp add: RemoveMemoryMapEntry_def)
  have "apart (gMemoryMap ?p)" by (rule apart_subset[OF a(1)]) (use a(1) set in \<open>auto simp: RemoveMemoryMapEntry_def apart_def distinct_storage_remove1\<close>)
  moreover have "fused (gMemoryMap ?p)" using a(2) unfolding fused_def set by blast
  moreover have "stored ?p"
  proof (cases "Storage e")
    case (FromPages b)
    have "slot_ok (mMapDepth p) (mFreeMemoryMapEntryList p @ [b]) (Storage f)" if f: "f \<in> set (gMemoryMap p) - {e}" for f
    proof -
      have "slot_ok (mMapDepth p) (mFreeMemoryMapEntryList p) (Storage f)" "Storage f \<noteq> FromPages b"
        using a(3) f FromPages storage_inj[OF a(1) _ assms(2), of f] by (auto simp: stored_def)
      then show ?thesis by (cases "Storage f") auto
    qed
    then show ?thesis using a(3) assms(2) FromPages unfolding stored_def set by (force simp: RemoveMemoryMapEntry_def)
  qed (use a(3) set in \<open>auto simp: stored_def RemoveMemoryMapEntry_def\<close>)
  ultimately show "map_ok ?p" by (simp add: map_ok_def)
  show "mMapDepth ?p = mMapDepth p" "length (mFreeMemoryMapEntryList ?p) = length (mFreeMemoryMapEntryList p) + (case Storage e of FromPages _ \<Rightarrow> 1 | MapStack _ \<Rightarrow> 0)"
    by (simp_all add: RemoveMemoryMapEntry_def split: map_storage.splits)
qed


lemma mem_remove:
  assumes "map_ok p" "e \<in> set (gMemoryMap p)"
  shows "mem (gMemoryMap (RemoveMemoryMapEntry e p)) x = (if covers e x then None else mem (gMemoryMap p) x)"
proof -
  have a: "apart (gMemoryMap p)" "apart (gMemoryMap (RemoveMemoryMapEntry e p))" using assms(1) remove_ok(1)[OF assms] by (simp_all add: map_ok_def)
  show ?thesis
    by (rule mem_eqI[OF a(2)]) (use mem_Some[OF a(1), of x] apart_unique[OF a(1) _ assms(2)] in \<open>auto simp: remove_ok(2)[OF assms]\<close>)
qed

section \<open>Growing a range over its neighbours\<close>

definition clear :: "MEMORY_MAP list \<Rightarrow> nat \<Rightarrow> nat \<Rightarrow> bool" where
  "clear m a b \<longleftrightarrow> (\<forall>e\<in>set m. unat (MemEnd e) < a \<or> b < unat (MemStart e))"

abbreviation joins :: "MEMORY_MAP \<Rightarrow> nat \<Rightarrow> nat \<Rightarrow> bool" where
  "joins e a b \<equiv> unat (MemEnd e) + 1 = a \<or> unat (MemStart e) = b + 1"

lemma unat_plus_1: "unat w + 1 < 2 ^ 64 \<Longrightarrow> unat (w + 1 :: UINT64) = unat w + 1"
  by (subst unat_add_lem[THEN iffD1]) simp_all

lemma neighbours_apart:
  assumes "apart m" "e \<in> set m" "clear m a b" "f \<in> set m - {e}"
  shows "unat (MemEnd f) < unat (MemStart e) \<or> unat (MemEnd e) < unat (MemStart f)" "unat (MemStart f) \<le> unat (MemEnd f)"
    "unat (MemEnd f) < a \<or> b < unat (MemStart f)"
  using assms by (auto simp: apart_def clear_def whole_pages_def)

lemma join_below:
  assumes p: "map_ok p" "e \<in> set (gMemoryMap p)" "kind e = k" and S: "unat (MemEnd e) + 1 = a"
    and r: "whole_pages a b" "clear (gMemoryMap p) a b"
  shows "whole_pages (unat (MemStart e)) b" "clear (gMemoryMap (RemoveMemoryMapEntry e p)) (unat (MemStart e)) b"
    "(if unat (MemStart e) \<le> x \<and> x \<le> b then Some k else mem (gMemoryMap (RemoveMemoryMapEntry e p)) x) =
     (if a \<le> x \<and> x \<le> b then Some k else mem (gMemoryMap p) x)"
    "f \<in> set (gMemoryMap p) \<Longrightarrow> kind f = k \<Longrightarrow> \<not> joins f a b \<Longrightarrow> \<not> joins f (unat (MemStart e)) b"
proof -
  have a: "apart (gMemoryMap p)" "fused (gMemoryMap p)" using p(1) by (simp_all add: map_ok_def)
  have e: "whole_pages (unat (MemStart e)) (unat (MemEnd e))" using a(1) p(2) by (simp add: apart_def)
  then show "whole_pages (unat (MemStart e)) b" using r(1) S by (auto simp: whole_pages_def)
  show "clear (gMemoryMap (RemoveMemoryMapEntry e p)) (unat (MemStart e)) b"
    unfolding clear_def remove_ok(2)[OF p(1,2)]
  proof
    fix f assume "f \<in> set (gMemoryMap p) - {e}"
    then show "unat (MemEnd f) < unat (MemStart e) \<or> b < unat (MemStart f)" using neighbours_apart[OF a(1) p(2) r(2), of f] S by linarith
  qed
  have "mem (gMemoryMap p) x = Some k" if "covers e x" using mem_Some[OF a(1)] p(2,3) that by blast
  then show "(if unat (MemStart e) \<le> x \<and> x \<le> b then Some k else mem (gMemoryMap (RemoveMemoryMapEntry e p)) x) =
     (if a \<le> x \<and> x \<le> b then Some k else mem (gMemoryMap p) x)"
    using S e r(1) by (auto simp: mem_remove[OF p(1,2)] whole_pages_def)
  show "\<not> joins f (unat (MemStart e)) b" if "f \<in> set (gMemoryMap p)" "kind f = k" "\<not> joins f a b"
    using a(2) p(2,3) that unfolding fused_def by blast
qed

lemma join_above:
  assumes p: "map_ok p" "e \<in> set (gMemoryMap p)" "kind e = k" and S: "unat (MemStart e) = b + 1"
    and r: "whole_pages a b" "clear (gMemoryMap p) a b"
  shows "whole_pages a (unat (MemEnd e))" "clear (gMemoryMap (RemoveMemoryMapEntry e p)) a (unat (MemEnd e))"
    "(if a \<le> x \<and> x \<le> unat (MemEnd e) then Some k else mem (gMemoryMap (RemoveMemoryMapEntry e p)) x) =
     (if a \<le> x \<and> x \<le> b then Some k else mem (gMemoryMap p) x)"
    "f \<in> set (gMemoryMap p) \<Longrightarrow> kind f = k \<Longrightarrow> \<not> joins f a b \<Longrightarrow> \<not> joins f a (unat (MemEnd e))"
proof -
  have a: "apart (gMemoryMap p)" "fused (gMemoryMap p)" using p(1) by (simp_all add: map_ok_def)
  have e: "whole_pages (unat (MemStart e)) (unat (MemEnd e))" using a(1) p(2) by (simp add: apart_def)
  then show "whole_pages a (unat (MemEnd e))" using r(1) S by (auto simp: whole_pages_def)
  show "clear (gMemoryMap (RemoveMemoryMapEntry e p)) a (unat (MemEnd e))"
    unfolding clear_def remove_ok(2)[OF p(1,2)]
  proof
    fix f assume "f \<in> set (gMemoryMap p) - {e}"
    then show "unat (MemEnd f) < a \<or> unat (MemEnd e) < unat (MemStart f)" using neighbours_apart[OF a(1) p(2) r(2), of f] S by linarith
  qed
  have "mem (gMemoryMap p) x = Some k" if "covers e x" using mem_Some[OF a(1)] p(2,3) that by blast
  then show "(if a \<le> x \<and> x \<le> unat (MemEnd e) then Some k else mem (gMemoryMap (RemoveMemoryMapEntry e p)) x) =
     (if a \<le> x \<and> x \<le> b then Some k else mem (gMemoryMap p) x)"
    using S e r(1) by (auto simp: mem_remove[OF p(1,2)] whole_pages_def)
  show "\<not> joins f a (unat (MemEnd e))" if "f \<in> set (gMemoryMap p)" "kind f = k" "\<not> joins f a b"
    using a(2) p(2,3) that unfolding fused_def by force
qed

definition grown :: "UINT32 \<times> UINT64 \<Rightarrow> nat \<Rightarrow> nat \<Rightarrow> map_lists \<Rightarrow> nat \<Rightarrow> nat \<Rightarrow> map_lists \<Rightarrow> bool" where
  "grown k a b p a' b' p' \<longleftrightarrow> map_ok p' \<and> whole_pages a' b' \<and> clear (gMemoryMap p') a' b' \<and> (\<forall>e\<in>set (gMemoryMap p'). kind e = k \<longrightarrow> \<not> joins e a' b')
     \<and> mMapDepth p' = mMapDepth p \<and> length (mFreeMemoryMapEntryList p) \<le> length (mFreeMemoryMapEntryList p') \<and> set (gMemoryMap p') \<subseteq> set (gMemoryMap p)
     \<and> (\<forall>x. (if a' \<le> x \<and> x \<le> b' then Some k else mem (gMemoryMap p') x) = (if a \<le> x \<and> x \<le> b then Some k else mem (gMemoryMap p) x))"

lemma add_loop:
  assumes "map_ok p" "set l \<subseteq> set (gMemoryMap p)" "distinct l" "whole_pages (unat S) (unat E)" "clear (gMemoryMap p) (unat S) (unat E)"
    and "\<forall>e\<in>set (gMemoryMap p) - set l. kind e = (ty, A) \<longrightarrow> \<not> joins e (unat S) (unat E)"
    and "AddRange_loop ty A l S E p = (S', E', p')"
  shows "grown (ty, A) (unat S) (unat E) p (unat S') (unat E') p'"
  using assms
proof (induction l arbitrary: S E p)
  case Nil
  then show ?case by (auto simp: grown_def)
next
  case (Cons e l)
  have e: "e \<in> set (gMemoryMap p)" "set l \<subseteq> set (gMemoryMap (RemoveMemoryMapEntry e p))"
    using Cons.prems(1-3) remove_ok(2)[of p e] by auto
  have we: "whole_pages (unat (MemStart e)) (unat (MemEnd e))" using Cons.prems(1) e(1) by (simp add: map_ok_def apart_def)
  have words: "MemEnd e + 1 = S \<longleftrightarrow> unat (MemEnd e) + 1 = unat S" "MemStart e = E + 1 \<longleftrightarrow> unat (MemStart e) = unat E + 1"
    using we Cons.prems(4) unat_plus_1[of "MemEnd e"] unat_plus_1[of E] by (auto simp: whole_pages_def word_unat_eq_iff)
  consider (skip) "kind e \<noteq> (ty, A) \<or> \<not> joins e (unat S) (unat E)" | (below) "kind e = (ty, A)" "unat (MemEnd e) + 1 = unat S"
    | (above) "kind e = (ty, A)" "unat (MemEnd e) + 1 \<noteq> unat S" "unat (MemStart e) = unat E + 1" by auto
  then show ?case
  proof cases
    case skip
    then have "AddRange_loop ty A (e # l) S E p = AddRange_loop ty A l S E p" using words by auto
    then show ?thesis using Cons.IH[OF Cons.prems(1) _ _ Cons.prems(4,5)] Cons.prems skip by auto
  next
    case below
    note j = join_below[OF Cons.prems(1) e(1) below Cons.prems(4,5)] and r = remove_ok[OF Cons.prems(1) e(1)]
    have run: "AddRange_loop ty A l (MemStart e) E (RemoveMemoryMapEntry e p) = (S', E', p')" using Cons.prems(7) below words by auto
    have "grown (ty, A) (unat (MemStart e)) (unat E) (RemoveMemoryMapEntry e p) (unat S') (unat E') p'"
      by (rule Cons.IH[OF r(1) e(2) _ j(1,2) _ run]) (use Cons.prems(3,6) j(4) r(2) in auto)
    then show ?thesis using j(3) r(2-4) unfolding grown_def by auto
  next
    case above
    note j = join_above[OF Cons.prems(1) e(1) above(1,3) Cons.prems(4,5)] and r = remove_ok[OF Cons.prems(1) e(1)]
    have run: "AddRange_loop ty A l S (MemEnd e) (RemoveMemoryMapEntry e p) = (S', E', p')" using Cons.prems(7) above words by auto
    have "grown (ty, A) (unat S) (unat (MemEnd e)) (RemoveMemoryMapEntry e p) (unat S') (unat E') p'"
      by (rule Cons.IH[OF r(1) e(2) _ j(1,2) _ run]) (use Cons.prems(3,6) j(4) r(2) in auto)
    then show ?thesis using j(3) r(2-4) unfolding grown_def by auto
  qed
qed

lemma not_both_aligned: "4096 dvd x + 1 \<Longrightarrow> \<not> 4096 dvd (x :: nat)"
  using dvd_add_right_iff[of 4096 x 1] by auto

lemma whole_words:
  fixes S E :: UINT64
  assumes "whole_pages (unat S) (unat E)"
  shows "S AND EFI_PAGE_MASK = 0" "S < E"
proof -
  have w: "4096 dvd unat S" "4096 dvd unat E + 1" "unat S \<le> unat E" using assms unfolding whole_pages_def by blast+
  have "(2::nat) ^ 12 = 4096" by simp
  then have "2 ^ 12 dvd unat S" using w(1) by metis
  then have "S AND (2 ^ 12 - 1) = 0" using aligned_iff[of 12 S] by simp
  then show "S AND EFI_PAGE_MASK = 0" by (simp only: page_mask)
  have "unat S \<noteq> unat E" using w(1) not_both_aligned[OF w(2)] by metis
  then show "S < E" using w(3) by (metis le_neq_implies_less word_less_nat_alt)
qed

section \<open>Adding a range\<close>

definition add_range :: "UINT32 \<Rightarrow> UINT64 \<Rightarrow> UINT64 \<Rightarrow> UINT64 \<Rightarrow> map_lists \<Rightarrow> map_lists option" where
  "add_range ty Start End Attribute p = (case AddRange_loop ty Attribute (gMemoryMap p) Start End p of (Start, End, p) \<Rightarrow> push_entry ty Start End Attribute p)"

lemma push_ok:
  assumes p: "map_ok p" "mMapDepth p + 1 < MAX_MAP_DEPTH" and r: "whole_pages (unat S) (unat E)" "clear (gMemoryMap p) (unat S) (unat E)"
    and j: "\<forall>e\<in>set (gMemoryMap p). kind e = (ty, A) \<longrightarrow> \<not> joins e (unat S) (unat E)"
  shows "\<exists>p'. push_entry ty S E A p = Some p' \<and> map_ok p' \<and> mMapDepth p' = mMapDepth p + 1 \<and> mFreeMemoryMapEntryList p' = mFreeMemoryMapEntryList p
    \<and> (\<forall>x. mem (gMemoryMap p') x = (if unat S \<le> x \<and> x \<le> unat E then Some (ty, A) else mem (gMemoryMap p) x))"
proof -
  let ?e = "\<lparr>Storage = MapStack (mMapDepth p), MemType = ty, MemStart = S, MemEnd = E, MemAttribute = A\<rparr>"
  let ?p = "p\<lparr>gMemoryMap := gMemoryMap p @ [?e], mMapDepth := mMapDepth p + 1\<rparr>"
  have a: "apart (gMemoryMap p)" "fused (gMemoryMap p)" "stored p" using p(1) by (simp_all add: map_ok_def)
  have st: "MapStack (mMapDepth p) \<notin> Storage ` set (gMemoryMap p)"
  proof
    assume "MapStack (mMapDepth p) \<in> Storage ` set (gMemoryMap p)"
    then obtain f where "f \<in> set (gMemoryMap p)" "Storage f = MapStack (mMapDepth p)" by (metis imageE)
    then show False using a(3) by (auto simp: stored_def)
  qed
  have ap: "apart (gMemoryMap ?p)" using a(1) r st unfolding apart_def clear_def by (auto simp: whole_pages_def)
  have "fused (gMemoryMap ?p)" using a(2) j r(1) unfolding fused_def by (auto simp: whole_pages_def)
  moreover have "slot_ok (mMapDepth p + 1) l t" if "slot_ok (mMapDepth p) l t" for l t using that by (cases t) auto
  then have "stored ?p" using a(3) by (auto simp: stored_def)
  ultimately have "map_ok ?p" using ap by (simp add: map_ok_def)
  moreover have "mem (gMemoryMap ?p) x = (if unat S \<le> x \<and> x \<le> unat E then Some (ty, A) else mem (gMemoryMap p) x)" for x
    by (rule mem_eqI[OF ap]) (use mem_Some[OF a(1), of x] r(2) in \<open>auto simp: clear_def\<close>)
  ultimately show ?thesis using p(2) by (intro exI[of _ ?p]) (simp add: push_entry_def)
qed

lemma add_range_ok:
  assumes p: "map_ok p" "mMapDepth p + 1 < MAX_MAP_DEPTH" and r: "whole_pages (unat S) (unat E)" "clear (gMemoryMap p) (unat S) (unat E)"
  obtains p' where "add_range ty S E A p = Some p'" "map_ok p'" "mMapDepth p' = mMapDepth p + 1"
    "length (mFreeMemoryMapEntryList p) \<le> length (mFreeMemoryMapEntryList p')"
    "\<And>x. mem (gMemoryMap p') x = (if unat S \<le> x \<and> x \<le> unat E then Some (ty, A) else mem (gMemoryMap p) x)"
proof -
  obtain S' E' q where q: "AddRange_loop ty A (gMemoryMap p) S E p = (S', E', q)" by (metis prod_cases3)
  have "distinct (gMemoryMap p)" using p(1) apart_distinct by (auto simp: map_ok_def)
  then have g: "grown (ty, A) (unat S) (unat E) p (unat S') (unat E') q" by (intro add_loop[OF p(1) _ _ r _ q]) auto
  obtain p' where "push_entry ty S' E' A q = Some p'" "map_ok p'" "mMapDepth p' = mMapDepth q + 1" "mFreeMemoryMapEntryList p' = mFreeMemoryMapEntryList q"
    "\<And>x. mem (gMemoryMap p') x = (if unat S' \<le> x \<and> x \<le> unat E' then Some (ty, A) else mem (gMemoryMap q) x)"
    using push_ok[of q S' E' ty A] g p(2) unfolding grown_def by auto
  then show thesis using g q by (intro that[of p']) (auto simp: add_range_def grown_def)
qed

section \<open>Pulling a range out of a descriptor\<close>

lemma put_entry_fields [simp]: "mMapDepth (put_entry e e' p) = mMapDepth p" "mFreeMemoryMapEntryList (put_entry e e' p) = mFreeMemoryMapEntryList p"
  by (simp_all add: put_entry_def)

lemma shrink_map:
  assumes a: "apart m" "fused m" "e \<in> set m" and m': "set m' = insert e' (set m - {e})" "distinct (map Storage m')"
    and e': "kind e' = kind e" "whole_pages (unat (MemStart e')) (unat (MemEnd e'))" "unat (MemStart e) \<le> unat (MemStart e')" "unat (MemEnd e') \<le> unat (MemEnd e)"
  shows "apart m'" "fused m'" "mem m' x = (if covers e x then if covers e' x then Some (kind e) else None else mem m x)"
proof -
  have sep: "unat (MemEnd f) < unat (MemStart e) \<or> unat (MemEnd e) < unat (MemStart f)" "unat (MemStart f) \<le> unat (MemEnd f)"
      if "f \<in> set m - {e}" for f using a(1,3) that by (auto simp: apart_def whole_pages_def)
  have gap: "unat (MemEnd f) < unat (MemStart e') \<or> unat (MemEnd e') < unat (MemStart f)" if "f \<in> set m - {e}" for f
    using sep(1)[OF that] e'(3,4) by linarith
  show ap: "apart m'" using a(1) e'(2) gap m'(2) unfolding apart_def m'(1) by auto
  have le: "unat (MemStart e') \<le> unat (MemEnd e')" using e'(2) by (simp add: whole_pages_def)
  have "unat (MemEnd e') = unat (MemEnd e)" if "f \<in> set m - {e}" "unat (MemEnd e') + 1 = unat (MemStart f)" for f
    using sep[OF that(1)] that(2) e'(3,4) le by linarith
  moreover have "unat (MemStart e') = unat (MemStart e)" if "f \<in> set m - {e}" "unat (MemEnd f) + 1 = unat (MemStart e')" for f
    using sep[OF that(1)] that(2) e'(3,4) le by linarith
  ultimately have "kind f \<noteq> kind g" if "f \<in> insert e' (set m - {e})" "g \<in> insert e' (set m - {e})" "unat (MemEnd f) + 1 = unat (MemStart g)" for f g
    using a(2,3) e'(1) le that unfolding fused_def by (cases "f = e'"; cases "g = e'") auto
  then show "fused m'" unfolding fused_def m'(1) by blast
  show "mem m' x = (if covers e x then if covers e' x then Some (kind e) else None else mem m x)"
  proof (cases "covers e x")
    case True
    then have "\<not> covers f x" if "f \<in> set m - {e}" for f using sep(1)[OF that] by linarith
    then show ?thesis using True e'(1) by (intro mem_eqI[OF ap]) (auto simp: m'(1))
  next
    case False
    then have "\<not> covers e' x" using e'(3,4) by linarith
    then show ?thesis using False mem_Some[OF a(1), of x] by (intro mem_eqI[OF ap]) (auto simp: m'(1))
  qed
qed

lemma shrink_ok:
  assumes p: "map_ok p" "e \<in> set (gMemoryMap p)" and e': "Storage e' = Storage e" "kind e' = kind e" "whole_pages (unat (MemStart e')) (unat (MemEnd e'))"
      "unat (MemStart e) \<le> unat (MemStart e')" "unat (MemEnd e') \<le> unat (MemEnd e)"
  shows "map_ok (put_entry e e' p)" "mem (gMemoryMap (put_entry e e' p)) x = (if covers e x then if covers e' x then Some (kind e) else None else mem (gMemoryMap p) x)"
    "set (gMemoryMap (put_entry e e' p)) = insert e' (set (gMemoryMap p) - {e})"
proof -
  let ?p = "put_entry e e' p"
  have a: "apart (gMemoryMap p)" "fused (gMemoryMap p)" "stored p" using p(1) by (simp_all add: map_ok_def)
  show set: "set (gMemoryMap ?p) = insert e' (set (gMemoryMap p) - {e})" using p(2) by (auto simp: put_entry_def)
  have "map Storage (gMemoryMap ?p) = map Storage (gMemoryMap p)" using e'(1) by (simp add: put_entry_def)
  then have "distinct (map Storage (gMemoryMap ?p))" using a(1) by (simp add: apart_def)
  note sh = shrink_map[OF a(1,2) p(2) set this e'(2-5)]
  have "stored ?p" using a(3) p(2) e'(1) unfolding stored_def set put_entry_fields by auto
  then show "map_ok ?p" using sh(1,2) by (simp add: map_ok_def)
  show "mem (gMemoryMap ?p) x = (if covers e x then if covers e' x then Some (kind e) else None else mem (gMemoryMap p) x)" by (rule sh(3))
qed

lemma pull_ok:
  assumes p: "map_ok p" "e \<in> set (gMemoryMap p)" "mMapDepth p + 1 < MAX_MAP_DEPTH"
    and r: "whole_pages (unat S) (unat R)" "unat (MemStart e) \<le> unat S" "unat R \<le> unat (MemEnd e)"
  obtains p' where "pull_range S R e p = Some p'" "map_ok p'" "mMapDepth p \<le> mMapDepth p'" "mMapDepth p' \<le> mMapDepth p + 1" 
    "MemStart e = S \<or> MemEnd e = R \<Longrightarrow> mMapDepth p' = mMapDepth p" "length (mFreeMemoryMapEntryList p) \<le> length (mFreeMemoryMapEntryList p')"
    "MemStart e = S \<Longrightarrow> MemEnd e = R \<Longrightarrow> (\<exists>a. Storage e = FromPages a) \<Longrightarrow> length (mFreeMemoryMapEntryList p') = length (mFreeMemoryMapEntryList p) + 1"
    "\<And>x. mem (gMemoryMap p') x = (if unat S \<le> x \<and> x \<le> unat R then None else mem (gMemoryMap p) x)"
proof -
  have a: "apart (gMemoryMap p)" using p(1) by (simp add: map_ok_def)
  have e: "whole_pages (unat (MemStart e)) (unat (MemEnd e))" using a p(2) by (simp add: apart_def)
  have me: "mem (gMemoryMap p) x = Some (kind e)" if "covers e x" for x using mem_Some[OF a] p(2) that by blast
  have R1: "unat (R + 1) = unat R + 1" using unat_plus_1[of R] r(1) by (simp add: whole_pages_def)
  have S1: "unat (S - 1) = unat S - 1" if "unat S \<noteq> 0" using that by (simp add: unat_minus_one unat_gt_0)
  have RE: "R + 1 = MemEnd e + 1 \<longleftrightarrow> R = MemEnd e" by simp
  consider (all) "MemStart e = S" "MemEnd e = R" | (front) "MemStart e = S" "unat R < unat (MemEnd e)"
    | (rear) "unat (MemStart e) < unat S" "MemEnd e = R" | (middle) "unat (MemStart e) < unat S" "unat R < unat (MemEnd e)"
    using r(2,3) by (metis le_neq_implies_less word_unat_eq_iff)
  then show thesis
  proof cases
    case all
    then show thesis using remove_ok[OF p(1,2)] mem_remove[OF p(1,2)] by (intro that[of "RemoveMemoryMapEntry e p"]) (auto simp: pull_range_def)
  next
    case front
    let ?e = "e\<lparr>MemStart := R + 1\<rparr>"
    have w: "whole_pages (unat (MemStart ?e)) (unat (MemEnd ?e))" "unat (MemStart e) \<le> unat (MemStart ?e)"
      using e r front R1 by (auto simp: whole_pages_def)
    note sh = shrink_ok[OF p(1,2), of ?e, simplified, OF w[simplified]]
    show thesis by (rule that[of "put_entry e ?e p"]) (use front sh(1,2) me r(1,2) R1 in \<open>auto simp: pull_range_def whole_pages_def\<close>)
  next
    case rear
    let ?e = "e\<lparr>MemEnd := S - 1\<rparr>"
    have w: "whole_pages (unat (MemStart ?e)) (unat (MemEnd ?e))" "unat (MemEnd ?e) \<le> unat (MemEnd e)"
      using e r rear S1 by (auto simp: whole_pages_def)
    note sh = shrink_ok[OF p(1,2), of ?e, simplified, OF w[simplified]]
    show thesis by (rule that[of "put_entry e ?e p"]) (use rear sh(1,2) me r S1 in \<open>auto simp: pull_range_def whole_pages_def\<close>)
  next
    case middle
    let ?e = "e\<lparr>MemEnd := S - 1\<rparr>"
    have w: "whole_pages (unat (MemStart ?e)) (unat (MemEnd ?e))" "unat (MemEnd ?e) \<le> unat (MemEnd e)"
      using e r middle S1 by (auto simp: whole_pages_def)
    note sh = shrink_ok[OF p(1,2), of ?e, simplified, OF w[simplified]]
    have sep: "unat (MemEnd f) < unat (MemStart e) \<or> unat (MemEnd e) < unat (MemStart f)" "unat (MemStart f) \<le> unat (MemEnd f)"
      if "f \<in> set (gMemoryMap p) - {e}" for f using a p(2) that by (auto simp: apart_def whole_pages_def)
    have t: "whole_pages (unat (R + 1)) (unat (MemEnd e))" using e r R1 middle by (auto simp: whole_pages_def)
    have "clear (gMemoryMap (put_entry e ?e p)) (unat (R + 1)) (unat (MemEnd e))"
      unfolding clear_def sh(3) using sep S1 R1 r(1,2) middle by (fastforce simp: whole_pages_def)
    moreover have "\<not> joins f (unat (R + 1)) (unat (MemEnd e))" if "f \<in> set (gMemoryMap (put_entry e ?e p))" "kind f = kind e" for f
    proof (cases "f = ?e")
      case True
      then show ?thesis using S1 R1 r(1) middle by (auto simp: whole_pages_def)
    next
      case False
      then have f: "f \<in> set (gMemoryMap p) - {e}" using that(1) sh(3) by auto
      then have "unat (MemEnd e) + 1 \<noteq> unat (MemStart f)" using p(1,2) that(2) f unfolding map_ok_def fused_def by (metis DiffD1)
      then show ?thesis using sep[OF f] R1 r(1,2) middle by (auto simp: whole_pages_def)
    qed
    ultimately obtain p' where p': "push_entry (MemType e) (R + 1) (MemEnd e) (MemAttribute e) (put_entry e ?e p) = Some p'" "map_ok p'" "mMapDepth p' = mMapDepth p + 1"
      "mFreeMemoryMapEntryList p' = mFreeMemoryMapEntryList p"
      "\<And>x. mem (gMemoryMap p') x = (if unat (R + 1) \<le> x \<and> x \<le> unat (MemEnd e) then Some (kind e) else mem (gMemoryMap (put_entry e ?e p)) x)"
      using push_ok[OF sh(1) _ t, of "MemType e" "MemAttribute e"] p(3) by auto
    have gap: "unat (MemStart e) < unat (S - 1)" using e r(1) middle(1) S1 by (auto simp: whole_pages_def elim!: dvdE)
    have m: "mem (gMemoryMap p') x = (if unat S \<le> x \<and> x \<le> unat R then None else mem (gMemoryMap p) x)" for x
      unfolding p'(5) sh(2) using me[of x] R1 S1 r middle by (auto simp: whole_pages_def)
    show thesis by (rule that[of p']) (use middle gap p'(1-4) m in \<open>auto simp: pull_range_def word_less_nat_alt\<close>)
  qed
qed

section \<open>Moving descriptors out of the array\<close>

lemma free_slot_ok:
  assumes p: "map_ok p" "0 < mMapDepth p" and a: "a \<noteq> 0" "a \<notin> set (mFreeMemoryMapEntryList p)" "\<forall>e\<in>set (gMemoryMap p). Storage e \<noteq> FromPages a"
  shows "map_ok (free_slot a p)" "mMapDepth (free_slot a p) = mMapDepth p - 1" "mem (gMemoryMap (free_slot a p)) x = mem (gMemoryMap p) x"
    "length (mFreeMemoryMapEntryList p) \<le> length (mFreeMemoryMapEntryList (free_slot a p))"
proof -
  let ?d = "mMapDepth p - 1" and ?q = "free_slot a p"
  have k: "apart (gMemoryMap p)" "fused (gMemoryMap p)" "stored p" using p(1) by (simp_all add: map_ok_def)
  have "map_ok ?q \<and> mMapDepth ?q = mMapDepth p - 1 \<and> mem (gMemoryMap ?q) x = mem (gMemoryMap p) x \<and> length (mFreeMemoryMapEntryList p) \<le> length (mFreeMemoryMapEntryList ?q)"
  proof (cases "find (\<lambda>e. Storage e = MapStack ?d) (gMemoryMap p)")
    case None
    then have none: "\<forall>e\<in>set (gMemoryMap p). Storage e \<noteq> MapStack ?d" by (simp add: find_None_iff')
    have "slot_ok ?d (mFreeMemoryMapEntryList p @ [a]) (Storage f)" if f: "f \<in> set (gMemoryMap p)" for f
    proof -
      have "slot_ok (mMapDepth p) (mFreeMemoryMapEntryList p) (Storage f)" using k(3) f by (simp add: stored_def)
      then show ?thesis using none a(3) f by (cases "Storage f") auto
    qed
    then have "stored ?q" using k(3) a None by (auto simp: stored_def free_slot_def Let_def)
    then show ?thesis using k None by (simp add: free_slot_def map_ok_def Let_def)
  next
    case (Some e)
    then have e: "e \<in> set (gMemoryMap p)" "Storage e = MapStack ?d" using find_SomeD by fastforce+
    let ?e = "e\<lparr>Storage := FromPages a\<rparr>" and ?m = "remove1 e (gMemoryMap p)"
    let ?B = "\<lambda>f. \<not> ((\<exists>b. Storage f = FromPages b) \<and> MemStart f > MemStart e)"
    have q: "?q = p\<lparr>mMapDepth := ?d, gMemoryMap := takeWhile ?B ?m @ [?e] @ dropWhile ?B ?m\<rparr>" using Some by (simp add: free_slot_def Let_def)
    obtain T D where TD: "takeWhile ?B ?m = T" "dropWhile ?B ?m = D" "?m = T @ D" using takeWhile_dropWhile_id[of ?B ?m] by metis
    have gq: "gMemoryMap ?q = T @ [?e] @ D" unfolding q using TD(1,2) by simp
    have TS: "set T \<union> set D = set (gMemoryMap p) - {e}" using apart_distinct[OF k(1)] TD(3) by (metis set_append set_remove1_eq)
    then have set: "set (gMemoryMap ?q) = insert ?e (set (gMemoryMap p) - {e})" unfolding gq by auto
    have "distinct (map Storage (T @ D))" using k(1) distinct_storage_remove1[of "gMemoryMap p" e] unfolding apart_def TD(3) by blast
    moreover have "FromPages a \<notin> Storage ` (set T \<union> set D)" unfolding TS using a(3) by force
    ultimately have "distinct (map Storage (gMemoryMap ?q))" unfolding gq by auto
    note sh = shrink_map[OF k(1,2) e(1) set this, simplified]
    have w: "whole_pages (unat (MemStart e)) (unat (MemEnd e))" using k(1) e(1) by (simp add: apart_def)
    have "slot_ok ?d (mFreeMemoryMapEntryList p) (Storage f)" if f: "f \<in> set (gMemoryMap p) - {e}" for f
    proof -
      have "slot_ok (mMapDepth p) (mFreeMemoryMapEntryList p) (Storage f)" "Storage f \<noteq> MapStack ?d"
        using k(3) f storage_inj[OF k(1) _ e(1), of f] e(2) by (auto simp: stored_def)
      then show ?thesis by (cases "Storage f") auto
    qed
    moreover have "mMapDepth ?q = ?d" "mFreeMemoryMapEntryList ?q = mFreeMemoryMapEntryList p" by (simp_all add: q)
    ultimately have "stored ?q" using k(3) a(1,2) unfolding stored_def set by auto
    then show ?thesis using sh[OF w] mem_Some[OF k(1), of x "kind e"] e(1) by (auto simp: map_ok_def) (auto simp: q)
  qed
  then show "map_ok ?q" "mMapDepth ?q = mMapDepth p - 1" "mem (gMemoryMap ?q) x = mem (gMemoryMap p) x" "length (mFreeMemoryMapEntryList p) \<le> length (mFreeMemoryMapEntryList ?q)"
    by blast+
qed

text \<open>Taking a descriptor off the list of free ones.\<close>

lemma pop_ok:
  assumes "map_ok p" "mFreeMemoryMapEntryList p = a # l"
  shows "map_ok (p\<lparr>mFreeMemoryMapEntryList := l\<rparr>)" "a \<noteq> 0" "a \<notin> set l" "\<forall>e\<in>set (gMemoryMap p). Storage e \<noteq> FromPages a"
proof -
  have "slot_ok d l t" if "slot_ok d (a # l) t" for d t using that by (cases t) auto
  then show "map_ok (p\<lparr>mFreeMemoryMapEntryList := l\<rparr>)" using assms by (auto simp: map_ok_def stored_def)
  show "a \<noteq> 0" "a \<notin> set l" using assms by (auto simp: map_ok_def stored_def)
  have "slot_ok (mMapDepth p) (a # l) (Storage e)" if "e \<in> set (gMemoryMap p)" for e using assms that by (auto simp: map_ok_def stored_def)
  then show "\<forall>e\<in>set (gMemoryMap p). Storage e \<noteq> FromPages a" by (metis list.set_intros(1) slot_ok.simps(2))
qed

lemma whole_part:
  assumes "apart m" "e \<in> set m" "covers e (unat S)" "whole_pages (unat S) (unat E)"
  shows "whole_pages (unat S) (unat (if MemEnd e < E then MemEnd e else E))"
  using assms by (auto simp: apart_def whole_pages_def word_less_nat_alt)

lemma clearI:
  assumes a: "apart m" and ab: "a \<le> b" and none: "\<And>x. a \<le> x \<Longrightarrow> x \<le> b \<Longrightarrow> mem m x = None"
  shows "clear m a b"
  unfolding clear_def
proof
  fix g assume g: "g \<in> set m"
  have w: "unat (MemStart g) \<le> unat (MemEnd g)" using a g by (simp add: apart_def whole_pages_def)
  have h: "\<not> covers g x" if "a \<le> x" "x \<le> b" for x using none[OF that] g by (auto simp: mem_None)
  show "unat (MemEnd g) < a \<or> b < unat (MemStart g)"
  proof (rule ccontr)
    assume "\<not> (unat (MemEnd g) < a \<or> b < unat (MemStart g))"
    then show False using h[of "max a (unat (MemStart g))"] w ab by simp
  qed
qed

lemma next_page:
  assumes "(4096 :: nat) dvd a" "4096 dvd b" "a < b"
  shows "a + 4096 \<le> b"
proof -
  obtain i j where "a = 4096 * i" "b = 4096 * j" using assms(1,2) by (auto elim!: dvdE)
  then show ?thesis using assms(3) by simp
qed

section \<open>Finding descriptors\<close>

text \<open>The descriptor that the loop finds is the one that covers the address.\<close>

lemma found_entry:
  assumes "apart m" "4096 dvd unat S"
  shows "find (\<lambda>e. MemStart e \<le> S \<and> MemEnd e > S) m = Some e \<longleftrightarrow> e \<in> set m \<and> covers e (unat S)"
    "find (\<lambda>e. MemStart e \<le> S \<and> MemEnd e > S) m = None \<longleftrightarrow> mem m (unat S) = None"
proof -
  have c: "MemStart e \<le> S \<and> MemEnd e > S \<longleftrightarrow> covers e (unat S)" if "e \<in> set m" for e
  proof -
    have "4096 dvd unat (MemEnd e) + 1" using assms(1) that by (simp add: apart_def whole_pages_def)
    then have "unat (MemEnd e) \<noteq> unat S" using not_both_aligned assms(2) by metis
    then show ?thesis by (auto simp: word_le_nat_alt word_less_nat_alt)
  qed
  show "find (\<lambda>e. MemStart e \<le> S \<and> MemEnd e > S) m = Some e \<longleftrightarrow> e \<in> set m \<and> covers e (unat S)"
  proof
    assume "find (\<lambda>e. MemStart e \<le> S \<and> MemEnd e > S) m = Some e"
    then show "e \<in> set m \<and> covers e (unat S)" using find_SomeD[of _ m e] c[of e] by auto
  next
    assume e: "e \<in> set m \<and> covers e (unat S)"
    show "find (\<lambda>e. MemStart e \<le> S \<and> MemEnd e > S) m = Some e"
    proof (rule find_unique)
      show "e \<in> set m" "MemStart e \<le> S \<and> MemEnd e > S" using e c by auto
      show "f = e" if "f \<in> set m" "MemStart f \<le> S \<and> MemEnd f > S" for f
        using apart_unique[OF assms(1) that(1), of e "unat S"] c[OF that(1)] that(2) e by blast
    qed
  qed
  show "find (\<lambda>e. MemStart e \<le> S \<and> MemEnd e > S) m = None \<longleftrightarrow> mem m (unat S) = None"
    using c by (auto simp: find_None_iff' mem_None)
qed

text \<open>A range of one kind lies in one descriptor, since no two descriptors that adjoin could be one.\<close>

lemma range_in_entry:
  assumes m: "apart m" "fused m" and e: "e \<in> set m" "covers e a" and same: "\<And>x. a \<le> x \<Longrightarrow> x \<le> b \<Longrightarrow> mem m x = Some (kind e)"
  shows "b \<le> unat (MemEnd e)"
proof (rule ccontr)
  assume "\<not> b \<le> unat (MemEnd e)"
  then have "mem m (unat (MemEnd e) + 1) = Some (kind e)" using same[of "unat (MemEnd e) + 1"] e(2) by simp
  then obtain f where f: "f \<in> set m" "covers f (unat (MemEnd e) + 1)" "kind f = kind e" using mem_Some[OF m(1)] by blast
  then have "f \<noteq> e" by auto
  then have "unat (MemEnd f) < unat (MemStart e) \<or> unat (MemEnd e) < unat (MemStart f)" using m(1) e(1) f(1) unfolding apart_def by blast
  then have "unat (MemStart f) = unat (MemEnd e) + 1" using f(2) e(2) by linarith
  then show False using m(2) e(1) f unfolding fused_def by metis
qed

section \<open>The search for free pages\<close>

lemma page_end_kept:
  fixes d :: UINT64
  assumes "4096 dvd unat d + 1"
  shows "((d + 1) AND NOT 0xFFF) - 1 = d"
proof -
  have dv: "4096 dvd unat (d + 1)"
  proof (cases "d + 1 = 0")
    case False
    then have "unat (d + 1) = unat d + 1" using unatSuc[of d] by (simp add: add.commute)
    then show ?thesis using assms by simp
  qed simp
  have p: "(2::nat) ^ 12 = 4096" by simp
  have "unat ((d + 1) AND NOT (2 ^ 12 - 1)) = unat (d + 1) - unat (d + 1) mod 2 ^ 12" by (rule align_down) simp
  then have "unat ((d + 1) AND NOT 0xFFF) = unat (d + 1)" unfolding page_mask p using dv by (metis diff_zero dvd_imp_mod_0)
  then have "(d + 1) AND NOT 0xFFF = d + 1" by (simp only: word_unat_eq_iff)
  then show ?thesis by simp
qed

text \<open>Whether a descriptor has room for \<open>B\<close> bytes between two addresses, and the highest address that the room could end at.\<close>

abbreviation upper :: "UINT64 \<Rightarrow> MEMORY_MAP \<Rightarrow> nat" where
  "upper hi e \<equiv> min (unat (MemEnd e)) (unat hi)"

definition usable :: "UINT64 \<Rightarrow> UINT64 \<Rightarrow> nat \<Rightarrow> MEMORY_MAP \<Rightarrow> bool" where
  "usable hi lo B e \<longleftrightarrow> MemType e = EfiConventional \<and> unat (MemStart e) < unat hi \<and> unat lo \<le> unat (MemEnd e)
     \<and> unat (MemStart e) + B \<le> upper hi e + 1 \<and> unat lo + B \<le> upper hi e + 1"

lemma find_step:
  assumes w: "whole_pages (unat (MemStart e)) (unat (MemEnd e))" and hi: "4096 dvd unat hi + 1"
    and al: "\<And>d. 4096 dvd unat d + 1 \<Longrightarrow> ((d + 1) AND NOT (al - 1)) - 1 = d" and B: "0 < B"
  shows "FindFreePages_loop hi lo B al (e # l) T =
    FindFreePages_loop hi lo B al l (if usable hi lo (unat B) e \<and> unat T < upper hi e then (if MemEnd e \<ge> hi then hi else MemEnd e) else T)"
proof -
  define d where "d = (if MemEnd e \<ge> hi then hi else MemEnd e)"
  have d: "unat d = upper hi e" by (auto simp: d_def word_le_nat_alt)
  have "4096 dvd unat d + 1" using w hi by (auto simp: d_def whole_pages_def)
  then have ad: "((d + 1) AND NOT (al - 1)) - 1 = d" by (rule al)
  have Bn: "0 < unat B" using B by (simp add: word_less_nat_alt)
  show ?thesis
  proof (cases "MemType e \<noteq> EfiConventional \<or> MemStart e \<ge> hi \<or> MemEnd e < lo")
    case True
    then have "\<not> usable hi lo (unat B) e" by (auto simp: usable_def word_le_nat_alt word_less_nat_alt)
    then show ?thesis using True by (simp add: Let_def)
  next
    case False
    then have f: "MemType e = EfiConventional" "unat (MemStart e) < unat hi" "unat lo \<le> unat (MemEnd e)"
      by (auto simp: word_le_nat_alt word_less_nat_alt)
    have sd: "unat (MemStart e) \<le> unat d" using w f(2) d by (simp add: whole_pages_def)
    have d1: "unat d + 1 < 2 ^ 64" using w d by (auto simp: whole_pages_def)
    have "unat (d - MemStart e) = unat d - unat (MemStart e)" using sd by (simp add: unat_sub word_le_nat_alt)
    moreover have "unat (d - MemStart e) + 1 < 2 ^ 64" using calculation d1 by linarith
    ultimately have "unat (d - MemStart e + 1) = unat d - unat (MemStart e) + 1" using unat_plus_1 by metis
    then have fits: "d - MemStart e + 1 \<ge> B \<longleftrightarrow> unat (MemStart e) + unat B \<le> unat d + 1"
      using sd by (simp only: word_le_nat_alt) linarith
    have low: "d - B + 1 < lo \<longleftrightarrow> \<not> unat lo + unat B \<le> unat d + 1" if "unat (MemStart e) + unat B \<le> unat d + 1"
    proof -
      have u: "unat (d + 1) = unat d + 1" using unat_plus_1 d1 by metis
      then have "B \<le> d + 1" using that by (simp add: word_le_nat_alt)
      then have "unat (d - B + 1) = unat d + 1 - unat B" using u unat_sub[of B "d + 1"] by (simp add: algebra_simps)
      then show ?thesis using that by (simp only: word_less_nat_alt) linarith
    qed
    have "(d - MemStart e + 1 \<ge> B \<and> \<not> d - B + 1 < lo \<and> d > T) \<longleftrightarrow> usable hi lo (unat B) e \<and> unat T < upper hi e"
      using fits low f by (auto simp: usable_def d word_less_nat_alt)
    moreover have "\<not> d < MemStart e" using sd by (simp add: word_less_nat_alt)
    ultimately show ?thesis using False ad unfolding FindFreePages_loop.simps Let_def d_def[symmetric] by (simp del: FindFreePages_loop.simps)
  qed
qed

lemma find_loop:
  assumes w: "\<forall>e\<in>set l. whole_pages (unat (MemStart e)) (unat (MemEnd e))" and hi: "4096 dvd unat hi + 1"
    and al: "\<And>d. 4096 dvd unat d + 1 \<Longrightarrow> ((d + 1) AND NOT (al - 1)) - 1 = d" and B: "0 < B"
  shows "unat T \<le> unat (FindFreePages_loop hi lo B al l T)
    \<and> (\<forall>e\<in>set l. usable hi lo (unat B) e \<longrightarrow> upper hi e \<le> unat (FindFreePages_loop hi lo B al l T))
    \<and> (FindFreePages_loop hi lo B al l T = T \<or> (\<exists>e\<in>set l. usable hi lo (unat B) e \<and> unat (FindFreePages_loop hi lo B al l T) = upper hi e))"
  using w
proof (induction l arbitrary: T)
  case (Cons e l)
  define T' where "T' = (if usable hi lo (unat B) e \<and> unat T < upper hi e then (if MemEnd e \<ge> hi then hi else MemEnd e) else T)"
  have r: "FindFreePages_loop hi lo B al (e # l) T = FindFreePages_loop hi lo B al l T'"
    unfolding T'_def by (rule find_step) (use Cons.prems hi al B in simp_all)
  have "unat T' = (if usable hi lo (unat B) e then max (unat T) (upper hi e) else unat T)" by (auto simp: T'_def word_le_nat_alt)
  moreover have "T' = T \<or> usable hi lo (unat B) e \<and> unat T' = upper hi e" by (auto simp: T'_def word_le_nat_alt)
  ultimately show ?case unfolding r using Cons.IH[of T'] Cons.prems by (auto simp del: FindFreePages_loop.simps)
qed simp

text \<open>The last address of the last whole page below a bound.\<close>

lemma page_top:
  assumes "0xFFF \<le> M"
  shows "unat (page_top M) + 1 = (unat M + 1) div 4096 * 4096"
proof -
  have p: "(2::nat) ^ 12 = 4096" by simp
  have m: "M AND 0xFFF = take_bit 12 M" using take_bit_eq_mask[of 12 M] by (simp add: mask_eq_exp_minus_1)
  have four: "4095 \<le> unat M" using assms by (simp add: word_le_nat_alt)
  show ?thesis
  proof (cases "M AND 0xFFF \<noteq> 0xFFF")
    case True
    then have ne: "unat M mod 4096 \<noteq> 4095" unfolding m word_unat_eq_iff by (simp add: unat_take_bit)
    then have "unat M \<noteq> 4095" by auto
    then have ge: "4096 \<le> unat M" using four by simp
    then have x: "unat (M - 0x1000) = unat M - 4096" by (subst unat_sub) (simp_all add: word_le_nat_alt)
    let ?y = "(M - 0x1000) AND NOT 0xFFF"
    have "unat ((M - 0x1000) AND NOT (2 ^ 12 - 1)) = unat (M - 0x1000) - unat (M - 0x1000) mod 2 ^ 12" by (rule align_down) simp
    then have y: "unat ?y = unat M - 4096 - (unat M - 4096) mod 4096" unfolding page_mask p x .
    have "?y AND 0xFFF = 0" unfolding and.assoc by simp
    then have o: "?y OR 0xFFF = ?y + 0xFFF" by (rule disjunctive_add_eq_or[symmetric])
    have "(unat M - 4096) mod 4096 = unat M mod 4096" using ge by (metis le_mod_geq)
    moreover have "unat M div 4096 * 4096 + unat M mod 4096 = unat M" "unat M mod 4096 < 4096" by simp_all
    ultimately have y': "unat ?y + 4096 = unat M div 4096 * 4096" using y ge by linarith
    have "unat M < 2 ^ 64" using unat_less_power[of M] by simp
    then have "unat ?y + 4095 < 2 ^ 64" using y ge by linarith
    then have "unat (?y + 0xFFF) = unat ?y + 4095" by (simp add: unat_word_ariths)
    moreover have "page_top M = ?y OR 0xFFF" unfolding page_top_def using True by (rule if_P)
    ultimately have "unat (page_top M) = unat ?y + 4095" using o by metis
    then have pt: "unat (page_top M) + 1 = unat M div 4096 * 4096" using y' by linarith
    have "(unat M + 1) div 4096 = unat M div 4096"
    proof (rule div_nat_eqI)
      have "unat M mod 4096 < 4095" using ne mod_less_divisor[of 4096 "unat M"] by linarith
      then have "4096 * (unat M div 4096) \<le> unat M + 1" "unat M + 1 < 4096 + 4096 * (unat M div 4096)"
        using div_mult_mod_eq[of "unat M" 4096] by linarith+
      then show "4096 * (unat M div 4096) \<le> unat M + 1" "unat M + 1 < 4096 * Suc (unat M div 4096)" unfolding mult_Suc_right .
    qed
    then show ?thesis unfolding pt by (rule arg_cong[symmetric])
  next
    case False
    then have "unat M mod 4096 = 4095" unfolding m word_unat_eq_iff by (simp add: unat_take_bit)
    then have "4096 dvd unat M + 1" by (simp add: dvd_eq_mod_eq_0 mod_Suc)
    then show ?thesis using False by (simp add: page_top_def)
  qed
qed

text \<open>The lowest address of a page range of \<open>B\<close> bytes of free memory of one attribute, between two bounds; address 0 is not given out.\<close>

definition room :: "MEMORY_MAP list \<Rightarrow> nat \<Rightarrow> nat \<Rightarrow> nat \<Rightarrow> nat \<Rightarrow> bool" where
  "room m lo hi B a \<longleftrightarrow> 4096 dvd a \<and> 0 < a \<and> lo \<le> a \<and> a + B \<le> hi + 1 \<and> (\<exists>A. \<forall>x. a \<le> x \<and> x < a + B \<longrightarrow> mem m x = Some (EfiConventional, A))"

lemma usable_room:
  assumes m: "apart m" and e: "e \<in> set m" "usable hi lo B e" and hi: "4096 dvd unat hi + 1" "unat hi \<le> H" and B: "4096 dvd B" "B < upper hi e + 1"
  shows "room m (unat lo) H B (upper hi e + 1 - B)"
proof -
  have w: "whole_pages (unat (MemStart e)) (unat (MemEnd e))" using m e(1) by (simp add: apart_def)
  have "4096 dvd upper hi e + 1" using w hi by (auto simp: whole_pages_def min_def)
  then have "4096 dvd upper hi e + 1 - B" using B(1) by (rule dvd_diff_nat)
  moreover have "mem m x = Some (EfiConventional, MemAttribute e)" if "upper hi e + 1 - B \<le> x" "x < upper hi e + 1 - B + B" for x
  proof -
    have "unat (MemStart e) + B \<le> upper hi e + 1" using e(2) by (simp add: usable_def)
    then have "unat (MemStart e) \<le> x" "x \<le> unat (MemEnd e)" using that B(2) by linarith+
    then show ?thesis using mem_Some[OF m] e by (auto simp: usable_def)
  qed
  ultimately show ?thesis using B(2) e(2) hi(2) unfolding room_def by (auto simp: usable_def)
qed

lemma room_usable:
  assumes m: "apart m" "fused m" and r: "room m (unat lo) (unat M) B b" and hi: "unat hi + 1 = (unat M + 1) div 4096 * 4096" and B: "4096 dvd B" "0 < B"
  obtains e where "e \<in> set m" "usable hi lo B e" "b + B \<le> upper hi e + 1"
proof -
  obtain A where A: "\<And>x. b \<le> x \<Longrightarrow> x < b + B \<Longrightarrow> mem m x = Some (EfiConventional, A)" using r by (auto simp: room_def)
  obtain e where e: "e \<in> set m" "covers e b" "kind e = (EfiConventional, A)" using mem_Some[OF m(1)] A[of b] B(2) by auto
  have last: "b + B - 1 \<le> unat (MemEnd e)" by (rule range_in_entry[OF m e(1,2)]) (use A e(3) B(2) in auto)
  have "4096 dvd b + B" "b + B \<le> unat M + 1" using r B(1) by (simp_all add: room_def)
  then have "b + B \<le> unat hi + 1" unfolding hi by (metis div_le_mono dvd_div_mult_self mult_le_mono1)
  moreover have "2 \<le> B" using B by (auto elim!: dvdE)
  ultimately show thesis using that[OF e(1)] e last r by (auto simp: usable_def room_def)
qed

lemma page_bytes: "4096 dvd unat (push_bit 12 (N :: UINT64))"
  by (simp add: push_bit_eq_mult unat_word_ariths dvd_mod)

lemma page_size_exact: "4096 * unat N < 2 ^ 64 \<Longrightarrow> unat (push_bit 12 N) = 4096 * unat (N :: UINT64)"
  by (simp add: push_bit_eq_mult unat_word_ariths)

lemma find_pages:
  assumes m: "apart m" "fused m" and N: "unat (push_bit 12 N) \<noteq> 0"
  shows "\<exists>a. CoreFindFreePagesI M lo N 0x1000 m = Some a
    \<and> (if a = 0 then \<forall>b. \<not> room m (unat lo) (unat M) (unat (push_bit 12 N)) b
       else room m (unat lo) (unat M) (unat (push_bit 12 N)) (unat a) \<and> (\<forall>b. room m (unat lo) (unat M) (unat (push_bit 12 N)) b \<longrightarrow> b \<le> unat a))"
proof -
  define NB where "NB = push_bit 12 N"
  have sh: "LShiftU64 N 12 = Some NB" by (simp add: LShiftU64_def InternalMathLShiftU64_def NB_def)
  have B: "4096 dvd unat NB" "0 < unat NB" "0 < NB" using N page_bytes[of N] by (simp_all add: NB_def word_less_nat_alt)
  have N0: "N \<noteq> 0" using N by auto
  show ?thesis
  proof (cases "M < 0xFFF")
    case True
    then have "\<not> room m (unat lo) (unat M) (unat NB) b" for b using dvd_imp_le[OF B(1,2)] by (auto simp: room_def word_less_nat_alt)
    then show ?thesis unfolding NB_def[symmetric] using True by (simp add: CoreFindFreePagesI_def)
  next
    case False
    then have hi: "unat (page_top M) + 1 = (unat M + 1) div 4096 * 4096" by (intro page_top) simp
    then have hd: "4096 dvd unat (page_top M) + 1" by (metis dvd_triv_right)
    define T where "T = FindFreePages_loop (page_top M) lo NB 0x1000 m 0"
    have al: "((d + 1) AND NOT (0x1000 - 1)) - 1 = d" if "4096 dvd unat d + 1" for d :: UINT64 using page_end_kept[OF that] by simp
    have "\<forall>e\<in>set m. whole_pages (unat (MemStart e)) (unat (MemEnd e))" using m(1) by (simp add: apart_def)
    note fl = find_loop[OF this hd al B(3), of 0 lo, folded T_def]
    then have T: "upper (page_top M) e \<le> unat T" if "e \<in> set m" "usable (page_top M) lo (unat NB) e" for e using that by blast
    have rooms: "b + unat NB \<le> unat T + 1" "T \<noteq> 0" if r: "room m (unat lo) (unat M) (unat NB) b" for b
    proof -
      obtain e where e: "e \<in> set m" "usable (page_top M) lo (unat NB) e" "b + unat NB \<le> upper (page_top M) e + 1"
        using room_usable[OF m r hi B(1,2)] .
      have l: "b + unat NB \<le> unat T + 1" "0 < b" using T[OF e(1,2)] e(3) r by (simp_all add: room_def)
      then show "b + unat NB \<le> unat T + 1" by simp
      show "T \<noteq> 0" using l B(2) by auto
    qed
    show ?thesis
    proof (cases "T = 0")
      case True
      have "\<not> 4096 dvd unat (1 - NB)"
      proof
        assume "4096 dvd unat (1 - NB)"
        then have "4096 dvd (unat (1 - NB) + unat NB) mod 2 ^ 64" using B(1) by (intro dvd_mod) (simp_all add: dvd_add)
        moreover have "unat (1 - NB + NB) = (unat (1 - NB) + unat NB) mod 2 ^ 64" by (simp only: unat_word_ariths) simp
        ultimately have "4096 dvd unat (1 - NB + NB)" by metis
        then show False by simp
      qed
      then have "(0 - (NB - 1)) AND 0xFFF \<noteq> 0" using aligned_iff[of 12 "1 - NB"] by simp
      then show ?thesis unfolding NB_def[symmetric] using False N0 rooms(2) True by (auto simp: CoreFindFreePagesI_def sh T_def Let_def)
    next
      case nz: False
      then obtain e where e: "e \<in> set m" "usable (page_top M) lo (unat NB) e" "unat T = upper (page_top M) e" using fl by auto
      have w: "unat (MemEnd e) + 1 < 2 ^ 64" "4096 dvd unat (MemEnd e) + 1" using m(1) e(1) by (simp_all add: apart_def whole_pages_def)
      define a where "a = T + 1 - NB"
      have "unat (T + 1) = unat T + 1" using w(1) e(3) by (intro unat_plus_1) simp
      moreover have le: "unat NB \<le> unat T + 1" using e by (simp add: usable_def)
      ultimately have a: "unat a = unat T + 1 - unat NB" unfolding a_def by (simp add: unat_sub word_le_nat_alt)
      have "4096 dvd unat T + 1" using w(2) hd e(3) by (simp add: min_def split: if_splits)
      then have "4096 dvd unat a" unfolding a using B(1) by (rule dvd_diff_nat)
      then have "a AND 0xFFF = 0" using aligned_iff[of 12 a] by simp
      moreover have "T - (NB - 1) = a" by (simp add: a_def algebra_simps)
      ultimately have run: "CoreFindFreePagesI M lo N 0x1000 m = Some a" using False N0 by (simp add: CoreFindFreePagesI_def sh T_def Let_def)
      have best: "b \<le> unat a" if "room m (unat lo) (unat M) (unat NB) b" for b using rooms(1)[OF that] a by simp
      have "room m (unat lo) (unat M) (unat NB) (unat a)" if "a \<noteq> 0"
      proof -
        have "unat (page_top M) \<le> unat M" using hi div_times_less_eq_dividend[of "unat M + 1" 4096] by linarith
        moreover have "0 < unat a" using that by (simp add: unat_gt_0)
        then have "unat NB < upper (page_top M) e + 1" using a e(3) by simp
        ultimately show ?thesis using usable_room[OF m(1) e(1,2) hd _ B(1), of "unat M"] a e(3) by simp
      qed
      moreover have "\<not> room m (unat lo) (unat M) (unat NB) b" if "a = 0" for b using best[of b] that by (auto simp: room_def)
      ultimately show ?thesis unfolding NB_def[symmetric] using run best by auto
    qed
  qed
qed

section \<open>Properties\<close>

definition sample_map :: map_lists where
  "sample_map =
     \<lparr>gMemoryMap = [\<lparr>Storage = FromPages 0x1000, MemType = EfiConventional, MemStart = 0, MemEnd = 0x9FFFF, MemAttribute = 15\<rparr>,
                    \<lparr>Storage = FromPages 0x1040, MemType = EfiBootServicesData, MemStart = 0x100000, MemEnd = 0x10FFFF, MemAttribute = 15\<rparr>,
                    \<lparr>Storage = FromPages 0x1080, MemType = EfiConventional, MemStart = 0x110000, MemEnd = 0x1FFFFF, MemAttribute = 15\<rparr>],
      mMapDepth = 0, mFreeMemoryMapEntryList = [0x10C0, 0x1100, 0x1140, 0x1180, 0x11C0]\<rparr>"

lemma sample_map_ok: "map_ok sample_map"
  by (simp add: map_ok_def apart_def fused_def stored_def whole_pages_def sample_map_def)

text \<open>
  (C9) The search for free pages is exact: with a well formed map and a size that does not wrap around, it returns the highest address of a range of free
  pages of one attribute between the two bounds, and 0 exactly if there is none (address 0 itself is never given out).
\<close>

theorem find_free_pages_highest:
  assumes "map_ok p" "N \<noteq> 0" "4096 * unat N < 2 ^ 64"
  shows "\<exists>a. CoreFindFreePagesI MaxAddress MinAddress N 0x1000 (gMemoryMap p) = Some a
    \<and> (if a = 0 then \<forall>b. \<not> room (gMemoryMap p) (unat MinAddress) (unat MaxAddress) (4096 * unat N) b
       else room (gMemoryMap p) (unat MinAddress) (unat MaxAddress) (4096 * unat N) (unat a)
         \<and> (\<forall>b. room (gMemoryMap p) (unat MinAddress) (unat MaxAddress) (4096 * unat N) b \<longrightarrow> b \<le> unat a))"
proof -
  have N: "unat (push_bit 12 N) = 4096 * unat N" by (rule page_size_exact[OF assms(3)])
  have "unat (push_bit 12 N) \<noteq> 0" unfolding N using assms(2) by (simp add: unat_eq_0)
  then show ?thesis using find_pages[of "gMemoryMap p" N MaxAddress MinAddress] assms(1) unfolding map_ok_def N by blast
qed

theorem find_free_pages_highest_witness:
  "CoreFindFreePagesI 0x1FEFFF 0x1000 3 0x1000 (gMemoryMap sample_map) = Some 0x1FC000
    \<and> room (gMemoryMap sample_map) 0x1000 0x1FEFFF 0x3000 0x1FC000 \<and> \<not> room (gMemoryMap sample_map) 0x1000 0x1FEFFF 0x3000 0x1FD000"
proof -
  have run: "CoreFindFreePagesI 0x1FEFFF 0x1000 3 0x1000 (gMemoryMap sample_map) = Some 0x1FC000"
    by (simp add: CoreFindFreePagesI_def page_top_def sample_map_def LShiftU64_def InternalMathLShiftU64_def Let_def)
  show ?thesis
    using find_free_pages_highest[OF sample_map_ok, of 3 "0x1FEFFF" "0x1000"] run by auto
qed

text \<open>
  (C10) The lists of descriptors keep their type through a conversion: pulling a range of pages out of the descriptor that covers it, and adding it again with
  another type, succeeds while slots of the array are left, and every list in between is well formed (whole pages, disjoint, no two that could be one, no
  descriptor used twice). The first step leaves a hole of exactly the range, the second fills it.
\<close>

theorem memory_map_kept:
  assumes "map_ok p" "mMapDepth p + 2 < MAX_MAP_DEPTH" "e \<in> set (gMemoryMap p)" "whole_pages (unat Start) (unat RangeEnd)"
    "unat (MemStart e) \<le> unat Start" "unat RangeEnd \<le> unat (MemEnd e)"
  shows "\<exists>q Start' End' r t. pull_range Start RangeEnd e p = Some q \<and> map_ok q
    \<and> (\<forall>x. mem (gMemoryMap q) x = (if unat Start \<le> x \<and> x \<le> unat RangeEnd then None else mem (gMemoryMap p) x))
    \<and> AddRange_loop ty Attribute (gMemoryMap q) Start RangeEnd q = (Start', End', r) \<and> push_entry ty Start' End' Attribute r = Some t \<and> map_ok t
    \<and> (\<forall>x. mem (gMemoryMap t) x = (if unat Start \<le> x \<and> x \<le> unat RangeEnd then Some (ty, Attribute) else mem (gMemoryMap p) x))"
proof -
  have d: "mMapDepth p + 1 < MAX_MAP_DEPTH" using assms(2) by simp
  obtain q where q: "pull_range Start RangeEnd e p = Some q" "map_ok q" "mMapDepth q \<le> mMapDepth p + 1"
    "\<And>x. mem (gMemoryMap q) x = (if unat Start \<le> x \<and> x \<le> unat RangeEnd then None else mem (gMemoryMap p) x)"
    by (rule pull_ok[OF assms(1,3) d assms(4-6)]) (rule that)
  have "clear (gMemoryMap q) (unat Start) (unat RangeEnd)"
    by (rule clearI) (use q(2,4) assms(4) in \<open>simp_all add: map_ok_def whole_pages_def\<close>)
  moreover have "mMapDepth q + 1 < MAX_MAP_DEPTH" using q(3) assms(2) by simp
  ultimately obtain t where t: "add_range ty Start RangeEnd Attribute q = Some t" "map_ok t"
    "\<And>x. mem (gMemoryMap t) x = (if unat Start \<le> x \<and> x \<le> unat RangeEnd then Some (ty, Attribute) else mem (gMemoryMap q) x)"
    using add_range_ok[OF q(2) _ assms(4), of ty Attribute] by metis
  then show ?thesis using q by (auto simp: add_range_def split: prod.splits)
qed

theorem memory_map_kept_witness:
  "\<exists>q Start' End' r t. pull_range 0x120000 0x120FFF (gMemoryMap sample_map ! 2) sample_map = Some q
    \<and> AddRange_loop EfiBootServicesData 15 (gMemoryMap q) 0x120000 0x120FFF q = (Start', End', r)
    \<and> push_entry EfiBootServicesData Start' End' 15 r = Some t \<and> map_ok t \<and> mem (gMemoryMap t) 0x120800 = Some (EfiBootServicesData, 15)"
proof -
  let ?e = "gMemoryMap sample_map ! 2"
  have e: "?e \<in> set (gMemoryMap sample_map)" by (simp add: sample_map_def)
  have r: "whole_pages (unat (0x120000 :: UINT64)) (unat (0x120FFF :: UINT64))" by (simp add: whole_pages_def)
  have "mMapDepth sample_map + 2 < MAX_MAP_DEPTH" "unat (MemStart ?e) \<le> unat (0x120000 :: UINT64)" "unat (0x120FFF :: UINT64) \<le> unat (MemEnd ?e)"
    by (simp_all add: sample_map_def)
  from memory_map_kept[OF sample_map_ok this(1) e r this(2,3), of EfiBootServicesData 15] show ?thesis by fastforce
qed

end
