(* ===== verification/Dxe_PageOps.thy ===== *)
theory Dxe_PageOps
  imports Dxe_Page Mem_MapOps
begin

text \<open>
  The page services as operations on the memory map by address: the sections under the memory lock, converting a range, allocating and freeing. The services are
  studied when no event waits for changes of the memory map and a few descriptors are free, so that no page has to be allocated for descriptors.
\<close>

unbundle bit_operations_syntax

section \<open>Inside the memory lock\<close>

text \<open>
  Work on the page state with the lock held, when no event of the group for changes of the memory map is registered. \<open>paged s p t\<close>: \<open>t\<close> is \<open>s\<close> with the
  page state \<open>p\<close>, up to what taking and releasing the event lock leaves behind.
\<close>

definition unheard :: "'w DXE \<Rightarrow> bool" where
  "unheard s \<longleftrightarrow> (\<forall>e\<in>set (gEventSignalQueue s). EventGroup (event s e) \<noteq> gEfiEventMemoryMapChangeGuid)"

definition page_locked :: "'v PAGES \<Rightarrow> bool" where
  "page_locked s \<longleftrightarrow> settled s \<and> Lock (locks s gMemoryLock) = EfiLockAcquired \<and> unheard s"

definition paged :: "'v PAGES \<Rightarrow> 'v PAGE_STATE \<Rightarrow> 'v PAGES \<Rightarrow> bool" where
  "paged s p t \<longleftrightarrow> view t = view (put_pages (\<lambda>_. p) s) \<and> page_locked t \<and> locks_kept s t"

lemma put_pages_simps [simp]:
  "pages (put_pages f s) = f (pages s)" "locks (put_pages f s) = locks s" "gEfiCurrentTpl (put_pages f s) = gEfiCurrentTpl s"
  "put_pages f (put_pages g s) = put_pages (\<lambda>p. f (g p)) s" "gEventSignalQueue (put_pages f s) = gEventSignalQueue s" "event (put_pages f s) = event s"
  "gEventPending (put_pages f s) = gEventPending s" "gEventQueue (put_pages f s) = gEventQueue s"
  by (simp_all add: put_pages_def)

lemma settled_world: "settled (s\<lparr>world := w\<rparr>) = settled s"
  unfolding settled_def event_inv_def pending_inv_def queue_inv_def signal_inv_def lock_levels_def nothing_pending_above_def by simp

lemma page_locked_put [simp]: "page_locked (put_pages f s) = page_locked s"
  by (simp add: page_locked_def unheard_def) (simp add: put_pages_def settled_world)

lemma view_put: "view t = view s \<Longrightarrow> view (put_pages f t) = view (put_pages f s)"
  by (simp add: view_def put_pages_def other_fields_def)

lemma paged_pages: "paged s p t \<Longrightarrow> pages t = p"
  by (auto simp: paged_def dest!: view_eqD(5))

lemma paged_put: "page_locked s \<Longrightarrow> paged s (f (pages s)) (put_pages f s)"
  by (simp add: paged_def locks_kept_def) (simp add: put_pages_def)

lemma paged_trans: "paged s p t \<Longrightarrow> paged t q u \<Longrightarrow> paged s q u"
  using view_put[of t "put_pages (\<lambda>_. p) s" "\<lambda>_. q"] locks_kept_trans[of s t u] by (simp add: paged_def)

lemma paged_put_iff [simp]: "paged (put_pages f s) p t = paged s p t"
  by (simp add: paged_def locks_kept_def)

lemma paged_locked: "paged s p t \<Longrightarrow> page_locked t"
  by (simp add: paged_def)

lemma signal_unheard:
  assumes s: "page_locked s" and n: "33 < n"
  obtains t where "CoreNotifySignalList n notify gEfiEventMemoryMapChangeGuid s = Some t" "paged s (pages s) t"
proof -
  let ?a = "acquired gEventQueueLock s"
  have st: "settled s" "event_inv s" "event_lock_free s" using s by (simp_all add: page_locked_def settled_def)
  have "filter (\<lambda>x. EventGroup (event s x) = gEfiEventMemoryMapChangeGuid) (gEventSignalQueue s) = []"
    using s by (auto simp: page_locked_def unheard_def filter_empty_conv)
  then have loop: "NotifySignalList_loop gEfiEventMemoryMapChangeGuid (gEventSignalQueue s) ?a = Some ?a"
    using signal_list_loop_locked[OF st(2), of gEfiEventMemoryMapChangeGuid] by (simp only: fold.simps id_apply)
  obtain t where t: "CoreReleaseEventLock n notify ?a = Some t" "view t = view (?a\<lparr>gEfiCurrentTpl := gEfiCurrentTpl s\<rparr>)" "settled t" "locks_kept s t"
    using idle_section[OF st(1) event_inv_acquired[OF st(2)] refl _ _ n, of notify] event_lock_level[OF st(2)] by auto
  have v: "view t = view s" unfolding t(2) by (simp add: view_def other_fields_def acquired_platform)
  then have "gEventSignalQueue t = gEventSignalQueue s" "event t = event s" using view_eqD[OF v] by (simp_all add: other_fields_def)
  then have "page_locked t" using s t(3,4) by (auto simp: page_locked_def unheard_def locks_kept_def)
  moreover have "put_pages (\<lambda>_. pages s) s = s" by (simp add: put_pages_def)
  ultimately show thesis
    using that[of t] t v loop acquire_event_lock[OF st(2,3)] by (simp add: CoreNotifySignalList_def paged_def)
qed

lemma add_range_runs:
  assumes s: "page_locked s" and n: "33 < n" and r: "whole_pages (unat S) (unat E)" and q: "add_range ty S E A (memory_lists (pages s)) = Some q"
  obtains t where "CoreAddRange n notify ty S E A s = Some t" "paged s ((pages s)\<lparr>mMemoryMapKey := mMemoryMapKey (pages s) + 1, memory_lists := q\<rparr>) t"
proof -
  let ?k = "mMemoryMapKey_update (\<lambda>k. k + 1)"
  obtain t where t: "CoreNotifySignalList n notify gEfiEventMemoryMapChangeGuid (put_pages ?k s) = Some t" "paged (put_pages ?k s) (?k (pages s)) t"
    using signal_unheard[OF _ n, of "put_pages ?k s" notify] s by auto
  have p: "paged s (?k (pages s)) t" using paged_trans[OF paged_put[OF s] t(2)] .
  have l: "memory_lists (pages t) = memory_lists (pages s)" using paged_pages[OF p] by simp
  obtain S' E' q' where g: "AddRange_loop ty A (gMemoryMap (memory_lists (pages s))) S E (memory_lists (pages s)) = (S', E', q')" "push_entry ty S' E' A q' = Some q"
    using q by (auto simp: add_range_def split: prod.splits)
  have "Lock (locks s gMemoryLock) = EfiLockAcquired" using s by (simp add: page_locked_def)
  then have "CoreAddRange n notify ty S E A s = Some (put_lists q t)"
    using t(1) l g whole_words[OF r] by (simp add: CoreAddRange_def ASSERT_LOCKED_def)
  moreover have "paged s (memory_lists_update (\<lambda>_. q) (?k (pages s))) (put_lists q t)"
    using paged_trans[OF p paged_put[OF paged_locked[OF p], of "memory_lists_update (\<lambda>_. q)"]] paged_pages[OF p] by (simp add: put_lists_def)
  moreover have "memory_lists_update (\<lambda>_. q) (?k p) = p\<lparr>mMemoryMapKey := mMemoryMapKey p + 1, memory_lists := q\<rparr>" for p :: "'a PAGE_STATE" by (cases p) simp
  ultimately show thesis using that[of "put_lists q t"] by metis
qed

lemma free_loop_runs:
  assumes "page_locked s" "map_ok (memory_lists (pages s))" "mMapDepth (memory_lists (pages s)) \<le> length (mFreeMemoryMapEntryList (memory_lists (pages s)))"
    "mMapDepth (memory_lists (pages s)) < k"
  shows "\<exists>t q. FreeMapStack_loop k n notify FreeStack s = Some t \<and> paged s ((pages s)\<lparr>memory_lists := q\<rparr>) t \<and> map_ok q \<and> mMapDepth q = 0
    \<and> (\<forall>x. mem (gMemoryMap q) x = mem (gMemoryMap (memory_lists (pages s))) x)
    \<and> length (mFreeMemoryMapEntryList (memory_lists (pages s))) \<le> length (mFreeMemoryMapEntryList q) + mMapDepth (memory_lists (pages s))"
  using assms
proof (induction k arbitrary: s)
  case (Suc k)
  let ?p = "memory_lists (pages s)"
  show ?case
  proof (cases "mMapDepth ?p = 0")
    case True
    have "(pages s)\<lparr>memory_lists := ?p\<rparr> = pages s" "put_pages (\<lambda>_. pages s) s = s" by (simp_all add: put_pages_def)
    then show ?thesis using True Suc.prems by (intro exI[of _ s] exI[of _ ?p]) (simp add: paged_def)
  next
    case False
    then obtain a l where f: "mFreeMemoryMapEntryList ?p = a # l" using Suc.prems(3) by (cases "mFreeMemoryMapEntryList ?p") auto
    note po = pop_ok[OF Suc.prems(2) f]
    let ?p1 = "?p\<lparr>mFreeMemoryMapEntryList := l\<rparr>" and ?q = "free_slot a (?p\<lparr>mFreeMemoryMapEntryList := l\<rparr>)"
    have fs: "map_ok ?q" "mMapDepth ?q = mMapDepth ?p - 1" "\<And>x. mem (gMemoryMap ?q) x = mem (gMemoryMap ?p) x"
      "length l \<le> length (mFreeMemoryMapEntryList ?q)"
      using free_slot_ok[OF po(1) _ po(2)] po(3,4) False by simp_all
    let ?s = "put_lists ?q s"
    have step: "FreeMapStack_loop (Suc k) n notify FreeStack s = FreeMapStack_loop k n notify FreeStack ?s"
      using False f po(2) by (simp add: AllocateMemoryMapEntry_def put_lists_def)
    have ps: "paged s ((pages s)\<lparr>memory_lists := ?q\<rparr>) ?s" using paged_put[OF Suc.prems(1), of "memory_lists_update (\<lambda>_. ?q)"] by (simp add: put_lists_def)
    have "memory_lists (pages ?s) = ?q" by (simp add: put_lists_def)
    moreover have "mMapDepth ?q \<le> length (mFreeMemoryMapEntryList ?q)" "mMapDepth ?q < k" using fs(2,4) Suc.prems(3,4) f False by (simp, linarith)
    ultimately obtain t q where t: "FreeMapStack_loop k n notify FreeStack ?s = Some t" "paged ?s ((pages ?s)\<lparr>memory_lists := q\<rparr>) t" "map_ok q" "mMapDepth q = 0"
      "\<forall>x. mem (gMemoryMap q) x = mem (gMemoryMap ?q) x" "length (mFreeMemoryMapEntryList ?q) \<le> length (mFreeMemoryMapEntryList q) + mMapDepth ?q"
      using Suc.IH[of ?s] paged_locked[OF ps] fs(1) by auto
    have "paged s ((pages s)\<lparr>memory_lists := q\<rparr>) t" using paged_trans[OF ps t(2)] by (simp add: put_lists_def)
    then show ?thesis using step t fs False f by (intro exI[of _ t] exI[of _ q]) auto
  qed
qed simp

lemma free_stack_runs:
  assumes s: "page_locked s" "map_ok (memory_lists (pages s))" "mFreeMapStack (pages s) = 0"
    and d: "mMapDepth (memory_lists (pages s)) \<le> length (mFreeMemoryMapEntryList (memory_lists (pages s)))" "mMapDepth (memory_lists (pages s)) < n"
  obtains t q where "CoreFreeMemoryMapStack n notify s = Some t" "paged s ((pages s)\<lparr>memory_lists := q\<rparr>) t" "map_ok q" "mMapDepth q = 0"
    "\<And>x. mem (gMemoryMap q) x = mem (gMemoryMap (memory_lists (pages s))) x"
    "length (mFreeMemoryMapEntryList (memory_lists (pages s))) \<le> length (mFreeMemoryMapEntryList q) + mMapDepth (memory_lists (pages s))"
proof -
  let ?s = "put_pages (mFreeMapStack_update (\<lambda>c. c + 1)) s"
  obtain m where m: "n = Suc m" using d(2) by (cases n) auto
  have ps: "paged s (mFreeMapStack_update (\<lambda>c. c + 1) (pages s)) ?s" by (rule paged_put[OF s(1)])
  obtain t q where t: "FreeMapStack_loop n n notify (FreeMemoryMapStack_depth m n notify) ?s = Some t" "paged ?s ((pages ?s)\<lparr>memory_lists := q\<rparr>) t" "map_ok q" "mMapDepth q = 0"
      "\<forall>x. mem (gMemoryMap q) x = mem (gMemoryMap (memory_lists (pages s))) x"
      "length (mFreeMemoryMapEntryList (memory_lists (pages s))) \<le> length (mFreeMemoryMapEntryList q) + mMapDepth (memory_lists (pages s))"
    using free_loop_runs[of ?s n n notify "FreeMemoryMapStack_depth m n notify"] s d by auto
  have tp: "paged s ((pages ?s)\<lparr>memory_lists := q\<rparr>) t" by (rule paged_trans[OF ps t(2)])
  let ?t = "put_pages (mFreeMapStack_update (\<lambda>c. c - 1)) t"
  have run: "CoreFreeMemoryMapStack n notify s = Some ?t"
    using t(1) s unfolding CoreFreeMemoryMapStack_def m by (simp add: ASSERT_LOCKED_def page_locked_def)
  have "paged s (mFreeMapStack_update (\<lambda>c. c - 1) ((pages ?s)\<lparr>memory_lists := q\<rparr>)) ?t"
    using paged_trans[OF tp paged_put[OF paged_locked[OF tp]]] paged_pages[OF tp] by metis
  moreover have "mFreeMapStack_update (\<lambda>c. c - 1) ((mFreeMapStack_update (\<lambda>c. c + 1) p)\<lparr>memory_lists := q\<rparr>) = p\<lparr>memory_lists := q\<rparr>" for p :: "'a PAGE_STATE"
    by (cases p) simp
  ultimately show thesis using that[OF run _ t(3,4)] t(5,6) by simp
qed

section \<open>Converting ranges by address\<close>

text \<open>The page state between calls: no descriptor is left in the array. The bins of the types are kept when only the counters of pages may differ.\<close>

definition pages_ok :: "'v PAGE_STATE \<Rightarrow> bool" where
  "pages_ok p \<longleftrightarrow> map_ok (memory_lists p) \<and> mMapDepth (memory_lists p) = 0 \<and> mFreeMapStack p = 0"

abbreviation memory :: "'v PAGE_STATE \<Rightarrow> nat \<Rightarrow> (UINT32 \<times> UINT64) option" where
  "memory p \<equiv> mem (gMemoryMap (memory_lists p))"

abbreviation free_entries :: "'v PAGE_STATE \<Rightarrow> nat" where
  "free_entries p \<equiv> length (mFreeMemoryMapEntryList (memory_lists p))"

definition bins_kept :: "'v PAGE_STATE \<Rightarrow> 'v PAGE_STATE \<Rightarrow> bool" where
  "bins_kept p q \<longleftrightarrow> mFreeMapStack q = mFreeMapStack p \<and> mMemoryTypeInformationInitialized q = mMemoryTypeInformationInitialized p
     \<and> mDefaultMaximumAddress q = mDefaultMaximumAddress p \<and> mDefaultBaseAddress q = mDefaultBaseAddress p \<and> beyond q = beyond p
     \<and> (\<forall>i. (mMemoryTypeStatistics q i)\<lparr>CurrentNumberOfPages := 0\<rparr> = (mMemoryTypeStatistics p i)\<lparr>CurrentNumberOfPages := 0\<rparr>)
     \<and> (\<forall>i. InfoType (gMemoryTypeInformation q i) = InfoType (gMemoryTypeInformation p i))"

lemma bins_kept_refl [simp]: "bins_kept p p"
  by (simp add: bins_kept_def)

lemma bins_kept_trans: "bins_kept p q \<Longrightarrow> bins_kept q r \<Longrightarrow> bins_kept p r"
  by (simp add: bins_kept_def)

lemma count_pages_kept: "bins_kept p (count_pages S N old new p)" "memory_lists (count_pages S N old new p) = memory_lists p"
  by (simp_all add: bins_kept_def count_pages_def put_statistics_def Let_def)

lemma bins_kept_update [simp]: "bins_kept p (q\<lparr>mMemoryMapKey := k, memory_lists := l\<rparr>) = bins_kept p q"
  by (simp add: bins_kept_def)

lemma from_pages: "pages_ok p \<Longrightarrow> e \<in> set (gMemoryMap (memory_lists p)) \<Longrightarrow> \<exists>a. Storage e = FromPages a"
  by (cases "Storage e") (auto simp: pages_ok_def map_ok_def stored_def)

text \<open>
  The contract of a conversion to a type, by address: allocating takes the whole range if it is free memory of one attribute, and refuses otherwise; freeing goes as far
  as the addresses are allocated.
\<close>

definition free_at :: "'v PAGE_STATE \<Rightarrow> nat \<Rightarrow> bool" where
  "free_at p x \<longleftrightarrow> (\<exists>A. memory p x = Some (EfiConventional, A))"

definition in_use :: "'v PAGE_STATE \<Rightarrow> nat \<Rightarrow> bool" where
  "in_use p x \<longleftrightarrow> memory p x \<noteq> None \<and> \<not> free_at p x"

definition free_from_to :: "UINT64 \<Rightarrow> 'v PAGE_STATE \<Rightarrow> nat \<Rightarrow> nat \<Rightarrow> bool" where
  "free_from_to A p a b \<longleftrightarrow> (\<forall>x. a \<le> x \<and> x \<le> b \<longrightarrow> memory p x = Some (EfiConventional, A))"

lemma memory_covers: "pages_ok p \<Longrightarrow> e \<in> set (gMemoryMap (memory_lists p)) \<Longrightarrow> covers e x \<Longrightarrow> memory p x = Some (kind e)"
  using mem_Some by (auto simp: pages_ok_def map_ok_def)

text \<open>
  What a conversion relies on of CoreFreeMemoryMapStack, which is passed to it: with free descriptors enough, every slot of the array is moved to one and the map
  stays the same by address.
\<close>

locale map_stack =
  fixes n :: nat and FreeStack :: "'v PAGES \<Rightarrow> 'v PAGES option"
  assumes emptied: "page_locked s \<Longrightarrow> map_ok (memory_lists (pages s)) \<Longrightarrow> mFreeMapStack (pages s) = 0
    \<Longrightarrow> mMapDepth (memory_lists (pages s)) \<le> length (mFreeMemoryMapEntryList (memory_lists (pages s))) \<Longrightarrow> mMapDepth (memory_lists (pages s)) < n
    \<Longrightarrow> \<exists>t q. FreeStack s = Some t \<and> paged s ((pages s)\<lparr>memory_lists := q\<rparr>) t \<and> map_ok q \<and> mMapDepth q = 0
      \<and> (\<forall>x. mem (gMemoryMap q) x = mem (gMemoryMap (memory_lists (pages s))) x)
      \<and> length (mFreeMemoryMapEntryList (memory_lists (pages s))) \<le> length (mFreeMemoryMapEntryList q) + mMapDepth (memory_lists (pages s))"
begin

lemma convert_step:
  assumes s: "page_locked s" "pages_ok (pages s)" and e: "e \<in> set (gMemoryMap (memory_lists (pages s)))"
    and r: "whole_pages (unat S) (unat R)" "unat (MemStart e) \<le> unat S" "unat R \<le> unat (MemEnd e)"
    and f: "2 \<le> free_entries (pages s) \<or> MemStart e = S \<and> 1 \<le> free_entries (pages s)" and n: "33 < n"
  obtains p u t where "pull_range S R e (memory_lists (pages s)) = Some p" "CoreAddRange n notify ty S R A (put_lists p s) = Some u"
    "FreeStack u = Some t"
    "paged s (pages t) t" "pages_ok (pages t)" "bins_kept (pages s) (pages t)"
    "\<And>x. memory (pages t) x = (if unat S \<le> x \<and> x \<le> unat R then Some (ty, A) else memory (pages s) x)"
    "free_entries (pages s) \<le> free_entries (pages t) + 2"
    "MemEnd e = R \<Longrightarrow> free_entries (pages s) \<le> free_entries (pages t) + 1"
    "MemEnd e = R \<Longrightarrow> MemStart e = S \<Longrightarrow> free_entries (pages s) \<le> free_entries (pages t)"
proof -
  let ?p = "memory_lists (pages s)"
  have ok: "map_ok ?p" "mMapDepth ?p = 0" "mFreeMapStack (pages s) = 0" using s(2) by (simp_all add: pages_ok_def)
  obtain p1 where p1: "pull_range S R e ?p = Some p1" "map_ok p1" "mMapDepth p1 \<le> 1"
    "MemStart e = S \<or> MemEnd e = R \<Longrightarrow> mMapDepth p1 = 0" "length (mFreeMemoryMapEntryList ?p) \<le> length (mFreeMemoryMapEntryList p1)"
    "MemStart e = S \<Longrightarrow> MemEnd e = R \<Longrightarrow> length (mFreeMemoryMapEntryList p1) = length (mFreeMemoryMapEntryList ?p) + 1"
    "\<And>x. mem (gMemoryMap p1) x = (if unat S \<le> x \<and> x \<le> unat R then None else mem (gMemoryMap ?p) x)"
    using pull_ok[OF ok(1) e _ r] ok(2) from_pages[OF s(2) e] by auto
  have "clear (gMemoryMap p1) (unat S) (unat R)" using p1(2,7) r(1) by (intro clearI) (simp_all add: map_ok_def whole_pages_def)
  then obtain p2 where p2: "add_range ty S R A p1 = Some p2" "map_ok p2" "mMapDepth p2 = mMapDepth p1 + 1"
    "length (mFreeMemoryMapEntryList p1) \<le> length (mFreeMemoryMapEntryList p2)"
    "\<And>x. mem (gMemoryMap p2) x = (if unat S \<le> x \<and> x \<le> unat R then Some (ty, A) else mem (gMemoryMap p1) x)"
    using add_range_ok[OF p1(2) _ r(1), of ty A] p1(3) by auto
  let ?s1 = "put_lists p1 s"
  have s1: "paged s ((pages s)\<lparr>memory_lists := p1\<rparr>) ?s1" using paged_put[OF s(1), of "memory_lists_update (\<lambda>_. p1)"] by (simp add: put_lists_def)
  have "memory_lists (pages ?s1) = p1" by (simp add: put_lists_def)
  then obtain s2 where s2: "CoreAddRange n notify ty S R A ?s1 = Some s2" "paged ?s1 ((pages ?s1)\<lparr>mMemoryMapKey := mMemoryMapKey (pages ?s1) + 1, memory_lists := p2\<rparr>) s2"
    using add_range_runs[OF paged_locked[OF s1] n r(1), of ty A p2 notify] p2(1) by auto
  have P2: "pages s2 = (pages s)\<lparr>mMemoryMapKey := mMemoryMapKey (pages s) + 1, memory_lists := p2\<rparr>" using paged_pages[OF s2(2)] by (simp add: put_lists_def)
  have s2': "paged s (pages s2) s2" using paged_trans[OF s1 s2(2)] paged_pages[OF s2(2)] by metis
  have room: "mMapDepth p2 \<le> length (mFreeMemoryMapEntryList p2)" using f p1(3,4,5) p2(3,4) by auto
  obtain t q where t: "FreeStack s2 = Some t" "paged s2 ((pages s2)\<lparr>memory_lists := q\<rparr>) t" "map_ok q" "mMapDepth q = 0"
    "\<And>x. mem (gMemoryMap q) x = mem (gMemoryMap p2) x" "length (mFreeMemoryMapEntryList p2) \<le> length (mFreeMemoryMapEntryList q) + mMapDepth p2"
    using emptied[OF paged_locked[OF s2']] P2 p2(2,3) p1(3) ok(3) room n by auto
  have pt: "pages t = (pages s)\<lparr>mMemoryMapKey := mMemoryMapKey (pages s) + 1, memory_lists := q\<rparr>" using paged_pages[OF t(2)] P2 by simp
  show thesis
  proof (rule that[OF p1(1) s2(1) t(1)])
    show "paged s (pages t) t" using paged_trans[OF s2' t(2)] paged_pages[OF t(2)] by metis
    show "pages_ok (pages t)" "bins_kept (pages s) (pages t)" using t(3,4) ok(3) by (simp_all add: pages_ok_def pt)
    show "memory (pages t) x = (if unat S \<le> x \<and> x \<le> unat R then Some (ty, A) else memory (pages s) x)" for x using t(5) p2(5) p1(7) by (simp add: pt)
    show "free_entries (pages s) \<le> free_entries (pages t) + 2" using p1(3,5) p2(3,4) t(6) by (simp add: pt)
    show "free_entries (pages s) \<le> free_entries (pages t) + 1" if "MemEnd e = R" using that p1(4,5) p2(3,4) t(6) by (simp add: pt)
    show "free_entries (pages s) \<le> free_entries (pages t)" if "MemEnd e = R" "MemStart e = S" using that p1(4,6) p2(3,4) t(6) by (simp add: pt)
  qed
qed

lemma allocate_runs:
  assumes s: "page_locked s" "pages_ok (pages s)" "2 \<le> free_entries (pages s)" and n: "33 < n" "2 \<le> k"
    and r: "whole_pages (unat S) (unat E)" and ty: "ty \<noteq> EfiConventional"
  obtains st t where "ConvertPages_loop k n notify FreeStack N (Some ty) At S E s = Some (st, t)"
    "paged s (pages t) t" "pages_ok (pages t)" "bins_kept (pages s) (pages t)" "free_entries (pages s) \<le> free_entries (pages t) + 2"
    "st = EFI_SUCCESS \<Longrightarrow> \<exists>A. free_from_to A (pages s) (unat S) (unat E)
       \<and> (\<forall>x. memory (pages t) x = (if unat S \<le> x \<and> x \<le> unat E then Some (ty, A) else memory (pages s) x))"
    "st \<noteq> EFI_SUCCESS \<Longrightarrow> st = EFI_NOT_FOUND \<and> t = s \<and> \<not> (\<exists>A. free_from_to A (pages s) (unat S) (unat E))"
proof -
  let ?m = "gMemoryMap (memory_lists (pages s))" and ?F = FreeStack
  have a: "apart ?m" "fused ?m" using s(2) by (simp_all add: pages_ok_def map_ok_def)
  have S: "4096 dvd unat S" "unat S \<le> unat E" using r by (simp_all add: whole_pages_def)
  have same: "put_pages (\<lambda>_. pages s) s = s" by (simp add: put_pages_def)
  obtain k' where k: "k = Suc (Suc k')" using n(2) by (metis add_2_eq_Suc le_Suc_ex)
  {
    assume st: "ConvertPages_loop k n notify ?F N (Some ty) At S E s = Some (EFI_NOT_FOUND, s)" and no: "\<not> (\<exists>A. free_from_to A (pages s) (unat S) (unat E))"
    have thesis by (rule that[OF st]) (use s no same in \<open>simp_all add: paged_def\<close>)
  } note refuse = this
  show thesis
  proof (cases "find (\<lambda>e. MemStart e \<le> S \<and> MemEnd e > S) ?m")
    case None
    then have "mem ?m (unat S) = None" using found_entry(2)[OF a(1) S(1)] by simp
    then have "\<not> (\<exists>A. free_from_to A (pages s) (unat S) (unat E))" using S(2) by (auto simp: free_from_to_def)
    then show thesis using refuse None whole_words(2)[OF r] by (simp add: k)
  next
    case (Some e)
    then have e: "e \<in> set ?m" "covers e (unat S)" using found_entry(1)[OF a(1) S(1)] by blast+
    have me: "memory (pages s) x = Some (kind e)" if "covers e x" for x using memory_covers[OF s(2) e(1) that] .
    show thesis
    proof (cases "MemEnd e < E \<or> MemType e \<noteq> EfiConventional")
      case True
      have "\<not> free_from_to A (pages s) (unat S) (unat E)" for A
      proof
        assume fr: "free_from_to A (pages s) (unat S) (unat E)"
        then have kd: "kind e = (EfiConventional, A)" using me[OF e(2)] S(2) by (simp add: free_from_to_def)
        then have "unat E \<le> unat (MemEnd e)" by (intro range_in_entry[OF a e]) (use fr in \<open>simp add: free_from_to_def\<close>)
        then show False using True kd by (auto simp: word_less_nat_alt)
      qed
      then show thesis using refuse Some True whole_words(2)[OF r] ty by (auto simp: k Let_def)
    next
      case False
      let ?s = "put_pages (count_pages S N (MemType e) ty) s"
      have le: "unat E \<le> unat (MemEnd e)" using False by (simp add: word_less_nat_alt)
      have ps: "page_locked ?s" "pages_ok (pages ?s)" "memory_lists (pages ?s) = memory_lists (pages s)" "bins_kept (pages s) (pages ?s)"
        using s count_pages_kept[where p = "pages s"] by (simp_all add: pages_ok_def bins_kept_def)
      show thesis
      proof (rule convert_step[where e = e and ty = ty and A = "MemAttribute e" and notify = notify, OF ps(1,2) _ r], goal_cases)
        case (6 p u t)
        have "paged s (pages t) t" using 6(4) by simp
        moreover have "free_from_to (MemAttribute e) (pages s) (unat S) (unat E)" using me e(2) le False by (auto simp: free_from_to_def)
        moreover have "\<not> E + 1 < E" using unat_plus_1[of E] r by (simp add: word_less_nat_alt whole_pages_def)
        then have "ConvertPages_loop k n notify ?F N (Some ty) At S E s = Some (EFI_SUCCESS, t)"
          using Some False ty whole_words(2)[OF r] 6(1-3) by (simp add: k Let_def)
        moreover have "memory (pages t) x = (if unat S \<le> x \<and> x \<le> unat E then Some (ty, MemAttribute e) else memory (pages s) x)" for x
          using 6(7)[of x] ps(3) by metis
        ultimately show thesis using that[of EFI_SUCCESS t] 6(5,8) ps(3) bins_kept_trans[OF ps(4) 6(6)] by auto
      qed (use e le s(3) n(1) ps(3) in simp_all)
    qed
  qed
qed

text \<open>Freeing goes on as long as the addresses are in use; \<open>c\<close> is the first address that is not.\<close>

lemma free_runs:
  assumes "page_locked s" "pages_ok (pages s)" "whole_pages (unat S) (unat E) \<or> unat S = unat E + 1 \<and> unat E + 1 < 2 ^ 64"
    and "unat S = unat E + 1 \<or> 2 \<le> free_entries (pages s) \<or> 1 \<le> free_entries (pages s) \<and> 0 < unat S \<and> free_at (pages s) (unat S - 1)"
    and "33 < n" "unat E + 1 < unat S + 4096 * k"
  shows "\<exists>st t c. ConvertPages_loop k n notify FreeStack N (Some EfiConventional) At S E s = Some (st, t)
    \<and> paged s (pages t) t \<and> pages_ok (pages t) \<and> bins_kept (pages s) (pages t)
    \<and> unat S \<le> c \<and> c \<le> unat E + 1 \<and> (\<forall>x. unat S \<le> x \<and> x < c \<longrightarrow> in_use (pages s) x)
    \<and> (if c = unat E + 1 then st = EFI_SUCCESS else st = EFI_NOT_FOUND \<and> \<not> in_use (pages s) c)
    \<and> (\<forall>x. memory (pages t) x = (if unat S \<le> x \<and> x < c then map_option (\<lambda>(_, A). (EfiConventional, A)) (memory (pages s) x) else memory (pages s) x))"
  using assms
proof (induction k arbitrary: s S)
  case 0
  then show ?case by (auto simp: whole_pages_def)
next
  case (Suc k)
  let ?m = "gMemoryMap (memory_lists (pages s))" and ?F = FreeStack
  have a: "apart ?m" "fused ?m" using Suc.prems(2) by (simp_all add: pages_ok_def map_ok_def)
  have same: "paged s (pages s) s" using Suc.prems(1) paged_put[of s "\<lambda>p. p"] by (simp add: put_pages_def)
  show ?case
  proof (cases "unat S = unat E + 1")
    case True
    then show ?thesis using same Suc.prems(2)
      by (intro exI[of _ EFI_SUCCESS] exI[of _ s] exI[of _ "unat S"]) (auto simp: word_less_nat_alt)
  next
    case nonempty: False
    then have r: "whole_pages (unat S) (unat E)" using Suc.prems(3) by simp
    then have S: "4096 dvd unat S" "unat S \<le> unat E" by (simp_all add: whole_pages_def)
    show ?thesis
    proof (cases "in_use (pages s) (unat S)")
      case False
      have "ConvertPages_loop (Suc k) n notify ?F N (Some EfiConventional) At S E s = Some (EFI_NOT_FOUND, s)"
      proof (cases "find (\<lambda>e. MemStart e \<le> S \<and> MemEnd e > S) ?m")
        case None
        then show ?thesis using whole_words(2)[OF r] by simp
      next
        case (Some e)
        then have "memory (pages s) (unat S) = Some (kind e)" using found_entry(1)[OF a(1) S(1)] memory_covers[OF Suc.prems(2)] by blast
        then have "MemType e = EfiConventional" using False by (auto simp: in_use_def free_at_def)
        then show ?thesis using Some whole_words(2)[OF r] by (simp add: Let_def)
      qed
      then show ?thesis using False same Suc.prems(2) S(2)
        by (intro exI[of _ EFI_NOT_FOUND] exI[of _ s] exI[of _ "unat S"]) (auto simp del: ConvertPages_loop.simps)
    next
      case True
      then have "find (\<lambda>e. MemStart e \<le> S \<and> MemEnd e > S) ?m \<noteq> None" using found_entry(2)[OF a(1) S(1)] by (simp add: in_use_def)
      then obtain e where e': "find (\<lambda>e. MemStart e \<le> S \<and> MemEnd e > S) ?m = Some e" by blast
      then have e: "e \<in> set ?m" "covers e (unat S)" using found_entry(1)[OF a(1) S(1)] by blast+
      have me: "memory (pages s) x = Some (kind e)" if "covers e x" for x using memory_covers[OF Suc.prems(2) e(1) that] .
      have ty: "MemType e \<noteq> EfiConventional" using True me[OF e(2)] by (auto simp: in_use_def free_at_def)
      define R where "R = (if MemEnd e < E then MemEnd e else E)"
      have R: "whole_pages (unat S) (unat R)" "unat R \<le> unat (MemEnd e)" "unat R \<le> unat E"
        using whole_part[OF a(1) e r] by (auto simp: R_def word_less_nat_alt)
      have front: "MemStart e = S" if "0 < unat S" "free_at (pages s) (unat S - 1)"
      proof (rule ccontr)
        assume "MemStart e \<noteq> S"
        then have "covers e (unat S - 1)" using e(2) by (auto simp: word_unat_eq_iff)
        then show False using that(2) me ty by (auto simp: free_at_def)
      qed
      have front1: "MemStart e = S \<or> 2 \<le> free_entries (pages s)" using Suc.prems(4) nonempty front by blast
      let ?s = "put_pages (count_pages S N (MemType e) EfiConventional) s"
      have ps: "page_locked ?s" "pages_ok (pages ?s)" "memory_lists (pages ?s) = memory_lists (pages s)" "bins_kept (pages s) (pages ?s)"
        using Suc.prems(1,2) count_pages_kept[where p = "pages s"] by (simp_all add: pages_ok_def bins_kept_def)
      have one: "1 \<le> free_entries (pages s)" using Suc.prems(4) nonempty by auto
      show ?thesis
      proof (rule convert_step[where e = e and ty = EfiConventional and A = "MemAttribute e" and notify = notify, OF ps(1,2) _ R(1)], goal_cases)
        case (6 p u t)
        have nR: "unat (R + 1) = unat R + 1" using R(1) unat_plus_1 by (simp add: whole_pages_def)
        have t: "paged s (pages t) t" using 6(4) by simp
        have tl: "page_locked t" using paged_locked[OF t] .
        have mt: "memory (pages t) x = (if unat S \<le> x \<and> x \<le> unat R then Some (EfiConventional, MemAttribute e) else memory (pages s) x)" for x
          using 6(7)[of x] ps(3) by metis
        have bt: "bins_kept (pages s) (pages t)" using bins_kept_trans[OF ps(4) 6(6)] .
        have dR: "unat (R + 1) \<le> unat E" if "R \<noteq> E" using that R(3) nR by (simp add: word_unat_eq_iff)
        then have r': "whole_pages (unat (R + 1)) (unat E) \<or> unat (R + 1) = unat E + 1 \<and> unat E + 1 < 2 ^ 64"
          using R(1) r nR by (cases "R = E") (simp_all add: whole_pages_def)
        have f': "unat (R + 1) = unat E + 1 \<or> 2 \<le> free_entries (pages t) \<or> 1 \<le> free_entries (pages t) \<and> 0 < unat (R + 1) \<and> free_at (pages t) (unat (R + 1) - 1)"
        proof (cases "R = E")
          case False
          then have m: "MemEnd e = R" by (auto simp: R_def split: if_splits)
          have "1 \<le> free_entries (pages t)" using 6(9,10)[OF m] front1 one ps(3) by auto
          moreover have "free_at (pages t) (unat R)" using mt[of "unat R"] R(1) by (simp add: free_at_def whole_pages_def)
          ultimately show ?thesis using nR by simp
        qed (use nR in simp)
        have "unat S + 4096 \<le> unat R + 1" using R(1) by (intro next_page) (simp_all add: whole_pages_def)
        then have k': "unat E + 1 < unat (R + 1) + 4096 * k" using Suc.prems(6) nR by simp
        obtain st v c where v: "ConvertPages_loop k n notify ?F N (Some EfiConventional) At (R + 1) E t = Some (st, v)"
          "paged t (pages v) v" "pages_ok (pages v)" "bins_kept (pages t) (pages v)"
          "unat (R + 1) \<le> c" "c \<le> unat E + 1" "\<And>x. unat (R + 1) \<le> x \<Longrightarrow> x < c \<Longrightarrow> in_use (pages t) x"
          "if c = unat E + 1 then st = EFI_SUCCESS else st = EFI_NOT_FOUND \<and> \<not> in_use (pages t) c"
          "\<And>x. memory (pages v) x = (if unat (R + 1) \<le> x \<and> x < c then map_option (\<lambda>(_, A). (EfiConventional, A)) (memory (pages t) x) else memory (pages t) x)"
          using Suc.IH[OF tl 6(5) r' f' Suc.prems(5) k'] by blast
        have iu: "in_use (pages t) x = in_use (pages s) x" if "unat R < x" for x using mt[of x] that by (simp add: in_use_def free_at_def)
        have sR: "unat S \<le> unat R" using R(1) by (simp add: whole_pages_def)
        have cov: "in_use (pages s) x" "memory (pages s) x = Some (MemType e, MemAttribute e)" if "unat S \<le> x" "x \<le> unat R" for x
          using me[of x] that e(2) R(2) ty by (simp_all add: in_use_def free_at_def)
        have "ConvertPages_loop (Suc k) n notify ?F N (Some EfiConventional) At S E s = Some (st, v)"
          using e' ty whole_words(2)[OF r] 6(1-3) v(1) by (simp add: Let_def flip: R_def)
        moreover have "paged s (pages v) v" using paged_trans[OF t v(2)] .
        moreover have "\<forall>x. unat S \<le> x \<and> x < c \<longrightarrow> in_use (pages s) x"
        proof (intro allI impI)
          fix x assume x: "unat S \<le> x \<and> x < c"
          show "in_use (pages s) x"
          proof (cases "x \<le> unat R")
            case False
            then show ?thesis using v(7)[of x] iu[of x] x nR by simp
          qed (use cov x in simp)
        qed
        moreover have "if c = unat E + 1 then st = EFI_SUCCESS else st = EFI_NOT_FOUND \<and> \<not> in_use (pages s) c"
          using v(8) iu[of c] v(5) nR by auto
        moreover have "memory (pages v) x = (if unat S \<le> x \<and> x < c then map_option (\<lambda>(_, A). (EfiConventional, A)) (memory (pages s) x) else memory (pages s) x)" for x
        proof (cases "x \<le> unat R")
          case True
          then show ?thesis using v(9)[of x] mt[of x] cov(2)[of x] nR v(5) by auto
        next
          case False
          then show ?thesis using v(9)[of x] mt[of x] nR sR by auto
        qed
        ultimately show ?case using v(3,4,5,6) bins_kept_trans[OF bt v(4)] sR nR
          by (intro exI[of _ st] exI[of _ v] exI[of _ c]) simp
      qed (use e R front1 one Suc.prems(5) ps(3) in auto)
    qed
  qed
qed

end

interpretation stack: map_stack n "CoreFreeMemoryMapStack n nt" for n nt
  by unfold_locales (rule free_stack_runs[where notify = nt], assumption+, blast)

section \<open>Sections under the memory lock\<close>

lemma kept_section:
  assumes s: "Lock (locks s l) = EfiLockReleased" "gEfiCurrentTpl s \<le> Tpl (locks s l)" "Tpl (locks s l) \<le> TPL_HIGH_LEVEL" "nothing_pending_above (gEfiCurrentTpl s) s"
    and u: "locks_kept (acquired l s) u" "gEfiCurrentTpl u = Tpl (locks s l)" "gEventPending u = gEventPending s" and n: "2 \<le> n"
  shows "CoreReleaseLock n notify l u = Some (released l u)" "view (released l u) = view (u\<lparr>gEfiCurrentTpl := gEfiCurrentTpl s\<rparr>)" "locks_kept s (released l u)"
proof -
  define m where "m = n - 2"
  have m: "n = Suc (Suc m)" using n by (simp add: m_def)
  have o: "OwnerTpl (locks u l) = gEfiCurrentTpl s" "Lock (locks u l) = EfiLockAcquired" using u(1) by (auto simp: locks_kept_def)
  have "nothing_pending_above (gEfiCurrentTpl s) u" using s(4) u(3) by (simp add: nothing_pending_above_def)
  then show "CoreReleaseLock n notify l u = Some (released l u)" unfolding CoreReleaseLock_def m using s(2,3) u(2) o by (intro release_settled) simp_all
  show "view (released l u) = view (u\<lparr>gEfiCurrentTpl := gEfiCurrentTpl s\<rparr>)" using o by (simp add: view_def)
  show "locks_kept s (released l u)" using s(1) u(1) by (auto simp: locks_kept_def split: if_splits)
qed

definition page_ready :: "'v PAGES \<Rightarrow> bool" where
  "page_ready s \<longleftrightarrow> settled s \<and> gEfiCurrentTpl s \<le> TPL_NOTIFY \<and> Lock (locks s gMemoryLock) = EfiLockReleased
     \<and> Lock (locks s mGcdMemorySpaceLock) = EfiLockReleased \<and> unheard s \<and> pages_ok (pages s)"

lemma page_acquire:
  assumes s: "page_ready s"
  shows "CoreAcquireMemoryLock s = Some (acquired gMemoryLock s)" "page_locked (acquired gMemoryLock s)" "pages (acquired gMemoryLock s) = pages s"
    "gEfiCurrentTpl (acquired gMemoryLock s) = TPL_NOTIFY" "Lock (locks (acquired gMemoryLock s) mGcdMemorySpaceLock) = EfiLockReleased"
proof -
  have r: "settled s" "gEfiCurrentTpl s \<le> TPL_NOTIFY" "Lock (locks s gMemoryLock) = EfiLockReleased" "Lock (locks s mGcdMemorySpaceLock) = EfiLockReleased" "unheard s"
    using s unfolding page_ready_def by blast+
  have lv: "Tpl (locks s gMemoryLock) = TPL_NOTIFY" using r(1) by (simp add: settled_def event_inv_def lock_levels_def)
  show "CoreAcquireMemoryLock s = Some (acquired gMemoryLock s)" using r lv by (simp add: CoreAcquireMemoryLock_def CoreAcquireLock_eq)
  have "settled (acquired gMemoryLock s)" by (rule settled_acquired[OF r(1)]) (use r lv in simp_all)
  then show "page_locked (acquired gMemoryLock s)" using r(5) by (simp add: page_locked_def unheard_def)
  show "pages (acquired gMemoryLock s) = pages s" "gEfiCurrentTpl (acquired gMemoryLock s) = TPL_NOTIFY"
    "Lock (locks (acquired gMemoryLock s) mGcdMemorySpaceLock) = EfiLockReleased" using r(4) lv by simp_all
qed

lemma page_release:
  assumes s: "page_ready s" and u: "paged (acquired gMemoryLock s) p u" and n: "2 \<le> n"
  obtains t where "CoreReleaseMemoryLock n notify u = Some t" "view t = view (put_pages (\<lambda>_. p) s)" "locks_kept s t" "pages t = p" "pages_ok p \<longrightarrow> page_ready t"
proof -
  have r: "settled s" "gEfiCurrentTpl s \<le> TPL_NOTIFY" "Lock (locks s gMemoryLock) = EfiLockReleased" "Lock (locks s mGcdMemorySpaceLock) = EfiLockReleased" "unheard s"
    using s unfolding page_ready_def by blast+
  have lv: "Tpl (locks s gMemoryLock) = TPL_NOTIFY" using r(1) by (simp add: settled_def event_inv_def lock_levels_def)
  have vu: "view u = view (put_pages (\<lambda>_. p) (acquired gMemoryLock s))" using u by (simp add: paged_def)
  have k: "locks_kept (acquired gMemoryLock s) u" using u by (simp add: paged_def)
  have q: "nothing_pending_above (gEfiCurrentTpl s) s" using r(1) by (simp add: settled_def)
  note S = kept_section[OF r(3) _ _ q k _ _ n]
  have rel: "CoreReleaseLock n notify gMemoryLock u = Some (released gMemoryLock u)" "view (released gMemoryLock u) = view (u\<lparr>gEfiCurrentTpl := gEfiCurrentTpl s\<rparr>)"
    "locks_kept s (released gMemoryLock u)"
    using S lv r(2) view_eqD(1,3)[OF vu] by simp_all
  have v: "view (released gMemoryLock u) = view (put_pages (\<lambda>_. p) s)"
    unfolding rel(2) using vu by (simp add: view_def other_fields_def put_pages_def acquired_platform)
  have st: "settled (released gMemoryLock u)"
    by (rule settled_cong[OF _ v]) (use r(1) rel(3) in \<open>simp_all add: put_pages_def settled_world locks_kept_def\<close>)
  have pg: "pages (released gMemoryLock u) = p" using view_eqD(5)[OF v] by simp
  have f: "gEfiCurrentTpl (released gMemoryLock u) = gEfiCurrentTpl s" "event (released gMemoryLock u) = event s" "gEventSignalQueue (released gMemoryLock u) = gEventSignalQueue s"
    using view_eqD(1,4,6)[OF v] by (simp_all add: other_fields_def)
  have "Lock (locks (released gMemoryLock u) l) = Lock (locks s l)" for l using rel(3) unfolding locks_kept_def by blast
  then have "page_ready (released gMemoryLock u)" if "pages_ok p"
    unfolding page_ready_def using st f pg that r by (simp add: unheard_def del: released_fields)
  then show thesis using that rel(1,3) v pg by (simp add: CoreReleaseMemoryLock_def)
qed

text \<open>No memory of the GCD map is waiting to be tested, so that none is promoted.\<close>

definition all_promoted :: "'v PAGES \<Rightarrow> bool" where
  "all_promoted s \<longleftrightarrow> (\<forall>e\<in>set (mGcdMemorySpaceMap (world s)). \<not> (GcdMemoryType e = EfiGcdMemoryTypeReserved \<and> EndAddress e < MAX_ALLOC_ADDRESS
     \<and> Capabilities e AND PROMOTED_CAPABILITIES = EFI_MEMORY_PRESENT OR EFI_MEMORY_INITIALIZED))"

lemma promote_loop_nothing:
  assumes "all_promoted s" "set is \<subseteq> {..<length (mGcdMemorySpaceMap (world s))}"
  shows "Promote_loop n notify FreeStack is b s = Some (b, s)"
  using assms(2)
proof (induction "is")
  case (Cons i "is")
  then have "mGcdMemorySpaceMap (world s) ! i \<in> set (mGcdMemorySpaceMap (world s))" by simp
  then show ?case using assms(1) Cons by (auto simp: all_promoted_def Let_def)
qed simp

lemma promote_nothing:
  assumes s: "page_locked s" "gEfiCurrentTpl s = TPL_NOTIFY" "Lock (locks s mGcdMemorySpaceLock) = EfiLockReleased" and a: "all_promoted s" and n: "2 \<le> n"
  obtains t where "PromoteMemoryResource n notify FreeStack s = Some (False, t)" "paged s (pages s) t"
proof -
  let ?l = mGcdMemorySpaceLock let ?a = "acquired ?l s"
  have st: "settled s" using s(1) by (simp add: page_locked_def)
  have lv: "Tpl (locks s ?l) = TPL_NOTIFY" using st by (simp add: settled_def event_inv_def lock_levels_def)
  have acq: "CoreAcquireLock ?l s = Some ?a" using s lv by (simp add: CoreAcquireLock_eq)
  have q: "nothing_pending_above (gEfiCurrentTpl s) s" using st by (simp add: settled_def)
  have rel: "CoreReleaseLock n notify ?l ?a = Some (released ?l ?a)" "view (released ?l ?a) = view (?a\<lparr>gEfiCurrentTpl := gEfiCurrentTpl s\<rparr>)" "locks_kept s (released ?l ?a)"
    using kept_section[OF s(3) _ _ q locks_kept_refl _ _ n] s(2) lv by simp_all
  have v: "view (released ?l ?a) = view s" unfolding rel(2) by (simp add: view_def other_fields_def acquired_platform)
  have "Promote_loop n notify FreeStack [0..<length (mGcdMemorySpaceMap (world ?a))] False ?a = Some (False, ?a)"
    by (rule promote_loop_nothing) (use a in \<open>auto simp: all_promoted_def\<close>)
  then have run: "PromoteMemoryResource n notify FreeStack s = Some (False, released ?l ?a)"
    using acq rel(1) by (simp add: PromoteMemoryResource_def CoreAcquireGcdMemoryLock_def CoreReleaseGcdMemoryLock_def)
  have "settled (released ?l ?a)" by (rule settled_cong[OF st v rel(3)])
  then have "page_locked (released ?l ?a)" using s(1) rel(3) view_eqD(4,6)[OF v] by (simp add: page_locked_def unheard_def locks_kept_def)
  moreover have "put_pages (\<lambda>_. pages s) s = s" by (simp add: put_pages_def)
  ultimately show thesis using that[OF run] v rel(3) by (simp add: paged_def)
qed

text \<open>The search of the services: only the start of the default range may change.\<close>

lemma find_free_runs:
  assumes s: "page_locked s" "gEfiCurrentTpl s = TPL_NOTIFY" "Lock (locks s mGcdMemorySpaceLock) = EfiLockReleased" "pages_ok (pages s)" "all_promoted s"
    and n: "2 \<le> n" "0 < k" and N: "push_bit 12 N \<noteq> 0"
  obtains a t where "FindFreePages k n notify FreeStack M N ty 0x1000 s = Some (a, t)" "paged s (pages t) t" "memory_lists (pages t) = memory_lists (pages s)"
    "pages_ok (pages t)"
    "if a = 0 then \<forall>b. \<not> room (gMemoryMap (memory_lists (pages s))) 0 (unat M) (unat (push_bit 12 N)) b
     else room (gMemoryMap (memory_lists (pages s))) 0 (unat M) (unat (push_bit 12 N)) (unat a)"
proof -
  let ?m = "gMemoryMap (memory_lists (pages s))" and ?B = "unat (push_bit 12 N)" and ?b = "mMemoryTypeStatistics (pages s) (unat ty)"
  let ?D = "mDefaultMaximumAddress (pages s)"
  have m: "apart ?m" "fused ?m" using s(4) by (simp_all add: pages_ok_def map_ok_def)
  have same: "paged s (pages s) s" using paged_put[OF s(1), of "\<lambda>p. p"] by (simp add: put_pages_def)
  have N': "unat (push_bit 12 N) \<noteq> 0" using N by (simp add: unat_eq_zero)
  have wide: "room ?m 0 (unat M) ?B a" if "room ?m lo h ?B a" "h \<le> unat M" for lo h a using that by (auto simp: room_def)
  obtain a1 where a1: "CoreFindFreePagesI (BinMaximum ?b) (BinBase ?b) N 0x1000 ?m = Some a1"
    "a1 \<noteq> 0 \<Longrightarrow> room ?m (unat (BinBase ?b)) (unat (BinMaximum ?b)) ?B (unat a1)" using find_pages[OF m N', of "BinMaximum ?b" "BinBase ?b"] by auto
  obtain a2 where a2: "CoreFindFreePagesI ?D 0 N 0x1000 ?m = Some a2" "a2 \<noteq> 0 \<Longrightarrow> room ?m 0 (unat ?D) ?B (unat a2)"
    using find_pages[OF m N', of ?D 0, unfolded unsigned_0] by auto
  obtain a3 where a3: "CoreFindFreePagesI M 0 N 0x1000 ?m = Some a3"
    "if a3 = 0 then \<forall>b. \<not> room ?m 0 (unat M) ?B b else room ?m 0 (unat M) ?B (unat a3)" using find_pages[OF m N', of M 0, unfolded unsigned_0] by (auto split: if_splits)
  obtain k' where k: "k = Suc k'" using n(2) by (cases k) auto
  show thesis
  proof (cases "ty < EfiMaxMemoryType \<and> M \<ge> BinMaximum ?b \<and> a1 \<noteq> 0")
    case True
    then have "FindFreePages k n notify FreeStack M N ty 0x1000 s = Some (a1, s)" using a1(1) by (simp add: k Let_def)
    then show thesis by (rule that) (use True same s(4) a1(2) wide in \<open>auto simp: word_le_nat_alt\<close>)
  next
    case c1: False
    show thesis
    proof (cases "M \<ge> ?D \<and> a2 \<noteq> 0")
      case True
      let ?t = "if a2 < mDefaultBaseAddress (pages s) then put_pages (mDefaultBaseAddress_update (\<lambda>_. a2)) s else s"
      have run: "FindFreePages k n notify FreeStack M N ty 0x1000 s = Some (a2, ?t)" using c1 True a1(1) a2(1) by (auto simp: k Let_def)
      have "paged s (pages ?t) ?t" using same paged_put[OF s(1)] by simp
      then show thesis by (rule that[OF run]) (use True s(4) a2(2) wide in \<open>auto simp: word_le_nat_alt pages_ok_def\<close>)
    next
      case c2: False
      show thesis
      proof (cases "a3 = 0")
        case False
        then have "FindFreePages k n notify FreeStack M N ty 0x1000 s = Some (a3, s)" using c1 c2 a1(1) a2(1) a3(1) by (auto simp: k Let_def)
        then show thesis by (rule that) (use False same s(4) a3(2) in simp_all)
      next
        case True
        obtain t where t: "PromoteMemoryResource n notify FreeStack s = Some (False, t)" "paged s (pages s) t" using promote_nothing[OF s(1-3,5) n(1)] .
        have "FindFreePages k n notify FreeStack M N ty 0x1000 s = Some (0, t)" using c1 c2 a1(1) a2(1) a3(1) t(1) True by (auto simp: k Let_def)
        then show thesis by (rule that) (use True t(2) paged_pages[OF t(2)] s(4) a3(2) in simp_all)
      qed
    qed
  qed
qed

section \<open>The services\<close>

abbreviation page_size :: "UINT64 \<Rightarrow> nat" where
  "page_size N \<equiv> unat (push_bit 12 N)"

lemma page_span:
  fixes S N :: UINT64
  assumes "4096 dvd unat S" "page_size N \<noteq> 0" "unat S + page_size N < 2 ^ 64"
  shows "unat (S + push_bit 12 N - 1) = unat S + page_size N - 1" "whole_pages (unat S) (unat (S + push_bit 12 N - 1))"
proof -
  have a: "unat (S + push_bit 12 N) = unat S + page_size N" using assms(3) by (simp add: unat_word_ariths)
  then have "S + push_bit 12 N \<noteq> 0" using assms(2) by (metis add_is_0 unat_0)
  then show e: "unat (S + push_bit 12 N - 1) = unat S + page_size N - 1" using a unat_minus_one by metis
  have "unat S + page_size N - 1 + 1 = unat S + page_size N" using assms(2) by simp
  moreover have "4096 dvd unat S + page_size N" using assms(1) page_bytes by (rule dvd_add)
  ultimately show "whole_pages (unat S) (unat (S + push_bit 12 N - 1))" using assms unfolding whole_pages_def e by auto
qed

lemma convert_loop:
  assumes s: "page_locked s" and r: "whole_pages (unat S) (unat (S + push_bit 12 N - 1))" and N: "page_size N \<noteq> 0"
  shows "CoreConvertPages n notify S N ty s = ConvertPages_loop n n notify (CoreFreeMemoryMapStack n notify) N (Some ty) 0 S (S + push_bit 12 N - 1) s"
proof -
  have "N \<noteq> 0" using N by auto
  moreover have "LShiftU64 N EFI_PAGE_SHIFT = Some (push_bit 12 N)" by (simp add: LShiftU64_def InternalMathLShiftU64_def)
  ultimately show ?thesis using s whole_words[OF r]
    by (simp add: CoreConvertPages_def CoreConvertPagesEx_def ConvertPages_by_def ASSERT_LOCKED_def page_locked_def Let_def)
qed

definition free_run :: "'v PAGE_STATE \<Rightarrow> nat \<Rightarrow> nat \<Rightarrow> bool" where
  "free_run p a B \<longleftrightarrow> (\<exists>A. \<forall>x. a \<le> x \<and> x < a + B \<longrightarrow> memory p x = Some (EfiConventional, A))"

text \<open>The map with the range from \<open>a\<close> of another type.\<close>

definition retyped :: "UINT32 \<Rightarrow> nat \<Rightarrow> nat \<Rightarrow> (nat \<Rightarrow> (UINT32 \<times> UINT64) option) \<Rightarrow> nat \<Rightarrow> (UINT32 \<times> UINT64) option" where
  "retyped ty a b f x = (if a \<le> x \<and> x < b then map_option (\<lambda>(_, A). (ty, A)) (f x) else f x)"

lemma convert_allocates:
  assumes s: "page_locked s" "pages_ok (pages s)" "2 \<le> free_entries (pages s)" and n: "33 < n" and ty: "ty \<noteq> EfiConventional"
    and r: "4096 dvd unat S" "page_size N \<noteq> 0" "unat S + page_size N < 2 ^ 64"
  obtains st t where "CoreConvertPages n notify S N ty s = Some (st, t)" "paged s (pages t) t" "pages_ok (pages t)" "bins_kept (pages s) (pages t)"
    "free_entries (pages s) \<le> free_entries (pages t) + 2"
    "st = (if free_run (pages s) (unat S) (page_size N) then EFI_SUCCESS else EFI_NOT_FOUND)"
    "memory (pages t) = (if st = EFI_SUCCESS then retyped ty (unat S) (unat S + page_size N) (memory (pages s)) else memory (pages s))"
proof -
  note sp = page_span[OF r]
  have n2: "2 \<le> n" using n by simp
  have fr: "(\<exists>A. free_from_to A (pages s) (unat S) (unat (S + push_bit 12 N - 1))) = free_run (pages s) (unat S) (page_size N)"
    unfolding free_run_def free_from_to_def sp(1) using r(2) by (auto simp: less_eq_Suc_le)
  obtain st t where t: "ConvertPages_loop n n notify (CoreFreeMemoryMapStack n notify) N (Some ty) 0 S (S + push_bit 12 N - 1) s = Some (st, t)"
    "paged s (pages t) t" "pages_ok (pages t)" "bins_kept (pages s) (pages t)" "free_entries (pages s) \<le> free_entries (pages t) + 2"
    "st = EFI_SUCCESS \<Longrightarrow> \<exists>A. free_from_to A (pages s) (unat S) (unat (S + push_bit 12 N - 1))
       \<and> (\<forall>x. memory (pages t) x = (if unat S \<le> x \<and> x \<le> unat (S + push_bit 12 N - 1) then Some (ty, A) else memory (pages s) x))"
    "st \<noteq> EFI_SUCCESS \<Longrightarrow> st = EFI_NOT_FOUND \<and> t = s \<and> \<not> (\<exists>A. free_from_to A (pages s) (unat S) (unat (S + push_bit 12 N - 1)))"
    by (rule stack.allocate_runs[where notify = notify and N = N and At = 0, OF s n n2 sp(2) ty]) (rule that)
  have st: "st = (if free_run (pages s) (unat S) (page_size N) then EFI_SUCCESS else EFI_NOT_FOUND)" using t(6,7) fr by auto
  have "memory (pages t) x = (if st = EFI_SUCCESS then retyped ty (unat S) (unat S + page_size N) (memory (pages s)) else memory (pages s)) x" for x
  proof (cases "st = EFI_SUCCESS")
    case True
    then obtain A where A: "free_from_to A (pages s) (unat S) (unat S + page_size N - 1)"
      "memory (pages t) x = (if unat S \<le> x \<and> x \<le> unat S + page_size N - 1 then Some (ty, A) else memory (pages s) x)" using t(6) sp(1) by auto
    then show ?thesis using True r(2) by (auto simp: retyped_def free_from_to_def)
  qed (use t(7) in simp)
  then have m: "memory (pages t) = (if st = EFI_SUCCESS then retyped ty (unat S) (unat S + page_size N) (memory (pages s)) else memory (pages s))" by (rule ext)
  show thesis by (rule that[OF _ t(2-5) st m]) (use t(1) convert_loop[OF s(1) sp(2) r(2)] in simp)
qed

lemma convert_frees:
  assumes s: "page_locked s" "pages_ok (pages s)" "2 \<le> free_entries (pages s)" and n: "33 < n" "page_size N < 4096 * n"
    and r: "4096 dvd unat S" "page_size N \<noteq> 0" "unat S + page_size N < 2 ^ 64"
  obtains st t c where "CoreConvertPages n notify S N EfiConventional s = Some (st, t)" "paged s (pages t) t" "pages_ok (pages t)" "bins_kept (pages s) (pages t)"
    "unat S \<le> c" "c \<le> unat S + page_size N" "\<And>x. unat S \<le> x \<Longrightarrow> x < c \<Longrightarrow> in_use (pages s) x"
    "if c = unat S + page_size N then st = EFI_SUCCESS else st = EFI_NOT_FOUND \<and> \<not> in_use (pages s) c"
    "memory (pages t) = retyped EfiConventional (unat S) c (memory (pages s))"
proof -
  note sp = page_span[OF r]
  have e: "unat (S + push_bit 12 N - 1) + 1 = unat S + page_size N" unfolding sp(1) using r(2) by simp
  obtain st t c where t: "ConvertPages_loop n n notify (CoreFreeMemoryMapStack n notify) N (Some EfiConventional) 0 S (S + push_bit 12 N - 1) s = Some (st, t)"
    "paged s (pages t) t" "pages_ok (pages t)" "bins_kept (pages s) (pages t)"
    "unat S \<le> c" "c \<le> unat S + page_size N" "\<forall>x. unat S \<le> x \<and> x < c \<longrightarrow> in_use (pages s) x"
    "if c = unat S + page_size N then st = EFI_SUCCESS else st = EFI_NOT_FOUND \<and> \<not> in_use (pages s) c"
    "\<forall>x. memory (pages t) x = (if unat S \<le> x \<and> x < c then map_option (\<lambda>(_, A). (EfiConventional, A)) (memory (pages s) x) else memory (pages s) x)"
    using stack.free_runs[where nt = notify and k = n and notify = notify and N = N and At = 0, OF s(1,2) disjI1[OF sp(2)] disjI2[OF disjI1[OF s(3)]] n(1)] n(2) unfolding e by auto
  have "memory (pages t) = retyped EfiConventional (unat S) c (memory (pages s))" using t(9) by (auto simp: retyped_def)
  moreover have "unat S \<le> x \<Longrightarrow> x < c \<Longrightarrow> in_use (pages s) x" for x using t(7) by blast
  ultimately show thesis by (intro that[OF _ t(2-6) _ t(8)]) (use t(1) convert_loop[OF s(1) sp(2) r(2)] in simp_all)
qed

lemma one_page [simp]: "type_alignment ty = 0x1000" "round_pages 0x1000 N = N"
proof -
  show "type_alignment ty = 0x1000" by (simp add: type_alignment_def)
  have "EFI_SIZE_TO_PAGES 0x1000 = 1" by (simp add: EFI_SIZE_TO_PAGES_def drop_bit_eq_div)
  then show "round_pages 0x1000 N = N" by (simp add: round_pages_def)
qed

definition request_ok :: "UINT32 \<Rightarrow> bool" where
  "request_ok ty \<longleftrightarrow> (ty < EfiMaxMemoryType \<or> ty \<ge> MEMORY_TYPE_OEM_RESERVED_MIN) \<and> ty \<noteq> EfiConventional \<and> ty \<noteq> EfiPersistentMemory"

abbreviation free_range :: "'v PAGES \<Rightarrow> UINT64 \<Rightarrow> UINT64 \<Rightarrow> nat \<Rightarrow> bool" where
  "free_range s M N a \<equiv> room (gMemoryMap (memory_lists (pages s))) 0 (unat M) (page_size N) a"

lemma room_words:
  assumes "pages_ok (pages s)" "room (gMemoryMap (memory_lists (pages s))) 0 H B a" "B \<noteq> 0"
  shows "a + B < 2 ^ 64" "free_run (pages s) a B" "4096 dvd a"
proof -
  have m: "apart (gMemoryMap (memory_lists (pages s)))" using assms(1) by (simp add: pages_ok_def map_ok_def)
  obtain A where "memory (pages s) (a + B - 1) = Some (EfiConventional, A)" using assms(2,3) by (auto simp: room_def)
  then obtain e where "e \<in> set (gMemoryMap (memory_lists (pages s)))" "covers e (a + B - 1)" using mem_Some[OF m] by blast
  then show "a + B < 2 ^ 64" using m by (force simp: apart_def whole_pages_def)
  show "free_run (pages s) a B" "4096 dvd a" using assms(2) by (simp_all add: room_def free_run_def)
qed

lemma retyped_nothing [simp]: "retyped ty a a f = f"
  by (rule ext) (auto simp: retyped_def)

lemma all_promoted_cong: "all_promoted s \<Longrightarrow> mGcdMemorySpaceMap (world t) = mGcdMemorySpaceMap (world s) \<Longrightarrow> all_promoted t"
  by (simp add: all_promoted_def)

lemma paged_world:
  assumes "paged s p t"
  shows "world t = (world s)\<lparr>elsewhere := p\<rparr>" "gEfiCurrentTpl t = gEfiCurrentTpl s" "\<And>l. Lock (locks t l) = Lock (locks s l)"
  using assms view_eqD(1,5)[of t "put_pages (\<lambda>_. p) s"] by (auto simp: paged_def put_pages_def locks_kept_def)

lemma below_top: "\<not> MAX_ALLOC_ADDRESS < x"
  using unat_less_power[of x] by (simp add: word_less_nat_alt)

lemma put_same: "put_pages (\<lambda>p. p) s = s" "put_pages (\<lambda>_. pages s) s = s"
  by (simp_all add: put_pages_def)

lemma paged_same: "page_locked s \<Longrightarrow> paged s (pages s) s"
  using paged_put[of s "\<lambda>p. p"] unfolding put_same .

text \<open>Allocating anywhere, or below a bound.\<close>

lemma allocate_runs_service:
  fixes a0 :: UINT64
  assumes s: "page_ready s" "2 \<le> free_entries (pages s)" "all_promoted s" and n: "33 < n" and req: "request_ok ty" "T = AllocateAnyPages \<or> T = AllocateMaxAddress"
    and N: "page_size N \<noteq> 0"
  defines "M \<equiv> (if T = AllocateMaxAddress then a0 else MAX_ALLOC_ADDRESS)"
  obtains st a t where "CoreInternalAllocatePages n notify T ty N (Some a0) s = Some (st, Some a, t)" "page_ready t" "view t = view (put_pages (\<lambda>_. pages t) s)"
    "free_entries (pages s) \<le> free_entries (pages t) + 2"
    "st = EFI_SUCCESS \<and> free_range s M N (unat a) \<and> memory (pages t) = retyped ty (unat a) (unat a + page_size N) (memory (pages s))
     \<or> st = EFI_OUT_OF_RESOURCES \<and> a = a0 \<and> (\<forall>b. \<not> free_range s M N b) \<and> memory (pages t) = memory (pages s)"
proof -
  let ?l = "acquired gMemoryLock s"
  note A = page_acquire[OF s(1)]
  have n2: "2 \<le> n" "0 < n" using n by simp_all
  have ok: "pages_ok (pages ?l)" using s(1) A(3) by (simp add: page_ready_def)
  have ap: "all_promoted ?l" by (rule all_promoted_cong[OF s(3)]) simp
  have N': "push_bit 12 N \<noteq> 0" using N by auto
  obtain a u where u: "FindFreePages n n notify (CoreFreeMemoryMapStack n notify) M N ty 0x1000 ?l = Some (a, u)" "paged ?l (pages u) u"
    "memory_lists (pages u) = memory_lists (pages ?l)" "pages_ok (pages u)"
    "if a = 0 then \<forall>b. \<not> room (gMemoryMap (memory_lists (pages ?l))) 0 (unat M) (page_size N) b
     else room (gMemoryMap (memory_lists (pages ?l))) 0 (unat M) (page_size N) (unat a)"
    by (rule find_free_runs[OF A(2,4,5) ok ap n2 N'])
  have ne: "T \<noteq> AllocateAddress" "\<not> T \<ge> MaxAllocateType" using req(2) by (auto simp: word_le_nat_alt)
  have rq: "\<not> (ty \<ge> EfiMaxMemoryType \<and> ty < MEMORY_TYPE_OEM_RESERVED_MIN \<or> ty = EfiConventional \<or> ty = EfiPersistentMemory)" "ty \<noteq> EfiConventional"
    using req(1) by (auto simp: request_ok_def not_le)
  have M: "(if T = AllocateMaxAddress then a0 else MAX_ALLOC_ADDRESS) = M" by (simp add: M_def)
  show thesis
  proof (cases "a = 0")
    case True
    obtain t where t: "CoreReleaseMemoryLock n notify u = Some t" "view t = view (put_pages (\<lambda>_. pages u) s)" "locks_kept s t" "pages t = pages u" "pages_ok (pages u) \<longrightarrow> page_ready t"
      by (rule page_release[OF s(1) u(2) n2(1)])
    have "CoreInternalAllocatePages n notify T ty N (Some a0) s = Some (EFI_OUT_OF_RESOURCES, Some a0, t)"
      using ne rq True u(1) A(1) t(1) by (simp add: CoreInternalAllocatePages_def Let_def M)
    moreover have "page_ready t" using t(5) u(4) by blast
    ultimately show thesis using that[of EFI_OUT_OF_RESOURCES a0 t] t(2,4) u(3,5) A(3) True by simp
  next
    case False
    then have r: "room (gMemoryMap (memory_lists (pages u))) 0 (unat M) (page_size N) (unat a)" using u(3,5) by simp
    note W = room_words[OF u(4) r N]
    obtain st v where v: "CoreConvertPages n notify a N ty u = Some (st, v)" "paged u (pages v) v" "pages_ok (pages v)" "bins_kept (pages u) (pages v)"
      "free_entries (pages u) \<le> free_entries (pages v) + 2"
      "st = (if free_run (pages u) (unat a) (page_size N) then EFI_SUCCESS else EFI_NOT_FOUND)"
      "memory (pages v) = (if st = EFI_SUCCESS then retyped ty (unat a) (unat a + page_size N) (memory (pages u)) else memory (pages u))"
      by (rule convert_allocates[where notify = notify, OF paged_locked[OF u(2)] u(4) _ n rq(2) W(3) N W(1)]) (use s(2) u(3) A(3) in simp, rule that)
    have lv: "paged ?l (pages v) v" by (rule paged_trans[OF u(2) v(2)])
    obtain t where t: "CoreReleaseMemoryLock n notify v = Some t" "view t = view (put_pages (\<lambda>_. pages v) s)" "locks_kept s t" "pages t = pages v" "pages_ok (pages v) \<longrightarrow> page_ready t"
      by (rule page_release[OF s(1) lv n2(1)])
    have st: "st = EFI_SUCCESS" using v(6) W(2) by simp
    have "CoreInternalAllocatePages n notify T ty N (Some a0) s = Some (EFI_SUCCESS, Some a, t)"
      using ne rq False u(1) A(1) t(1) v(1) st by (simp add: CoreInternalAllocatePages_def Let_def M)
    moreover have "page_ready t" using t(5) v(3) by blast
    ultimately show thesis using that[of EFI_SUCCESS a t] t(2,4) u(3) v(5,7) st r A(3) by simp
  qed
qed

text \<open>Allocating at an address.\<close>

lemma allocate_address_service:
  assumes s: "page_ready s" "2 \<le> free_entries (pages s)" and n: "33 < n" and req: "request_ok ty"
  obtains st t where "CoreInternalAllocatePages n notify AllocateAddress ty N (Some a) s = Some (st, Some a, t)" "page_ready t" "view t = view (put_pages (\<lambda>_. pages t) s)"
    "free_entries (pages s) \<le> free_entries (pages t) + 2"
    "st = (if 4096 dvd unat a \<and> N \<noteq> 0 \<and> unat a + 4096 * unat N < 2 ^ 64 \<and> \<not> meets_special_bin ty a (a + push_bit 12 N - 1) (pages s)
              \<and> free_run (pages s) (unat a) (4096 * unat N) then EFI_SUCCESS else EFI_NOT_FOUND)"
    "memory (pages t) = (if st = EFI_SUCCESS then retyped ty (unat a) (unat a + 4096 * unat N) (memory (pages s)) else memory (pages s))"
proof -
  let ?l = "acquired gMemoryLock s" and ?E = "a + push_bit 12 N - 1" and ?m = "gMemoryMap (memory_lists (pages s))"
  let ?fits = "4096 dvd unat a \<and> N \<noteq> 0 \<and> unat a + 4096 * unat N < 2 ^ 64 \<and> \<not> meets_special_bin ty a ?E (pages s) \<and> free_run (pages s) (unat a) (4096 * unat N)"
  note A = page_acquire[OF s(1)]
  have n2: "2 \<le> n" using n by simp
  obtain n' where n': "n = Suc n'" using n by (cases n) auto
  have ok: "pages_ok (pages s)" using s(1) by (simp add: page_ready_def)
  have rq: "\<not> (ty \<ge> EfiMaxMemoryType \<and> ty < MEMORY_TYPE_OEM_RESERVED_MIN \<or> ty = EfiConventional \<or> ty = EfiPersistentMemory)" "ty \<noteq> EfiConventional"
    using req by (auto simp: request_ok_def not_le)
  have al: "a AND 0xFFF = 0 \<longleftrightarrow> 4096 dvd unat a" using aligned_iff[of 12 a] by simp
  have sh: "LShiftU64 N 12 = Some (push_bit 12 N)" "RShiftU64 MAX_ALLOC_ADDRESS 12 = Some 0xFFFFFFFFFFFFF"
    by (simp_all add: LShiftU64_def InternalMathLShiftU64_def RShiftU64_def InternalMathRShiftU64_def drop_bit_eq_div)
  have st: "a AND 0xFFF = 0 \<Longrightarrow> CoreInternalAllocatePages n notify AllocateAddress ty N (Some a) s =
      (case address_refused ty N a (pages s) of None \<Rightarrow> None | Some True \<Rightarrow> Some (EFI_NOT_FOUND, Some a, s)
       | Some False \<Rightarrow> do { (Status, v) \<leftarrow> CoreConvertPages n notify a N ty ?l; t \<leftarrow> CoreReleaseMemoryLock n notify v; Some (Status, Some a, t) })"
    "a AND 0xFFF \<noteq> 0 \<Longrightarrow> CoreInternalAllocatePages n notify AllocateAddress ty N (Some a) s = Some (EFI_NOT_FOUND, Some a, s)"
    using rq A(1) by (auto simp: CoreInternalAllocatePages_def Let_def split: option.split bool.split intro!: arg_cong2[where f = Option.bind])
  {
    assume r: "CoreInternalAllocatePages n notify AllocateAddress ty N (Some a) s = Some (EFI_NOT_FOUND, Some a, s)" and no: "\<not> ?fits"
    have thesis by (rule that[OF r]) (use s(1) no in \<open>auto simp: put_same\<close>)
  } note refuse = this
  show thesis
  proof (cases "4096 dvd unat a \<and> N \<noteq> 0 \<and> N \<le> 0xFFFFFFFFFFFFF \<and> a < ?E \<and> \<not> meets_special_bin ty a ?E (pages s)")
    case False
    have "address_refused ty N a (pages s) = Some True" if "4096 dvd unat a"
      using False that by (auto simp: address_refused_def sh Let_def not_le)
    then have "CoreInternalAllocatePages n notify AllocateAddress ty N (Some a) s = Some (EFI_NOT_FOUND, Some a, s)"
      using st al by (cases "4096 dvd unat a") simp_all
    moreover have "\<not> ?fits"
    proof
      assume f: ?fits
      then have B: "page_size N = 4096 * unat N" "page_size N \<noteq> 0" using page_size_exact[of N] by (simp_all add: unat_eq_0)
      then have "unat ?E = unat a + page_size N - 1" using f by (intro page_span(1)) simp_all
      then have "a < ?E" using B page_bytes[of N] by (simp add: word_less_nat_alt)
      moreover have "N \<le> 0xFFFFFFFFFFFFF" using f by (simp add: word_le_nat_alt)
      ultimately show False using False f by blast
    qed
    ultimately show thesis by (rule refuse)
  next
    case True
    have acc: "address_refused ty N a (pages s) = Some False" using True below_top by (auto simp: address_refused_def sh Let_def not_le)
    have ps: "page_size N = 4096 * unat N" "page_size N \<noteq> 0" using True page_size_exact[of N] by (simp_all add: word_le_nat_alt unat_eq_0)
    have "?E = a + (push_bit 12 N - 1)" by simp
    moreover have "unat (push_bit 12 N - 1) = page_size N - 1" using ps(2) by (intro unat_minus_one) auto
    moreover have "unat (a + (push_bit 12 N - 1)) = (unat a + unat (push_bit 12 N - 1)) mod 2 ^ 64" by (simp only: unat_word_ariths) simp
    ultimately have E: "unat ?E = (unat a + (page_size N - 1)) mod 2 ^ 64" by metis
    have top: "unat a + page_size N \<le> 2 ^ 64"
    proof (rule ccontr)
      assume over: "\<not> unat a + page_size N \<le> 2 ^ 64"
      then have "unat ?E = unat a + (page_size N - 1) - 2 ^ 64" unfolding E using unat_less_power[of a] unat_less_power[of "push_bit 12 N"] by (simp add: mod_if)
      then have "unat ?E < unat a" using over unat_less_power[of "push_bit 12 N"] unat_less_power[of a] by simp
      then show False using True by (simp add: word_less_nat_alt)
    qed
    have run: "CoreInternalAllocatePages n notify AllocateAddress ty N (Some a) s =
      do { (Status, v) \<leftarrow> CoreConvertPages n notify a N ty ?l; t \<leftarrow> CoreReleaseMemoryLock n notify v; Some (Status, Some a, t) }"
      using st(1) al True acc by simp
    show thesis
    proof (cases "unat a + page_size N < 2 ^ 64")
      case small: True
      have la: "pages_ok (pages ?l)" "2 \<le> free_entries (pages ?l)" and d: "4096 dvd unat a" using ok s(2) A(3) True by simp_all
      obtain st v where v: "CoreConvertPages n notify a N ty ?l = Some (st, v)" "paged ?l (pages v) v" "pages_ok (pages v)" "bins_kept (pages ?l) (pages v)"
        "free_entries (pages ?l) \<le> free_entries (pages v) + 2"
        "st = (if free_run (pages ?l) (unat a) (page_size N) then EFI_SUCCESS else EFI_NOT_FOUND)"
        "memory (pages v) = (if st = EFI_SUCCESS then retyped ty (unat a) (unat a + page_size N) (memory (pages ?l)) else memory (pages ?l))"
        by (rule convert_allocates[where notify = notify, OF A(2) la n rq(2) d ps(2) small]) (rule that)
      obtain t where t: "CoreReleaseMemoryLock n notify v = Some t" "view t = view (put_pages (\<lambda>_. pages v) s)" "locks_kept s t" "pages t = pages v" "pages_ok (pages v) \<longrightarrow> page_ready t"
        by (rule page_release[OF s(1) v(2) n2])
      have "page_ready t" using t(5) v(3) by blast
      then show ?thesis using that[of st t] run v(1,5-7) t(1,2,4) A(3) True small ps(1) by simp
    next
      case False
      then have "unat a + (page_size N - 1) = 2 ^ 64 - 1" using top ps(2) by linarith
      then have "unat ?E = 2 ^ 64 - 1" unfolding E by simp
      then have E': "?E = MAX_ALLOC_ADDRESS" by (simp add: word_unat_eq_iff)
      have "MemEnd e < ?E" if "e \<in> set ?m" for e
        using that ok unfolding E' by (auto simp: pages_ok_def map_ok_def apart_def whole_pages_def word_less_nat_alt)
      then have "ConvertPages_loop n n notify (CoreFreeMemoryMapStack n notify) N (Some ty) 0 a ?E ?l = Some (EFI_NOT_FOUND, ?l)"
        using rq(2) True by (auto simp: n' A(3) Let_def find_Some_iff split: option.split dest!: nth_mem)
      moreover have "a AND EFI_PAGE_MASK = 0" using True al by simp
      ultimately have "CoreConvertPages n notify a N ty ?l = Some (EFI_NOT_FOUND, ?l)"
        using True sh A(2) by (simp add: CoreConvertPages_def CoreConvertPagesEx_def ConvertPages_by_def ASSERT_LOCKED_def page_locked_def Let_def)
      moreover obtain t where t: "CoreReleaseMemoryLock n notify ?l = Some t" "view t = view (put_pages (\<lambda>_. pages s) s)" "locks_kept s t" "pages t = pages s" "pages_ok (pages s) \<longrightarrow> page_ready t"
        by (rule page_release[OF s(1) paged_same[OF A(2), unfolded A(3)] n2])
      ultimately show ?thesis using that[of EFI_NOT_FOUND t] run ok ps(1) False by simp
    qed
  qed
qed

lemma free_service:
  assumes s: "page_ready s" "2 \<le> free_entries (pages s)" and n: "33 < n" "page_size N < 4096 * n"
    and r: "4096 dvd unat a" "page_size N \<noteq> 0" "unat a + page_size N < 2 ^ 64"
  obtains st ty t c where "CoreInternalFreePages n notify a N s = Some (st, ty, t)" "page_ready t" "view t = view (put_pages (\<lambda>_. pages t) s)"
    "unat a \<le> c" "c \<le> unat a + page_size N" "\<And>x. unat a \<le> x \<Longrightarrow> x < c \<Longrightarrow> in_use (pages s) x"
    "if c = unat a + page_size N then st = EFI_SUCCESS else st = EFI_NOT_FOUND \<and> \<not> in_use (pages s) c"
    "memory (pages t) = retyped EfiConventional (unat a) c (memory (pages s))" "\<And>T A. memory (pages s) (unat a) = Some (T, A) \<Longrightarrow> ty = Some T"
proof -
  let ?l = "acquired gMemoryLock s" and ?m = "gMemoryMap (memory_lists (pages s))"
  note A = page_acquire[OF s(1)]
  have n2: "2 \<le> n" using n by simp
  have ok: "pages_ok (pages s)" using s(1) by (simp add: page_ready_def)
  have m: "apart ?m" using ok by (simp add: pages_ok_def map_ok_def)
  have al: "a AND 0xFFF = 0" using aligned_iff[of 12 a] r(1) by simp
  have same: "paged ?l (pages s) ?l" using paged_same[OF A(2)] unfolding A(3) .
  have la: "pages_ok (pages ?l)" "2 \<le> free_entries (pages ?l)" using ok s(2) A(3) by simp_all
  show thesis
  proof (cases "find (\<lambda>e. MemStart e \<le> a \<and> MemEnd e > a) ?m")
    case None
    then have none: "memory (pages s) (unat a) = None" using found_entry(2)[OF m r(1)] by simp
    then have no: "\<not> in_use (pages s) (unat a)" by (simp add: in_use_def)
    obtain t where t: "CoreReleaseMemoryLock n notify ?l = Some t" "view t = view (put_pages (\<lambda>_. pages s) s)" "locks_kept s t" "pages t = pages s" "pages_ok (pages s) \<longrightarrow> page_ready t"
      by (rule page_release[OF s(1) same n2])
    have run: "CoreInternalFreePages n notify a N s = Some (EFI_NOT_FOUND, None, t)" using A(1,3) None t(1) by (simp add: CoreInternalFreePages_def)
    show thesis by (rule that[OF run, of "unat a"]) (use t ok r(2) no none in auto)
  next
    case (Some e)
    obtain st v c where v: "CoreConvertPages n notify a N EfiConventional ?l = Some (st, v)" "paged ?l (pages v) v" "pages_ok (pages v)" "bins_kept (pages ?l) (pages v)"
      "unat a \<le> c" "c \<le> unat a + page_size N" "\<And>x. unat a \<le> x \<Longrightarrow> x < c \<Longrightarrow> in_use (pages ?l) x"
      "if c = unat a + page_size N then st = EFI_SUCCESS else st = EFI_NOT_FOUND \<and> \<not> in_use (pages ?l) c"
      "memory (pages v) = retyped EfiConventional (unat a) c (memory (pages ?l))"
      by (rule convert_frees[where notify = notify, OF A(2) la n r]) (rule that)
    obtain t where t: "CoreReleaseMemoryLock n notify v = Some t" "view t = view (put_pages (\<lambda>_. pages v) s)" "locks_kept s t" "pages t = pages v" "pages_ok (pages v) \<longrightarrow> page_ready t"
      by (rule page_release[OF s(1) v(2) n2])
    have run: "CoreInternalFreePages n notify a N s = Some (st, Some (MemType e), t)"
      using A(1,3) Some t(1) v(1) al by (simp add: CoreInternalFreePages_def Let_def)
    have "memory (pages s) (unat a) = Some (kind e)" using found_entry(1)[OF m r(1)] Some memory_covers[OF ok] by blast
    then show thesis by (intro that[OF run, of c]) (use t v(3,5-9) A(3) in auto)
  qed
qed

section \<open>Properties\<close>

text \<open>
  (C5) Allocating pages anywhere or below a bound is exact. With free descriptors left, nothing in the GCD map to promote, a permitted type and a size that
  does not wrap around, the service returns in a state ready for the next call. Either it succeeds, and then the range at the returned page address was free
  memory of one attribute below the bound, now has the type that was asked for and keeps its attribute, and no other address changed; or it fails with
  EFI_OUT_OF_RESOURCES, and then there was no such range, and the memory is as before. Apart from the page state nothing is changed.
\<close>

theorem allocate_pages_exact:
  fixes limit :: UINT64
  assumes "page_ready s" "2 \<le> free_entries (pages s)" "all_promoted s" "33 < n" "request_ok MemoryType" "N \<noteq> 0" "4096 * unat N < 2 ^ 64"
    and "AllocateType = AllocateAnyPages \<or> AllocateType = AllocateMaxAddress"
  shows "\<exists>st a t. CoreAllocatePages n notify Hook AllocateType MemoryType N (Some limit) s
        = Some (st, Some a, if st = EFI_SUCCESS then Hook EfiConventional MemoryType a (push_bit 12 N) t else t)
    \<and> page_ready t \<and> view t = view (put_pages (\<lambda>_. pages t) s)
    \<and> (let below = room (gMemoryMap (memory_lists (pages s))) 0 (if AllocateType = AllocateMaxAddress then unat limit else 2 ^ 64 - 1) (4096 * unat N)
       in st = EFI_SUCCESS \<and> below (unat a) \<and> memory (pages t) = retyped MemoryType (unat a) (unat a + 4096 * unat N) (memory (pages s))
          \<or> st = EFI_OUT_OF_RESOURCES \<and> a = limit \<and> (\<forall>b. \<not> below b) \<and> memory (pages t) = memory (pages s))"
proof -
  have N: "page_size N = 4096 * unat N" by (rule page_size_exact[OF assms(7)])
  then have N0: "page_size N \<noteq> 0" using assms(6) by (simp add: unat_eq_0)
  define M where "M = (if AllocateType = AllocateMaxAddress then limit else MAX_ALLOC_ADDRESS)"
  have M: "(if AllocateType = AllocateMaxAddress then unat limit else 2 ^ 64 - 1) = unat M" by (simp add: M_def)
  obtain st a t where t: "CoreInternalAllocatePages n notify AllocateType MemoryType N (Some limit) s = Some (st, Some a, t)" "page_ready t" "view t = view (put_pages (\<lambda>_. pages t) s)"
    "st = EFI_SUCCESS \<and> free_range s M N (unat a) \<and> memory (pages t) = retyped MemoryType (unat a) (unat a + page_size N) (memory (pages s))
     \<or> st = EFI_OUT_OF_RESOURCES \<and> a = limit \<and> (\<forall>b. \<not> free_range s M N b) \<and> memory (pages t) = memory (pages s)"
    by (rule allocate_runs_service[OF assms(1-3,4,5,8) N0, where notify = notify and ?a0.0 = limit, folded M_def]) (rule that)
  then have "CoreAllocatePages n notify Hook AllocateType MemoryType N (Some limit) s
        = Some (st, Some a, if st = EFI_SUCCESS then Hook EfiConventional MemoryType a (push_bit 12 N) t else t)"
    by (auto simp: CoreAllocatePages_def)
  then show ?thesis using t(2-4) unfolding M N Let_def by blast
qed

definition page_sample :: "unit PAGES" where
  "page_sample = initial_core True
     \<lparr>mGcdMemorySpaceMap = [], mGcdIoSpaceMap = [],
      elsewhere = (initial_pages ())\<lparr>memory_lists := sample_map, mMemoryTypeInformationInitialized := True\<rparr>\<rparr>"

lemma page_sample_ready: "page_ready page_sample" "all_promoted page_sample" "memory_lists (pages page_sample) = sample_map"
    "\<not> meets_special_bin ty a b (pages page_sample)"
proof -
  have "settled page_sample" unfolding page_sample_def by (rule settled_initial)
  then show "page_ready page_sample" using sample_map_ok
    by (simp add: page_ready_def pages_ok_def unheard_def) (simp add: page_sample_def initial_core_def EFI_INITIALIZE_LOCK_VARIABLE_def sample_map_def initial_pages_def)
qed (simp_all add: page_sample_def initial_core_def all_promoted_def meets_special_bin_def list_ex_iff initial_pages_def)

lemma page_sample_entries: "free_entries (pages page_sample) = 5"
  by (simp add: page_sample_ready(3) sample_map_def)

lemma page_sample_free: "x \<le> 0x9FFFF \<or> 0x110000 \<le> x \<and> x \<le> 0x1FFFFF \<Longrightarrow> memory (pages page_sample) x = Some (EfiConventional, 15)"
  by (auto simp: page_sample_ready(3) sample_map_def mem_def)

lemma page_sample_room: "room (gMemoryMap (memory_lists (pages page_sample))) 0 0x1FFFFF 0x2000 0x1FE000"
  unfolding room_def using page_sample_free by auto

theorem allocate_pages_exact_witness:
  "\<exists>a t. CoreAllocatePages 34 (\<lambda>f e c s. Some s) (\<lambda>_ _ _ _ s. s) AllocateMaxAddress EfiBootServicesData 2 (Some 0x1FFFFF) page_sample = Some (EFI_SUCCESS, Some a, t)
    \<and> unat a + 0x2000 \<le> 0x200000 \<and> memory (pages t) (unat a) = map_option (\<lambda>(_, A). (EfiBootServicesData, A)) (memory (pages page_sample) (unat a))"
proof -
  have p: "2 \<le> free_entries (pages page_sample)" "(33 :: nat) < 34" "request_ok EfiBootServicesData" "(2 :: UINT64) \<noteq> 0" "4096 * unat (2 :: UINT64) < 2 ^ 64"
    by (simp_all add: page_sample_entries request_ok_def)
  have "AllocateMaxAddress = AllocateAnyPages \<or> AllocateMaxAddress = AllocateMaxAddress" by simp
  from allocate_pages_exact[OF page_sample_ready(1) p(1) page_sample_ready(2) p(2-5) this, where limit = "0x1FFFFF" and notify = "\<lambda>f e c s. Some s" and Hook = "\<lambda>_ _ _ _ s. s"]
  obtain st a t where r: "CoreAllocatePages 34 (\<lambda>f e c s. Some s) (\<lambda>_ _ _ _ s. s) AllocateMaxAddress EfiBootServicesData 2 (Some 0x1FFFFF) page_sample = Some (st, Some a, t)"
    "st = EFI_SUCCESS \<and> room (gMemoryMap (memory_lists (pages page_sample))) 0 0x1FFFFF 0x2000 (unat a)
       \<and> memory (pages t) = retyped EfiBootServicesData (unat a) (unat a + 0x2000) (memory (pages page_sample))
     \<or> (\<forall>b. \<not> room (gMemoryMap (memory_lists (pages page_sample))) 0 0x1FFFFF 0x2000 b)" by (auto simp: Let_def)
  have "st = EFI_SUCCESS \<and> room (gMemoryMap (memory_lists (pages page_sample))) 0 0x1FFFFF 0x2000 (unat a)
       \<and> memory (pages t) = retyped EfiBootServicesData (unat a) (unat a + 0x2000) (memory (pages page_sample))"
    using r(2) page_sample_room by blast
  then show ?thesis using r(1) by (auto simp: room_def retyped_def)
qed

text \<open>
  (C6) Allocating pages at an address is exact, whatever the address and the number of pages: the service succeeds if and only if the address is on a page
  boundary, there is at least one page, the range ends below the last page of the address space, does not meet the bin of another type with special pages, and is
  free memory of one attribute. Then exactly this range has the new type; otherwise the status is EFI_NOT_FOUND and the memory is as before.
\<close>

theorem allocate_address_exact:
  assumes "page_ready s" "2 \<le> free_entries (pages s)" "33 < n" "request_ok MemoryType"
  shows "\<exists>st t. CoreAllocatePages n notify Hook AllocateAddress MemoryType N (Some a) s
        = Some (st, Some a, if st = EFI_SUCCESS then Hook EfiConventional MemoryType a (push_bit 12 N) t else t)
    \<and> page_ready t \<and> view t = view (put_pages (\<lambda>_. pages t) s)
    \<and> st = (if 4096 dvd unat a \<and> N \<noteq> 0 \<and> unat a + 4096 * unat N < 2 ^ 64 \<and> \<not> meets_special_bin MemoryType a (a + push_bit 12 N - 1) (pages s)
               \<and> (\<exists>A. \<forall>x. unat a \<le> x \<and> x < unat a + 4096 * unat N \<longrightarrow> memory (pages s) x = Some (EfiConventional, A)) then EFI_SUCCESS else EFI_NOT_FOUND)
    \<and> memory (pages t) = (if st = EFI_SUCCESS then retyped MemoryType (unat a) (unat a + 4096 * unat N) (memory (pages s)) else memory (pages s))"
proof -
  obtain st t where t: "CoreInternalAllocatePages n notify AllocateAddress MemoryType N (Some a) s = Some (st, Some a, t)" "page_ready t"
    "view t = view (put_pages (\<lambda>_. pages t) s)" "free_entries (pages s) \<le> free_entries (pages t) + 2"
    "st = (if 4096 dvd unat a \<and> N \<noteq> 0 \<and> unat a + 4096 * unat N < 2 ^ 64 \<and> \<not> meets_special_bin MemoryType a (a + push_bit 12 N - 1) (pages s)
              \<and> free_run (pages s) (unat a) (4096 * unat N) then EFI_SUCCESS else EFI_NOT_FOUND)"
    "memory (pages t) = (if st = EFI_SUCCESS then retyped MemoryType (unat a) (unat a + 4096 * unat N) (memory (pages s)) else memory (pages s))"
    by (rule allocate_address_service[OF assms, where notify = notify]) (rule that)
  have "st = EFI_SUCCESS \<or> st = EFI_NOT_FOUND" using t(5) by simp
  then have "CoreAllocatePages n notify Hook AllocateAddress MemoryType N (Some a) s
        = Some (st, Some a, if st = EFI_SUCCESS then Hook EfiConventional MemoryType a (push_bit 12 N) t else t)"
    using t(1) by (auto simp: CoreAllocatePages_def)
  then show ?thesis using t(2,3,5,6) unfolding free_run_def by blast
qed

theorem allocate_address_exact_witness:
  "(\<exists>t. CoreAllocatePages 34 (\<lambda>f e c s. Some s) (\<lambda>_ _ _ _ s. s) AllocateAddress EfiBootServicesData 2 (Some 0x120000) page_sample = Some (EFI_SUCCESS, Some 0x120000, t)
     \<and> memory (pages t) 0x121FFF = Some (EfiBootServicesData, 15) \<and> memory (pages t) 0x122000 = Some (EfiConventional, 15))
   \<and> (\<exists>t. CoreAllocatePages 34 (\<lambda>f e c s. Some s) (\<lambda>_ _ _ _ s. s) AllocateAddress EfiBootServicesData 2 (Some 0x120800) page_sample = Some (EFI_NOT_FOUND, Some 0x120800, t))"
proof -
  have p: "2 \<le> free_entries (pages page_sample)" "(33 :: nat) < 34" "request_ok EfiBootServicesData" by (simp_all add: page_sample_entries request_ok_def)
  note w = allocate_address_exact[OF page_sample_ready(1) p, where N = 2 and notify = "\<lambda>f e c s. Some s" and Hook = "\<lambda>_ _ _ _ s. s"]
  have "\<exists>A. \<forall>x. 0x120000 \<le> x \<and> x < 0x122000 \<longrightarrow> memory (pages page_sample) x = Some (EfiConventional, A)" using page_sample_free by auto
  then have "\<exists>t. CoreAllocatePages 34 (\<lambda>f e c s. Some s) (\<lambda>_ _ _ _ s. s) AllocateAddress EfiBootServicesData 2 (Some 0x120000) page_sample = Some (EFI_SUCCESS, Some 0x120000, t)
     \<and> memory (pages t) = retyped EfiBootServicesData 0x120000 0x122000 (memory (pages page_sample))"
    using w[of "0x120000"] page_sample_ready(4) by auto
  moreover have "\<exists>t. CoreAllocatePages 34 (\<lambda>f e c s. Some s) (\<lambda>_ _ _ _ s. s) AllocateAddress EfiBootServicesData 2 (Some 0x120800) page_sample = Some (EFI_NOT_FOUND, Some 0x120800, t)"
    using w[of "0x120800"] by auto
  ultimately show ?thesis using page_sample_free[of "0x121FFF"] page_sample_free[of "0x122000"] by (auto simp: retyped_def)
qed

text \<open>
  (C7) Freeing pages is exact, errors included: from a page boundary, with a size that does not wrap around, the pages become free one after the other, attributes
  kept, up to the first address that is free already or not in the map. The call succeeds exactly if it reaches the end of the range. When it does not, it returns
  EFI_NOT_FOUND, but what was freed before stays free. No other address changes.
\<close>

theorem free_pages_exact:
  assumes "page_ready s" "2 \<le> free_entries (pages s)" "33 < n" "unat N < n" "4096 dvd unat a" "N \<noteq> 0" "unat a + 4096 * unat N < 2 ^ 64"
  shows "\<exists>st t c. map_option (\<lambda>(st, ty, t). (st, t)) (CoreInternalFreePages n notify a N s) = Some (st, t) \<and> page_ready t \<and> view t = view (put_pages (\<lambda>_. pages t) s)
    \<and> unat a \<le> c \<and> c \<le> unat a + 4096 * unat N \<and> (\<forall>x. unat a \<le> x \<and> x < c \<longrightarrow> in_use (pages s) x)
    \<and> (if c = unat a + 4096 * unat N then st = EFI_SUCCESS else st = EFI_NOT_FOUND \<and> \<not> in_use (pages s) c)
    \<and> memory (pages t) = retyped EfiConventional (unat a) c (memory (pages s))"
proof -
  have N: "page_size N = 4096 * unat N" using assms(7) by (intro page_size_exact) simp
  have r: "page_size N < 4096 * n" "page_size N \<noteq> 0" "unat a + page_size N < 2 ^ 64" using assms(4,6,7) unfolding N by (simp_all add: unat_eq_0)
  obtain st ty t c where t: "CoreInternalFreePages n notify a N s = Some (st, ty, t)" "page_ready t" "view t = view (put_pages (\<lambda>_. pages t) s)"
    "unat a \<le> c" "c \<le> unat a + page_size N" "\<And>x. unat a \<le> x \<Longrightarrow> x < c \<Longrightarrow> in_use (pages s) x"
    "if c = unat a + page_size N then st = EFI_SUCCESS else st = EFI_NOT_FOUND \<and> \<not> in_use (pages s) c"
    "memory (pages t) = retyped EfiConventional (unat a) c (memory (pages s))"
    by (rule free_service[OF assms(1-3) r(1) assms(5) r(2,3), where notify = notify]) (rule that)
  show ?thesis
    by (intro exI[of _ st] exI[of _ t] exI[of _ c]) (use t N in simp)
qed

theorem free_pages_exact_witness:
  "\<exists>t. map_option (\<lambda>(st, ty, t). (st, t)) (CoreInternalFreePages 34 (\<lambda>f e c s. Some s) 0x10F000 2 page_sample) = Some (EFI_NOT_FOUND, t)
    \<and> memory (pages page_sample) 0x10F000 = Some (EfiBootServicesData, 15) \<and> memory (pages t) 0x10F000 = Some (EfiConventional, 15)"
proof -
  let ?m = "memory (pages page_sample)"
  have used: "?m x = Some (EfiBootServicesData, 15)" if "0x100000 \<le> x" "x \<le> 0x10FFFF" for x
    using that by (auto simp: page_sample_ready(3) sample_map_def mem_def)
  have p: "2 \<le> free_entries (pages page_sample)" "(33 :: nat) < 34" "unat (2 :: UINT64) < 34" "4096 dvd unat (0x10F000 :: UINT64)" "(2 :: UINT64) \<noteq> 0"
    "unat (0x10F000 :: UINT64) + 4096 * unat (2 :: UINT64) < 2 ^ 64" by (simp_all add: page_sample_entries)
  from free_pages_exact[OF page_sample_ready(1) p, where notify = "\<lambda>f e c s. Some s"]
  obtain st t c where t: "map_option (\<lambda>(st, ty, t). (st, t)) (CoreInternalFreePages 34 (\<lambda>f e c s. Some s) 0x10F000 2 page_sample) = Some (st, t)"
    "c \<le> 0x111000" "\<forall>x. 0x10F000 \<le> x \<and> x < c \<longrightarrow> in_use (pages page_sample) x"
    "if c = 0x111000 then st = EFI_SUCCESS else st = EFI_NOT_FOUND \<and> \<not> in_use (pages page_sample) c" "0x10F000 \<le> c"
    "memory (pages t) = retyped EfiConventional 0x10F000 c ?m" by auto
  have "\<not> in_use (pages page_sample) 0x110000" using page_sample_free[of "0x110000"] by (simp add: in_use_def free_at_def)
  then have "c \<le> 0x110000" using t(3)[THEN spec, of "0x110000"] by (intro leI) simp
  moreover have "in_use (pages page_sample) 0x10F000" using used[of "0x10F000"] by (simp add: in_use_def free_at_def)
  ultimately show ?thesis using t used[of "0x10F000"] by (auto simp: retyped_def split: if_splits)
qed

text \<open>What any successful allocation leaves.\<close>

lemma allocated:
  assumes s: "page_ready s" "2 \<le> free_entries (pages s)" "all_promoted s" and n: "33 < n" and req: "request_ok ty"
    "T = AllocateAnyPages \<or> T = AllocateMaxAddress \<or> T = AllocateAddress" and run: "CoreInternalAllocatePages n notify T ty N (Some a0) s = Some (EFI_SUCCESS, Some a, t)"
    and N: "page_size N \<noteq> 0" "4096 * unat N < 2 ^ 64"
  shows "page_ready t" "view t = view (put_pages (\<lambda>_. pages t) s)" "free_entries (pages s) \<le> free_entries (pages t) + 2"
    "4096 dvd unat a" "unat a + page_size N < 2 ^ 64" "free_run (pages s) (unat a) (page_size N)"
    "memory (pages t) = retyped ty (unat a) (unat a + page_size N) (memory (pages s))"
proof -
  have ok: "pages_ok (pages s)" using s(1) by (simp add: page_ready_def)
  have "page_ready t \<and> view t = view (put_pages (\<lambda>_. pages t) s) \<and> free_entries (pages s) \<le> free_entries (pages t) + 2
    \<and> 4096 dvd unat a \<and> unat a + page_size N < 2 ^ 64 \<and> free_run (pages s) (unat a) (page_size N)
    \<and> memory (pages t) = retyped ty (unat a) (unat a + page_size N) (memory (pages s))"
  proof (cases "T = AllocateAddress")
    case True
    show ?thesis
      by (rule allocate_address_service[OF s(1,2) n req(1), where notify = notify and N = N and a = a0])
        (use run True page_size_exact[OF N(2)] in \<open>simp split: if_splits\<close>)
  next
    case False
    then have T: "T = AllocateAnyPages \<or> T = AllocateMaxAddress" using req(2) by blast
    show ?thesis
    proof (rule allocate_runs_service[OF s n req(1) T N(1), where notify = notify and ?a0.0 = a0], goal_cases)
      case (1 st b v)
      then have b: "v = t" "b = a" "st = EFI_SUCCESS" using run by simp_all
      then have r: "free_range s (if T = AllocateMaxAddress then a0 else MAX_ALLOC_ADDRESS) N (unat a)" using 1(5) by simp
      show ?case using room_words[OF ok r N(1)] 1 b by simp
    qed
  qed
  then show "page_ready t" "view t = view (put_pages (\<lambda>_. pages t) s)" "free_entries (pages s) \<le> free_entries (pages t) + 2"
    "4096 dvd unat a" "unat a + page_size N < 2 ^ 64" "free_run (pages s) (unat a) (page_size N)"
    "memory (pages t) = retyped ty (unat a) (unat a + page_size N) (memory (pages s))" by blast+
qed



text \<open>
  (C28) The number of pages is not checked unless an address is given: a request for \<open>2 ^ 52 + k\<close> pages, more than the address space has, succeeds as soon as
  there are \<open>k\<close> free pages, and only these \<open>k\<close> pages get the type that was asked for.
\<close>

theorem allocate_pages_wraps:
  assumes "page_ready s" "2 \<le> free_entries (pages s)" "all_promoted s" "33 < n" "request_ok MemoryType" "k \<noteq> 0" "4096 * unat k < 2 ^ 64"
    and "room (gMemoryMap (memory_lists (pages s))) 0 (2 ^ 64 - 1) (4096 * unat k) b"
  shows "\<exists>a t. CoreInternalAllocatePages n notify AllocateAnyPages MemoryType (0x10000000000000 + k) (Some a0) s = Some (EFI_SUCCESS, Some a, t) \<and> page_ready t
    \<and> memory (pages t) = retyped MemoryType (unat a) (unat a + 4096 * unat k) (memory (pages s))"
proof -
  have "push_bit 12 (0x10000000000000 :: UINT64) = 0" by (rule word_unat_eq_iff[THEN iffD2]) (simp add: push_bit_eq_mult unat_word_ariths)
  then have "push_bit 12 (0x10000000000000 + k) = push_bit 12 k" by (simp add: push_bit_add)
  then have N: "page_size (0x10000000000000 + k) = 4096 * unat k" using page_size_exact[OF assms(7)] by simp
  have N0: "page_size (0x10000000000000 + k) \<noteq> 0" unfolding N using assms(6) by (simp add: unat_eq_0)
  show ?thesis
  proof (rule allocate_runs_service[OF assms(1-5) _ N0, where T = AllocateAnyPages and notify = notify and ?a0.0 = a0], simp, goal_cases)
    case (1 st a t)
    have "room (gMemoryMap (memory_lists (pages s))) 0 (unat MAX_ALLOC_ADDRESS) (4096 * unat k) b" using assms(8) by simp
    then show ?case using 1(1,2,5) unfolding N by auto
  qed
qed

theorem allocate_pages_wraps_witness:
  "\<exists>a t. CoreInternalAllocatePages 34 (\<lambda>f e c s. Some s) AllocateAnyPages EfiBootServicesData 0x10000000000002 (Some 0) page_sample = Some (EFI_SUCCESS, Some a, t)
    \<and> memory (pages t) = retyped EfiBootServicesData (unat a) (unat a + 0x2000) (memory (pages page_sample))"
proof -
  have p: "2 \<le> free_entries (pages page_sample)" "(33 :: nat) < 34" "request_ok EfiBootServicesData" "(2 :: UINT64) \<noteq> 0" "4096 * unat (2 :: UINT64) < 2 ^ 64"
    by (simp_all add: page_sample_entries request_ok_def)
  have "room (gMemoryMap (memory_lists (pages page_sample))) 0 (2 ^ 64 - 1) (4096 * unat (2 :: UINT64)) 0x1FE000"
    using page_sample_room by (auto simp: room_def)
  from allocate_pages_wraps[OF page_sample_ready(1) p(1) page_sample_ready(2) p(2-5) this, where notify = "\<lambda>f e c s. Some s" and ?a0.0 = 0]
  show ?thesis by auto
qed

end
