(* ===== verification/Dxe_MemoryMap.thy ===== *)
theory Dxe_MemoryMap
  imports Dxe_PageOps
begin

text \<open>
  The memory map that the operating system gets (CoreGetMemoryMap and CoreTerminateMemoryMap in MdeModulePkg/Core/Dxe/Mem/Page.c, MergeMemoryMap in
  Misc/MemoryAttributesTable.c), and what it says of every address. The buffer is the list of the descriptors written to it. The field VirtualStart is 0 in every
  descriptor and left out; guard pages are off in the default build, so that MergeGuardPages does nothing.
\<close>

unbundle bit_operations_syntax

section \<open>Descriptors\<close>

record EFI_MEMORY_DESCRIPTOR =
  DescType :: UINT32
  PhysicalStart :: UINT64
  DescPages :: UINT64
  DescAttribute :: UINT64

definition EFI_PAGES_TO_SIZE :: "UINT64 \<Rightarrow> UINT64" where
  "EFI_PAGES_TO_SIZE Pages = push_bit 12 Pages"

text \<open>The new last descriptor \<open>d\<close> behind the list, or merged into the first descriptor that it continues.\<close>

fun MergeMemoryMapDescriptor :: "EFI_MEMORY_DESCRIPTOR \<Rightarrow> EFI_MEMORY_DESCRIPTOR list \<Rightarrow> EFI_MEMORY_DESCRIPTOR list" where
  "MergeMemoryMapDescriptor d [] = [d]"
| "MergeMemoryMapDescriptor d (e # l) =
     (if DescType e \<noteq> DescType d \<or> DescAttribute e \<noteq> DescAttribute d then e # MergeMemoryMapDescriptor d l
      else if PhysicalStart e + EFI_PAGES_TO_SIZE (DescPages e) = PhysicalStart d then e\<lparr>DescPages := DescPages e + DescPages d\<rparr> # l
      else if PhysicalStart e - EFI_PAGES_TO_SIZE (DescPages d) = PhysicalStart d
      then e\<lparr>PhysicalStart := PhysicalStart d, DescPages := DescPages e + DescPages d\<rparr> # l
      else e # MergeMemoryMapDescriptor d l)"

text \<open>Free memory inside the bin of a type with special pages is reported as that type; the last such type wins.\<close>

definition bin_type :: "'v PAGE_STATE \<Rightarrow> MEMORY_MAP \<Rightarrow> UINT32" where
  "bin_type p Entry =
     fold (\<lambda>ty t. let b = mMemoryTypeStatistics p ty
        in if Special b \<and> BinPages b > 0 \<and> MemStart Entry \<ge> BinBase b \<and> MemEnd Entry \<le> BinMaximum b then of_nat ty else t) [0..<15] (MemType Entry)"

definition shown_type :: "'v PAGE_STATE \<Rightarrow> MEMORY_MAP \<Rightarrow> UINT32" where
  "shown_type p Entry = (if MemType Entry = EfiConventional then bin_type p Entry else MemType Entry)"

definition shown_attribute :: "'v PAGE_STATE \<Rightarrow> MEMORY_MAP \<Rightarrow> UINT64" where
  "shown_attribute p Entry =
     (if shown_type p Entry < EfiMaxMemoryType \<and> Runtime (mMemoryTypeStatistics p (unat (shown_type p Entry)))
      then MemAttribute Entry OR EFI_MEMORY_RUNTIME else MemAttribute Entry)"

definition describe :: "'v PAGE_STATE \<Rightarrow> MEMORY_MAP \<Rightarrow> EFI_MEMORY_DESCRIPTOR option" where
  "describe p Entry =
     do {
       Pages \<leftarrow> RShiftU64 (MemEnd Entry - MemStart Entry + 1) EFI_PAGE_SHIFT;
       Some \<lparr>DescType = shown_type p Entry, PhysicalStart = MemStart Entry, DescPages = Pages, DescAttribute = shown_attribute p Entry\<rparr>
     }"

fun GetMap_loop :: "'v PAGE_STATE \<Rightarrow> MEMORY_MAP list \<Rightarrow> EFI_MEMORY_DESCRIPTOR list \<Rightarrow> EFI_MEMORY_DESCRIPTOR list option" where
  "GetMap_loop p [] l = Some l"
| "GetMap_loop p (Entry # m) l = do { d \<leftarrow> describe p Entry; GetMap_loop p m (MergeMemoryMapDescriptor d l) }"

section \<open>The part from the GCD map\<close>

abbreviation CAPABILITIES_SHOWN :: UINT64 where
  "CAPABILITIES_SHOWN \<equiv> EFI_MEMORY_RP OR EFI_MEMORY_WP OR EFI_MEMORY_XP OR EFI_MEMORY_RO OR EFI_MEMORY_UC OR EFI_MEMORY_UCE OR EFI_MEMORY_WC OR EFI_MEMORY_WT OR EFI_MEMORY_WB"

definition fixed_range :: "EFI_GCD_MAP_ENTRY \<Rightarrow> bool" where
  "fixed_range e \<longleftrightarrow> GcdMemoryType e = EfiGcdMemoryTypeReserved
     \<or> GcdMemoryType e = EfiGcdMemoryTypeMemoryMappedIo \<and> GcdAttributes e AND EFI_MEMORY_RUNTIME = EFI_MEMORY_RUNTIME"

definition gcd_shown :: "EFI_GCD_MAP_ENTRY \<Rightarrow> bool" where
  "gcd_shown e \<longleftrightarrow> GcdMemoryType e = EfiGcdMemoryTypePersistent \<or> fixed_range e"

definition gcd_type :: "EFI_GCD_MAP_ENTRY \<Rightarrow> UINT32" where
  "gcd_type e =
     (if GcdMemoryType e = EfiGcdMemoryTypeReserved then EfiReservedMemoryType
      else if GcdAttributes e AND EFI_MEMORY_PORT_IO = EFI_MEMORY_PORT_IO then EfiMemoryMappedIOPortSpace else EfiMemoryMappedIO)"

definition add_gcd :: "UINT32 \<Rightarrow> UINT64 \<Rightarrow> EFI_GCD_MAP_ENTRY \<Rightarrow> EFI_MEMORY_DESCRIPTOR list \<Rightarrow> EFI_MEMORY_DESCRIPTOR list option" where
  "add_gcd ty Attribute e l =
     do {
       ASSERT (BaseAddress e AND EFI_PAGE_MASK = 0);
       ASSERT ((EndAddress e - BaseAddress e + 1) AND EFI_PAGE_MASK = 0);
       Pages \<leftarrow> RShiftU64 (EndAddress e - BaseAddress e + 1) EFI_PAGE_SHIFT;
       Some (MergeMemoryMapDescriptor \<lparr>DescType = ty, PhysicalStart = BaseAddress e, DescPages = Pages, DescAttribute = Attribute\<rparr> l)
     }"

definition add_gcd_range :: "EFI_GCD_MAP_ENTRY \<Rightarrow> EFI_MEMORY_DESCRIPTOR list \<Rightarrow> EFI_MEMORY_DESCRIPTOR list option" where
  "add_gcd_range e l =
     do {
       l \<leftarrow> (if fixed_range e
             then add_gcd (gcd_type e) (GcdAttributes e AND NOT EFI_MEMORY_PORT_IO OR Capabilities e AND CAPABILITIES_SHOWN) e l else Some l);
       if GcdMemoryType e = EfiGcdMemoryTypePersistent
       then add_gcd EfiPersistentMemory (GcdAttributes e OR EFI_MEMORY_NV OR Capabilities e AND CAPABILITIES_SHOWN) e l else Some l
     }"

text \<open>\<open>e\<close> is MergeGcdMapEntry, the entry that is being merged with those that follow.\<close>

fun MergeGcd_loop :: "EFI_GCD_MAP_ENTRY \<Rightarrow> EFI_GCD_MAP_ENTRY list \<Rightarrow> EFI_MEMORY_DESCRIPTOR list \<Rightarrow> EFI_MEMORY_DESCRIPTOR list option" where
  "MergeGcd_loop e [] l = add_gcd_range e l"
| "MergeGcd_loop e (f # g) l =
     (if Capabilities e = Capabilities f \<and> GcdAttributes e = GcdAttributes f \<and> GcdMemoryType e = GcdMemoryType f \<and> GcdIoType e = GcdIoType f
      then MergeGcd_loop (e\<lparr>EndAddress := EndAddress f\<rparr>) g l
      else do { l \<leftarrow> add_gcd_range e l; MergeGcd_loop f g l })"

definition zero_gcd_entry :: EFI_GCD_MAP_ENTRY where
  "zero_gcd_entry = \<lparr>BaseAddress = 0, EndAddress = 0, Capabilities = 0, GcdAttributes = 0, GcdMemoryType = 0, GcdIoType = 0, GcdImageHandle = 0, GcdDeviceHandle = 0\<rparr>"

section \<open>The services\<close>

fun MergeMemoryMap :: "EFI_MEMORY_DESCRIPTOR list \<Rightarrow> EFI_MEMORY_DESCRIPTOR list" where
  "MergeMemoryMap [] = []"
| "MergeMemoryMap [d] = [d]"
| "MergeMemoryMap (d # e # l) =
     (if DescType d = DescType e \<and> DescAttribute d = DescAttribute e \<and> PhysicalStart d + EFI_PAGES_TO_SIZE (DescPages d) = PhysicalStart e
      then MergeMemoryMap (d\<lparr>DescPages := DescPages d + DescPages e\<rparr> # l)
      else d # MergeMemoryMap (e # l))"

text \<open>The size of a descriptor in the map: 40 bytes, rounded up past the next multiple of 8.\<close>

abbreviation DESCRIPTOR_SIZE :: UINTN where "DESCRIPTOR_SIZE \<equiv> 48"

definition clear_protection :: "EFI_MEMORY_DESCRIPTOR \<Rightarrow> EFI_MEMORY_DESCRIPTOR" where
  "clear_protection d = d\<lparr>DescAttribute := DescAttribute d AND NOT (EFI_MEMORY_RP OR EFI_MEMORY_RO OR EFI_MEMORY_XP)\<rparr>"

text \<open>
  The results are the status, the size that is reported, the descriptors written and the map key. \<open>MemoryMapSize\<close> is the size of the buffer, \<open>None\<close> for a
  null pointer, and \<open>Buffer\<close> says whether there is one.
\<close>

definition CoreGetMemoryMap ::
  "nat \<Rightarrow> 'v PAGE_STATE GCD_STATE notify \<Rightarrow> UINTN option \<Rightarrow> bool \<Rightarrow> 'v PAGES \<Rightarrow> (EFI_STATUS \<times> UINTN option \<times> EFI_MEMORY_DESCRIPTOR list \<times> UINTN option \<times> 'v PAGES) option" where
  "CoreGetMemoryMap n notify MemoryMapSize Buffer s =
     (case MemoryMapSize of None \<Rightarrow> Some (EFI_INVALID_PARAMETER, None, [], None, s)
      | Some Given \<Rightarrow> do {
          s \<leftarrow> CoreAcquireGcdMemoryLock s;
          let NumberOfEntries = length (filter gcd_shown (mGcdMemorySpaceMap (world s)));
          s \<leftarrow> CoreAcquireMemoryLock s;
          let BufferSize = DESCRIPTOR_SIZE * of_nat NumberOfEntries + DESCRIPTOR_SIZE * of_nat (length (gMemoryMap (memory_lists (pages s))));
          (Status, BufferSize, Map) \<leftarrow>
            (if Given < BufferSize then Some (EFI_BUFFER_TOO_SMALL, BufferSize, [])
             else if \<not> Buffer then Some (EFI_INVALID_PARAMETER, BufferSize, [])
             else do {
               l \<leftarrow> GetMap_loop (pages s) (gMemoryMap (memory_lists (pages s))) [];
               l \<leftarrow> MergeGcd_loop zero_gcd_entry (mGcdMemorySpaceMap (world s)) l;
               let l = MergeMemoryMap (map clear_protection l);
               Some (EFI_SUCCESS, DESCRIPTOR_SIZE * of_nat (length l), l)
             });
          let MapKey = mMemoryMapKey (pages s);
          s \<leftarrow> CoreReleaseMemoryLock n notify s;
          s \<leftarrow> CoreReleaseGcdMemoryLock n notify s;
          Some (Status, Some BufferSize, Map, Some MapKey, s)
        })"

text \<open>The first entry of a runtime type that is not aligned ends the check.\<close>

fun Terminate_loop :: "'v PAGE_STATE \<Rightarrow> MEMORY_MAP list \<Rightarrow> EFI_STATUS option" where
  "Terminate_loop p [] = Some EFI_SUCCESS"
| "Terminate_loop p (Entry # m) =
     (if MemType Entry < EfiMaxMemoryType \<and> Runtime (mMemoryTypeStatistics p (unat (MemType Entry)))
      then do {
        ASSERT (MemType Entry \<noteq> EfiACPIReclaimMemory);
        ASSERT (MemType Entry \<noteq> EfiACPIMemoryNVS);
        if MemStart Entry AND (RUNTIME_PAGE_ALLOCATION_GRANULARITY - 1) \<noteq> 0 then Some EFI_INVALID_PARAMETER
        else if (MemEnd Entry + 1) AND (RUNTIME_PAGE_ALLOCATION_GRANULARITY - 1) \<noteq> 0 then Some EFI_INVALID_PARAMETER
        else Terminate_loop p m
      }
      else Terminate_loop p m)"

definition CoreTerminateMemoryMap :: "nat \<Rightarrow> 'v PAGE_STATE GCD_STATE notify \<Rightarrow> UINTN \<Rightarrow> 'v PAGES \<Rightarrow> (EFI_STATUS \<times> 'v PAGES) option" where
  "CoreTerminateMemoryMap n notify MapKey s =
     do {
       s \<leftarrow> CoreAcquireMemoryLock s;
       Status \<leftarrow> (if MapKey = mMemoryMapKey (pages s) then Terminate_loop (pages s) (gMemoryMap (memory_lists (pages s))) else Some EFI_INVALID_PARAMETER);
       s \<leftarrow> CoreReleaseMemoryLock n notify s;
       Some (Status, s)
     }"

section \<open>What a list of descriptors says\<close>

definition dcovers :: "EFI_MEMORY_DESCRIPTOR \<Rightarrow> nat \<Rightarrow> bool" where
  "dcovers d x \<longleftrightarrow> unat (PhysicalStart d) \<le> x \<and> x < unat (PhysicalStart d) + 4096 * unat (DescPages d)"

abbreviation dkind :: "EFI_MEMORY_DESCRIPTOR \<Rightarrow> UINT32 \<times> UINT64" where
  "dkind d \<equiv> (DescType d, DescAttribute d)"

definition says :: "EFI_MEMORY_DESCRIPTOR list \<Rightarrow> nat \<Rightarrow> UINT32 \<times> UINT64 \<Rightarrow> bool" where
  "says l x k \<longleftrightarrow> (\<exists>d\<in>set l. dcovers d x \<and> dkind d = k)"

definition descriptor_ok :: "EFI_MEMORY_DESCRIPTOR \<Rightarrow> bool" where
  "descriptor_ok d \<longleftrightarrow> 0 < unat (DescPages d) \<and> unat (PhysicalStart d) + 4096 * unat (DescPages d) < 2 ^ 64"

fun sound :: "EFI_MEMORY_DESCRIPTOR list \<Rightarrow> bool" where
  "sound [] \<longleftrightarrow> True"
| "sound (d # l) \<longleftrightarrow> descriptor_ok d \<and> (\<forall>x k. dcovers d x \<longrightarrow> \<not> says l x k) \<and> sound l"

lemma says_simps [simp]: "\<not> says [] x k" "says (d # l) x k \<longleftrightarrow> dcovers d x \<and> dkind d = k \<or> says l x k"
  by (auto simp: says_def)

lemma says_append [simp]: "says (l @ m) x k \<longleftrightarrow> says l x k \<or> says m x k"
  by (auto simp: says_def)

lemma joined:
  assumes d: "descriptor_ok d" and e: "descriptor_ok e" and adj: "PhysicalStart e + EFI_PAGES_TO_SIZE (DescPages e) = PhysicalStart d"
    and f: "PhysicalStart f = PhysicalStart e" "DescPages f = DescPages e + DescPages d"
  shows "descriptor_ok f" "dcovers f x \<longleftrightarrow> dcovers e x \<or> dcovers d x"
proof -
  have de: "unat (PhysicalStart e) + 4096 * unat (DescPages e) < 2 ^ 64" "unat (PhysicalStart d) + 4096 * unat (DescPages d) < 2 ^ 64" "0 < unat (DescPages e)"
    using d e by (simp_all add: descriptor_ok_def)
  have "unat (EFI_PAGES_TO_SIZE (DescPages e)) = 4096 * unat (DescPages e)" unfolding EFI_PAGES_TO_SIZE_def using de(1) by (intro page_size_exact) simp
  then have a: "unat (PhysicalStart d) = unat (PhysicalStart e) + 4096 * unat (DescPages e)" unfolding adj[symmetric] using de(1) by (simp add: unat_word_ariths)
  have p: "unat (DescPages f) = unat (DescPages e) + unat (DescPages d)" unfolding f using de(2) a by (simp add: unat_word_ariths)
  show "descriptor_ok f" unfolding descriptor_ok_def f(1) p using de a by simp
  show "dcovers f x \<longleftrightarrow> dcovers e x \<or> dcovers d x" unfolding dcovers_def f(1) p a by auto
qed

lemma merge_descriptor:
  assumes "descriptor_ok d" "sound l" "\<And>x k. dcovers d x \<Longrightarrow> \<not> says l x k"
  shows "sound (MergeMemoryMapDescriptor d l) \<and> (\<forall>x k. says (MergeMemoryMapDescriptor d l) x k \<longleftrightarrow> says l x k \<or> dcovers d x \<and> dkind d = k)
    \<and> length (MergeMemoryMapDescriptor d l) \<le> length l + 1"
  using assms(2,3)
proof (induction l)
  case Nil
  then show ?case using assms(1) by simp
next
  case (Cons e l)
  have e: "descriptor_ok e" "\<And>x k. dcovers e x \<Longrightarrow> \<not> says l x k" "sound l" using Cons.prems(1) by auto
  have d: "\<not> says l x k" "\<not> dcovers e x" if "dcovers d x" for x k using Cons.prems(2)[OF that] by auto
  have IH: "sound (MergeMemoryMapDescriptor d l)" "\<And>x k. says (MergeMemoryMapDescriptor d l) x k \<longleftrightarrow> says l x k \<or> dcovers d x \<and> dkind d = k"
    "length (MergeMemoryMapDescriptor d l) \<le> length l + 1" using Cons.IH[OF e(3)] d(1) by blast+
  {
    fix f assume f: "descriptor_ok f" "\<And>x. dcovers f x \<longleftrightarrow> dcovers e x \<or> dcovers d x" "dkind f = dkind d" "dkind e = dkind d"
    have "sound (f # l)" using f(1,2) e d by auto
    moreover have "says (f # l) x k \<longleftrightarrow> says (e # l) x k \<or> dcovers d x \<and> dkind d = k" for x k using f by auto
    ultimately have "sound (f # l) \<and> (\<forall>x k. says (f # l) x k \<longleftrightarrow> says (e # l) x k \<or> dcovers d x \<and> dkind d = k)" by blast
  } note fuse = this
  show ?case
  proof (cases "DescType e \<noteq> DescType d \<or> DescAttribute e \<noteq> DescAttribute d")
    case True
    then show ?thesis using IH e d by auto
  next
    case same: False
    show ?thesis
    proof (cases "PhysicalStart e + EFI_PAGES_TO_SIZE (DescPages e) = PhysicalStart d")
      case True
      let ?f = "e\<lparr>DescPages := DescPages e + DescPages d\<rparr>"
      have "descriptor_ok ?f" "\<And>x. dcovers ?f x \<longleftrightarrow> dcovers e x \<or> dcovers d x" by (rule joined[OF assms(1) e(1) True]; simp)+
      then have "sound (?f # l) \<and> (\<forall>x k. says (?f # l) x k \<longleftrightarrow> says (e # l) x k \<or> dcovers d x \<and> dkind d = k)"
        by (intro fuse) (use same in auto)
      then show ?thesis using same True by simp
    next
      case nup: False
      show ?thesis
      proof (cases "PhysicalStart e - EFI_PAGES_TO_SIZE (DescPages d) = PhysicalStart d")
        case True
        let ?f = "e\<lparr>PhysicalStart := PhysicalStart d, DescPages := DescPages e + DescPages d\<rparr>"
        have adj: "PhysicalStart d + EFI_PAGES_TO_SIZE (DescPages d) = PhysicalStart e" using True by (simp add: diff_eq_eq)
        have "descriptor_ok ?f" "\<And>x. dcovers ?f x \<longleftrightarrow> dcovers d x \<or> dcovers e x" by (rule joined[OF e(1) assms(1) adj]; simp add: add.commute)+
        then have "sound (?f # l) \<and> (\<forall>x k. says (?f # l) x k \<longleftrightarrow> says (e # l) x k \<or> dcovers d x \<and> dkind d = k)"
          by (intro fuse) (use same in auto)
        then show ?thesis using same nup True by simp
      next
        case False
        then show ?thesis using IH e d same nup by auto
      qed
    qed
  qed
qed

lemma merge_map:
  assumes "sound l"
  shows "sound (MergeMemoryMap l) \<and> (\<forall>x k. says (MergeMemoryMap l) x k \<longleftrightarrow> says l x k) \<and> length (MergeMemoryMap l) \<le> length l"
  using assms
proof (induction l rule: MergeMemoryMap.induct)
  case (3 d e l)
  show ?case
  proof (cases "DescType d = DescType e \<and> DescAttribute d = DescAttribute e \<and> PhysicalStart d + EFI_PAGES_TO_SIZE (DescPages d) = PhysicalStart e")
    case True
    let ?f = "d\<lparr>DescPages := DescPages d + DescPages e\<rparr>"
    have ok: "descriptor_ok d" "descriptor_ok e" using 3(3) by simp_all
    have f: "descriptor_ok ?f" "dcovers ?f x \<longleftrightarrow> dcovers d x \<or> dcovers e x" for x
      by (rule joined[OF ok(2,1)]; use True in simp)+
    then have "sound (?f # l)" using 3(3) by auto
    then have IH: "sound (MergeMemoryMap (?f # l))" "\<And>x k. says (MergeMemoryMap (?f # l)) x k \<longleftrightarrow> says (?f # l) x k" "length (MergeMemoryMap (?f # l)) \<le> length (?f # l)"
      using 3(1)[OF True] by blast+
    have "says (?f # l) x k \<longleftrightarrow> says (d # e # l) x k" for x k using f(2)[of x] True by auto
    then show ?thesis using IH True by simp
  next
    case False
    have "sound (MergeMemoryMap (e # l)) \<and> (\<forall>x k. says (MergeMemoryMap (e # l)) x k \<longleftrightarrow> says (e # l) x k) \<and> length (MergeMemoryMap (e # l)) \<le> length (e # l)"
      by (rule 3(2)[OF False]) (use 3(3) in simp)
    then show ?thesis using False 3(3) by auto
  qed
qed simp_all

lemma clear_protection_says:
  assumes "sound l"
  shows "sound (map clear_protection l)"
    "says (map clear_protection l) x (ty, A) \<longleftrightarrow> (\<exists>B. says l x (ty, B) \<and> A = B AND NOT (EFI_MEMORY_RP OR EFI_MEMORY_RO OR EFI_MEMORY_XP))"
proof -
  have c: "dcovers (clear_protection d) x \<longleftrightarrow> dcovers d x" "descriptor_ok (clear_protection d) \<longleftrightarrow> descriptor_ok d" for d x
    by (simp_all add: clear_protection_def dcovers_def descriptor_ok_def)
  have s: "says (map clear_protection l) x (ty, A) \<longleftrightarrow> (\<exists>B. says l x (ty, B) \<and> A = B AND NOT (EFI_MEMORY_RP OR EFI_MEMORY_RO OR EFI_MEMORY_XP))" for l x ty A
    by (auto simp: says_def c) (auto simp: clear_protection_def)
  then show "says (map clear_protection l) x (ty, A) \<longleftrightarrow> (\<exists>B. says l x (ty, B) \<and> A = B AND NOT (EFI_MEMORY_RP OR EFI_MEMORY_RO OR EFI_MEMORY_XP))" .
  show "sound (map clear_protection l)" using assms
  proof (induction l)
    case (Cons d l)
    then show ?case using s c by auto
  qed simp
qed

section \<open>Building the map\<close>

lemma range_bytes:
  fixes a b :: UINT64
  assumes "whole_pages (unat a) (unat b)"
  shows "unat (b - a + 1) = unat b + 1 - unat a" "4096 dvd unat (b - a + 1)"
proof -
  have w: "4096 dvd unat a" "4096 dvd unat b + 1" "unat a \<le> unat b" "unat b + 1 < 2 ^ 64" using assms by (simp_all add: whole_pages_def)
  have "unat (b - a) = unat b - unat a" using w(3) by (simp add: unat_sub word_le_nat_alt)
  then show n: "unat (b - a + 1) = unat b + 1 - unat a" using w(3,4) unat_plus_1[of "b - a"] by (simp add: Suc_diff_le)
  show "4096 dvd unat (b - a + 1)" unfolding n using w(2,1) by (rule dvd_diff_nat)
qed

lemma page_number:
  fixes a b :: UINT64
  assumes "whole_pages (unat a) (unat b)"
  obtains P where "RShiftU64 (b - a + 1) EFI_PAGE_SHIFT = Some P" "unat a + 4096 * unat P = unat b + 1"
proof -
  have "unat (drop_bit 12 (b - a + 1)) = unat (b - a + 1) div 4096" unfolding unat_drop_bit_eq by (simp add: drop_bit_eq_div)
  then have "4096 * unat (drop_bit 12 (b - a + 1)) = unat b + 1 - unat a" using range_bytes[OF assms] by (metis dvd_mult_div_cancel)
  moreover have "unat a \<le> unat b" using assms by (simp add: whole_pages_def)
  ultimately show thesis using that[of "drop_bit 12 (b - a + 1)"] by (simp add: RShiftU64_def InternalMathRShiftU64_def)
qed

lemma page_descriptor:
  assumes "whole_pages (unat a) (unat b)" "unat a + 4096 * unat P = unat b + 1"
  shows "descriptor_ok \<lparr>DescType = ty, PhysicalStart = a, DescPages = P, DescAttribute = A\<rparr>"
    "dcovers \<lparr>DescType = ty, PhysicalStart = a, DescPages = P, DescAttribute = A\<rparr> x \<longleftrightarrow> unat a \<le> x \<and> x \<le> unat b"
  using assms by (auto simp: descriptor_ok_def dcovers_def whole_pages_def)

lemma apart_tail:
  assumes "apart (e # m)"
  shows "apart m" "whole_pages (unat (MemStart e)) (unat (MemEnd e))" "f \<in> set m \<Longrightarrow> covers e x \<Longrightarrow> \<not> covers f x"
proof -
  show "apart m" "whole_pages (unat (MemStart e)) (unat (MemEnd e))" using assms by (simp_all add: apart_def)
  assume f: "f \<in> set m" "covers e x"
  then have "e \<noteq> f" using assms by (auto simp: apart_def)
  then show "\<not> covers f x" using apart_unique[OF assms, of e f x] f by auto
qed

lemma get_map_loop:
  assumes "apart m" "sound l" "\<And>e x k. e \<in> set m \<Longrightarrow> covers e x \<Longrightarrow> \<not> says l x k"
  shows "\<exists>l'. GetMap_loop p m l = Some l' \<and> sound l' \<and> length l' \<le> length l + length m
    \<and> (\<forall>x k. says l' x k \<longleftrightarrow> says l x k \<or> (\<exists>e\<in>set m. covers e x \<and> k = (shown_type p e, shown_attribute p e)))"
  using assms
proof (induction m arbitrary: l)
  case (Cons e m)
  note t = apart_tail[OF Cons.prems(1)]
  obtain P where P: "RShiftU64 (MemEnd e - MemStart e + 1) EFI_PAGE_SHIFT = Some P" "unat (MemStart e) + 4096 * unat P = unat (MemEnd e) + 1"
    using page_number[OF t(2)] .
  define d where "d = \<lparr>DescType = shown_type p e, PhysicalStart = MemStart e, DescPages = P, DescAttribute = shown_attribute p e\<rparr>"
  have d: "describe p e = Some d" "descriptor_ok d" "\<And>x. dcovers d x \<longleftrightarrow> covers e x" "dkind d = (shown_type p e, shown_attribute p e)"
    using P page_descriptor[OF t(2) P(2)] by (simp_all add: describe_def d_def)
  have M: "sound (MergeMemoryMapDescriptor d l)" "\<And>x k. says (MergeMemoryMapDescriptor d l) x k \<longleftrightarrow> says l x k \<or> dcovers d x \<and> dkind d = k"
    "length (MergeMemoryMapDescriptor d l) \<le> length l + 1"
    using merge_descriptor[OF d(2) Cons.prems(2)] Cons.prems(3)[of e] d(3) by auto
  have cl: "\<not> says (MergeMemoryMapDescriptor d l) x k" if "f \<in> set m" "covers f x" for f x k
    unfolding M(2) d(3) using Cons.prems(3)[of f x k] that t(3)[of f x] by auto
  obtain l' where l': "GetMap_loop p m (MergeMemoryMapDescriptor d l) = Some l'" "sound l'"
    "length l' \<le> length (MergeMemoryMapDescriptor d l) + length m"
    "\<And>x k. says l' x k \<longleftrightarrow> says (MergeMemoryMapDescriptor d l) x k \<or> (\<exists>e\<in>set m. covers e x \<and> k = (shown_type p e, shown_attribute p e))"
    using Cons.IH[OF t(1) M(1)] cl by blast
  have "says l' x k \<longleftrightarrow> says l x k \<or> (\<exists>f\<in>set (e # m). covers f x \<and> k = (shown_type p f, shown_attribute p f))" for x k
    unfolding l'(4) M(2) d(3,4) by auto
  then show ?case using l' M(3) d(1) by auto
qed simp

definition gcd_kind :: "EFI_GCD_MAP_ENTRY \<Rightarrow> (UINT32 \<times> UINT64) option" where
  "gcd_kind e =
     (if fixed_range e then Some (gcd_type e, GcdAttributes e AND NOT EFI_MEMORY_PORT_IO OR Capabilities e AND CAPABILITIES_SHOWN)
      else if GcdMemoryType e = EfiGcdMemoryTypePersistent then Some (EfiPersistentMemory, GcdAttributes e OR EFI_MEMORY_NV OR Capabilities e AND CAPABILITIES_SHOWN)
      else None)"

abbreviation holds :: "EFI_GCD_MAP_ENTRY \<Rightarrow> nat \<Rightarrow> bool" where
  "holds e x \<equiv> unat (BaseAddress e) \<le> x \<and> x \<le> unat (EndAddress e)"

definition gcd_says :: "EFI_GCD_MAP_ENTRY list \<Rightarrow> nat \<Rightarrow> UINT32 \<times> UINT64 \<Rightarrow> bool" where
  "gcd_says g x k \<longleftrightarrow> (\<exists>e\<in>set g. holds e x \<and> gcd_kind e = Some k)"

definition pages_shown :: "EFI_GCD_MAP_ENTRY list \<Rightarrow> bool" where
  "pages_shown g \<longleftrightarrow> (\<forall>e\<in>set g. gcd_kind e \<noteq> None \<longrightarrow> whole_pages (unat (BaseAddress e)) (unat (EndAddress e)))"

lemma gcd_says_simps [simp]: "\<not> gcd_says [] x k" "gcd_says (e # g) x k \<longleftrightarrow> holds e x \<and> gcd_kind e = Some k \<or> gcd_says g x k"
  by (auto simp: gcd_says_def)

lemma gcd_shown: "gcd_shown e \<longleftrightarrow> gcd_kind e \<noteq> None"
  by (simp add: gcd_shown_def gcd_kind_def)

lemma add_gcd_runs:
  assumes w: "whole_pages (unat (BaseAddress e)) (unat (EndAddress e))" and l: "sound l" "\<And>x k. holds e x \<Longrightarrow> \<not> says l x k"
  obtains l' where "add_gcd ty A e l = Some l'" "sound l'" "length l' \<le> length l + 1" "\<And>x k. says l' x k \<longleftrightarrow> says l x k \<or> holds e x \<and> k = (ty, A)"
proof -
  obtain P where P: "RShiftU64 (EndAddress e - BaseAddress e + 1) EFI_PAGE_SHIFT = Some P" "unat (BaseAddress e) + 4096 * unat P = unat (EndAddress e) + 1"
    using page_number[OF w] .
  define d where "d = \<lparr>DescType = ty, PhysicalStart = BaseAddress e, DescPages = P, DescAttribute = A\<rparr>"
  have d: "descriptor_ok d" "\<And>x. dcovers d x \<longleftrightarrow> holds e x" "dkind d = (ty, A)"
    using page_descriptor[OF w P(2)] by (simp_all add: d_def)
  have "4096 dvd unat (EndAddress e - BaseAddress e + 1)" by (rule range_bytes(2)[OF w])
  then have "(EndAddress e - BaseAddress e + 1) AND EFI_PAGE_MASK = 0" using aligned_iff[of 12 "EndAddress e - BaseAddress e + 1"] by simp
  then have run: "add_gcd ty A e l = Some (MergeMemoryMapDescriptor d l)" using P(1) whole_words(1)[OF w] by (simp add: add_gcd_def d_def)
  have M: "sound (MergeMemoryMapDescriptor d l)" "\<And>x k. says (MergeMemoryMapDescriptor d l) x k \<longleftrightarrow> says l x k \<or> dcovers d x \<and> dkind d = k"
    "length (MergeMemoryMapDescriptor d l) \<le> length l + 1"
    using merge_descriptor[OF d(1) l(1)] l(2) d(2) by auto
  show thesis by (rule that[OF run M(1,3)]) (use M(2) d(2,3) in auto)
qed

lemma add_gcd_range_runs:
  assumes w: "pages_shown [e]" and l: "sound l" "\<And>x k k'. says l x k \<Longrightarrow> \<not> gcd_says [e] x k'"
  obtains l' where "add_gcd_range e l = Some l'" "sound l'" "length l' \<le> length l + length (filter gcd_shown [e])"
    "\<And>x k. says l' x k \<longleftrightarrow> says l x k \<or> gcd_says [e] x k"
proof -
  have ex: "\<not> (fixed_range e \<and> GcdMemoryType e = EfiGcdMemoryTypePersistent)" by (auto simp: fixed_range_def)
  show thesis
  proof (cases "gcd_kind e")
    case None
    then have "add_gcd_range e l = Some l" by (auto simp: add_gcd_range_def gcd_kind_def split: if_splits)
    then show thesis using that[of l] l(1) None by (simp add: gcd_says_def)
  next
    case (Some k0)
    have wp: "whole_pages (unat (BaseAddress e)) (unat (EndAddress e))" using w Some by (simp add: pages_shown_def)
    have cl: "\<not> says l x k" if "holds e x" for x k using l(2)[of x k k0] that Some by (auto simp: gcd_says_def)
    obtain l' where l': "add_gcd (fst k0) (snd k0) e l = Some l'" "sound l'" "length l' \<le> length l + 1" "\<And>x k. says l' x k \<longleftrightarrow> says l x k \<or> holds e x \<and> k = (fst k0, snd k0)"
      by (rule add_gcd_runs[OF wp l(1) cl, where ty = "fst k0" and A = "snd k0"]) (assumption, rule that)
    have "add_gcd_range e l = Some l'" using l'(1) Some ex by (auto simp: add_gcd_range_def gcd_kind_def split: if_splits)
    then show thesis by (rule that) (use l' Some in \<open>auto simp: gcd_says_def gcd_shown\<close>)
  qed
qed

lemma merge_gcd_loop:
  assumes "tiles (unat (EndAddress e) + 1) g hi" "unat (BaseAddress e) \<le> unat (EndAddress e)" "pages_shown (e # g)"
    and "sound l" "\<And>x k k'. says l x k \<Longrightarrow> \<not> gcd_says (e # g) x k'"
  shows "\<exists>l'. MergeGcd_loop e g l = Some l' \<and> sound l' \<and> length l' \<le> length l + length (filter gcd_shown (e # g))
    \<and> (\<forall>x k. says l' x k \<longleftrightarrow> says l x k \<or> gcd_says (e # g) x k)"
  using assms
proof (induction g arbitrary: e l)
  case Nil
  obtain l' where "add_gcd_range e l = Some l'" "sound l'" "length l' \<le> length l + length (filter gcd_shown [e])"
    "\<And>x k. says l' x k \<longleftrightarrow> says l x k \<or> gcd_says [e] x k"
    by (rule add_gcd_range_runs[OF Nil.prems(3,4)]) (use Nil.prems(5) in blast)+
  then show ?case by simp
next
  case (Cons f g)
  have t: "unat (BaseAddress f) = unat (EndAddress e) + 1" "unat (BaseAddress f) \<le> unat (EndAddress f)" "tiles (unat (EndAddress f) + 1) g hi" using Cons.prems(1) by simp_all
  show ?case
  proof (cases "Capabilities e = Capabilities f \<and> GcdAttributes e = GcdAttributes f \<and> GcdMemoryType e = GcdMemoryType f \<and> GcdIoType e = GcdIoType f")
    case True
    let ?e = "e\<lparr>EndAddress := EndAddress f\<rparr>"
    have k: "gcd_kind ?e = gcd_kind e" "gcd_kind f = gcd_kind e" using True by (simp_all add: gcd_kind_def gcd_type_def fixed_range_def)
    have s: "gcd_says (?e # g) x k \<longleftrightarrow> gcd_says (e # f # g) x k" for x k using k t Cons.prems(2) by auto
    have w: "pages_shown (?e # g)" using Cons.prems(2,3) k t unfolding pages_shown_def by (auto simp: whole_pages_def)
    obtain l' where l': "MergeGcd_loop ?e g l = Some l'" "sound l'" "length l' \<le> length l + length (filter gcd_shown (?e # g))"
      "\<And>x k. says l' x k \<longleftrightarrow> says l x k \<or> gcd_says (?e # g) x k"
    proof -
      have "tiles (unat (EndAddress ?e) + 1) g hi" "unat (BaseAddress ?e) \<le> unat (EndAddress ?e)" using t Cons.prems(2) by simp_all
      moreover have "says l x k \<Longrightarrow> \<not> gcd_says (?e # g) x k'" for x k k' using Cons.prems(5) s by blast
      ultimately have "\<exists>l'. MergeGcd_loop ?e g l = Some l' \<and> sound l' \<and> length l' \<le> length l + length (filter gcd_shown (?e # g))
        \<and> (\<forall>x k. says l' x k \<longleftrightarrow> says l x k \<or> gcd_says (?e # g) x k)" by (rule Cons.IH[OF _ _ w Cons.prems(4)])
      then show thesis using that by blast
    qed
    have "length (filter gcd_shown (?e # g)) \<le> length (filter gcd_shown (e # f # g))" using k by (auto simp: gcd_shown)
    then show ?thesis using l' s True by auto
  next
    case False
    have w: "pages_shown [e]" "pages_shown (f # g)" using Cons.prems(3) by (simp_all add: pages_shown_def)
    obtain l1 where l1: "add_gcd_range e l = Some l1" "sound l1" "length l1 \<le> length l + length (filter gcd_shown [e])"
      "\<And>x k. says l1 x k \<longleftrightarrow> says l x k \<or> gcd_says [e] x k"
      by (rule add_gcd_range_runs[OF w(1) Cons.prems(4)]) (use Cons.prems(5) in \<open>auto simp: gcd_says_def\<close>)
    have above: "unat (EndAddress e) < x" if "gcd_says (f # g) x k" for x k
      using that tiles_above[OF Cons.prems(1)] by (fastforce simp: gcd_says_def)
    have cl: "\<not> gcd_says (f # g) x k'" if "says l1 x k" for x k k'
      proof
      assume g: "gcd_says (f # g) x k'"
      then have "\<not> holds e x" using above[OF g] by simp
      then have "says l x k" using that unfolding l1(4) by auto
      then show False using Cons.prems(5)[of x k k'] g by simp
    qed
    obtain l' where l': "MergeGcd_loop f g l1 = Some l'" "sound l'"
      "length l' \<le> length l1 + length (filter gcd_shown (f # g))" "\<And>x k. says l' x k \<longleftrightarrow> says l1 x k \<or> gcd_says (f # g) x k"
      using Cons.IH[OF t(3,2) w(2) l1(2)] cl by blast
    have "says l' x k \<longleftrightarrow> says l x k \<or> gcd_says (e # f # g) x k" for x k unfolding l'(4) l1(4) by (auto simp: gcd_says_def)
    then show ?thesis using l'(1-3) l1(1,3) False by auto
  qed
qed

text \<open>The loop starts with an entry of zeros, which is never shown, whether it merges with the first entry of the map or not.\<close>

lemma merge_gcd_from_zero:
  assumes t: "tiles 0 g hi" and w: "pages_shown g" and l: "sound l" "\<And>x k k'. says l x k \<Longrightarrow> \<not> gcd_says g x k'"
  shows "\<exists>l'. MergeGcd_loop zero_gcd_entry g l = Some l' \<and> sound l' \<and> length l' \<le> length l + length (filter gcd_shown g)
    \<and> (\<forall>x k. says l' x k \<longleftrightarrow> says l x k \<or> gcd_says g x k)"
proof -
  have z: "gcd_kind (zero_gcd_entry\<lparr>EndAddress := b\<rparr>) = None" for b by (simp add: gcd_kind_def fixed_range_def zero_gcd_entry_def)
  have add: "add_gcd_range zero_gcd_entry l = Some l" by (simp add: add_gcd_range_def fixed_range_def zero_gcd_entry_def)
  show ?thesis
  proof (cases g)
    case Nil
    then show ?thesis using add l(1) by simp
  next
    case (Cons f g')
    have f: "unat (BaseAddress f) = 0" "tiles (unat (EndAddress f) + 1) g' hi" using t Cons by simp_all
    show ?thesis
    proof (cases "Capabilities zero_gcd_entry = Capabilities f \<and> GcdAttributes zero_gcd_entry = GcdAttributes f \<and> GcdMemoryType zero_gcd_entry = GcdMemoryType f
        \<and> GcdIoType zero_gcd_entry = GcdIoType f")
      case True
      let ?z = "zero_gcd_entry\<lparr>EndAddress := EndAddress f\<rparr>"
      have "GcdMemoryType f = 0" using True by (simp add: zero_gcd_entry_def)
      then have k: "gcd_kind f = None" by (simp add: gcd_kind_def fixed_range_def)
      have s: "gcd_says (?z # g') x k' \<longleftrightarrow> gcd_says g x k'" for x k' using Cons k z by simp
      have "\<exists>l'. MergeGcd_loop ?z g' l = Some l' \<and> sound l' \<and> length l' \<le> length l + length (filter gcd_shown (?z # g'))
        \<and> (\<forall>x k. says l' x k \<longleftrightarrow> says l x k \<or> gcd_says (?z # g') x k)"
      proof (rule merge_gcd_loop[OF _ _ _ l(1)])
        show "tiles (unat (EndAddress ?z) + 1) g' hi" "unat (BaseAddress ?z) \<le> unat (EndAddress ?z)" using f(2) by (simp_all add: zero_gcd_entry_def)
        show "pages_shown (?z # g')" using w Cons z by (simp add: pages_shown_def)
        show "\<not> gcd_says (?z # g') x k'" if "says l x k" for x k k' unfolding s using l(2) that .
      qed
      moreover have "MergeGcd_loop zero_gcd_entry g l = MergeGcd_loop ?z g' l" unfolding Cons using True by simp
      moreover have "length (filter gcd_shown (?z # g')) = length (filter gcd_shown g)" using Cons k z by (simp add: gcd_shown)
      ultimately show ?thesis unfolding s by simp
    next
      case False
      have "\<exists>l'. MergeGcd_loop f g' l = Some l' \<and> sound l' \<and> length l' \<le> length l + length (filter gcd_shown (f # g'))
        \<and> (\<forall>x k. says l' x k \<longleftrightarrow> says l x k \<or> gcd_says (f # g') x k)"
        by (rule merge_gcd_loop[OF f(2)]) (use f(1) w l Cons in auto)
      then show ?thesis using False add Cons by auto
    qed
  qed
qed

lemma nested_locks:
  assumes s: "page_ready s" and n: "2 \<le> n"
  obtains t where "CoreAcquireGcdMemoryLock s = Some (acquired mGcdMemorySpaceLock s)"
    "CoreAcquireMemoryLock (acquired mGcdMemorySpaceLock s) = Some (acquired gMemoryLock (acquired mGcdMemorySpaceLock s))"
    "CoreReleaseMemoryLock n notify (acquired gMemoryLock (acquired mGcdMemorySpaceLock s)) \<bind> CoreReleaseGcdMemoryLock n notify = Some t"
    "view t = view s" "page_ready t"
proof -
  let ?a = "acquired mGcdMemorySpaceLock s"
  let ?b = "acquired gMemoryLock ?a"
  have r: "settled s" "gEfiCurrentTpl s \<le> TPL_NOTIFY" "Lock (locks s gMemoryLock) = EfiLockReleased" "Lock (locks s mGcdMemorySpaceLock) = EfiLockReleased" "unheard s" "pages_ok (pages s)"
    using s unfolding page_ready_def by blast+
  have lv: "Tpl (locks s gMemoryLock) = TPL_NOTIFY" "Tpl (locks s mGcdMemorySpaceLock) = TPL_NOTIFY" using r(1) by (simp_all add: settled_def event_inv_def lock_levels_def)
  have q: "nothing_pending_above (gEfiCurrentTpl s) s" using r(1) by (simp add: settled_def)
  have sa: "settled ?a" by (rule settled_acquired[OF r(1)]) (use r lv in simp_all)
  have qa: "nothing_pending_above (gEfiCurrentTpl ?a) ?a" using sa by (simp add: settled_def)
  have acq: "CoreAcquireGcdMemoryLock s = Some ?a" "CoreAcquireMemoryLock ?a = Some ?b"
    using r lv by (simp_all add: CoreAcquireGcdMemoryLock_def CoreAcquireMemoryLock_def CoreAcquireLock_eq)
  have c: "CoreReleaseLock n notify gMemoryLock ?b = Some (released gMemoryLock ?b)"
    "view (released gMemoryLock ?b) = view (?b\<lparr>gEfiCurrentTpl := gEfiCurrentTpl ?a\<rparr>)" "locks_kept ?a (released gMemoryLock ?b)"
    using kept_section[OF _ _ _ qa locks_kept_refl _ _ n] r(3) lv by simp_all
  let ?c = "released gMemoryLock ?b"
  have vc: "view ?c = view ?a" unfolding c(2) by (simp add: view_def other_fields_def acquired_platform)
  have t: "CoreReleaseLock n notify mGcdMemorySpaceLock ?c = Some (released mGcdMemorySpaceLock ?c)"
    "view (released mGcdMemorySpaceLock ?c) = view (?c\<lparr>gEfiCurrentTpl := gEfiCurrentTpl s\<rparr>)" "locks_kept s (released mGcdMemorySpaceLock ?c)"
    using kept_section[OF r(4) _ _ q c(3) _ _ n] r(2) lv view_eqD(1,3)[OF vc] by (simp_all del: released_fields)
  let ?t = "released mGcdMemorySpaceLock ?c"
  have v: "view ?t = view s" unfolding t(2) using vc by (simp add: view_def other_fields_def acquired_platform del: released_fields)
  have st: "settled ?t" by (rule settled_cong[OF r(1) v t(3)])
  have pg: "pages ?t = pages s" using view_eqD(5)[OF v] by simp
  have f: "gEfiCurrentTpl ?t = gEfiCurrentTpl s" "event ?t = event s" "gEventSignalQueue ?t = gEventSignalQueue s"
    using view_eqD(1,4,6)[OF v] by (simp_all add: other_fields_def)
  have "Lock (locks ?t l) = Lock (locks s l)" for l using t(3) unfolding locks_kept_def by blast
  then have "page_ready ?t" unfolding page_ready_def using st f pg r by (simp add: unheard_def del: released_fields)
  then show thesis using that acq c(1) t(1) v by (simp add: CoreReleaseMemoryLock_def CoreReleaseGcdMemoryLock_def)
qed

section \<open>The services, exactly\<close>

text \<open>What the operating system is to be told of an address: the descriptor of the memory map or the shown entry of the GCD map that has it.\<close>

definition known :: "'v PAGES \<Rightarrow> nat \<Rightarrow> UINT32 \<times> UINT64 \<Rightarrow> bool" where
  "known s x k \<longleftrightarrow> (\<exists>e\<in>set (gMemoryMap (memory_lists (pages s))). covers e x \<and> k = (shown_type (pages s) e, shown_attribute (pages s) e))
     \<or> gcd_says (mGcdMemorySpaceMap (world s)) x k"

definition map_entries :: "'v PAGES \<Rightarrow> nat" where
  "map_entries s = length (gMemoryMap (memory_lists (pages s))) + length (filter gcd_shown (mGcdMemorySpaceMap (world s)))"

lemma build_map:
  assumes s: "page_ready s" and g: "tiles 0 (mGcdMemorySpaceMap (world s)) hi" "pages_shown (mGcdMemorySpaceMap (world s))"
    and d: "\<And>x k. gcd_says (mGcdMemorySpaceMap (world s)) x k \<Longrightarrow> memory (pages s) x = None"
  obtains l1 l2 l where "GetMap_loop (pages s) (gMemoryMap (memory_lists (pages s))) [] = Some l1" "MergeGcd_loop zero_gcd_entry (mGcdMemorySpaceMap (world s)) l1 = Some l2"
    "l = MergeMemoryMap (map clear_protection l2)" "sound l" "length l \<le> map_entries s"
    "\<And>x ty A. says l x (ty, A) \<longleftrightarrow> (\<exists>B. known s x (ty, B) \<and> A = B AND NOT (EFI_MEMORY_RP OR EFI_MEMORY_RO OR EFI_MEMORY_XP))"
proof -
  let ?m = "gMemoryMap (memory_lists (pages s))" and ?g = "mGcdMemorySpaceMap (world s)"
  have ok: "pages_ok (pages s)" using s by (simp add: page_ready_def)
  then have ap: "apart ?m" by (simp add: pages_ok_def map_ok_def)
  obtain l1 where l1: "GetMap_loop (pages s) ?m [] = Some l1" "sound l1" "length l1 \<le> length ?m"
    "\<And>x k. says l1 x k \<longleftrightarrow> (\<exists>e\<in>set ?m. covers e x \<and> k = (shown_type (pages s) e, shown_attribute (pages s) e))"
    using get_map_loop[OF ap, of "[]" "pages s"] by auto
  have cl: "\<not> gcd_says ?g x k'" if sx: "says l1 x k" for x k k'
  proof
    assume "gcd_says ?g x k'"
    then have "memory (pages s) x = None" by (rule d)
    moreover obtain e where e: "e \<in> set ?m" "covers e x" using sx unfolding l1(4) by blast
    ultimately show False using memory_covers[OF ok e] by simp
  qed
  obtain l2 where l2: "MergeGcd_loop zero_gcd_entry ?g l1 = Some l2" "sound l2" "length l2 \<le> length l1 + length (filter gcd_shown ?g)"
    "\<And>x k. says l2 x k \<longleftrightarrow> says l1 x k \<or> gcd_says ?g x k"
  proof -
    have "\<exists>l'. MergeGcd_loop zero_gcd_entry ?g l1 = Some l' \<and> sound l' \<and> length l' \<le> length l1 + length (filter gcd_shown ?g)
      \<and> (\<forall>x k. says l' x k \<longleftrightarrow> says l1 x k \<or> gcd_says ?g x k)" by (rule merge_gcd_from_zero[OF g l1(2)]) (rule cl)
    then show thesis using that by blast
  qed
  have c: "sound (map clear_protection l2)" by (rule clear_protection_says(1)[OF l2(2)])
  note M = merge_map[OF c]
  have kn: "says l2 x k \<longleftrightarrow> known s x k" for x k unfolding l2(4) l1(4) known_def ..
  show thesis
  proof (rule that[OF l1(1) l2(1) refl])
    show "sound (MergeMemoryMap (map clear_protection l2))" using M by blast
    show "length (MergeMemoryMap (map clear_protection l2)) \<le> map_entries s" using M l1(3) l2(3) by (simp add: map_entries_def)
    show "says (MergeMemoryMap (map clear_protection l2)) x (ty, A) \<longleftrightarrow> (\<exists>B. known s x (ty, B) \<and> A = B AND NOT (EFI_MEMORY_RP OR EFI_MEMORY_RO OR EFI_MEMORY_XP))" for x ty A
      using M clear_protection_says(2)[OF l2(2), of x ty A] kn by simp
  qed
qed

text \<open>The check before the boot services end: the map key has to be the current one, and runtime memory has to be aligned.\<close>

definition runtime_entry :: "'v PAGE_STATE \<Rightarrow> MEMORY_MAP \<Rightarrow> bool" where
  "runtime_entry p e \<longleftrightarrow> MemType e < EfiMaxMemoryType \<and> Runtime (mMemoryTypeStatistics p (unat (MemType e)))"

lemma terminate_loop:
  assumes "\<forall>e\<in>set m. runtime_entry p e \<longrightarrow> MemType e \<noteq> EfiACPIReclaimMemory \<and> MemType e \<noteq> EfiACPIMemoryNVS"
  shows "Terminate_loop p m = Some (if \<forall>e\<in>set m. runtime_entry p e \<longrightarrow> MemStart e AND (RUNTIME_PAGE_ALLOCATION_GRANULARITY - 1) = 0
    \<and> (MemEnd e + 1) AND (RUNTIME_PAGE_ALLOCATION_GRANULARITY - 1) = 0 then EFI_SUCCESS else EFI_INVALID_PARAMETER)"
  using assms by (induction m) (auto simp: runtime_entry_def)

lemma terminate_memory_map_exact:
  assumes "page_ready s" "2 \<le> n"
    and "\<forall>e\<in>set (gMemoryMap (memory_lists (pages s))). runtime_entry (pages s) e \<longrightarrow> MemType e \<noteq> EfiACPIReclaimMemory \<and> MemType e \<noteq> EfiACPIMemoryNVS"
  shows "\<exists>t. CoreTerminateMemoryMap n notify MapKey s = Some (if MapKey = mMemoryMapKey (pages s)
      \<and> (\<forall>e\<in>set (gMemoryMap (memory_lists (pages s))). runtime_entry (pages s) e \<longrightarrow> MemStart e AND (RUNTIME_PAGE_ALLOCATION_GRANULARITY - 1) = 0
           \<and> (MemEnd e + 1) AND (RUNTIME_PAGE_ALLOCATION_GRANULARITY - 1) = 0) then EFI_SUCCESS else EFI_INVALID_PARAMETER, t)
    \<and> view t = view s \<and> page_ready t"
proof -
  note a = page_acquire[OF assms(1)]
  have "put_pages (\<lambda>_. pages u) u = u" for u :: "'a PAGES" by (simp add: put_pages_def)
  then have p: "paged (acquired gMemoryLock s) (pages s) (acquired gMemoryLock s)" "view (put_pages (\<lambda>_. pages s) s) = view s"
    using a(2,3) by (metis paged_put paged_def, simp)
  obtain t where t: "CoreReleaseMemoryLock n notify (acquired gMemoryLock s) = Some t" "view t = view s" "page_ready t"
    using page_release[OF assms(1) p(1) assms(2), of notify] assms(1) p(2) by (metis page_ready_def)
  then show ?thesis using a(1,3) terminate_loop[OF assms(3)] by (simp add: CoreTerminateMemoryMap_def)
qed

text \<open>
  (C11) Handing out the memory map is exact. When the memory map and the shown entries of the GCD map do not overlap, and the latter are whole pages, the service
  reports the size it may need when the buffer is smaller, and otherwise writes descriptors that fit into the buffer: each has at least one page and stays inside the address
  space, no two overlap, and together they say of every address exactly what the two maps know of it, with the bits for read, write and execute protection cleared.
  The state is as before.
\<close>

theorem get_memory_map_exact:
  assumes "page_ready s" "2 \<le> n" "tiles 0 (mGcdMemorySpaceMap (world s)) hi" "pages_shown (mGcdMemorySpaceMap (world s))"
    and "\<forall>x k. gcd_says (mGcdMemorySpaceMap (world s)) x k \<longrightarrow> memory (pages s) x = None" "48 * map_entries s < 2 ^ 64"
  shows "\<exists>st B l t. CoreGetMemoryMap n notify (Some Given) True s = Some (st, Some B, l, Some (mMemoryMapKey (pages s)), t) \<and> view t = view s \<and> page_ready t
    \<and> (if unat Given < 48 * map_entries s then st = EFI_BUFFER_TOO_SMALL \<and> unat B = 48 * map_entries s \<and> l = []
       else st = EFI_SUCCESS \<and> unat B = 48 * length l \<and> unat B \<le> unat Given \<and> sound l
         \<and> (\<forall>x ty A. says l x (ty, A) \<longleftrightarrow> (\<exists>A'. known s x (ty, A') \<and> A = A' AND NOT (EFI_MEMORY_RP OR EFI_MEMORY_RO OR EFI_MEMORY_XP))))"
proof -
  let ?m = "gMemoryMap (memory_lists (pages s))" and ?g = "mGcdMemorySpaceMap (world s)"
  let ?b = "acquired gMemoryLock (acquired mGcdMemorySpaceLock s)"
  obtain t where t: "CoreAcquireGcdMemoryLock s = Some (acquired mGcdMemorySpaceLock s)" "CoreAcquireMemoryLock (acquired mGcdMemorySpaceLock s) = Some ?b"
    "CoreReleaseMemoryLock n notify ?b \<bind> CoreReleaseGcdMemoryLock n notify = Some t" "view t = view s" "page_ready t"
    by (rule nested_locks[OF assms(1,2), where notify = notify])
  obtain u where u: "CoreReleaseMemoryLock n notify ?b = Some u" "CoreReleaseGcdMemoryLock n notify u = Some t"
    using t(3) by (cases "CoreReleaseMemoryLock n notify ?b") auto
  obtain l1 l2 l where l: "GetMap_loop (pages s) ?m [] = Some l1" "MergeGcd_loop zero_gcd_entry ?g l1 = Some l2"
    "l = MergeMemoryMap (map clear_protection l2)" "sound l" "length l \<le> map_entries s"
    "\<And>x ty A. says l x (ty, A) \<longleftrightarrow> (\<exists>B. known s x (ty, B) \<and> A = B AND NOT (EFI_MEMORY_RP OR EFI_MEMORY_RO OR EFI_MEMORY_XP))"
    by (rule build_map[OF assms(1,3,4)]) (use assms(5) in blast, rule that)
  define B where "B = (DESCRIPTOR_SIZE * of_nat (length (filter gcd_shown ?g)) + DESCRIPTOR_SIZE * of_nat (length ?m) :: UINTN)"
  have Bn: "B = of_nat (48 * map_entries s)" by (simp add: B_def map_entries_def algebra_simps)
  then have B: "unat B = 48 * map_entries s" by (simp only: Bn unat_of_nat) (rule mod_less, use assms(6) in simp)
  have L: "unat (DESCRIPTOR_SIZE * of_nat (length l) :: UINTN) = 48 * length l"
  proof -
    have "(DESCRIPTOR_SIZE * of_nat (length l) :: UINTN) = of_nat (48 * length l)" by simp
    then show ?thesis by (simp only: unat_of_nat) (rule mod_less, use assms(6) l(5) in simp)
  qed
  have run: "CoreGetMemoryMap n notify (Some Given) True s =
      Some (if Given < B then (EFI_BUFFER_TOO_SMALL, Some B, [], Some (mMemoryMapKey (pages s)), t)
            else (EFI_SUCCESS, Some (DESCRIPTOR_SIZE * of_nat (length l)), l, Some (mMemoryMapKey (pages s)), t))"
    using t(1,2) u l(1-3) by (simp add: CoreGetMemoryMap_def B_def Let_def)
  have lt: "Given < B \<longleftrightarrow> unat Given < 48 * map_entries s" unfolding word_less_nat_alt B ..
  show ?thesis
  proof (cases "Given < B")
    case True
    then show ?thesis unfolding run lt[symmetric] using t(4,5) B by simp
  next
    case False
    then have "48 * length l \<le> unat Given" using l(5) lt by simp
    then show ?thesis unfolding run lt[symmetric] using False t(4,5) L l(4,6) by simp
  qed
qed

definition map_sample :: "unit PAGES" where
  "map_sample = initial_core True
     \<lparr>mGcdMemorySpaceMap =
        [mGcdMemorySpaceMapEntryTemplate\<lparr>EndAddress := 0x3FFFFFFF\<rparr>,
         mGcdMemorySpaceMapEntryTemplate\<lparr>BaseAddress := 0x40000000, EndAddress := 0x40000FFF, GcdMemoryType := EfiGcdMemoryTypeReserved\<rparr>],
      mGcdIoSpaceMap = [],
      elsewhere = (initial_pages ())\<lparr>memory_lists := sample_map, mMemoryTypeInformationInitialized := True\<rparr>\<rparr>"

theorem get_memory_map_exact_witness:
  "(\<exists>B l t. CoreGetMemoryMap 2 (\<lambda>f e c s. Some s) (Some 0x1000) True map_sample = Some (EFI_SUCCESS, Some B, l, Some 0, t) \<and> sound l
      \<and> says l 0x40000800 (EfiReservedMemoryType, 0))
   \<and> (\<exists>t. CoreGetMemoryMap 2 (\<lambda>f e c s. Some s) (Some 0) True map_sample = Some (EFI_BUFFER_TOO_SMALL, Some (48 * of_nat (map_entries map_sample)), [], Some 0, t))"
proof -
  have m: "memory_lists (pages map_sample) = sample_map" by (simp add: map_sample_def initial_core_def)
  have "settled map_sample" unfolding map_sample_def by (rule settled_initial)
  then have r: "page_ready map_sample" using sample_map_ok
    by (simp add: page_ready_def pages_ok_def unheard_def) (simp add: map_sample_def initial_core_def EFI_INITIALIZE_LOCK_VARIABLE_def sample_map_def initial_pages_def)
  let ?g = "mGcdMemorySpaceMap (world map_sample)"
  have g: "?g = [mGcdMemorySpaceMapEntryTemplate\<lparr>EndAddress := 0x3FFFFFFF\<rparr>,
         mGcdMemorySpaceMapEntryTemplate\<lparr>BaseAddress := 0x40000000, EndAddress := 0x40000FFF, GcdMemoryType := EfiGcdMemoryTypeReserved\<rparr>]"
    by (simp add: map_sample_def initial_core_def)
  have k: "gcd_says ?g x k \<longleftrightarrow> 0x40000000 \<le> x \<and> x \<le> 0x40000FFF \<and> k = (EfiReservedMemoryType, 0)" for x k
    by (auto simp: g gcd_kind_def fixed_range_def mGcdMemorySpaceMapEntryTemplate_def gcd_type_def)
  have p: "(2 :: nat) \<le> 2" "tiles 0 ?g 0x40001000" "pages_shown ?g" "48 * map_entries map_sample < 2 ^ 64"
    by (simp_all add: g mGcdMemorySpaceMapEntryTemplate_def pages_shown_def gcd_kind_def fixed_range_def whole_pages_def map_entries_def m sample_map_def gcd_shown_def)
  have n: "\<forall>x k. gcd_says ?g x k \<longrightarrow> memory (pages map_sample) x = None"
    by (auto simp: k m sample_map_def mem_def)
  have e: "map_entries map_sample = 4" by (simp add: map_entries_def m g sample_map_def gcd_shown_def fixed_range_def mGcdMemorySpaceMapEntryTemplate_def)
  have key: "mMemoryMapKey (pages map_sample) = 0" by (simp add: map_sample_def initial_core_def initial_pages_def)
  note w = get_memory_map_exact[OF r p(1-3) n p(4), where notify = "\<lambda>f e c s. Some s"]
  have "known map_sample 0x40000800 (EfiReservedMemoryType, 0)" by (simp add: known_def k)
  moreover have "unat B = 192 \<Longrightarrow> B = 48 * of_nat 4" for B :: UINTN by (simp add: word_unat_eq_iff)
  ultimately show ?thesis using w[of "0x1000"] w[of 0] unfolding e key by force
qed

end
