(* ===== verification/Dxe_Depex.thy ===== *)
theory Dxe_Depex
  imports Liano_Prelude
begin

text \<open>
  The dependency expression evaluator of the DXE dispatcher, MdeModulePkg/Core/Dxe/Dispatcher/Dependency.c: the
  growing stack of BOOLEANs, the preprocessing of an expression's first opcode, and the evaluation of the postfix
  code, which patches the pushes of installed protocols in place. The stack is proved to be a stack, and the evaluator
  to compute the value of the expression the code stands for.
\<close>

unbundle bit_operations_syntax

section \<open>The evaluation stack\<close>

text \<open>
  The buffer that starts at mDepexEvaluationStack, and the pointer and the end as offsets into it; the empty buffer is the NULL
  pointer (a buffer that was allocated has at least DEPEX_STACK_SIZE_INCREMENT elements). \<open>Pool\<close> gives the answers of the
  successive calls of AllocatePool: no memory, or the content the memory has; \<open>PoolCalls\<close> counts the calls.
\<close>

record DEPEX_STACK =
  mDepexEvaluationStack :: "bool list"
  mDepexEvaluationStackPointer :: nat
  Pool :: "nat \<Rightarrow> (nat \<Rightarrow> bool) option"
  PoolCalls :: nat

abbreviation mDepexEvaluationStackEnd :: "DEPEX_STACK \<Rightarrow> nat" where
  "mDepexEvaluationStackEnd s \<equiv> length (mDepexEvaluationStack s)"

abbreviation DEPEX_STACK_SIZE_INCREMENT :: nat where "DEPEX_STACK_SIZE_INCREMENT \<equiv> 0x1000"

definition GrowDepexStack :: "DEPEX_STACK \<Rightarrow> EFI_STATUS \<times> DEPEX_STACK" where
  "GrowDepexStack s =
     (let Size = DEPEX_STACK_SIZE_INCREMENT;
          Size = (if mDepexEvaluationStack s \<noteq> [] then Size + mDepexEvaluationStackEnd s else Size);
          Answer = Pool s (PoolCalls s);
          s = s\<lparr>PoolCalls := PoolCalls s + 1\<rparr>
      in case Answer of
           None \<Rightarrow> (EFI_OUT_OF_RESOURCES, s)
         | Some content \<Rightarrow>
             let NewStack = map content [0..<Size];
                 NewStack = (if mDepexEvaluationStack s \<noteq> []
                             then mDepexEvaluationStack s @ drop (mDepexEvaluationStackEnd s) NewStack else NewStack)
             in (EFI_SUCCESS, s\<lparr>mDepexEvaluationStack := NewStack\<rparr>))"

definition PushBool :: "bool \<Rightarrow> DEPEX_STACK \<Rightarrow> EFI_STATUS \<times> DEPEX_STACK" where
  "PushBool v s =
     (let (Status, s) = (if mDepexEvaluationStackPointer s = mDepexEvaluationStackEnd s
                         then GrowDepexStack s else (EFI_SUCCESS, s))
      in if EFI_ERROR Status then (Status, s)
         else (EFI_SUCCESS,
               s\<lparr>mDepexEvaluationStack := (mDepexEvaluationStack s)[mDepexEvaluationStackPointer s := v],
                 mDepexEvaluationStackPointer := mDepexEvaluationStackPointer s + 1\<rparr>))"

text \<open>The second result is what is stored through the Value pointer, if anything.\<close>

definition PopBool :: "DEPEX_STACK \<Rightarrow> EFI_STATUS \<times> bool option \<times> DEPEX_STACK" where
  "PopBool s =
     (if mDepexEvaluationStackPointer s = 0 then (EFI_ACCESS_DENIED, None, s)
      else let s = s\<lparr>mDepexEvaluationStackPointer := mDepexEvaluationStackPointer s - 1\<rparr>
           in (EFI_SUCCESS, Some (mDepexEvaluationStack s ! mDepexEvaluationStackPointer s), s))"

section \<open>Driver entries\<close>

text \<open>
  The fields of EFI_CORE_DRIVER_ENTRY the evaluator reads or writes. The bytes of the dependency expression are a list,
  \<open>None\<close> the NULL pointer; its memory has exactly these bytes, and an access behind them is a failure of the model.
\<close>

record EFI_CORE_DRIVER_ENTRY =
  Depex :: "UINT8 list option"
  DepexSize :: UINTN
  Before :: bool
  After :: bool
  BeforeAfterGuid :: EFI_GUID
  Dependent :: bool
  Unrequested :: bool

abbreviation EFI_DEP_BEFORE :: UINT8 where "EFI_DEP_BEFORE \<equiv> 0x00"
abbreviation EFI_DEP_AFTER :: UINT8 where "EFI_DEP_AFTER \<equiv> 0x01"
abbreviation EFI_DEP_PUSH :: UINT8 where "EFI_DEP_PUSH \<equiv> 0x02"
abbreviation EFI_DEP_AND :: UINT8 where "EFI_DEP_AND \<equiv> 0x03"
abbreviation EFI_DEP_OR :: UINT8 where "EFI_DEP_OR \<equiv> 0x04"
abbreviation EFI_DEP_NOT :: UINT8 where "EFI_DEP_NOT \<equiv> 0x05"
abbreviation EFI_DEP_TRUE :: UINT8 where "EFI_DEP_TRUE \<equiv> 0x06"
abbreviation EFI_DEP_FALSE :: UINT8 where "EFI_DEP_FALSE \<equiv> 0x07"
abbreviation EFI_DEP_END :: UINT8 where "EFI_DEP_END \<equiv> 0x08"
abbreviation EFI_DEP_SOR :: UINT8 where "EFI_DEP_SOR \<equiv> 0x09"
abbreviation EFI_DEP_REPLACE_TRUE :: UINT8 where "EFI_DEP_REPLACE_TRUE \<equiv> 0xff"

text \<open>CopyMem of a GUID out of the expression: sixteen bytes, each half with its least significant byte first.\<close>

fun little_endian :: "UINT8 list \<Rightarrow> UINT64" where
  "little_endian [] = 0"
| "little_endian (b # bs) = ucast b OR push_bit 8 (little_endian bs)"

definition CopyGuid :: "UINT8 list \<Rightarrow> nat \<Rightarrow> EFI_GUID option" where
  "CopyGuid bs i =
     (if i + 16 \<le> length bs
      then Some (little_endian (take 8 (drop i bs)), little_endian (take 8 (drop (i + 8) bs))) else None)"

definition ReadByte :: "UINT8 list \<Rightarrow> nat \<Rightarrow> UINT8 option" where
  "ReadByte bs i = (if i < length bs then Some (bs ! i) else None)"

definition CorePreProcessDepex :: "EFI_CORE_DRIVER_ENTRY \<Rightarrow> (EFI_STATUS \<times> EFI_CORE_DRIVER_ENTRY) option" where
  "CorePreProcessDepex DriverEntry =
     do {
       bs \<leftarrow> Depex DriverEntry;
       op \<leftarrow> ReadByte bs 0;
       let DriverEntry = (if op = EFI_DEP_SOR then DriverEntry\<lparr>Unrequested := True\<rparr> else DriverEntry\<lparr>Dependent := True\<rparr>);
       let DriverEntry = (if op = EFI_DEP_BEFORE then DriverEntry\<lparr>Before := True\<rparr>
                          else if op = EFI_DEP_AFTER then DriverEntry\<lparr>After := True\<rparr> else DriverEntry);
       if Before DriverEntry \<or> After DriverEntry
       then do { guid \<leftarrow> CopyGuid bs 1; Some (EFI_SUCCESS, DriverEntry\<lparr>BeforeAfterGuid := guid\<rparr>) }
       else Some (EFI_SUCCESS, DriverEntry)
     }"

section \<open>The evaluator\<close>

text \<open>
  Popping one and two operands and pushing a result, with the returns on errors of the opcodes: a pop or push that fails ends the evaluation
  with FALSE. \<open>Inl\<close> is that return, \<open>Inr\<close> goes on.
\<close>

type_synonym step = "DEPEX_STACK + DEPEX_STACK"

definition push_or_return :: "bool \<Rightarrow> DEPEX_STACK \<Rightarrow> step" where
  "push_or_return v s = (let (Status, s) = PushBool v s in if EFI_ERROR Status then Inl s else Inr s)"

definition unary_op :: "(bool \<Rightarrow> bool) \<Rightarrow> DEPEX_STACK \<Rightarrow> step" where
  "unary_op f s =
     (case PopBool s of
        (_, None, s) \<Rightarrow> Inl s
      | (_, Some Operator, s) \<Rightarrow> push_or_return (f Operator) s)"

definition binary_op :: "(bool \<Rightarrow> bool \<Rightarrow> bool) \<Rightarrow> DEPEX_STACK \<Rightarrow> step" where
  "binary_op f s =
     (case PopBool s of
        (_, None, s) \<Rightarrow> Inl s
      | (_, Some Operator, s) \<Rightarrow>
          (case PopBool s of
             (_, None, s) \<Rightarrow> Inl s
           | (_, Some Operator2, s) \<Rightarrow> push_or_return (f Operator Operator2) s))"

text \<open>
  The loop of CoreIsSchedulable at the offset \<open>it\<close> of Iterator. \<open>Located\<close> says of which protocols CoreLocateProtocol finds an
  interface. The results are the returned BOOLEAN, the bytes of the expression as patched, and the stack.
\<close>

function IsSchedulable_loop ::
  "(EFI_GUID \<Rightarrow> bool) \<Rightarrow> UINTN \<Rightarrow> nat \<Rightarrow> UINT8 list \<Rightarrow> DEPEX_STACK \<Rightarrow> (bool \<times> UINT8 list \<times> DEPEX_STACK) option" where
  "IsSchedulable_loop Located DSize it bs s =
     (if it \<ge> unat DSize then Some (False, bs, s)
      else do {
        op \<leftarrow> ReadByte bs it;
        if op = EFI_DEP_BEFORE \<or> op = EFI_DEP_AFTER then None
        else if op = EFI_DEP_SOR then
          (if it \<noteq> 0 then Some (False, bs, s) else IsSchedulable_loop Located DSize (it + 1) bs s)
        else if op = EFI_DEP_PUSH then do {
          DriverGuid \<leftarrow> CopyGuid bs (it + 1);
          let (bs, r) = (if Located DriverGuid then (bs[it := EFI_DEP_REPLACE_TRUE], push_or_return True s)
                         else (bs, push_or_return False s));
          case r of Inl s \<Rightarrow> Some (False, bs, s) | Inr s \<Rightarrow> IsSchedulable_loop Located DSize (it + 17) bs s
        }
        else if op = EFI_DEP_AND then
          (case binary_op (\<and>) s of Inl s \<Rightarrow> Some (False, bs, s) | Inr s \<Rightarrow> IsSchedulable_loop Located DSize (it + 1) bs s)
        else if op = EFI_DEP_OR then
          (case binary_op (\<or>) s of Inl s \<Rightarrow> Some (False, bs, s) | Inr s \<Rightarrow> IsSchedulable_loop Located DSize (it + 1) bs s)
        else if op = EFI_DEP_NOT then
          (case unary_op Not s of Inl s \<Rightarrow> Some (False, bs, s) | Inr s \<Rightarrow> IsSchedulable_loop Located DSize (it + 1) bs s)
        else if op = EFI_DEP_TRUE then
          (case push_or_return True s of Inl s \<Rightarrow> Some (False, bs, s) | Inr s \<Rightarrow> IsSchedulable_loop Located DSize (it + 1) bs s)
        else if op = EFI_DEP_FALSE then
          (case push_or_return False s of Inl s \<Rightarrow> Some (False, bs, s) | Inr s \<Rightarrow> IsSchedulable_loop Located DSize (it + 1) bs s)
        else if op = EFI_DEP_END then
          (case PopBool s of (_, None, s) \<Rightarrow> Some (False, bs, s) | (_, Some Operator, s) \<Rightarrow> Some (Operator, bs, s))
        else if op = EFI_DEP_REPLACE_TRUE then do {
          _ \<leftarrow> CopyGuid bs (it + 1);
          case push_or_return True s of Inl s \<Rightarrow> Some (False, bs, s) | Inr s \<Rightarrow> IsSchedulable_loop Located DSize (it + 17) bs s
        }
        else Some (False, bs, s)
      })"
  by pat_completeness auto
termination
  by (relation "measure (\<lambda>(Located, DSize, it, bs, s). unat DSize - it)") auto

text \<open>\<open>AllEfiServicesAvailable\<close>: CoreAllEfiServicesAvailable returns no error.\<close>

definition CoreIsSchedulable ::
  "(EFI_GUID \<Rightarrow> bool) \<Rightarrow> bool \<Rightarrow> EFI_CORE_DRIVER_ENTRY \<Rightarrow> DEPEX_STACK
   \<Rightarrow> (bool \<times> EFI_CORE_DRIVER_ENTRY \<times> DEPEX_STACK) option" where
  "CoreIsSchedulable Located AllEfiServicesAvailable DriverEntry s =
     (if After DriverEntry \<or> Before DriverEntry then Some (False, DriverEntry, s)
      else case Depex DriverEntry of
             None \<Rightarrow> Some (AllEfiServicesAvailable, DriverEntry, s)
           | Some bs \<Rightarrow> do {
               let s = s\<lparr>mDepexEvaluationStackPointer := 0\<rparr>;
               (Result, bs, s) \<leftarrow> IsSchedulable_loop Located (DepexSize DriverEntry) 0 bs s;
               Some (Result, DriverEntry\<lparr>Depex := Some bs\<rparr>, s)
             })"

section \<open>The stack is a stack\<close>

locale bool_stack =
  fixes push :: "bool \<Rightarrow> 's \<Rightarrow> EFI_STATUS \<times> 's"
    and pop :: "'s \<Rightarrow> EFI_STATUS \<times> bool option \<times> 's"
    and inv :: "'s \<Rightarrow> bool"
    and contents :: "'s \<Rightarrow> bool list"
  assumes push_ok: "inv s \<Longrightarrow> push v s = (EFI_SUCCESS, t) \<Longrightarrow> inv t \<and> contents t = v # contents s"
    and push_error: "inv s \<Longrightarrow> push v s = (st, t) \<Longrightarrow> st \<noteq> EFI_SUCCESS \<Longrightarrow> inv t \<and> contents t = contents s"
    and pop_empty: "inv s \<Longrightarrow> contents s = [] \<Longrightarrow> pop s = (EFI_ACCESS_DENIED, None, s)"
    and pop_top: "inv s \<Longrightarrow> contents s = v # vs \<Longrightarrow> \<exists>t. pop s = (EFI_SUCCESS, Some v, t) \<and> inv t \<and> contents t = vs"
begin

lemma pop_after_push:
  assumes "inv s" "push v s = (EFI_SUCCESS, t)"
  shows "\<exists>u. pop t = (EFI_SUCCESS, Some v, u) \<and> inv u \<and> contents u = contents s"
  using push_ok[OF assms] pop_top[of t v "contents s"] by blast

lemma pop_value:
  assumes "inv s" "pop s = (st, Some v, t)"
  shows "contents s = v # contents t \<and> inv t"
proof (cases "contents s")
  case Nil
  then show ?thesis using assms pop_empty by simp
next
  case (Cons w ws)
  then show ?thesis using assms pop_top[OF assms(1) Cons] by auto
qed

lemma pop_none: "inv s \<Longrightarrow> pop s = (st, None, t) \<Longrightarrow> contents s = [] \<and> t = s"
  using pop_empty[of s] pop_top[of s] by (cases "contents s") fastforce+

end

text \<open>A stack that always has room: the allocator never fails.\<close>

locale roomy_stack = bool_stack +
  fixes roomy :: "'s \<Rightarrow> bool"
  assumes roomy_push: "inv s \<Longrightarrow> roomy s \<Longrightarrow> \<exists>t. push v s = (EFI_SUCCESS, t) \<and> roomy t"
    and roomy_pop: "inv s \<Longrightarrow> roomy s \<Longrightarrow> pop s = (st, r, t) \<Longrightarrow> roomy t"
begin

lemma push_succeeds:
  "inv s \<Longrightarrow> roomy s \<Longrightarrow> \<exists>t. push v s = (EFI_SUCCESS, t) \<and> inv t \<and> roomy t \<and> contents t = v # contents s"
  using roomy_push[of s v] push_ok[of s v] by blast

lemma pop_succeeds:
  "inv s \<Longrightarrow> roomy s \<Longrightarrow> contents s = v # vs \<Longrightarrow>
   \<exists>t. pop s = (EFI_SUCCESS, Some v, t) \<and> inv t \<and> roomy t \<and> contents t = vs"
  using pop_top[of s v vs] roomy_pop[of s] by blast

end

definition stack_inv :: "DEPEX_STACK \<Rightarrow> bool" where
  "stack_inv s \<longleftrightarrow> mDepexEvaluationStackPointer s \<le> mDepexEvaluationStackEnd s"

definition stack_of :: "DEPEX_STACK \<Rightarrow> bool list" where
  "stack_of s = rev (take (mDepexEvaluationStackPointer s) (mDepexEvaluationStack s))"

definition pool_roomy :: "DEPEX_STACK \<Rightarrow> bool" where
  "pool_roomy s \<longleftrightarrow> (\<forall>i \<ge> PoolCalls s. Pool s i \<noteq> None)"

lemma grow_stack:
  assumes "GrowDepexStack s = (st, t)"
  shows "mDepexEvaluationStackPointer t = mDepexEvaluationStackPointer s" "Pool t = Pool s" "PoolCalls t = PoolCalls s + 1"
    "st = (if Pool s (PoolCalls s) = None then EFI_OUT_OF_RESOURCES else EFI_SUCCESS)"
    "st = EFI_SUCCESS \<Longrightarrow> length (mDepexEvaluationStack t) = length (mDepexEvaluationStack s) + DEPEX_STACK_SIZE_INCREMENT"
    "\<exists>new. mDepexEvaluationStack t = mDepexEvaluationStack s @ new"
  using assms unfolding GrowDepexStack_def Let_def by (auto split: option.splits if_splits)

lemma push_eq:
  assumes "PushBool v s = (st, t)" "stack_inv s"
  shows "st = EFI_SUCCESS \<Longrightarrow> stack_inv t \<and> stack_of t = v # stack_of s"
    "st \<noteq> EFI_SUCCESS \<Longrightarrow> stack_inv t \<and> stack_of t = stack_of s"
proof -
  obtain st' u where g: "(if mDepexEvaluationStackPointer s = mDepexEvaluationStackEnd s then GrowDepexStack s else (EFI_SUCCESS, s)) = (st', u)"
    by fastforce
  have u: "mDepexEvaluationStackPointer u = mDepexEvaluationStackPointer s" "\<exists>new. mDepexEvaluationStack u = mDepexEvaluationStack s @ new"
    using g grow_stack(1,6)[of s st' u] by (auto split: if_splits)
  then have same: "stack_of u = stack_of s" "stack_inv u" using assms(2) by (auto simp: stack_of_def stack_inv_def)
  have room: "mDepexEvaluationStackPointer u < length (mDepexEvaluationStack u)" if "st' = EFI_SUCCESS"
    using g grow_stack(5)[of s st' u] u(1) assms(2) that by (auto simp: stack_inv_def split: if_splits)
  have t: "(st, t) = (if EFI_ERROR st' then (st', u) else (EFI_SUCCESS, u\<lparr>mDepexEvaluationStack :=
      (mDepexEvaluationStack u)[mDepexEvaluationStackPointer u := v], mDepexEvaluationStackPointer := mDepexEvaluationStackPointer u + 1\<rparr>))"
    using assms(1) unfolding PushBool_def Let_def g by simp
  show "stack_inv t \<and> stack_of t = v # stack_of s" if "st = EFI_SUCCESS"
    using t that room same(1) by (auto simp: EFI_ERROR_def stack_inv_def stack_of_def take_Suc_conv_app_nth split: if_splits)
  show "stack_inv t \<and> stack_of t = stack_of s" if "st \<noteq> EFI_SUCCESS"
    using t that same by (auto split: if_splits)
qed

interpretation depex: roomy_stack PushBool PopBool stack_inv stack_of pool_roomy
proof unfold_locales
  fix s t v st
  show "stack_inv s \<Longrightarrow> PushBool v s = (EFI_SUCCESS, t) \<Longrightarrow> stack_inv t \<and> stack_of t = v # stack_of s"
    using push_eq(1) by blast
  show "stack_inv s \<Longrightarrow> PushBool v s = (st, t) \<Longrightarrow> st \<noteq> EFI_SUCCESS \<Longrightarrow> stack_inv t \<and> stack_of t = stack_of s"
    using push_eq(2) by blast
next
  fix s
  show "stack_of s = [] \<Longrightarrow> PopBool s = (EFI_ACCESS_DENIED, None, s)" if "stack_inv s"
    using that by (auto simp: stack_of_def PopBool_def stack_inv_def)
next
  fix s v vs
  assume inv: "stack_inv s" and c: "stack_of s = v # vs"
  then obtain p where p: "mDepexEvaluationStackPointer s = Suc p" by (cases "mDepexEvaluationStackPointer s") (auto simp: stack_of_def)
  then have "p < length (mDepexEvaluationStack s)" using inv by (simp add: stack_inv_def)
  then show "\<exists>t. PopBool s = (EFI_SUCCESS, Some v, t) \<and> stack_inv t \<and> stack_of t = vs"
    using c p inv by (auto simp: PopBool_def stack_of_def stack_inv_def take_Suc_conv_app_nth)
next
  fix s v
  assume "stack_inv s" and r: "pool_roomy s"
  then show "\<exists>t. PushBool v s = (EFI_SUCCESS, t) \<and> pool_roomy t"
    by (auto simp: PushBool_def Let_def GrowDepexStack_def pool_roomy_def split: option.splits)
next
  fix s st r t
  show "pool_roomy s \<Longrightarrow> PopBool s = (st, r, t) \<Longrightarrow> pool_roomy t" if "stack_inv s"
    by (auto simp: PopBool_def pool_roomy_def Let_def split: if_splits)
qed

text \<open>
  The evaluation stack is a stack of BOOLEANs, whatever the allocator answers: a push that succeeds puts the value on
  top of what was there, also when the buffer had to grow and was moved, a push that fails for lack of memory
  changes nothing, and with memory every push succeeds; a pop returns the top and leaves the rest, and a pop of the empty
  stack is denied.
\<close>

theorem depex_stack_exact:
  assumes "stack_inv s"
  shows "(case PushBool v s of (st, t) \<Rightarrow>
        stack_inv t \<and> stack_of t = (if st = EFI_SUCCESS then v # stack_of s else stack_of s)
        \<and> (pool_roomy s \<longrightarrow> st = EFI_SUCCESS))
    \<and> (case stack_of s of
         [] \<Rightarrow> PopBool s = (EFI_ACCESS_DENIED, None, s)
       | w # ws \<Rightarrow> \<exists>t. PopBool s = (EFI_SUCCESS, Some w, t) \<and> stack_inv t \<and> stack_of t = ws)"
proof -
  obtain st t where p: "PushBool v s = (st, t)" by fastforce
  have "stack_inv t \<and> stack_of t = (if st = EFI_SUCCESS then v # stack_of s else stack_of s)"
    using depex.push_ok[OF assms, of v t] depex.push_error[OF assms p] p by auto
  moreover have "pool_roomy s \<longrightarrow> st = EFI_SUCCESS" using depex.push_succeeds[OF assms, of v] p by auto
  moreover have "case stack_of s of [] \<Rightarrow> PopBool s = (EFI_ACCESS_DENIED, None, s)
       | w # ws \<Rightarrow> \<exists>t. PopBool s = (EFI_SUCCESS, Some w, t) \<and> stack_inv t \<and> stack_of t = ws"
    using depex.pop_empty[OF assms] depex.pop_top[OF assms] by (auto split: list.splits)
  ultimately show ?thesis using p by simp
qed

definition fresh_stack :: DEPEX_STACK where
  "fresh_stack = \<lparr>mDepexEvaluationStack = [], mDepexEvaluationStackPointer = 0, Pool = (\<lambda>_. Some (\<lambda>_. False)), PoolCalls = 0\<rparr>"

lemma fresh_stack_facts: "stack_inv fresh_stack" "pool_roomy fresh_stack" "stack_of fresh_stack = []"
  by (simp_all add: fresh_stack_def stack_inv_def pool_roomy_def stack_of_def)

theorem depex_stack_exact_witness:
  "\<exists>t. PushBool True fresh_stack = (EFI_SUCCESS, t) \<and> stack_of t = [True] \<and> stack_inv t"
  using depex_stack_exact[OF fresh_stack_facts(1), of True] fresh_stack_facts by (auto split: prod.splits)

section \<open>The evaluator computes the value of the expression\<close>

text \<open>Dependency expressions, their postfix code and their value; \<open>Replaced\<close> is a push that has been patched.\<close>

datatype dexp =
    Push "UINT8 list"
  | Replaced "UINT8 list"
  | Const bool
  | Not_op dexp
  | And_op dexp dexp
  | Or_op dexp dexp

fun code :: "dexp \<Rightarrow> UINT8 list" where
  "code (Push g) = EFI_DEP_PUSH # g"
| "code (Replaced g) = EFI_DEP_REPLACE_TRUE # g"
| "code (Const b) = [if b then EFI_DEP_TRUE else EFI_DEP_FALSE]"
| "code (Not_op e) = code e @ [EFI_DEP_NOT]"
| "code (And_op d e) = code d @ code e @ [EFI_DEP_AND]"
| "code (Or_op d e) = code d @ code e @ [EFI_DEP_OR]"

definition guid_of :: "UINT8 list \<Rightarrow> EFI_GUID" where
  "guid_of g = (little_endian (take 8 g), little_endian (take 8 (drop 8 g)))"

fun guids_ok :: "dexp \<Rightarrow> bool" where
  "guids_ok (Push g) = (length g = 16)"
| "guids_ok (Replaced g) = (length g = 16)"
| "guids_ok (Const b) = True"
| "guids_ok (Not_op e) = guids_ok e"
| "guids_ok (And_op d e) = (guids_ok d \<and> guids_ok e)"
| "guids_ok (Or_op d e) = (guids_ok d \<and> guids_ok e)"

fun dvalue :: "(EFI_GUID \<Rightarrow> bool) \<Rightarrow> dexp \<Rightarrow> bool" where
  "dvalue L (Push g) = L (guid_of g)"
| "dvalue L (Replaced g) = True"
| "dvalue L (Const b) = b"
| "dvalue L (Not_op e) = (\<not> dvalue L e)"
| "dvalue L (And_op d e) = (dvalue L d \<and> dvalue L e)"
| "dvalue L (Or_op d e) = (dvalue L d \<or> dvalue L e)"

fun patched :: "(EFI_GUID \<Rightarrow> bool) \<Rightarrow> dexp \<Rightarrow> dexp" where
  "patched L (Push g) = (if L (guid_of g) then Replaced g else Push g)"
| "patched L (Not_op e) = Not_op (patched L e)"
| "patched L (And_op d e) = And_op (patched L d) (patched L e)"
| "patched L (Or_op d e) = Or_op (patched L d) (patched L e)"
| "patched L e = e"

lemma length_code_patched [simp]: "length (code (patched L e)) = length (code e)"
  by (induction e) auto

lemma dvalue_patched: "dvalue L' (patched L e) = dvalue (\<lambda>g. L g \<or> L' g) e"
  by (induction e) auto

lemma read_at [simp]: "ReadByte (pre @ b # post) (length pre) = Some b"
  by (simp add: ReadByte_def)

lemma guid_at: "length g = 16 \<Longrightarrow> CopyGuid (pre @ b # g @ post) (Suc (length pre)) = Some (guid_of g)"
  by (simp add: CopyGuid_def guid_of_def)

lemma push_or_return_ready:
  assumes "stack_inv s" "pool_roomy s"
  obtains t where "push_or_return v s = Inr t" "stack_inv t" "pool_roomy t" "stack_of t = v # stack_of s"
  using depex.push_succeeds[OF assms, of v] by (auto simp: push_or_return_def)

lemma unary_op_ready:
  assumes "stack_inv s" "pool_roomy s" "stack_of s = v # vs"
  obtains t where "unary_op f s = Inr t" "stack_inv t" "pool_roomy t" "stack_of t = f v # vs"
proof -
  obtain u where u: "PopBool s = (EFI_SUCCESS, Some v, u)" "stack_inv u" "pool_roomy u" "stack_of u = vs"
    using depex.pop_succeeds[OF assms] by blast
  then show thesis using push_or_return_ready[OF u(2,3), of "f v"] that by (auto simp: unary_op_def)
qed

lemma binary_op_ready:
  assumes "stack_inv s" "pool_roomy s" "stack_of s = v # w # vs"
  obtains t where "binary_op f s = Inr t" "stack_inv t" "pool_roomy t" "stack_of t = f v w # vs"
proof -
  obtain u where u: "PopBool s = (EFI_SUCCESS, Some v, u)" "stack_inv u" "pool_roomy u" "stack_of u = w # vs"
    using depex.pop_succeeds[OF assms] by blast
  obtain x where x: "PopBool u = (EFI_SUCCESS, Some w, x)" "stack_inv x" "pool_roomy x" "stack_of x = vs"
    using depex.pop_succeeds[OF u(2-4)] by blast
  then show thesis using push_or_return_ready[OF x(2,3), of "f v w"] that u(1) by (auto simp: binary_op_def)
qed

declare IsSchedulable_loop.simps [simp del]

lemma eval_operator:
  assumes "length pre < unat DSize"
  shows "unary_op Not s = Inr t \<Longrightarrow> IsSchedulable_loop L DSize (length pre) (pre @ EFI_DEP_NOT # post) s =
      IsSchedulable_loop L DSize (length pre + 1) (pre @ EFI_DEP_NOT # post) t"
    "binary_op (\<and>) s = Inr t \<Longrightarrow> IsSchedulable_loop L DSize (length pre) (pre @ EFI_DEP_AND # post) s =
      IsSchedulable_loop L DSize (length pre + 1) (pre @ EFI_DEP_AND # post) t"
    "binary_op (\<or>) s = Inr t \<Longrightarrow> IsSchedulable_loop L DSize (length pre) (pre @ EFI_DEP_OR # post) s =
      IsSchedulable_loop L DSize (length pre + 1) (pre @ EFI_DEP_OR # post) t"
  by (subst IsSchedulable_loop.simps, use assms in simp)+

text \<open>A piece of code that evaluates to its value on top of the stack, wherever it stands.\<close>

definition evaluates :: "(EFI_GUID \<Rightarrow> bool) \<Rightarrow> UINTN \<Rightarrow> dexp \<Rightarrow> bool" where
  "evaluates L DSize e \<longleftrightarrow> (\<forall>pre post s. length pre + length (code e) \<le> unat DSize \<longrightarrow> stack_inv s \<longrightarrow> pool_roomy s \<longrightarrow>
     (\<exists>t. IsSchedulable_loop L DSize (length pre) (pre @ code e @ post) s =
        IsSchedulable_loop L DSize (length pre + length (code e)) (pre @ code (patched L e) @ post) t
      \<and> stack_inv t \<and> pool_roomy t \<and> stack_of t = dvalue L e # stack_of s))"

lemma evaluatesD:
  assumes "evaluates L DSize e" "length pre + length (code e) \<le> unat DSize" "stack_inv s" "pool_roomy s"
  obtains t where "IsSchedulable_loop L DSize (length pre) (pre @ code e @ post) s =
      IsSchedulable_loop L DSize (length pre + length (code e)) (pre @ code (patched L e) @ post) t"
    "stack_inv t" "pool_roomy t" "stack_of t = dvalue L e # stack_of s"
  using assms unfolding evaluates_def by blast

lemma evaluates_by_push:
  assumes step: "\<And>pre post s. length pre < unat DSize \<Longrightarrow> IsSchedulable_loop L DSize (length pre) (pre @ code e @ post) s =
      (case push_or_return (dvalue L e) s of Inl s \<Rightarrow> Some (False, pre @ code (patched L e) @ post, s)
       | Inr s \<Rightarrow> IsSchedulable_loop L DSize (length pre + length (code e)) (pre @ code (patched L e) @ post) s)"
    and "code e \<noteq> []"
  shows "evaluates L DSize e"
  unfolding evaluates_def
proof (intro allI impI)
  fix pre post :: "UINT8 list" and s
  assume n: "length pre + length (code e) \<le> unat DSize" and s: "stack_inv s" "pool_roomy s"
  have "length pre < unat DSize" using n assms(2) by (cases "code e") simp_all
  moreover obtain t where "push_or_return (dvalue L e) s = Inr t" "stack_inv t" "pool_roomy t" "stack_of t = dvalue L e # stack_of s"
    using push_or_return_ready[OF s] by blast
  ultimately show "\<exists>t. IsSchedulable_loop L DSize (length pre) (pre @ code e @ post) s =
      IsSchedulable_loop L DSize (length pre + length (code e)) (pre @ code (patched L e) @ post) t
    \<and> stack_inv t \<and> pool_roomy t \<and> stack_of t = dvalue L e # stack_of s"
    using step[of pre post s] by (intro exI[of _ t]) simp
qed

lemma evaluates_leaf:
  "length g = 16 \<Longrightarrow> evaluates L DSize (Push g)" "length g = 16 \<Longrightarrow> evaluates L DSize (Replaced g)" "evaluates L DSize (Const b)"
proof -
  show "evaluates L DSize (Push g)" if "length g = 16"
    by (rule evaluates_by_push; (subst IsSchedulable_loop.simps)?) (use guid_at[OF that] that in \<open>simp_all add: Let_def split: sum.split\<close>)
  show "evaluates L DSize (Replaced g)" if "length g = 16"
    by (rule evaluates_by_push; (subst IsSchedulable_loop.simps)?) (use guid_at[OF that] that in \<open>simp_all split: sum.split\<close>)
  show "evaluates L DSize (Const b)"
    by (cases b; rule evaluates_by_push; (subst IsSchedulable_loop.simps)?) (simp_all split: sum.split)
qed

lemma evaluates_two:
  assumes "evaluates L DSize d" "evaluates L DSize e" "length pre + length (code d) + length (code e) \<le> unat DSize" "stack_inv s" "pool_roomy s"
  obtains t where "IsSchedulable_loop L DSize (length pre) (pre @ code d @ code e @ post) s =
      IsSchedulable_loop L DSize (length (pre @ code (patched L d) @ code (patched L e))) ((pre @ code (patched L d) @ code (patched L e)) @ post) t"
    "stack_inv t" "pool_roomy t" "stack_of t = dvalue L e # dvalue L d # stack_of s"
proof -
  obtain u where u: "IsSchedulable_loop L DSize (length pre) (pre @ code d @ code e @ post) s =
      IsSchedulable_loop L DSize (length pre + length (code d)) (pre @ code (patched L d) @ code e @ post) u"
    "stack_inv u" "pool_roomy u" "stack_of u = dvalue L d # stack_of s"
    using evaluatesD[OF assms(1) _ assms(4,5), of pre "code e @ post"] assms(3) by auto
  then show thesis
    using evaluatesD[OF assms(2) _ u(2,3), of "pre @ code (patched L d)" post] assms(3) that by (auto simp: add.assoc)
qed

lemma eval_code:
  assumes "guids_ok e"
  shows "evaluates L DSize e"
  using assms
proof (induction e)
  case (Not_op e)
  show ?case
    unfolding evaluates_def
  proof (intro allI impI)
    fix pre post :: "UINT8 list" and s
    assume n: "length pre + length (code (Not_op e)) \<le> unat DSize" and s: "stack_inv s" "pool_roomy s"
    obtain t where t: "IsSchedulable_loop L DSize (length pre) (pre @ code e @ EFI_DEP_NOT # post) s =
        IsSchedulable_loop L DSize (length pre + length (code e)) (pre @ code (patched L e) @ EFI_DEP_NOT # post) t"
      "stack_inv t" "pool_roomy t" "stack_of t = dvalue L e # stack_of s"
      using evaluatesD[OF Not_op.IH _ s, of pre "EFI_DEP_NOT # post"] Not_op.prems n by auto
    obtain u where "unary_op Not t = Inr u" "stack_inv u" "pool_roomy u" "stack_of u = (\<not> dvalue L e) # stack_of s"
      using unary_op_ready[OF t(2-4), of Not] by blast
    then show "\<exists>t. IsSchedulable_loop L DSize (length pre) (pre @ code (Not_op e) @ post) s =
        IsSchedulable_loop L DSize (length pre + length (code (Not_op e))) (pre @ code (patched L (Not_op e)) @ post) t
      \<and> stack_inv t \<and> pool_roomy t \<and> stack_of t = dvalue L (Not_op e) # stack_of s"
      using t(1) eval_operator(1)[of "pre @ code (patched L e)" DSize t u L post] n by (intro exI[of _ u]) (simp add: add.assoc)
  qed
next
  case (And_op d e)
  show ?case
    unfolding evaluates_def
  proof (intro allI impI)
    fix pre post :: "UINT8 list" and s
    assume n: "length pre + length (code (And_op d e)) \<le> unat DSize" and s: "stack_inv s" "pool_roomy s"
    let ?p = "pre @ code (patched L d) @ code (patched L e)"
    obtain u where u: "IsSchedulable_loop L DSize (length pre) (pre @ code d @ code e @ EFI_DEP_AND # post) s =
        IsSchedulable_loop L DSize (length ?p) (?p @ EFI_DEP_AND # post) u"
      "stack_inv u" "pool_roomy u" "stack_of u = dvalue L e # dvalue L d # stack_of s"
      using evaluates_two[OF And_op.IH _ s, of pre "EFI_DEP_AND # post"] And_op.prems n by auto
    obtain w where "binary_op (\<and>) u = Inr w" "stack_inv w" "pool_roomy w" "stack_of w = (dvalue L e \<and> dvalue L d) # stack_of s"
      using binary_op_ready[OF u(2-4), of "(\<and>)"] by blast
    then show "\<exists>t. IsSchedulable_loop L DSize (length pre) (pre @ code (And_op d e) @ post) s =
        IsSchedulable_loop L DSize (length pre + length (code (And_op d e))) (pre @ code (patched L (And_op d e)) @ post) t
      \<and> stack_inv t \<and> pool_roomy t \<and> stack_of t = dvalue L (And_op d e) # stack_of s"
      using u(1) eval_operator(2)[of ?p DSize u w L post] n by (intro exI[of _ w]) (simp add: add.assoc conj_commute)
  qed
next
  case (Or_op d e)
  show ?case
    unfolding evaluates_def
  proof (intro allI impI)
    fix pre post :: "UINT8 list" and s
    assume n: "length pre + length (code (Or_op d e)) \<le> unat DSize" and s: "stack_inv s" "pool_roomy s"
    let ?p = "pre @ code (patched L d) @ code (patched L e)"
    obtain u where u: "IsSchedulable_loop L DSize (length pre) (pre @ code d @ code e @ EFI_DEP_OR # post) s =
        IsSchedulable_loop L DSize (length ?p) (?p @ EFI_DEP_OR # post) u"
      "stack_inv u" "pool_roomy u" "stack_of u = dvalue L e # dvalue L d # stack_of s"
      using evaluates_two[OF Or_op.IH _ s, of pre "EFI_DEP_OR # post"] Or_op.prems n by auto
    obtain w where "binary_op (\<or>) u = Inr w" "stack_inv w" "pool_roomy w" "stack_of w = (dvalue L e \<or> dvalue L d) # stack_of s"
      using binary_op_ready[OF u(2-4), of "(\<or>)"] by blast
    then show "\<exists>t. IsSchedulable_loop L DSize (length pre) (pre @ code (Or_op d e) @ post) s =
        IsSchedulable_loop L DSize (length pre + length (code (Or_op d e))) (pre @ code (patched L (Or_op d e)) @ post) t
      \<and> stack_inv t \<and> pool_roomy t \<and> stack_of t = dvalue L (Or_op d e) # stack_of s"
      using u(1) eval_operator(3)[of ?p DSize u w L post] n by (intro exI[of _ w]) (simp add: add.assoc disj_commute)
  qed
qed (simp_all add: evaluates_leaf)

lemma eval_end:
  assumes "length pre < unat DSize" "stack_inv s" "pool_roomy s" "stack_of s = v # vs"
  obtains t where "IsSchedulable_loop L DSize (length pre) (pre @ EFI_DEP_END # post) s = Some (v, pre @ EFI_DEP_END # post, t)"
    "stack_inv t" "pool_roomy t" "stack_of t = vs"
proof -
  obtain t where t: "PopBool s = (EFI_SUCCESS, Some v, t)" "stack_inv t" "pool_roomy t" "stack_of t = vs"
    using depex.pop_succeeds[OF assms(2-4)] by blast
  then have "IsSchedulable_loop L DSize (length pre) (pre @ EFI_DEP_END # post) s = Some (v, pre @ EFI_DEP_END # post, t)"
    using assms(1) by (subst IsSchedulable_loop.simps) simp
  with t that show thesis by blast
qed

lemma depex_run:
  assumes d: "\<not> After d" "\<not> Before d" "Depex d = Some (sor @ code e @ EFI_DEP_END # rest)" "sor = [] \<or> sor = [EFI_DEP_SOR]"
    and e: "guids_ok e" "length sor + length (code e) < unat (DepexSize d)" and s: "pool_roomy s"
  shows "\<exists>t. CoreIsSchedulable L AllAvailable d s =
      Some (dvalue L e, d\<lparr>Depex := Some (sor @ code (patched L e) @ EFI_DEP_END # rest)\<rparr>, t)
    \<and> stack_inv t \<and> pool_roomy t \<and> stack_of t = []"
proof -
  let ?s = "s\<lparr>mDepexEvaluationStackPointer := 0\<rparr>"
  let ?post = "EFI_DEP_END # rest"
  have s0: "stack_inv ?s" "pool_roomy ?s" "stack_of ?s = []" using s by (simp_all add: stack_inv_def pool_roomy_def stack_of_def)
  have start: "IsSchedulable_loop L (DepexSize d) 0 (sor @ code e @ ?post) ?s =
      IsSchedulable_loop L (DepexSize d) (length sor) (sor @ code e @ ?post) ?s"
    using d(4) e(2) by (elim disjE) (simp, subst IsSchedulable_loop.simps, simp add: ReadByte_def)
  obtain t where t: "IsSchedulable_loop L (DepexSize d) (length sor) (sor @ code e @ ?post) ?s =
      IsSchedulable_loop L (DepexSize d) (length sor + length (code e)) (sor @ code (patched L e) @ ?post) t"
    "stack_inv t" "pool_roomy t" "stack_of t = [dvalue L e]"
    using evaluatesD[OF eval_code[OF e(1), of L "DepexSize d"] _ s0(1,2), of sor ?post] e(2) s0(3) by auto
  obtain u where "IsSchedulable_loop L (DepexSize d) (length (sor @ code (patched L e))) ((sor @ code (patched L e)) @ ?post) t =
      Some (dvalue L e, (sor @ code (patched L e)) @ ?post, u)" "stack_inv u" "pool_roomy u" "stack_of u = []"
    using eval_end[OF _ t(2-4), of "sor @ code (patched L e)" "DepexSize d" L rest] e(2) by auto
  then show ?thesis using start t(1) d by (simp add: CoreIsSchedulable_def)
qed

text \<open>
  (C32) The evaluator computes the value of the expression: on the postfix code of an expression, after an optional leading
  SOR and up to its END, with memory for the stack, CoreIsSchedulable answers the value of the expression in which a pushed GUID
  is true when its protocol is installed; it leaves the stack empty and patches exactly the pushes
  of installed protocols, so that a later evaluation answers the value with every protocol that was installed then or is now.
\<close>

theorem depex_evaluates:
  assumes d: "\<not> After d" "\<not> Before d" "Depex d = Some (sor @ code e @ EFI_DEP_END # rest)" "sor = [] \<or> sor = [EFI_DEP_SOR]"
    and e: "guids_ok e" "length sor + length (code e) < unat (DepexSize d)" and s: "pool_roomy s"
  shows "\<exists>t. CoreIsSchedulable L AllAvailable d s =
      Some (dvalue L e, d\<lparr>Depex := Some (sor @ code (patched L e) @ EFI_DEP_END # rest)\<rparr>, t)
    \<and> stack_inv t \<and> pool_roomy t \<and> stack_of t = []
    \<and> (\<forall>L'. dvalue L' (patched L e) = dvalue (\<lambda>g. L g \<or> L' g) e)"
  using depex_run[OF assms] dvalue_patched by blast

text \<open>The expression "protocol (1, 2) and not false", for a driver.\<close>

definition sample_guid :: "UINT8 list" where
  "sample_guid = [1, 0, 0, 0, 0, 0, 0, 0, 2, 0, 0, 0, 0, 0, 0, 0]"

definition sample_entry :: "EFI_CORE_DRIVER_ENTRY" where
  "sample_entry = \<lparr>Depex = Some ([EFI_DEP_SOR] @ code (And_op (Push sample_guid) (Not_op (Const False))) @ [EFI_DEP_END]), DepexSize = 22,
     Before = False, After = False, BeforeAfterGuid = (0, 0), Dependent = False, Unrequested = True\<rparr>"

theorem depex_evaluates_witness:
  "\<exists>t. CoreIsSchedulable (\<lambda>g. g = (1, 2)) False sample_entry fresh_stack =
     Some (True, sample_entry\<lparr>Depex := Some ([EFI_DEP_SOR, EFI_DEP_REPLACE_TRUE] @ sample_guid @
        [EFI_DEP_FALSE, EFI_DEP_NOT, EFI_DEP_AND, EFI_DEP_END])\<rparr>, t)"
  using depex_evaluates[where d = sample_entry and sor = "[EFI_DEP_SOR]" and e = "And_op (Push sample_guid) (Not_op (Const False))"
      and rest = "[]" and L = "\<lambda>g. g = (1, 2)" and AllAvailable = False, OF _ _ _ _ _ _ fresh_stack_facts(2)]
  by (auto simp: sample_entry_def sample_guid_def guid_of_def)

section \<open>No schedule on a malformed expression\<close>

text \<open>
  The machine the code stands for, on an offset and a list: one step per complete and known opcode with its
  operands on the stack.
\<close>

inductive depex_step :: "(EFI_GUID \<Rightarrow> bool) \<Rightarrow> UINT8 list \<Rightarrow> nat \<Rightarrow> nat \<times> bool list \<Rightarrow> nat \<times> bool list \<Rightarrow> bool"
  for L :: "EFI_GUID \<Rightarrow> bool" and bs :: "UINT8 list" and n :: nat where
  Sor: "0 < n \<Longrightarrow> bs ! 0 = EFI_DEP_SOR \<Longrightarrow> depex_step L bs n (0, vs) (1, vs)"
| Push: "it < n \<Longrightarrow> bs ! it = EFI_DEP_PUSH \<Longrightarrow> CopyGuid bs (it + 1) = Some g \<Longrightarrow> depex_step L bs n (it, vs) (it + 17, L g # vs)"
| Replaced: "it < n \<Longrightarrow> bs ! it = EFI_DEP_REPLACE_TRUE \<Longrightarrow> CopyGuid bs (it + 1) = Some g \<Longrightarrow> depex_step L bs n (it, vs) (it + 17, True # vs)"
| And: "it < n \<Longrightarrow> bs ! it = EFI_DEP_AND \<Longrightarrow> depex_step L bs n (it, v # w # vs) (it + 1, (v \<and> w) # vs)"
| Or: "it < n \<Longrightarrow> bs ! it = EFI_DEP_OR \<Longrightarrow> depex_step L bs n (it, v # w # vs) (it + 1, (v \<or> w) # vs)"
| Not: "it < n \<Longrightarrow> bs ! it = EFI_DEP_NOT \<Longrightarrow> depex_step L bs n (it, v # vs) (it + 1, (\<not> v) # vs)"
| True: "it < n \<Longrightarrow> bs ! it = EFI_DEP_TRUE \<Longrightarrow> depex_step L bs n (it, vs) (it + 1, True # vs)"
| False: "it < n \<Longrightarrow> bs ! it = EFI_DEP_FALSE \<Longrightarrow> depex_step L bs n (it, vs) (it + 1, False # vs)"

definition accepts :: "(EFI_GUID \<Rightarrow> bool) \<Rightarrow> UINT8 list \<Rightarrow> nat \<Rightarrow> nat \<times> bool list \<Rightarrow> bool" where
  "accepts L bs n c \<longleftrightarrow> (\<exists>it vs. (depex_step L bs n)\<^sup>*\<^sup>* c (it, True # vs) \<and> it < n \<and> it < length bs \<and> bs ! it = EFI_DEP_END)"

lemma accepts_step: "depex_step L bs n c c' \<Longrightarrow> accepts L bs n c' \<Longrightarrow> accepts L bs n c"
  unfolding accepts_def by (meson converse_rtranclp_into_rtranclp)

lemma push_or_return_Inr: "stack_inv s \<Longrightarrow> push_or_return v s = Inr t \<Longrightarrow> stack_inv t \<and> stack_of t = v # stack_of s"
  using depex.push_ok[of s v t] by (auto simp: push_or_return_def EFI_ERROR_def split: if_splits prod.splits)

lemma unary_op_Inr:
  assumes s: "stack_inv s" and op: "unary_op f s = Inr t"
  obtains v vs where "stack_inv t" "stack_of s = v # vs" "stack_of t = f v # vs"
proof -
  obtain st r u where p: "PopBool s = (st, r, u)" by (cases "PopBool s")
  then obtain v where r: "r = Some v" and push: "push_or_return (f v) u = Inr t" using op by (cases r) (simp_all add: unary_op_def)
  note top = depex.pop_value[OF s, of st v u]
  then have "stack_inv t \<and> stack_of t = f v # stack_of u" using p r push_or_return_Inr[OF _ push] by simp
  then show thesis using that[of v "stack_of u"] top p r by simp
qed

lemma binary_op_Inr:
  assumes s: "stack_inv s" and op: "binary_op f s = Inr t"
  obtains v w vs where "stack_inv t" "stack_of s = v # w # vs" "stack_of t = f v w # vs"
proof -
  obtain st r u where p: "PopBool s = (st, r, u)" by (cases "PopBool s")
  then obtain v where r: "r = Some v" using op by (cases r) (simp_all add: binary_op_def)
  have top: "stack_of s = v # stack_of u" "stack_inv u" using depex.pop_value[OF s, of st v u] p r by simp_all
  obtain st' r' x where q: "PopBool u = (st', r', x)" by (cases "PopBool u")
  then obtain w where r': "r' = Some w" and push: "push_or_return (f v w) x = Inr t"
    using op p r by (cases r') (simp_all add: binary_op_def)
  have "stack_of u = w # stack_of x" "stack_inv x" using depex.pop_value[OF top(2), of st' w x] q r' by simp_all
  then show thesis using that[of v w "stack_of x"] top(1) push_or_return_Inr[OF _ push] by simp
qed

text \<open>What the loop has still to read is what the original expression has there.\<close>

definition same_from :: "nat \<Rightarrow> UINT8 list \<Rightarrow> UINT8 list \<Rightarrow> bool" where
  "same_from it bs bs0 \<longleftrightarrow> length bs = length bs0 \<and> drop it bs = drop it bs0"

lemma same_from_nth: "same_from it bs bs0 \<Longrightarrow> it \<le> k \<Longrightarrow> k < length bs \<Longrightarrow> bs ! k = bs0 ! k"
  using nth_drop[of it bs "k - it"] nth_drop[of it bs0 "k - it"] by (simp add: same_from_def)

lemma same_from_later: "same_from it bs bs0 \<Longrightarrow> it \<le> k \<Longrightarrow> same_from k bs bs0"
  unfolding same_from_def by (metis drop_drop le_add_diff_inverse2)

lemma same_from_patch: "same_from it bs bs0 \<Longrightarrow> same_from (it + 17) (bs[it := b]) bs0"
  using same_from_later[of it bs bs0 "it + 17"] by (simp add: same_from_def)

lemma same_from_guid: "same_from it bs bs0 \<Longrightarrow> CopyGuid bs (it + 1) = CopyGuid bs0 (it + 1)"
proof -
  assume a: "same_from it bs bs0"
  have "drop (it + 1) bs = drop (it + 1) bs0" "drop (it + 1 + 8) bs = drop (it + 1 + 8) bs0"
    using same_from_later[OF a, of "it + 1"] same_from_later[OF a, of "it + 1 + 8"] by (simp_all add: same_from_def)
  then show ?thesis using a by (simp add: CopyGuid_def same_from_def)
qed

lemma loop_accepts:
  assumes "IsSchedulable_loop L DSize it bs s = Some (True, bs', s')" "stack_inv s" "same_from it bs bs0"
  shows "accepts L bs0 (unat DSize) (it, stack_of s)"
  using assms
proof (induction "unat DSize - it" arbitrary: it bs s rule: less_induct)
  case less
  note loop = less.prems(1)[unfolded IsSchedulable_loop.simps[of L DSize it bs s]]
  have it: "it < unat DSize" using loop by (auto split: if_splits)
  obtain op where op: "ReadByte bs it = Some op" using loop it by (cases "ReadByte bs it") simp_all
  then have b0: "bs0 ! it = op" "it < length bs0"
    using same_from_nth[OF less.prems(3), of it] less.prems(3) by (auto simp: ReadByte_def same_from_def split: if_splits)
  have IH: "accepts L bs0 (unat DSize) (k, stack_of t)"
    if "IsSchedulable_loop L DSize k cs t = Some (True, bs', s')" "stack_inv t" "same_from k cs bs0" "it < k" for k cs t
    using less.hyps[OF _ that(1-3)] that(4) it by simp
  have later: "same_from (it + 1) bs bs0" "same_from (it + 17) bs bs0" using same_from_later[OF less.prems(3)] by simp_all
  note guid = same_from_guid[OF less.prems(3)]
  have not_ba: "op \<noteq> EFI_DEP_BEFORE" "op \<noteq> EFI_DEP_AFTER" using loop op it by auto
  note facts = loop[unfolded op] it less.prems(2) not_ba
  consider "op = EFI_DEP_SOR" | "op = EFI_DEP_PUSH" | "op = EFI_DEP_AND" | "op = EFI_DEP_OR" | "op = EFI_DEP_NOT"
    | "op = EFI_DEP_TRUE" | "op = EFI_DEP_FALSE" | "op = EFI_DEP_END" | "op = EFI_DEP_REPLACE_TRUE"
    using facts by (auto split: if_splits)
  then show ?case
  proof cases
    case 1
    then have "it = 0" "IsSchedulable_loop L DSize 1 bs s = Some (True, bs', s')" using facts by (auto split: if_splits)
    then show ?thesis using IH[of 1 bs s] later(1) less.prems(2) b0 1 it by (auto intro!: accepts_step[OF depex_step.Sor])
  next
    case 2
    then obtain g cs t where g: "CopyGuid bs (it + 1) = Some g" "push_or_return (L g) s = Inr t" "IsSchedulable_loop L DSize (it + 17) cs t = Some (True, bs', s')"
      "cs = (if L g then bs[it := EFI_DEP_REPLACE_TRUE] else bs)"
      using facts by (cases "CopyGuid bs (it + 1)") (auto simp: Let_def split: if_splits sum.splits)
    then have "same_from (it + 17) cs bs0" using later(2) same_from_patch[OF less.prems(3)] by simp
    then have a: "accepts L bs0 (unat DSize) (it + 17, L g # stack_of s)"
      using IH[OF g(3)] push_or_return_Inr[OF less.prems(2) g(2)] by simp
    show ?thesis by (rule accepts_step[OF depex_step.Push[OF it] a]) (use b0 2 g(1) guid in simp_all)
  next
    case 3
    then obtain t where t: "binary_op (\<and>) s = Inr t" "IsSchedulable_loop L DSize (it + 1) bs t = Some (True, bs', s')"
      using facts by (auto split: sum.splits)
    obtain v w vs where "stack_inv t" "stack_of s = v # w # vs" "stack_of t = (v \<and> w) # vs" using binary_op_Inr[OF less.prems(2) t(1)] by blast
    then have a: "accepts L bs0 (unat DSize) (it + 1, (v \<and> w) # vs)" and c: "stack_of s = v # w # vs" using IH[OF t(2)] later(1) by simp_all
    show ?thesis unfolding c by (rule accepts_step[OF depex_step.And[OF it] a]) (use b0 3 in simp)
  next
    case 4
    then obtain t where t: "binary_op (\<or>) s = Inr t" "IsSchedulable_loop L DSize (it + 1) bs t = Some (True, bs', s')"
      using facts by (auto split: sum.splits)
    obtain v w vs where "stack_inv t" "stack_of s = v # w # vs" "stack_of t = (v \<or> w) # vs" using binary_op_Inr[OF less.prems(2) t(1)] by blast
    then have a: "accepts L bs0 (unat DSize) (it + 1, (v \<or> w) # vs)" and c: "stack_of s = v # w # vs" using IH[OF t(2)] later(1) by simp_all
    show ?thesis unfolding c by (rule accepts_step[OF depex_step.Or[OF it] a]) (use b0 4 in simp)
  next
    case 5
    then obtain t where t: "unary_op Not s = Inr t" "IsSchedulable_loop L DSize (it + 1) bs t = Some (True, bs', s')"
      using facts by (auto split: sum.splits)
    obtain v vs where "stack_inv t" "stack_of s = v # vs" "stack_of t = (\<not> v) # vs" using unary_op_Inr[OF less.prems(2) t(1)] by blast
    then have a: "accepts L bs0 (unat DSize) (it + 1, (\<not> v) # vs)" and c: "stack_of s = v # vs" using IH[OF t(2)] later(1) by simp_all
    show ?thesis unfolding c by (rule accepts_step[OF depex_step.Not[OF it] a]) (use b0 5 in simp)
  next
    case 6
    then obtain t where t: "push_or_return True s = Inr t" "IsSchedulable_loop L DSize (it + 1) bs t = Some (True, bs', s')"
      using facts by (auto split: sum.splits)
    then have a: "accepts L bs0 (unat DSize) (it + 1, True # stack_of s)"
      using IH[OF t(2)] push_or_return_Inr[OF less.prems(2) t(1)] later(1) by simp
    show ?thesis by (rule accepts_step[OF depex_step.True[OF it] a]) (use b0 6 in simp)
  next
    case 7
    then obtain t where t: "push_or_return False s = Inr t" "IsSchedulable_loop L DSize (it + 1) bs t = Some (True, bs', s')"
      using facts by (auto split: sum.splits)
    then have a: "accepts L bs0 (unat DSize) (it + 1, False # stack_of s)"
      using IH[OF t(2)] push_or_return_Inr[OF less.prems(2) t(1)] later(1) by simp
    show ?thesis by (rule accepts_step[OF depex_step.False[OF it] a]) (use b0 7 in simp)
  next
    case 8
    then obtain st t where "PopBool s = (st, Some True, t)" using facts by (auto split: option.splits prod.splits)
    then have "stack_of s = True # stack_of t" using depex.pop_value[OF less.prems(2)] by simp
    then show ?thesis using 8 b0 it by (auto simp: accepts_def)
  next
    case 9
    then obtain g t where g: "CopyGuid bs (it + 1) = Some g" "push_or_return True s = Inr t" "IsSchedulable_loop L DSize (it + 17) bs t = Some (True, bs', s')"
      using facts by (cases "CopyGuid bs (it + 1)") (auto split: sum.splits)
    then have a: "accepts L bs0 (unat DSize) (it + 17, True # stack_of s)"
      using IH[OF g(3)] push_or_return_Inr[OF less.prems(2) g(2)] later(2) by simp
    show ?thesis by (rule accepts_step[OF depex_step.Replaced[OF it, where g = g] a]) (use b0 9 g(1) guid in simp_all)
  qed
qed

text \<open>
  (C33) No driver is scheduled by a malformed expression, whatever its bytes and whether or not memory is short: when
  CoreIsSchedulable answers TRUE for an expression, the driver has neither a BEFORE nor an AFTER dependency, and the machine
  runs from the first byte, over known and complete opcodes inside the expression that find their operands, to an END
  with TRUE on top of the stack. A missing END, an unknown opcode, a SOR that is not first, or a stack underflow never
  schedules.
\<close>

theorem depex_true_is_accepted:
  assumes "CoreIsSchedulable L AllAvailable d s = Some (True, d', t)" "Depex d = Some bs"
  shows "\<not> After d \<and> \<not> Before d \<and> accepts L bs (unat (DepexSize d)) (0, [])"
proof -
  let ?s = "s\<lparr>mDepexEvaluationStackPointer := 0\<rparr>"
  have "\<not> After d \<and> \<not> Before d" using assms(1) by (auto simp: CoreIsSchedulable_def split: if_splits)
  moreover from this obtain bs' where "IsSchedulable_loop L (DepexSize d) 0 bs ?s = Some (True, bs', t)"
    using assms by (auto simp: CoreIsSchedulable_def Let_def split: bind_splits)
  moreover have "stack_inv ?s" "stack_of ?s = []" "same_from 0 bs bs" by (simp_all add: stack_inv_def stack_of_def same_from_def)
  ultimately show ?thesis using loop_accepts[of L "DepexSize d" 0 bs ?s] by simp
qed

theorem depex_true_is_accepted_witness:
  "accepts (\<lambda>_. True) [EFI_DEP_TRUE, EFI_DEP_END] 2 (0, [])"
proof -
  let ?d = "\<lparr>Depex = Some [EFI_DEP_TRUE, EFI_DEP_END], DepexSize = 2, Before = False, After = False, BeforeAfterGuid = (0, 0),
    Dependent = True, Unrequested = False\<rparr>"
  obtain t where "CoreIsSchedulable (\<lambda>_. True) True ?d fresh_stack = Some (True, ?d, t)"
  proof -
    let ?s = "fresh_stack\<lparr>mDepexEvaluationStackPointer := 0\<rparr>"
    have s: "stack_inv ?s" "pool_roomy ?s" using fresh_stack_facts by (simp_all add: fresh_stack_def)
    obtain u where u: "IsSchedulable_loop (\<lambda>_. True) 2 0 [EFI_DEP_TRUE, EFI_DEP_END] ?s = IsSchedulable_loop (\<lambda>_. True) 2 1 [EFI_DEP_TRUE, EFI_DEP_END] u"
      "stack_inv u" "pool_roomy u" "stack_of u = True # stack_of ?s"
      using evaluatesD[OF evaluates_leaf(3)[of "\<lambda>_. True" 2 True] _ s, where pre = "[]" and post = "[EFI_DEP_END]"] by auto
    obtain v where "IsSchedulable_loop (\<lambda>_. True) 2 1 [EFI_DEP_TRUE, EFI_DEP_END] u = Some (True, [EFI_DEP_TRUE, EFI_DEP_END], v)"
      using eval_end[OF _ u(2-4), where pre = "[EFI_DEP_TRUE]" and post = "[]" and DSize = 2 and L = "\<lambda>_. True"] by auto
    then show thesis using u(1) by (intro that[of v]) (simp add: CoreIsSchedulable_def)
  qed
  from depex_true_is_accepted[OF this] show ?thesis by simp
qed

text \<open>
  The evaluator checks the offset of an opcode against DepexSize, not the GUID behind it: a PUSH with fewer than sixteen
  bytes left reads outside the expression.
\<close>

lemma depex_push_overrun:
  assumes "it < unat DSize" "it < length bs" "bs ! it = EFI_DEP_PUSH" "length bs < it + 17"
  shows "IsSchedulable_loop L DSize it bs s = None"
  using assms by (subst IsSchedulable_loop.simps) (simp add: ReadByte_def CopyGuid_def)

end
