(* ===== verification/Ipmi_Kcs.thy ===== *)
theory Ipmi_Kcs
  imports Liano_Prelude
begin

text \<open>
  The IPMI keyboard controller style interface of KarlPkg/Ipmi/Kcs: the byte transfers of Common/IpmiKcs.c, the command
  of Dxe/IpmiCmd.c (Pei/IpmiCmd.c differs in the type of This only) and the driver of Dxe/KcsDxe.c. The
  baseboard management controller behind the two I/O ports is a parameter: what reading and writing a port and waiting do
  to it.
\<close>

unbundle bit_operations_syntax

section \<open>Ports and status\<close>

record 'd port_io =
  IoRead8 :: "UINT16 \<Rightarrow> 'd \<Rightarrow> UINT8 \<times> 'd"
  IoWrite8 :: "UINT16 \<Rightarrow> UINT8 \<Rightarrow> 'd \<Rightarrow> 'd"
  MicroSecondDelay :: "nat \<Rightarrow> 'd \<Rightarrow> 'd"

abbreviation KCS_RETRY_LIMIT :: nat where "KCS_RETRY_LIMIT \<equiv> 3"
abbreviation KCS_DELAY_UNIT :: nat where "KCS_DELAY_UNIT \<equiv> 50"
abbreviation KCS_TIME_OUT_LIMIT :: nat where "KCS_TIME_OUT_LIMIT \<equiv> 100000"

abbreviation IPMI_R_KSC_DATA_IN :: UINT16 where "IPMI_R_KSC_DATA_IN \<equiv> 0xCA2"
abbreviation IPMI_R_KSC_DATA_OUT :: UINT16 where "IPMI_R_KSC_DATA_OUT \<equiv> 0xCA2"
abbreviation IPMI_R_KSC_COMMAND :: UINT16 where "IPMI_R_KSC_COMMAND \<equiv> 0xCA3"
abbreviation IPMI_R_KSC_STATUS :: UINT16 where "IPMI_R_KSC_STATUS \<equiv> 0xCA3"

abbreviation KSC_CRTL_ABORT :: UINT8 where "KSC_CRTL_ABORT \<equiv> 0x60"
abbreviation KSC_CRTL_WRITE_START :: UINT8 where "KSC_CRTL_WRITE_START \<equiv> 0x61"
abbreviation KSC_CRTL_WRITE_END :: UINT8 where "KSC_CRTL_WRITE_END \<equiv> 0x62"
abbreviation KSC_CRTL_READ :: UINT8 where "KSC_CRTL_READ \<equiv> 0x68"
abbreviation KSC_STATUS_UNSPECIFIED_ERROR :: UINT8 where "KSC_STATUS_UNSPECIFIED_ERROR \<equiv> 0xFF"

text \<open>The bit fields of the status byte.\<close>

type_synonym IPMI_KCS_STATUS = UINT8

definition Obf :: "IPMI_KCS_STATUS \<Rightarrow> bool" where
  "Obf RawData = bit RawData 0"

definition Ibf :: "IPMI_KCS_STATUS \<Rightarrow> bool" where
  "Ibf RawData = bit RawData 1"

datatype IPMI_KCS_STATE = KSC_STATE_IDLE | KSC_STATE_READ | KSC_STATE_WRITE | KSC_STATE_ERROR

definition State :: "IPMI_KCS_STATUS \<Rightarrow> IPMI_KCS_STATE" where
  "State RawData =
     (if drop_bit 6 RawData = 0 then KSC_STATE_IDLE
      else if drop_bit 6 RawData = 1 then KSC_STATE_READ
      else if drop_bit 6 RawData = 2 then KSC_STATE_WRITE
      else KSC_STATE_ERROR)"

section \<open>Waiting for the controller\<close>

text \<open>The polling loop of WaitForIbfFalse and WaitForObfTrue, which differ in the bit they wait for.\<close>

function Wait_loop ::
  "(IPMI_KCS_STATUS \<Rightarrow> bool) \<Rightarrow> 'd port_io \<Rightarrow> nat \<Rightarrow> 'd \<Rightarrow> EFI_STATUS \<times> IPMI_KCS_STATUS \<times> 'd" where
  "Wait_loop busy io TimeOut d =
     (let d = MicroSecondDelay io KCS_DELAY_UNIT d;
          (RawData, d) = IoRead8 io IPMI_R_KSC_STATUS d
      in if RawData = KSC_STATUS_UNSPECIFIED_ERROR then (EFI_DEVICE_ERROR, RawData, d)
         else if TimeOut \<ge> KCS_TIME_OUT_LIMIT then (EFI_TIMEOUT, RawData, d)
         else if busy RawData then Wait_loop busy io (TimeOut + 1) d
         else (EFI_SUCCESS, RawData, d))"
  by pat_completeness auto
termination
  by (relation "measure (\<lambda>(busy, io, TimeOut, d). KCS_TIME_OUT_LIMIT - TimeOut)") auto

definition WaitForIbfFalse :: "'d port_io \<Rightarrow> 'd \<Rightarrow> EFI_STATUS \<times> IPMI_KCS_STATUS \<times> 'd" where
  "WaitForIbfFalse io d = Wait_loop Ibf io 0 d"

definition WaitForObfTrue :: "'d port_io \<Rightarrow> 'd \<Rightarrow> EFI_STATUS \<times> IPMI_KCS_STATUS \<times> 'd" where
  "WaitForObfTrue io d = Wait_loop (\<lambda>RawData. \<not> Obf RawData) io 0 d"

section \<open>Leaving an error\<close>

text \<open>The retry loop of KcsErrorExit; both \<open>continue\<close> statements of the source go on with the next round.\<close>

function KcsErrorExit_loop :: "'d port_io \<Rightarrow> nat \<Rightarrow> 'd \<Rightarrow> EFI_STATUS \<times> 'd" where
  "KcsErrorExit_loop io RetryCount d =
     (if \<not> RetryCount < KCS_RETRY_LIMIT then (EFI_SUCCESS, d)
      else
        let (_, _, d) = WaitForIbfFalse io d;
            d = IoWrite8 io IPMI_R_KSC_COMMAND KSC_CRTL_ABORT d;
            (Status, KcsStatus, d) = WaitForIbfFalse io d
        in if Status \<noteq> EFI_SUCCESS then (Status, d)
        else
          let d = (if Obf KcsStatus then snd (IoRead8 io IPMI_R_KSC_DATA_OUT d) else d);
              d = IoWrite8 io IPMI_R_KSC_DATA_IN 0x00 d;
              (Status, KcsStatus, d) = WaitForIbfFalse io d
          in if Status \<noteq> EFI_SUCCESS then (Status, d)
          else if State KcsStatus = KSC_STATE_READ then
            let (Status, KcsStatus, d) = WaitForObfTrue io d
            in if Status \<noteq> EFI_SUCCESS then (Status, d)
            else
              let d = snd (IoRead8 io IPMI_R_KSC_DATA_OUT d);
                  d = IoWrite8 io IPMI_R_KSC_DATA_IN KSC_CRTL_READ d;
                  (Status, KcsStatus, d) = WaitForIbfFalse io d
              in if Status \<noteq> EFI_SUCCESS then (Status, d)
              else if State KcsStatus = KSC_STATE_IDLE then
                let (Status, KcsStatus, d) = WaitForObfTrue io d
                in if Status \<noteq> EFI_SUCCESS then (Status, d)
                   else (EFI_SUCCESS, snd (IoRead8 io IPMI_R_KSC_DATA_OUT d))
              else if RetryCount + 1 = KCS_RETRY_LIMIT then (EFI_DEVICE_ERROR, d)
              else KcsErrorExit_loop io (RetryCount + 1) d
          else if RetryCount + 1 = KCS_RETRY_LIMIT then (EFI_DEVICE_ERROR, d)
          else KcsErrorExit_loop io (RetryCount + 1) d)"
  by pat_completeness auto
termination
  by (relation "measure (\<lambda>(io, RetryCount, d). KCS_RETRY_LIMIT - RetryCount)") auto

definition KcsErrorExit :: "'d port_io \<Rightarrow> 'd \<Rightarrow> EFI_STATUS \<times> 'd" where
  "KcsErrorExit io d = KcsErrorExit_loop io 0 d"

definition KcsCheckStatus :: "'d port_io \<Rightarrow> IPMI_KCS_STATE \<Rightarrow> 'd \<Rightarrow> EFI_STATUS \<times> IPMI_KCS_STATUS \<times> 'd" where
  "KcsCheckStatus io KcsStateForCheck d =
     (let (Status, KcsStatus, d) = WaitForIbfFalse io d
      in if Status \<noteq> EFI_SUCCESS then (Status, KcsStatus, d)
      else case KcsStateForCheck of
        KSC_STATE_WRITE \<Rightarrow>
          (if State KcsStatus = KSC_STATE_WRITE
           then (EFI_SUCCESS, KcsStatus, snd (IoRead8 io IPMI_R_KSC_DATA_OUT d))
           else let (Status, d) = KcsErrorExit io d in (Status, KcsStatus, d))
      | KSC_STATE_READ \<Rightarrow>
          (if State KcsStatus = KSC_STATE_READ \<or> State KcsStatus = KSC_STATE_IDLE
           then let (Status, KcsStatus, d) = WaitForObfTrue io d
                in if Status \<noteq> EFI_SUCCESS then (Status, KcsStatus, d) else (EFI_SUCCESS, KcsStatus, d)
           else let (Status, d) = KcsErrorExit io d in (Status, KcsStatus, d))
      | KSC_STATE_IDLE \<Rightarrow> (EFI_SUCCESS, KcsStatus, d)
      | KSC_STATE_ERROR \<Rightarrow> (EFI_INVALID_PARAMETER, KcsStatus, d))"

section \<open>Transfers\<close>

text \<open>The for loop of KcsWriteDataToBmc over the bytes still to send.\<close>

fun WriteData_loop :: "'d port_io \<Rightarrow> UINT8 list \<Rightarrow> 'd \<Rightarrow> EFI_STATUS \<times> 'd" where
  "WriteData_loop io [] d = (EFI_SUCCESS, d)"
| "WriteData_loop io (b # bs) d =
     (let (Status, _, d) = KcsCheckStatus io KSC_STATE_WRITE d
      in if Status \<noteq> EFI_SUCCESS then (Status, d)
         else WriteData_loop io bs (IoWrite8 io IPMI_R_KSC_DATA_IN b d))"

text \<open>\<open>Data\<close> is the memory behind the pointer; fewer than DataSize bytes of it is a failure of the caller.\<close>

definition KcsWriteDataToBmc :: "'d port_io \<Rightarrow> UINT8 list \<Rightarrow> UINT8 \<Rightarrow> 'd \<Rightarrow> (EFI_STATUS \<times> 'd) option" where
  "KcsWriteDataToBmc io Data DataSize d =
     do {
       ASSERT (unat DataSize \<le> length Data);
       let (Status, _, d) = WaitForIbfFalse io d;
       if Status \<noteq> EFI_SUCCESS then Some (Status, d)
       else do {
         let d = snd (IoRead8 io IPMI_R_KSC_DATA_OUT d);
         let d = IoWrite8 io IPMI_R_KSC_STATUS KSC_CRTL_WRITE_START d;
         let (Status, d) = WriteData_loop io (take (unat DataSize) Data) d;
         if Status \<noteq> EFI_SUCCESS then Some (Status, d)
         else do {
           let (Status, _, d) = KcsCheckStatus io KSC_STATE_WRITE d;
           if Status \<noteq> EFI_SUCCESS then Some (Status, d)
           else Some (EFI_SUCCESS, IoWrite8 io IPMI_R_KSC_COMMAND KSC_CRTL_WRITE_END d)
         }
       }
     }"

text \<open>
  The for loop of KcsReadDataFromBmc. The index is a UINT8 and steps twice per byte, once in \<open>Data[i++]\<close> and once in
  the loop header; it may wrap around, so the loop has fuel.
\<close>

fun ReadData_loop ::
  "nat \<Rightarrow> 'd port_io \<Rightarrow> UINT8 \<Rightarrow> UINT8 \<Rightarrow> UINT8 list \<Rightarrow> 'd \<Rightarrow> (EFI_STATUS \<times> UINT8 list \<times> 'd) option" where
  "ReadData_loop 0 io DataSize i Data d = None"
| "ReadData_loop (Suc n) io DataSize i Data d =
     (if \<not> i < DataSize then Some (EFI_SUCCESS, Data, d)
      else
        let d = IoWrite8 io IPMI_R_KSC_DATA_IN KSC_CRTL_READ d;
            (Status, KcsStatus, d) = KcsCheckStatus io KSC_STATE_READ d
        in if Status \<noteq> EFI_SUCCESS then Some (Status, Data, d)
           else if State KcsStatus = KSC_STATE_IDLE then Some (EFI_SUCCESS, Data, d)
           else do {
             let (b, d) = IoRead8 io IPMI_R_KSC_DATA_OUT d;
             ASSERT (unat i < length Data);
             ReadData_loop n io DataSize (i + 1 + 1) (Data[unat i := b]) d
           })"

definition KcsReadDataFromBmc ::
  "nat \<Rightarrow> 'd port_io \<Rightarrow> UINT8 list \<Rightarrow> UINT8 \<Rightarrow> 'd \<Rightarrow> (EFI_STATUS \<times> UINT8 list \<times> 'd) option" where
  "KcsReadDataFromBmc n io Data DataSize d =
     (let (Status, _, d) = WaitForIbfFalse io d
      in if Status \<noteq> EFI_SUCCESS then Some (Status, Data, d)
         else ReadData_loop n io DataSize 0 Data d)"

section \<open>Commands\<close>

text \<open>
  KSC_RQ and KSC_RS. The Data pointer of a request is NULL or the memory it points to; that of a response is NULL, the
  RsData of the same structure, or other memory.
\<close>

record KSC_RQ =
  RqLun :: UINT8
  RqNetFn :: UINT8
  RqCmd :: UINT8
  RqData :: "UINT8 list"
  RqDataPtr :: "UINT8 list option"
  RqDataSize :: UINT8

datatype rs_pointer = Rs_NULL | Rs_RsData | Rs_buffer "UINT8 list"

record KSC_RS =
  RsLun :: UINT8
  RsNetFn :: UINT8
  RsCmd :: UINT8
  CompletionCode :: UINT8
  RsData :: "UINT8 list"
  RsDataPtr :: rs_pointer
  RsDataSize :: UINT8

record IPMI_KSC_INSTANCE =
  Request :: KSC_RQ
  Response :: KSC_RS

abbreviation IPMI_KCS_LUN :: UINT8 where "IPMI_KCS_LUN \<equiv> 0"
abbreviation KCS_REQUEST_HEADER_SIZE :: UINT8 where "KCS_REQUEST_HEADER_SIZE \<equiv> 2"
abbreviation KCS_RESPONSE_HEADER_SIZE :: UINT8 where "KCS_RESPONSE_HEADER_SIZE \<equiv> 3"

text \<open>The structures as bytes: the two bit fields of the first byte, then the other bytes in order.\<close>

definition request_bytes :: "KSC_RQ \<Rightarrow> UINT8 list" where
  "request_bytes rq = ((RqLun rq AND 3) OR push_bit 2 (RqNetFn rq)) # RqCmd rq # RqData rq"

definition response_bytes :: "KSC_RS \<Rightarrow> UINT8 list" where
  "response_bytes rs = ((RsLun rs AND 3) OR push_bit 2 (RsNetFn rs)) # RsCmd rs # CompletionCode rs # RsData rs"

definition response_from :: "UINT8 list \<Rightarrow> KSC_RS \<Rightarrow> KSC_RS" where
  "response_from bs rs = rs\<lparr>RsLun := bs ! 0 AND 3, RsNetFn := drop_bit 2 (bs ! 0), RsCmd := bs ! 1, CompletionCode := bs ! 2,
     RsData := drop 3 bs\<rparr>"

text \<open>A request or response argument is the instance's own structure, as in GetSelfTestResults, or another one.\<close>

datatype 'a arg = Own | Other 'a

definition the_rq :: "KSC_RQ arg \<Rightarrow> IPMI_KSC_INSTANCE \<Rightarrow> KSC_RQ" where
  "the_rq r Instance = (case r of Own \<Rightarrow> Request Instance | Other rq \<Rightarrow> rq)"

definition the_rs :: "KSC_RS arg \<Rightarrow> IPMI_KSC_INSTANCE \<Rightarrow> KSC_RS" where
  "the_rs r Instance = (case r of Own \<Rightarrow> Response Instance | Other rs \<Rightarrow> rs)"

definition set_rs :: "(KSC_RS \<Rightarrow> KSC_RS) \<Rightarrow> KSC_RS arg \<Rightarrow> IPMI_KSC_INSTANCE \<Rightarrow> KSC_RS arg \<times> IPMI_KSC_INSTANCE" where
  "set_rs f r Instance =
     (case r of Own \<Rightarrow> (Own, Response_update f Instance) | Other rs \<Rightarrow> (Other (f rs), Instance))"

definition CopyMem :: "UINT8 list \<Rightarrow> UINT8 list \<Rightarrow> nat \<Rightarrow> UINT8 list option" where
  "CopyMem Destination Source n =
     (if n \<le> length Destination \<and> n \<le> length Source then Some (take n Source @ drop n Destination) else None)"

definition IpmiKcsCmd ::
  "nat \<Rightarrow> 'd port_io \<Rightarrow> KSC_RQ arg \<Rightarrow> KSC_RS arg \<Rightarrow> IPMI_KSC_INSTANCE \<Rightarrow> 'd
   \<Rightarrow> (EFI_STATUS \<times> KSC_RS arg \<times> IPMI_KSC_INSTANCE \<times> 'd) option" where
  "IpmiKcsCmd n io KcsRq KcsRs Instance d =
     do {
       let Instance = Instance\<lparr>Request := (Request Instance)\<lparr>RqNetFn := RqNetFn (the_rq KcsRq Instance), RqLun := IPMI_KCS_LUN,
                                 RqCmd := RqCmd (the_rq KcsRq Instance)\<rparr>\<rparr>;
       let Rq = the_rq KcsRq Instance;
       if RqDataSize Rq > 0 \<and> RqDataPtr Rq = None then Some (EFI_INVALID_PARAMETER, KcsRs, Instance, d)
       else do {
         Instance \<leftarrow> (if RqDataSize Rq > 0
                      then do {
                        Data \<leftarrow> RqDataPtr Rq;
                        RqData' \<leftarrow> CopyMem (RqData (Request Instance)) Data (unat (RqDataSize Rq));
                        Some (Instance\<lparr>Request := (Request Instance)\<lparr>RqData := RqData'\<rparr>\<rparr>)
                      }
                      else Some Instance);
         let DataSize = RqDataSize Rq + KCS_REQUEST_HEADER_SIZE;
         (Status, d) \<leftarrow> KcsWriteDataToBmc io (request_bytes (Request Instance)) DataSize d;
         if Status \<noteq> EFI_SUCCESS then Some (Status, KcsRs, Instance, d)
         else do {
           let DataSize = RsDataSize (the_rs KcsRs Instance) + KCS_RESPONSE_HEADER_SIZE;
           (Status, bs, d) \<leftarrow> KcsReadDataFromBmc n io (response_bytes (Response Instance)) DataSize d;
           let Instance = Response_update (response_from bs) Instance;
           if Status \<noteq> EFI_SUCCESS then Some (Status, KcsRs, Instance, d)
           else if RsDataSize (the_rs KcsRs Instance) > 0 \<and> CompletionCode (Response Instance) = 0
           then if RsDataPtr (the_rs KcsRs Instance) = Rs_NULL then Some (EFI_INVALID_PARAMETER, KcsRs, Instance, d)
                else do {
                  bs \<leftarrow> CopyMem (RsData (the_rs KcsRs Instance)) (RsData (Response Instance)) (unat (RsDataSize (the_rs KcsRs Instance)));
                  let (KcsRs, Instance) = set_rs (\<lambda>rs. rs\<lparr>RsData := bs, RsDataPtr := Rs_RsData\<rparr>) KcsRs Instance;
                  Some (EFI_SUCCESS, KcsRs, Instance, d)
                }
           else Some (EFI_SUCCESS, KcsRs, Instance, d)
         }
       }
     }"

section \<open>The driver\<close>

abbreviation IPMI_NETFN_APP :: UINT8 where "IPMI_NETFN_APP \<equiv> 0x06"
abbreviation IPMI_APP_GET_SELFTEST_RESULTS :: UINT8 where "IPMI_APP_GET_SELFTEST_RESULTS \<equiv> 0x04"

text \<open>The three tries of GetSelfTestResults; the first result is the value of Times when the loop ends.\<close>

fun SelfTest_loop ::
  "nat \<Rightarrow> 'd port_io \<Rightarrow> nat \<Rightarrow> IPMI_KSC_INSTANCE \<Rightarrow> 'd \<Rightarrow> (nat \<times> IPMI_KSC_INSTANCE \<times> 'd) option" where
  "SelfTest_loop n io 0 Instance d = Some (0, Instance, d)"
| "SelfTest_loop n io (Suc Times) Instance d =
     do {
       (Status, _, Instance, d) \<leftarrow> IpmiKcsCmd n io Own Own Instance d;
       if Status = EFI_SUCCESS then Some (Suc Times, Instance, d) else SelfTest_loop n io Times Instance d
     }"

text \<open>Reading the first byte behind the Data pointer of a response.\<close>

definition first_data :: "KSC_RS \<Rightarrow> UINT8 option" where
  "first_data rs =
     (case RsDataPtr rs of
        Rs_NULL \<Rightarrow> None
      | Rs_RsData \<Rightarrow> (case RsData rs of [] \<Rightarrow> None | b # _ \<Rightarrow> Some b)
      | Rs_buffer bs \<Rightarrow> (case bs of [] \<Rightarrow> None | b # _ \<Rightarrow> Some b))"

definition GetSelfTestResults ::
  "nat \<Rightarrow> 'd port_io \<Rightarrow> IPMI_KSC_INSTANCE \<Rightarrow> 'd \<Rightarrow> (EFI_STATUS \<times> IPMI_KSC_INSTANCE \<times> 'd) option" where
  "GetSelfTestResults n io Instance d =
     do {
       let Instance = Instance\<lparr>Request := (Request Instance)\<lparr>RqNetFn := IPMI_NETFN_APP, RqCmd := IPMI_APP_GET_SELFTEST_RESULTS, RqDataSize := 0\<rparr>,
                               Response := (Response Instance)\<lparr>RsDataSize := 2\<rparr>\<rparr>;
       (Times, Instance, d) \<leftarrow> SelfTest_loop n io 3 Instance d;
       if Times \<noteq> 0
       then do { b \<leftarrow> first_data (Response Instance); Some (if b = 0x55 then EFI_SUCCESS else EFI_DEVICE_ERROR, Instance, d) }
       else Some (EFI_DEVICE_ERROR, Instance, d)
     }"

text \<open>The global mInstance before the driver runs: all its memory zero.\<close>

definition mInstance :: IPMI_KSC_INSTANCE where
  "mInstance =
     \<lparr>Request = \<lparr>RqLun = 0, RqNetFn = 0, RqCmd = 0, RqData = replicate 255 0, RqDataPtr = None, RqDataSize = 0\<rparr>,
      Response = \<lparr>RsLun = 0, RsNetFn = 0, RsCmd = 0, CompletionCode = 0, RsData = replicate 255 0, RsDataPtr = Rs_NULL, RsDataSize = 0\<rparr>\<rparr>"

text \<open>\<open>InstallStatus\<close> is what InstallProtocolInterface returns. The ASSERT is on the status itself, whose success is 0.\<close>

definition BmcInitEntryPoint :: "nat \<Rightarrow> 'd port_io \<Rightarrow> EFI_STATUS \<Rightarrow> 'd \<Rightarrow> (EFI_STATUS \<times> IPMI_KSC_INSTANCE \<times> 'd) option" where
  "BmcInitEntryPoint n io InstallStatus d =
     do {
       ASSERT (InstallStatus \<noteq> EFI_SUCCESS);
       GetSelfTestResults n io mInstance d
     }"

section \<open>Waiting ends\<close>

declare Wait_loop.simps [simp del] KcsErrorExit_loop.simps [simp del]

text \<open>The status byte and the controller after a number of polls.\<close>

definition poll :: "'d port_io \<Rightarrow> 'd \<Rightarrow> UINT8 \<times> 'd" where
  "poll io d = IoRead8 io IPMI_R_KSC_STATUS (MicroSecondDelay io KCS_DELAY_UNIT d)"

fun polls :: "'d port_io \<Rightarrow> nat \<Rightarrow> 'd \<Rightarrow> UINT8 \<times> 'd" where
  "polls io 0 d = poll io d"
| "polls io (Suc k) d = polls io k (snd (poll io d))"

definition wait_status :: "nat \<Rightarrow> UINT8 \<Rightarrow> EFI_STATUS" where
  "wait_status k RawData =
     (if RawData = KSC_STATUS_UNSPECIFIED_ERROR then EFI_DEVICE_ERROR
      else if k = KCS_TIME_OUT_LIMIT then EFI_TIMEOUT else EFI_SUCCESS)"

definition waited :: "(UINT8 \<Rightarrow> bool) \<Rightarrow> 'd port_io \<Rightarrow> 'd \<Rightarrow> nat \<Rightarrow> EFI_STATUS \<times> UINT8 \<times> 'd \<Rightarrow> bool" where
  "waited busy io d k r \<longleftrightarrow>
     k \<le> KCS_TIME_OUT_LIMIT \<and> r = (wait_status k (fst (polls io k d)), polls io k d) \<and>
     (fst r = EFI_SUCCESS \<longrightarrow> \<not> busy (fst (polls io k d))) \<and>
     (\<forall>j < k. busy (fst (polls io j d)) \<and> fst (polls io j d) \<noteq> KSC_STATUS_UNSPECIFIED_ERROR)"

lemma Wait_loop_eq:
  "Wait_loop busy io TimeOut d =
     (case poll io d of (RawData, d) \<Rightarrow>
        if RawData = KSC_STATUS_UNSPECIFIED_ERROR then (EFI_DEVICE_ERROR, RawData, d)
        else if TimeOut \<ge> KCS_TIME_OUT_LIMIT then (EFI_TIMEOUT, RawData, d)
        else if busy RawData then Wait_loop busy io (TimeOut + 1) d else (EFI_SUCCESS, RawData, d))"
  by (subst Wait_loop.simps) (simp add: poll_def Let_def)

lemma wait_loop_polls:
  assumes "t \<le> KCS_TIME_OUT_LIMIT"
  shows "\<exists>k. t + k \<le> KCS_TIME_OUT_LIMIT \<and> Wait_loop busy io t d = (wait_status (t + k) (fst (polls io k d)), polls io k d)
    \<and> (wait_status (t + k) (fst (polls io k d)) = EFI_SUCCESS \<longrightarrow> \<not> busy (fst (polls io k d)))
    \<and> (\<forall>j < k. busy (fst (polls io j d)) \<and> fst (polls io j d) \<noteq> KSC_STATUS_UNSPECIFIED_ERROR)"
  using assms
proof (induction "KCS_TIME_OUT_LIMIT - t" arbitrary: t d)
  case 0
  then have "t = KCS_TIME_OUT_LIMIT" by simp
  then show ?case by (subst Wait_loop_eq) (intro exI[of _ 0], auto simp: wait_status_def split: prod.splits)
next
  case (Suc m)
  obtain r e where p: "poll io d = (r, e)" by (cases "poll io d")
  show ?case
  proof (cases "r = KSC_STATUS_UNSPECIFIED_ERROR \<or> \<not> busy r")
    case True
    then show ?thesis using Suc(2) p
      by (subst Wait_loop_eq) (intro exI[of _ 0], auto simp: wait_status_def)
  next
    case False
    have "m = KCS_TIME_OUT_LIMIT - (t + 1)" "t + 1 \<le> KCS_TIME_OUT_LIMIT" using Suc(2) by simp_all
    then obtain k where k: "t + 1 + k \<le> KCS_TIME_OUT_LIMIT" "Wait_loop busy io (t + 1) e = (wait_status (t + 1 + k) (fst (polls io k e)), polls io k e)"
      "wait_status (t + 1 + k) (fst (polls io k e)) = EFI_SUCCESS \<longrightarrow> \<not> busy (fst (polls io k e))"
      "\<forall>j < k. busy (fst (polls io j e)) \<and> fst (polls io j e) \<noteq> KSC_STATUS_UNSPECIFIED_ERROR"
      using Suc(1)[of "t + 1" e] by blast
    have "\<forall>j < Suc k. busy (fst (polls io j d)) \<and> fst (polls io j d) \<noteq> KSC_STATUS_UNSPECIFIED_ERROR"
    proof (intro allI impI)
      fix j assume "j < Suc k"
      then show "busy (fst (polls io j d)) \<and> fst (polls io j d) \<noteq> KSC_STATUS_UNSPECIFIED_ERROR"
        using k(4) False p by (cases j) auto
    qed
    moreover have "Wait_loop busy io t d = Wait_loop busy io (t + 1) e" using Suc(2) False p by (subst Wait_loop_eq) auto
    ultimately show ?thesis using k p by (intro exI[of _ "Suc k"]) auto
  qed
qed

text \<open>
  Whatever the controller does, a wait ends after at most KCS_TIME_OUT_LIMIT + 1 polls of the status register: it stops at
  the first byte that is 0xFF, with EFI_DEVICE_ERROR, or on which the awaited bit has its value, with EFI_SUCCESS,
  and at the last poll, with EFI_TIMEOUT, even if the bit is right there.
\<close>

theorem kcs_wait_exact:
  "(\<exists>k. waited Ibf io d k (WaitForIbfFalse io d)) \<and> (\<exists>k. waited (\<lambda>r. \<not> Obf r) io d k (WaitForObfTrue io d))"
proof -
  have "\<exists>k. waited busy io d k (Wait_loop busy io 0 d)" for busy
    using wait_loop_polls[of 0 busy io d] unfolding waited_def by auto
  then show ?thesis by (simp add: WaitForIbfFalse_def WaitForObfTrue_def)
qed

section \<open>Sending\<close>

text \<open>
  A controller that takes bytes: as long as \<open>ok\<close> holds every poll shows it in the write state with its input buffer empty, reading the data
  register changes nothing of interest, and \<open>sent\<close> records the writes.
\<close>

definition taking :: "'d port_io \<Rightarrow> ('d \<Rightarrow> bool) \<Rightarrow> ('d \<Rightarrow> (UINT16 \<times> UINT8) list) \<Rightarrow> bool" where
  "taking io ok sent \<longleftrightarrow>
     (\<forall>d. ok d \<longrightarrow> (case poll io d of (r, e) \<Rightarrow>
        \<not> Ibf r \<and> State r = KSC_STATE_WRITE \<and> r \<noteq> KSC_STATUS_UNSPECIFIED_ERROR \<and> ok e \<and> sent e = sent d)) \<and>
     (\<forall>d. ok d \<longrightarrow> ok (snd (IoRead8 io IPMI_R_KSC_DATA_OUT d)) \<and> sent (snd (IoRead8 io IPMI_R_KSC_DATA_OUT d)) = sent d) \<and>
     (\<forall>d p b. ok d \<longrightarrow> ok (IoWrite8 io p b d) \<and> sent (IoWrite8 io p b d) = sent d @ [(p, b)])"

lemma taking_wait:
  assumes "taking io ok sent" "ok d"
  obtains r e where "WaitForIbfFalse io d = (EFI_SUCCESS, r, e)" "State r = KSC_STATE_WRITE" "ok e" "sent e = sent d"
proof -
  obtain r e where p: "poll io d = (r, e)" by (cases "poll io d")
  then have r: "\<not> Ibf r" "State r = KSC_STATE_WRITE" "r \<noteq> KSC_STATUS_UNSPECIFIED_ERROR" "ok e" "sent e = sent d"
    using assms unfolding taking_def by (auto dest!: spec[of _ d])
  then have "WaitForIbfFalse io d = (EFI_SUCCESS, r, e)"
    unfolding WaitForIbfFalse_def by (subst Wait_loop_eq) (simp add: p)
  with r that show thesis by blast
qed

lemma taking_check:
  assumes "taking io ok sent" "ok d"
  obtains r e where "KcsCheckStatus io KSC_STATE_WRITE d = (EFI_SUCCESS, r, e)" "ok e" "sent e = sent d"
proof -
  obtain r e where "WaitForIbfFalse io d = (EFI_SUCCESS, r, e)" "State r = KSC_STATE_WRITE" "ok e" "sent e = sent d"
    using taking_wait[OF assms] by blast
  then show thesis using assms(1) that[of r "snd (IoRead8 io IPMI_R_KSC_DATA_OUT e)"]
    unfolding taking_def by (simp add: KcsCheckStatus_def)
qed

lemma taking_write: "taking io ok sent \<Longrightarrow> ok d \<Longrightarrow> ok (IoWrite8 io p b d) \<and> sent (IoWrite8 io p b d) = sent d @ [(p, b)]"
  by (simp add: taking_def)

lemma write_loop_sends:
  assumes "taking io ok sent" "ok d"
  shows "\<exists>e. WriteData_loop io bs d = (EFI_SUCCESS, e) \<and> ok e \<and> sent e = sent d @ map (Pair IPMI_R_KSC_DATA_IN) bs"
  using assms(2)
proof (induction bs arbitrary: d)
  case (Cons b bs)
  obtain r e where e: "KcsCheckStatus io KSC_STATE_WRITE d = (EFI_SUCCESS, r, e)" "ok e" "sent e = sent d"
    using taking_check[OF assms(1) Cons.prems] by blast
  then show ?case using Cons.IH[of "IoWrite8 io IPMI_R_KSC_DATA_IN b e"] taking_write[OF assms(1) e(2)] by auto
qed simp


definition logging_port :: "(UINT16 \<times> UINT8) list port_io" where
  "logging_port = \<lparr>IoRead8 = (\<lambda>p d. (0x80, d)), IoWrite8 = (\<lambda>p b d. d @ [(p, b)]), MicroSecondDelay = (\<lambda>n d. d)\<rparr>"

lemma logging_port_taking: "taking logging_port (\<lambda>_. True) (\<lambda>d. d)"
  by (simp add: taking_def logging_port_def poll_def Ibf_def State_def)


section \<open>Receiving\<close>

text \<open>
  A controller that delivers: as long as bytes are waiting, every poll shows the read state with its input buffer empty and a byte in the
  output buffer, and reading the data register takes the next byte.
\<close>

definition delivering :: "'d port_io \<Rightarrow> ('d \<Rightarrow> bool) \<Rightarrow> ('d \<Rightarrow> UINT8 list) \<Rightarrow> bool" where
  "delivering io ok waiting \<longleftrightarrow>
     (\<forall>d. ok d \<longrightarrow> waiting d \<noteq> [] \<longrightarrow> (case poll io d of (r, e) \<Rightarrow>
        \<not> Ibf r \<and> Obf r \<and> State r = KSC_STATE_READ \<and> r \<noteq> KSC_STATUS_UNSPECIFIED_ERROR \<and> ok e \<and> waiting e = waiting d)) \<and>
     (\<forall>d. ok d \<longrightarrow> waiting d \<noteq> [] \<longrightarrow> (case IoRead8 io IPMI_R_KSC_DATA_OUT d of (b, e) \<Rightarrow>
        b = hd (waiting d) \<and> ok e \<and> waiting e = tl (waiting d))) \<and>
     (\<forall>d b. ok d \<longrightarrow> ok (IoWrite8 io IPMI_R_KSC_DATA_IN b d) \<and> waiting (IoWrite8 io IPMI_R_KSC_DATA_IN b d) = waiting d)"

lemma delivering_wait:
  assumes "delivering io ok waiting" "ok d" "waiting d \<noteq> []"
  obtains r e where "WaitForIbfFalse io d = (EFI_SUCCESS, r, e)" "WaitForObfTrue io d = (EFI_SUCCESS, r, e)"
    "State r = KSC_STATE_READ" "ok e" "waiting e = waiting d"
proof -
  obtain r e where p: "poll io d = (r, e)" by (cases "poll io d")
  then have r: "\<not> Ibf r" "Obf r" "State r = KSC_STATE_READ" "r \<noteq> KSC_STATUS_UNSPECIFIED_ERROR" "ok e" "waiting e = waiting d"
    using assms unfolding delivering_def by (auto dest!: spec[of _ d])
  then have "WaitForIbfFalse io d = (EFI_SUCCESS, r, e)" "WaitForObfTrue io d = (EFI_SUCCESS, r, e)"
    unfolding WaitForIbfFalse_def WaitForObfTrue_def by (subst Wait_loop_eq, simp add: p)+
  with r that show thesis by blast
qed

lemma delivering_check:
  assumes io: "delivering io ok waiting" and d: "ok d" "waiting d \<noteq> []"
  obtains r e where "KcsCheckStatus io KSC_STATE_READ d = (EFI_SUCCESS, r, e)" "State r = KSC_STATE_READ" "ok e" "waiting e = waiting d"
proof -
  obtain r e where e: "WaitForIbfFalse io d = (EFI_SUCCESS, r, e)" "State r = KSC_STATE_READ" "ok e" "waiting e = waiting d"
    using delivering_wait[OF io d] by blast
  obtain r' f where f: "WaitForObfTrue io e = (EFI_SUCCESS, r', f)" "State r' = KSC_STATE_READ" "ok f" "waiting f = waiting e"
    using delivering_wait[OF io e(3)] d(2) e(4) by metis
  then show thesis using that[of r' f] e by (simp add: KcsCheckStatus_def)
qed

lemma read_loop_step:
  assumes io: "delivering io ok waiting" and d: "ok d" "waiting d = b # bs" and i: "i < DataSize" "unat i < length Data"
  obtains e where "ReadData_loop (Suc n) io DataSize i Data d = ReadData_loop n io DataSize (i + 2) (Data[unat i := b]) e"
    "ok e" "waiting e = bs"
proof -
  let ?d = "IoWrite8 io IPMI_R_KSC_DATA_IN KSC_CRTL_READ d"
  have w: "ok ?d" "waiting ?d = b # bs" using io d unfolding delivering_def by simp_all
  obtain r f where f: "KcsCheckStatus io KSC_STATE_READ ?d = (EFI_SUCCESS, r, f)" "State r = KSC_STATE_READ" "ok f" "waiting f = b # bs"
    using delivering_check[OF io w(1)] w(2) by auto
  obtain e where e: "IoRead8 io IPMI_R_KSC_DATA_OUT f = (b, e)" "ok e" "waiting e = bs"
    using io f(3,4) unfolding delivering_def by (cases "IoRead8 io IPMI_R_KSC_DATA_OUT f") (auto dest!: spec[of _ f])
  have "ReadData_loop (Suc n) io DataSize i Data d = ReadData_loop n io DataSize (i + 2) (Data[unat i := b]) e"
    using i f(1,2) e(1) by (simp add: add.commute)
  with e that show thesis by blast
qed

text \<open>Storing bytes at every second place of a buffer.\<close>

fun every_second :: "nat \<Rightarrow> UINT8 list \<Rightarrow> UINT8 list \<Rightarrow> UINT8 list" where
  "every_second i [] Data = Data"
| "every_second i (b # bs) Data = every_second (i + 2) bs (Data[i := b])"

lemma length_every_second [simp]: "length (every_second i bs Data) = length Data"
  by (induction i bs Data rule: every_second.induct) simp_all

lemma nth_every_second:
  "k < length Data \<Longrightarrow> every_second i bs Data ! k =
     (if i \<le> k \<and> even (k - i) \<and> (k - i) div 2 < length bs then bs ! ((k - i) div 2) else Data ! k)"
proof (induction i bs Data rule: every_second.induct)
  case (2 i b bs Data)
  consider "k < i" | "k = i" | "k = i + 1" | "i + 2 \<le> k" by linarith
  then show ?case
  proof cases
    case 4
    then obtain j where "k = i + 2 + j" by (metis le_add_diff_inverse)
    then show ?thesis using 2 by (auto simp: nth_list_update)
  qed (use 2 in \<open>auto simp: nth_list_update\<close>)
qed simp

lemma read_loop_spreads:
  assumes io: "delivering io ok waiting" and n: "unat DataSize < 255" "unat DataSize \<le> length Data"
    and d: "ok d" "m \<le> length (waiting d)" and m: "m = (unat DataSize + 1 - unat i) div 2" "m < fuel" and i: "unat i \<le> unat DataSize + 1"
  shows "\<exists>e. ReadData_loop fuel io DataSize i Data d = Some (EFI_SUCCESS, every_second (unat i) (take m (waiting d)) Data, e)
    \<and> ok e \<and> waiting e = drop m (waiting d)"
  using n d m i
proof (induction m arbitrary: fuel i Data d)
  case 0
  then have "\<not> i < DataSize" by (simp add: word_less_nat_alt)
  moreover obtain f where "fuel = Suc f" using 0 by (cases fuel) auto
  ultimately show ?case using 0 by simp
next
  case (Suc m)
  obtain f where f: "fuel = Suc f" using Suc.prems by (cases fuel) auto
  obtain b bs where w: "waiting d = b # bs" using Suc.prems by (cases "waiting d") auto
  have lt: "unat i < unat DataSize" using Suc.prems(5) by simp
  obtain e where e: "ReadData_loop (Suc f) io DataSize i Data d = ReadData_loop f io DataSize (i + 2) (Data[unat i := b]) e"
    "ok e" "waiting e = bs"
    using read_loop_step[OF io Suc.prems(3) w, of i DataSize Data f] lt Suc.prems(2) by (auto simp: word_less_nat_alt)
  have u: "unat (i + 2) = unat i + 2" using lt Suc.prems(1) by (simp add: unat_word_ariths)
  have m: "m = (unat DataSize + 1 - unat (i + 2)) div 2" "Suc m = (unat DataSize + 1 - unat i) div 2" using Suc.prems(5) u by simp_all
  obtain e' where "ReadData_loop f io DataSize (i + 2) (Data[unat i := b]) e =
      Some (EFI_SUCCESS, every_second (unat (i + 2)) (take m bs) (Data[unat i := b]), e')" "ok e'" "waiting e' = drop m bs"
    using Suc.IH[of "Data[unat i := b]" e "i + 2" f, OF _ _ e(2) _ m(1)] Suc.prems e(3) w f u lt by auto
  then show ?case unfolding f e(1) w u by (intro exI[of _ e']) simp
qed


definition streaming_port :: "UINT8 list port_io" where
  "streaming_port = \<lparr>IoRead8 = (\<lambda>p d. if p = IPMI_R_KSC_STATUS then (0x41, d) else (hd d, tl d)), IoWrite8 = (\<lambda>p b d. d),
     MicroSecondDelay = (\<lambda>n d. d)\<rparr>"

lemma streaming_port_delivering: "delivering streaming_port (\<lambda>_. True) (\<lambda>d. d)"
  by (simp add: delivering_def streaming_port_def poll_def Ibf_def Obf_def State_def)


section \<open>The driver never starts\<close>

lemma IpmiKcsCmd_keeps_NULL:
  assumes "IpmiKcsCmd n io Own Own Instance d = Some (Status, r, Instance', d')" "RsDataPtr (Response Instance) = Rs_NULL"
  shows "RsDataPtr (Response Instance') = Rs_NULL"
  using assms unfolding IpmiKcsCmd_def the_rs_def the_rq_def set_rs_def response_from_def
  by (auto simp: Let_def split: if_splits bind_splits option.splits prod.splits)

lemma SelfTest_keeps_NULL:
  "SelfTest_loop n io Times Instance d = Some (t, Instance', d') \<Longrightarrow> RsDataPtr (Response Instance) = Rs_NULL \<Longrightarrow>
   RsDataPtr (Response Instance') = Rs_NULL"
proof (induction Times arbitrary: Instance d)
  case (Suc Times)
  then obtain st r i e where c: "IpmiKcsCmd n io Own Own Instance d = Some (st, r, i, e)" by (auto split: bind_splits)
  then have "RsDataPtr (Response i) = Rs_NULL" using IpmiKcsCmd_keeps_NULL[OF c Suc.prems(2)] by simp
  then show ?case using Suc.IH[of i e] Suc.prems(1) c by (auto split: if_splits)
qed simp

text \<open>
  (C36) The driver cannot start, whatever the controller answers and whatever the fuel: the Data pointer of the global response is NULL and nothing sets it, so
  a completion code of 0 makes IpmiKcsCmd return EFI_INVALID_PARAMETER, and any other one makes GetSelfTestResults read through NULL;
  GetSelfTestResults never returns EFI_SUCCESS. In a build with ASSERTs the entry point does not even get
  there when its protocol has been installed: ASSERT (Status) fails on EFI_SUCCESS.
\<close>

theorem kcs_driver_never_starts:
  "GetSelfTestResults n io mInstance d \<noteq> Some (EFI_SUCCESS, Instance, e)
   \<and> BmcInitEntryPoint n io EFI_SUCCESS d = None
   \<and> BmcInitEntryPoint n io InstallStatus d \<noteq> Some (EFI_SUCCESS, Instance, e)"
proof -
  have "GetSelfTestResults n io mInstance d \<noteq> Some (EFI_SUCCESS, i, e)" for i e
  proof
    let ?i = "mInstance\<lparr>Request := (Request mInstance)\<lparr>RqNetFn := IPMI_NETFN_APP, RqCmd := IPMI_APP_GET_SELFTEST_RESULTS, RqDataSize := 0\<rparr>,
                        Response := (Response mInstance)\<lparr>RsDataSize := 2\<rparr>\<rparr>"
    assume "GetSelfTestResults n io mInstance d = Some (EFI_SUCCESS, i, e)"
    then obtain t j f where l: "SelfTest_loop n io 3 ?i d = Some (t, j, f)" "t \<noteq> 0" "first_data (Response j) \<noteq> None"
      unfolding GetSelfTestResults_def Let_def by (auto split: bind_splits if_splits)
    have "RsDataPtr (Response ?i) = Rs_NULL" by (simp add: mInstance_def)
    then have "RsDataPtr (Response j) = Rs_NULL" using SelfTest_keeps_NULL[OF l(1)] by blast
    then show False using l(3) by (simp add: first_data_def)
  qed
  then show ?thesis by (auto simp: BmcInitEntryPoint_def ASSERT_def)
qed

end
