(* ===== verification/CheckSum.thy ===== *)
theory CheckSum
  imports Liano_Prelude
begin

text \<open>
  MdePkg/Library/BaseLib/CheckSum.c: sums and two's complement checksums of buffers of 8, 16, 32 and 64-bit values, and the table-driven
  32-bit CRC. A buffer is its address, which the ASSERTs look at, and the elements its memory holds; reading behind them
  is a failure of the model. The CRC is proved equal to the division of the message by the CRC-32 polynomial bit by bit.
\<close>

unbundle bit_operations_syntax

section \<open>Sums\<close>

abbreviation MAX_ADDRESS :: UINTN where "MAX_ADDRESS \<equiv> 0xFFFFFFFFFFFFFFFF"

text \<open>The for loop of the sums, whose additions drop the carries.\<close>

definition sum_elements :: "'a::len word list \<Rightarrow> nat \<Rightarrow> 'a word option" where
  "sum_elements Memory n =
     (if n \<le> length Memory then Some (foldl (+) 0 (take n Memory)) else None)"

definition CalculateSum8 :: "UINTN \<Rightarrow> UINT8 list \<Rightarrow> UINTN \<Rightarrow> UINT8 option" where
  "CalculateSum8 Buffer Memory Length =
     do {
       ASSERT (Buffer \<noteq> 0);
       ASSERT (Length \<le> MAX_ADDRESS - Buffer + 1);
       sum_elements Memory (unat Length)
     }"

definition CalculateCheckSum8 :: "UINTN \<Rightarrow> UINT8 list \<Rightarrow> UINTN \<Rightarrow> UINT8 option" where
  "CalculateCheckSum8 Buffer Memory Length =
     do { CheckSum \<leftarrow> CalculateSum8 Buffer Memory Length; Some (word_of_int (0x100 - uint CheckSum)) }"

definition CalculateSum16 :: "UINTN \<Rightarrow> UINT16 list \<Rightarrow> UINTN \<Rightarrow> UINT16 option" where
  "CalculateSum16 Buffer Memory Length =
     do {
       ASSERT (Buffer \<noteq> 0);
       ASSERT (Buffer AND 0x1 = 0);
       ASSERT (Length AND 0x1 = 0);
       ASSERT (Length \<le> MAX_ADDRESS - Buffer + 1);
       sum_elements Memory (unat (Length div 2))
     }"

definition CalculateCheckSum16 :: "UINTN \<Rightarrow> UINT16 list \<Rightarrow> UINTN \<Rightarrow> UINT16 option" where
  "CalculateCheckSum16 Buffer Memory Length =
     do { CheckSum \<leftarrow> CalculateSum16 Buffer Memory Length; Some (word_of_int (0x10000 - uint CheckSum)) }"

definition CalculateSum32 :: "UINTN \<Rightarrow> UINT32 list \<Rightarrow> UINTN \<Rightarrow> UINT32 option" where
  "CalculateSum32 Buffer Memory Length =
     do {
       ASSERT (Buffer \<noteq> 0);
       ASSERT (Buffer AND 0x3 = 0);
       ASSERT (Length AND 0x3 = 0);
       ASSERT (Length \<le> MAX_ADDRESS - Buffer + 1);
       sum_elements Memory (unat (Length div 4))
     }"

definition CalculateCheckSum32 :: "UINTN \<Rightarrow> UINT32 list \<Rightarrow> UINTN \<Rightarrow> UINT32 option" where
  "CalculateCheckSum32 Buffer Memory Length =
     do { CheckSum \<leftarrow> CalculateSum32 Buffer Memory Length; Some (- 1 - CheckSum + 1) }"

definition CalculateSum64 :: "UINTN \<Rightarrow> UINT64 list \<Rightarrow> UINTN \<Rightarrow> UINT64 option" where
  "CalculateSum64 Buffer Memory Length =
     do {
       ASSERT (Buffer \<noteq> 0);
       ASSERT (Buffer AND 0x7 = 0);
       ASSERT (Length AND 0x7 = 0);
       ASSERT (Length \<le> MAX_ADDRESS - Buffer + 1);
       sum_elements Memory (unat (Length div 8))
     }"

definition CalculateCheckSum64 :: "UINTN \<Rightarrow> UINT64 list \<Rightarrow> UINTN \<Rightarrow> UINT64 option" where
  "CalculateCheckSum64 Buffer Memory Length =
     do { CheckSum \<leftarrow> CalculateSum64 Buffer Memory Length; Some (- 1 - CheckSum + 1) }"

section \<open>CRC\<close>

definition mCrcTable :: "UINT32 list" where
  "mCrcTable =
    [0x00000000, 0x77073096, 0xEE0E612C, 0x990951BA, 0x076DC419, 0x706AF48F, 0xE963A535, 0x9E6495A3,
     0x0EDB8832, 0x79DCB8A4, 0xE0D5E91E, 0x97D2D988, 0x09B64C2B, 0x7EB17CBD, 0xE7B82D07, 0x90BF1D91,
     0x1DB71064, 0x6AB020F2, 0xF3B97148, 0x84BE41DE, 0x1ADAD47D, 0x6DDDE4EB, 0xF4D4B551, 0x83D385C7,
     0x136C9856, 0x646BA8C0, 0xFD62F97A, 0x8A65C9EC, 0x14015C4F, 0x63066CD9, 0xFA0F3D63, 0x8D080DF5,
     0x3B6E20C8, 0x4C69105E, 0xD56041E4, 0xA2677172, 0x3C03E4D1, 0x4B04D447, 0xD20D85FD, 0xA50AB56B,
     0x35B5A8FA, 0x42B2986C, 0xDBBBC9D6, 0xACBCF940, 0x32D86CE3, 0x45DF5C75, 0xDCD60DCF, 0xABD13D59,
     0x26D930AC, 0x51DE003A, 0xC8D75180, 0xBFD06116, 0x21B4F4B5, 0x56B3C423, 0xCFBA9599, 0xB8BDA50F,
     0x2802B89E, 0x5F058808, 0xC60CD9B2, 0xB10BE924, 0x2F6F7C87, 0x58684C11, 0xC1611DAB, 0xB6662D3D,
     0x76DC4190, 0x01DB7106, 0x98D220BC, 0xEFD5102A, 0x71B18589, 0x06B6B51F, 0x9FBFE4A5, 0xE8B8D433,
     0x7807C9A2, 0x0F00F934, 0x9609A88E, 0xE10E9818, 0x7F6A0DBB, 0x086D3D2D, 0x91646C97, 0xE6635C01,
     0x6B6B51F4, 0x1C6C6162, 0x856530D8, 0xF262004E, 0x6C0695ED, 0x1B01A57B, 0x8208F4C1, 0xF50FC457,
     0x65B0D9C6, 0x12B7E950, 0x8BBEB8EA, 0xFCB9887C, 0x62DD1DDF, 0x15DA2D49, 0x8CD37CF3, 0xFBD44C65,
     0x4DB26158, 0x3AB551CE, 0xA3BC0074, 0xD4BB30E2, 0x4ADFA541, 0x3DD895D7, 0xA4D1C46D, 0xD3D6F4FB,
     0x4369E96A, 0x346ED9FC, 0xAD678846, 0xDA60B8D0, 0x44042D73, 0x33031DE5, 0xAA0A4C5F, 0xDD0D7CC9,
     0x5005713C, 0x270241AA, 0xBE0B1010, 0xC90C2086, 0x5768B525, 0x206F85B3, 0xB966D409, 0xCE61E49F,
     0x5EDEF90E, 0x29D9C998, 0xB0D09822, 0xC7D7A8B4, 0x59B33D17, 0x2EB40D81, 0xB7BD5C3B, 0xC0BA6CAD,
     0xEDB88320, 0x9ABFB3B6, 0x03B6E20C, 0x74B1D29A, 0xEAD54739, 0x9DD277AF, 0x04DB2615, 0x73DC1683,
     0xE3630B12, 0x94643B84, 0x0D6D6A3E, 0x7A6A5AA8, 0xE40ECF0B, 0x9309FF9D, 0x0A00AE27, 0x7D079EB1,
     0xF00F9344, 0x8708A3D2, 0x1E01F268, 0x6906C2FE, 0xF762575D, 0x806567CB, 0x196C3671, 0x6E6B06E7,
     0xFED41B76, 0x89D32BE0, 0x10DA7A5A, 0x67DD4ACC, 0xF9B9DF6F, 0x8EBEEFF9, 0x17B7BE43, 0x60B08ED5,
     0xD6D6A3E8, 0xA1D1937E, 0x38D8C2C4, 0x4FDFF252, 0xD1BB67F1, 0xA6BC5767, 0x3FB506DD, 0x48B2364B,
     0xD80D2BDA, 0xAF0A1B4C, 0x36034AF6, 0x41047A60, 0xDF60EFC3, 0xA867DF55, 0x316E8EEF, 0x4669BE79,
     0xCB61B38C, 0xBC66831A, 0x256FD2A0, 0x5268E236, 0xCC0C7795, 0xBB0B4703, 0x220216B9, 0x5505262F,
     0xC5BA3BBE, 0xB2BD0B28, 0x2BB45A92, 0x5CB36A04, 0xC2D7FFA7, 0xB5D0CF31, 0x2CD99E8B, 0x5BDEAE1D,
     0x9B64C2B0, 0xEC63F226, 0x756AA39C, 0x026D930A, 0x9C0906A9, 0xEB0E363F, 0x72076785, 0x05005713,
     0x95BF4A82, 0xE2B87A14, 0x7BB12BAE, 0x0CB61B38, 0x92D28E9B, 0xE5D5BE0D, 0x7CDCEFB7, 0x0BDBDF21,
     0x86D3D2D4, 0xF1D4E242, 0x68DDB3F8, 0x1FDA836E, 0x81BE16CD, 0xF6B9265B, 0x6FB077E1, 0x18B74777,
     0x88085AE6, 0xFF0F6A70, 0x66063BCA, 0x11010B5C, 0x8F659EFF, 0xF862AE69, 0x616BFFD3, 0x166CCF45,
     0xA00AE278, 0xD70DD2EE, 0x4E048354, 0x3903B3C2, 0xA7672661, 0xD06016F7, 0x4969474D, 0x3E6E77DB,
     0xAED16A4A, 0xD9D65ADC, 0x40DF0B66, 0x37D83BF0, 0xA9BCAE53, 0xDEBB9EC5, 0x47B2CF7F, 0x30B5FFE9,
     0xBDBDF21C, 0xCABAC28A, 0x53B39330, 0x24B4A3A6, 0xBAD03605, 0xCDD70693, 0x54DE5729, 0x23D967BF,
     0xB3667A2E, 0xC4614AB8, 0x5D681B02, 0x2A6F2B94, 0xB40BBE37, 0xC30C8EA1, 0x5A05DF1B, 0x2D02EF8D]"

definition CalculateCrc32 :: "UINTN \<Rightarrow> UINT8 list \<Rightarrow> UINTN \<Rightarrow> UINT32 option" where
  "CalculateCrc32 Buffer Memory Length =
     do {
       ASSERT (Buffer \<noteq> 0);
       ASSERT (Length \<le> MAX_ADDRESS - Buffer + 1);
       ASSERT (unat Length \<le> length Memory);
       let Crc = foldl (\<lambda>Crc b. drop_bit 8 Crc XOR mCrcTable ! unat (ucast Crc XOR b :: UINT8)) 0xffffffff (take (unat Length) Memory);
       Some (Crc XOR 0xffffffff)
     }"

section \<open>A buffer with its checksum sums to zero\<close>

lemma foldl_add: "foldl (+) (a :: 'a::len word) xs = a + sum_list xs"
  by (induction xs arbitrary: a) (simp_all add: add.assoc)

lemma sum_elements_eq: "n \<le> length xs \<Longrightarrow> sum_elements xs n = Some (sum_list (take n xs))"
  by (simp add: sum_elements_def foldl_add)

lemma neg_word: "word_of_int (2 ^ LENGTH('a) - uint w) = - (w :: 'a::len word)"
  by (simp add: word_of_int_2p_len)

lemma aligned_and:
  fixes w :: UINTN
  assumes "unat w = 2 ^ k * m"
  shows "w AND mask k = 0"
proof -
  have "unat (take_bit k w) = 0" using assms by (subst unsigned_take_bit_eq) (simp add: take_bit_eq_mod)
  then show ?thesis by (simp add: unat_eq_zero flip: take_bit_eq_mask)
qed

lemma low_bits_clear: "(w :: UINTN) AND 0x7 = 0 \<Longrightarrow> w AND 0x3 = 0 \<and> w AND 0x1 = 0"
proof -
  assume "w AND 0x7 = 0"
  then have "(w AND 0x7) AND 0x3 = 0" "(w AND 0x7) AND 0x1 = 0" by simp_all
  then show ?thesis by (simp add: and.assoc)
qed

text \<open>
  A checksum closes its buffer: for buffers of 8, 16, 32 and 64-bit elements at an aligned nonzero address that end inside the address
  space, with Length in bytes, CalculateCheckSum returns, and the elements followed by the checksum
  sum to zero modulo 2 to the width.
\<close>

theorem checksum_closes_buffer:
  fixes xs :: "UINT8 list" and ys :: "UINT16 list" and zs :: "UINT32 list" and us :: "UINT64 list"
  assumes p: "p \<noteq> 0" "p AND 0x7 = 0"
    and fit: "i \<le> MAX_ADDRESS - p + 1" "j \<le> MAX_ADDRESS - p + 1" "k \<le> MAX_ADDRESS - p + 1" "l \<le> MAX_ADDRESS - p + 1"
    and len: "unat i = length xs" "unat j = 2 * length ys" "unat k = 4 * length zs" "unat l = 8 * length us"
  shows "\<exists>c d e f. CalculateCheckSum8 p xs i = Some c \<and> sum_list (xs @ [c]) = 0
    \<and> CalculateCheckSum16 p ys j = Some d \<and> sum_list (ys @ [d]) = 0
    \<and> CalculateCheckSum32 p zs k = Some e \<and> sum_list (zs @ [e]) = 0
    \<and> CalculateCheckSum64 p us l = Some f \<and> sum_list (us @ [f]) = 0"
proof -
  have al: "j AND 0x1 = 0" "k AND 0x3 = 0" "l AND 0x7 = 0"
    using aligned_and[of j 1] aligned_and[of k 2] aligned_and[of l 3] len by (simp_all add: mask_numeral)
  have cnt: "unat (j div 2) = length ys" "unat (k div 4) = length zs" "unat (l div 8) = length us"
    using len by (simp_all add: unat_div)
  have "CalculateCheckSum8 p xs i = Some (- sum_list xs)" "CalculateCheckSum16 p ys j = Some (- sum_list ys)"
    "CalculateCheckSum32 p zs k = Some (- sum_list zs)" "CalculateCheckSum64 p us l = Some (- sum_list us)"
    using p fit al cnt len(1) low_bits_clear[OF p(2)] neg_word[of "sum_list xs"] neg_word[of "sum_list ys"]
    by (simp_all add: CalculateCheckSum8_def CalculateSum8_def CalculateCheckSum16_def CalculateSum16_def
        CalculateCheckSum32_def CalculateSum32_def CalculateCheckSum64_def CalculateSum64_def sum_elements_eq)
  then show ?thesis by simp
qed

theorem checksum_closes_buffer_witness:
  "\<exists>c. CalculateCheckSum8 0x1000 [0x12, 0xFE] 2 = Some c \<and> sum_list [0x12, 0xFE, c] = 0"
  using checksum_closes_buffer[where p = "0x1000" and i = 2 and xs = "[0x12, 0xFE]" and j = 0 and ys = "[]" and k = 0 and zs = "[]"
      and l = 0 and us = "[]"] by auto

section \<open>The CRC divides by the polynomial\<close>

text \<open>One bit of the division by the reflected CRC-32 polynomial, and eight of them for a byte.\<close>

definition crc_bit :: "UINT32 \<Rightarrow> UINT32" where
  "crc_bit c = (if bit c 0 then drop_bit 1 c XOR 0xEDB88320 else drop_bit 1 c)"

definition crc_byte :: "UINT32 \<Rightarrow> UINT8 \<Rightarrow> UINT32" where
  "crc_byte c b = (crc_bit ^^ 8) (c XOR ucast b)"

definition crc32_reference :: "UINT8 list \<Rightarrow> UINT32" where
  "crc32_reference bs = NOT (foldl crc_byte 0xFFFFFFFF bs)"

definition crc_entry :: "UINT32 \<Rightarrow> UINT32 \<Rightarrow> bool" where
  "crc_entry c t \<longleftrightarrow> crc_bit (crc_bit (crc_bit (crc_bit (crc_bit (crc_bit (crc_bit (crc_bit c))))))) = t"

fun crc_entries :: "UINT32 \<Rightarrow> UINT32 list \<Rightarrow> bool" where
  "crc_entries c [] = True"
| "crc_entries c (t # ts) = (crc_entry c t \<and> crc_entries (c + 1) ts)"

lemma crc_table: "crc_entries 0 mCrcTable"
  by (simp add: mCrcTable_def crc_entry_def crc_bit_def)

lemma crc_entries_nth: "crc_entries c ts \<Longrightarrow> i < length ts \<Longrightarrow> crc_entry (c + of_nat i) (ts ! i)"
proof (induction ts arbitrary: c i)
  case (Cons t ts)
  then show ?case using Cons.IH[of "c + 1" "i - 1"] by (cases i) (simp_all add: add.assoc)
qed simp

lemma length_crc_table: "length mCrcTable = 256"
  by (simp add: mCrcTable_def)

lemma crc_bits_eight: "crc_entry c t \<longleftrightarrow> (crc_bit ^^ 8) c = t"
  by (simp add: crc_entry_def eval_nat_numeral)

lemma crc_byte_eval:
  "crc_byte c b = crc_bit (crc_bit (crc_bit (crc_bit (crc_bit (crc_bit (crc_bit (crc_bit (c XOR ucast b))))))))"
  by (simp add: crc_byte_def eval_nat_numeral)

lemma crc_bit_xor: "crc_bit (a XOR b) = crc_bit a XOR crc_bit b"
  by (rule bit_word_eqI) (auto simp: crc_bit_def bit_simps)

lemma crc_bits_xor: "(crc_bit ^^ n) (a XOR b) = (crc_bit ^^ n) a XOR (crc_bit ^^ n) b"
  by (induction n) (simp_all add: crc_bit_xor)

lemma crc_bits_high: "(\<And>k. k < n \<Longrightarrow> \<not> bit a k) \<Longrightarrow> (crc_bit ^^ n) a = drop_bit n a"
proof (induction n)
  case (Suc n)
  then have "(crc_bit ^^ n) a = drop_bit n a" by simp
  moreover have "\<not> bit (drop_bit n a) 0" using Suc.prems[of n] by (simp add: bit_drop_bit_eq)
  ultimately have "(crc_bit ^^ Suc n) a = drop_bit 1 (drop_bit n a)" by (simp add: crc_bit_def[of "drop_bit n a"])
  then show ?case by (simp add: ac_simps)
qed simp

lemma table_step: "drop_bit 8 c XOR mCrcTable ! unat (ucast c XOR b :: UINT8) = crc_byte c b"
proof -
  let ?l = "ucast c XOR b :: UINT8"
  have "unat ?l < 256" using unat_less_power[of ?l] by simp
  then have "crc_entry (of_nat (unat ?l)) (mCrcTable ! unat ?l)" using crc_entries_nth[OF crc_table, of "unat ?l"] length_crc_table by simp
  moreover have "of_nat (unat ?l) = (ucast ?l :: UINT32)" by simp
  ultimately have t: "mCrcTable ! unat ?l = (crc_bit ^^ 8) (ucast ?l)" by (simp only: crc_bits_eight)
  have split: "c XOR ucast b = push_bit 8 (drop_bit 8 c) XOR ucast ?l"
    by (rule bit_word_eqI) (auto simp: bit_simps)
  have "(crc_bit ^^ 8) (push_bit 8 (drop_bit 8 c)) = drop_bit 8 (push_bit 8 (drop_bit 8 c))"
    by (rule crc_bits_high) (simp add: bit_push_bit_iff)
  also have "\<dots> = drop_bit 8 c" by (rule bit_word_eqI) (auto simp: bit_simps dest: bit_imp_le_length)
  finally show ?thesis unfolding crc_byte_def split crc_bits_xor t by simp
qed

text \<open>
  (C37) The table-driven CRC is the CRC-32 of the bytes: for a buffer at a nonzero address that ends inside the address space,
  CalculateCrc32 returns the remainder of the bit by bit division by the reflected polynomial 0xEDB88320, started with all ones and complemented.
  In particular all 256 entries of the table are right.
\<close>

theorem crc32_exact:
  assumes "p \<noteq> 0" "n \<le> MAX_ADDRESS - p + 1" "unat n \<le> length Memory"
  shows "CalculateCrc32 p Memory n = Some (crc32_reference (take (unat n) Memory))"
proof -
  have "0xffffffff = (- 1 :: UINT32)" by simp
  then have "x XOR 0xffffffff = NOT x" for x :: UINT32 by (simp only:) (rule bit_word_eqI, simp add: bit_simps)
  then show ?thesis using assms by (simp add: CalculateCrc32_def crc32_reference_def table_step)
qed

theorem crc32_exact_witness: "CalculateCrc32 0x1000 [0x31, 0x32, 0x33, 0x34, 0x35, 0x36, 0x37, 0x38, 0x39] 9 = Some 0xCBF43926"
proof -
  have "crc32_reference [0x31, 0x32, 0x33, 0x34, 0x35, 0x36, 0x37, 0x38, 0x39] = 0xCBF43926"
    by (simp add: crc32_reference_def crc_byte_eval crc_bit_def)
  then show ?thesis using crc32_exact[of "0x1000" 9 "[0x31, 0x32, 0x33, 0x34, 0x35, 0x36, 0x37, 0x38, 0x39]"] by simp
qed

end
