(* ===== verification/BaseSort.thy ===== *)
theory BaseSort
  imports Liano_Prelude
begin

text \<open>
  MdeModulePkg/Library/BaseSortLib/BaseSortLib.c: the in-place quicksort of a buffer of elements. The buffer is the list of its
  elements, which the code moves as wholes with CopyMem; a part of it is given by the index of its first element and a count. The
  comparison function is a parameter. The worker is proved to permute its part of the buffer only, and to sort
  it when the comparison is a total preorder.
\<close>

section \<open>The worker\<close>

text \<open>CopyMem of one element over another through the swap buffer: the three CopyMem calls of a swap.\<close>

definition swap :: "'a list \<Rightarrow> nat \<Rightarrow> nat \<Rightarrow> 'a list" where
  "swap xs i j = (let Buffer = xs ! i; xs = xs[i := xs ! j] in xs[j := Buffer])"

text \<open>
  The partitioning loop: \<open>LoopCount\<close> from 0 to \<open>Count - 1\<close>, with the pivot the last element of the part. The results are
  the buffer and NextSwapLocation.
\<close>

function Partition_loop :: "('a \<Rightarrow> 'a \<Rightarrow> int) \<Rightarrow> nat \<Rightarrow> nat \<Rightarrow> nat \<Rightarrow> nat \<Rightarrow> 'a list \<Rightarrow> 'a list \<times> nat" where
  "Partition_loop CompareFunction base n LoopCount NextSwapLocation xs =
     (if LoopCount < n - 1
      then if CompareFunction (xs ! (base + LoopCount)) (xs ! (base + (n - 1))) \<le> 0
           then Partition_loop CompareFunction base n (LoopCount + 1) (NextSwapLocation + 1)
                  (swap xs (base + NextSwapLocation) (base + LoopCount))
           else Partition_loop CompareFunction base n (LoopCount + 1) NextSwapLocation xs
      else (xs, NextSwapLocation))"
  by pat_completeness auto
termination
  by (relation "measure (\<lambda>(CompareFunction, base, n, LoopCount, NextSwapLocation, xs). n - LoopCount)") auto

declare Partition_loop.simps [simp del]

lemma Partition_loop_bound:
  "NextSwapLocation \<le> LoopCount \<Longrightarrow> LoopCount < n \<Longrightarrow> snd (Partition_loop c base n LoopCount NextSwapLocation xs) < n"
proof (induction c base n LoopCount NextSwapLocation xs rule: Partition_loop.induct)
  case (1 c base n LoopCount NextSwapLocation xs)
  then show ?case by (subst Partition_loop.simps) auto
qed

text \<open>\<open>base\<close> and \<open>n\<close> are the part of the buffer the pointer and Count of a call stand for.\<close>

function QuickSortWorker :: "('a \<Rightarrow> 'a \<Rightarrow> int) \<Rightarrow> nat \<Rightarrow> nat \<Rightarrow> nat \<Rightarrow> 'a list \<Rightarrow> 'a list" where
  "QuickSortWorker CompareFunction ElementSize base n xs =
     (if n < 2 \<or> ElementSize < 1 then xs
      else
        let (xs, NextSwapLocation) = Partition_loop CompareFunction base n 0 0 xs;
            xs = swap xs (base + (n - 1)) (base + NextSwapLocation);
            xs = (if NextSwapLocation \<ge> 2
                  then QuickSortWorker CompareFunction ElementSize base NextSwapLocation xs else xs)
        in if n - NextSwapLocation - 1 \<ge> 2
           then QuickSortWorker CompareFunction ElementSize (base + (NextSwapLocation + 1)) (n - NextSwapLocation - 1) xs
           else xs)"
  by pat_completeness auto
termination
proof (relation "measure (\<lambda>(CompareFunction, ElementSize, base, n, xs). n)", goal_cases)
  case (2 c ElementSize base n xs p ys k)
  then have "snd (Partition_loop c base n 0 0 xs) < n" by (intro Partition_loop_bound) auto
  then show ?case using 2 by (metis in_measure old.prod.case snd_conv)
next
  case (3 c ElementSize base n xs p ys k)
  then show ?case by auto
qed simp

declare QuickSortWorker.simps [simp del]

text \<open>
  A NULL pointer is \<open>None\<close>; \<open>Pool\<close> tells whether AllocateZeroPool gives the swap buffer. The worker's own assertions
  repeat these three, and a recursive call passes the same pointers or one inside the buffer.
\<close>

definition PerformQuickSort :: "bool \<Rightarrow> 'a list option \<Rightarrow> nat \<Rightarrow> nat \<Rightarrow> ('a \<Rightarrow> 'a \<Rightarrow> int) option \<Rightarrow> 'a list option" where
  "PerformQuickSort Pool BufferToSort n ElementSize CompareFunction =
     do { xs \<leftarrow> BufferToSort;
          c \<leftarrow> CompareFunction;
          ASSERT Pool;
          Some (QuickSortWorker c ElementSize 0 n xs) }"

section \<open>A part of the buffer is permuted\<close>

definition part_perm :: "nat \<Rightarrow> nat \<Rightarrow> 'a list \<Rightarrow> 'a list \<Rightarrow> bool" where
  "part_perm base n xs ys \<longleftrightarrow> length ys = length xs \<and> mset ys = mset xs \<and>
     (\<forall>i < length xs. i < base \<or> base + n \<le> i \<longrightarrow> ys ! i = xs ! i)"

lemma part_perm_refl [simp]: "part_perm base n xs xs"
  by (simp add: part_perm_def)

lemma part_perm_trans: "part_perm base n xs ys \<Longrightarrow> part_perm base n ys zs \<Longrightarrow> part_perm base n xs zs"
  by (simp add: part_perm_def)

lemma part_perm_mono: "part_perm a m xs ys \<Longrightarrow> base \<le> a \<Longrightarrow> a + m \<le> base + n \<Longrightarrow> part_perm base n xs ys"
  by (auto simp: part_perm_def)

lemma part_perm_swap:
  assumes "base + n \<le> length xs" "i < n" "j < n"
  shows "part_perm base n xs (swap xs (base + i) (base + j))"
  using assms mset_swap[of "base + j" xs "base + i"]
  by (auto simp: part_perm_def swap_def Let_def nth_list_update)

text \<open>The elements of the part are the same ones.\<close>

lemma part_perm_mset:
  assumes "part_perm base n xs ys" "base + n \<le> length xs"
  shows "mset (take n (drop base ys)) = mset (take n (drop base xs))"
proof -
  have split: "mset zs = mset (take base zs) + mset (take n (drop base zs)) + mset (drop (base + n) zs)" for zs :: "'a list"
  proof -
    have "zs = take base zs @ take n (drop base zs) @ drop (base + n) zs" by (metis append_take_drop_id drop_drop add.commute)
    then show ?thesis by (metis mset_append add.assoc)
  qed
  have "take base ys = take base xs" using assms by (intro nth_equalityI) (auto simp: part_perm_def)
  moreover have "drop (base + n) ys = drop (base + n) xs" using assms by (intro nth_equalityI) (auto simp: part_perm_def)
  ultimately show ?thesis using assms(1) split[of xs] split[of ys] by (simp add: part_perm_def)
qed

lemma part_perm_forall:
  assumes "part_perm base n xs ys" "base + n \<le> length xs" "\<And>i. i < n \<Longrightarrow> P (xs ! (base + i))" "i < n"
  shows "P (ys ! (base + i))"
proof -
  have len: "length ys = length xs" using assms(1) by (simp add: part_perm_def)
  have "ys ! (base + i) \<in> set (take n (drop base ys))"
    using assms(2,4) len by (auto simp: in_set_conv_nth intro!: exI[of _ i])
  also have "set (take n (drop base ys)) = set (take n (drop base xs))"
    using part_perm_mset[OF assms(1,2)] by (metis set_mset_mset)
  finally obtain j where "j < n" "ys ! (base + i) = xs ! (base + j)" using assms(2) by (auto simp: in_set_conv_nth)
  then show ?thesis using assms(3)[of j] by simp
qed

section \<open>Partitioning\<close>

lemma partition_correct:
  assumes "k \<le> l" "l \<le> n - 1" "0 < n" "base + n \<le> length xs" "pv = xs ! (base + (n - 1))"
    and "\<And>i. i < k \<Longrightarrow> c (xs ! (base + i)) pv \<le> 0" and "\<And>i. k \<le> i \<Longrightarrow> i < l \<Longrightarrow> \<not> c (xs ! (base + i)) pv \<le> 0"
    and "Partition_loop c base n l k xs = (ys, m)"
  shows "part_perm base (n - 1) xs ys \<and> m \<le> n - 1 \<and> (\<forall>i < m. c (ys ! (base + i)) pv \<le> 0)
    \<and> (\<forall>i. m \<le> i \<longrightarrow> i < n - 1 \<longrightarrow> \<not> c (ys ! (base + i)) pv \<le> 0)"
  using assms
proof (induction c base n l k xs rule: Partition_loop.induct)
  case (1 c base n l k xs)
  show ?case
  proof (cases "l < n - 1")
    case False
    then have "Partition_loop c base n l k xs = (xs, k)" by (subst Partition_loop.simps) simp
    then have "ys = xs" "m = k" "l = n - 1" using "1.prems"(2,8) False by simp_all
    then show ?thesis using "1.prems"(1,6,7) by simp
  next
    case l: True
    show ?thesis
    proof (cases "c (xs ! (base + l)) pv \<le> 0")
      case False
      then have "Partition_loop c base n (l + 1) k xs = (ys, m)"
        using "1.prems"(5,8) l by (simp add: Partition_loop.simps[of c base n l k xs])
      moreover have "\<not> c (xs ! (base + i)) pv \<le> 0" if "k \<le> i" "i < l + 1" for i
        using that False "1.prems"(7)[of i] by (cases "i = l") auto
      ultimately show ?thesis using "1.IH"(2)[OF l] "1.prems" False l by auto
    next
      case le: True
      let ?xs = "swap xs (base + k) (base + l)"
      have run: "Partition_loop c base n (l + 1) (k + 1) ?xs = (ys, m)"
        using "1.prems"(5,8) l le by (simp add: Partition_loop.simps[of c base n l k xs])
      have at: "?xs ! (base + i) = (if i = l then xs ! (base + k) else if i = k then xs ! (base + l) else xs ! (base + i))"
        if "i < n" for i
        using that "1.prems"(1,2,4) l by (auto simp: swap_def Let_def nth_list_update)
      have p: "part_perm base (n - 1) xs ?xs" using "1.prems"(1,4) l by (intro part_perm_swap) auto
      have len: "length ?xs = length xs" by (simp add: swap_def Let_def)
      have pv: "pv = ?xs ! (base + (n - 1))" using at[of "n - 1"] "1.prems"(1,3,5) l by auto
      have lo: "c (?xs ! (base + i)) pv \<le> 0" if "i < k + 1" for i
        using that at[of i] "1.prems"(1) "1.prems"(6)[of i] le l by (cases "i = k") auto
      have hi: "\<not> c (?xs ! (base + i)) pv \<le> 0" if "k + 1 \<le> i" "i < l + 1" for i
        using that at[of i] "1.prems"(7)[of k] "1.prems"(7)[of i] l by (cases "i = l") auto
      have "part_perm base (n - 1) ?xs ys \<and> m \<le> n - 1 \<and> (\<forall>i < m. c (ys ! (base + i)) pv \<le> 0)
          \<and> (\<forall>i. m \<le> i \<longrightarrow> i < n - 1 \<longrightarrow> \<not> c (ys ! (base + i)) pv \<le> 0)"
        using "1.IH"(1)[OF l _ _ _ _ _ pv lo hi run] le "1.prems"(1,3,4,5) l len by auto
      then show ?thesis using part_perm_trans[OF p] by blast
    qed
  qed
qed


section \<open>Sorting\<close>

text \<open>One step of the worker: the pivot is at its place, what is not above it before it and what is above it after it.\<close>

lemma pivot_placed:
  assumes "2 \<le> n" "base + n \<le> length xs" "Partition_loop c base n 0 0 xs = (ys, m)"
  defines "zs \<equiv> swap ys (base + (n - 1)) (base + m)"
  shows "part_perm base n xs zs \<and> m < n \<and> (\<forall>i < m. c (zs ! (base + i)) (zs ! (base + m)) \<le> 0)
    \<and> (\<forall>i. m < i \<longrightarrow> i < n \<longrightarrow> \<not> c (zs ! (base + i)) (zs ! (base + m)) \<le> 0)"
proof -
  let ?pv = "xs ! (base + (n - 1))"
  have P: "part_perm base (n - 1) xs ys" "m \<le> n - 1" "\<And>i. i < m \<Longrightarrow> c (ys ! (base + i)) ?pv \<le> 0"
      "\<And>i. m \<le> i \<Longrightarrow> i < n - 1 \<Longrightarrow> \<not> c (ys ! (base + i)) ?pv \<le> 0"
    using partition_correct[of 0 0 n base xs ?pv c ys m] assms(1-3) by auto
  have len: "length ys = length xs" and pv: "ys ! (base + (n - 1)) = ?pv"
    using P(1) assms(1,2) by (auto simp: part_perm_def)
  have at: "zs ! (base + i) = (if i = m then ?pv else if i = n - 1 then ys ! (base + m) else ys ! (base + i))" if "i < n" for i
    using that assms(1,2) P(2) len pv by (auto simp: zs_def swap_def Let_def nth_list_update)
  have "part_perm base n ys zs" unfolding zs_def using assms(1,2) len P(2) by (intro part_perm_swap) auto
  then have "part_perm base n xs zs" using part_perm_trans[OF part_perm_mono[OF P(1)]] by simp
  moreover have "m < n" using P(2) assms(1) by simp
  moreover have "c (zs ! (base + i)) (zs ! (base + m)) \<le> 0" if "i < m" for i
    using at[of i] at[of m] P(2) P(3)[OF that] that assms(1) by auto
  moreover have "\<not> c (zs ! (base + i)) (zs ! (base + m)) \<le> 0" if "m < i" "i < n" for i
    using at[of i] at[of m] P(2) P(4)[of i] P(4)[of m] that assms(1) by (cases "i = n - 1") auto
  ultimately show ?thesis by blast
qed

lemma QuickSortWorker_small [simp]: "n < 2 \<Longrightarrow> QuickSortWorker c ElementSize base n xs = xs"
  by (subst QuickSortWorker.simps) simp

lemma QuickSortWorker_step:
  assumes "2 \<le> n" "0 < ElementSize" "Partition_loop c base n 0 0 xs = (ys, m)"
  shows "QuickSortWorker c ElementSize base n xs = QuickSortWorker c ElementSize (base + (m + 1)) (n - m - 1)
    (QuickSortWorker c ElementSize base m (swap ys (base + (n - 1)) (base + m)))"
  using assms by (subst QuickSortWorker.simps) (simp add: Let_def not_le)

definition sorted_part :: "('a \<Rightarrow> 'a \<Rightarrow> int) \<Rightarrow> nat \<Rightarrow> nat \<Rightarrow> 'a list \<Rightarrow> bool" where
  "sorted_part c base n xs \<longleftrightarrow> (\<forall>j < n. \<forall>i < j. c (xs ! (base + i)) (xs ! (base + j)) \<le> 0)"

lemma sorted_around_pivot:
  assumes trans: "\<And>a b d. c a b \<le> 0 \<Longrightarrow> c b d \<le> 0 \<Longrightarrow> c a d \<le> 0"
    and lower: "sorted_part c base m vs" and upper: "sorted_part c (base + (m + 1)) (n - m - 1) vs"
    and lo: "\<And>i. i < m \<Longrightarrow> c (vs ! (base + i)) (vs ! (base + m)) \<le> 0"
    and hi: "\<And>i. m < i \<Longrightarrow> i < n \<Longrightarrow> c (vs ! (base + m)) (vs ! (base + i)) \<le> 0"
  shows "sorted_part c base n vs"
proof -
  have "c (vs ! (base + i)) (vs ! (base + j)) \<le> 0" if ij: "i < j" "j < n" for i j
  proof -
    consider "j < m" | "j = m" | "i < m" "m < j" | "i = m" | "m < i" using ij by linarith
    then show ?thesis
    proof cases
      case 3
      then show ?thesis using trans[OF lo hi] ij by blast
    next
      case 5
      then have "i - m - 1 < j - m - 1" "j - m - 1 < n - m - 1" using ij by auto
      then show ?thesis using upper 5 ij by (fastforce simp: sorted_part_def)
    qed (use lower lo hi ij in \<open>auto simp: sorted_part_def\<close>)
  qed
  then show ?thesis by (simp add: sorted_part_def)
qed

lemma worker_sorts:
  assumes cmp: "\<And>a b. c a b \<le> 0 \<or> c b a \<le> 0" "\<And>a b d. c a b \<le> 0 \<Longrightarrow> c b d \<le> 0 \<Longrightarrow> c a d \<le> 0" and "0 < ElementSize"
  shows "base + n \<le> length xs \<Longrightarrow> part_perm base n xs (QuickSortWorker c ElementSize base n xs)
    \<and> sorted_part c base n (QuickSortWorker c ElementSize base n xs)"
proof (induction n arbitrary: base xs rule: less_induct)
  case (less n)
  show ?case
  proof (cases "n < 2")
    case True
    then show ?thesis by (auto simp: sorted_part_def less_2_cases_iff)
  next
    case False
    obtain ys m where part: "Partition_loop c base n 0 0 xs = (ys, m)" by fastforce
    define zs where "zs = swap ys (base + (n - 1)) (base + m)"
    define us where "us = QuickSortWorker c ElementSize base m zs"
    define vs where "vs = QuickSortWorker c ElementSize (base + (m + 1)) (n - m - 1) us"
    have step: "QuickSortWorker c ElementSize base n xs = vs"
      using QuickSortWorker_step[OF _ assms(3) part] False by (simp add: zs_def us_def vs_def)
    have Z: "part_perm base n xs zs" "m < n" "\<And>i. i < m \<Longrightarrow> c (zs ! (base + i)) (zs ! (base + m)) \<le> 0"
        "\<And>i. m < i \<Longrightarrow> i < n \<Longrightarrow> \<not> c (zs ! (base + i)) (zs ! (base + m)) \<le> 0"
      using pivot_placed[OF _ less.prems part] False by (simp_all add: zs_def)
    have lz: "length zs = length xs" using Z(1) by (simp add: part_perm_def)
    have U: "part_perm base m zs us" "sorted_part c base m us"
      using less.IH[OF Z(2), of base zs] less.prems Z(2) lz by (simp_all add: us_def)
    have lu: "length us = length xs" using U(1) lz by (simp add: part_perm_def)
    have V: "part_perm (base + (m + 1)) (n - m - 1) us vs" "sorted_part c (base + (m + 1)) (n - m - 1) vs"
      using less.IH[of "n - m - 1" "base + (m + 1)" us] less.prems Z(2) lu by (simp_all add: vs_def)
    have perm: "part_perm base n xs vs"
      using part_perm_trans[OF Z(1) part_perm_trans[OF part_perm_mono[OF U(1)] part_perm_mono[OF V(1)]]] Z(2) by simp
    let ?pv = "zs ! (base + m)"
    have same: "vs ! (base + i) = us ! (base + i)" if "i \<le> m" for i
      using V(1) that less.prems Z(2) lu by (simp add: part_perm_def)
    have pivot: "vs ! (base + m) = ?pv" using same[of m] U(1) less.prems Z(2) lz by (simp add: part_perm_def)
    have lo: "c (vs ! (base + i)) ?pv \<le> 0" if "i < m" for i
      using part_perm_forall[OF U(1), of "\<lambda>x. c x ?pv \<le> 0" i] less.prems Z(2,3) lz same[of i] that by simp
    have above: "c ?pv (us ! (base + (m + 1) + i)) \<le> 0" if "i < n - m - 1" for i
      using Z(4)[of "m + 1 + i"] cmp(1)[of ?pv "zs ! (base + (m + 1 + i))"] U(1) that less.prems lz
      by (auto simp: part_perm_def add.assoc)
    have hi: "c ?pv (vs ! (base + i)) \<le> 0" if "m < i" "i < n" for i
      using part_perm_forall[OF V(1), of "\<lambda>x. c ?pv x \<le> 0" "i - m - 1"] above less.prems Z(2) lu that by simp
    have "sorted_part c base m vs" using U(2) same by (simp add: sorted_part_def)
    then have "sorted_part c base n vs" using sorted_around_pivot[OF cmp(2) _ V(2)] lo hi pivot by simp
    then show ?thesis using step perm by simp
  qed
qed

section \<open>The library call\<close>

text \<open>
  Sorting a buffer of at least \<open>n\<close> elements (C38): with a swap buffer and a comparison function that is a total preorder,
  PerformQuickSort returns, the buffer has the same elements, those after the first \<open>n\<close> are where they were, and of any two of the
  first \<open>n\<close> the earlier is not above the later. Without a buffer to sort, a comparison or a swap buffer the call asserts, and
  elements of size 0 are left alone.
\<close>

theorem quicksort_sorts:
  assumes "\<And>a b. c a b \<le> 0 \<or> c b a \<le> 0" "\<And>a b d. c a b \<le> 0 \<Longrightarrow> c b d \<le> 0 \<Longrightarrow> c a d \<le> 0"
    and "n \<le> length xs"
  shows "(0 < ElementSize \<longrightarrow> (\<exists>ys. PerformQuickSort True (Some xs) n ElementSize (Some c) = Some ys
      \<and> mset ys = mset xs \<and> drop n ys = drop n xs \<and> sorted_wrt (\<lambda>a b. c a b \<le> 0) (take n ys)))
    \<and> PerformQuickSort True (Some xs) n 0 (Some c) = Some xs
    \<and> PerformQuickSort False (Some xs) n ElementSize (Some c) = None
    \<and> PerformQuickSort Pool None n ElementSize (Some c) = None \<and> PerformQuickSort Pool (Some xs) n ElementSize None = None"
proof -
  let ?ys = "QuickSortWorker c ElementSize 0 n xs"
  have "mset ?ys = mset xs \<and> drop n ?ys = drop n xs \<and> sorted_wrt (\<lambda>a b. c a b \<le> 0) (take n ?ys)" if "0 < ElementSize"
  proof -
    have p: "part_perm 0 n xs ?ys" and s: "sorted_part c 0 n ?ys"
      using worker_sorts[OF assms(1,2) that, where base = 0 and n = n and xs = xs] assms(3) by simp_all
    have "drop n ?ys = drop n xs" using p by (intro nth_equalityI) (auto simp: part_perm_def)
    then show ?thesis using p s by (auto simp: part_perm_def sorted_part_def sorted_wrt_iff_nth_less)
  qed
  moreover have "QuickSortWorker c 0 0 n xs = xs" by (subst QuickSortWorker.simps) simp
  ultimately show ?thesis by (simp add: PerformQuickSort_def ASSERT_def)
qed

theorem quicksort_sorts_witness:
  "(\<exists>ys. PerformQuickSort True (Some [3::int, 1, 2, 0]) 3 8 (Some (-)) = Some ys
      \<and> mset ys = mset [3, 1, 2, 0] \<and> drop 3 ys = [0] \<and> sorted_wrt (\<lambda>a b. a - b \<le> 0) (take 3 ys))"
proof -
  have "a - b \<le> 0 \<or> b - a \<le> 0" for a b :: int by linarith
  then show ?thesis using quicksort_sorts[of "(-)" 3 "[3::int, 1, 2, 0]" 8 True] by simp
qed

end
