(* ===== verification/Spec2Isabelle.thy ===== *)
theory Spec2Isabelle
  imports LinkedList SafeInt Dxe_Open Dxe_MemoryMap Dxe_Depex Ipmi_Kcs CheckSum BaseSort
begin

text \<open>
  A verification library for the core of liano, a UEFI firmware tree: the MdePkg base libraries, the DXE core of
  MdeModulePkg and the author's own KarlPkg, built for X64. Source paths below are relative to src/.

  \<^bold>\<open>The program.\<close> The DXE core (MdeModulePkg/Core/Dxe) gives drivers their boot services. Its event services queue
  notification functions by task priority level; raising a level masks the notifications at or below it, restoring a level runs the pending ones,
  and every lock of the core is a pair of these. The timer services sit on the events. The handle database keeps which interface of which protocol is
  installed on which handle, under a lock of the core, and signals the events that drivers registered for a protocol. The global coherency
  domain keeps two maps, which resource is at which address of memory and of I/O space and who owns it, filled from the hand-off blocks of the phase
  before and each under its own lock. The page services (Core/Dxe/Mem) hand out the memory that the coherency domain knows as system memory: they keep
  their own map of descriptors, under the memory lock, in a small array and in pages they allocate for themselves. The dispatcher decides from
  dependency expressions over installed protocols which driver may start, and every driver uses the base libraries: intrusive linked lists, 64-bit arithmetic, checked integer
  arithmetic, checksums and sorting. KarlPkg adds an IPMI driver that talks to a management controller over the
  KCS registers.

  \<^bold>\<open>Reading the model.\<close> Machine integers are words of their width. A call that may not return has an option result: None is a
  failed ASSERT (in the modelled DEBUG build it stops the processor), an access outside the memory a model follows, or a loop still running when its
  fuel is spent; a theorem that gives Some therefore says that no ASSERT fires and that every loop ends. Status codes are
  values of the result. Services of other components (allocator, processor protocols, port I/O, comparison and notification functions of
  drivers) are parameters, with what is relied on as hypotheses of the theorems.

  \<^bold>\<open>Theories.\<close>
  \<^item> \<^verbatim>\<open>Liano_Prelude\<close>: machine types, status codes, ASSERT, shared lemmas on lists, options and words.
  \<^item> \<^verbatim>\<open>LinkedList\<close> (MdePkg/Library/BaseLib/LinkedList.c): every list function on an explicit heap of nodes, with its ASSERTs and
    the PCDs that bound and verify lists. The abstract list of a circular chain is a HOL list, and insertion, removal, swapping and the
    queries are proved to refine it; the locale list_library states that interface, is interpreted on the heap
    operations and gives the first-in first-out behaviour.
  \<^item> \<^verbatim>\<open>BaseMath\<close> (BaseLib: Math64.c and the wrappers of shifts, rotations, byte swaps, multiplication, division and bit scans) and
    \<^verbatim>\<open>SafeInt\<close> (BaseSafeIntLib: SafeIntLib.c and SafeIntLib64.c, all conversions and checked operations): exactness against the
    mathematical operation, on both sides of every bound.
  \<^item> \<^verbatim>\<open>CheckSum\<close> (BaseLib/CheckSum.c): sums, checksums and the table driven CRC-32 against the bitwise definition.
  \<^item> \<^verbatim>\<open>BaseSort\<close> (MdeModulePkg/Library/BaseSortLib): the in-place quicksort permutes its part of the buffer and sorts it.
  \<^item> \<^verbatim>\<open>Dxe_Tpl\<close> (Core/Dxe/Event/Tpl.c, Core/Dxe/Library/Library.c, CoreDispatchEventNotifies of Event.c): the state record of the event services,
    priority levels, locks and the dispatch of queued notifications, which restoring a level and releasing a lock call back into.
  \<^item> \<^verbatim>\<open>Dxe_Event\<close> (Event.c): creating, signalling, checking and waiting for events, event groups.
  \<^item> \<^verbatim>\<open>Dxe_Timer\<close> (Timer.c, the rest of Event.c, and what closing an event calls in Hand/Handle.c): setting timers, ticks, the timer check,
    closing events, initialisation, and the invariant of all services together when notification functions keep their contract.
  \<^item> \<^verbatim>\<open>Dxe_Handle\<close> (Core/Dxe/Hand: Handle.c, Notify.c, Locate.c): the services of the handle database on explicit handle,
    interface, entry, opener and notification structures, found by their addresses as in the code.
  \<^item> \<^verbatim>\<open>Dxe_HandleInv\<close>, \<^verbatim>\<open>Dxe_HandleOps\<close>: the invariant that ties handles, interfaces and protocol entries together, the abstract map
    from handles and protocols to interfaces, and the runs of opening, installing and uninstalling between taking and releasing the lock.
  \<^item> \<^verbatim>\<open>Dxe_Locate\<close>: the locale get_next, the contract of the functions that CoreLocateHandle enumerates with, interpreted on the search for
    all handles and for a protocol; the answers of CoreLocateHandle and CoreLocateProtocol.
  \<^item> \<^verbatim>\<open>Dxe_Database\<close>: the locale service, a service that keeps a promise about an abstract state on every call keeps it on every sequence of
    calls, interpreted on the database with the map as its state. \<^verbatim>\<open>Dxe_Open\<close>: openers, their exclusion, and closing.
  \<^item> \<^verbatim>\<open>Gcd_Map\<close> (Core/Dxe/Gcd/Gcd.c, the entries of the maps): searching, splitting, converting and merging entries, proved against the
    abstract map from addresses to resources that a list of entries stands for. \<^verbatim>\<open>Dxe_Gcd\<close> (the rest of Gcd.c): every service on the two maps.
  \<^item> \<^verbatim>\<open>Gcd_Search\<close>: alignment and the searches for free space. \<^verbatim>\<open>Dxe_GcdOps\<close>: the locale gcd_space, a map under its lock, interpreted on the
    memory map and on the I/O map; conversion, allocation and freeing as operations on addresses. \<^verbatim>\<open>Dxe_GcdInit\<close>: the initialisation from the HOBs.
  \<^item> \<^verbatim>\<open>Mem_Map\<close> (Core/Dxe/Mem/Page.c, the descriptors of the memory map): adding a range, pulling one out, searching for free pages.
    \<^verbatim>\<open>Mem_MapOps\<close>: the map from addresses to types and attributes that a list of descriptors stands for, and what each step does to it.
  \<^item> \<^verbatim>\<open>Dxe_Page\<close> (the rest of Page.c): converting, promoting, allocating and freeing pages, the bins of the memory types, and the descriptors' own
    storage; its state is the user part of the GCD state. \<^verbatim>\<open>Dxe_PageOps\<close>: the locale map_stack states what a conversion needs of the function that moves
    descriptors off the array, and is interpreted on CoreFreeMemoryMapStack; the services as operations on addresses.
  \<^item> \<^verbatim>\<open>Dxe_MemoryMap\<close> (CoreGetMemoryMap and CoreTerminateMemoryMap of Page.c, MergeMemoryMap of Misc/MemoryAttributesTable.c): the descriptors for the operating
    system, gathered from the memory map and the memory part of the coherency domain under both locks.
  \<^item> \<^verbatim>\<open>Dxe_Depex\<close> (Core/Dxe/Dispatcher/Dependency.c): the evaluator of dependency expressions on its growing stack. The locales bool_stack and
    roomy_stack state what the evaluator needs of the stack; they are interpreted on the array operations.
  \<^item> \<^verbatim>\<open>Ipmi_Kcs\<close> (KarlPkg/Ipmi/Kcs): the register protocol, commands and the driver's start against any controller.

  \<^bold>\<open>What the theorems show.\<close> Of the event services: the order of dispatch, that nothing stays pending above a restored level, that locks exclude and
  release, what every service does on every branch, that the timer list stays ordered and expired timers are signalled and re-armed, that
  the invariant of the queues holds initially and after every service, and that a period wrapping around the clock hangs the timer check.
  Of the handle database: every sequence of installations, removals and look-ups implements a map, the searches for handles are exact, at most one
  driver or exclusive opener has an interface, closing undoes opening.
  Of the global coherency domain: a conversion changes exactly its range of addresses or nothing, an allocation takes an aligned free range of its type
  (the lowest when it searches from below), freeing undoes it, the initialisation makes maps that tile their spaces; a range that wraps around 2^64 breaks
  a map, and attributes leak from one entry to the next.
  Of the page services: an allocation takes exactly a free range of its size and fails only if there is none, the search finds the highest one, an
  allocation at an address succeeds on exactly the stated conditions, freeing works page by page and leaves a partial effect when it fails, freeing undoes allocating,
  a request for 2^52 pages and more wraps around, and the map for the operating system says of every address exactly what the two maps know of it.
  Of the dependency expressions: the evaluator answers the Boolean value of a well-formed expression, and TRUE only for an accepted
  one; the theorem of this theory puts it on top of the handle database. Of the KCS driver: waits end, a write sends the whole message, a read skips every second byte of its buffer, and
  the driver cannot start. Of the libraries: refinement of abstract lists, exact arithmetic, checksums that close a buffer, sorting.

  \<^bold>\<open>Fuel.\<close> Dispatching notifications runs functions of drivers that may raise and restore levels again, without a bound in the
  code, so these services take fuel; the theorems give Some for every sufficient fuel (the number of pending
  events with functions that return), or follow a run that does return. The search for free space goes back to the entry that
  refused a candidate, so it takes fuel too; one step more than the map has entries is enough. A conversion of pages takes
  fuel for its descriptors and for the nesting of conversions that allocate descriptors: 34 (the levels of priority, for the lock and for the array) and one more than the number of pages
  are enough. The theorems on the page services ask that a few descriptors are free (so that no page is allocated for
  descriptors), that no event waits for changes of the memory map, and where the search would otherwise add memory, that the coherency domain has nothing left to promote. The waits of the KCS driver and the walks over lists
  are bounded by the code's own limits and need no fuel beyond them.

  \<^bold>\<open>Not modelled.\<close> CoreInstallMultipleProtocolInterfaces and CoreLocateDevicePath (they work on device paths), connecting drivers (a parameter of the
  handle database), the pool allocator and the guard pages around allocations, the contents of memory pages, loading modules at
  fixed addresses (CoreLoadingFixedAddressHook) and the memory attributes table; the choice of the first memory region
  (CoreInitializeMemoryServices), the debug dumps of the maps, image loading, the dispatcher's
  queues, the PEI and SMM cores, variable storage, bus drivers, the network stack, the shell, the user interface and platform code: register
  level input and output, wrappers of code outside the tree, or parts still to be done. The refill of the free descriptors by a nested allocation
  is modelled, but no theorem is about it. The red-black tree library, bit fields and safe strings come next.
\<close>

section \<open>The dispatcher on the handle database\<close>

text \<open>What the evaluator asks the database: whether CoreLocateProtocol finds an interface of the protocol.\<close>

definition protocol_located :: "nat \<Rightarrow> 'w notify \<Rightarrow> EFI_GUID \<Rightarrow> 'w DXE \<Rightarrow> bool" where
  "protocol_located n notify g s =
     (case CoreLocateProtocol n notify (Some g) 0 True s of Some (Status, _, _) \<Rightarrow> \<not> EFI_ERROR Status | None \<Rightarrow> False)"

lemma protocol_located_iff:
  assumes "ready run n notify s" "mEfiLocateHandleRequest (hand s) \<noteq> - 1"
  shows "protocol_located n notify g s \<longleftrightarrow> (\<exists>h. protocols s h g \<noteq> None)"
proof -
  obtain st out t where t: "CoreLocateProtocol n notify (Some g) 0 True s = Some (st, out, t)" "promised (LocateCall g) (protocols s) (st, out) (protocols t)"
    using serve_locate[OF assms, of undefined undefined g] by auto
  then show ?thesis by (auto simp: protocol_located_def split: if_splits)
qed



end
